(* ===== verification/Relay_Prelude.thy ===== *)
theory Relay_Prelude
  imports Main "HOL-Library.Word" "HOL-Library.Signed_Division" "HOL-Library.AList"
begin

text \<open>
  Shared vocabulary of the development: Go's byte slices, big-endian integers, time stamps and
  durations, machine runs, and the two interface locales most components are stated against.

  \<^item> \<open>byte\<close>, \<open>bytes\<close>: \<open>uint8\<close> and \<open>[]byte\<close>. A Go \<open>int\<close> that counts bytes or items is an
    unbounded \<open>int\<close> or \<open>nat\<close> (a slice length never reaches \<open>2^63\<close>); conversions to a narrower
    type (\<open>uint32(len(x))\<close>) are written out with \<open>word_of_nat\<close>.
  \<^item> \<open>time\<close>: nanoseconds since Go's zero time, so the zero \<open>time.Time\<close> is \<open>0\<close>;
    \<open>time_sub\<close> is \<open>Time.Sub\<close>, which saturates at the bounds of \<open>time.Duration\<close>.
  \<^item> \<open>run_machine\<close> folds a handler over a list of events, collecting the outputs. The locale
    \<open>invariant_machine\<close> lifts a one-step invariant to every run.
  \<^item> The locale \<open>wire_codec\<close> is the contract of an encoder and a decoder of a wire format; the
    multiplexed gateway frame and the binary encrypted frame are interpretations of it.
\<close>

named_theorems wire_simps \<open>unfolding rules of the wire formats\<close>
named_theorems go_simps \<open>unfolding rules of Go library operations\<close>

section \<open>Types\<close>

type_synonym byte = "8 word"
type_synonym bytes = "byte list"
type_synonym time = int
type_synonym duration = int
type_synonym 'v gomap = "string \<Rightarrow> 'v option"

text \<open>Durations in nanoseconds.\<close>

definition second :: duration where
  "second = 1000000000"

definition millisecond :: duration where
  "millisecond = 1000000"

definition max_duration :: duration where
  "max_duration = 2 ^ 63 - 1"

definition min_duration :: duration where
  "min_duration = - (2 ^ 63)"

definition time_sub :: "time \<Rightarrow> time \<Rightarrow> duration" where
  "time_sub t u = max min_duration (min max_duration (t - u))"

definition is_zero_time :: "time \<Rightarrow> bool" where
  "is_zero_time t \<longleftrightarrow> t = 0"

text \<open>The Unix epoch, in nanoseconds after the zero time (1 January of year 1).\<close>

definition unix_epoch :: time where
  "unix_epoch = 62135596800 * 1000000000"

definition unix_milli :: "time \<Rightarrow> int" where
  "unix_milli t = (t - unix_epoch) div 1000000"

lemma unix_milli_mono: "t \<le> u \<Longrightarrow> unix_milli t \<le> unix_milli u"
  by (simp add: unix_milli_def zdiv_mono1)

lemma time_sub_exact [go_simps]:
  assumes "\<bar>t - u\<bar> < 2 ^ 63"
  shows "time_sub t u = t - u"
proof -
  have "- (2 ^ 63) \<le> t - u" and "t - u \<le> 2 ^ 63 - 1"
    using assms by linarith+
  then show ?thesis
    by (simp add: time_sub_def max_duration_def min_duration_def)
qed

lemma time_sub_self [simp]: "time_sub t t = 0"
  by (simp add: time_sub_def max_duration_def min_duration_def)

lemma time_sub_mono: "t \<le> t' \<Longrightarrow> time_sub t u \<le> time_sub t' u"
  by (auto simp: time_sub_def)

lemma time_sub_antimono: "u \<le> u' \<Longrightarrow> time_sub t u' \<le> time_sub t u"
  by (auto simp: time_sub_def)

lemma time_sub_ge_iff:
  "0 < w \<Longrightarrow> w \<le> max_duration \<Longrightarrow> w \<le> time_sub t u \<longleftrightarrow> u + w \<le> t"
  by (auto simp: time_sub_def min_duration_def max_duration_def)

text \<open>Arithmetic on Go's \<open>int64\<close> (and \<open>time.Duration\<close>) wraps around.\<close>

definition int64 :: "int \<Rightarrow> int" where
  "int64 x = signed_take_bit 63 x"

lemma int64_exact: "- (2 ^ 63) \<le> x \<Longrightarrow> x < 2 ^ 63 \<Longrightarrow> int64 x = x"
  by (simp add: int64_def signed_take_bit_int_eq_self)

lemma int64_overflow:
  assumes "2 ^ 63 \<le> x" "x < 2 ^ 64"
  shows "int64 x = x - 2 ^ 64" "int64 x < 0"
proof -
  have "int64 (x - 2 ^ 64) = x - 2 ^ 64"
    using assms by (intro int64_exact) auto
  moreover have "int64 (x - 2 ^ 64) = int64 x"
    by (simp add: int64_def signed_take_bit_eq_iff_take_bit_eq take_bit_eq_mod)
  ultimately show "int64 x = x - 2 ^ 64" by simp
  then show "int64 x < 0" using assms(2) by simp
qed

section \<open>Big-endian integers\<close>

text \<open>\<open>be_encode n v\<close> writes the low \<open>n\<close> bytes of \<open>v\<close>, most significant first, as
  \<open>binary.BigEndian.PutUint32\<close> (\<open>n = 4\<close>) and \<open>PutUint64\<close> (\<open>n = 8\<close>) do.\<close>

primrec be_encode :: "nat \<Rightarrow> nat \<Rightarrow> bytes" where
  "be_encode 0 v = []"
| "be_encode (Suc n) v = word_of_nat (v div 256 ^ n) # be_encode n v"

definition be_decode :: "bytes \<Rightarrow> nat" where
  "be_decode bs = foldl (\<lambda>acc b. acc * 256 + unat b) 0 bs"

lemma length_be_encode [simp]: "length (be_encode n v) = n"
  by (induction n) auto

lemma foldl_be: "foldl (\<lambda>acc b. acc * 256 + unat b) a bs = a * 256 ^ length bs + be_decode bs"
  for bs :: bytes
proof (induction bs arbitrary: a)
  case Nil
  then show ?case by (simp add: be_decode_def)
next
  case (Cons b bs)
  have "be_decode (b # bs) = foldl (\<lambda>acc b. acc * 256 + unat b) (unat b) bs"
    by (simp add: be_decode_def)
  then show ?case
    by (simp only: foldl.simps list.size Cons.IH [of "a * 256 + unat b"] Cons.IH [of "unat b"])
      (simp add: algebra_simps)
qed

lemma be_decode_Nil [simp]: "be_decode [] = 0"
  by (simp add: be_decode_def)

lemma be_decode_Cons [simp]: "be_decode (b # bs) = unat b * 256 ^ length bs + be_decode bs"
  using foldl_be [of "unat b" bs] by (simp add: be_decode_def)

lemma unat_byte: "unat (word_of_nat m :: byte) = m mod 256"
  by (simp add: unat_of_nat)

lemma unat_byte_less: "unat (b :: byte) < 256"
  using unsigned_less [of b] by simp

lemma be_decode_less: "be_decode bs < 256 ^ length bs"
proof (induction bs)
  case Nil
  then show ?case by simp
next
  case (Cons b bs)
  have "unat b * 256 ^ length bs + be_decode bs < unat b * 256 ^ length bs + 256 ^ length bs"
    using Cons.IH by simp
  also have "\<dots> = (unat b + 1) * 256 ^ length bs"
    by (simp add: algebra_simps)
  also have "\<dots> \<le> 256 * 256 ^ length bs"
    using unat_byte_less [of b] by (intro mult_le_mono1) simp
  finally show ?case by simp
qed

lemma be_decode_encode: "be_decode (be_encode n v) = v mod 256 ^ n"
proof (induction n)
  case 0
  then show ?case by simp
next
  case (Suc n)
  have "v mod (256 ^ n * 256) = 256 ^ n * (v div 256 ^ n mod 256) + v mod 256 ^ n"
    by (rule mod_mult2_eq)
  then show ?case
    by (simp add: Suc.IH unat_byte mult.commute)
qed

lemma be_decode_encode_id [simp]: "v < 256 ^ n \<Longrightarrow> be_decode (be_encode n v) = v"
  by (simp add: be_decode_encode)

lemma word_of_nat_256: "(word_of_nat (j * 256 + w) :: byte) = word_of_nat w"
proof -
  have "(word_of_nat 256 :: byte) = 0" by simp
  then have "(word_of_nat (j * 256) :: byte) = 0"
    by (simp only: of_nat_mult) simp
  then show ?thesis by (simp only: of_nat_add add_0_left)
qed

lemma be_encode_mod: "be_encode n (k * 256 ^ n + v) = be_encode n v"
proof -
  have "be_encode m (k * 256 ^ n + v) = be_encode m v" if "m \<le> n" for m
    using that
  proof (induction m)
    case 0
    then show ?case by simp
  next
    case (Suc m)
    then obtain d where n: "n = Suc m + d"
      using le_Suc_ex by blast
    have "k * 256 ^ n + v = v + 256 ^ m * (k * 256 ^ d * 256)"
      by (simp add: n power_add)
    also have "\<dots> div 256 ^ m = k * 256 ^ d * 256 + v div 256 ^ m"
      by (rule div_mult_self2) simp
    finally have "(k * 256 ^ n + v) div 256 ^ m = k * 256 ^ d * 256 + v div 256 ^ m" .
    then have "(word_of_nat ((k * 256 ^ n + v) div 256 ^ m) :: byte)
        = word_of_nat (v div 256 ^ m)"
      using word_of_nat_256 [of "k * 256 ^ d" "v div 256 ^ m"] by simp
    with Suc show ?case by simp
  qed
  then show ?thesis by simp
qed

lemma be_encode_decode: "length bs = n \<Longrightarrow> be_encode n (be_decode bs) = bs"
proof (induction bs arbitrary: n)
  case Nil
  then show ?case by simp
next
  case (Cons b bs)
  let ?m = "length bs"
  have "(unat b * 256 ^ ?m + be_decode bs) div 256 ^ ?m = unat b"
    using be_decode_less [of bs] by (simp add: div_add1_eq)
  moreover have "be_encode ?m (unat b * 256 ^ ?m + be_decode bs) = bs"
    using Cons.IH [of ?m] by (simp add: be_encode_mod)
  ultimately show ?case
    using Cons.prems by auto
qed

lemma be_encode_4:
  "be_encode 4 v =
     [word_of_nat (v div 16777216), word_of_nat (v div 65536), word_of_nat (v div 256), word_of_nat v]"
proof -
  have "4 = Suc (Suc (Suc (Suc 0)))" by simp
  then show ?thesis by (simp only: be_encode.simps) simp
qed

lemma be_encode_inj: "be_encode n v = be_encode n w \<Longrightarrow> v < 256 ^ n \<Longrightarrow> w < 256 ^ n \<Longrightarrow> v = w"
  by (metis be_decode_encode_id)

section \<open>Decimal numbers\<close>

text \<open>\<open>strconv.FormatUint(n, 10)\<close>, also \<open>%d\<close> of a natural number.\<close>

fun decimal :: "nat \<Rightarrow> string" where
  "decimal n = (if n < 10 then [''0123456789'' ! n] else decimal (n div 10) @ [''0123456789'' ! (n mod 10)])"

declare decimal.simps [simp del]

section \<open>Runs of a handler\<close>

primrec run_machine :: "('s \<Rightarrow> 'e \<Rightarrow> 's \<times> 'o) \<Rightarrow> 's \<Rightarrow> 'e list \<Rightarrow> 's \<times> 'o list" where
  "run_machine step s [] = (s, [])"
| "run_machine step s (e # es) =
     (let (s', out) = step s e; (s'', outs) = run_machine step s' es in (s'', out # outs))"

lemma fst_run_machine_Cons [simp]:
  "fst (run_machine step s (e # es)) = fst (run_machine step (fst (step s e)) es)"
  by (simp add: case_prod_beta Let_def)

lemma snd_run_machine_Cons [simp]:
  "snd (run_machine step s (e # es)) = snd (step s e) # snd (run_machine step (fst (step s e)) es)"
  by (simp add: case_prod_beta Let_def)

declare run_machine.simps(2) [simp del]

lemma run_machine_append:
  "run_machine step s (xs @ ys) =
     (let (s', o1) = run_machine step s xs; (s'', o2) = run_machine step s' ys in (s'', o1 @ o2))"
  by (induction xs arbitrary: s) (auto simp: run_machine.simps(2) Let_def case_prod_beta)

lemma length_run_machine [simp]: "length (snd (run_machine step s es)) = length es"
  by (induction es arbitrary: s) auto

text \<open>An invariant of a handler, for the events the environment may offer.\<close>

locale invariant_machine =
  fixes step :: "'s \<Rightarrow> 'e \<Rightarrow> 's \<times> 'o"
    and ok :: "'e \<Rightarrow> bool"
    and inv :: "'s \<Rightarrow> bool"
  assumes step_inv: "inv s \<Longrightarrow> ok e \<Longrightarrow> inv (fst (step s e))"
begin

lemma run_inv: "inv s \<Longrightarrow> list_all ok es \<Longrightarrow> inv (fst (run_machine step s es))"
proof (induction es arbitrary: s)
  case Nil
  then show ?case by simp
next
  case (Cons e es)
  then have "inv (fst (step s e))"
    by (simp add: step_inv)
  with Cons show ?case by simp
qed

lemma run_outputs:
  assumes "\<And>s e. inv s \<Longrightarrow> ok e \<Longrightarrow> P (snd (step s e))"
    and "inv s" and "list_all ok es"
  shows "list_all P (snd (run_machine step s es))"
  using assms(2,3)
proof (induction es arbitrary: s)
  case Nil
  then show ?case by simp
next
  case (Cons e es)
  then have "inv (fst (step s e))" and "P (snd (step s e))"
    by (simp_all add: step_inv assms(1))
  with Cons show ?case by simp
qed

end

lemma update_new_key: "k \<notin> fst ` set xs \<Longrightarrow> AList.update k v xs = xs @ [(k, v)]"
  by (induction xs) auto

lemma length_update_keys: "length (AList.update k v xs) = length xs + (if k \<in> fst ` set xs then 0 else 1)"
  by (induction xs) auto

lemma set_update_subset: "set (AList.update k v xs) \<subseteq> insert (k, v) (set xs)"
  by (induction xs) auto

section \<open>Wire formats\<close>

text \<open>The contract of an encoder and a decoder: every valid value survives the wire, and whatever
  the decoder accepts is the encoding of a valid value.\<close>

locale wire_codec =
  fixes enc :: "'a \<Rightarrow> bytes"
    and dec :: "bytes \<Rightarrow> 'e + 'a"
    and valid :: "'a \<Rightarrow> bool"
  assumes dec_enc: "valid x \<Longrightarrow> dec (enc x) = Inr x"
    and dec_sound: "dec bs = Inr x \<Longrightarrow> valid x \<and> enc x = bs"
begin

lemma enc_inj: "valid x \<Longrightarrow> valid y \<Longrightarrow> enc x = enc y \<Longrightarrow> x = y"
  by (metis dec_enc sum.inject(2))

lemma dec_inj: "dec bs = Inr x \<Longrightarrow> dec bs' = Inr x \<Longrightarrow> bs = bs'"
  by (metis dec_sound)

lemma dec_accepts_iff: "(\<exists>x. dec bs = Inr x) \<longleftrightarrow> (\<exists>x. valid x \<and> enc x = bs)"
proof
  assume "\<exists>x. dec bs = Inr x"
  then obtain x where "dec bs = Inr x" ..
  then show "\<exists>x. valid x \<and> enc x = bs"
    using dec_sound [of bs x] by (intro exI) simp
next
  assume "\<exists>x. valid x \<and> enc x = bs"
  then obtain x where "valid x" and "enc x = bs" by auto
  then show "\<exists>x. dec bs = Inr x"
    using dec_enc [of x] by (intro exI) simp
qed

lemma dec_enc_list: "list_all valid xs \<Longrightarrow> map (\<lambda>x. dec (enc x)) xs = map Inr xs"
  by (induction xs) (auto simp: dec_enc)

end

section \<open>Lists and maps\<close>

lemma take_nat_int: "take (nat (int k)) xs = take k xs"
  by simp

definition delete_key :: "'v gomap \<Rightarrow> string \<Rightarrow> 'v gomap" where
  "delete_key m k = m(k := None)"

lemma delete_key_lookup [simp]: "delete_key m k k' = (if k' = k then None else m k')"
  by (simp add: delete_key_def)

lemma dom_delete_key [simp]: "dom (delete_key m k) = dom m - {k}"
  by (simp add: delete_key_def)

lemma distinct_fst_filter: "distinct (map fst L) \<Longrightarrow> distinct (map fst (filter P L))"
  by (induction L) auto

end
