(* ===== verification/Framing.thy ===== *)
theory Framing
  imports Relay_Prelude
begin

unbundle bit_operations_syntax

text \<open>
  Chunk framing, \<^verbatim>\<open>internal/framing/framing.go\<close>: \<open>Count\<close> and \<open>Chunk\<close> split a logical frame
  into bounded chunks, the \<open>Reassembler\<close> (\<open>Push\<close>, \<open>Expired\<close>, \<open>Reset\<close>) puts it back together.

  Go's run-time panics (a division by zero in \<open>Count\<close>, a slice expression out of range in \<open>Chunk\<close>)
  are the value \<open>None\<close>. The single allocation \<open>Chunk\<close> carves its parts out of is kept as the pair
  of its length and the running offset, so that an overrun would show as a panic. \<open>time.Now()\<close> is
  an argument of \<open>Push\<close>.
\<close>

section \<open>Constants and errors\<close>

definition Version :: byte where "Version = 1"
definition HeaderSize :: int where "HeaderSize = 2"
definition LengthPrefixSize :: int where "LengthPrefixSize = 4"
definition FlagStart :: byte where "FlagStart = push_bit 0 1"
definition FlagEnd :: byte where "FlagEnd = push_bit 1 1"
definition flagKnown :: byte where "flagKnown = FlagStart OR FlagEnd"
definition MaxLogicalBytes :: int where "MaxLogicalBytes = 21 * 1024 * 1024"
definition StallTimeout :: duration where "StallTimeout = 30 * second"
definition WebRTCChunkSize :: int where "WebRTCChunkSize = 16384"
definition GatewayChunkSize :: int where "GatewayChunkSize = 262144"

datatype framing_error = ErrChunkMalformed | ErrChunkSequence | ErrFrameTooLarge | ErrChunkSize

section \<open>Splitting a frame\<close>

definition Count :: "int \<Rightarrow> int \<Rightarrow> int option" where
  "Count n maxChunk =
     (let start = maxChunk - HeaderSize - LengthPrefixSize
      in if n \<le> start then Some 1
         else let cont = maxChunk - HeaderSize
              in if cont = 0 then None
                 else Some (1 + (n - start + cont - 1) sdiv cont))"

text \<open>The loop of \<open>Chunk\<close>: \<open>k\<close> iterations are left, the next one has the given index. \<open>totalLen\<close> is
  \<open>len(logical)\<close>, \<open>bufLen\<close> the size of the allocation.\<close>

primrec chunk_loop ::
  "nat \<Rightarrow> int \<Rightarrow> int \<Rightarrow> int \<Rightarrow> int \<Rightarrow> int \<Rightarrow> int \<Rightarrow> bytes \<Rightarrow> bytes list \<Rightarrow> bytes list option" where
  "chunk_loop 0 index count maxChunk totalLen bufLen offset remaining dst = Some dst"
| "chunk_loop (Suc k) index count maxChunk totalLen bufLen offset remaining dst =
     (let body0 = (if index = 0 then maxChunk - HeaderSize - LengthPrefixSize
                   else maxChunk - HeaderSize);
          size0 = (if index = 0 then HeaderSize + LengthPrefixSize else HeaderSize);
          body = (if body0 > int (length remaining) then int (length remaining) else body0);
          size = size0 + body;
          flags = (if index = 0 then FlagStart else 0) OR (if index = count - 1 then FlagEnd else 0);
          prefix = (if index = 0 then be_encode 4 (unat (word_of_int totalLen :: 32 word)) else []);
          part = [Version, flags] @ prefix @ take (nat body) remaining
      in if body < 0 \<or> offset + size > bufLen then None
         else chunk_loop k (index + 1) count maxChunk totalLen bufLen (offset + size)
                (drop (nat body) remaining) (dst @ [part]))"

definition Chunk :: "bytes list \<Rightarrow> bytes \<Rightarrow> int \<Rightarrow> bytes list option" where
  "Chunk dst logical maxChunk =
     (case Count (int (length logical)) maxChunk of
        None \<Rightarrow> None
      | Some count \<Rightarrow>
          (let bufLen = int (length logical) + LengthPrefixSize + count * HeaderSize
           in if bufLen < 0 then None
              else chunk_loop (nat count) 0 count maxChunk (int (length logical)) bufLen 0
                     logical dst))"

section \<open>Reassembly\<close>

record reassembler =
  ra_maxChunk :: int
  ra_buf :: bytes
  ra_want :: int
  ra_active :: bool
  ra_updated :: time

definition NewReassembler :: "int \<Rightarrow> reassembler" where
  "NewReassembler m = \<lparr>ra_maxChunk = m, ra_buf = [], ra_want = 0, ra_active = False, ra_updated = 0\<rparr>"

text \<open>The two branches of \<open>Push\<close> before the END test: the state they leave and the error they
  return, if any.\<close>

definition push_start :: "reassembler \<Rightarrow> time \<Rightarrow> bytes \<Rightarrow> reassembler \<times> framing_error option" where
  "push_start r now payload =
     (if ra_active r then (r, Some ErrChunkSequence)
      else if int (length payload) < LengthPrefixSize then (r, Some ErrChunkMalformed)
      else let declared = int (be_decode (take 4 payload))
           in if declared > MaxLogicalBytes then (r, Some ErrFrameTooLarge)
              else let body = drop (nat LengthPrefixSize) payload;
                       r1 = r\<lparr>ra_want := declared\<rparr>
                   in if int (length body) > ra_want r1 then (r1, Some ErrChunkMalformed)
                      else (r1\<lparr>ra_buf := body, ra_active := True, ra_updated := now\<rparr>, None))"

definition push_continue :: "reassembler \<Rightarrow> time \<Rightarrow> bytes \<Rightarrow> reassembler \<times> framing_error option" where
  "push_continue r now payload =
     (if \<not> ra_active r then (r, Some ErrChunkSequence)
      else if int (length (ra_buf r)) + int (length payload) > ra_want r then (r, Some ErrChunkMalformed)
      else (r\<lparr>ra_buf := ra_buf r @ payload, ra_updated := now\<rparr>, None))"

definition push_end :: "reassembler \<Rightarrow> bool \<Rightarrow> reassembler \<times> (framing_error + bytes option)" where
  "push_end r fin =
     (if \<not> fin then (r, Inr None)
      else if int (length (ra_buf r)) \<noteq> ra_want r then (r, Inl ErrChunkMalformed)
      else (r\<lparr>ra_buf := [], ra_want := 0, ra_active := False\<rparr>, Inr (Some (ra_buf r))))"

definition Push :: "reassembler \<Rightarrow> time \<Rightarrow> bytes \<Rightarrow> reassembler \<times> (framing_error + bytes option)" where
  "Push r now part =
     (if ra_maxChunk r \<le> HeaderSize + LengthPrefixSize then (r, Inl ErrChunkSize)
      else if int (length part) < HeaderSize \<or> int (length part) > ra_maxChunk r \<or> part ! 0 \<noteq> Version
        then (r, Inl ErrChunkMalformed)
      else if part ! 1 AND NOT flagKnown \<noteq> 0 then (r, Inl ErrChunkMalformed)
      else let flags = part ! 1;
               payload = drop (nat HeaderSize) part;
               start = (flags AND FlagStart \<noteq> 0);
               fin = (flags AND FlagEnd \<noteq> 0)
           in case (if start then push_start r now payload else push_continue r now payload) of
                (r', Some e) \<Rightarrow> (r', Inl e)
              | (r', None) \<Rightarrow> push_end r' fin)"

definition Expired :: "reassembler \<Rightarrow> time \<Rightarrow> bool" where
  "Expired r now \<longleftrightarrow> ra_active r \<and> time_sub now (ra_updated r) > StallTimeout"

definition Reset :: "reassembler \<Rightarrow> reassembler" where
  "Reset r = r\<lparr>ra_buf := [], ra_want := 0, ra_active := False\<rparr>"

text \<open>One direction of a connection: each event is a chunk with its time of arrival.\<close>

definition push_event :: "reassembler \<Rightarrow> time \<times> bytes \<Rightarrow> reassembler \<times> (framing_error + bytes option)" where
  "push_event r e = Push r (fst e) (snd e)"

section \<open>Library lemmas\<close>

lemmas framing_consts [wire_simps] =
  Version_def HeaderSize_def LengthPrefixSize_def FlagStart_def FlagEnd_def flagKnown_def

lemma flag_facts [simp]:
  "FlagStart AND FlagStart = FlagStart" "FlagEnd AND FlagStart = 0" "FlagStart AND FlagEnd = 0"
  "(FlagStart OR FlagEnd) AND FlagStart = FlagStart" "(FlagStart OR FlagEnd) AND FlagEnd = FlagEnd"
  "FlagStart \<noteq> 0" "FlagEnd \<noteq> 0"
  "FlagStart AND NOT flagKnown = 0" "FlagEnd AND NOT flagKnown = 0"
  "(FlagStart OR FlagEnd) AND NOT flagKnown = 0"
  by (simp_all add: framing_consts)

text \<open>A chunk as \<open>Chunk\<close> writes it passes the checks on its header.\<close>

lemma Push_header:
  assumes "ra_maxChunk r > 6" "int (length part) \<le> ra_maxChunk r"
    and "part = [Version, s OR t] @ payload" "s = 0 \<or> s = FlagStart" "t = 0 \<or> t = FlagEnd"
  shows "Push r now part =
     (case (if s = FlagStart then push_start r now payload else push_continue r now payload) of
        (r', Some e) \<Rightarrow> (r', Inl e)
      | (r', None) \<Rightarrow> push_end r' (t = FlagEnd))"
proof -
  have "FlagStart \<noteq> 0" "FlagEnd \<noteq> 0" by simp_all
  with assms show ?thesis
    by (auto simp: Push_def HeaderSize_def LengthPrefixSize_def)
qed

lemma be_decode_length32:
  assumes "n \<le> MaxLogicalBytes" "0 \<le> n"
  shows "int (be_decode (be_encode 4 (unat (word_of_int n :: 32 word)))) = n"
proof -
  have "n < 2 ^ 32"
    using assms by (simp add: MaxLogicalBytes_def)
  then have "uint (word_of_int n :: 32 word) = n"
    using assms by (simp add: uint_word_of_int)
  then have "unat (word_of_int n :: 32 word) = nat n"
    by (metis unat_eq_nat_uint)
  moreover have "nat n < 256 ^ 4"
    using \<open>n < 2 ^ 32\<close> by simp
  ultimately show ?thesis
    using assms by simp
qed

section \<open>Round trip\<close>

text \<open>What a receiver in state \<open>r\<close> does with the chunks of one frame that arrive at the times
  \<open>ts\<close>: it stays silent until the last one, delivers the frame and is idle again.\<close>

definition delivers :: "reassembler \<Rightarrow> time list \<Rightarrow> bytes list \<Rightarrow> bytes \<Rightarrow> bool" where
  "delivers r ts cs frame \<longleftrightarrow>
     (let (r', outs) = run_machine push_event r (zip ts cs)
      in \<not> ra_active r' \<and> ra_maxChunk r' = ra_maxChunk r
         \<and> outs = replicate (length cs - 1) (Inr None) @ [Inr (Some frame)])"

lemma delivers_Cons_None:
  assumes "push_event r (t, c) = (r', Inr None)" "ra_maxChunk r' = ra_maxChunk r" "cs \<noteq> []"
    and "delivers r' ts cs frame"
  shows "delivers r (t # ts) (c # cs) frame"
proof -
  obtain n where "length cs = Suc n"
    using assms(3) by (cases cs) auto
  with assms show ?thesis
    by (auto simp: delivers_def run_machine.simps(2) Let_def split: prod.splits)
qed

lemma delivers_last:
  assumes "push_event r (t, c) = (r', Inr (Some frame))" "ra_maxChunk r' = ra_maxChunk r"
    and "\<not> ra_active r'"
  shows "delivers r [t] [c] frame"
  using assms by (simp add: delivers_def run_machine.simps(2))

lemma push_final_chunk:
  assumes "6 < m" "ra_maxChunk r = m" "ra_active r"
    and "ra_want r = int (length (ra_buf r)) + int (length body)"
    and "int (length ([Version, 0 OR FlagEnd] @ body)) \<le> m"
  shows "delivers r [t] [[Version, 0 OR FlagEnd] @ body] (ra_buf r @ body)"
proof -
  let ?part = "[Version, 0 OR FlagEnd] @ body"
  have "push_event r (t, ?part) =
      (r\<lparr>ra_updated := t, ra_buf := [], ra_want := 0, ra_active := False\<rparr>,
       Inr (Some (ra_buf r @ body)))"
    using Push_header [of r ?part 0 FlagEnd body t] assms
    by (simp add: push_event_def push_continue_def push_end_def)
  then show ?thesis
    by (rule delivers_last) simp_all
qed

lemma push_middle_chunk:
  assumes "6 < ra_maxChunk r" "ra_active r"
    and "int (length (ra_buf r)) + int (length body) \<le> ra_want r"
    and "int (length ([Version, 0 OR 0] @ body)) \<le> ra_maxChunk r"
  shows "push_event r (t, [Version, 0 OR 0] @ body) =
    (r\<lparr>ra_buf := ra_buf r @ body, ra_updated := t\<rparr>, Inr None)"
  using Push_header [of r "[Version, 0 OR 0] @ body" 0 0 body t] assms
  by (simp add: push_event_def push_continue_def push_end_def)

text \<open>The continuation chunks: induction on the number of iterations left.\<close>

lemma chunk_loop_continue:
  assumes m: "6 < m" and "1 \<le> index" "index + int k = count" "1 \<le> k"
    and "int (length rem) \<le> int k * (m - 2)" "(int k - 1) * (m - 2) < int (length rem)"
    and "offset + int (length rem) + 2 * int k \<le> bufLen"
  shows "\<exists>cs. chunk_loop k index count m tot bufLen offset rem dst = Some (dst @ cs)
      \<and> length cs = k \<and> list_all (\<lambda>c. int (length c) \<le> m) cs
      \<and> (\<forall>r ts. ra_maxChunk r = m \<and> ra_active r
            \<and> ra_want r = int (length (ra_buf r)) + int (length rem) \<and> length ts = k
            \<longrightarrow> delivers r ts cs (ra_buf r @ rem))"
  using assms(2-)
proof (induction k arbitrary: index rem offset dst)
  case 0
  then show ?case by simp
next
  case (Suc k)
  show ?case
  proof (cases "k = 0")
    case True
    let ?part = "[Version, 0 OR FlagEnd] @ rem"
    have loop: "chunk_loop (Suc k) index count m tot bufLen offset rem dst = Some (dst @ [?part])"
      using Suc.prems True by (auto simp: Let_def HeaderSize_def LengthPrefixSize_def)
    have len: "int (length ?part) \<le> m"
      using Suc.prems True m by simp
    have "delivers r ts [?part] (ra_buf r @ rem)"
      if r: "ra_maxChunk r = m" "ra_active r"
        "ra_want r = int (length (ra_buf r)) + int (length rem)" and ts: "length ts = Suc k"
      for r ts
      using ts True len push_final_chunk [OF m r] by (auto simp: length_Suc_conv)
    with loop len True show ?thesis
      by (intro exI [of _ "[?part]"]) simp
  next
    case False
    let ?n = "nat (m - 2)"
    let ?part = "[Version, 0 OR 0] @ take ?n rem"
    have n: "int ?n = m - 2" using m by simp
    have big: "m - 2 < int (length rem)"
    proof -
      have "1 * (m - 2) \<le> int k * (m - 2)"
        using False m by (intro mult_right_mono) auto
      with Suc.prems show ?thesis by simp
    qed
    have rem': "int (length (drop ?n rem)) = int (length rem) - (m - 2)"
      using big n by simp
    have "\<exists>cs. chunk_loop k (index + 1) count m tot bufLen (offset + (2 + (m - 2)))
          (drop ?n rem) (dst @ [?part]) = Some ((dst @ [?part]) @ cs)
      \<and> length cs = k \<and> list_all (\<lambda>c. int (length c) \<le> m) cs
      \<and> (\<forall>r ts. ra_maxChunk r = m \<and> ra_active r
            \<and> ra_want r = int (length (ra_buf r)) + int (length (drop ?n rem)) \<and> length ts = k
            \<longrightarrow> delivers r ts cs (ra_buf r @ drop ?n rem))"
      by (rule Suc.IH) (use Suc.prems False rem' in \<open>auto simp: algebra_simps\<close>)
    then obtain cs where cs: "chunk_loop k (index + 1) count m tot bufLen (offset + (2 + (m - 2)))
          (drop ?n rem) (dst @ [?part]) = Some ((dst @ [?part]) @ cs)"
        "length cs = k" "list_all (\<lambda>c. int (length c) \<le> m) cs"
        and del: "\<And>r ts. ra_maxChunk r = m \<Longrightarrow> ra_active r
            \<Longrightarrow> ra_want r = int (length (ra_buf r)) + int (length (drop ?n rem)) \<Longrightarrow> length ts = k
            \<Longrightarrow> delivers r ts cs (ra_buf r @ drop ?n rem)"
      by blast
    have loop: "chunk_loop (Suc k) index count m tot bufLen offset rem dst = Some (dst @ ?part # cs)"
    proof -
      have "offset + (2 + (m - 2)) \<le> bufLen" "index \<noteq> count - 1" "index \<noteq> 0"
        using Suc.prems big False by auto
      moreover have "\<not> int (length rem) < m - 2" using big by simp
      ultimately show ?thesis
        using cs(1) m by (auto simp: Let_def HeaderSize_def LengthPrefixSize_def)
    qed
    have len: "int (length ?part) \<le> m"
      using n big by simp
    have "delivers r ts (?part # cs) (ra_buf r @ rem)"
      if r: "ra_maxChunk r = m" "ra_active r"
        "ra_want r = int (length (ra_buf r)) + int (length rem)" and ts: "length ts = Suc k"
      for r ts
    proof -
      obtain t ts' where t: "ts = t # ts'" "length ts' = k"
        using ts by (cases ts) auto
      let ?r = "r\<lparr>ra_buf := ra_buf r @ take ?n rem, ra_updated := t\<rparr>"
      have "push_event r (t, ?part) = (?r, Inr None)"
        using r m len n big by (intro push_middle_chunk) auto
      moreover have "delivers ?r ts' cs (ra_buf ?r @ drop ?n rem)"
        by (rule del) (use r t rem' n big in auto)
      ultimately show ?thesis
        using delivers_Cons_None [of r t ?part ?r cs ts'] cs(2) False t by auto
    qed
    with loop len cs show ?thesis
      by (intro exI [of _ "?part # cs"]) simp
  qed
qed

lemma sdiv_pos: "0 \<le> a \<Longrightarrow> 0 < b \<Longrightarrow> a sdiv b = a div b" for a b :: int
  by (cases "a = 0") (simp_all add: signed_divide_int_def)

lemma ceil_div_bounds:
  fixes n c :: int
  assumes "0 < c"
  shows "n \<le> (n + c - 1) div c * c" and "((n + c - 1) div c - 1) * c < n"
proof -
  have eq: "(n + c - 1) div c * c + (n + c - 1) mod c = n + c - 1"
    by simp
  have "0 \<le> (n + c - 1) mod c" and "(n + c - 1) mod c < c"
    using assms by simp_all
  with eq show "n \<le> (n + c - 1) div c * c" by linarith
  from eq \<open>0 \<le> (n + c - 1) mod c\<close> show "((n + c - 1) div c - 1) * c < n"
    unfolding left_diff_distrib by linarith
qed

lemma push_start_chunk:
  assumes "6 < ra_maxChunk r" "\<not> ra_active r"
    and tot: "0 \<le> tot" "tot \<le> MaxLogicalBytes" and "int (length body) \<le> tot"
    and "t = 0 \<or> t = FlagEnd"
    and "part = [Version, FlagStart OR t] @ be_encode 4 (unat (word_of_int tot :: 32 word)) @ body"
    and "int (length part) \<le> ra_maxChunk r"
  shows "push_event r (now, part) =
     push_end (r\<lparr>ra_want := tot, ra_buf := body, ra_active := True, ra_updated := now\<rparr>) (t = FlagEnd)"
proof -
  let ?payload = "be_encode 4 (unat (word_of_int tot :: 32 word)) @ body"
  have "push_start r now ?payload =
      (r\<lparr>ra_want := tot, ra_buf := body, ra_active := True, ra_updated := now\<rparr>, None)"
    using assms be_decode_length32 [OF tot(2,1)] by (simp add: push_start_def LengthPrefixSize_def)
  then show ?thesis
    using Push_header [of r part FlagStart t ?payload now] assms by (auto simp: push_event_def)
qed

text \<open>The whole of \<open>Chunk\<close>: it never panics above the minimal chunk size, it produces \<open>Count\<close>
  chunks within the limit, and an idle receiver delivers the frame.\<close>

lemma chunk_single:
  assumes m: "6 < m" and len: "int (length logical) \<le> MaxLogicalBytes"
    and small: "int (length logical) \<le> m - 6"
  shows "\<exists>cs. Chunk dst logical m = Some (dst @ cs) \<and> Count (int (length logical)) m = Some (int (length cs))
      \<and> list_all (\<lambda>c. int (length c) \<le> m) cs
      \<and> (\<forall>r ts. ra_maxChunk r = m \<and> \<not> ra_active r \<and> length ts = length cs \<longrightarrow> delivers r ts cs logical)"
proof -
  let ?n = "int (length logical)"
  let ?part = "[Version, FlagStart OR FlagEnd] @ be_encode 4 (unat (word_of_int ?n :: 32 word)) @ logical"
  have count: "Count ?n m = Some 1"
    using small by (simp add: Count_def HeaderSize_def LengthPrefixSize_def Let_def)
  have chunk: "Chunk dst logical m = Some (dst @ [?part])"
    using small by (auto simp: Chunk_def count HeaderSize_def LengthPrefixSize_def Let_def)
  have "delivers r [t] [?part] logical" if r: "ra_maxChunk r = m" "\<not> ra_active r" for r t
  proof (rule delivers_last)
    show "push_event r (t, ?part) =
      (r\<lparr>ra_want := ?n, ra_buf := logical, ra_active := True, ra_updated := t\<rparr>
         \<lparr>ra_buf := [], ra_want := 0, ra_active := False\<rparr>, Inr (Some logical))"
      using push_start_chunk [of r ?n logical FlagEnd ?part t] r m len small
      by (simp add: push_end_def)
  qed simp_all
  with chunk count small show ?thesis
    by (intro exI [of _ "[?part]"]) (auto simp: length_Suc_conv)
qed

lemma chunk_spec:
  assumes m: "6 < m" and len: "int (length logical) \<le> MaxLogicalBytes"
  shows "\<exists>cs. Chunk dst logical m = Some (dst @ cs) \<and> Count (int (length logical)) m = Some (int (length cs))
      \<and> list_all (\<lambda>c. int (length c) \<le> m) cs
      \<and> (\<forall>r ts. ra_maxChunk r = m \<and> \<not> ra_active r \<and> length ts = length cs \<longrightarrow> delivers r ts cs logical)"
proof (cases "int (length logical) \<le> m - 6")
  case True
  with assms show ?thesis by (rule chunk_single)
next
  case False
  let ?n = "int (length logical)"
  let ?body = "take (nat (m - 6)) logical" and ?rem = "drop (nat (m - 6)) logical"
  let ?part = "[Version, FlagStart OR 0] @ be_encode 4 (unat (word_of_int ?n :: 32 word)) @ ?body"
  have pos: "0 < (?n - (m - 6) + (m - 2) - 1) div (m - 2)"
    using False m by (simp add: pos_imp_zdiv_pos_iff)
  define k where "k = nat ((?n - (m - 6) + (m - 2) - 1) div (m - 2))"
  with pos have k: "int k = (?n - (m - 6) + (m - 2) - 1) div (m - 2)" "1 \<le> k" by simp_all
  have rem: "int (length ?rem) = ?n - (m - 6)" and body: "int (length ?body) = m - 6"
    using False m by simp_all
  have count: "Count ?n m = Some (1 + int k)"
    using False m k sdiv_pos [of "?n - (m - 6) + (m - 2) - 1" "m - 2"]
    by (simp add: Count_def HeaderSize_def LengthPrefixSize_def Let_def)
  obtain cs where cs: "chunk_loop k 1 (1 + int k) m ?n (?n + 4 + (1 + int k) * 2) m ?rem (dst @ [?part])
        = Some ((dst @ [?part]) @ cs)" "length cs = k" "list_all (\<lambda>c. int (length c) \<le> m) cs"
    and del: "\<And>r ts. ra_maxChunk r = m \<Longrightarrow> ra_active r
        \<Longrightarrow> ra_want r = int (length (ra_buf r)) + int (length ?rem) \<Longrightarrow> length ts = k
        \<Longrightarrow> delivers r ts cs (ra_buf r @ ?rem)"
    using chunk_loop_continue [OF m, of 1 k "1 + int k" ?rem m "?n + 4 + (1 + int k) * 2" ?n "dst @ [?part]"]
      k rem ceil_div_bounds [of "m - 2" "?n - (m - 6)"] m
    by (auto simp: algebra_simps)
  have "nat (1 + int k) = Suc k" by linarith
  then have chunk: "Chunk dst logical m = Some (dst @ ?part # cs)"
    using count cs(1) k(2) False m
    by (simp add: Chunk_def HeaderSize_def LengthPrefixSize_def Let_def)
  have "delivers r (t # ts) (?part # cs) logical"
    if r: "ra_maxChunk r = m" "\<not> ra_active r" and ts: "length ts = k" for r t ts
  proof -
    let ?r = "r\<lparr>ra_want := ?n, ra_buf := ?body, ra_active := True, ra_updated := t\<rparr>"
    have "push_event r (t, ?part) = (?r, Inr None)"
      using push_start_chunk [of r ?n ?body 0 ?part t] r m len body by (simp add: push_end_def)
    moreover have "delivers ?r ts cs (ra_buf ?r @ ?rem)"
      by (rule del) (use r ts rem body in auto)
    moreover have "cs \<noteq> []" using cs(2) k(2) by auto
    ultimately show ?thesis
      using delivers_Cons_None [of r t ?part ?r cs ts logical] by simp
  qed
  with chunk count cs body show ?thesis
    by (intro exI [of _ "?part # cs"]) (auto simp: length_Suc_conv)
qed

section \<open>Streams of frames\<close>

text \<open>The chunks a sender puts on one direction of a connection for a sequence of frames.\<close>

primrec chunk_stream :: "bytes list \<Rightarrow> int \<Rightarrow> bytes list option" where
  "chunk_stream [] m = Some []"
| "chunk_stream (f # fs) m =
     (case (Chunk [] f m, chunk_stream fs m) of
        (Some cs, Some css) \<Rightarrow> Some (cs @ css)
      | _ \<Rightarrow> None)"

definition delivered :: "(framing_error + bytes option) list \<Rightarrow> bytes list" where
  "delivered outs = List.map_filter (\<lambda>x. case x of Inr (Some f) \<Rightarrow> Some f | _ \<Rightarrow> None) outs"

lemma delivered_simps [simp]:
  "delivered [] = []"
  "delivered (Inl e # outs) = delivered outs"
  "delivered (Inr None # outs) = delivered outs"
  "delivered (Inr (Some f) # outs) = f # delivered outs"
  by (simp_all add: delivered_def List.map_filter_simps)

lemma delivered_append [simp]: "delivered (xs @ ys) = delivered xs @ delivered ys"
  by (simp add: delivered_def List.map_filter_def)

lemma delivered_silent [simp]: "delivered (replicate n (Inr None)) = []"
  by (induction n) auto

lemma chunk_stream_delivered:
  assumes "6 < m" and "list_all (\<lambda>f. int (length f) \<le> MaxLogicalBytes) fs"
    and "ra_maxChunk r = m" "\<not> ra_active r"
  shows "\<exists>cs. chunk_stream fs m = Some cs
      \<and> (\<forall>ts. length ts = length cs \<longrightarrow>
           (let (r', outs) = run_machine push_event r (zip ts cs)
            in delivered outs = fs \<and> list_all (\<lambda>x. \<not> isl x) outs \<and> \<not> ra_active r'))"
  using assms(2-)
proof (induction fs arbitrary: r)
  case Nil
  then show ?case by simp
next
  case (Cons f fs)
  obtain cs where cs: "Chunk [] f m = Some cs"
    and del: "\<And>r ts. ra_maxChunk r = m \<Longrightarrow> \<not> ra_active r \<Longrightarrow> length ts = length cs \<Longrightarrow> delivers r ts cs f"
    using chunk_spec [OF \<open>6 < m\<close>, of f "[]"] Cons.prems(1) by auto
  have "\<exists>css. chunk_stream fs m = Some css"
    using Cons.IH [of r] Cons.prems by auto
  then obtain css where css: "chunk_stream fs m = Some css" by blast
  have "let (r', outs) = run_machine push_event r (zip ts (cs @ css))
        in delivered outs = f # fs \<and> list_all (\<lambda>x. \<not> isl x) outs \<and> \<not> ra_active r'"
    if "length ts = length (cs @ css)" for ts
  proof -
    define t1 where "t1 = take (length cs) ts"
    define t2 where "t2 = drop (length cs) ts"
    have len: "length t1 = length cs" "length t2 = length css"
      using that by (simp_all add: t1_def t2_def)
    have zip: "zip ts (cs @ css) = zip t1 cs @ zip t2 css"
      using len by (metis append_take_drop_id t1_def t2_def zip_append)
    obtain r1 o1 where r1: "run_machine push_event r (zip t1 cs) = (r1, o1)" by fastforce
    then have d1: "\<not> ra_active r1" "ra_maxChunk r1 = m"
      "o1 = replicate (length cs - 1) (Inr None) @ [Inr (Some f)]"
      using del [of r t1] Cons.prems len by (auto simp: delivers_def)
    obtain r2 o2 where r2: "run_machine push_event r1 (zip t2 css) = (r2, o2)" by fastforce
    have "delivered o2 = fs \<and> list_all (\<lambda>x. \<not> isl x) o2 \<and> \<not> ra_active r2"
      using Cons.IH [of r1] Cons.prems d1 css len r2 by auto
    then show ?thesis
      using d1(3) by (auto simp: zip run_machine_append r1 r2 list_all_iff)
  qed
  with cs css show ?case by (simp add: Let_def)
qed

section \<open>The invariant of a receiver\<close>

text \<open>Whatever the peer sends, a receiver never holds more than the declared length, which never
  exceeds the logical limit; when idle it holds nothing.\<close>

definition reassembler_inv :: "reassembler \<Rightarrow> bool" where
  "reassembler_inv r \<longleftrightarrow>
     (ra_active r \<longrightarrow> int (length (ra_buf r)) \<le> ra_want r \<and> ra_want r \<le> MaxLogicalBytes)
     \<and> (\<not> ra_active r \<longrightarrow> ra_buf r = [])"

lemma NewReassembler_inv: "reassembler_inv (NewReassembler m)"
  by (simp add: reassembler_inv_def NewReassembler_def)

lemma Reset_inv: "reassembler_inv (Reset r)"
  by (simp add: reassembler_inv_def Reset_def)

lemma push_branches_inv:
  assumes "reassembler_inv r"
  shows "reassembler_inv (fst (push_start r now p))" "reassembler_inv (fst (push_continue r now p))"
    "reassembler_inv (fst (push_end r fin))"
  using assms
  by (auto simp: reassembler_inv_def push_start_def push_continue_def push_end_def Let_def)

text \<open>Every \<open>Push\<close> is a rejection that leaves the receiver alone, or one of its two branches, possibly
  followed by the END test.\<close>

lemma Push_cases:
  obtains (reject) e where "Push r now part = (r, Inl e)"
  | (branch_error) r' e p where "Push r now part = (r', Inl e)"
      "push_start r now p = (r', Some e) \<or> push_continue r now p = (r', Some e)"
  | (branch_ok) r' p fin where "Push r now part = push_end r' fin"
      "push_start r now p = (r', None) \<or> push_continue r now p = (r', None)"
proof (cases "\<exists>e. Push r now part = (r, Inl e)")
  case True
  then show thesis using reject by blast
next
  case False
  let ?p = "drop (nat HeaderSize) part"
  let ?b = "if part ! 1 AND FlagStart \<noteq> 0 then push_start r now ?p else push_continue r now ?p"
  have eq: "Push r now part = (case ?b of (r', Some e) \<Rightarrow> (r', Inl e)
      | (r', None) \<Rightarrow> push_end r' (part ! 1 AND FlagEnd \<noteq> 0))"
    using False by (simp add: Push_def Let_def split: if_split_asm)
  obtain r' x where b: "?b = (r', x)" by fastforce
  then have br: "push_start r now ?p = (r', x) \<or> push_continue r now ?p = (r', x)"
    by (simp split: if_split_asm)
  show thesis
  proof (cases x)
    case None
    show thesis
      by (rule branch_ok) (use eq b br None in auto)
  next
    case (Some e)
    show thesis
      by (rule branch_error) (use eq b br Some in auto)
  qed
qed

lemma push_event_inv:
  assumes "reassembler_inv r"
  shows "reassembler_inv (fst (push_event r e))"
proof (cases rule: Push_cases [of r "fst e" "snd e"])
  case (reject err)
  with assms show ?thesis by (simp add: push_event_def)
next
  case (branch_error r' err p)
  with push_branches_inv(1,2) [OF assms, of "fst e" p] show ?thesis
    by (auto simp: push_event_def)
next
  case (branch_ok r' p fin)
  with push_branches_inv(1,2) [OF assms, of "fst e" p] have "reassembler_inv r'" by auto
  from push_branches_inv(3) [OF this] branch_ok show ?thesis
    by (simp add: push_event_def)
qed

lemma push_event_frame_bound:
  assumes "reassembler_inv r" and "snd (push_event r e) = Inr (Some f)"
  shows "int (length f) \<le> MaxLogicalBytes"
proof (cases rule: Push_cases [of r "fst e" "snd e"])
  case (branch_ok r' p fin)
  with push_branches_inv(1,2) [OF assms(1), of "fst e" p] have "reassembler_inv r'" by auto
  with branch_ok assms(2) show ?thesis
    by (auto simp: push_event_def push_end_def reassembler_inv_def push_start_def push_continue_def
        Let_def split: if_splits)
qed (use assms in \<open>auto simp: push_event_def\<close>)

interpretation receiver: invariant_machine push_event "\<lambda>_. True" reassembler_inv
  by unfold_locales (rule push_event_inv)

section \<open>Sequence errors\<close>

lemma push_start_sequence:
  "snd (push_start r now p) = Some ErrChunkSequence \<longleftrightarrow> ra_active r"
  "ra_active r \<Longrightarrow> fst (push_start r now p) = r"
  by (auto simp: push_start_def Let_def)

lemma push_continue_sequence:
  "snd (push_continue r now p) = Some ErrChunkSequence \<longleftrightarrow> \<not> ra_active r"
  "\<not> ra_active r \<Longrightarrow> fst (push_continue r now p) = r"
  by (auto simp: push_continue_def)

lemma push_end_sequence: "snd (push_end r fin) \<noteq> Inl ErrChunkSequence"
  by (simp add: push_end_def)

lemma Push_wellformed:
  assumes "6 < ra_maxChunk r" "2 \<le> length part" "int (length part) \<le> ra_maxChunk r"
    and "part ! 0 = Version" "part ! 1 AND NOT flagKnown = 0"
  shows "Push r now part =
    (case (if part ! 1 AND FlagStart \<noteq> 0 then push_start r now (drop 2 part)
           else push_continue r now (drop 2 part)) of
       (r', Some e) \<Rightarrow> (r', Inl e)
     | (r', None) \<Rightarrow> push_end r' (part ! 1 AND FlagEnd \<noteq> 0))"
  using assms by (simp add: Push_def HeaderSize_def LengthPrefixSize_def Let_def del: One_nat_def)

section \<open>Properties\<close>

text \<open>C36. Round trip of the chunk framing over a whole connection: for every chunk size above the
  six bytes of overhead and every sequence of frames within the logical limit, \<open>Chunk\<close> does not
  panic, and a receiver that is between frames, given all the chunks in order at arbitrary times,
  delivers exactly these frames in order, reports no error and ends between frames again.\<close>

theorem framing_stream_roundtrip:
  assumes "6 < m" and "list_all (\<lambda>f. int (length f) \<le> MaxLogicalBytes) fs"
    and "ra_maxChunk r = m" "\<not> ra_active r"
  shows "\<exists>cs. chunk_stream fs m = Some cs
      \<and> (\<forall>ts. length ts = length cs \<longrightarrow>
           (let (r', outs) = run_machine push_event r (zip ts cs)
            in delivered outs = fs \<and> list_all (\<lambda>x. \<not> isl x) outs \<and> \<not> ra_active r'))"
  using assms by (rule chunk_stream_delivered)

theorem framing_stream_roundtrip_witness:
  "\<exists>cs. chunk_stream [[1, 2, 3, 4], [], [7]] 8 = Some cs
      \<and> (\<forall>ts. length ts = length cs \<longrightarrow>
           (let (r', outs) = run_machine push_event (NewReassembler 8) (zip ts cs)
            in delivered outs = [[1, 2, 3, 4], [], [7]] \<and> list_all (\<lambda>x. \<not> isl x) outs
               \<and> \<not> ra_active r'))"
  by (rule framing_stream_roundtrip) (simp_all add: NewReassembler_def MaxLogicalBytes_def)

text \<open>The chunks of a frame: \<open>Chunk\<close> appends to its destination exactly \<open>Count\<close> chunks, none
  larger than the limit the caller asked for.\<close>

theorem chunk_count_and_size:
  assumes "6 < m" and "int (length logical) \<le> MaxLogicalBytes"
  shows "\<exists>cs. Chunk dst logical m = Some (dst @ cs)
      \<and> Count (int (length logical)) m = Some (int (length cs))
      \<and> list_all (\<lambda>c. int (length c) \<le> m) cs"
  using chunk_spec [OF assms] by blast

theorem chunk_count_and_size_witness:
  "\<exists>cs. Chunk [] [1, 2, 3, 4] 8 = Some ([] @ cs)
      \<and> Count (int (length [1, 2, 3, 4 :: byte])) 8 = Some (int (length cs))
      \<and> list_all (\<lambda>c. int (length c) \<le> 8) cs"
  by (rule chunk_count_and_size) (simp_all add: MaxLogicalBytes_def)

text \<open>Bounded memory against any peer: over every sequence of byte strings pushed into a new
  receiver, the buffered part of a frame never exceeds the length its START chunk declared, that
  length never exceeds 21 MiB, and neither does any frame handed to the caller.\<close>

theorem framing_bounded_memory:
  "reassembler_inv (fst (run_machine push_event (NewReassembler m) es))
   \<and> list_all (\<lambda>x. case x of Inr (Some f) \<Rightarrow> int (length f) \<le> MaxLogicalBytes | _ \<Rightarrow> True)
       (snd (run_machine push_event (NewReassembler m) es))"
proof
  show "reassembler_inv (fst (run_machine push_event (NewReassembler m) es))"
    by (rule receiver.run_inv [OF NewReassembler_inv]) (simp add: list_all_iff)
  show "list_all (\<lambda>x. case x of Inr (Some f) \<Rightarrow> int (length f) \<le> MaxLogicalBytes | _ \<Rightarrow> True)
       (snd (run_machine push_event (NewReassembler m) es))"
    by (rule receiver.run_outputs [OF _ NewReassembler_inv])
      (auto simp: list_all_iff push_event_frame_bound split: sum.splits option.splits)
qed

text \<open>Sequence discipline: a chunk whose header is well formed is refused as out of sequence
  exactly when it starts a frame while one is open or continues one while none is, and the refusal
  leaves the receiver as it was.\<close>

theorem framing_sequence_discipline:
  assumes "6 < ra_maxChunk r" "2 \<le> length part" "int (length part) \<le> ra_maxChunk r"
    and "part ! 0 = Version" "part ! 1 AND NOT flagKnown = 0"
  shows "(snd (Push r now part) = Inl ErrChunkSequence
             \<longleftrightarrow> (part ! 1 AND FlagStart \<noteq> 0) = ra_active r)
         \<and> ((part ! 1 AND FlagStart \<noteq> 0) = ra_active r \<longrightarrow> fst (Push r now part) = r)"
proof -
  define b where "b = (if part ! 1 AND FlagStart \<noteq> 0 then push_start r now (drop 2 part)
           else push_continue r now (drop 2 part))"
  obtain r' x where rx: "b = (r', x)" by fastforce
  have "x = Some ErrChunkSequence \<longleftrightarrow> (part ! 1 AND FlagStart \<noteq> 0) = ra_active r"
    and "(part ! 1 AND FlagStart \<noteq> 0) = ra_active r \<longrightarrow> r' = r"
    using rx push_start_sequence [of r now "drop 2 part"] push_continue_sequence [of r now "drop 2 part"]
    by (auto simp: b_def split: if_split_asm)
  moreover have "Push r now part = (case (r', x) of (r', Some e) \<Rightarrow> (r', Inl e)
     | (r', None) \<Rightarrow> push_end r' (part ! 1 AND FlagEnd \<noteq> 0))"
    using Push_wellformed [OF assms] rx by (simp only: b_def)
  ultimately show ?thesis
    using push_end_sequence [of r'] by (cases x) auto
qed

theorem framing_sequence_discipline_witness:
  "snd (Push (NewReassembler 16) 0 [Version, FlagEnd, 9]) = Inl ErrChunkSequence
   \<and> fst (Push (NewReassembler 16) 0 [Version, FlagEnd, 9]) = NewReassembler 16"
proof -
  let ?r = "NewReassembler 16" and ?p = "[Version, FlagEnd, 9]"
  have "6 < ra_maxChunk ?r" "2 \<le> length ?p" "int (length ?p) \<le> ra_maxChunk ?r"
    "?p ! 0 = Version" "?p ! 1 AND NOT flagKnown = 0"
    by (simp_all add: NewReassembler_def)
  note d = framing_sequence_discipline [OF this, of 0]
  moreover have "(?p ! 1 AND FlagStart \<noteq> 0) = ra_active ?r"
    by (simp add: NewReassembler_def)
  ultimately show ?thesis by blast
qed

end
