(* ===== verification/Base64url.thy ===== *)
theory Base64url
  imports Relay_Prelude
begin

text \<open>
  \<open>base64.RawURLEncoding\<close> of Go's standard library, as the relay, the gateway and the encrypted
  session use it: the URL alphabet, no padding. \<open>b64_decode\<close> skips carriage returns and line feeds,
  refuses every other character outside the alphabet and a final group of one character, and
  ignores the unused low bits of a final group of two or three characters, as the library does in
  its default (not strict) mode.
\<close>

definition b64_alphabet :: string where
  "b64_alphabet = ''ABCDEFGHIJKLMNOPQRSTUVWXYZabcdefghijklmnopqrstuvwxyz0123456789-_''"

definition b64_char :: "nat \<Rightarrow> char" where
  "b64_char n = b64_alphabet ! n"

definition b64_val :: "char \<Rightarrow> nat option" where
  "b64_val c = map_of (zip b64_alphabet [0..<64]) c"

fun b64_encode :: "bytes \<Rightarrow> string" where
  "b64_encode [] = []"
| "b64_encode [a] =
     (let v = unat a * 16 in [b64_char (v div 64), b64_char (v mod 64)])"
| "b64_encode [a, b] =
     (let v = (unat a * 256 + unat b) * 4
      in [b64_char (v div 4096), b64_char (v div 64 mod 64), b64_char (v mod 64)])"
| "b64_encode (a # b # c # rest) =
     (let v = unat a * 65536 + unat b * 256 + unat c
      in [b64_char (v div 262144), b64_char (v div 4096 mod 64), b64_char (v div 64 mod 64),
          b64_char (v mod 64)] @ b64_encode rest)"

fun b64_decode_vals :: "nat list \<Rightarrow> bytes option" where
  "b64_decode_vals [] = Some []"
| "b64_decode_vals [p] = None"
| "b64_decode_vals [p, q] = Some [word_of_nat ((p * 64 + q) div 16)]"
| "b64_decode_vals [p, q, r] =
     (let v = p * 4096 + q * 64 + r
      in Some [word_of_nat (v div 1024), word_of_nat (v div 4)])"
| "b64_decode_vals (p # q # r # s # rest) =
     (let v = p * 262144 + q * 4096 + r * 64 + s
      in map_option (\<lambda>out. [word_of_nat (v div 65536), word_of_nat (v div 256), word_of_nat v] @ out)
           (b64_decode_vals rest))"

definition b64_decode :: "string \<Rightarrow> bytes option" where
  "b64_decode s =
     (let cs = filter (\<lambda>c. c \<noteq> CHR 0x0A \<and> c \<noteq> CHR 0x0D) s
      in if list_all (\<lambda>c. b64_val c \<noteq> None) cs
         then b64_decode_vals (map (\<lambda>c. the (b64_val c)) cs)
         else None)"

lemma length_b64_alphabet: "length b64_alphabet = 64"
  by (simp add: b64_alphabet_def)

lemma distinct_b64_alphabet: "distinct b64_alphabet"
  by (simp add: b64_alphabet_def)

lemma b64_val_char [simp]: "n < 64 \<Longrightarrow> b64_val (b64_char n) = Some n"
  using distinct_b64_alphabet length_b64_alphabet
  by (simp add: b64_val_def b64_char_def map_of_zip_nth)

lemma b64_char_in_alphabet: "n < 64 \<Longrightarrow> b64_char n \<in> set b64_alphabet"
  by (simp add: b64_char_def length_b64_alphabet)

lemma b64_char_no_newline [simp]:
  assumes "n < 64"
  shows "b64_char n \<noteq> CHR 0x0A" "b64_char n \<noteq> CHR 0x0D"
  using b64_char_in_alphabet [OF assms] by (auto simp: b64_alphabet_def)

text \<open>The values of the characters an encoding consists of.\<close>

fun b64_vals :: "bytes \<Rightarrow> nat list" where
  "b64_vals [] = []"
| "b64_vals [a] = (let v = unat a * 16 in [v div 64, v mod 64])"
| "b64_vals [a, b] =
     (let v = (unat a * 256 + unat b) * 4 in [v div 4096, v div 64 mod 64, v mod 64])"
| "b64_vals (a # b # c # rest) =
     (let v = unat a * 65536 + unat b * 256 + unat c
      in [v div 262144, v div 4096 mod 64, v div 64 mod 64, v mod 64] @ b64_vals rest)"

lemma b64_encode_vals: "b64_encode bs = map b64_char (b64_vals bs)"
  by (induction bs rule: b64_encode.induct) (simp_all add: Let_def)

lemma b64_vals_less: "list_all (\<lambda>v. v < 64) (b64_vals bs)"
proof (induction bs rule: b64_vals.induct)
  case (2 a)
  show ?case using unat_byte_less [of a] by (simp add: Let_def less_mult_imp_div_less)
next
  case (3 a b)
  show ?case using unat_byte_less [of a] unat_byte_less [of b]
    by (simp add: Let_def less_mult_imp_div_less)
next
  case (4 a b c rest)
  have "unat a * 65536 + unat b * 256 + unat c < 64 * 262144"
    using unat_byte_less [of a] unat_byte_less [of b] unat_byte_less [of c] by arith
  then have "(unat a * 65536 + unat b * 256 + unat c) div 262144 < 64"
    by (rule less_mult_imp_div_less)
  with 4 show ?case by (simp add: Let_def)
qed simp

lemma regroup3:
  fixes v :: nat
  shows "v div 262144 * 262144 + v div 4096 mod 64 * 4096 + v div 64 mod 64 * 64 + v mod 64 = v"
proof -
  have "v div 64 = v div 4096 * 64 + v div 64 mod 64"
    using div_mult_mod_eq [of "v div 64" 64] by (simp add: div_mult2_eq [symmetric])
  moreover have "v div 4096 = v div 262144 * 64 + v div 4096 mod 64"
    using div_mult_mod_eq [of "v div 4096" 64] by (simp add: div_mult2_eq [symmetric])
  moreover have "v = v div 64 * 64 + v mod 64" by simp
  ultimately show ?thesis by linarith
qed

lemma regroup2:
  fixes v :: nat
  shows "v div 4096 * 4096 + v div 64 mod 64 * 64 + v mod 64 = v"
proof -
  have "v div 64 = v div 4096 * 64 + v div 64 mod 64"
    using div_mult_mod_eq [of "v div 64" 64] by (simp add: div_mult2_eq [symmetric])
  moreover have "v = v div 64 * 64 + v mod 64" by simp
  ultimately show ?thesis by linarith
qed

lemma word_of_nat_low: "(word_of_nat (j * 256 + unat b) :: byte) = b"
  by (simp only: word_of_nat_256) simp

lemma div_low: "y < d \<Longrightarrow> (x * d + y) div d = x" for x y d :: nat
  by (metis add.commute add.left_neutral div_less div_mult_self1 not_less_zero)

lemma b64_decode_vals_vals: "b64_decode_vals (b64_vals bs) = Some bs"
proof (induction bs rule: b64_vals.induct)
  case (2 a)
  have "(unat a * 16 div 64 * 64 + unat a * 16 mod 64) div 16 = unat a"
    by (simp only: div_mult_mod_eq)
  then show ?case by (simp only: b64_vals.simps Let_def b64_decode_vals.simps) simp
next
  case (3 a b)
  let ?v = "(unat a * 256 + unat b) * 4"
  have "?v = unat a * 1024 + unat b * 4" by (simp add: algebra_simps)
  moreover have "unat b * 4 < 1024" using unat_byte_less [of b] by simp
  ultimately have "?v div 1024 = unat a" using div_low by simp
  moreover have "?v div 4 = unat a * 256 + unat b" by (rule div_mult_self_is_m) simp
  ultimately have "?v div 1024 = unat a" "?v div 4 = unat a * 256 + unat b" by blast+
  then show ?case
    by (simp only: b64_vals.simps Let_def b64_decode_vals.simps regroup2 word_of_nat_low) simp
next
  case (4 a b c rest)
  let ?v = "unat a * 65536 + unat b * 256 + unat c"
  have "unat b * 256 + unat c < 65536"
    using unat_byte_less [of b] unat_byte_less [of c] by simp
  then have "?v div 65536 = unat a"
    using div_low [of "unat b * 256 + unat c" 65536 "unat a"] by (simp only: add.assoc)
  moreover have v: "?v = (unat a * 256 + unat b) * 256 + unat c"
    by (simp add: algebra_simps)
  moreover have "?v div 256 = unat a * 256 + unat b"
    unfolding v by (rule div_low) (rule unat_byte_less)
  ultimately have "(word_of_nat (?v div 65536) :: byte) = a" "(word_of_nat (?v div 256) :: byte) = b"
    "(word_of_nat ?v :: byte) = c"
    by (simp_all only: word_of_nat_low) simp
  with 4 show ?case by (simp only: b64_vals.simps Let_def append.simps b64_decode_vals.simps regroup3) simp
qed simp

lemma b64_decode_encode: "b64_decode (b64_encode bs) = Some bs"
proof -
  let ?cs = "map b64_char (b64_vals bs)"
  have less: "\<forall>v \<in> set (b64_vals bs). v < 64"
    using b64_vals_less [of bs] by (simp add: list_all_iff)
  then have "filter (\<lambda>c. c \<noteq> CHR 0x0A \<and> c \<noteq> CHR 0x0D) ?cs = ?cs"
    by (intro filter_True) (auto simp: b64_char_no_newline)
  moreover have "list_all (\<lambda>c. b64_val c \<noteq> None) ?cs"
    using less by (simp add: list_all_iff)
  moreover have "map (\<lambda>c. the (b64_val c)) ?cs = b64_vals bs"
    using less by (simp add: map_idI)
  ultimately show ?thesis
    by (simp only: b64_decode_def Let_def b64_encode_vals if_True b64_decode_vals_vals)
qed

lemma length_b64_encode: "length (b64_encode bs) = (4 * length bs + 2) div 3"
  by (induction bs rule: b64_encode.induct) (simp_all add: Let_def)

lemma b64_encode_inj: "b64_encode bs = b64_encode bs' \<Longrightarrow> bs = bs'"
  by (metis b64_decode_encode option.inject)

end
