(* ===== verification/Gateway_Wire.thy ===== *)
theory Gateway_Wire
  imports Base64url
begin

text \<open>
  The wire contract of the blind gateway, \<^verbatim>\<open>internal/gatewaywire/gatewaywire.go\<close>: the multiplexed
  frame (\<open>AppendFrame\<close>, \<open>EncodeFrame\<close>, \<open>DecodeFrame\<close>), the derived identifiers (\<open>DeriveRelayID\<close>,
  \<open>DeriveRendezvousKey\<close>, \<open>ValidRelayID\<close>) and the connect proof (\<open>ConnectProof\<close>,
  \<open>VerifyConnectProof\<close>), with the JSON messages as records.

  HKDF and HMAC are arguments of the definitions that use them: \<open>hkdf secret salt info n\<close> is
  \<open>hkdf.Key\<close> (\<open>None\<close> its error), \<open>hmac key msg\<close> the tag over the concatenation of everything
  written into the MAC.
\<close>

section \<open>Constants\<close>

definition Proto :: int where "Proto = 1"
definition FrameVersion :: byte where "FrameVersion = 1"
definition OpData :: byte where "OpData = 0"
definition OpOpen :: byte where "OpOpen = 1"
definition OpClose :: byte where "OpClose = 2"
definition OpPing :: byte where "OpPing = 3"
definition OpPong :: byte where "OpPong = 4"
definition OpNotice :: byte where "OpNotice = 5"
definition WireHeaderSize :: nat where "WireHeaderSize = 1 + 1 + 4"
definition MaxFramePayload :: nat where "MaxFramePayload = 2 ^ 20"
definition MaxCloseReason :: nat where "MaxCloseReason = 120"
definition NonceBytes :: nat where "NonceBytes = 32"
definition RelayIDBytes :: nat where "RelayIDBytes = 16"
definition RelayIDLength :: nat where "RelayIDLength = 22"
definition sha256_size :: nat where "sha256_size = 32"

definition string_bytes :: "string \<Rightarrow> bytes" where
  "string_bytes s = map of_char s"

definition hkdfSalt :: string where "hkdfSalt = ''herdr-gateway-v1''"
definition relayIDInfo :: string where "relayIDInfo = ''herdr-gw-id''"
definition rendezvousInfo :: string where "rendezvousInfo = ''herdr-gw-auth''"
definition connectProofTag :: bytes where
  "connectProofTag = string_bytes ''herdr-gw-connect'' @ [0]"
definition rendezvousKeyLen :: nat where "rendezvousKeyLen = 32"

section \<open>Derived identifiers and the connect proof\<close>

type_synonym hkdf = "bytes \<Rightarrow> bytes \<Rightarrow> string \<Rightarrow> nat \<Rightarrow> bytes option"
type_synonym hmac = "bytes \<Rightarrow> bytes \<Rightarrow> bytes"

definition DeriveRelayID :: "hkdf \<Rightarrow> string \<Rightarrow> string option" where
  "DeriveRelayID hkdf relayKey =
     map_option b64_encode
       (hkdf (string_bytes relayKey) (string_bytes hkdfSalt) relayIDInfo RelayIDBytes)"

definition DeriveRendezvousKey :: "hkdf \<Rightarrow> string \<Rightarrow> bytes option" where
  "DeriveRendezvousKey hkdf relayKey =
     hkdf (string_bytes relayKey) (string_bytes hkdfSalt) rendezvousInfo rendezvousKeyLen"

text \<open>What is written into the MAC, in order.\<close>

definition connect_message :: "string \<Rightarrow> bytes \<Rightarrow> bytes" where
  "connect_message relayID nonce = connectProofTag @ string_bytes relayID @ nonce"

definition ConnectProof :: "hmac \<Rightarrow> bytes \<Rightarrow> string \<Rightarrow> bytes \<Rightarrow> bytes" where
  "ConnectProof hmac rendezvousKey relayID nonce = hmac rendezvousKey (connect_message relayID nonce)"

definition VerifyConnectProof :: "hmac \<Rightarrow> bytes \<Rightarrow> string \<Rightarrow> bytes \<Rightarrow> bytes \<Rightarrow> bool" where
  "VerifyConnectProof hmac rendezvousKey relayID nonce proof1 =
     (if length nonce \<noteq> NonceBytes \<or> length proof1 \<noteq> sha256_size then False
      else proof1 = ConnectProof hmac rendezvousKey relayID nonce)"

definition ValidRelayID :: "string \<Rightarrow> bool" where
  "ValidRelayID relayID =
     (if length relayID \<noteq> RelayIDLength then False
      else case b64_decode relayID of
             None \<Rightarrow> False
           | Some decoded \<Rightarrow> length decoded = RelayIDBytes)"

section \<open>Multiplexed frames\<close>

datatype wire_error =
    ErrShortFrame
  | UnsupportedFrameVersion byte
  | UnknownOpcode byte
  | PayloadTooLarge nat

definition AppendFrame :: "bytes \<Rightarrow> byte \<Rightarrow> 32 word \<Rightarrow> bytes \<Rightarrow> bytes" where
  "AppendFrame dst op connID payload =
     (dst @ [FrameVersion, op]) @ be_encode 4 (unat connID) @ payload"

definition EncodeFrame :: "byte \<Rightarrow> 32 word \<Rightarrow> bytes \<Rightarrow> bytes" where
  "EncodeFrame op connID payload = AppendFrame [] op connID payload"

definition DecodeFrame :: "bytes \<Rightarrow> wire_error + (byte \<times> 32 word \<times> bytes)" where
  "DecodeFrame frame =
     (if length frame < WireHeaderSize then Inl ErrShortFrame
      else if frame ! 0 \<noteq> FrameVersion then Inl (UnsupportedFrameVersion (frame ! 0))
      else let op = frame ! 1
           in if op > OpNotice then Inl (UnknownOpcode op)
              else let connID = word_of_nat (be_decode (take 4 (drop 2 frame)));
                       payload = drop WireHeaderSize frame
                   in if length payload > MaxFramePayload then Inl (PayloadTooLarge (length payload))
                      else Inr (op, connID, payload))"

section \<open>Messages\<close>

record server_hello =
  sh_type :: string
  sh_proto :: int
  sh_nonce :: string
  sh_stun_port :: int
  sh_version :: string
  sh_revision :: string

record register_hello =
  rh_type :: string
  rh_proto :: int
  rh_relay_id :: string

record connect_hello =
  ch_type :: string
  ch_proto :: int
  ch_relay_id :: string
  ch_proof :: string

record notice_payload =
  np_kind :: string
  np_message :: string
  np_relayed_bytes :: "64 word"
  np_quota_bytes :: "64 word"

definition NoticeQuotaWarning :: string where "NoticeQuotaWarning = ''quota_warning''"
definition NoticeQuotaExceeded :: string where "NoticeQuotaExceeded = ''quota_exceeded''"
definition TypeRegister :: string where "TypeRegister = ''register''"
definition TypeConnect :: string where "TypeConnect = ''connect''"
definition CodeBadHello :: string where "CodeBadHello = ''bad_hello''"
definition CodeAtCapacity :: string where "CodeAtCapacity = ''at_capacity''"
definition CodeRelayBusy :: string where "CodeRelayBusy = ''relay_busy''"

section \<open>The frame codec\<close>

definition frame_valid :: "byte \<times> 32 word \<times> bytes \<Rightarrow> bool" where
  "frame_valid f \<longleftrightarrow> fst f \<le> OpNotice \<and> length (snd (snd f)) \<le> MaxFramePayload"

definition encode_frame_tuple :: "byte \<times> 32 word \<times> bytes \<Rightarrow> bytes" where
  "encode_frame_tuple f = EncodeFrame (fst f) (fst (snd f)) (snd (snd f))"

lemma EncodeFrame_eq [wire_simps]:
  "EncodeFrame op connID payload = FrameVersion # op # be_encode 4 (unat connID) @ payload"
  by (simp add: EncodeFrame_def AppendFrame_def)

lemma unat32_less: "unat (c :: 32 word) < 256 ^ 4"
  using unsigned_less [of c] by simp

lemma DecodeFrame_EncodeFrame:
  assumes "op \<le> OpNotice" "length payload \<le> MaxFramePayload"
  shows "DecodeFrame (EncodeFrame op connID payload) = Inr (op, connID, payload)"
proof -
  have "be_decode (be_encode 4 (unat connID)) = unat connID"
    using unat32_less by (rule be_decode_encode_id)
  then show ?thesis
    using assms by (simp add: DecodeFrame_def EncodeFrame_eq WireHeaderSize_def)
qed

lemma DecodeFrame_sound:
  assumes "DecodeFrame frame = Inr (op, connID, payload)"
  shows "op \<le> OpNotice" "length payload \<le> MaxFramePayload" "EncodeFrame op connID payload = frame"
proof -
  from assms have len: "6 \<le> length frame" and v: "frame ! 0 = FrameVersion"
    and op: "op = frame ! 1" and c: "connID = word_of_nat (be_decode (take 4 (drop 2 frame)))"
    and p: "payload = drop 6 frame"
    and bounds: "op \<le> OpNotice" "length payload \<le> MaxFramePayload"
    by (auto simp: DecodeFrame_def WireHeaderSize_def Let_def split: if_splits)
  show "op \<le> OpNotice" "length payload \<le> MaxFramePayload" by (fact bounds)+
  let ?id = "take 4 (drop 2 frame)"
  have "be_decode ?id < 2 ^ 32"
    using be_decode_less [of ?id] len by simp
  then have "unat connID = be_decode ?id"
    by (simp add: c unat_of_nat)
  then have id: "be_encode 4 (unat connID) = ?id"
    using len by (simp add: be_encode_decode)
  have "frame = frame ! 0 # frame ! 1 # drop 2 frame"
    using len by (cases frame; cases "tl frame") auto
  moreover have "drop 2 frame = ?id @ drop 6 frame"
    using append_take_drop_id [of 4 "drop 2 frame"] by simp
  ultimately show "EncodeFrame op connID payload = frame"
    using v op p id by (simp add: EncodeFrame_eq)
qed

interpretation mux: wire_codec encode_frame_tuple DecodeFrame frame_valid
proof
  show "DecodeFrame (encode_frame_tuple x) = Inr x" if "frame_valid x" for x
    using that DecodeFrame_EncodeFrame [of "fst x" "snd (snd x)" "fst (snd x)"]
    by (simp add: frame_valid_def encode_frame_tuple_def)
  show "frame_valid x \<and> encode_frame_tuple x = bs" if "DecodeFrame bs = Inr x" for bs x
    using that DecodeFrame_sound [of bs "fst x" "fst (snd x)" "snd (snd x)"]
    by (simp add: frame_valid_def encode_frame_tuple_def)
qed

section \<open>Proofs are bound to their relay\<close>

lemma of_char_unat_byte: "unat (of_char e :: byte) = of_char e"
proof -
  have "(of_char e :: byte) = word_of_nat (of_char e)"
    by (rule of_nat_of_char [symmetric])
  then have "unat (of_char e :: byte) = of_char e mod 2 ^ LENGTH(8)"
    by (simp only: unat_of_nat)
  then show ?thesis by simp
qed

lemma inj_of_char8: "(of_char c :: byte) = of_char d \<Longrightarrow> c = d"
  by (metis of_char_unat_byte of_char_eq_iff)

lemma string_bytes_inj: "string_bytes s = string_bytes t \<Longrightarrow> s = t"
  unfolding string_bytes_def by (rule map_injective) (auto simp: inj_def inj_of_char8)

lemma length_string_bytes [simp]: "length (string_bytes s) = length s"
  by (simp add: string_bytes_def)

lemma connect_message_inj:
  assumes "length a = length b" "connect_message a n = connect_message b n'"
  shows "a = b \<and> n = n'"
  using assms string_bytes_inj [of a b] by (auto simp: connect_message_def)

section \<open>Properties\<close>

text \<open>The multiplexed frame format is a faithful encoding: every frame with a known opcode and a
  payload within the limit survives \<open>EncodeFrame\<close> followed by \<open>DecodeFrame\<close>, and conversely every
  byte string that \<open>DecodeFrame\<close> accepts has a known opcode, a bounded payload and is exactly the
  encoding of what was returned, so no two byte strings mean the same frame.\<close>

theorem gateway_frame_codec:
  "(\<forall>op connID payload. op \<le> OpNotice \<and> length payload \<le> MaxFramePayload
      \<longrightarrow> DecodeFrame (EncodeFrame op connID payload) = Inr (op, connID, payload))
   \<and> (\<forall>frame op connID payload. DecodeFrame frame = Inr (op, connID, payload)
      \<longrightarrow> op \<le> OpNotice \<and> length payload \<le> MaxFramePayload
          \<and> EncodeFrame op connID payload = frame)"
  using mux.dec_enc mux.dec_sound by (fastforce simp: frame_valid_def encode_frame_tuple_def)

theorem gateway_frame_codec_witness:
  "DecodeFrame (EncodeFrame OpClose 258 [7, 8]) = Inr (OpClose, 258, [7, 8])
   \<and> EncodeFrame OpClose 258 [7, 8] = [1, 2, 0, 0, 1, 2, 7, 8]"
proof -
  have "OpClose \<le> OpNotice \<and> length [7, 8 :: byte] \<le> MaxFramePayload"
    by (simp add: OpClose_def OpNotice_def MaxFramePayload_def)
  then have "DecodeFrame (EncodeFrame OpClose 258 [7, 8]) = Inr (OpClose, 258, [7, 8])"
    using gateway_frame_codec by blast
  moreover have "EncodeFrame OpClose 258 [7, 8] = [1, 2, 0, 0, 1, 2, 7, 8]"
    by (simp add: EncodeFrame_eq FrameVersion_def OpClose_def be_encode_4)
  ultimately show ?thesis by blast
qed

text \<open>A relay id derived from a relay key is accepted by the gateway's shape check, provided HKDF
  returns the number of bytes it was asked for.\<close>

theorem derived_relay_id_valid:
  assumes hkdf_length: "\<And>secret salt info n key. hkdf secret salt info n = Some key \<Longrightarrow> length key = n"
    and "DeriveRelayID hkdf relayKey = Some relayID"
  shows "ValidRelayID relayID"
proof -
  obtain key where "relayID = b64_encode key" "length key = 16"
    using assms(2) hkdf_length [of "string_bytes relayKey" "string_bytes hkdfSalt" relayIDInfo RelayIDBytes]
    by (auto simp: DeriveRelayID_def RelayIDBytes_def)
  then show ?thesis
    by (simp add: ValidRelayID_def RelayIDLength_def RelayIDBytes_def length_b64_encode b64_decode_encode)
qed

theorem derived_relay_id_valid_witness:
  "ValidRelayID (b64_encode (replicate 16 3))"
  by (rule derived_relay_id_valid [where hkdf = "\<lambda>_ _ _ n. Some (replicate n 3)" and relayKey = "''key''"])
    (auto simp: DeriveRelayID_def RelayIDBytes_def)

text \<open>The relay accepts a connect proof exactly when it has the right shape and is the MAC of the
  challenge under its own id, and for ids of equal length the authenticated message determines both
  the relay id and the challenge: a proof for one relay or one challenge authenticates no other
  message.\<close>

theorem connect_proof_bound_to_relay:
  assumes "ValidRelayID relayID" "ValidRelayID relayID'"
  shows "(VerifyConnectProof hmac key relayID nonce p
            \<longleftrightarrow> length nonce = NonceBytes \<and> length p = sha256_size
                \<and> p = hmac key (connect_message relayID nonce))
         \<and> (connect_message relayID nonce = connect_message relayID' nonce'
            \<longleftrightarrow> relayID = relayID' \<and> nonce = nonce')"
proof -
  have "length relayID = length relayID'"
    using assms by (simp add: ValidRelayID_def split: if_splits)
  then show ?thesis
    using connect_message_inj [of relayID relayID' nonce nonce']
    by (auto simp: VerifyConnectProof_def ConnectProof_def)
qed

theorem connect_proof_bound_to_relay_witness:
  "VerifyConnectProof (\<lambda>k m. take 32 (k @ m)) [1] (b64_encode (replicate 16 0)) (replicate 32 5)
       (take 32 ([1] @ connect_message (b64_encode (replicate 16 0)) (replicate 32 5)))
   \<and> connect_message (b64_encode (replicate 16 0)) [5] \<noteq> connect_message (b64_encode (replicate 16 1)) [5]"
proof -
  let ?a = "b64_encode (replicate 16 0)" and ?b = "b64_encode (replicate 16 1)"
  have valid: "ValidRelayID ?a" "ValidRelayID ?b"
    by (simp_all add: ValidRelayID_def RelayIDLength_def RelayIDBytes_def length_b64_encode
        b64_decode_encode)
  have "replicate 16 (0 :: byte) \<noteq> replicate 16 1"
    by (simp add: numeral_eq_Suc)
  then have "?a \<noteq> ?b" using b64_encode_inj by blast
  have len: "length (take 32 ([1] @ connect_message ?a (replicate 32 5))) = 32"
    by (simp add: connect_message_def connectProofTag_def string_bytes_def)
  show ?thesis
    using connect_proof_bound_to_relay [OF valid, of "\<lambda>k m. take 32 (k @ m)" "[1]" "replicate 32 5"
        "take 32 ([1] @ connect_message ?a (replicate 32 5))"]
      connect_proof_bound_to_relay [OF valid, of "\<lambda>k m. take 32 (k @ m)" "[1]" "[5]" "[]" "[5]"]
      \<open>?a \<noteq> ?b\<close> len
    by (simp add: NonceBytes_def sha256_size_def)
qed

end
