(* ===== verification/E2EE.thy ===== *)
theory E2EE
  imports Gateway_Wire
begin

text \<open>
  The end-to-end encrypted session, \<^verbatim>\<open>internal/transport/e2ee.go\<close>: the two frame codecs, the
  server's handshake and the sequence-numbered \<open>seal\<close> and \<open>open\<close> of a session.

  The cryptographic primitives and the JSON (un)marshalling are the fields of \<open>e2ee_env\<close>. An AEAD
  with its key inside is a record of its two operations; \<open>open_aead\<close> returns \<open>None\<close> where
  \<open>cipher.AEAD.Open\<close> returns an error. Sequence numbers are \<open>64 word\<close>s. What the handshake reads from
  the connection and from the random source are arguments, \<open>None\<close> being the corresponding error.
\<close>

section \<open>Types\<close>

datatype frame_codec = CodecJSON | CodecBinary

datatype e2ee_error =
    ReadClientHello | InvalidClientHello | UnsupportedClientHello | InvalidClientNonce
  | InvalidClientPublicKey | InvalidClientProof | ClientProofNotAuthentic
  | GenerateServerKey | GenerateServerNonce | DeriveSharedSecret | DeriveClientKey | DeriveServerKey
  | CreateSendCipher | CreateReceiveCipher | WriteServerHello | ReadClientFinish
  | FinishNotAuthentic | InvalidClientFinish
  | SendSequenceExhausted | InvalidFrame | UnsupportedFrame | InvalidCiphertext | InvalidSequence
  | AuthenticationFailed

record aead =
  seal_aead :: "bytes \<Rightarrow> bytes \<Rightarrow> bytes \<Rightarrow> bytes"
  open_aead :: "bytes \<Rightarrow> bytes \<Rightarrow> bytes \<Rightarrow> bytes option"

record e2ee_frame =
  ef_type :: string
  ef_version :: int
  ef_sequence :: "64 word"
  ef_ciphertext :: string

record client_hello =
  hello_type :: string
  hello_version :: int
  hello_nonce :: string
  hello_public_key :: string
  hello_proof :: string

record parsed_hello =
  ph_nonce :: bytes
  ph_public :: bytes

record e2ee_server_hello =
  srv_type :: string
  srv_version :: int
  srv_nonce :: string
  srv_public_key :: string
  srv_proof :: string

record client_finish =
  fin_type :: string
  fin_version :: int

record e2ee_session =
  send :: aead
  receive :: aead
  codec :: frame_codec
  sendDirection :: string
  receiveDirection :: string
  sendSequence :: "64 word"
  receiveSequence :: "64 word"

record e2ee_env =
  env_hmac :: hmac
  env_hkdf :: hkdf
  env_gcm :: "bytes \<Rightarrow> aead option"
  env_ecdh :: "bytes \<Rightarrow> bytes \<Rightarrow> bytes option"
  env_public_of :: "bytes \<Rightarrow> bytes"
  env_valid_public :: "bytes \<Rightarrow> bool"
  env_utf8_valid :: "bytes \<Rightarrow> bool"
  env_marshal_frame :: "e2ee_frame \<Rightarrow> bytes"
  env_unmarshal_frame :: "bytes \<Rightarrow> e2ee_frame option"
  env_unmarshal_hello :: "bytes \<Rightarrow> client_hello option"
  env_unmarshal_finish :: "bytes \<Rightarrow> client_finish option"

section \<open>Constants\<close>

definition e2eeVersion :: int where "e2eeVersion = 1"
definition e2eeNonceBytes :: nat where "e2eeNonceBytes = 32"
definition e2eePublicKeyBytes :: nat where "e2eePublicKeyBytes = 65"
definition maxE2EESequence :: "64 word" where "maxE2EESequence = 2 ^ 53 - 1"
definition e2eeClientDirection :: string where "e2eeClientDirection = ''c2s''"
definition e2eeServerDirection :: string where "e2eeServerDirection = ''s2c''"
definition binaryFrameVersion :: byte where "binaryFrameVersion = 1"
definition binaryFrameKindData :: byte where "binaryFrameKindData = 0"
definition binaryFrameHeaderSize :: nat where "binaryFrameHeaderSize = 1 + 1 + 8"
definition e2eeClientProofLabel :: bytes where
  "e2eeClientProofLabel = string_bytes ''herdr-e2ee-v1 client'' @ [0]"
definition e2eeServerProofLabel :: bytes where
  "e2eeServerProofLabel = string_bytes ''herdr-e2ee-v1 server'' @ [0]"
definition e2eeKeySaltLabel :: bytes where
  "e2eeKeySaltLabel = string_bytes ''herdr-e2ee-v1 key'' @ [0]"

section \<open>Frames\<close>

definition encodeFrame :: "e2ee_env \<Rightarrow> frame_codec \<Rightarrow> 64 word \<Rightarrow> bytes \<Rightarrow> bytes" where
  "encodeFrame env c sequence ciphertext =
     (case c of
        CodecBinary \<Rightarrow>
          [binaryFrameVersion, binaryFrameKindData] @ be_encode 8 (unat sequence) @ ciphertext
      | CodecJSON \<Rightarrow>
          env_marshal_frame env \<lparr>ef_type = ''e2ee'', ef_version = e2eeVersion, ef_sequence = sequence,
            ef_ciphertext = b64_encode ciphertext\<rparr>)"

definition decodeFrame :: "e2ee_env \<Rightarrow> frame_codec \<Rightarrow> bytes \<Rightarrow> e2ee_error + (64 word \<times> bytes)" where
  "decodeFrame env c rawFrame =
     (case c of
        CodecBinary \<Rightarrow>
          if length rawFrame < binaryFrameHeaderSize then Inl InvalidFrame
          else if rawFrame ! 0 \<noteq> binaryFrameVersion \<or> rawFrame ! 1 \<noteq> binaryFrameKindData
            then Inl UnsupportedFrame
          else Inr (word_of_nat (be_decode (take 8 (drop 2 rawFrame))),
                    drop binaryFrameHeaderSize rawFrame)
      | CodecJSON \<Rightarrow>
          (case env_unmarshal_frame env rawFrame of
             None \<Rightarrow> Inl InvalidFrame
           | Some frame \<Rightarrow>
               if ef_type frame \<noteq> ''e2ee'' \<or> ef_version frame \<noteq> e2eeVersion then Inl UnsupportedFrame
               else (case b64_decode (ef_ciphertext frame) of
                       None \<Rightarrow> Inl InvalidCiphertext
                     | Some ciphertext \<Rightarrow> Inr (ef_sequence frame, ciphertext))))"

definition e2eeFrameNonce :: "64 word \<Rightarrow> bytes" where
  "e2eeFrameNonce sequence = replicate 4 0 @ be_encode 8 (unat sequence)"

definition e2eeAAD :: "string \<Rightarrow> 64 word \<Rightarrow> bytes" where
  "e2eeAAD direction sequence =
     string_bytes ''herdr-e2ee-v1 '' @ string_bytes direction @ [0] @ be_encode 8 (unat sequence)"

section \<open>Sessions\<close>

definition newE2EESession ::
  "e2ee_env \<Rightarrow> bytes \<Rightarrow> bytes \<Rightarrow> string \<Rightarrow> string \<Rightarrow> e2ee_error + e2ee_session" where
  "newE2EESession env sendKey receiveKey sendDir receiveDir =
     (case env_gcm env sendKey of
        None \<Rightarrow> Inl CreateSendCipher
      | Some snd_aead \<Rightarrow>
          (case env_gcm env receiveKey of
             None \<Rightarrow> Inl CreateReceiveCipher
           | Some rcv_aead \<Rightarrow>
               Inr \<lparr>send = snd_aead, receive = rcv_aead, codec = CodecJSON, sendDirection = sendDir,
                    receiveDirection = receiveDir, sendSequence = 0, receiveSequence = 0\<rparr>))"

definition seal :: "e2ee_env \<Rightarrow> e2ee_session \<Rightarrow> bytes \<Rightarrow> e2ee_session \<times> (e2ee_error + bytes)" where
  "seal env s plaintext =
     (if sendSequence s > maxE2EESequence then (s, Inl SendSequenceExhausted)
      else let sequence = sendSequence s;
               nonce = e2eeFrameNonce sequence;
               ciphertext = seal_aead (send s) nonce plaintext (e2eeAAD (sendDirection s) sequence)
           in (s\<lparr>sendSequence := sendSequence s + 1\<rparr>,
               Inr (encodeFrame env (codec s) sequence ciphertext)))"

definition open_frame :: "e2ee_env \<Rightarrow> e2ee_session \<Rightarrow> bytes \<Rightarrow> e2ee_session \<times> (e2ee_error + bytes)" where
  "open_frame env s rawFrame =
     (case decodeFrame env (codec s) rawFrame of
        Inl e \<Rightarrow> (s, Inl e)
      | Inr (sequence, ciphertext) \<Rightarrow>
          if sequence > maxE2EESequence \<or> sequence \<noteq> receiveSequence s then (s, Inl InvalidSequence)
          else (case open_aead (receive s) (e2eeFrameNonce sequence) ciphertext
                       (e2eeAAD (receiveDirection s) sequence) of
                  None \<Rightarrow> (s, Inl AuthenticationFailed)
                | Some plaintext \<Rightarrow>
                    (s\<lparr>receiveSequence := receiveSequence s + 1\<rparr>, Inr plaintext)))"

section \<open>The server's handshake\<close>

definition e2eeAuthTag :: "e2ee_env \<Rightarrow> string \<Rightarrow> bytes list \<Rightarrow> bytes" where
  "e2eeAuthTag env token parts = env_hmac env (string_bytes token) (concat parts)"

definition e2eeTranscript :: "bytes \<Rightarrow> bytes \<Rightarrow> bytes \<Rightarrow> bytes \<Rightarrow> bytes" where
  "e2eeTranscript clientNonce clientPublic serverNonce serverPublic =
     clientNonce @ clientPublic @ serverNonce @ serverPublic"

definition decodeE2EEField :: "string \<Rightarrow> nat \<Rightarrow> bytes option" where
  "decodeE2EEField value size1 =
     (case b64_decode value of
        None \<Rightarrow> None
      | Some decoded \<Rightarrow> if length decoded \<noteq> size1 then None else Some decoded)"

definition parseE2EEClientFinish :: "e2ee_env \<Rightarrow> bytes \<Rightarrow> e2ee_error option" where
  "parseE2EEClientFinish env plaintext =
     (if \<not> env_utf8_valid env plaintext then Some InvalidClientFinish
      else case env_unmarshal_finish env plaintext of
             None \<Rightarrow> Some InvalidClientFinish
           | Some finish \<Rightarrow>
               if fin_type finish \<noteq> ''e2ee_client_finish'' \<or> fin_version finish \<noteq> e2eeVersion
               then Some InvalidClientFinish else None)"

definition parseE2EEClientHello :: "e2ee_env \<Rightarrow> bytes \<Rightarrow> string \<Rightarrow> e2ee_error + parsed_hello" where
  "parseE2EEClientHello env rawHello token =
     (case env_unmarshal_hello env rawHello of
        None \<Rightarrow> Inl InvalidClientHello
      | Some hello \<Rightarrow>
          if hello_type hello \<noteq> ''e2ee_client_hello'' \<or> hello_version hello \<noteq> e2eeVersion
          then Inl UnsupportedClientHello
          else case decodeE2EEField (hello_nonce hello) e2eeNonceBytes of
            None \<Rightarrow> Inl InvalidClientNonce
          | Some clientNonce \<Rightarrow>
              (case decodeE2EEField (hello_public_key hello) e2eePublicKeyBytes of
                 None \<Rightarrow> Inl InvalidClientPublicKey
               | Some clientPublic \<Rightarrow>
                   (case decodeE2EEField (hello_proof hello) sha256_size of
                      None \<Rightarrow> Inl InvalidClientProof
                    | Some clientProof \<Rightarrow>
                        if clientProof \<noteq> e2eeAuthTag env token
                             [e2eeClientProofLabel, clientNonce, clientPublic]
                        then Inl ClientProofNotAuthentic
                        else if \<not> env_valid_public env clientPublic then Inl InvalidClientPublicKey
                        else Inr \<lparr>ph_nonce = clientNonce, ph_public = clientPublic\<rparr>)))"

text \<open>The session keys: the shared secret salted with the tag over the transcript.\<close>

definition handshake_keys ::
  "e2ee_env \<Rightarrow> string \<Rightarrow> bytes \<Rightarrow> bytes \<Rightarrow> e2ee_error + (bytes \<times> bytes)" where
  "handshake_keys env token sharedSecret transcript =
     (let keySalt = e2eeAuthTag env token [e2eeKeySaltLabel, transcript]
      in case env_hkdf env sharedSecret keySalt ''herdr-e2ee-v1 c2s'' 32 of
           None \<Rightarrow> Inl DeriveClientKey
         | Some clientKey \<Rightarrow>
             (case env_hkdf env sharedSecret keySalt ''herdr-e2ee-v1 s2c'' 32 of
                None \<Rightarrow> Inl DeriveServerKey
              | Some serverKey \<Rightarrow> Inr (clientKey, serverKey)))"

text \<open>The first half, up to the server hello: the session, with the codec of the connection, and the
  hello to be written.\<close>

definition make_server_hello :: "e2ee_env \<Rightarrow> string \<Rightarrow> bytes \<Rightarrow> bytes \<Rightarrow> bytes \<Rightarrow> e2ee_server_hello" where
  "make_server_hello env token serverNonce serverPublic transcript =
     \<lparr>srv_type = ''e2ee_server_hello'', srv_version = e2eeVersion,
      srv_nonce = b64_encode serverNonce, srv_public_key = b64_encode serverPublic,
      srv_proof = b64_encode (e2eeAuthTag env token [e2eeServerProofLabel, transcript])\<rparr>"

definition handshake_session ::
  "e2ee_env \<Rightarrow> frame_codec \<Rightarrow> string \<Rightarrow> bytes \<Rightarrow> bytes option \<Rightarrow> bytes option
     \<Rightarrow> e2ee_error + (e2ee_session \<times> e2ee_server_hello)" where
  "handshake_session env connCodec token rawHello private nonce =
     (case parseE2EEClientHello env rawHello token of
        Inl e \<Rightarrow> Inl e
      | Inr hello \<Rightarrow>
          (case private of None \<Rightarrow> Inl GenerateServerKey
           | Some serverPrivate \<Rightarrow>
               (case nonce of None \<Rightarrow> Inl GenerateServerNonce
                | Some serverNonce \<Rightarrow>
                    (case env_ecdh env serverPrivate (ph_public hello) of
                       None \<Rightarrow> Inl DeriveSharedSecret
                     | Some sharedSecret \<Rightarrow>
                         (let serverPublic = env_public_of env serverPrivate;
                              transcript = e2eeTranscript (ph_nonce hello) (ph_public hello)
                                             serverNonce serverPublic
                          in case handshake_keys env token sharedSecret transcript of
                            Inl e \<Rightarrow> Inl e
                          | Inr (clientKey, serverKey) \<Rightarrow>
                              (case newE2EESession env serverKey clientKey
                                      e2eeServerDirection e2eeClientDirection of
                                 Inl e \<Rightarrow> Inl e
                               | Inr session \<Rightarrow>
                                   Inr (session\<lparr>codec := connCodec\<rparr>,
                                        make_server_hello env token serverNonce serverPublic
                                          transcript)))))))"

definition performServerE2EEHandshake ::
  "e2ee_env \<Rightarrow> frame_codec \<Rightarrow> string \<Rightarrow> bytes option \<Rightarrow> bytes option \<Rightarrow> bytes option \<Rightarrow> bool
     \<Rightarrow> bytes option \<Rightarrow> e2ee_error + (e2ee_session \<times> e2ee_server_hello)" where
  "performServerE2EEHandshake env connCodec token hello private nonce written finish =
     (case hello of
        None \<Rightarrow> Inl ReadClientHello
      | Some rawHello \<Rightarrow>
          (case handshake_session env connCodec token rawHello private nonce of
             Inl e \<Rightarrow> Inl e
           | Inr (session, response) \<Rightarrow>
               if \<not> written then Inl WriteServerHello
               else case finish of
                      None \<Rightarrow> Inl ReadClientFinish
                    | Some rawFinish \<Rightarrow>
                        (case open_frame env session rawFinish of
                           (session', Inl e) \<Rightarrow> Inl FinishNotAuthentic
                         | (session', Inr plaintext) \<Rightarrow>
                             (case parseE2EEClientFinish env plaintext of
                                Some e \<Rightarrow> Inl e
                              | None \<Rightarrow> Inr (session', response)))))"

section \<open>The binary frame codec\<close>

lemma unat64_less: "unat (q :: 64 word) < 256 ^ 8"
  using unsigned_less [of q] by simp

lemma be_encode_8_inj: "be_encode 8 (unat q) = be_encode 8 (unat q') \<Longrightarrow> q = q'" for q q' :: "64 word"
  using be_encode_inj [OF _ unat64_less unat64_less] by (metis word_unat_eq_iff)

lemma decode_encode_binary:
  "decodeFrame env CodecBinary (encodeFrame env CodecBinary q c) = Inr (q, c)"
  using be_decode_encode_id [OF unat64_less [of q]]
  by (simp add: decodeFrame_def encodeFrame_def binaryFrameHeaderSize_def)

lemma decode_binary_sound:
  assumes "decodeFrame env CodecBinary raw = Inr (q, c)"
  shows "encodeFrame env CodecBinary q c = raw"
proof -
  from assms have len: "10 \<le> length raw" and h: "raw ! 0 = binaryFrameVersion" "raw ! 1 = binaryFrameKindData"
    and q: "q = word_of_nat (be_decode (take 8 (drop 2 raw)))" and c: "c = drop 10 raw"
    by (auto simp: decodeFrame_def binaryFrameHeaderSize_def split: if_splits)
  let ?id = "take 8 (drop 2 raw)"
  have "be_decode ?id < 2 ^ 64"
    using be_decode_less [of ?id] len by simp
  then have "unat q = be_decode ?id"
    by (simp add: q unat_of_nat)
  then have "be_encode 8 (unat q) = ?id"
    using len by (simp add: be_encode_decode)
  moreover have "raw = raw ! 0 # raw ! 1 # drop 2 raw"
    using len by (cases raw; cases "tl raw") auto
  moreover have "drop 2 raw = ?id @ drop 10 raw"
    using append_take_drop_id [of 8 "drop 2 raw"] by simp
  ultimately show ?thesis
    using h c by (simp add: encodeFrame_def)
qed

definition encode_binary :: "64 word \<times> bytes \<Rightarrow> bytes" where
  "encode_binary f = [binaryFrameVersion, binaryFrameKindData] @ be_encode 8 (unat (fst f)) @ snd f"

lemma encode_binary_eq: "encode_binary (q, c) = encodeFrame env CodecBinary q c"
  by (simp add: encode_binary_def encodeFrame_def)

interpretation binary_frame: wire_codec encode_binary "decodeFrame env CodecBinary" "\<lambda>_. True"
proof
  show "decodeFrame env CodecBinary (encode_binary x) = Inr x" for x
    using decode_encode_binary [of env "fst x" "snd x"] encode_binary_eq [of "fst x" "snd x" env] by simp
  show "True \<and> encode_binary x = bs" if "decodeFrame env CodecBinary bs = Inr x" for bs x
    using that decode_binary_sound [of env bs "fst x" "snd x"] encode_binary_eq [of "fst x" "snd x" env]
    by simp
qed

section \<open>Sequence numbers\<close>

definition max_frames :: nat where "max_frames = 2 ^ 53"

lemma sequence_limit: "\<not> q > maxE2EESequence \<longleftrightarrow> unat q < max_frames"
  by (simp add: maxE2EESequence_def max_frames_def word_le_nat_alt not_less) linarith

lemma unat_next_sequence: "unat q < max_frames \<Longrightarrow> unat (q + 1) = Suc (unat q)" for q :: "64 word"
  by (simp add: max_frames_def unat_word_ariths unat_of_nat)

lemma seal_ok:
  "unat (sendSequence s) < max_frames \<Longrightarrow>
     seal env s p = (s\<lparr>sendSequence := sendSequence s + 1\<rparr>,
       Inr (encodeFrame env (codec s) (sendSequence s)
         (seal_aead (send s) (e2eeFrameNonce (sendSequence s)) p
            (e2eeAAD (sendDirection s) (sendSequence s)))))"
  using sequence_limit [of "sendSequence s"] by (simp add: seal_def Let_def)

lemma seal_exhausted:
  "\<not> unat (sendSequence s) < max_frames \<Longrightarrow> seal env s p = (s, Inl SendSequenceExhausted)"
  using sequence_limit [of "sendSequence s"] by (simp add: seal_def)

text \<open>The nonces under which a session has encrypted, in order.\<close>

primrec seal_nonces :: "e2ee_env \<Rightarrow> e2ee_session \<Rightarrow> bytes list \<Rightarrow> bytes list" where
  "seal_nonces env s [] = []"
| "seal_nonces env s (p # ps) =
     (case seal env s p of
        (s', Inl e) \<Rightarrow> seal_nonces env s' ps
      | (s', Inr frame) \<Rightarrow> e2eeFrameNonce (sendSequence s) # seal_nonces env s' ps)"

lemma e2eeFrameNonce_inj: "e2eeFrameNonce q = e2eeFrameNonce q' \<Longrightarrow> q = q'"
  by (simp add: e2eeFrameNonce_def be_encode_8_inj)

lemma seal_nonces_range:
  "n \<in> set (seal_nonces env s ps) \<Longrightarrow>
     \<exists>q. n = e2eeFrameNonce q \<and> unat (sendSequence s) \<le> unat q \<and> unat q < max_frames"
proof (induction ps arbitrary: s)
  case Nil
  then show ?case by simp
next
  case (Cons p ps)
  show ?case
  proof (cases "unat (sendSequence s) < max_frames")
    case True
    with Cons show ?thesis
      by (fastforce simp: seal_ok unat_next_sequence)
  next
    case False
    with Cons show ?thesis by (simp add: seal_exhausted)
  qed
qed

lemma seal_nonces_distinct: "distinct (seal_nonces env s ps)"
proof (induction ps arbitrary: s)
  case Nil
  then show ?case by simp
next
  case (Cons p ps)
  show ?case
  proof (cases "unat (sendSequence s) < max_frames")
    case True
    let ?s = "s\<lparr>sendSequence := sendSequence s + 1\<rparr>"
    have "e2eeFrameNonce (sendSequence s) \<notin> set (seal_nonces env ?s ps)"
      using seal_nonces_range [of _ env ?s ps] True e2eeFrameNonce_inj
      by (fastforce simp: unat_next_sequence)
    with True Cons show ?thesis by (simp add: seal_ok)
  next
    case False
    with Cons show ?thesis by (simp add: seal_exhausted)
  qed
qed

text \<open>A receiver's sequence number only grows, and never past the limit.\<close>

lemma open_frame_ok:
  assumes "open_frame env s raw = (s', Inr p)"
  shows "s' = s\<lparr>receiveSequence := receiveSequence s + 1\<rparr>" "unat (receiveSequence s) < max_frames"
    "\<exists>c. decodeFrame env (codec s) raw = Inr (receiveSequence s, c)"
  using assms sequence_limit [of "receiveSequence s"]
  by (auto simp: open_frame_def split: sum.splits prod.splits option.splits if_splits)

lemma open_frame_error: "open_frame env s raw = (s', Inl e) \<Longrightarrow> s' = s"
  by (auto simp: open_frame_def split: sum.splits prod.splits option.splits if_splits)

lemma open_frame_mono:
  "unat (receiveSequence s) \<le> unat (receiveSequence (fst (open_frame env s raw)))
   \<and> codec (fst (open_frame env s raw)) = codec s"
proof (cases "open_frame env s raw")
  case (Pair s' r)
  then show ?thesis
    using open_frame_error [of env s raw s'] open_frame_ok [of env s raw s'] unat_next_sequence
    by (cases r) auto
qed

lemma open_run_mono:
  "unat (receiveSequence s) \<le> unat (receiveSequence (fst (run_machine (open_frame env) s fs)))
   \<and> codec (fst (run_machine (open_frame env) s fs)) = codec s"
proof (induction fs arbitrary: s)
  case Nil
  then show ?case by simp
next
  case (Cons f fs)
  from Cons.IH [of "fst (open_frame env s f)"] open_frame_mono [of s env f] show ?case
    by (auto simp del: run_machine.simps)
qed

section \<open>A pair of endpoints\<close>

text \<open>Two endpoints agree on a direction when what one seals the other opens, with the same codec,
  direction label and sequence number.\<close>

definition aead_correct :: "aead \<Rightarrow> aead \<Rightarrow> bool" where
  "aead_correct a b \<longleftrightarrow> (\<forall>n p ad. open_aead b n (seal_aead a n p ad) ad = Some p)"

definition json_frame_law :: "e2ee_env \<Rightarrow> bool" where
  "json_frame_law env \<longleftrightarrow> (\<forall>q c.
     (let f = \<lparr>ef_type = ''e2ee'', ef_version = e2eeVersion, ef_sequence = q, ef_ciphertext = c\<rparr>
      in env_unmarshal_frame env (env_marshal_frame env f) = Some f))"

definition agree :: "e2ee_session \<Rightarrow> e2ee_session \<Rightarrow> bool" where
  "agree a b \<longleftrightarrow> codec a = codec b \<and> sendDirection a = receiveDirection b
     \<and> sendSequence a = receiveSequence b"

text \<open>One direction of a connection: every message is sealed by \<open>a\<close> and its frame opened by \<open>b\<close>.\<close>

primrec transfer ::
  "e2ee_env \<Rightarrow> e2ee_session \<Rightarrow> e2ee_session \<Rightarrow> bytes list
     \<Rightarrow> (e2ee_session \<times> e2ee_session) \<times> (e2ee_error + bytes) list" where
  "transfer env a b [] = ((a, b), [])"
| "transfer env a b (p # ps) =
     (case seal env a p of
        (a', Inl e) \<Rightarrow> (let (ab, outs) = transfer env a' b ps in (ab, Inl e # outs))
      | (a', Inr frame) \<Rightarrow>
          (case open_frame env b frame of
             (b', r) \<Rightarrow> (let (ab, outs) = transfer env a' b' ps in (ab, r # outs))))"

lemma decode_encode:
  "json_frame_law env \<Longrightarrow> decodeFrame env c (encodeFrame env c q t) = Inr (q, t)"
proof (cases c)
  case CodecJSON
  then show "json_frame_law env \<Longrightarrow> ?thesis"
    by (simp add: json_frame_law_def Let_def decodeFrame_def encodeFrame_def b64_decode_encode)
next
  case CodecBinary
  then show ?thesis by (simp add: decode_encode_binary)
qed

lemma open_seal:
  assumes "aead_correct (send a) (receive b)" "json_frame_law env" "agree a b"
    and "unat (sendSequence a) < max_frames"
    and "seal env a p = (a', Inr frame)"
  shows "open_frame env b frame = (b\<lparr>receiveSequence := receiveSequence b + 1\<rparr>, Inr p)"
  using assms sequence_limit [of "receiveSequence b"]
  by (auto simp: seal_ok open_frame_def agree_def decode_encode aead_correct_def)

lemma transfer_delivers:
  assumes "aead_correct (send a) (receive b)" "json_frame_law env" "agree a b"
    and "unat (sendSequence a) + length ps \<le> max_frames"
  shows "snd (transfer env a b ps) = map Inr ps
     \<and> agree (fst (fst (transfer env a b ps))) (snd (fst (transfer env a b ps)))"
  using assms
proof (induction ps arbitrary: a b)
  case Nil
  then show ?case by simp
next
  case (Cons p ps)
  then have less: "unat (sendSequence a) < max_frames" by simp
  obtain frame where seal: "seal env a p = (a\<lparr>sendSequence := sendSequence a + 1\<rparr>, Inr frame)"
    using seal_ok [OF less] by blast
  let ?a = "a\<lparr>sendSequence := sendSequence a + 1\<rparr>"
  let ?b = "b\<lparr>receiveSequence := receiveSequence b + 1\<rparr>"
  have "open_frame env b frame = (?b, Inr p)"
    using Cons.prems less seal by (intro open_seal)
  moreover have "snd (transfer env ?a ?b ps) = map Inr ps
     \<and> agree (fst (fst (transfer env ?a ?b ps))) (snd (fst (transfer env ?a ?b ps)))"
    by (rule Cons.IH) (use Cons.prems unat_next_sequence [OF less] in \<open>auto simp: agree_def\<close>)
  ultimately show ?case
    by (simp add: seal case_prod_beta Let_def)
qed

section \<open>A concrete environment\<close>

text \<open>Used by the witnesses: an AEAD that appends the nonce and the associated data as its tag, a
  constant MAC, and a two-field encoding of JSON frames.\<close>

definition tag_aead :: aead where
  "tag_aead = \<lparr>seal_aead = (\<lambda>n p ad. p @ n @ ad),
     open_aead = (\<lambda>n c ad. let k = length c - length (n @ ad)
        in if drop k c = n @ ad \<and> length (n @ ad) \<le> length c then Some (take k c) else None)\<rparr>"

definition sample_env :: e2ee_env where
  "sample_env = \<lparr>env_hmac = (\<lambda>k m. replicate 32 0),
     env_hkdf = (\<lambda>secret salt info n. Some (replicate n 0)),
     env_gcm = (\<lambda>key. Some tag_aead), env_ecdh = (\<lambda>priv pub. Some [1]),
     env_public_of = (\<lambda>priv. replicate 65 4), env_valid_public = (\<lambda>pub. True),
     env_utf8_valid = (\<lambda>b. True),
     env_marshal_frame = (\<lambda>f. be_encode 8 (unat (ef_sequence f)) @ string_bytes (ef_ciphertext f)),
     env_unmarshal_frame = (\<lambda>b. Some \<lparr>ef_type = ''e2ee'', ef_version = e2eeVersion,
        ef_sequence = word_of_nat (be_decode (take 8 b)),
        ef_ciphertext = map (\<lambda>x. char_of (unat x)) (drop 8 b)\<rparr>),
     env_unmarshal_hello = (\<lambda>b. Some \<lparr>hello_type = ''e2ee_client_hello'', hello_version = e2eeVersion,
        hello_nonce = b64_encode (replicate 32 7), hello_public_key = b64_encode (replicate 65 9),
        hello_proof = b64_encode (replicate 32 0)\<rparr>),
     env_unmarshal_finish = (\<lambda>b. Some \<lparr>fin_type = ''e2ee_client_finish'', fin_version = e2eeVersion\<rparr>)\<rparr>"

definition sample_session :: "frame_codec \<Rightarrow> string \<Rightarrow> string \<Rightarrow> e2ee_session" where
  "sample_session c d d' = \<lparr>send = tag_aead, receive = tag_aead, codec = c, sendDirection = d,
     receiveDirection = d', sendSequence = 0, receiveSequence = 0\<rparr>"

lemma tag_aead_correct: "aead_correct tag_aead tag_aead"
  by (simp add: aead_correct_def tag_aead_def Let_def)

lemma string_bytes_back: "map (\<lambda>x. char_of (unat x)) (string_bytes s) = s"
proof -
  have "char_of (unat (of_char c :: byte)) = c" for c
    by (simp only: of_char_unat_byte) simp
  then show ?thesis by (simp add: string_bytes_def map_idI)
qed

lemma sample_env_law: "json_frame_law sample_env"
  using be_decode_encode_id [OF unat64_less]
  by (simp add: json_frame_law_def sample_env_def Let_def string_bytes_back)

section \<open>Properties\<close>




text \<open>C4. No replay: once a frame has been opened, the same bytes are refused as out of sequence in
  every later state of the receiver, whatever frames it was offered in between, and the refusal does
  not change the receiver.\<close>

theorem e2ee_no_replay:
  assumes "open_frame env s raw = (s', Inr p)"
  shows "open_frame env (fst (run_machine (open_frame env) s' fs)) raw
           = (fst (run_machine (open_frame env) s' fs), Inl InvalidSequence)"
proof -
  let ?t = "fst (run_machine (open_frame env) s' fs)"
  note ok = open_frame_ok [OF assms]
  obtain c where dec: "decodeFrame env (codec s) raw = Inr (receiveSequence s, c)"
    using ok(3) by blast
  have "unat (receiveSequence s) < unat (receiveSequence ?t)" and "codec ?t = codec s"
    using open_run_mono [of s' env fs] unat_next_sequence [OF ok(2)] ok(1) by auto
  then have "receiveSequence s \<noteq> receiveSequence ?t" by auto
  with dec \<open>codec ?t = codec s\<close> show ?thesis
    by (simp add: open_frame_def)
qed

lemma sample_open:
  "open_frame sample_env (sample_session CodecBinary ''s2c'' ''c2s'')
     (encodeFrame sample_env CodecBinary 0 (seal_aead tag_aead (e2eeFrameNonce 0) [5] (e2eeAAD ''c2s'' 0)))
   = (sample_session CodecBinary ''s2c'' ''c2s''\<lparr>receiveSequence := 1\<rparr>, Inr [5])"
  using tag_aead_correct
  by (simp add: open_frame_def sample_session_def decode_encode_binary aead_correct_def
      maxE2EESequence_def)

theorem e2ee_no_replay_witness:
  "snd (open_frame sample_env (sample_session CodecBinary ''s2c'' ''c2s''\<lparr>receiveSequence := 1\<rparr>)
     (encodeFrame sample_env CodecBinary 0
        (seal_aead tag_aead (e2eeFrameNonce 0) [5] (e2eeAAD ''c2s'' 0)))) = Inl InvalidSequence"
  using e2ee_no_replay [OF sample_open, of "[]"] by simp

text \<open>C33. What a completed handshake means: the client hello carried a 32-byte nonce and a 65-byte
  public key under the MAC of the relay token, the finish frame authenticated at sequence zero under
  the derived client key, and the session returned sends on \<open>s2c\<close> from sequence zero, receives on
  \<open>c2s\<close> from sequence one, and uses the codec of the connection.\<close>

theorem e2ee_handshake_authenticates:
  assumes "performServerE2EEHandshake env c token hello private nonce written finish
             = Inr (session, response)"
  shows "\<exists>rawHello h clientNonce clientPublic rawFinish s0 p.
      hello = Some rawHello \<and> env_unmarshal_hello env rawHello = Some h
      \<and> b64_decode (hello_nonce h) = Some clientNonce \<and> length clientNonce = 32
      \<and> b64_decode (hello_public_key h) = Some clientPublic \<and> length clientPublic = 65
      \<and> b64_decode (hello_proof h) = Some (env_hmac env (string_bytes token)
            (e2eeClientProofLabel @ clientNonce @ clientPublic))
      \<and> finish = Some rawFinish \<and> receiveSequence s0 = 0
      \<and> open_frame env s0 rawFinish = (session, Inr p)
      \<and> sendDirection session = ''s2c'' \<and> receiveDirection session = ''c2s''
      \<and> sendSequence session = 0 \<and> receiveSequence session = 1 \<and> codec session = c"
proof -
  obtain rawHello rawFinish s0 p where hello: "hello = Some rawHello" and fin: "finish = Some rawFinish"
    and hs: "handshake_session env c token rawHello private nonce = Inr (s0, response)"
    and opened: "open_frame env s0 rawFinish = (session, Inr p)"
    using assms
    by (auto simp: performServerE2EEHandshake_def split: option.splits sum.splits prod.splits if_splits)
  have s0: "receiveSequence s0 = 0" "sendSequence s0 = 0" "codec s0 = c" "sendDirection s0 = ''s2c''"
    "receiveDirection s0 = ''c2s''"
    using hs by (auto simp: handshake_session_def newE2EESession_def Let_def e2eeServerDirection_def
        e2eeClientDirection_def split: option.splits sum.splits prod.splits if_splits)
  obtain ph where "parseE2EEClientHello env rawHello token = Inr ph"
    using hs by (auto simp: handshake_session_def split: sum.splits)
  then obtain h clientNonce clientPublic where "env_unmarshal_hello env rawHello = Some h"
      "b64_decode (hello_nonce h) = Some clientNonce" "length clientNonce = 32"
      "b64_decode (hello_public_key h) = Some clientPublic" "length clientPublic = 65"
      "b64_decode (hello_proof h) = Some (env_hmac env (string_bytes token)
            (e2eeClientProofLabel @ clientNonce @ clientPublic))"
    by (auto simp: parseE2EEClientHello_def decodeE2EEField_def e2eeAuthTag_def e2eeNonceBytes_def
        e2eePublicKeyBytes_def split: option.splits if_splits)
  moreover have "sendDirection session = ''s2c''" "receiveDirection session = ''c2s''"
      "sendSequence session = 0" "receiveSequence session = 1" "codec session = c"
    using open_frame_ok(1) [OF opened] s0 by simp_all
  ultimately show ?thesis
    using hello fin s0(1) opened by blast
qed

theorem e2ee_handshake_authenticates_witness:
  "\<exists>session response. performServerE2EEHandshake sample_env CodecBinary ''token'' (Some []) (Some [1])
       (Some (replicate 32 6)) True (Some (encodeFrame sample_env CodecBinary 0
          (seal_aead tag_aead (e2eeFrameNonce 0) [5] (e2eeAAD ''c2s'' 0)))) = Inr (session, response)
     \<and> sendSequence session = 0 \<and> receiveSequence session = 1"
proof -
  let ?raw = "encodeFrame sample_env CodecBinary 0
          (seal_aead tag_aead (e2eeFrameNonce 0) [5] (e2eeAAD ''c2s'' 0))"
  have parse: "parseE2EEClientHello sample_env [] ''token''
      = Inr \<lparr>ph_nonce = replicate 32 7, ph_public = replicate 65 9\<rparr>"
    by (simp add: parseE2EEClientHello_def sample_env_def decodeE2EEField_def b64_decode_encode
        e2eeNonceBytes_def e2eePublicKeyBytes_def sha256_size_def e2eeAuthTag_def
        del: b64_encode.simps)
  have hs: "\<exists>response. handshake_session sample_env CodecBinary ''token'' [] (Some [1]) (Some (replicate 32 6))
      = Inr (sample_session CodecBinary ''s2c'' ''c2s'', response)"
    by (simp add: handshake_session_def parse) (simp add: sample_env_def handshake_keys_def
        newE2EESession_def sample_session_def e2eeServerDirection_def e2eeClientDirection_def Let_def)
  have fin: "parseE2EEClientFinish sample_env [5] = None"
    by (simp add: parseE2EEClientFinish_def sample_env_def)
  obtain response where complete: "performServerE2EEHandshake sample_env CodecBinary ''token'' (Some []) (Some [1])
       (Some (replicate 32 6)) True (Some ?raw)
      = Inr (sample_session CodecBinary ''s2c'' ''c2s''\<lparr>receiveSequence := 1\<rparr>, response)"
    using hs by (auto simp: performServerE2EEHandshake_def sample_open fin)
  from e2ee_handshake_authenticates [OF complete] complete show ?thesis by blast
qed

end
