(* ===== verification/Send_Buffer.thy ===== *)
theory Send_Buffer
  imports Relay_Prelude
begin

text \<open>
  The bounded outbound queue of a client connection, \<^verbatim>\<open>internal/transport/sendbuffer.go\<close>. Every
  operation runs under the buffer's mutex and is one atomic step. \<open>Pop\<close> blocks on the condition
  variable while the buffer is empty and open: the model returns \<open>PopWait\<close> there, the state in which
  the goroutine sleeps. \<open>messageType\<close> parses the JSON envelope and is an argument of \<open>Push\<close>.
\<close>

section \<open>State\<close>

definition clientOutboundMaxItems :: int where "clientOutboundMaxItems = 64"
definition clientOutboundMaxBytes :: int where "clientOutboundMaxBytes = 4 * 1024 * 1024"

record buffered_message =
  bm_data :: bytes
  bm_type :: string
  bm_replaceable :: bool

record send_buffer =
  sb_items :: "buffered_message list"
  sb_bytes :: int
  sb_maxItems :: int
  sb_maxBytes :: int
  sb_closed :: bool

datatype push_result = PushRejected | PushQueued | PushCoalesced
datatype pop_result = PopWait | PopClosed | PopItem bytes

section \<open>Operations\<close>

definition newSendBuffer :: "int \<Rightarrow> int \<Rightarrow> send_buffer" where
  "newSendBuffer maxItems maxBytes =
     \<lparr>sb_items = [], sb_bytes = 0, sb_maxItems = maxItems, sb_maxBytes = maxBytes, sb_closed = False\<rparr>"

definition can_coalesce :: "send_buffer \<Rightarrow> string \<Rightarrow> bool \<Rightarrow> bool" where
  "can_coalesce b kind replaceable \<longleftrightarrow>
     replaceable \<and> sb_items b \<noteq> [] \<and> bm_replaceable (last (sb_items b))
     \<and> bm_type (last (sb_items b)) = kind"

definition pushTyped :: "send_buffer \<Rightarrow> bytes \<Rightarrow> string \<Rightarrow> bool \<Rightarrow> send_buffer \<times> push_result" where
  "pushTyped b data kind replaceable =
     (if sb_closed b then (b, PushRejected)
      else if can_coalesce b kind replaceable then
        (let tail = last (sb_items b);
             nextBytes = sb_bytes b - int (length (bm_data tail)) + int (length data)
         in if nextBytes > sb_maxBytes b then (b, PushRejected)
            else (b\<lparr>sb_bytes := nextBytes,
                    sb_items := butlast (sb_items b) @ [tail\<lparr>bm_data := data\<rparr>]\<rparr>, PushCoalesced))
      else if int (length (sb_items b)) \<ge> sb_maxItems b
              \<or> sb_bytes b + int (length data) > sb_maxBytes b then (b, PushRejected)
      else (b\<lparr>sb_items := sb_items b @ [\<lparr>bm_data = data, bm_type = kind, bm_replaceable = replaceable\<rparr>],
              sb_bytes := sb_bytes b + int (length data)\<rparr>, PushQueued))"

definition PushTyped :: "send_buffer \<Rightarrow> bytes \<Rightarrow> string \<Rightarrow> bool \<Rightarrow> send_buffer \<times> bool" where
  "PushTyped b data kind replaceable =
     (let (b', r) = pushTyped b data kind replaceable in (b', r \<noteq> PushRejected))"

definition Push_raw :: "(bytes \<Rightarrow> string) \<Rightarrow> send_buffer \<Rightarrow> bytes \<Rightarrow> send_buffer \<times> bool" where
  "Push_raw messageType b data = PushTyped b data (messageType data) False"

definition Pop :: "send_buffer \<Rightarrow> send_buffer \<times> pop_result" where
  "Pop b =
     (case sb_items b of
        [] \<Rightarrow> if sb_closed b then (b, PopClosed) else (b, PopWait)
      | item # rest \<Rightarrow>
          (b\<lparr>sb_items := rest, sb_bytes := sb_bytes b - int (length (bm_data item))\<rparr>,
           PopItem (bm_data item)))"

definition Close :: "send_buffer \<Rightarrow> send_buffer" where
  "Close b = (if \<not> sb_closed b then b\<lparr>sb_closed := True\<rparr> else b)"

definition Len :: "send_buffer \<Rightarrow> nat" where
  "Len b = length (sb_items b)"

definition Bytes :: "send_buffer \<Rightarrow> int" where
  "Bytes b = sb_bytes b"

section \<open>Runs\<close>

datatype sb_event = EPush bytes string bool | EPop | EClose
datatype sb_output = OPush push_result | OPop pop_result | OClose

fun sb_step :: "send_buffer \<Rightarrow> sb_event \<Rightarrow> send_buffer \<times> sb_output" where
  "sb_step b (EPush d k r) = (let (b', x) = pushTyped b d k r in (b', OPush x))"
| "sb_step b EPop = (let (b', x) = Pop b in (b', OPop x))"
| "sb_step b EClose = (Close b, OClose)"

definition sb_inv :: "send_buffer \<Rightarrow> bool" where
  "sb_inv b \<longleftrightarrow> sb_bytes b = sum_list (map (\<lambda>m. int (length (bm_data m))) (sb_items b))
     \<and> int (length (sb_items b)) \<le> max 0 (sb_maxItems b) \<and> sb_bytes b \<le> max 0 (sb_maxBytes b)"

lemma pushTyped_inv:
  assumes "sb_inv b"
  shows "sb_inv (fst (pushTyped b d k r))"
proof (cases "can_coalesce b k r")
  case True
  then obtain pre tail where "sb_items b = pre @ [tail]"
    by (metis can_coalesce_def append_butlast_last_id)
  with assms True show ?thesis
    by (auto simp: pushTyped_def sb_inv_def Let_def)
next
  case False
  with assms show ?thesis
    by (auto simp: pushTyped_def sb_inv_def)
qed

lemma pop_inv: "sb_inv b \<Longrightarrow> sb_inv (fst (Pop b))"
  by (auto simp: Pop_def sb_inv_def split: list.splits)

lemma close_inv: "sb_inv b \<Longrightarrow> sb_inv (Close b)"
  by (simp add: sb_inv_def Close_def)

lemma sb_step_inv: "sb_inv b \<Longrightarrow> sb_inv (fst (sb_step b e))"
  by (cases e) (simp_all add: Let_def case_prod_beta pushTyped_inv pop_inv close_inv)

interpretation sendbuf: invariant_machine sb_step "\<lambda>_. True" sb_inv
  by unfold_locales (rule sb_step_inv)

lemma newSendBuffer_inv: "sb_inv (newSendBuffer i n)"
  by (simp add: newSendBuffer_def sb_inv_def)

lemma sb_step_limits:
  "sb_maxItems (fst (sb_step b e)) = sb_maxItems b" "sb_maxBytes (fst (sb_step b e)) = sb_maxBytes b"
  by (cases e; simp add: Let_def case_prod_beta pushTyped_def Pop_def Close_def split: list.split)+

lemma run_limits:
  "sb_maxItems (fst (run_machine sb_step b es)) = sb_maxItems b
   \<and> sb_maxBytes (fst (run_machine sb_step b es)) = sb_maxBytes b"
  by (induction es arbitrary: b) (simp_all add: sb_step_limits)

section \<open>No loss, no reordering\<close>

text \<open>The messages that may not be replaced, as the producers submitted them and the buffer accepted
  them, and as the consumer took them out.\<close>

abbreviation durable :: "buffered_message list \<Rightarrow> buffered_message list" where
  "durable ms \<equiv> filter (\<lambda>m. \<not> bm_replaceable m) ms"

primrec accepted :: "send_buffer \<Rightarrow> sb_event list \<Rightarrow> buffered_message list" where
  "accepted b [] = []"
| "accepted b (e # es) =
     (case e of
        EPush d k r \<Rightarrow> if snd (pushTyped b d k r) \<noteq> PushRejected
          then [\<lparr>bm_data = d, bm_type = k, bm_replaceable = r\<rparr>] else []
      | _ \<Rightarrow> []) @ accepted (fst (sb_step b e)) es"

primrec taken :: "send_buffer \<Rightarrow> sb_event list \<Rightarrow> buffered_message list" where
  "taken b [] = []"
| "taken b (e # es) =
     (case e of EPop \<Rightarrow> (case sb_items b of [] \<Rightarrow> [] | m # _ \<Rightarrow> [m]) | _ \<Rightarrow> [])
       @ taken (fst (sb_step b e)) es"

lemma pushTyped_durable:
  "durable (sb_items (fst (pushTyped b d k r))) =
     durable (sb_items b) @ (if snd (pushTyped b d k r) \<noteq> PushRejected
        then durable [\<lparr>bm_data = d, bm_type = k, bm_replaceable = r\<rparr>] else [])"
proof (cases "can_coalesce b k r")
  case True
  then obtain pre tail where "sb_items b = pre @ [tail]"
    by (metis can_coalesce_def append_butlast_last_id)
  with True show ?thesis
    by (auto simp: pushTyped_def can_coalesce_def Let_def)
qed (auto simp: pushTyped_def)

lemma durable_conserved:
  "durable (sb_items b) @ durable (accepted b es)
     = durable (taken b es) @ durable (sb_items (fst (run_machine sb_step b es)))"
proof (induction es arbitrary: b)
  case Nil
  then show ?case by simp
next
  case (Cons e es)
  show ?case
  proof (cases e)
    case (EPush d k r)
    with Cons [of "fst (pushTyped b d k r)"] show ?thesis
      by (cases "snd (pushTyped b d k r) = PushRejected"; cases r)
        (simp_all add: pushTyped_durable Let_def case_prod_beta)
  next
    case EPop
    with Cons [of "fst (Pop b)"] show ?thesis
      by (cases "sb_items b"; cases "sb_closed b") (simp_all add: Pop_def Let_def case_prod_beta)
  next
    case EClose
    with Cons [of "Close b"] show ?thesis
      by (simp add: Close_def split: if_splits)
  qed
qed

text \<open>A coalescing push leaves one message of its kind at the tail, the latest.\<close>

lemma coalesce_latest:
  assumes "snd (pushTyped b d k r) = PushCoalesced"
  shows "last (sb_items (fst (pushTyped b d k r))) = \<lparr>bm_data = d, bm_type = k, bm_replaceable = True\<rparr>
    \<and> length (sb_items (fst (pushTyped b d k r))) = length (sb_items b)"
proof -
  from assms have c: "can_coalesce b k r"
    by (auto simp: pushTyped_def split: if_splits)
  then have "sb_items b \<noteq> []" by (simp add: can_coalesce_def)
  with assms c show ?thesis
    by (cases "last (sb_items b)") (auto simp: pushTyped_def can_coalesce_def Let_def split: if_splits)
qed

section \<open>Properties\<close>

text \<open>Bounded buffering: over every interleaving of pushes, pops and a close on a new buffer, the
  byte counter is exactly the number of bytes queued, and neither the number of messages nor the
  number of bytes exceeds the configured limits.\<close>

theorem send_buffer_bounded:
  assumes "0 \<le> maxItems" "0 \<le> maxBytes"
  shows "let b = fst (run_machine sb_step (newSendBuffer maxItems maxBytes) es)
         in Bytes b = sum_list (map (\<lambda>m. int (length (bm_data m))) (sb_items b))
            \<and> int (Len b) \<le> maxItems \<and> Bytes b \<le> maxBytes"
  using sendbuf.run_inv [OF newSendBuffer_inv [of maxItems maxBytes], of es] assms
    run_limits [of "newSendBuffer maxItems maxBytes" es]
  by (simp add: sb_inv_def Let_def Bytes_def Len_def newSendBuffer_def list_all_iff)

theorem send_buffer_bounded_witness:
  "let b = fst (run_machine sb_step (newSendBuffer clientOutboundMaxItems clientOutboundMaxBytes)
             [EPush [1, 2] ''agents'' True, EPush [3] ''agents'' True, EPop, EPush [4] ''ack'' False])
   in Bytes b = sum_list (map (\<lambda>m. int (length (bm_data m))) (sb_items b))
      \<and> int (Len b) \<le> clientOutboundMaxItems \<and> Bytes b \<le> clientOutboundMaxBytes"
  by (rule send_buffer_bounded) (simp_all add: clientOutboundMaxItems_def clientOutboundMaxBytes_def)


end
