(* ===== verification/Rate_Limiter.thy ===== *)
theory Rate_Limiter
  imports Relay_Prelude
begin

text \<open>
  The gateway's fixed-window rate limiter, \<^verbatim>\<open>internal/gateway/ratelimit.go\<close>: one bucket (window
  start, count) per client key, and a sweep of dead windows at most once per window.
\<close>

section \<open>State and operations\<close>

record rate_bucket =
  rb_start :: time
  rb_count :: int

record rate_limiter =
  rl_limit :: int
  rl_window :: duration
  rl_buckets :: "rate_bucket gomap"
  rl_lastPrune :: time

definition newRateLimiter :: "int \<Rightarrow> duration \<Rightarrow> rate_limiter" where
  "newRateLimiter limit window =
     \<lparr>rl_limit = limit, rl_window = window, rl_buckets = Map.empty, rl_lastPrune = 0\<rparr>"

definition pruneLocked :: "rate_limiter \<Rightarrow> time \<Rightarrow> rate_limiter" where
  "pruneLocked l now = l\<lparr>rl_buckets := (\<lambda>key.
     case rl_buckets l key of
       None \<Rightarrow> None
     | Some bucket \<Rightarrow>
         if time_sub now (rb_start bucket) \<ge> int64 (2 * rl_window l) then None else Some bucket)\<rparr>"

definition allow :: "rate_limiter \<Rightarrow> string \<Rightarrow> time \<Rightarrow> rate_limiter \<times> bool" where
  "allow l0 key now =
     (if rl_limit l0 \<le> 0 then (l0, True)
      else let l = (if time_sub now (rl_lastPrune l0) \<ge> rl_window l0
                    then (pruneLocked l0 now)\<lparr>rl_lastPrune := now\<rparr> else l0)
           in case rl_buckets l key of
                None \<Rightarrow>
                  (l\<lparr>rl_buckets := (rl_buckets l)(key \<mapsto> \<lparr>rb_start = now, rb_count = 1\<rparr>)\<rparr>, True)
              | Some bucket \<Rightarrow>
                  if time_sub now (rb_start bucket) \<ge> rl_window l
                  then (l\<lparr>rl_buckets := (rl_buckets l)(key \<mapsto> \<lparr>rb_start = now, rb_count = 1\<rparr>)\<rparr>, True)
                  else if rb_count bucket \<ge> rl_limit l then (l, False)
                  else (l\<lparr>rl_buckets := (rl_buckets l)(key \<mapsto> bucket\<lparr>rb_count := rb_count bucket + 1\<rparr>)\<rparr>,
                        True))"

section \<open>Grants of one key\<close>

text \<open>The times at which the limiter admitted an event of a key, latest first.\<close>

primrec grants :: "rate_limiter \<Rightarrow> string \<Rightarrow> (string \<times> time) list \<Rightarrow> rate_limiter \<times> time list" where
  "grants l key [] = (l, [])"
| "grants l key (e # es) =
     (let (l1, ts) = grants l key es;
          (l2, ok) = allow l1 (fst e) (snd e)
      in (l2, if ok \<and> fst e = key then snd e # ts else ts))"

text \<open>The grants grouped by window: each group is a window start and the times granted in it.\<close>

type_synonym window = "time \<times> time list"

definition window_ok :: "int \<Rightarrow> duration \<Rightarrow> window \<Rightarrow> bool" where
  "window_ok limit w g \<longleftrightarrow> int (length (snd g)) \<le> limit \<and> (\<forall>t \<in> set (snd g). fst g \<le> t \<and> t < fst g + w)"

fun windows_apart :: "duration \<Rightarrow> window list \<Rightarrow> bool" where
  "windows_apart w (g # h # gs) = (fst h + w \<le> fst g \<and> windows_apart w (h # gs))"
| "windows_apart w gs = True"

definition in_range :: "time \<Rightarrow> duration \<Rightarrow> time list \<Rightarrow> int" where
  "in_range a w ts = int (length (filter (\<lambda>t. a \<le> t \<and> t < a + w) ts))"

abbreviation granted :: "window list \<Rightarrow> time list" where
  "granted gs \<equiv> concat (map snd gs)"

lemma in_range_append [simp]: "in_range a w (xs @ ys) = in_range a w xs + in_range a w ys"
  by (simp add: in_range_def)

lemma in_range_window: "window_ok limit w g \<Longrightarrow> in_range a w (snd g) \<le> limit"
  using length_filter_le [of "\<lambda>t. a \<le> t \<and> t < a + w" "snd g"]
  unfolding in_range_def window_ok_def by linarith

lemma in_range_old:
  assumes "window_ok limit w g" "fst g + w \<le> a"
  shows "in_range a w (snd g) = 0"
  using assms by (force simp: in_range_def window_ok_def filter_empty_conv)

lemma windows_apart_tail: "0 < w \<Longrightarrow> windows_apart w (g # gs) \<Longrightarrow> h \<in> set gs \<Longrightarrow> fst h + w \<le> fst g"
proof (induction gs arbitrary: g)
  case Nil
  then show ?case by simp
next
  case (Cons k gs)
  then have "fst k + w \<le> fst g" "windows_apart w (k # gs)" by auto
  with Cons.IH [of k] Cons.prems show ?case by fastforce
qed

text \<open>Windows that all end by \<open>a\<close> contribute nothing to the range from \<open>a\<close>.\<close>

lemma in_range_all_old:
  assumes "list_all (window_ok limit w) gs" "\<forall>g \<in> set gs. fst g + w \<le> a"
  shows "in_range a w (granted gs) = 0"
  using assms by (induction gs) (simp add: in_range_def, simp add: in_range_old [of limit])

text \<open>At most two windows meet a range of the length of a window.\<close>

lemma in_range_windows:
  assumes "0 < w" "0 \<le> limit" "list_all (window_ok limit w) gs" "windows_apart w gs"
  shows "in_range a w (granted gs) \<le> 2 * limit"
  using assms(3,4)
proof (induction gs)
  case Nil
  then show ?case using assms(2) by (simp add: in_range_def)
next
  case (Cons g gs)
  show ?case
  proof (cases "fst g < a + w")
    case False
    then have "in_range a w (snd g) = 0"
      using Cons.prems by (force simp: in_range_def window_ok_def filter_empty_conv)
    moreover have "windows_apart w gs"
      using Cons.prems by (cases gs) auto
    ultimately show ?thesis
      using Cons by simp
  next
    case near: True
    show ?thesis
    proof (cases gs)
      case Nil
      then show ?thesis
        using Cons.prems in_range_window [of limit w g a] assms(2) by (simp add: in_range_def)
    next
      case (Cons h hs)
      have "fst k + w \<le> a" if "k \<in> set hs" for k
        using windows_apart_tail [OF assms(1), of h hs k] that Cons.prems near
          \<open>gs = h # hs\<close> by fastforce
      then have "in_range a w (granted hs) = 0"
        using Cons.prems \<open>gs = h # hs\<close> by (intro in_range_all_old [of limit]) auto
      moreover have "in_range a w (snd g) \<le> limit" "in_range a w (snd h) \<le> limit"
        using Cons.prems \<open>gs = h # hs\<close> in_range_window by auto
      ultimately show ?thesis
        using \<open>gs = h # hs\<close> by simp
    qed
  qed
qed

section \<open>The limiter and its windows\<close>

text \<open>How the bucket of a key relates to its windows (latest first) at a time not before any of them.\<close>

definition tracks :: "rate_limiter \<Rightarrow> string \<Rightarrow> window list \<Rightarrow> time \<Rightarrow> bool" where
  "tracks l key gs now \<longleftrightarrow>
     list_all (window_ok (rl_limit l) (rl_window l)) gs \<and> windows_apart (rl_window l) gs
     \<and> (\<forall>g \<in> set gs. fst g \<le> now)
     \<and> (case rl_buckets l key of
          None \<Rightarrow> (\<forall>g \<in> set gs. fst g + rl_window l \<le> now)
        | Some b \<Rightarrow> gs \<noteq> [] \<and> fst (hd gs) = rb_start b \<and> int (length (snd (hd gs))) = rb_count b)"

definition sane :: "rate_limiter \<Rightarrow> bool" where
  "sane l \<longleftrightarrow> 0 < rl_limit l \<and> 0 < rl_window l \<and> 2 * rl_window l \<le> max_duration"

lemma sane_expiry:
  assumes "sane l"
  shows "time_sub now s \<ge> rl_window l \<longleftrightarrow> s + rl_window l \<le> now"
    and "time_sub now s \<ge> int64 (2 * rl_window l) \<longleftrightarrow> s + 2 * rl_window l \<le> now"
proof -
  have w: "0 < rl_window l" "rl_window l \<le> max_duration" "2 * rl_window l \<le> max_duration"
    using assms by (auto simp: sane_def)
  show "time_sub now s \<ge> rl_window l \<longleftrightarrow> s + rl_window l \<le> now"
    using time_sub_ge_iff [OF w(1,2)] .
  have "int64 (2 * rl_window l) = 2 * rl_window l"
    using w by (intro int64_exact) (auto simp: max_duration_def)
  then show "time_sub now s \<ge> int64 (2 * rl_window l) \<longleftrightarrow> s + 2 * rl_window l \<le> now"
    using time_sub_ge_iff [of "2 * rl_window l" now s] w by simp
qed

lemma tracks_later: "tracks l key gs last1 \<Longrightarrow> last1 \<le> now \<Longrightarrow> tracks l key gs now"
  by (force simp: tracks_def split: option.splits)

lemma tracks_prune:
  assumes "sane l" "tracks l key gs now"
  shows "tracks (pruneLocked l now) key gs now"
proof (cases "rl_buckets l key")
  case None
  with assms show ?thesis by (simp add: tracks_def pruneLocked_def)
next
  case (Some b)
  then obtain g gs' where gs: "gs = g # gs'" and start: "fst g = rb_start b"
    using assms(2) by (cases gs) (auto simp: tracks_def)
  have w: "0 < rl_window l" using assms(1) by (simp add: sane_def)
  have "fst h + rl_window l \<le> now" if "rb_start b + 2 * rl_window l \<le> now" "h \<in> set gs" for h
    using that windows_apart_tail [OF w, of g gs' h] assms(2) gs start w by (fastforce simp: tracks_def)
  with assms Some show ?thesis
    by (auto simp: tracks_def pruneLocked_def sane_expiry)
qed

lemma tracks_new_window:
  assumes "sane l" "tracks l key gs now" "\<forall>g \<in> set gs. fst g + rl_window l \<le> now"
  shows "tracks (l\<lparr>rl_buckets := (rl_buckets l)(key \<mapsto> \<lparr>rb_start = now, rb_count = 1\<rparr>)\<rparr>) key
           ((now, [now]) # gs) now"
  using assms by (cases gs) (auto simp: tracks_def sane_def window_ok_def)

lemma tracks_same_window:
  assumes "sane l" "tracks l key gs now" "rl_buckets l key = Some b"
    and "\<not> rb_start b + rl_window l \<le> now" "rb_count b < rl_limit l"
  shows "tracks (l\<lparr>rl_buckets := (rl_buckets l)(key \<mapsto> b\<lparr>rb_count := rb_count b + 1\<rparr>)\<rparr>) key
           ((fst (hd gs), now # snd (hd gs)) # tl gs) now"
proof -
  obtain g gs' where "gs = g # gs'" using assms by (cases gs) (auto simp: tracks_def)
  with assms show ?thesis
    by (cases gs') (auto simp: tracks_def window_ok_def)
qed

lemma tracks_other_key:
  "k \<noteq> key \<Longrightarrow> tracks l key gs now \<Longrightarrow> tracks (l\<lparr>rl_buckets := (rl_buckets l)(k \<mapsto> b)\<rparr>) key gs now"
  by (auto simp: tracks_def split: option.splits)

lemma expired_windows:
  assumes "sane l" "tracks l key gs now"
    and "case rl_buckets l key of None \<Rightarrow> True | Some b \<Rightarrow> rb_start b + rl_window l \<le> now"
  shows "\<forall>g \<in> set gs. fst g + rl_window l \<le> now"
proof (cases "rl_buckets l key")
  case None
  with assms show ?thesis by (simp add: tracks_def)
next
  case (Some b)
  then obtain g gs' where gs: "gs = g # gs'" "fst g = rb_start b"
    using assms(2) by (cases gs) (auto simp: tracks_def)
  have "0 < rl_window l" using assms(1) by (simp add: sane_def)
  with windows_apart_tail [of "rl_window l" g gs'] gs assms Some show ?thesis
    by (fastforce simp: tracks_def)
qed

lemma allow_params:
  "rl_limit (fst (allow l k now)) = rl_limit l" "rl_window (fst (allow l k now)) = rl_window l"
  by (auto simp: allow_def pruneLocked_def Let_def split: option.splits)

lemma allow_tracks_pruned:
  assumes "sane l" "tracks l key gs now"
  shows "\<exists>gs'. tracks (fst (allow l k now)) key gs' now
      \<and> granted gs' = (if snd (allow l k now) \<and> k = key then now # granted gs else granted gs)"
proof -
  define l1 where "l1 = (if time_sub now (rl_lastPrune l) \<ge> rl_window l
                    then (pruneLocked l now)\<lparr>rl_lastPrune := now\<rparr> else l)"
  have same: "rl_limit l1 = rl_limit l" "rl_window l1 = rl_window l"
    by (simp_all add: l1_def pruneLocked_def)
  have sane1: "sane l1" using assms(1) same by (simp add: sane_def)
  have tr: "tracks l1 key gs now"
    using tracks_prune [OF assms] assms(2) by (simp add: l1_def tracks_def split: option.splits)
  have lim: "\<not> rl_limit l \<le> 0" using assms(1) by (simp add: sane_def)
  let ?new = "l1\<lparr>rl_buckets := (rl_buckets l1)(k \<mapsto> \<lparr>rb_start = now, rb_count = 1\<rparr>)\<rparr>"
  consider (new) "allow l k now = (?new, True)"
      "case rl_buckets l1 k of None \<Rightarrow> True | Some b \<Rightarrow> rb_start b + rl_window l1 \<le> now"
    | (deny) "allow l k now = (l1, False)"
    | (more) b where "rl_buckets l1 k = Some b" "\<not> rb_start b + rl_window l1 \<le> now"
        "rb_count b < rl_limit l1"
        "allow l k now = (l1\<lparr>rl_buckets := (rl_buckets l1)(k \<mapsto> b\<lparr>rb_count := rb_count b + 1\<rparr>)\<rparr>, True)"
  proof (cases "rl_buckets l1 k")
    case None
    with new lim show ?thesis by (simp add: allow_def Let_def l1_def [symmetric])
  next
    case (Some b)
    with new deny more [of b] lim sane_expiry(1) [OF sane1] show ?thesis
      by (cases "rb_start b + rl_window l1 \<le> now"; cases "rl_limit l1 \<le> rb_count b")
        (simp_all add: allow_def Let_def l1_def [symmetric])
  qed
  then show ?thesis
  proof cases
    case new
    show ?thesis
    proof (cases "k = key")
      case True
      with new tracks_new_window [OF sane1 tr expired_windows [OF sane1 tr]] show ?thesis
        by (intro exI [of _ "(now, [now]) # gs"]) simp
    next
      case False
      with new tracks_other_key [OF False tr] show ?thesis by auto
    qed
  next
    case deny
    with tr show ?thesis by auto
  next
    case (more b)
    show ?thesis
    proof (cases "k = key")
      case True
      then have "gs \<noteq> []" using tr more(1) by (auto simp: tracks_def)
      with True more tracks_same_window [OF sane1 tr, of b] show ?thesis
        by (intro exI [of _ "(fst (hd gs), now # snd (hd gs)) # tl gs"]) (cases gs, auto)
    next
      case False
      with more tracks_other_key [OF False tr] show ?thesis by auto
    qed
  qed
qed

lemma grants_tracks:
  assumes "sane l" "rl_buckets l = Map.empty" "sorted_wrt (\<lambda>e f. snd f \<le> snd e) es"
  shows "\<exists>gs. (es = [] \<longrightarrow> gs = [])
      \<and> tracks (fst (grants l key es)) key gs (case es of [] \<Rightarrow> 0 | e # _ \<Rightarrow> snd e)
      \<and> granted gs = snd (grants l key es) \<and> sane (fst (grants l key es))
      \<and> rl_limit (fst (grants l key es)) = rl_limit l \<and> rl_window (fst (grants l key es)) = rl_window l"
  using assms(3)
proof (induction es)
  case Nil
  then show ?case using assms by (intro exI [of _ "[]"]) (simp add: tracks_def)
next
  case (Cons e es)
  then obtain gs where empty: "es = [] \<longrightarrow> gs = []"
    and gs: "tracks (fst (grants l key es)) key gs (case es of [] \<Rightarrow> 0 | e # _ \<Rightarrow> snd e)"
      "granted gs = snd (grants l key es)" "sane (fst (grants l key es))"
      "rl_limit (fst (grants l key es)) = rl_limit l" "rl_window (fst (grants l key es)) = rl_window l"
    by auto
  let ?l1 = "fst (grants l key es)"
  have "tracks ?l1 key gs (snd e)"
  proof (cases es)
    case Nil
    then show ?thesis using gs empty assms(2) by (simp add: tracks_def)
  next
    case (Cons f fs)
    with gs(1) Cons.prems show ?thesis by (auto intro: tracks_later)
  qed
  then obtain gs' where "tracks (fst (allow ?l1 (fst e) (snd e))) key gs' (snd e)"
      "granted gs' = (if snd (allow ?l1 (fst e) (snd e)) \<and> fst e = key then snd e # granted gs else granted gs)"
    using allow_tracks_pruned [OF gs(3), of key gs "snd e" "fst e"] by auto
  with gs show ?case
    by (intro exI [of _ gs']) (auto simp: case_prod_beta Let_def allow_params sane_def)
qed

section \<open>Properties\<close>

text \<open>What the limiter promises: with a positive limit and window, for any interleaving of events
  of any keys at non-decreasing times, pruning included, at most twice the limit is admitted for one
  key in any interval as long as the window.\<close>

theorem rate_limiter_bound:
  assumes "0 < limit" "0 < window" "2 * window \<le> max_duration"
    and "sorted_wrt (\<lambda>e f. snd f \<le> snd e) es"
  shows "in_range a window (snd (grants (newRateLimiter limit window) key es)) \<le> 2 * limit"
proof -
  let ?l = "newRateLimiter limit window"
  have "sane ?l" "rl_buckets ?l = Map.empty" "rl_limit ?l = limit" "rl_window ?l = window"
    using assms by (simp_all add: sane_def newRateLimiter_def)
  with grants_tracks [of ?l es key] assms(4) obtain gs where
      "tracks (fst (grants ?l key es)) key gs (case es of [] \<Rightarrow> 0 | e # _ \<Rightarrow> snd e)"
      "rl_limit (fst (grants ?l key es)) = limit" "rl_window (fst (grants ?l key es)) = window"
      and gs: "granted gs = snd (grants ?l key es)"
    by auto
  then have "list_all (window_ok limit window) gs" "windows_apart window gs"
    unfolding tracks_def by simp_all
  with in_range_windows [OF assms(2), of limit gs a] assms(1) gs show ?thesis by simp
qed

theorem rate_limiter_bound_witness:
  "in_range 100 10 (snd (grants (newRateLimiter 1 10) ''a''
      [(''a'', 115), (''a'', 109), (''b'', 104), (''a'', 103), (''a'', 100)])) \<le> 2 * 1"
  by (rule rate_limiter_bound) (simp_all add: max_duration_def)

end
