(* ===== verification/Quota.thy ===== *)
theory Quota
  imports Gateway_Wire
begin

text \<open>
  Monthly relayed-byte quotas, \<^verbatim>\<open>internal/gateway/quota.go\<close>: one counter per relay and calendar
  month, a warning and an exceeded notice sent at most once each, and the persisted table.

  \<open>monthKey\<close> (the UTC year and month of an instant) is an argument. Byte counts are \<open>64 word\<close>s. The
  state file is modelled by what reading and parsing it yields; \<open>save\<close> returns the contents it
  writes, the atomic replacement of the file itself is input and output and not modelled.
\<close>

section \<open>State\<close>

record counter =
  c_month :: string
  c_relayed :: "64 word"
  c_warnSent :: bool
  c_exceededSent :: bool

record persisted_state =
  ps_version :: int
  ps_relays :: "counter option gomap"

datatype state_file = FileMissing | FileUnreadable | FileMalformed | FileState persisted_state
datatype quota_error = ReadState | ParseState | UnsupportedStateVersion int

record quota_store =
  q_path :: string
  q_limit :: int
  q_warnPercent :: int
  q_warnBytes :: "64 word"
  q_relays :: "counter gomap"
  q_dirty :: bool

definition stateVersion :: int where "stateVersion = 1"

definition fresh_counter :: "string \<Rightarrow> counter" where
  "fresh_counter month = \<lparr>c_month = month, c_relayed = 0, c_warnSent = False, c_exceededSent = False\<rparr>"

section \<open>Operations\<close>

definition scalePercent :: "64 word \<Rightarrow> 64 word \<Rightarrow> 64 word" where
  "scalePercent v percent = v div 100 * percent + (v mod 100) * percent div 100"

definition newQuotaStore :: "string \<Rightarrow> int \<Rightarrow> int \<Rightarrow> quota_store" where
  "newQuotaStore path limit warnPercent =
     \<lparr>q_path = path, q_limit = limit, q_warnPercent = warnPercent,
      q_warnBytes = (if limit > 0 \<and> warnPercent > 0
        then scalePercent (word_of_int limit) (word_of_int warnPercent) else 0),
      q_relays = Map.empty, q_dirty = False\<rparr>"

definition quota_enabled :: "quota_store \<Rightarrow> bool" where
  "quota_enabled q \<longleftrightarrow> q_limit q \<ge> 0"

definition counterLocked :: "quota_store \<Rightarrow> string \<Rightarrow> string \<Rightarrow> quota_store \<times> counter" where
  "counterLocked q relayID month =
     (case q_relays q relayID of
        None \<Rightarrow> (q\<lparr>q_relays := (q_relays q)(relayID \<mapsto> fresh_counter month)\<rparr>, fresh_counter month)
      | Some entry \<Rightarrow>
          if c_month entry \<noteq> month
          then (q\<lparr>q_relays := (q_relays q)(relayID \<mapsto> fresh_counter month)\<rparr>, fresh_counter month)
          else (q, entry))"

definition warning_text :: string where
  "warning_text = ''relayed traffic reached this gateway's monthly warning threshold; '' @
     ''a direct connection or a self-hosted gateway avoids the limit''"

definition exceeded_text :: string where
  "exceeded_text = ''monthly relayed-byte quota is exhausted; '' @
     ''new gateway connections are refused until the next calendar month''"

definition noticeLocked :: "quota_store \<Rightarrow> counter \<Rightarrow> string \<Rightarrow> notice_payload" where
  "noticeLocked q entry kind =
     \<lparr>np_kind = kind,
      np_message = (if kind = NoticeQuotaWarning then warning_text else exceeded_text),
      np_relayed_bytes = c_relayed entry, np_quota_bytes = word_of_int (q_limit q)\<rparr>"

definition add_bytes ::
  "(time \<Rightarrow> string) \<Rightarrow> quota_store \<Rightarrow> string \<Rightarrow> 64 word \<Rightarrow> time \<Rightarrow> quota_store \<times> notice_payload list" where
  "add_bytes monthKey q relayID n now =
     (if \<not> quota_enabled q \<or> n = 0 then (q, [])
      else let (q1, e0) = counterLocked q relayID (monthKey now);
               e1 = e0\<lparr>c_relayed := c_relayed e0 + n\<rparr>;
               warn = (\<not> c_warnSent e1 \<and> q_warnBytes q1 > 0 \<and> c_relayed e1 \<ge> q_warnBytes q1);
               e2 = (if warn then e1\<lparr>c_warnSent := True\<rparr> else e1);
               over = (\<not> c_exceededSent e2 \<and> c_relayed e2 \<ge> word_of_int (q_limit q1));
               e3 = (if over then e2\<lparr>c_exceededSent := True\<rparr> else e2)
           in (q1\<lparr>q_relays := (q_relays q1)(relayID \<mapsto> e3), q_dirty := True\<rparr>,
               (if warn then [noticeLocked q1 e2 NoticeQuotaWarning] else [])
               @ (if over then [noticeLocked q1 e3 NoticeQuotaExceeded] else [])))"

definition exceeded ::
  "(time \<Rightarrow> string) \<Rightarrow> quota_store \<Rightarrow> string \<Rightarrow> time \<Rightarrow> quota_store \<times> bool \<times> notice_payload list" where
  "exceeded monthKey q relayID now =
     (if \<not> quota_enabled q then (q, False, [])
      else let (q1, entry) = counterLocked q relayID (monthKey now)
           in if c_relayed entry < word_of_int (q_limit q1) then (q1, False, [])
              else if c_exceededSent entry then (q1, True, [])
              else let e = entry\<lparr>c_exceededSent := True\<rparr>
                   in (q1\<lparr>q_relays := (q_relays q1)(relayID \<mapsto> e), q_dirty := True\<rparr>, True,
                       [noticeLocked q1 e NoticeQuotaExceeded]))"

definition prune :: "(time \<Rightarrow> string) \<Rightarrow> quota_store \<Rightarrow> time \<Rightarrow> quota_store" where
  "prune monthKey q now =
     (let month = monthKey now;
          stale = (\<lambda>rid. \<exists>e. q_relays q rid = Some e \<and> c_month e \<noteq> month)
      in q\<lparr>q_relays := (\<lambda>rid. case q_relays q rid of
                None \<Rightarrow> None | Some e \<Rightarrow> if c_month e \<noteq> month then None else Some e),
           q_dirty := q_dirty q \<or> (\<exists>rid \<in> dom (q_relays q). stale rid)\<rparr>)"

definition load ::
  "(time \<Rightarrow> string) \<Rightarrow> quota_store \<Rightarrow> state_file \<Rightarrow> time \<Rightarrow> quota_store \<times> quota_error option" where
  "load monthKey q f now =
     (if q_path q = '''' then (q, None)
      else case f of
             FileMissing \<Rightarrow> (q, None)
           | FileUnreadable \<Rightarrow> (q, Some ReadState)
           | FileMalformed \<Rightarrow> (q, Some ParseState)
           | FileState st \<Rightarrow>
               if ps_version st \<noteq> stateVersion then (q, Some (UnsupportedStateVersion (ps_version st)))
               else (q\<lparr>q_relays := (\<lambda>rid. case ps_relays st rid of
                         Some (Some entry) \<Rightarrow>
                           if c_month entry \<noteq> monthKey now then q_relays q rid else Some entry
                       | _ \<Rightarrow> q_relays q rid)\<rparr>, None))"

definition save ::
  "(time \<Rightarrow> string) \<Rightarrow> quota_store \<Rightarrow> time \<Rightarrow> quota_store \<times> persisted_state option" where
  "save monthKey q now =
     (if q_path q = '''' then (q, None)
      else if \<not> q_dirty q then (q, None)
      else (q\<lparr>q_dirty := False\<rparr>,
            Some \<lparr>ps_version = stateVersion,
              ps_relays = (\<lambda>rid. case q_relays q rid of
                None \<Rightarrow> None
              | Some entry \<Rightarrow> if c_month entry \<noteq> monthKey now then None else Some (Some entry))\<rparr>))"

section \<open>Runs\<close>

datatype quota_event = QAdd string "64 word" | QExceeded string | QPrune | QSave

text \<open>One event at an instant; the notices it sends, with the relay they go to.\<close>

fun quota_step ::
  "(time \<Rightarrow> string) \<Rightarrow> quota_store \<Rightarrow> quota_event \<times> time \<Rightarrow> quota_store \<times> (string \<times> notice_payload) list" where
  "quota_step mk q (QAdd rid n, now) = (let (q', ns) = add_bytes mk q rid n now in (q', map (Pair rid) ns))"
| "quota_step mk q (QExceeded rid, now) =
     (let (q', _, ns) = exceeded mk q rid now in (q', map (Pair rid) ns))"
| "quota_step mk q (QPrune, now) = (prune mk q now, [])"
| "quota_step mk q (QSave, now) = (fst (save mk q now), [])"

definition notices_of :: "string \<Rightarrow> string \<Rightarrow> (string \<times> notice_payload) list list \<Rightarrow> nat" where
  "notices_of rid kind outs = length (filter (\<lambda>x. fst x = rid \<and> np_kind (snd x) = kind) (concat outs))"

definition sent :: "string \<Rightarrow> quota_store \<Rightarrow> string \<Rightarrow> string \<Rightarrow> bool" where
  "sent month q rid kind \<longleftrightarrow> (\<exists>e. q_relays q rid = Some e \<and> c_month e = month
     \<and> (if kind = NoticeQuotaWarning then c_warnSent e else c_exceededSent e))"

lemma notice_kinds: "NoticeQuotaWarning \<noteq> NoticeQuotaExceeded"
  by (simp add: NoticeQuotaWarning_def NoticeQuotaExceeded_def)

lemma np_kind_notice [simp]: "np_kind (noticeLocked q e k) = k"
  by (simp add: noticeLocked_def)

definition relayed_in :: "string \<Rightarrow> quota_store \<Rightarrow> string \<Rightarrow> 64 word" where
  "relayed_in month q rid = (case q_relays q rid of
     Some e \<Rightarrow> if c_month e = month then c_relayed e else 0 | None \<Rightarrow> 0)"

text \<open>What the counter of the current month is, in terms of the table before the call.\<close>

lemma counterLocked_char:
  assumes "counterLocked q rid month = (q1, e)"
  shows "q_relays q1 = (q_relays q)(rid \<mapsto> e)" "c_month e = month" "q_limit q1 = q_limit q"
    "q_warnBytes q1 = q_warnBytes q" "c_relayed e = relayed_in month q rid"
    "c_warnSent e = sent month q rid NoticeQuotaWarning"
    "c_exceededSent e = sent month q rid NoticeQuotaExceeded"
  using assms notice_kinds [symmetric]
  by (auto simp: counterLocked_def fresh_counter_def relayed_in_def sent_def split: option.splits if_splits)

lemma sent_cong: "q_relays q r = q_relays q' r \<Longrightarrow> sent month q r kind = sent month q' r kind"
  by (simp add: sent_def)

lemma relayed_in_cong: "q_relays q r = q_relays q' r \<Longrightarrow> relayed_in month q r = relayed_in month q' r"
  by (simp add: relayed_in_def)

lemma add_bytes_char:
  assumes "add_bytes mk q rid n now = (q', ns)" "quota_enabled q" "n \<noteq> 0"
  shows "\<exists>e. q_relays q' = (q_relays q)(rid \<mapsto> e) \<and> c_month e = mk now \<and> q_limit q' = q_limit q
       \<and> c_relayed e = relayed_in (mk now) q rid + n
       \<and> c_warnSent e = (sent (mk now) q rid NoticeQuotaWarning
            \<or> length (filter (\<lambda>x. np_kind x = NoticeQuotaWarning) ns) > 0)
       \<and> c_exceededSent e = (sent (mk now) q rid NoticeQuotaExceeded
            \<or> length (filter (\<lambda>x. np_kind x = NoticeQuotaExceeded) ns) > 0)
       \<and> length (filter (\<lambda>x. np_kind x = NoticeQuotaWarning) ns)
            \<le> (if sent (mk now) q rid NoticeQuotaWarning then 0 else 1)
       \<and> length (filter (\<lambda>x. np_kind x = NoticeQuotaExceeded) ns)
            \<le> (if sent (mk now) q rid NoticeQuotaExceeded then 0 else 1)"
proof -
  obtain q1 e0 where ce: "counterLocked q rid (mk now) = (q1, e0)" by fastforce
  note c = counterLocked_char [OF ce]
  define e where "e = the (q_relays q' rid)"
  have "q_relays q' = (q_relays q)(rid \<mapsto> e)"
    using assms ce c(1) by (auto simp: add_bytes_def Let_def e_def)
  moreover have "c_month e = mk now" "c_relayed e = relayed_in (mk now) q rid + n" "q_limit q' = q_limit q"
    using assms ce c by (auto simp: add_bytes_def Let_def e_def)
  ultimately show ?thesis
    using assms ce c(6,7) notice_kinds notice_kinds [symmetric]
    by (intro exI [of _ e]) (auto simp: add_bytes_def Let_def e_def split: if_splits)
qed

lemma exceeded_char:
  assumes "exceeded mk q rid now = (q', b, ns)" "quota_enabled q"
  shows "\<exists>e. q_relays q' = (q_relays q)(rid \<mapsto> e) \<and> c_month e = mk now \<and> q_limit q' = q_limit q
       \<and> c_relayed e = relayed_in (mk now) q rid
       \<and> b = (\<not> relayed_in (mk now) q rid < word_of_int (q_limit q))
       \<and> c_warnSent e = sent (mk now) q rid NoticeQuotaWarning
       \<and> c_exceededSent e = (sent (mk now) q rid NoticeQuotaExceeded \<or> ns \<noteq> [])
       \<and> length ns \<le> (if sent (mk now) q rid NoticeQuotaExceeded then 0 else 1)
       \<and> (\<forall>x \<in> set ns. np_kind x = NoticeQuotaExceeded)"
proof -
  obtain q1 e0 where ce: "counterLocked q rid (mk now) = (q1, e0)" by fastforce
  note c = counterLocked_char [OF ce]
  define e where "e = the (q_relays q' rid)"
  have "q_relays q' = (q_relays q)(rid \<mapsto> e)"
    using assms ce c(1) by (auto simp: exceeded_def Let_def e_def split: if_splits)
  then show ?thesis
    using assms ce c by (intro exI [of _ e]) (auto simp: exceeded_def Let_def e_def split: if_splits)
qed

text \<open>One step sends a kind of notice to a relay at most once, only if it had not been sent this
  month, and remembers it.\<close>

lemma notices_of_map:
  "notices_of r k [map (Pair rid) ns] = (if r = rid then length (filter (\<lambda>x. np_kind x = k) ns) else 0)"
  by (auto simp: notices_of_def filter_map o_def)

lemma quota_step_notice_add:
  assumes "mk now = month" "kind = NoticeQuotaWarning \<or> kind = NoticeQuotaExceeded"
  shows "notices_of rid kind [snd (quota_step mk q (QAdd r n, now))] + (if sent month q rid kind then 1 else 0)
       \<le> (if sent month (fst (quota_step mk q (QAdd r n, now))) rid kind then 1 else 0)"
proof (cases "quota_enabled q \<and> n \<noteq> 0")
  case False
  then show ?thesis by (auto simp: add_bytes_def notices_of_def)
next
  case True
  obtain q' ns where a: "add_bytes mk q r n now = (q', ns)" by fastforce
  obtain e where e: "q_relays q' = (q_relays q)(r \<mapsto> e)" "c_month e = month"
    "c_warnSent e = (sent month q r NoticeQuotaWarning
            \<or> length (filter (\<lambda>x. np_kind x = NoticeQuotaWarning) ns) > 0)"
    "c_exceededSent e = (sent month q r NoticeQuotaExceeded
            \<or> length (filter (\<lambda>x. np_kind x = NoticeQuotaExceeded) ns) > 0)"
    "length (filter (\<lambda>x. np_kind x = NoticeQuotaWarning) ns) \<le> (if sent month q r NoticeQuotaWarning then 0 else 1)"
    "length (filter (\<lambda>x. np_kind x = NoticeQuotaExceeded) ns) \<le> (if sent month q r NoticeQuotaExceeded then 0 else 1)"
    using add_bytes_char [OF a] True assms(1) by blast
  show ?thesis
  proof (cases "rid = r")
    case False
    then show ?thesis using a e(1) sent_cong [of q' rid q month kind] by (simp add: notices_of_map)
  next
    case True
    have "sent month q' r kind = (if kind = NoticeQuotaWarning then c_warnSent e else c_exceededSent e)"
      using e(1,2) by (simp add: sent_def)
    then show ?thesis
      using True a e(3-6) assms(2) notice_kinds
      by (auto simp: notices_of_map split: if_splits)
  qed
qed

lemma quota_step_notice_exceeded:
  assumes "mk now = month" "kind = NoticeQuotaWarning \<or> kind = NoticeQuotaExceeded"
  shows "notices_of rid kind [snd (quota_step mk q (QExceeded r, now))] + (if sent month q rid kind then 1 else 0)
       \<le> (if sent month (fst (quota_step mk q (QExceeded r, now))) rid kind then 1 else 0)"
proof (cases "quota_enabled q")
  case False
  then show ?thesis by (auto simp: exceeded_def notices_of_def)
next
  case True
  obtain q' b ns where a: "exceeded mk q r now = (q', b, ns)" by (cases "exceeded mk q r now") auto
  obtain e where e: "q_relays q' = (q_relays q)(r \<mapsto> e)" "c_month e = month"
    "c_warnSent e = sent month q r NoticeQuotaWarning"
    "c_exceededSent e = (sent month q r NoticeQuotaExceeded \<or> ns \<noteq> [])"
    "length ns \<le> (if sent month q r NoticeQuotaExceeded then 0 else 1)"
    "\<forall>x \<in> set ns. np_kind x = NoticeQuotaExceeded"
    using exceeded_char [OF a True] assms(1) by blast
  show ?thesis
  proof (cases "rid = r")
    case False
    then show ?thesis using a e(1) sent_cong [of q' rid q month kind] by (simp add: notices_of_map)
  next
    case True
    have s: "sent month q' r kind = (if kind = NoticeQuotaWarning then c_warnSent e else c_exceededSent e)"
      using e(1,2) by (simp add: sent_def)
    have f: "filter (\<lambda>x. np_kind x = kind) ns = (if kind = NoticeQuotaExceeded then ns else [])"
      using e(6) by (auto simp: filter_id_conv filter_empty_conv)
    have "notices_of r kind [map (Pair r) ns] = (if kind = NoticeQuotaExceeded then length ns else 0)"
      by (simp add: notices_of_map f)
    then show ?thesis
      using True a e(3-5) assms(2) notice_kinds s by (auto split: if_splits)
  qed
qed

lemma quota_step_notice:
  assumes "mk (snd ev) = month" "kind = NoticeQuotaWarning \<or> kind = NoticeQuotaExceeded"
  shows "notices_of rid kind [snd (quota_step mk q ev)] + (if sent month q rid kind then 1 else 0)
       \<le> (if sent month (fst (quota_step mk q ev)) rid kind then 1 else 0)"
proof -
  obtain e now where ev: "ev = (e, now)" by fastforce
  show ?thesis
  proof (cases e)
    case (QAdd r n)
    with quota_step_notice_add [of mk now month kind] assms ev show ?thesis by simp
  next
    case (QExceeded r)
    with quota_step_notice_exceeded [of mk now month kind] assms ev show ?thesis by simp
  next
    case QPrune
    with assms ev show ?thesis by (auto simp: prune_def Let_def notices_of_def sent_def)
  next
    case QSave
    with assms ev show ?thesis by (auto simp: save_def notices_of_def sent_def)
  qed
qed

lemma notices_of_Cons: "notices_of rid k (o1 # outs) = notices_of rid k [o1] + notices_of rid k outs"
  by (simp add: notices_of_def)

lemma quota_run_notice:
  assumes "\<forall>e \<in> set evs. mk (snd e) = month" "kind = NoticeQuotaWarning \<or> kind = NoticeQuotaExceeded"
  shows "notices_of rid kind (snd (run_machine (quota_step mk) q evs)) + (if sent month q rid kind then 1 else 0)
       \<le> 1"
  using assms(1)
proof (induction evs arbitrary: q)
  case Nil
  then show ?case by (simp add: notices_of_def)
next
  case (Cons e evs)
  have "notices_of rid kind (snd (run_machine (quota_step mk) (fst (quota_step mk q e)) evs))
      + (if sent month (fst (quota_step mk q e)) rid kind then 1 else 0) \<le> 1"
    using Cons by simp
  moreover have "mk (snd e) = month" using Cons.prems by simp
  note quota_step_notice [of mk e month kind rid q, OF this assms(2)]
  ultimately show ?case
    by (auto split: if_splits simp: notices_of_Cons [of _ _ _ "snd (run_machine (quota_step mk) (fst (quota_step mk q e)) evs)"])
qed

section \<open>Accounting\<close>

primrec charged :: "string \<Rightarrow> (quota_event \<times> time) list \<Rightarrow> nat" where
  "charged rid [] = 0"
| "charged rid (ev # evs) =
     (case fst ev of QAdd r n \<Rightarrow> if r = rid then unat n else 0 | _ \<Rightarrow> 0) + charged rid evs"

lemma quota_step_relayed:
  assumes "mk (snd ev) = month" "quota_enabled q"
  shows "relayed_in month (fst (quota_step mk q ev)) rid =
           relayed_in month q rid + word_of_nat (charged rid [ev])
     \<and> q_limit (fst (quota_step mk q ev)) = q_limit q"
proof -
  obtain e now where ev: "ev = (e, now)" by fastforce
  show ?thesis
  proof (cases e)
    case (QAdd r n)
    obtain q' ns where a: "add_bytes mk q r n now = (q', ns)" by fastforce
    show ?thesis
    proof (cases "n = 0")
      case True
      then show ?thesis using QAdd ev by (simp add: add_bytes_def)
    next
      case False
      with add_bytes_char [OF a assms(2)] QAdd ev a assms(1) show ?thesis
        by (auto simp: relayed_in_def)
    qed
  next
    case (QExceeded r)
    obtain q' b ns where a: "exceeded mk q r now = (q', b, ns)" by (cases "exceeded mk q r now") auto
    with exceeded_char [OF a assms(2)] QExceeded ev assms(1) show ?thesis
      by (auto simp: relayed_in_def)
  next
    case QPrune
    with assms ev show ?thesis by (simp add: prune_def Let_def relayed_in_def split: option.splits)
  next
    case QSave
    with assms ev show ?thesis by (simp add: save_def relayed_in_def)
  qed
qed

lemma quota_run_relayed:
  assumes "\<forall>e \<in> set evs. mk (snd e) = month" "quota_enabled q"
  shows "relayed_in month (fst (run_machine (quota_step mk) q evs)) rid =
           relayed_in month q rid + word_of_nat (charged rid evs)
     \<and> quota_enabled (fst (run_machine (quota_step mk) q evs))
     \<and> q_limit (fst (run_machine (quota_step mk) q evs)) = q_limit q"
  using assms
proof (induction evs arbitrary: q)
  case Nil
  then show ?case by simp
next
  case (Cons e evs)
  have en: "quota_enabled (fst (quota_step mk q e))"
    using Cons.prems quota_step_relayed [of mk e month q rid] by (simp add: quota_enabled_def)
  show ?case
    using Cons.IH [OF _ en] Cons.prems quota_step_relayed [of mk e month q rid]
    by (simp add: add.assoc)
qed

lemma exceeded_iff:
  "quota_enabled q \<Longrightarrow>
     fst (snd (exceeded mk q rid now)) \<longleftrightarrow> \<not> relayed_in (mk now) q rid < word_of_int (q_limit q)"
  using exceeded_char [of mk q rid now] by (cases "exceeded mk q rid now") auto

section \<open>Properties\<close>

lemma unat_numeral_100: "unat (100 :: 64 word) = 100"
  by simp

text \<open>\<open>scalePercent\<close> computes \<open>floor(value * percent / 100)\<close> for every percentage up to 100 with no
  intermediate overflow, although \<open>value * percent\<close> itself may not fit in 64 bits.\<close>

theorem scalePercent_exact:
  assumes "percent \<le> 100"
  shows "unat (scalePercent v percent) = unat v * unat percent div 100"
proof -
  have p: "unat percent \<le> 100"
    using assms by (simp add: word_le_nat_alt)
  have v: "unat v < 2 ^ 64" using unsigned_less [of v] by simp
  have "unat v div 100 * unat percent \<le> unat v div 100 * 100" using p by simp
  also have "\<dots> \<le> unat v" by simp
  finally have a: "unat v div 100 * unat percent < 2 ^ 64" using v by simp
  have "unat v mod 100 * unat percent \<le> 99 * 100"
    using p by (intro mult_le_mono) (auto simp: less_Suc_eq_le [symmetric])
  then have b: "unat v mod 100 * unat percent < 2 ^ 64" "unat v mod 100 * unat percent div 100 < 100"
    by simp_all
  have eq: "unat v * unat percent div 100 = unat v div 100 * unat percent + unat v mod 100 * unat percent div 100"
  proof -
    have "unat v * unat percent = unat v div 100 * 100 * unat percent + unat v mod 100 * unat percent"
      by (metis add_mult_distrib div_mult_mod_eq)
    then show ?thesis by (simp add: mult.commute mult.left_commute)
  qed
  have "unat v * unat percent div 100 \<le> unat v * 100 div 100"
    using p by (intro div_le_mono) simp
  then have c: "unat v div 100 * unat percent + unat v mod 100 * unat percent div 100 < 2 ^ 64"
    using eq v by simp
  have "unat (v div 100 * percent) = unat (v div 100) * unat percent mod 2 ^ 64"
    by (simp add: unat_word_ariths(2))
  then have d: "unat (v div 100 * percent) = unat v div 100 * unat percent"
    using a by (simp only: unat_div_distrib unat_numeral_100 mod_less)
  have "unat (v mod 100 * percent) = unat (v mod 100) * unat percent mod 2 ^ 64"
    by (simp add: unat_word_ariths(2))
  then have "unat (v mod 100 * percent) = unat v mod 100 * unat percent"
    using b(1) by (simp only: unat_mod_distrib unat_numeral_100 mod_less)
  then have e: "unat (v mod 100 * percent div 100) = unat v mod 100 * unat percent div 100"
    by (simp only: unat_div_distrib unat_numeral_100)
  have "unat (scalePercent v percent)
      = (unat (v div 100 * percent) + unat (v mod 100 * percent div 100)) mod 2 ^ 64"
    by (simp add: scalePercent_def unat_word_ariths(1))
  then show ?thesis
    using c eq d e by (simp only: mod_less)
qed

theorem scalePercent_exact_witness:
  "unat (scalePercent (2 ^ 60) 80) = unat (2 ^ 60 :: 64 word) * unat (80 :: 64 word) div 100"
  by (rule scalePercent_exact) simp

text \<open>Notices are sent at most once per relay and month: over every sequence of charges, quota
  checks, prunes and saves within one calendar month, from any starting table, a relay receives at
  most one warning and at most one exceeded notice.\<close>

theorem quota_notices_once:
  assumes "\<forall>e \<in> set evs. monthKey (snd e) = month"
  shows "notices_of rid NoticeQuotaWarning (snd (run_machine (quota_step monthKey) q evs)) \<le> 1
       \<and> notices_of rid NoticeQuotaExceeded (snd (run_machine (quota_step monthKey) q evs)) \<le> 1"
  using quota_run_notice [OF assms, of NoticeQuotaWarning rid q]
    quota_run_notice [OF assms, of NoticeQuotaExceeded rid q] by simp

theorem quota_notices_once_witness:
  "notices_of ''r'' NoticeQuotaWarning (snd (run_machine (quota_step (\<lambda>_. ''2025-01''))
       (newQuotaStore '''' 100 50) [(QAdd ''r'' 60, 1), (QAdd ''r'' 60, 2), (QExceeded ''r'', 3)])) \<le> 1
   \<and> notices_of ''r'' NoticeQuotaExceeded (snd (run_machine (quota_step (\<lambda>_. ''2025-01''))
       (newQuotaStore '''' 100 50) [(QAdd ''r'' 60, 1), (QAdd ''r'' 60, 2), (QExceeded ''r'', 3)])) \<le> 1"
  by (rule quota_notices_once [where month = "''2025-01''"]) simp

text \<open>The quota decision is exact: after any sequence of events within a month on a new store with
  quotas enabled, a relay is refused exactly when the bytes charged to it this month have reached the
  limit (as long as the total fits in 64 bits).\<close>

theorem quota_refusal_exact:
  assumes "\<forall>e \<in> set evs. monthKey (snd e) = month" "monthKey now = month"
    and "0 \<le> limit" "limit < 2 ^ 63" "charged rid evs < 2 ^ 64"
  shows "fst (snd (exceeded monthKey (fst (run_machine (quota_step monthKey)
            (newQuotaStore path limit percent) evs)) rid now))
         \<longleftrightarrow> limit \<le> int (charged rid evs)"
proof -
  let ?q = "newQuotaStore path limit percent"
  let ?q' = "fst (run_machine (quota_step monthKey) ?q evs)"
  have en: "quota_enabled ?q" "q_limit ?q = limit" "relayed_in month ?q rid = 0"
    using assms by (simp_all add: quota_enabled_def newQuotaStore_def relayed_in_def)
  note run = quota_run_relayed [OF assms(1) en(1), of rid]
  have "uint (word_of_int limit :: 64 word) = limit"
    using assms(3,4) by (simp add: uint_word_of_int)
  moreover have "uint (word_of_nat (charged rid evs) :: 64 word) = int (charged rid evs)"
    using assms(5) by (simp add: uint_nat unat_of_nat)
  ultimately show ?thesis
    using run en exceeded_iff [of ?q' monthKey rid now] assms(2) by (auto simp: word_less_def)
qed

theorem quota_refusal_exact_witness:
  "fst (snd (exceeded (\<lambda>_. ''2025-01'') (fst (run_machine (quota_step (\<lambda>_. ''2025-01''))
      (newQuotaStore '''' 100 50) [(QAdd ''r'' 60, 1), (QAdd ''s'' 7, 2), (QAdd ''r'' 41, 3)])) ''r'' 4))
   \<longleftrightarrow> 100 \<le> int (charged ''r'' [(QAdd ''r'' 60, 1), (QAdd ''s'' 7, 2), (QAdd ''r'' 41, 3)])"
  by (rule quota_refusal_exact [where month = "''2025-01''"]) simp_all

text \<open>Restart: saving a changed store and loading the file into a new one within the same month
  restores the counter of every relay of that month and nothing else.\<close>

theorem quota_save_load:
  assumes "q_path q \<noteq> ''''" "q_dirty q" "monthKey now' = monthKey now"
    and "save monthKey q now = (q', Some st)"
  shows "snd (load monthKey (newQuotaStore (q_path q) limit percent) (FileState st) now') = None
     \<and> q_relays (fst (load monthKey (newQuotaStore (q_path q) limit percent) (FileState st) now')) rid
       = (case q_relays q rid of
            Some e \<Rightarrow> if c_month e = monthKey now then Some e else None | None \<Rightarrow> None)"
  using assms by (auto simp: save_def load_def newQuotaStore_def stateVersion_def split: option.splits)

theorem quota_save_load_witness:
  "let q = fst (add_bytes (\<lambda>_. ''2025-01'') (newQuotaStore ''f'' 100 50) ''r'' 5 1)
   in snd (load (\<lambda>_. ''2025-01'') (newQuotaStore (q_path q) 100 50)
        (FileState (the (snd (save (\<lambda>_. ''2025-01'') q 2)))) 3) = None"
proof -
  let ?m = "\<lambda>_ :: time. ''2025-01''"
  let ?q = "fst (add_bytes ?m (newQuotaStore ''f'' 100 50) ''r'' 5 1)"
  have d: "q_path ?q = ''f''" "q_dirty ?q"
    by (simp_all add: add_bytes_def quota_enabled_def newQuotaStore_def counterLocked_def Let_def)
  then obtain q' st where "save ?m ?q 2 = (q', Some st)"
    by (simp add: save_def)
  with d quota_save_load [of ?q ?m 3 2 q' st 100 50] show ?thesis by (simp add: Let_def)
qed

end
