(* ===== verification/Go_Strings.thy ===== *)
theory Go_Strings
  imports Relay_Prelude
begin

text \<open>
  What the sources use of Go's \<^verbatim>\<open>strings\<close> package and of string iteration. A Go string is a sequence
  of bytes and so is an Isabelle \<open>string\<close>: characters are the 256 byte values. Ranging over a string
  decodes UTF-8; \<open>utf8_runes\<close> is that decoding with the replacement rune \<open>U+FFFD\<close> for each
  invalid byte, as \<^verbatim>\<open>unicode/utf8\<close> documents.
\<close>

section \<open>Splitting and joining\<close>

definition newline :: char where
  "newline = CHR 0x0A"

text \<open>\<open>strings.SplitAfter(s, "\n")\<close> and \<open>strings.Split(s, "\n")\<close>: never an empty slice.\<close>

fun split_after :: "string \<Rightarrow> string list" where
  "split_after [] = [[]]"
| "split_after (c # s) =
     (if c = newline then [c] # split_after s
      else case split_after s of [] \<Rightarrow> [[c]] | l # ls \<Rightarrow> (c # l) # ls)"

fun split_lines :: "string \<Rightarrow> string list" where
  "split_lines [] = [[]]"
| "split_lines (c # s) =
     (if c = newline then [] # split_lines s
      else case split_lines s of [] \<Rightarrow> [[c]] | l # ls \<Rightarrow> (c # l) # ls)"

text \<open>\<open>strings.Join(xs, sep)\<close>.\<close>

fun join_with :: "string \<Rightarrow> string list \<Rightarrow> string" where
  "join_with sep [] = []"
| "join_with sep [x] = x"
| "join_with sep (x # y # xs) = x @ sep @ join_with sep (y # xs)"

lemma split_after_nonempty [simp]: "split_after s \<noteq> []"
  by (cases s) (auto split: list.splits)

lemma split_lines_nonempty [simp]: "split_lines s \<noteq> []"
  by (cases s) (auto split: list.splits)

lemma concat_split_after [simp]: "concat (split_after s) = s"
proof (induction s)
  case Nil
  then show ?case by simp
next
  case (Cons c s)
  then show ?case by (cases "split_after s") auto
qed

lemma join_with_Cons: "xs \<noteq> [] \<Longrightarrow> join_with sep (x # xs) = x @ sep @ join_with sep xs"
  by (cases xs) auto

lemma join_split_lines [simp]: "join_with [newline] (split_lines s) = s"
proof (induction s)
  case Nil
  then show ?case by simp
next
  case (Cons c s)
  obtain l ls where l: "split_lines s = l # ls" by (cases "split_lines s") auto
  with Cons.IH show ?case by (cases ls) (auto simp: join_with_Cons)
qed

lemma split_lines_no_newline: "\<forall>l \<in> set (split_lines s). newline \<notin> set l"
  by (induction s) (auto split: list.splits)

lemma split_lines_id: "newline \<notin> set s \<Longrightarrow> split_lines s = [s]"
  by (induction s) auto

lemma split_lines_line_rest:
  "newline \<notin> set l \<Longrightarrow> split_lines (l @ newline # s) = l # split_lines s"
  by (induction l) (auto split: list.splits)

lemma split_join_lines:
  "xs \<noteq> [] \<Longrightarrow> \<forall>l \<in> set xs. newline \<notin> set l \<Longrightarrow> split_lines (join_with [newline] xs) = xs"
proof (induction xs)
  case Nil
  then show ?case by simp
next
  case (Cons x xs)
  then show ?case
    by (cases "xs = []") (auto simp: join_with_Cons split_lines_line_rest split_lines_id)
qed

lemma join_with_append:
  "xs \<noteq> [] \<Longrightarrow> ys \<noteq> [] \<Longrightarrow> join_with sep (xs @ ys) = join_with sep xs @ sep @ join_with sep ys"
proof (induction xs)
  case Nil
  then show ?case by simp
next
  case (Cons x xs)
  then show ?case by (cases "xs = []") (auto simp: join_with_Cons)
qed

section \<open>Trimming and replacing\<close>

text \<open>\<open>strings.TrimRight(s, cutset)\<close> for a cut set of ASCII characters, and
  \<open>strings.ReplaceAll(s, old, new)\<close> for a one-byte \<open>old\<close>.\<close>

definition trim_right :: "char list \<Rightarrow> string \<Rightarrow> string" where
  "trim_right cutset s = rev (dropWhile (\<lambda>c. c \<in> set cutset) (rev s))"

definition replace_char :: "char \<Rightarrow> string \<Rightarrow> string \<Rightarrow> string" where
  "replace_char c new s = concat (map (\<lambda>x. if x = c then new else [x]) s)"

lemma replace_char_delete: "replace_char c [] s = filter (\<lambda>x. x \<noteq> c) s"
  by (induction s) (auto simp: replace_char_def)

definition has_prefix :: "string \<Rightarrow> string \<Rightarrow> bool" where
  "has_prefix s p \<longleftrightarrow> take (length p) s = p"

definition has_suffix :: "string \<Rightarrow> string \<Rightarrow> bool" where
  "has_suffix s p \<longleftrightarrow> length p \<le> length s \<and> drop (length s - length p) s = p"

section \<open>Runes\<close>

definition byte_val :: "char \<Rightarrow> nat" where
  "byte_val c = of_char c"

definition rune_error :: nat where
  "rune_error = 0xFFFD"

text \<open>\<open>utf8.DecodeRuneInString\<close>: the rune and its width (1 for an invalid encoding). The second byte
  of three- and four-byte forms has a narrower range after \<open>E0\<close>, \<open>ED\<close>, \<open>F0\<close> and \<open>F4\<close>.\<close>

definition is_cont :: "nat \<Rightarrow> nat \<Rightarrow> char \<Rightarrow> bool" where
  "is_cont lo hi c \<longleftrightarrow> lo \<le> byte_val c \<and> byte_val c \<le> hi"

fun decode_rune :: "string \<Rightarrow> nat \<times> nat" where
  "decode_rune [] = (rune_error, 0)"
| "decode_rune (c0 # s) =
     (let b0 = byte_val c0; bad = (rune_error, 1) in
      if b0 < 0x80 then (b0, 1)
      else if b0 < 0xC2 \<or> b0 > 0xF4 then bad
      else if b0 < 0xE0 then
        (case s of
           c1 # _ \<Rightarrow> if is_cont 0x80 0xBF c1 then ((b0 - 0xC0) * 64 + (byte_val c1 - 0x80), 2) else bad
         | [] \<Rightarrow> bad)
      else if b0 < 0xF0 then
        (case s of
           c1 # c2 # _ \<Rightarrow>
             if is_cont (if b0 = 0xE0 then 0xA0 else 0x80) (if b0 = 0xED then 0x9F else 0xBF) c1
                \<and> is_cont 0x80 0xBF c2
             then ((b0 - 0xE0) * 4096 + (byte_val c1 - 0x80) * 64 + (byte_val c2 - 0x80), 3) else bad
         | _ \<Rightarrow> bad)
      else
        (case s of
           c1 # c2 # c3 # _ \<Rightarrow>
             if is_cont (if b0 = 0xF0 then 0x90 else 0x80) (if b0 = 0xF4 then 0x8F else 0xBF) c1
                \<and> is_cont 0x80 0xBF c2 \<and> is_cont 0x80 0xBF c3
             then ((b0 - 0xF0) * 262144 + (byte_val c1 - 0x80) * 4096
                   + (byte_val c2 - 0x80) * 64 + (byte_val c3 - 0x80), 4) else bad
         | _ \<Rightarrow> bad))"

lemma decode_rune_width: "s \<noteq> [] \<Longrightarrow> 1 \<le> snd (decode_rune s) \<and> snd (decode_rune s) \<le> length s"
  by (cases s) (auto simp: Let_def split: list.splits)

text \<open>\<open>for _, c := range s\<close>.\<close>

function utf8_runes :: "string \<Rightarrow> nat list" where
  "utf8_runes s = (if s = [] then [] else fst (decode_rune s) # utf8_runes (drop (snd (decode_rune s)) s))"
  by pat_completeness auto
termination
proof (relation "measure length", simp)
  fix s :: string
  assume "s \<noteq> []"
  with decode_rune_width [of s] show "(drop (snd (decode_rune s)) s, s) \<in> measure length"
    by (simp add: Suc_le_eq)
qed

declare utf8_runes.simps [simp del]

lemma utf8_runes_ascii: "\<forall>c \<in> set s. byte_val c < 128 \<Longrightarrow> utf8_runes s = map byte_val s"
  by (induction s) (simp_all add: utf8_runes.simps [of "_ # _"] utf8_runes.simps [of "[]"])

text \<open>\<open>utf8.Valid\<close>.\<close>

function utf8_valid :: "string \<Rightarrow> bool" where
  "utf8_valid s =
     (if s = [] then True
      else if decode_rune s = (rune_error, 1) then False
      else utf8_valid (drop (snd (decode_rune s)) s))"
  by pat_completeness auto
termination
proof (relation "measure length", simp)
  fix s :: string
  assume "s \<noteq> []"
  with decode_rune_width [of s] show "(drop (snd (decode_rune s)) s, s) \<in> measure length"
    by (simp add: Suc_le_eq)
qed

declare utf8_valid.simps [simp del]

end
