(* ===== verification/Pane_Delta.thy ===== *)
theory Pane_Delta
  imports Go_Strings
begin

text \<open>
  Line deltas between two screen captures of a pane, \<^verbatim>\<open>internal/panedelta/delta.go\<close>. \<open>Build\<close> (on the
  relay) describes the current capture by copies of line ranges of the previous one and literal
  text; \<open>Apply\<close> rebuilds it. \<open>end\<close> is a Go \<open>int\<close> and may wrap around, so it is computed
  with \<open>int64\<close>.
\<close>

definition minimumCopyLines :: nat where "minimumCopyLines = 3"
definition maxCandidates :: nat where "maxCandidates = 64"

record segment =
  CopyStart :: int
  CopyLines :: int
  Text :: string

type_synonym line_key = "string \<times> string \<times> string"

definition keyAt :: "string list \<Rightarrow> nat \<Rightarrow> line_key" where
  "keyAt lines index = (lines ! index, lines ! (index + 1), lines ! (index + 2))"

function matching_from :: "string list \<Rightarrow> string list \<Rightarrow> nat \<Rightarrow> nat \<Rightarrow> nat \<Rightarrow> nat" where
  "matching_from previous current previousIndex currentIndex matched =
     (if previousIndex + matched < length previous \<and> currentIndex + matched < length current
         \<and> previous ! (previousIndex + matched) = current ! (currentIndex + matched)
      then matching_from previous current previousIndex currentIndex (matched + 1)
      else matched)"
  by pat_completeness auto
termination
  by (relation "measure (\<lambda>(p, c, pi, ci, m). length p - (pi + m))") auto

declare matching_from.simps [simp del]

definition matchingLines :: "string list \<Rightarrow> string list \<Rightarrow> nat \<Rightarrow> nat \<Rightarrow> nat" where
  "matchingLines previous current previousIndex currentIndex =
     matching_from previous current previousIndex currentIndex 0"

text \<open>The index of \<open>Build\<close>: for each window of three lines of the previous capture, the first
  \<open>maxCandidates\<close> positions where it stands.\<close>

definition add_candidate :: "string list \<Rightarrow> nat \<Rightarrow> (line_key \<Rightarrow> nat list) \<Rightarrow> (line_key \<Rightarrow> nat list)" where
  "add_candidate lines index matches =
     (let key = keyAt lines index
      in if length (matches key) < maxCandidates then matches(key := matches key @ [index]) else matches)"

definition build_index :: "string list \<Rightarrow> line_key \<Rightarrow> nat list" where
  "build_index lines =
     fold (add_candidate lines) [0 ..< length lines + 1 - minimumCopyLines] (\<lambda>_. [])"

fun best_candidate :: "string list \<Rightarrow> string list \<Rightarrow> nat \<Rightarrow> nat list \<Rightarrow> nat \<times> nat \<Rightarrow> nat \<times> nat" where
  "best_candidate previous current ci [] best = best"
| "best_candidate previous current ci (pi # ps) best =
     (let matched = matchingLines previous current pi ci
      in best_candidate previous current ci ps (if matched > snd best then (pi, matched) else best))"

definition flushLiteral :: "string list \<Rightarrow> nat \<Rightarrow> nat \<Rightarrow> segment list" where
  "flushLiteral currentLines literalStart stop =
     (if stop \<le> literalStart then []
      else [\<lparr>CopyStart = 0, CopyLines = 0,
             Text = concat (take (stop - literalStart) (drop literalStart currentLines))\<rparr>])"

function build_loop ::
  "string list \<Rightarrow> string list \<Rightarrow> (line_key \<Rightarrow> nat list) \<Rightarrow> nat \<Rightarrow> nat \<Rightarrow> segment list" where
  "build_loop previousLines currentLines matches currentIndex literalStart =
     (if currentIndex < length currentLines \<and> currentIndex + minimumCopyLines \<le> length currentLines
      then let (bestStart, bestLines) =
                 best_candidate previousLines currentLines currentIndex
                   (matches (keyAt currentLines currentIndex)) (0, 0)
           in if bestLines < minimumCopyLines
              then build_loop previousLines currentLines matches (currentIndex + 1) literalStart
              else flushLiteral currentLines literalStart currentIndex
                   @ \<lparr>CopyStart = int bestStart, CopyLines = int bestLines, Text = []\<rparr>
                   # build_loop previousLines currentLines matches (currentIndex + bestLines)
                       (currentIndex + bestLines)
      else flushLiteral currentLines literalStart (length currentLines))"
  by pat_completeness auto
termination
  by (relation "measure (\<lambda>(p, c, m, ci, ls). length c - ci)") (auto simp: minimumCopyLines_def)

declare build_loop.simps [simp del]

definition Build :: "string \<Rightarrow> string \<Rightarrow> segment list" where
  "Build previous current =
     build_loop (split_after previous) (split_after current) (build_index (split_after previous)) 0 0"

definition Efficient :: "segment list \<Rightarrow> string \<Rightarrow> bool" where
  "Efficient segments current \<longleftrightarrow>
     sum_list (map (\<lambda>s. length (Text s)) segments) + length segments * 64 < length current * 3 div 4"

fun apply_loop :: "string list \<Rightarrow> segment list \<Rightarrow> string \<Rightarrow> string \<times> bool" where
  "apply_loop lines [] out = (out, True)"
| "apply_loop lines (seg # segs) out =
     (if CopyLines seg > 0
      then let stop = int64 (CopyStart seg + CopyLines seg)
           in if CopyStart seg < 0 \<or> stop < CopyStart seg \<or> stop > int (length lines) then ([], False)
              else apply_loop lines segs
                     (out @ concat (take (nat (stop - CopyStart seg)) (drop (nat (CopyStart seg)) lines)))
      else apply_loop lines segs (out @ Text seg))"

definition Apply :: "string \<Rightarrow> segment list \<Rightarrow> string \<times> bool" where
  "Apply previous segments = apply_loop (split_after previous) segments []"

section \<open>Matching\<close>

lemma matching_from_sound:
  "m \<le> k \<Longrightarrow> k < matching_from p c pi ci m \<Longrightarrow>
     pi + k < length p \<and> ci + k < length c \<and> p ! (pi + k) = c ! (ci + k)"
proof (induction p c pi ci m rule: matching_from.induct)
  case (1 p c pi ci m)
  show ?case
  proof (cases "pi + m < length p \<and> ci + m < length c \<and> p ! (pi + m) = c ! (ci + m)")
    case True
    with 1 show ?thesis
      by (cases "k = m") (auto simp: matching_from.simps [of p c pi ci m])
  next
    case False
    with 1 show ?thesis by (simp add: matching_from.simps [of p c pi ci m])
  qed
qed

lemma matchingLines_take:
  assumes "n \<le> matchingLines p c pi ci"
  shows "take n (drop ci c) = take n (drop pi p) \<and> (0 < n \<longrightarrow> pi + n \<le> length p \<and> ci + n \<le> length c)"
proof -
  have s: "pi + k < length p \<and> ci + k < length c \<and> p ! (pi + k) = c ! (ci + k)" if "k < n" for k
    using matching_from_sound [of 0 k p c pi ci] that assms by (auto simp: matchingLines_def)
  have le: "0 < n \<Longrightarrow> pi + n \<le> length p \<and> ci + n \<le> length c"
    using s [of "n - 1"] by auto
  then have "length (take n (drop ci c)) = length (take n (drop pi p))"
    by (cases "n = 0") auto
  with s le show ?thesis
    by (auto intro!: nth_equalityI)
qed

lemma best_candidate_cases:
  "best_candidate p c ci ps best = best \<or>
   (\<exists>pi \<in> set ps. best_candidate p c ci ps best = (pi, matchingLines p c pi ci))"
proof (induction ps arbitrary: best)
  case Nil
  then show ?case by simp
next
  case (Cons pi ps)
  show ?case
    using Cons.IH [of "if matchingLines p c pi ci > snd best then (pi, matchingLines p c pi ci) else best"]
    by (auto simp: Let_def split: if_splits)
qed

lemma best_candidate_ge:
  "snd best \<le> snd (best_candidate p c ci ps best)
   \<and> (\<forall>pi \<in> set ps. matchingLines p c pi ci \<le> snd (best_candidate p c ci ps best))"
proof (induction ps arbitrary: best)
  case Nil
  then show ?case by simp
next
  case (Cons pi ps)
  show ?case
    using Cons.IH [of "if matchingLines p c pi ci > snd best then (pi, matchingLines p c pi ci) else best"]
    by (auto simp: Let_def split: if_splits)
qed

lemma best_candidate_sound:
  assumes "best_candidate p c ci ps (0, 0) = (st, n)" "0 < n"
  shows "take n (drop ci c) = take n (drop st p)" "st + n \<le> length p" "ci + n \<le> length c"
  using best_candidate_cases [of p c ci ps "(0, 0)"] assms matchingLines_take [of n p c st ci] by auto

section \<open>Replaying a delta\<close>

text \<open>The segments of the loop, replayed over any output so far, append the rest of the current lines.\<close>

lemma apply_loop_append:
  "apply_loop ls (xs @ ys) out =
     (case apply_loop ls xs out of (out', ok) \<Rightarrow> if ok then apply_loop ls ys out' else ([], False))"
  by (induction xs arbitrary: out) (auto simp: Let_def)

lemma apply_flush:
  "apply_loop ls (flushLiteral cl a b) out = (out @ concat (take (b - a) (drop a cl)), True)"
  by (simp add: flushLiteral_def)

lemma apply_copy:
  assumes "0 < n" "st + n \<le> length ls" "length ls < 2 ^ 63"
  shows "apply_loop ls (\<lparr>CopyStart = int st, CopyLines = int n, Text = []\<rparr> # segs) out
       = apply_loop ls segs (out @ concat (take n (drop st ls)))"
proof -
  have "int (length ls) < 2 ^ 63" using assms(3) by simp
  then have "int64 (int st + int n) = int (st + n)"
    using assms(2) by (subst int64_exact) auto
  then show ?thesis using assms by (simp add: Let_def)
qed

lemma concat_take_drop:
  "a \<le> b \<Longrightarrow> concat (take (b - a) (drop a xs)) @ concat (drop b xs) = concat (drop a xs)"
  by (metis append_take_drop_id concat_append drop_drop le_add_diff_inverse2)

lemma apply_build_loop:
  assumes "length pl < 2 ^ 63" "ls \<le> ci" "ci \<le> length cl"
  shows "apply_loop pl (build_loop pl cl m ci ls) out = (out @ concat (drop ls cl), True)"
  using assms(2,3)
proof (induction "length cl - ci" arbitrary: ci ls out rule: less_induct)
  case less
  obtain st n where b: "best_candidate pl cl ci (m (keyAt cl ci)) (0, 0) = (st, n)" by fastforce
  show ?case
  proof (cases "ci < length cl \<and> ci + minimumCopyLines \<le> length cl")
    case False
    then show ?thesis
      by (auto simp: build_loop.simps [of pl cl m ci ls] apply_flush)
  next
    case True
    show ?thesis
    proof (cases "n < minimumCopyLines")
      case small: True
      have "apply_loop pl (build_loop pl cl m (ci + 1) ls) out = (out @ concat (drop ls cl), True)"
        using less.prems True by (intro less.hyps) auto
      with True b small show ?thesis
        by (simp add: build_loop.simps [of pl cl m ci ls])
    next
      case False
      then have n: "0 < n" by (simp add: minimumCopyLines_def)
      note s = best_candidate_sound [OF b n]
      let ?out = "(out @ concat (take (ci - ls) (drop ls cl))) @ concat (take n (drop st pl))"
      have ih: "apply_loop pl (build_loop pl cl m (ci + n) (ci + n)) ?out
          = (?out @ concat (drop (ci + n) cl), True)"
        using n s(3) less.prems True by (intro less.hyps) auto
      have "concat (take n (drop st pl)) @ concat (drop (ci + n) cl) = concat (drop ci cl)"
        using concat_take_drop [of ci "ci + n" cl] s(1) by simp
      then have "?out @ concat (drop (ci + n) cl) = out @ concat (drop ls cl)"
        using concat_take_drop [of ls ci cl] less.prems(1) by (metis append.assoc)
      moreover have "apply_loop pl (build_loop pl cl m ci ls) out =
          apply_loop pl (build_loop pl cl m (ci + n) (ci + n)) ?out"
        using True b False
        by (simp add: build_loop.simps [of pl cl m ci ls] apply_loop_append apply_flush
            apply_copy [OF n s(2) assms(1)] del: apply_loop.simps(2))
      ultimately show ?thesis using ih by simp
    qed
  qed
qed

section \<open>Properties\<close>

text \<open>C37. A delta rebuilds the capture it was built from: applying \<open>Build previous current\<close> to the
  previous capture is accepted and yields exactly the current capture, whatever the two are.\<close>

theorem delta_roundtrip:
  assumes "length (split_after previous) < 2 ^ 63"
  shows "Apply previous (Build previous current) = (current, True)"
  using apply_build_loop [OF assms, of 0 0 "split_after current" "build_index (split_after previous)" "[]"]
  by (simp add: Apply_def Build_def)

theorem delta_roundtrip_witness:
  "Apply [CHR ''a'', newline, CHR ''b'', newline, CHR ''c'', newline]
     (Build [CHR ''a'', newline, CHR ''b'', newline, CHR ''c'', newline]
            [CHR ''x'', newline, CHR ''a'', newline, CHR ''b'', newline, CHR ''c'', newline])
   = ([CHR ''x'', newline, CHR ''a'', newline, CHR ''b'', newline, CHR ''c'', newline], True)"
  by (rule delta_roundtrip) (simp add: newline_def)

text \<open>\<open>Apply\<close> is safe on any segments, also ones not made by \<open>Build\<close>: it accepts a delta exactly
  when every copy lies within the previous capture. The comparison \<open>end < CopyStart\<close> is what
  rejects a sum that wrapped around 64 bits.\<close>

theorem apply_accepts_iff:
  assumes "\<forall>s \<in> set segs. \<bar>CopyStart s\<bar> < 2 ^ 63 \<and> \<bar>CopyLines s\<bar> < 2 ^ 63"
    and "length (split_after previous) < 2 ^ 63"
  shows "snd (Apply previous segs) \<longleftrightarrow>
    (\<forall>s \<in> set segs. CopyLines s > 0 \<longrightarrow>
       0 \<le> CopyStart s \<and> CopyStart s + CopyLines s \<le> int (length (split_after previous)))"
proof -
  have "snd (apply_loop (split_after previous) segs out) \<longleftrightarrow>
    (\<forall>s \<in> set segs. CopyLines s > 0 \<longrightarrow>
       0 \<le> CopyStart s \<and> CopyStart s + CopyLines s \<le> int (length (split_after previous)))" for out
    using assms
  proof (induction segs arbitrary: out)
    case Nil
    then show ?case by simp
  next
    case (Cons s segs)
    have len: "int (length (split_after previous)) < 2 ^ 63" using assms(2) by simp
    have "int64 (CopyStart s + CopyLines s) < CopyStart s \<or> int64 (CopyStart s + CopyLines s) > int (length (split_after previous))
        \<longleftrightarrow> CopyStart s + CopyLines s > int (length (split_after previous))"
      if "0 < CopyLines s" "0 \<le> CopyStart s"
    proof (cases "CopyStart s + CopyLines s < 2 ^ 63")
      case True
      then show ?thesis using that int64_exact [of "CopyStart s + CopyLines s"] by auto
    next
      case False
      then have "int64 (CopyStart s + CopyLines s) < 0"
        using that Cons.prems(1) int64_overflow [of "CopyStart s + CopyLines s"] by simp
      then show ?thesis using that False len by simp
    qed
    with Cons show ?case by (auto simp: Let_def not_less)
  qed
  then show ?thesis by (simp add: Apply_def)
qed

theorem apply_accepts_iff_witness:
  "\<not> snd (Apply ''abc'' [\<lparr>CopyStart = 1, CopyLines = 2 ^ 63 - 1, Text = []\<rparr>])"
  using apply_accepts_iff [of "[\<lparr>CopyStart = 1, CopyLines = 2 ^ 63 - 1, Text = []\<rparr>]" "''abc''"]
  by (simp add: newline_def)

end
