(* ===== verification/Seq_Match.thy ===== *)
theory Seq_Match
  imports Relay_Prelude "HOL-Library.Multiset"
begin

text \<open>
  Ratcliff/Obershelp matching of two sequences of lines, \<^verbatim>\<open>internal/seqmatch/seqmatch.go\<close>. Indices are
  \<open>nat\<close>: they never leave the ranges given. A Go map from \<open>int\<close> to \<open>int\<close> that is read with a zero
  default is a function; the worklist of \<open>GetMatchingBlocks\<close> is a list whose head is the last
  element of the Go slice.
\<close>

section \<open>Definitions\<close>

record match_block =
  mA :: nat
  mB :: nat
  mSize :: nat

record 'x matcher =
  ma :: "'x list"
  mb :: "'x list"
  b2j :: "'x \<Rightarrow> nat list"

definition buildB2J :: "'x list \<Rightarrow> 'x \<Rightarrow> nat list" where
  "buildB2J b = fold (\<lambda>j m. m(b ! j := m (b ! j) @ [j])) [0 ..< length b] (\<lambda>_. [])"

definition NewMatcher :: "'x list \<Rightarrow> 'x list \<Rightarrow> 'x matcher" where
  "NewMatcher a b = \<lparr>ma = a, mb = b, b2j = buildB2J b\<rparr>"

type_synonym best = "nat \<times> nat \<times> nat"

fun flm_inner ::
  "nat \<Rightarrow> nat \<Rightarrow> nat \<Rightarrow> (nat \<Rightarrow> nat) \<Rightarrow> nat list \<Rightarrow> (nat \<Rightarrow> nat) \<Rightarrow> best \<Rightarrow> (nat \<Rightarrow> nat) \<times> best" where
  "flm_inner i blo bhi j2len [] newj2len best = (newj2len, best)"
| "flm_inner i blo bhi j2len (j # js) newj2len best =
     (if j < blo then flm_inner i blo bhi j2len js newj2len best
      else if j \<ge> bhi then (newj2len, best)
      else let k = (if j = 0 then 0 else j2len (j - 1)) + 1
           in flm_inner i blo bhi j2len js (newj2len(j := k))
                (if k > snd (snd best) then (i + 1 - k, j + 1 - k, k) else best))"

fun flm_outer ::
  "'x matcher \<Rightarrow> nat \<Rightarrow> nat \<Rightarrow> nat list \<Rightarrow> (nat \<Rightarrow> nat) \<Rightarrow> best \<Rightarrow> best" where
  "flm_outer m blo bhi [] j2len best = best"
| "flm_outer m blo bhi (i # is) j2len best =
     (let (newj2len, best') = flm_inner i blo bhi j2len (b2j m (ma m ! i)) (\<lambda>_. 0) best
      in flm_outer m blo bhi is newj2len best')"

definition FindLongestMatch :: "'x matcher \<Rightarrow> nat \<Rightarrow> nat \<Rightarrow> nat \<Rightarrow> nat \<Rightarrow> match_block" where
  "FindLongestMatch m alo ahi blo bhi =
     (let (besti, bestj, bestsize) = flm_outer m blo bhi [alo ..< ahi] (\<lambda>_. 0) (alo, blo, 0)
      in \<lparr>mA = besti, mB = bestj, mSize = bestsize\<rparr>)"

text \<open>The range of the first sequence a match lies in, whatever the index \<open>b2j\<close> holds; this bounds
  the worklist below.\<close>

lemma flm_inner_range:
  assumes "\<forall>j. j2len j \<le> i - alo" "alo \<le> i" "\<forall>j. new j \<le> i + 1 - alo"
    and "alo \<le> fst best \<and> fst best + snd (snd best) \<le> i + 1"
  shows "(\<forall>j. fst (flm_inner i blo bhi j2len js new best) j \<le> i + 1 - alo)
     \<and> alo \<le> fst (snd (flm_inner i blo bhi j2len js new best))
     \<and> fst (snd (flm_inner i blo bhi j2len js new best))
        + snd (snd (snd (flm_inner i blo bhi j2len js new best))) \<le> i + 1"
  using assms(3,4)
proof (induction js arbitrary: new best)
  case Nil
  then show ?case by simp
next
  case (Cons j js)
  define k where "k = (if j = 0 then 0 else j2len (j - 1)) + 1"
  have k: "k \<le> i + 1 - alo"
    using assms(1) [rule_format, of "j - 1"] assms(2) by (auto simp: k_def)
  show ?case
  proof (cases "j < blo \<or> j \<ge> bhi")
    case True
    then show ?thesis using Cons by auto
  next
    case False
    then have "flm_inner i blo bhi j2len (j # js) new best =
        flm_inner i blo bhi j2len js (new(j := k)) (if k > snd (snd best) then (i + 1 - k, j + 1 - k, k) else best)"
      by (simp add: k_def Let_def)
    moreover have "\<forall>x. (new(j := k)) x \<le> i + 1 - alo" using Cons.prems(1) k by simp
    moreover have "alo \<le> fst (if k > snd (snd best) then (i + 1 - k, j + 1 - k, k) else best)
      \<and> fst (if k > snd (snd best) then (i + 1 - k, j + 1 - k, k) else best)
        + snd (snd (if k > snd (snd best) then (i + 1 - k, j + 1 - k, k) else best)) \<le> i + 1"
      using Cons.prems(2) k assms(2) by auto
    ultimately show ?thesis using Cons.IH by presburger
  qed
qed

lemma flm_outer_range:
  assumes "alo \<le> lo" "lo \<le> hi" "\<forall>j. j2len j \<le> lo - alo"
    and "alo \<le> fst best \<and> fst best + snd (snd best) \<le> lo"
  shows "alo \<le> fst (flm_outer m blo bhi [lo ..< hi] j2len best)
     \<and> fst (flm_outer m blo bhi [lo ..< hi] j2len best)
       + snd (snd (flm_outer m blo bhi [lo ..< hi] j2len best)) \<le> hi"
  using assms
proof (induction "hi - lo" arbitrary: lo j2len best)
  case 0
  then show ?case by simp
next
  case (Suc d)
  then have lt: "lo < hi" by simp
  obtain new best' where i: "flm_inner lo blo bhi j2len (b2j m (ma m ! lo)) (\<lambda>_. 0) best = (new, best')"
    by (metis surj_pair)
  have "(\<forall>j. new j \<le> lo + 1 - alo) \<and> alo \<le> fst best' \<and> fst best' + snd (snd best') \<le> lo + 1"
    using flm_inner_range [of j2len lo alo "\<lambda>_. 0" best blo bhi "b2j m (ma m ! lo)"] Suc.prems i by simp
  then show ?case
    using Suc.hyps(1) [of "Suc lo" new best'] Suc.hyps(2) Suc.prems(1) lt i
    by (simp add: upt_conv_Cons)
qed

lemma FindLongestMatch_range:
  assumes "mSize (FindLongestMatch m alo ahi blo bhi) > 0"
  shows "alo \<le> mA (FindLongestMatch m alo ahi blo bhi)"
    "mA (FindLongestMatch m alo ahi blo bhi) + mSize (FindLongestMatch m alo ahi blo bhi) \<le> ahi"
proof -
  have "alo < ahi" using assms by (auto simp: FindLongestMatch_def intro: ccontr)
  with flm_outer_range [of alo alo ahi "\<lambda>_. 0" "(alo, blo, 0)" m blo bhi]
  show "alo \<le> mA (FindLongestMatch m alo ahi blo bhi)"
    "mA (FindLongestMatch m alo ahi blo bhi) + mSize (FindLongestMatch m alo ahi blo bhi) \<le> ahi"
    by (auto simp: FindLongestMatch_def case_prod_beta)
qed

type_synonym span = "nat \<times> nat \<times> nat \<times> nat"

definition span_children :: "span \<Rightarrow> match_block \<Rightarrow> span list" where
  "span_children s mt = (case s of (alo, ahi, blo, bhi) \<Rightarrow>
     (if mA mt + mSize mt < ahi \<and> mB mt + mSize mt < bhi
      then [(mA mt + mSize mt, ahi, mB mt + mSize mt, bhi)] else [])
     @ (if alo < mA mt \<and> blo < mB mt then [(alo, mA mt, blo, mB mt)] else []))"

definition span_weight :: "span \<Rightarrow> nat" where
  "span_weight s = 2 * (fst (snd s) - fst s) + 1"

function blocks_loop :: "'x matcher \<Rightarrow> span list \<Rightarrow> match_block list \<Rightarrow> match_block list" where
  "blocks_loop m [] blocks = blocks"
| "blocks_loop m ((alo, ahi, blo, bhi) # queue) blocks =
     (let mt = FindLongestMatch m alo ahi blo bhi
      in if mSize mt > 0
         then blocks_loop m (span_children (alo, ahi, blo, bhi) mt @ queue) (blocks @ [mt])
         else blocks_loop m queue blocks)"
  by pat_completeness auto
termination
proof (relation "measure (\<lambda>(m, q, b). sum_list (map span_weight q))", simp, goal_cases)
  case (1 m alo ahi blo bhi queue blocks mt)
  then show ?case
    using FindLongestMatch_range [of m alo ahi blo bhi]
    by (auto simp: span_children_def span_weight_def)
next
  case (2 m alo ahi blo bhi queue blocks mt)
  then show ?case by (simp add: span_weight_def)
qed

declare blocks_loop.simps [simp del]

definition compareMatch :: "match_block \<Rightarrow> match_block \<Rightarrow> int" where
  "compareMatch x y =
     (if mA x \<noteq> mA y then (if mA x < mA y then -1 else 1)
      else if mB x \<noteq> mB y then (if mB x < mB y then -1 else 1) else 0)"

text \<open>The insertion sort. The already sorted part is held in reverse, since the inner loop walks it from
  its end.\<close>

fun insert_from_end :: "match_block \<Rightarrow> match_block list \<Rightarrow> match_block list" where
  "insert_from_end key [] = [key]"
| "insert_from_end key (x # xs) =
     (if compareMatch x key > 0 then x # insert_from_end key xs else key # x # xs)"

definition sortMatches :: "match_block list \<Rightarrow> match_block list" where
  "sortMatches ms = rev (fold insert_from_end ms [])"

fun merge_loop :: "nat \<Rightarrow> nat \<Rightarrow> nat \<Rightarrow> match_block list \<Rightarrow> match_block list" where
  "merge_loop i1 j1 k1 [] = (if k1 > 0 then [\<lparr>mA = i1, mB = j1, mSize = k1\<rparr>] else [])"
| "merge_loop i1 j1 k1 (m2 # ms) =
     (if i1 + k1 = mA m2 \<and> j1 + k1 = mB m2 then merge_loop i1 j1 (k1 + mSize m2) ms
      else (if k1 > 0 then [\<lparr>mA = i1, mB = j1, mSize = k1\<rparr>] else [])
           @ merge_loop (mA m2) (mB m2) (mSize m2) ms)"

definition GetMatchingBlocks :: "'x matcher \<Rightarrow> match_block list" where
  "GetMatchingBlocks m =
     (let la = length (ma m); lb = length (mb m);
          blocks = sortMatches (blocks_loop m [(0, la, 0, lb)] [])
      in merge_loop 0 0 0 blocks @ [\<lparr>mA = la, mB = lb, mSize = 0\<rparr>])"

section \<open>The longest match\<close>

lemma buildB2J_filter: "buildB2J b x = filter (\<lambda>j. b ! j = x) [0 ..< length b]"
proof -
  have "fold (\<lambda>j m. m(b ! j := m (b ! j) @ [j])) js f x = f x @ filter (\<lambda>j. b ! j = x) js" for js f
    by (induction js arbitrary: f) auto
  then show ?thesis by (simp add: buildB2J_def)
qed

text \<open>\<open>common_run a b x y\<close> is the length of the longest run of equal elements ending at \<open>a ! x\<close> and
  \<open>b ! y\<close> that starts at or after \<open>alo\<close> and \<open>blo\<close>.\<close>

function common_run :: "'x list \<Rightarrow> 'x list \<Rightarrow> nat \<Rightarrow> nat \<Rightarrow> nat \<Rightarrow> nat \<Rightarrow> nat" where
  "common_run a b alo blo x y =
     (if alo \<le> x \<and> blo \<le> y \<and> a ! x = b ! y
      then 1 + (if x = 0 \<or> y = 0 then 0 else common_run a b alo blo (x - 1) (y - 1)) else 0)"
  by pat_completeness auto
termination
  by (relation "measure (\<lambda>(a, b, alo, blo, x, y). x)") auto

declare common_run.simps [simp del]

lemma common_run_0:
  "x < alo \<Longrightarrow> common_run a b alo blo x y = 0" "y < blo \<Longrightarrow> common_run a b alo blo x y = 0"
  "a ! x \<noteq> b ! y \<Longrightarrow> common_run a b alo blo x y = 0"
  by (simp_all add: common_run.simps [of a b alo blo x y])

definition is_block :: "'x list \<Rightarrow> 'x list \<Rightarrow> span \<Rightarrow> match_block \<Rightarrow> bool" where
  "is_block a b s mt \<longleftrightarrow> (case s of (alo, ahi, blo, bhi) \<Rightarrow>
     alo \<le> mA mt \<and> mA mt + mSize mt \<le> ahi \<and> blo \<le> mB mt \<and> mB mt + mSize mt \<le> bhi
     \<and> (\<forall>t < mSize mt. a ! (mA mt + t) = b ! (mB mt + t)))"

lemma common_run_sound:
  "k \<le> common_run a b alo blo x y \<Longrightarrow> 0 < k \<Longrightarrow>
     alo + k \<le> x + 1 \<and> blo + k \<le> y + 1 \<and> (\<forall>t < k. a ! (x + 1 - k + t) = b ! (y + 1 - k + t))"
proof (induction k arbitrary: x y)
  case 0
  then show ?case by simp
next
  case (Suc k)
  have c: "alo \<le> x \<and> blo \<le> y \<and> a ! x = b ! y"
    using Suc.prems(1) by (rule_tac ccontr) (simp add: common_run.simps [of a b alo blo x y])
  show ?case
  proof (cases "k = 0")
    case True
    with c show ?thesis by simp
  next
    case False
    with Suc.prems c have xy: "0 < x" "0 < y" "k \<le> common_run a b alo blo (x - 1) (y - 1)"
      by (auto simp: common_run.simps [of a b alo blo x y] split: if_splits)
    note ih = Suc.IH [OF xy(3)]
    have "a ! (x + 1 - Suc k + t) = b ! (y + 1 - Suc k + t)" if "t < Suc k" for t
      using ih False that c xy by (cases "t = k") auto
    with ih False xy show ?thesis by auto
  qed
qed

lemma common_run_complete:
  assumes "alo + k \<le> x + 1" "blo + k \<le> y + 1" "\<forall>t < k. a ! (x + 1 - k + t) = b ! (y + 1 - k + t)"
  shows "k \<le> common_run a b alo blo x y"
  using assms
proof (induction k arbitrary: x y)
  case 0
  then show ?case by simp
next
  case (Suc k)
  have e: "a ! x = b ! y" using Suc.prems(3) [rule_format, of k] Suc.prems(1,2) by simp
  show ?case
  proof (cases "k = 0")
    case True
    with e Suc.prems show ?thesis by (simp add: common_run.simps [of a b alo blo x y])
  next
    case False
    have "k \<le> common_run a b alo blo (x - 1) (y - 1)"
    proof (rule Suc.IH)
      show "\<forall>t<k. a ! (x - 1 + 1 - k + t) = b ! (y - 1 + 1 - k + t)"
        using Suc.prems False by auto
    qed (use Suc.prems False in auto)
    with e False Suc.prems show ?thesis by (auto simp: common_run.simps [of a b alo blo x y])
  qed
qed

text \<open>What the best triple means after a set of pairs has been visited in lexicographic order.\<close>

definition lex_le :: "nat \<times> nat \<Rightarrow> nat \<times> nat \<Rightarrow> bool" where
  "lex_le p q \<longleftrightarrow> fst p < fst q \<or> fst p = fst q \<and> snd p \<le> snd q"

definition best_of :: "(nat \<Rightarrow> nat \<Rightarrow> nat) \<Rightarrow> nat \<Rightarrow> nat \<Rightarrow> (nat \<times> nat) set \<Rightarrow> best \<Rightarrow> bool" where
  "best_of R alo blo S best \<longleftrightarrow>
     (\<forall>p \<in> S. R (fst p) (snd p) \<le> snd (snd best))
   \<and> (best = (alo, blo, 0) \<or>
      0 < snd (snd best) \<and>
      (\<exists>p \<in> S. R (fst p) (snd p) = snd (snd best)
         \<and> fst best = fst p + 1 - snd (snd best) \<and> fst (snd best) = snd p + 1 - snd (snd best)
         \<and> (\<forall>q \<in> S. R (fst q) (snd q) = snd (snd best) \<longrightarrow> lex_le p q)))"

lemma best_of_zero:
  assumes "best_of R alo blo S best" "\<forall>p \<in> T. R (fst p) (snd p) = 0"
  shows "best_of R alo blo (S \<union> T) best"
proof -
  have le: "\<forall>p \<in> S \<union> T. R (fst p) (snd p) \<le> snd (snd best)"
    using assms unfolding best_of_def by (metis Un_iff le0)
  show ?thesis
  proof (cases "best = (alo, blo, 0)")
    case True
    with le show ?thesis by (simp add: best_of_def)
  next
    case False
    then have pos: "0 < snd (snd best)" using assms(1) unfolding best_of_def by blast
    then have t: "R (fst q) (snd q) \<noteq> snd (snd best)" if "q \<in> T" for q
      using assms(2) that by simp
    obtain p where p: "p \<in> S" "R (fst p) (snd p) = snd (snd best)" "fst best = fst p + 1 - snd (snd best)"
      "fst (snd best) = snd p + 1 - snd (snd best)"
      "\<forall>q \<in> S. R (fst q) (snd q) = snd (snd best) \<longrightarrow> lex_le p q"
      using assms(1) False unfolding best_of_def by blast
    then have "\<forall>q \<in> S \<union> T. R (fst q) (snd q) = snd (snd best) \<longrightarrow> lex_le p q" using t by blast
    with p le pos show ?thesis unfolding best_of_def by (intro conjI disjI2 bexI [of _ p]) simp_all
  qed
qed

lemma best_of_insert:
  assumes "best_of R alo blo S best" "\<forall>p \<in> S. lex_le p (i, j)" "R i j = k" "0 < k"
  shows "best_of R alo blo (insert (i, j) S)
     (if k > snd (snd best) then (i + 1 - k, j + 1 - k, k) else best)"
proof (cases "k > snd (snd best)")
  case True
  have "R (fst p) (snd p) < k" if "p \<in> S" for p
    using assms(1) that True unfolding best_of_def by (metis le_less_trans)
  then have "\<forall>p \<in> S. R (fst p) (snd p) \<le> k \<and> R (fst p) (snd p) \<noteq> k" by (simp add: less_imp_le less_imp_neq)
  with True assms(3,4) show ?thesis by (simp add: best_of_def lex_le_def)
next
  case False
  then show ?thesis using assms unfolding best_of_def by auto
qed

lemma flm_inner_best:
  assumes "sorted_wrt (<) js" "\<forall>j \<in> set js. a ! i = b ! j" "alo \<le> i"
    and "\<forall>j < bhi. j2len j = (if i = 0 then 0 else common_run a b alo blo (i - 1) j)"
    and "\<forall>p \<in> S. fst p < i \<or> fst p = i \<and> (\<forall>j \<in> set js. snd p < j)"
    and "best_of (common_run a b alo blo) alo blo S best"
  shows "fst (flm_inner i blo bhi j2len js new best) =
           (\<lambda>j. if j \<in> set js \<and> blo \<le> j \<and> j < bhi then common_run a b alo blo i j else new j)
       \<and> best_of (common_run a b alo blo) alo blo (S \<union> {(i, j) | j. j \<in> set js \<and> blo \<le> j \<and> j < bhi})
           (snd (flm_inner i blo bhi j2len js new best))"
  using assms(1,2,5,6)
proof (induction js arbitrary: new best S)
  case Nil
  then show ?case by simp
next
  case (Cons j js)
  let ?R = "common_run a b alo blo"
  define k where "k = (if j = 0 then 0 else j2len (j - 1)) + 1"
  consider (low) "j < blo" | (high) "blo \<le> j" "bhi \<le> j" | (mid) "blo \<le> j" "j < bhi" by linarith
  then show ?case
  proof cases
    case low
    then have "{(i, j') | j'. j' \<in> set (j # js) \<and> blo \<le> j' \<and> j' < bhi}
        = {(i, j') | j'. j' \<in> set js \<and> blo \<le> j' \<and> j' < bhi}" by auto
    moreover have "fst (flm_inner i blo bhi j2len js new best) =
           (\<lambda>j. if j \<in> set js \<and> blo \<le> j \<and> j < bhi then ?R i j else new j)
       \<and> best_of ?R alo blo (S \<union> {(i, j) | j. j \<in> set js \<and> blo \<le> j \<and> j < bhi})
           (snd (flm_inner i blo bhi j2len js new best))"
      using Cons.prems by (intro Cons.IH) auto
    ultimately show ?thesis using low by (simp add: fun_eq_iff)
  next
    case high
    with Cons.prems(1) have "{(i, j') | j'. j' \<in> set (j # js) \<and> blo \<le> j' \<and> j' < bhi} = {}" by auto
    moreover have "flm_inner i blo bhi j2len (j # js) new best = (new, best)" using high by simp
    moreover have "\<not> (j' \<in> set (j # js) \<and> blo \<le> j' \<and> j' < bhi)" for j'
      using high Cons.prems(1) by auto
    ultimately show ?thesis using Cons.prems(4) by (simp only: fst_conv snd_conv if_False Un_empty_right)
  next
    case mid
    have k: "?R i j = k" "0 < k"
      using mid assms(3,4) Cons.prems(2) by (auto simp: k_def common_run.simps [of a b alo blo i j])
    define best' where "best' = (if k > snd (snd best) then (i + 1 - k, j + 1 - k, k) else best)"
    have "best_of ?R alo blo (insert (i, j) S) best'"
      unfolding best'_def using Cons.prems(3,4) k
      by (intro best_of_insert) (auto simp: lex_le_def less_imp_le)
    then have ih: "fst (flm_inner i blo bhi j2len js (new(j := k)) best') =
           (\<lambda>j'. if j' \<in> set js \<and> blo \<le> j' \<and> j' < bhi then ?R i j' else (new(j := k)) j')
       \<and> best_of ?R alo blo (insert (i, j) S \<union> {(i, j') | j'. j' \<in> set js \<and> blo \<le> j' \<and> j' < bhi})
           (snd (flm_inner i blo bhi j2len js (new(j := k)) best'))"
      using Cons.prems by (intro Cons.IH) auto
    have "insert (i, j) S \<union> {(i, j') | j'. j' \<in> set js \<and> blo \<le> j' \<and> j' < bhi}
        = S \<union> {(i, j') | j'. j' \<in> set (j # js) \<and> blo \<le> j' \<and> j' < bhi}"
      using mid by auto
    moreover have "flm_inner i blo bhi j2len (j # js) new best = flm_inner i blo bhi j2len js (new(j := k)) best'"
      using mid by (simp add: k_def best'_def Let_def)
    ultimately show ?thesis using ih mid k(1) by (auto simp: fun_eq_iff)
  qed
qed

lemma flm_outer_best:
  assumes "m = NewMatcher a b" "bhi \<le> length b" "alo \<le> lo" "lo \<le> hi"
    and "\<forall>j < bhi. j2len j = (if lo = 0 then 0 else common_run a b alo blo (lo - 1) j)"
    and "best_of (common_run a b alo blo) alo blo ({alo ..< lo} \<times> {blo ..< bhi}) best"
  shows "best_of (common_run a b alo blo) alo blo ({alo ..< hi} \<times> {blo ..< bhi})
           (flm_outer m blo bhi [lo ..< hi] j2len best)"
  using assms(3-6)
proof (induction "hi - lo" arbitrary: lo j2len best)
  case 0
  then show ?case by simp
next
  case (Suc d)
  let ?R = "common_run a b alo blo"
  let ?js = "filter (\<lambda>j. b ! j = a ! lo) [0 ..< length b]"
  have lt: "lo < hi" using Suc.hyps(2) by simp
  have js: "b2j m (ma m ! lo) = ?js" by (simp add: assms(1) NewMatcher_def buildB2J_filter)
  obtain new best' where i: "flm_inner lo blo bhi j2len ?js (\<lambda>_. 0) best = (new, best')"
    by (metis surj_pair)
  let ?S = "{alo ..< lo} \<times> {blo ..< bhi}"
  let ?T = "{(lo, j) | j. j \<in> set ?js \<and> blo \<le> j \<and> j < bhi}"
  have sorted_js: "sorted_wrt (<) ?js"
    by (simp add: sorted_wrt_filter strict_sorted_iff)
  have eq_js: "\<forall>j \<in> set ?js. a ! lo = b ! j" by simp
  have lt_js: "\<forall>p \<in> ?S. fst p < lo \<or> fst p = lo \<and> (\<forall>j \<in> set ?js. snd p < j)" by auto
  have n: "new = (\<lambda>j. if j \<in> set ?js \<and> blo \<le> j \<and> j < bhi then ?R lo j else 0)"
    and bo: "best_of ?R alo blo (?S \<union> ?T) best'"
    using flm_inner_best [of ?js a lo b alo bhi j2len blo ?S best "\<lambda>_. 0", OF sorted_js eq_js Suc.prems(1,3) lt_js Suc.prems(4)] i
    by simp_all
  let ?Z = "{(lo, j) | j. j \<notin> set ?js \<and> blo \<le> j \<and> j < bhi}"
  have "\<forall>p \<in> ?Z. ?R (fst p) (snd p) = 0"
    using assms(2) by (auto simp: common_run_0)
  then have "best_of ?R alo blo (?S \<union> ?T \<union> ?Z) best'"
    by (rule best_of_zero [OF bo])
  moreover have "?S \<union> ?T \<union> ?Z = {alo ..< Suc lo} \<times> {blo ..< bhi}"
    using Suc.prems(1) by (auto simp: less_Suc_eq)
  moreover have "\<forall>j < bhi. new j = ?R lo j"
    using assms(2) by (auto simp: n common_run_0)
  ultimately show ?case
    using Suc.hyps(1) [of "Suc lo" new best'] Suc.hyps(2) Suc.prems(1) lt i js
    by (simp add: upt_conv_Cons)
qed

text \<open>The specification of \<open>FindLongestMatch\<close>: a block of the span, no longer one exists, and among the
  longest ones it starts first in \<open>a\<close>, then first in \<open>b\<close>.\<close>

lemma FindLongestMatch_spec:
  assumes "ahi \<le> length a" "bhi \<le> length b" "alo \<le> ahi" "blo \<le> bhi"
    and "mt = FindLongestMatch (NewMatcher a b) alo ahi blo bhi"
  shows "is_block a b (alo, ahi, blo, bhi) mt"
    and "is_block a b (alo, ahi, blo, bhi) mt' \<Longrightarrow> mSize mt' \<le> mSize mt"
    and "is_block a b (alo, ahi, blo, bhi) mt' \<Longrightarrow> mSize mt' = mSize mt \<Longrightarrow> 0 < mSize mt \<Longrightarrow>
           lex_le (mA mt, mB mt) (mA mt', mB mt')"
proof -
  let ?R = "common_run a b alo blo"
  let ?S = "{alo ..< ahi} \<times> {blo ..< bhi}"
  obtain bi bj bs where o: "flm_outer (NewMatcher a b) blo bhi [alo ..< ahi] (\<lambda>_. 0) (alo, blo, 0) = (bi, bj, bs)"
    by (metis surj_pair)
  then have mt: "mt = \<lparr>mA = bi, mB = bj, mSize = bs\<rparr>"
    by (simp add: assms(5) FindLongestMatch_def)
  have "?R x y = 0" if "x < alo" for x y
    using that by (simp add: common_run_0)
  then have bo: "best_of ?R alo blo ?S (bi, bj, bs)"
    using flm_outer_best [of "NewMatcher a b" a b bhi alo alo ahi "\<lambda>_. 0" blo "(alo, blo, 0)"] assms o
    by (auto simp: best_of_def)
  show "is_block a b (alo, ahi, blo, bhi) mt"
  proof (cases "bs = 0")
    case True
    with bo have "bi = alo \<and> bj = blo" by (auto simp: best_of_def)
    with True assms(3,4) mt show ?thesis by (simp add: is_block_def)
  next
    case False
    then obtain x y where xy: "alo \<le> x" "x < ahi" "blo \<le> y" "y < bhi" "?R x y = bs"
      "bi = x + 1 - bs" "bj = y + 1 - bs"
      using bo by (auto simp: best_of_def)
    with common_run_sound [of bs a b alo blo x y] False show ?thesis
      by (auto simp: is_block_def mt)
  qed
  have ends: "mSize mt' \<le> ?R (mA mt' + mSize mt' - 1) (mB mt' + mSize mt' - 1)
      \<and> (mA mt' + mSize mt' - 1, mB mt' + mSize mt' - 1) \<in> ?S"
    if "is_block a b (alo, ahi, blo, bhi) mt'" "0 < mSize mt'"
    using that common_run_complete [of alo "mSize mt'" "mA mt' + mSize mt' - 1" blo "mB mt' + mSize mt' - 1" a b]
    by (auto simp: is_block_def)
  show "mSize mt' \<le> mSize mt" if "is_block a b (alo, ahi, blo, bhi) mt'"
  proof (cases "mSize mt' = 0")
    case True
    then show ?thesis by simp
  next
    case False
    have "?R (fst p) (snd p) \<le> bs" if "p \<in> ?S" for p
      using bo that unfolding best_of_def by (cases p) auto
    from this [of "(mA mt' + mSize mt' - 1, mB mt' + mSize mt' - 1)"] show ?thesis
      using ends [OF that] False mt by auto
  qed
  show "lex_le (mA mt, mB mt) (mA mt', mB mt')"
    if "is_block a b (alo, ahi, blo, bhi) mt'" "mSize mt' = mSize mt" "0 < mSize mt"
  proof -
    let ?q = "(mA mt' + mSize mt' - 1, mB mt' + mSize mt' - 1)"
    have q: "?q \<in> ?S" "bs \<le> ?R (fst ?q) (snd ?q)" using ends that mt by auto
    moreover have "?R (fst ?q) (snd ?q) \<le> bs" using bo q(1) unfolding best_of_def by (metis snd_conv)
    ultimately have e: "?R (fst ?q) (snd ?q) = bs" by simp
    have bs: "0 < bs" using that(3) mt by simp
    then obtain p where p: "bi = fst p + 1 - bs" "bj = snd p + 1 - bs"
      "\<forall>q \<in> ?S. ?R (fst q) (snd q) = bs \<longrightarrow> lex_le p q" "?R (fst p) (snd p) = bs"
      using bo unfolding best_of_def by auto
    then have "lex_le p ?q" using q(1) e by blast
    moreover have "alo + bs \<le> fst p + 1 \<and> blo + bs \<le> snd p + 1"
      using common_run_sound [of bs a b alo blo "fst p" "snd p"] p(4) bs by simp
    ultimately show ?thesis
      using p(1,2) bs that(2) mt by (auto simp: lex_le_def)
  qed
qed

section \<open>All matching blocks\<close>

text \<open>\<open>before\<close>: one rectangle ends in both sequences before the other starts. Spans of the worklist and
  the blocks found so far are always ordered this way, one or the other way round.\<close>

definition before :: "span \<Rightarrow> span \<Rightarrow> bool" where
  "before r s \<longleftrightarrow> fst (snd r) \<le> fst s \<and> snd (snd (snd r)) \<le> fst (snd (snd s))"

definition apart :: "span \<Rightarrow> span \<Rightarrow> bool" where
  "apart r s \<longleftrightarrow> before r s \<or> before s r"

definition block_span :: "match_block \<Rightarrow> span" where
  "block_span mt = (mA mt, mA mt + mSize mt, mB mt, mB mt + mSize mt)"

definition inside :: "span \<Rightarrow> span \<Rightarrow> bool" where
  "inside r s \<longleftrightarrow> fst s \<le> fst r \<and> fst (snd r) \<le> fst (snd s)
     \<and> fst (snd (snd s)) \<le> fst (snd (snd r)) \<and> snd (snd (snd r)) \<le> snd (snd (snd s))"

lemma apart_sym: "apart r s \<longleftrightarrow> apart s r"
  by (auto simp: apart_def)

lemma apart_inside: "apart r s \<Longrightarrow> inside r' r \<Longrightarrow> apart r' s"
  by (auto simp: apart_def before_def inside_def)

lemma sorted_wrt_sym_perm:
  assumes "\<And>x y. P x y \<Longrightarrow> P y x" "mset xs = mset ys" "sorted_wrt P xs"
  shows "sorted_wrt P ys"
proof -
  have sym: "P x y \<longleftrightarrow> P y x" for x y using assms(1) by blast
  have *: "sorted_wrt P (us @ x # vs) \<longleftrightarrow> sorted_wrt P (x # us @ vs)" for x us vs
    by (induction us) (auto simp: sorted_wrt_append sym)
  show ?thesis
    using assms(2,3)
  proof (induction xs arbitrary: ys)
    case Nil
    then show ?case by simp
  next
    case (Cons x xs)
    then have "x \<in> set ys" by (metis list.set_intros(1) set_mset_mset)
    then obtain us vs where ys: "ys = us @ x # vs" by (meson split_list)
    then have m: "mset xs = mset (us @ vs)" using Cons.prems(1) by simp
    with Cons have "sorted_wrt P (us @ vs)" by simp
    moreover have "set xs = set (us @ vs)" using m by (metis set_mset_mset)
    ultimately show ?case using Cons.prems(2) * ys by simp
  qed
qed

definition span_ok :: "'x matcher \<Rightarrow> span \<Rightarrow> bool" where
  "span_ok m s \<longleftrightarrow> fst s \<le> fst (snd s) \<and> fst (snd s) \<le> length (ma m)
     \<and> fst (snd (snd s)) \<le> snd (snd (snd s)) \<and> snd (snd (snd s)) \<le> length (mb m)"

definition block_ok :: "'x list \<Rightarrow> 'x list \<Rightarrow> match_block \<Rightarrow> bool" where
  "block_ok a b mt \<longleftrightarrow> 0 < mSize mt \<and> is_block a b (0, length a, 0, length b) mt"

definition loop_inv :: "'x matcher \<Rightarrow> span list \<Rightarrow> match_block list \<Rightarrow> bool" where
  "loop_inv m queue blocks \<longleftrightarrow>
     m = NewMatcher (ma m) (mb m) \<and> list_all (span_ok m) queue \<and> list_all (block_ok (ma m) (mb m)) blocks
     \<and> sorted_wrt apart (queue @ map block_span blocks)"

lemma span_children_apart:
  assumes "is_block a b s mt" "0 < mSize mt"
  shows "sorted_wrt apart (span_children s mt @ [block_span mt])"
    and "\<forall>r \<in> set (span_children s mt @ [block_span mt]). inside r s"
    and "\<forall>r \<in> set (span_children s mt). fst r \<le> fst (snd r) \<and> fst (snd (snd r)) \<le> snd (snd (snd r))"
  using assms
  by (cases s; auto simp: span_children_def block_span_def is_block_def apart_def before_def inside_def)+

lemma loop_inv_step:
  assumes "loop_inv m ((alo, ahi, blo, bhi) # queue) blocks"
    and "mt = FindLongestMatch m alo ahi blo bhi" "0 < mSize mt"
  shows "loop_inv m (span_children (alo, ahi, blo, bhi) mt @ queue) (blocks @ [mt])"
proof -
  let ?s = "(alo, ahi, blo, bhi)"
  have m: "m = NewMatcher (ma m) (mb m)" and ok: "span_ok m ?s"
    using assms(1) by (auto simp: loop_inv_def)
  have blk: "is_block (ma m) (mb m) ?s mt"
    using FindLongestMatch_spec(1) [of ahi "ma m" bhi "mb m" alo blo mt] ok assms(2) m
    by (simp add: span_ok_def)
  note ch = span_children_apart [OF blk assms(3)]
  have "block_ok (ma m) (mb m) mt"
    using blk ok assms(3) by (auto simp: block_ok_def is_block_def span_ok_def)
  moreover have "list_all (span_ok m) (span_children ?s mt)"
    using ch(2,3) ok by (fastforce simp: list_all_iff span_ok_def inside_def)
  moreover have "sorted_wrt apart ((span_children ?s mt @ [block_span mt]) @ queue @ map block_span blocks)"
  proof -
    have "sorted_wrt apart (?s # queue @ map block_span blocks)" using assms(1) by (simp add: loop_inv_def)
    then have old: "sorted_wrt apart (queue @ map block_span blocks)"
      "\<forall>x \<in> set (queue @ map block_span blocks). apart ?s x" by simp_all
    then have "apart r x" if "r \<in> set (span_children ?s mt @ [block_span mt])"
        "x \<in> set (queue @ map block_span blocks)" for r x
      using that ch(2) apart_inside [of ?s x r] by blast
    with old(1) ch(1) show ?thesis by (simp only: sorted_wrt_append [of _ "span_children ?s mt @ [block_span mt]"]) blast
  qed
  then have "sorted_wrt apart ((span_children ?s mt @ queue) @ map block_span (blocks @ [mt]))"
    by (rule sorted_wrt_sym_perm [rotated 2]) (auto simp: apart_sym)
  ultimately show ?thesis using assms(1) by (auto simp: loop_inv_def)
qed

lemma blocks_loop_inv: "loop_inv m queue blocks \<Longrightarrow> loop_inv m [] (blocks_loop m queue blocks)"
proof (induction m queue blocks rule: blocks_loop.induct)
  case (1 m blocks)
  then show ?case by (simp add: blocks_loop.simps)
next
  case (2 m alo ahi blo bhi queue blocks)
  show ?case
  proof (cases "mSize (FindLongestMatch m alo ahi blo bhi) > 0")
    case True
    with 2 loop_inv_step [OF 2(3) refl True] show ?thesis by (simp add: Let_def blocks_loop.simps)
  next
    case False
    have "loop_inv m queue blocks" using 2(3) by (simp add: loop_inv_def)
    with 2 False show ?thesis by (simp add: Let_def blocks_loop.simps)
  qed
qed

lemma mset_insert_from_end [simp]: "mset (insert_from_end k xs) = add_mset k (mset xs)"
  by (induction xs) auto

lemma mset_sortMatches [simp]: "mset (sortMatches ms) = mset ms"
proof -
  have "mset (fold insert_from_end ms acc) = mset ms + mset acc" for acc
    by (induction ms arbitrary: acc) auto
  then show ?thesis by (simp add: sortMatches_def)
qed

definition match_le :: "match_block \<Rightarrow> match_block \<Rightarrow> bool" where
  "match_le x y \<longleftrightarrow> compareMatch x y \<le> 0"

lemma match_le_trans: "match_le x y \<Longrightarrow> match_le y z \<Longrightarrow> match_le x z"
  by (auto simp: match_le_def compareMatch_def split: if_splits)

lemma match_le_total: "compareMatch x y > 0 \<Longrightarrow> match_le y x"
  by (auto simp: match_le_def compareMatch_def split: if_splits)

lemma insert_from_end_sorted:
  "sorted_wrt (\<lambda>x y. match_le y x) xs \<Longrightarrow> sorted_wrt (\<lambda>x y. match_le y x) (insert_from_end k xs)"
proof (induction xs)
  case Nil
  then show ?case by simp
next
  case (Cons x xs)
  have s: "set (insert_from_end k xs) = insert k (set xs)"
    by (metis mset_insert_from_end set_mset_add_mset_insert set_mset_mset)
  show ?case
  proof (cases "compareMatch x k > 0")
    case True
    with Cons s match_le_total show ?thesis by auto
  next
    case False
    then have "match_le x k" by (simp add: match_le_def)
    with Cons.prems False match_le_trans show ?thesis by auto
  qed
qed

lemma sorted_sortMatches: "sorted_wrt match_le (sortMatches ms)"
proof -
  have "sorted_wrt (\<lambda>x y. match_le y x) acc \<Longrightarrow> sorted_wrt (\<lambda>x y. match_le y x) (fold insert_from_end ms acc)" for acc
    by (induction ms arbitrary: acc) (auto simp: insert_from_end_sorted)
  from this [of "[]"] show ?thesis by (simp add: sortMatches_def sorted_wrt_rev)
qed

definition block_before :: "match_block \<Rightarrow> match_block \<Rightarrow> bool" where
  "block_before x y \<longleftrightarrow> mA x + mSize x \<le> mA y \<and> mB x + mSize x \<le> mB y"

lemma apart_sorted_before:
  assumes "0 < mSize x" "0 < mSize y" "apart (block_span x) (block_span y)" "match_le x y"
  shows "block_before x y"
  using assms by (auto simp: apart_def before_def block_span_def block_before_def match_le_def compareMatch_def split: if_splits)

lemma sorted_blocks:
  fixes a b
  defines "bs \<equiv> sortMatches (blocks_loop (NewMatcher a b) [(0, length a, 0, length b)] [])"
  shows "sorted_wrt block_before bs" "list_all (block_ok a b) bs"
proof -
  let ?m = "NewMatcher a b"
  let ?raw = "blocks_loop ?m [(0, length a, 0, length b)] []"
  have f: "ma ?m = a" "mb ?m = b" by (simp_all add: NewMatcher_def)
  have "loop_inv ?m [(0, length a, 0, length b)] []"
    by (simp add: loop_inv_def f span_ok_def)
  then have inv: "loop_inv ?m [] ?raw" by (rule blocks_loop_inv)
  have set: "set bs = set ?raw" by (metis bs_def mset_sortMatches set_mset_mset)
  with inv show ok: "list_all (block_ok a b) bs" by (simp add: loop_inv_def f list_all_iff)
  have "sorted_wrt (\<lambda>x y. apart (block_span x) (block_span y)) ?raw"
    using inv by (simp add: loop_inv_def sorted_wrt_map)
  then have "sorted_wrt (\<lambda>x y. apart (block_span x) (block_span y)) bs"
    by (rule sorted_wrt_sym_perm [rotated 2]) (auto simp: apart_sym bs_def)
  moreover have "sorted_wrt match_le bs" by (simp add: bs_def sorted_sortMatches)
  ultimately show "sorted_wrt block_before bs"
    using ok by (auto simp: sorted_wrt_iff_nth_less list_all_length block_ok_def intro!: apart_sorted_before)
qed

text \<open>Merging keeps the order and the matches, and leaves no two adjacent blocks.\<close>

definition not_adjacent :: "match_block \<Rightarrow> match_block \<Rightarrow> bool" where
  "not_adjacent x y \<longleftrightarrow> \<not> (mA x + mSize x = mA y \<and> mB x + mSize x = mB y)"

lemma is_block_merge:
  assumes "is_block a b s \<lparr>mA = i, mB = j, mSize = k\<rparr>" "is_block a b s m2" "i + k = mA m2" "j + k = mB m2"
  shows "is_block a b s \<lparr>mA = i, mB = j, mSize = k + mSize m2\<rparr>"
proof -
  obtain alo ahi blo bhi where s: "s = (alo, ahi, blo, bhi)" by (cases s) auto
  have "a ! (i + t) = b ! (j + t)" if "t < k + mSize m2" for t
  proof (cases "t < k")
    case True
    then show ?thesis using assms(1) s by (simp add: is_block_def)
  next
    case False
    then have "t - k < mSize m2" using that by simp
    then have "a ! (mA m2 + (t - k)) = b ! (mB m2 + (t - k))"
      using assms(2) s unfolding is_block_def by blast
    with False show ?thesis by (simp flip: assms(3,4))
  qed
  with assms s show ?thesis by (auto simp: is_block_def)
qed

lemma merge_loop_props:
  assumes "is_block a b s \<lparr>mA = i, mB = j, mSize = k\<rparr>" "list_all (\<lambda>mt. 0 < mSize mt \<and> is_block a b s mt) ms"
    and "sorted_wrt block_before (\<lparr>mA = i, mB = j, mSize = k\<rparr> # ms)"
  shows "sorted_wrt block_before (merge_loop i j k ms)
     \<and> successively not_adjacent (merge_loop i j k ms)
     \<and> list_all (\<lambda>mt. 0 < mSize mt \<and> is_block a b s mt) (merge_loop i j k ms)
     \<and> (\<forall>mt \<in> set (merge_loop i j k ms). i \<le> mA mt \<and> j \<le> mB mt)
     \<and> (0 < k \<longrightarrow> merge_loop i j k ms \<noteq> [] \<and> mA (hd (merge_loop i j k ms)) = i \<and> mB (hd (merge_loop i j k ms)) = j)"
  using assms
proof (induction i j k ms rule: merge_loop.induct)
  case (1 i j k)
  then show ?case by auto
next
  case (2 i j k m2 ms)
  let ?cur = "\<lparr>mA = i, mB = j, mSize = k\<rparr>"
  show ?case
  proof (cases "i + k = mA m2 \<and> j + k = mB m2")
    case True
    have "is_block a b s \<lparr>mA = i, mB = j, mSize = k + mSize m2\<rparr>"
      using 2 True by (intro is_block_merge) auto
    moreover have "sorted_wrt block_before (\<lparr>mA = i, mB = j, mSize = k + mSize m2\<rparr> # ms)"
    proof -
      have "sorted_wrt block_before ms" "\<forall>x \<in> set ms. block_before m2 x" using 2(5) by simp_all
      with True show ?thesis by (simp add: add.assoc [symmetric] block_before_def [of m2] block_before_def [of "\<lparr>mA = i, mB = j, mSize = k + mSize m2\<rparr>"])
    qed
    moreover have "list_all (\<lambda>mt. 0 < mSize mt \<and> is_block a b s mt) ms" using 2(4) by simp
    ultimately show ?thesis using 2(1) [OF True] True 2(4) by simp
  next
    case False
    let ?rest = "merge_loop (mA m2) (mB m2) (mSize m2) ms"
    have m2: "\<lparr>mA = mA m2, mB = mB m2, mSize = mSize m2\<rparr> = m2" by simp
    have ih: "sorted_wrt block_before ?rest" "successively not_adjacent ?rest"
      "list_all (\<lambda>mt. 0 < mSize mt \<and> is_block a b s mt) ?rest"
      "\<forall>mt \<in> set ?rest. mA m2 \<le> mA mt \<and> mB m2 \<le> mB mt"
      "?rest \<noteq> []" "mA (hd ?rest) = mA m2" "mB (hd ?rest) = mB m2"
      using 2(2) [OF False, unfolded m2] 2(4,5) by simp_all
    have le: "i + k \<le> mA m2 \<and> j + k \<le> mB m2" using 2(5) by (simp add: block_before_def)
    then have bef: "\<forall>mt \<in> set ?rest. block_before ?cur mt"
      using ih(4) by (force simp: block_before_def)
    have adj: "not_adjacent ?cur (hd ?rest)" using False ih(6,7) by (simp add: not_adjacent_def)
    show ?thesis
    proof (cases "0 < k")
      case True
      with ih bef adj le 2(3) False show ?thesis
        by (force simp: successively_Cons)
    next
      case k: False
      with ih le False show ?thesis by force
    qed
  qed
qed

lemma GetMatchingBlocks_spec:
  "let blocks = GetMatchingBlocks (NewMatcher a b) in
     last blocks = \<lparr>mA = length a, mB = length b, mSize = 0\<rparr>
   \<and> list_all (\<lambda>mt. 0 < mSize mt \<and> is_block a b (0, length a, 0, length b) mt) (butlast blocks)
   \<and> sorted_wrt block_before blocks
   \<and> successively not_adjacent (butlast blocks)"
proof -
  let ?bs = "sortMatches (blocks_loop (NewMatcher a b) [(0, length a, 0, length b)] [])"
  let ?s = "(0, length a, 0, length b)"
  have ok: "list_all (\<lambda>mt. 0 < mSize mt \<and> is_block a b ?s mt) ?bs"
    using sorted_blocks(2) [of a b] by (simp add: list_all_iff block_ok_def)
  have "is_block a b ?s \<lparr>mA = 0, mB = 0, mSize = 0\<rparr>" by (simp add: is_block_def)
  moreover have "sorted_wrt block_before (\<lparr>mA = 0, mB = 0, mSize = 0\<rparr> # ?bs)"
    using sorted_blocks(1) [of a b] by (simp add: block_before_def)
  ultimately have m: "sorted_wrt block_before (merge_loop 0 0 0 ?bs)"
    "successively not_adjacent (merge_loop 0 0 0 ?bs)"
    "list_all (\<lambda>mt. 0 < mSize mt \<and> is_block a b ?s mt) (merge_loop 0 0 0 ?bs)"
    using merge_loop_props [of a b ?s 0 0 0 ?bs, OF _ ok] by simp_all
  have g: "GetMatchingBlocks (NewMatcher a b) = merge_loop 0 0 0 ?bs @ [\<lparr>mA = length a, mB = length b, mSize = 0\<rparr>]"
    by (simp add: GetMatchingBlocks_def NewMatcher_def Let_def)
  have "\<forall>mt \<in> set (merge_loop 0 0 0 ?bs). block_before mt \<lparr>mA = length a, mB = length b, mSize = 0\<rparr>"
    using m(3) by (auto simp: list_all_iff is_block_def block_before_def)
  then show ?thesis
    unfolding Let_def g using m by (simp add: sorted_wrt_append)
qed

lemma GetMatchingBlocks_blocks:
  "list_all (is_block a b (0, length a, 0, length b)) (GetMatchingBlocks (NewMatcher a b))"
proof -
  let ?bs = "GetMatchingBlocks (NewMatcher a b)"
  have ne: "?bs \<noteq> []" by (simp add: GetMatchingBlocks_def Let_def)
  have "list_all (is_block a b (0, length a, 0, length b)) (butlast ?bs)"
    using GetMatchingBlocks_spec [of a b] by (simp add: Let_def list_all_iff)
  moreover have "is_block a b (0, length a, 0, length b) (last ?bs)"
    using GetMatchingBlocks_spec [of a b] by (simp add: Let_def is_block_def)
  ultimately have "list_all (is_block a b (0, length a, 0, length b)) (butlast ?bs @ [last ?bs])" by simp
  with ne show ?thesis by simp
qed

section \<open>Properties\<close>

text \<open>\<open>FindLongestMatch\<close> meets the specification of \<open>difflib\<close>: within the given ranges it returns
  a matching block, no matching block of the ranges is longer, and of the longest ones it is the one
  that starts first in \<open>a\<close> and, of those, first in \<open>b\<close>.\<close>

theorem find_longest_match_correct:
  assumes "alo \<le> ahi" "ahi \<le> length a" "blo \<le> bhi" "bhi \<le> length b"
  shows "is_block a b (alo, ahi, blo, bhi) (FindLongestMatch (NewMatcher a b) alo ahi blo bhi)
    \<and> (\<forall>mt. is_block a b (alo, ahi, blo, bhi) mt \<longrightarrow>
          mSize mt \<le> mSize (FindLongestMatch (NewMatcher a b) alo ahi blo bhi)
        \<and> (mSize mt = mSize (FindLongestMatch (NewMatcher a b) alo ahi blo bhi) \<and> 0 < mSize mt \<longrightarrow>
             lex_le (mA (FindLongestMatch (NewMatcher a b) alo ahi blo bhi),
                     mB (FindLongestMatch (NewMatcher a b) alo ahi blo bhi)) (mA mt, mB mt)))"
  using FindLongestMatch_spec [OF assms(2,4,1,3) refl] by simp

theorem find_longest_match_correct_witness:
  "mSize \<lparr>mA = 1, mB = 0, mSize = 2\<rparr>
     \<le> mSize (FindLongestMatch (NewMatcher [1, 2, 3 :: int] [2, 3, 9]) 0 3 0 3)"
proof -
  have b: "is_block [1, 2, 3 :: int] [2, 3, 9] (0, 3, 0, 3) \<lparr>mA = 1, mB = 0, mSize = 2\<rparr>"
    by (auto simp: is_block_def less_Suc_eq numeral_2_eq_2 numeral_3_eq_3)
  show ?thesis
    using find_longest_match_correct [of 0 3 "[1, 2, 3 :: int]" 0 3 "[2, 3, 9]",
        THEN conjunct2, THEN spec, THEN mp, OF _ _ _ _ b] by simp
qed

text \<open>C38. \<open>GetMatchingBlocks\<close> terminates for every pair of sequences and returns real matches in order:
  every block but the sentinel is non-empty and matches, each block ends in both sequences before the
  next one starts (the sentinel included), adjacent blocks have been merged, and the sentinel is last.\<close>

theorem matching_blocks_correct:
  "let blocks = GetMatchingBlocks (NewMatcher a b) in
     last blocks = \<lparr>mA = length a, mB = length b, mSize = 0\<rparr>
   \<and> list_all (\<lambda>mt. 0 < mSize mt \<and> is_block a b (0, length a, 0, length b) mt) (butlast blocks)
   \<and> sorted_wrt block_before blocks
   \<and> successively not_adjacent (butlast blocks)"
  by (rule GetMatchingBlocks_spec)

end
