(* ===== verification/History.thy ===== *)
theory History
  imports Go_Strings Seq_Match
begin

text \<open>
  The scroll-back a pane accumulates from successive screen captures, \<^verbatim>\<open>internal/history/history.go\<close>.

  The cache directory is part of the state: \<open>hm_disk\<close> maps the name of a state file to the
  \<open>PaneState\<close> its contents decode to. A write may fail, and the sources ignore that: \<open>saveState\<close> takes
  whether it succeeds. The clock is an argument. \<open>NormalizeLine\<close> contains the escape-sequence pattern
  \<open>ansiRe\<close>, written as a matcher of a prefix (its alternatives in order).
\<close>

section \<open>Lines\<close>

definition MaxLines :: nat where "MaxLines = 10000"
definition FooterLines :: nat where "FooterLines = 6"
definition SaveInterval :: duration where "SaveInterval = 10 * second"

record pane_state =
  History :: "string list"
  Footer :: "string list"
  StaleRefusals :: int
  LastHash :: string

definition empty_pane_state :: pane_state where
  "empty_pane_state = \<lparr>History = [], Footer = [], StaleRefusals = 0, LastHash = []\<rparr>"

record manager =
  hm_states :: "pane_state gomap"
  hm_disk :: "pane_state gomap"
  hm_lastSave :: "time gomap"

definition esc_char :: char where "esc_char = CHR 0x1B"
definition bel_char :: char where "bel_char = CHR 0x07"

definition csi_param :: "char \<Rightarrow> bool" where
  "csi_param c \<longleftrightarrow> c \<in> set ''0123456789;''"

definition ascii_letter :: "char \<Rightarrow> bool" where
  "ascii_letter c \<longleftrightarrow> (65 \<le> byte_val c \<and> byte_val c \<le> 90) \<or> (97 \<le> byte_val c \<and> byte_val c \<le> 122)"

text \<open>The length of the match of \<open>ansiRe\<close> at the start of a string.\<close>

definition csi_match :: "(char \<Rightarrow> bool) \<Rightarrow> string \<Rightarrow> nat option" where
  "csi_match final s =
     (case dropWhile csi_param s of
        c # _ \<Rightarrow> if final c then Some (length (takeWhile csi_param s) + 1) else None
      | [] \<Rightarrow> None)"

fun ansi_match :: "string \<Rightarrow> nat option" where
  "ansi_match (e # c # s) =
     (if e \<noteq> esc_char then None
      else if c = CHR ''['' then
        (case csi_match ascii_letter s of
           Some n \<Rightarrow> Some (n + 2)
         | None \<Rightarrow>
             (case s of
                q # s' \<Rightarrow>
                  if q = CHR ''?''
                  then map_option (\<lambda>n. n + 3) (csi_match (\<lambda>x. x \<in> set ''hlJKHfG'') s')
                  else None
              | [] \<Rightarrow> None))
      else if c = CHR '']'' then
        (if bel_char \<in> set s then Some (length (takeWhile (\<lambda>x. x \<noteq> bel_char) s) + 3) else None)
      else if c \<in> set ''()'' then
        (case s of x # _ \<Rightarrow> if x \<in> set ''0123456789AB'' then Some 3 else None | [] \<Rightarrow> None)
      else if c \<in> set ''>=<'' then Some 2
      else None)"
| "ansi_match _ = None"

lemma ansi_match_pos: "ansi_match s = Some n \<Longrightarrow> 0 < n"
  by (induction s rule: ansi_match.induct) (auto split: if_splits option.splits list.splits)

text \<open>\<open>ansiRe.ReplaceAllString(line, "")\<close>.\<close>

function strip_ansi :: "string \<Rightarrow> string" where
  "strip_ansi s =
     (case s of [] \<Rightarrow> []
      | c # s' \<Rightarrow> (case ansi_match s of Some n \<Rightarrow> strip_ansi (drop n s) | None \<Rightarrow> c # strip_ansi s'))"
  by pat_completeness auto
termination
  by (relation "measure length") (auto dest: ansi_match_pos simp del: ansi_match.simps)

declare strip_ansi.simps [simp del]

definition NormalizeLine :: "string \<Rightarrow> string" where
  "NormalizeLine line =
     trim_right [CHR '' '', CHR 0x09, newline] (replace_char (CHR 0x0D) [] (strip_ansi line))"

definition normalizeLines :: "string list \<Rightarrow> string list" where
  "normalizeLines lines = map NormalizeLine lines"

definition splitSnapshot :: "string \<Rightarrow> string list \<times> string list" where
  "splitSnapshot raw =
     (let lines = split_lines raw
      in if length lines \<le> FooterLines then (lines, [])
         else (take (length lines - FooterLines) lines, drop (length lines - FooterLines) lines))"

text \<open>The longest suffix of the history that is a prefix of the current frame, tried from the
  longest.\<close>

fun overlap_from :: "string list \<Rightarrow> string list \<Rightarrow> nat \<Rightarrow> nat" where
  "overlap_from history current 0 = 0"
| "overlap_from history current (Suc k) =
     (if list_all (\<lambda>i. history ! (length history - Suc k + i) = current ! i) [0 ..< Suc k] then Suc k
      else overlap_from history current k)"

definition tailOverlap :: "string list \<Rightarrow> string list \<Rightarrow> nat" where
  "tailOverlap history current = overlap_from history current (min (length history) (length current))"

definition zero_block :: match_block where
  "zero_block = \<lparr>mA = 0, mB = 0, mSize = 0\<rparr>"

definition pick_block :: "string list \<Rightarrow> match_block \<Rightarrow> match_block \<Rightarrow> match_block" where
  "pick_block history best block =
     (if mSize block < 2 then best
      else if length (filter (\<lambda>i. history ! (mA block + i) \<noteq> []) [0 ..< mSize block]) < 2 then best
      else if mSize block > mSize best \<or> (mSize block = mSize best \<and> mA block > mA best) then block
      else best)"

definition sequenceMatch :: "string list \<Rightarrow> string list \<Rightarrow> match_block" where
  "sequenceMatch history current =
     (if length history = 0 \<or> length current = 0 then zero_block
      else foldl (pick_block history) zero_block (GetMatchingBlocks (NewMatcher history current)))"

definition hash_rune :: "64 word \<Rightarrow> nat \<Rightarrow> 64 word" where
  "hash_rune h c = h * 31 + word_of_nat c"

definition hash_word :: "string list \<Rightarrow> 64 word" where
  "hash_word lines = foldl (\<lambda>h l. hash_rune (foldl hash_rune h (utf8_runes l)) 10) 0 lines"

definition hex_digit :: "nat \<Rightarrow> char" where
  "hex_digit n = ''0123456789abcdef'' ! n"

definition hashLines :: "string list \<Rightarrow> string" where
  "hashLines lines = map (\<lambda>i. hex_digit (unat (hash_word lines) div 16 ^ i mod 16)) (rev [0 ..< 16])"

section \<open>The manager\<close>

definition joinContent :: "pane_state \<Rightarrow> int \<Rightarrow> string \<times> bool" where
  "joinContent st limit =
     (let truncated = (limit > 0 \<and> int (length (History st) + length (Footer st)) > limit);
          (historyLines, footerLines) =
            (if truncated
             then if int (length (Footer st)) \<ge> limit
                  then ([], drop (length (Footer st) - nat limit) (Footer st))
                  else (drop (length (History st) - (nat limit - length (Footer st))) (History st), Footer st)
             else (History st, Footer st));
          parts = (if length historyLines > 0 then [join_with [newline] historyLines] else [])
                  @ (if length footerLines > 0 then [join_with [newline] footerLines] else [])
      in (join_with [newline] parts, truncated))"

definition stateFile :: "string \<Rightarrow> string" where
  "stateFile paneID = replace_char (CHR '':'') ''_'' (replace_char (CHR ''/'') ''_'' paneID) @ ''.json''"

definition loadState :: "manager \<Rightarrow> string \<Rightarrow> manager \<times> pane_state" where
  "loadState m paneID =
     (case hm_states m paneID of
        Some s \<Rightarrow> (m, s)
      | None \<Rightarrow>
          let s = (case hm_disk m (stateFile paneID) of Some d \<Rightarrow> d | None \<Rightarrow> empty_pane_state)
          in (m\<lparr>hm_states := (hm_states m)(paneID \<mapsto> s)\<rparr>, s))"

definition saveState :: "bool \<Rightarrow> manager \<Rightarrow> string \<Rightarrow> pane_state \<Rightarrow> manager" where
  "saveState writes m paneID st =
     (if writes then m\<lparr>hm_disk := (hm_disk m)(stateFile paneID \<mapsto> st)\<rparr> else m)"

definition maybeSave :: "bool \<Rightarrow> time \<Rightarrow> manager \<Rightarrow> string \<Rightarrow> pane_state \<Rightarrow> manager" where
  "maybeSave writes now m paneID st =
     (case hm_lastSave m paneID of
        Some t \<Rightarrow>
          if time_sub now t < SaveInterval then m
          else (saveState writes m paneID st)\<lparr>hm_lastSave := (hm_lastSave m)(paneID \<mapsto> now)\<rparr>
      | None \<Rightarrow> (saveState writes m paneID st)\<lparr>hm_lastSave := (hm_lastSave m)(paneID \<mapsto> now)\<rparr>)"

text \<open>\<open>copy_into xs i ys\<close> is \<open>copy(xs[i:], ys)\<close> for \<open>i + len(ys) <= len(xs)\<close>.\<close>

definition copy_into :: "'a list \<Rightarrow> nat \<Rightarrow> 'a list \<Rightarrow> 'a list" where
  "copy_into xs i ys = take i xs @ ys @ drop (i + length ys) xs"

definition applyMatch :: "pane_state \<Rightarrow> string list \<Rightarrow> match_block \<Rightarrow> pane_state" where
  "applyMatch st body mt =
     (let historyEnd = mA mt + mSize mt;
          currentEnd = mB mt + mSize mt;
          h = copy_into (History st) (mA mt) (take (mSize mt) (drop (mB mt) body));
          currentSuffix = drop currentEnd body;
          historyTail = length h - historyEnd
      in if length currentSuffix = 0 then st\<lparr>History := h, StaleRefusals := 0\<rparr>
         else if historyTail \<ge> length body then st\<lparr>History := h @ body, StaleRefusals := 0\<rparr>
         else if historyTail \<le> 3 then st\<lparr>History := take historyEnd h @ currentSuffix, StaleRefusals := 0\<rparr>
         else if StaleRefusals st + 1 \<ge> 2
              then st\<lparr>History := take historyEnd h @ currentSuffix, StaleRefusals := 0\<rparr>
              else st\<lparr>History := h, StaleRefusals := StaleRefusals st + 1\<rparr>)"

definition merge_body :: "pane_state \<Rightarrow> string list \<Rightarrow> string list \<Rightarrow> pane_state" where
  "merge_body st body footer =
     (let st1 = st\<lparr>LastHash := hashLines body, Footer := footer\<rparr>;
          normalized = normalizeLines body;
          histNorm = normalizeLines (History st1);
          overlap = tailOverlap histNorm normalized;
          mt = sequenceMatch histNorm normalized;
          st2 = (if overlap > 0
                 then st1\<lparr>History := copy_into (History st1) (length (History st1) - overlap) (take overlap body)
                                     @ drop overlap body\<rparr>
                 else if mSize mt \<ge> 2 then applyMatch st1 body mt
                 else st1\<lparr>History := History st1 @ body, StaleRefusals := 0\<rparr>)
      in if length (History st2) > MaxLines
         then st2\<lparr>History := drop (length (History st2) - MaxLines) (History st2)\<rparr> else st2)"

definition hm_merge ::
  "bool \<Rightarrow> time \<Rightarrow> manager \<Rightarrow> string \<Rightarrow> string \<Rightarrow> int \<Rightarrow> manager \<times> (string \<times> bool)" where
  "hm_merge writes now m paneID rawContent limit =
     (let (m1, st) = loadState m paneID;
          (body, footer) = splitSnapshot rawContent
      in if length body = 0 then (m1, joinContent st limit)
         else if hashLines body = LastHash st \<and> StaleRefusals st = 0 then (m1, joinContent st limit)
         else let st' = merge_body st body footer;
                  m2 = m1\<lparr>hm_states := (hm_states m1)(paneID \<mapsto> st')\<rparr>
              in (maybeSave writes now m2 paneID st', joinContent st' limit))"

definition Content :: "manager \<Rightarrow> string \<Rightarrow> int \<Rightarrow> manager \<times> string" where
  "Content m paneID limit = (let (m1, st) = loadState m paneID in (m1, fst (joinContent st limit)))"

definition Discard :: "manager \<Rightarrow> string \<Rightarrow> manager" where
  "Discard m paneID =
     m\<lparr>hm_states := delete_key (hm_states m) paneID, hm_lastSave := delete_key (hm_lastSave m) paneID,
       hm_disk := delete_key (hm_disk m) (stateFile paneID)\<rparr>"

text \<open>\<open>SaveAll\<close> visits the panes in the order of the map iteration, given as a list. The argument of
  \<open>Reconcile\<close> is the Go map as an association list.\<close>

definition SaveAll :: "(string \<Rightarrow> bool) \<Rightarrow> manager \<Rightarrow> string list \<Rightarrow> manager" where
  "SaveAll writes m order =
     foldl (\<lambda>m p. case hm_states m p of Some st \<Rightarrow> saveState (writes p) m p st | None \<Rightarrow> m) m order"

definition Reconcile :: "manager \<Rightarrow> (string \<times> bool) list \<Rightarrow> manager" where
  "Reconcile m activePaneIDs =
     (let activeFiles = map (\<lambda>p. stateFile (fst p)) activePaneIDs;
          active = (\<lambda>p. map_of activePaneIDs p = Some True)
      in m\<lparr>hm_disk := (\<lambda>f. if \<not> has_suffix f ''.json'' \<or> f \<in> set activeFiles then hm_disk m f else None),
           hm_states := (\<lambda>p. if active p then hm_states m p else None),
           hm_lastSave := (\<lambda>p. if active p \<or> hm_states m p = None then hm_lastSave m p else None)\<rparr>)"

section \<open>Overlap and match\<close>

lemma overlap_test:
  assumes "k \<le> length h" "k \<le> length c"
  shows "list_all (\<lambda>i. h ! (length h - k + i) = c ! i) [0 ..< k] \<longleftrightarrow> drop (length h - k) h = take k c"
  using assms by (auto simp: list_all_iff list_eq_iff_nth_eq)

lemma overlap_from_spec:
  assumes "n \<le> length h" "n \<le> length c"
  shows "overlap_from h c n \<le> n \<and> drop (length h - overlap_from h c n) h = take (overlap_from h c n) c
     \<and> (\<forall>k \<le> n. drop (length h - k) h = take k c \<longrightarrow> k \<le> overlap_from h c n)"
  using assms
proof (induction n)
  case 0
  then show ?case by simp
next
  case (Suc n)
  show ?case
  proof (cases "drop (length h - Suc n) h = take (Suc n) c")
    case True
    then show ?thesis using Suc.prems overlap_test [of "Suc n" h c] by (simp del: upt_Suc)
  next
    case False
    then have "overlap_from h c (Suc n) = overlap_from h c n"
      using Suc.prems overlap_test [of "Suc n" h c] by (simp del: upt_Suc)
    with Suc False show ?thesis by (auto simp: le_Suc_eq)
  qed
qed

lemma tailOverlap_spec:
  "tailOverlap h c \<le> length h" "tailOverlap h c \<le> length c"
  "drop (length h - tailOverlap h c) h = take (tailOverlap h c) c"
  "k \<le> length h \<Longrightarrow> k \<le> length c \<Longrightarrow> drop (length h - k) h = take k c \<Longrightarrow> k \<le> tailOverlap h c"
  using overlap_from_spec [of "min (length h) (length c)" h c] by (auto simp: tailOverlap_def)

text \<open>A block the history module acts on is one of the matching blocks (or the empty one).\<close>

lemma foldl_pick_block: "foldl (pick_block h) best bs \<in> insert best (set bs)"
  by (induction bs arbitrary: best) (auto simp: pick_block_def)

lemma sequenceMatch_block:
  "is_block h c (0, length h, 0, length c) (sequenceMatch h c)"
proof (cases "length h = 0 \<or> length c = 0")
  case True
  then show ?thesis by (simp add: sequenceMatch_def zero_block_def is_block_def)
next
  case False
  let ?bs = "GetMatchingBlocks (NewMatcher h c)"
  have "is_block h c (0, length h, 0, length c) b" if "b \<in> set ?bs" for b
    using GetMatchingBlocks_blocks [of h c] that by (auto simp: list_all_iff)
  then show ?thesis
    using foldl_pick_block [of h zero_block ?bs] False
    by (auto simp: sequenceMatch_def zero_block_def is_block_def)
qed

lemma sequenceMatch_range:
  "mA (sequenceMatch h c) + mSize (sequenceMatch h c) \<le> length h"
  "mB (sequenceMatch h c) + mSize (sequenceMatch h c) \<le> length c"
  "take (mSize (sequenceMatch h c)) (drop (mB (sequenceMatch h c)) c) =
   take (mSize (sequenceMatch h c)) (drop (mA (sequenceMatch h c)) h)"
  using sequenceMatch_block [of h c] by (auto simp: is_block_def intro!: nth_equalityI)

lemma length_copy_into: "i + length ys \<le> length xs \<Longrightarrow> length (copy_into xs i ys) = length xs"
  by (simp add: copy_into_def)

lemma map_copy_into_same:
  assumes "map f ys = take (length ys) (drop i (map f xs))"
  shows "map f (copy_into xs i ys) = map f xs"
proof -
  have "map f (copy_into xs i ys) = take i (map f xs) @ take (length ys) (drop i (map f xs)) @ drop (i + length ys) (map f xs)"
    by (simp add: copy_into_def take_map drop_map assms)
  also have "\<dots> = map f xs"
    by (metis add.commute append_take_drop_id drop_drop)
  finally show ?thesis .
qed

section \<open>The merge on normalised lines\<close>

text \<open>What a merge does, on lines without styling and without the line limit: the new lines and the new
  count of refusals.\<close>

definition merge_spec :: "string list \<Rightarrow> string list \<Rightarrow> int \<Rightarrow> string list \<times> int" where
  "merge_spec hn bn refusals =
     (let k = tailOverlap hn bn; mt = sequenceMatch hn bn;
          hEnd = mA mt + mSize mt; cEnd = mB mt + mSize mt;
          rebased = take hEnd hn @ drop cEnd bn; tail = length hn - hEnd
      in if k > 0 then (hn @ drop k bn, refusals)
         else if mSize mt < 2 then (hn @ bn, 0)
         else if cEnd = length bn then (hn, 0)
         else if tail \<ge> length bn then (hn @ bn, 0)
         else if tail \<le> 3 \<or> refusals \<ge> 1 then (rebased, 0)
         else (hn, refusals + 1))"

definition last_n :: "nat \<Rightarrow> 'a list \<Rightarrow> 'a list" where
  "last_n n xs = drop (length xs - n) xs"

lemma applyMatch_refines:
  assumes "mt = sequenceMatch (normalizeLines (History st)) (normalizeLines body)" "mSize mt \<ge> 2"
    and "tailOverlap (normalizeLines (History st)) (normalizeLines body) = 0"
  shows "(normalizeLines (History (applyMatch st body mt)), StaleRefusals (applyMatch st body mt))
       = merge_spec (normalizeLines (History st)) (normalizeLines body) (StaleRefusals st)"
proof -
  let ?hn = "normalizeLines (History st)" and ?bn = "normalizeLines body"
  let ?ys = "take (mSize mt) (drop (mB mt) body)"
  have r: "mA mt + mSize mt \<le> length (History st)" "mB mt + mSize mt \<le> length body"
    "take (mSize mt) (drop (mB mt) ?bn) = take (mSize mt) (drop (mA mt) ?hn)"
    using sequenceMatch_range [of ?hn ?bn] assms(1) by (simp_all add: normalizeLines_def)
  have ys: "length ?ys = mSize mt" using r by simp
  have "map NormalizeLine (copy_into (History st) (mA mt) ?ys) = map NormalizeLine (History st)"
    using r(3) ys by (intro map_copy_into_same) (simp add: normalizeLines_def take_map drop_map)
  then have c: "normalizeLines (copy_into (History st) (mA mt) ?ys) = ?hn"
    by (simp add: normalizeLines_def)
  have lc: "length (copy_into (History st) (mA mt) ?ys) = length (History st)"
    using r(1) ys by (simp add: length_copy_into)
  have n: "normalizeLines (xs @ ys) = normalizeLines xs @ normalizeLines ys"
    "normalizeLines (take i xs) = take i (normalizeLines xs)"
    "normalizeLines (drop i xs) = drop i (normalizeLines xs)" "length (normalizeLines xs) = length xs" for xs ys i
    by (simp_all add: normalizeLines_def take_map drop_map)
  define h where "h = copy_into (History st) (mA mt) ?ys"
  have "applyMatch st body mt =
     (if length (drop (mB mt + mSize mt) body) = 0 then st\<lparr>History := h, StaleRefusals := 0\<rparr>
      else if length h - (mA mt + mSize mt) \<ge> length body then st\<lparr>History := h @ body, StaleRefusals := 0\<rparr>
      else if length h - (mA mt + mSize mt) \<le> 3 \<or> StaleRefusals st + 1 \<ge> 2
           then st\<lparr>History := take (mA mt + mSize mt) h @ drop (mB mt + mSize mt) body, StaleRefusals := 0\<rparr>
      else st\<lparr>History := h, StaleRefusals := StaleRefusals st + 1\<rparr>)"
    unfolding applyMatch_def Let_def h_def by simp
  then show ?thesis
    using assms(2,3) r(1,2)
    by (simp add: merge_spec_def Let_def c [folded h_def] lc [folded h_def] n assms(1) [symmetric])
qed

lemma merge_body_refines:
  "normalizeLines (History (merge_body st body footer)) =
           last_n MaxLines (fst (merge_spec (normalizeLines (History st)) (normalizeLines body) (StaleRefusals st)))
       \<and> StaleRefusals (merge_body st body footer) =
           snd (merge_spec (normalizeLines (History st)) (normalizeLines body) (StaleRefusals st))"
proof -
  let ?hn = "normalizeLines (History st)" and ?bn = "normalizeLines body"
  let ?k = "tailOverlap ?hn ?bn" and ?mt = "sequenceMatch ?hn ?bn"
  let ?st1 = "st\<lparr>LastHash := hashLines body, Footer := footer\<rparr>"
  define st2 where "st2 = (if ?k > 0
                 then ?st1\<lparr>History := copy_into (History st) (length (History st) - ?k) (take ?k body) @ drop ?k body\<rparr>
                 else if mSize ?mt \<ge> 2 then applyMatch ?st1 body ?mt
                 else ?st1\<lparr>History := History st @ body, StaleRefusals := 0\<rparr>)"
  have mb: "merge_body st body footer = (if length (History st2) > MaxLines
         then st2\<lparr>History := drop (length (History st2) - MaxLines) (History st2)\<rparr> else st2)"
    by (simp add: merge_body_def Let_def st2_def)
  have "(normalizeLines (History st2), StaleRefusals st2) = merge_spec ?hn ?bn (StaleRefusals st)"
  proof -
    consider (o) "?k > 0" | (m) "?k = 0" "mSize ?mt \<ge> 2" | (n) "?k = 0" "mSize ?mt < 2" by linarith
    then show ?thesis
    proof cases
      case o
      have "map NormalizeLine (copy_into (History st) (length (History st) - ?k) (take ?k body))
          = map NormalizeLine (History st)"
        using tailOverlap_spec(1-3) [of ?hn ?bn]
        by (intro map_copy_into_same) (simp add: normalizeLines_def take_map [symmetric] min_absorb2)
      with o show ?thesis
        by (simp add: st2_def merge_spec_def Let_def normalizeLines_def drop_map)
    next
      case m
      with applyMatch_refines [of ?mt ?st1 body] show ?thesis by (simp add: st2_def)
    next
      case n
      then show ?thesis by (simp add: st2_def merge_spec_def Let_def normalizeLines_def)
    qed
  qed
  then have e: "normalizeLines (History st2) = fst (merge_spec ?hn ?bn (StaleRefusals st))"
    "StaleRefusals st2 = snd (merge_spec ?hn ?bn (StaleRefusals st))" by (metis fst_conv, metis snd_conv)
  have "length (History st2) = length (fst (merge_spec ?hn ?bn (StaleRefusals st)))"
    unfolding e(1) [symmetric] by (simp add: normalizeLines_def)
  moreover have "normalizeLines (drop i (History st2)) = drop i (fst (merge_spec ?hn ?bn (StaleRefusals st)))" for i
    unfolding e(1) [symmetric] by (simp add: normalizeLines_def drop_map)
  ultimately show ?thesis
    using e by (simp add: mb last_n_def)
qed

section \<open>Runs\<close>

datatype history_event =
    HMerge bool time string string int
  | HContent string int
  | HDiscard string
  | HSaveAll "string \<Rightarrow> bool" "string list"
  | HReconcile "(string \<times> bool) list"

fun history_step :: "manager \<Rightarrow> history_event \<Rightarrow> manager \<times> string" where
  "history_step m (HMerge w now p raw limit) = (let (m', c) = hm_merge w now m p raw limit in (m', fst c))"
| "history_step m (HContent p limit) = Content m p limit"
| "history_step m (HDiscard p) = (Discard m p, [])"
| "history_step m (HSaveAll w order) = (SaveAll w m order, [])"
| "history_step m (HReconcile active) = (Reconcile m active, [])"

definition bounded_pane :: "pane_state \<Rightarrow> bool" where
  "bounded_pane st \<longleftrightarrow> length (History st) \<le> MaxLines"

definition bounded_manager :: "manager \<Rightarrow> bool" where
  "bounded_manager m \<longleftrightarrow> (\<forall>p st. hm_states m p = Some st \<longrightarrow> bounded_pane st)
     \<and> (\<forall>f st. hm_disk m f = Some st \<longrightarrow> bounded_pane st)"

lemma bounded_merge_body: "bounded_pane (merge_body st body footer)"
  by (simp add: merge_body_def Let_def bounded_pane_def)

lemma loadState_bounded:
  assumes "bounded_manager m" "loadState m p = (m', st)"
  shows "bounded_manager m'" "bounded_pane st"
  using assms
  by (auto simp: loadState_def bounded_manager_def Let_def bounded_pane_def empty_pane_state_def
      split: option.splits if_splits)

lemma saveState_bounded: "bounded_manager m \<Longrightarrow> bounded_pane st \<Longrightarrow> bounded_manager (saveState w m p st)"
  by (auto simp: saveState_def bounded_manager_def)

lemma maybeSave_bounded: "bounded_manager m \<Longrightarrow> bounded_pane st \<Longrightarrow> bounded_manager (maybeSave w now m p st)"
  using saveState_bounded [of m st w p]
  by (auto simp: maybeSave_def bounded_manager_def split: option.splits)

lemma hm_merge_bounded:
  assumes "bounded_manager m"
  shows "bounded_manager (fst (hm_merge w now m p raw limit))"
proof -
  obtain m1 st where l: "loadState m p = (m1, st)" by fastforce
  obtain body footer where b: "splitSnapshot raw = (body, footer)" by fastforce
  note lb = loadState_bounded [OF assms l]
  have "bounded_manager (m1\<lparr>hm_states := (hm_states m1)(p \<mapsto> merge_body st body footer)\<rparr>)"
    using lb(1) bounded_merge_body by (auto simp: bounded_manager_def)
  with maybeSave_bounded bounded_merge_body lb l b show ?thesis by (simp add: hm_merge_def Let_def)
qed

lemma SaveAll_bounded: "bounded_manager m \<Longrightarrow> bounded_manager (SaveAll w m order)"
proof (induction order arbitrary: m)
  case Nil
  then show ?case by (simp add: SaveAll_def)
next
  case (Cons p order)
  let ?m = "case hm_states m p of Some st \<Rightarrow> saveState (w p) m p st | None \<Rightarrow> m"
  have "bounded_manager ?m"
  proof (cases "hm_states m p")
    case None
    then show ?thesis using Cons.prems by simp
  next
    case (Some st)
    then have "bounded_pane st" using Cons.prems by (auto simp: bounded_manager_def)
    with Some Cons.prems saveState_bounded show ?thesis by simp
  qed
  from Cons.IH [OF this] show ?case by (simp add: SaveAll_def)
qed

interpretation history: invariant_machine history_step "\<lambda>_. True" bounded_manager
proof
  fix m e
  assume m: "bounded_manager m"
  show "bounded_manager (fst (history_step m e))"
  proof (cases e)
    case (HMerge w now p raw limit)
    with hm_merge_bounded [OF m] show ?thesis by (simp add: case_prod_beta)
  next
    case (HContent p limit)
    with loadState_bounded(1) [OF m, of p] show ?thesis
      by (cases "loadState m p") (simp add: Content_def)
  next
    case (HDiscard p)
    with m show ?thesis by (auto simp: Discard_def bounded_manager_def)
  next
    case (HSaveAll w order)
    with SaveAll_bounded [OF m] show ?thesis by simp
  next
    case (HReconcile active)
    with m show ?thesis by (auto simp: Reconcile_def bounded_manager_def Let_def split: if_splits)
  qed
qed

lemma join_parts:
  "join_with [newline] ((if length h > 0 then [join_with [newline] h] else [])
      @ (if length f > 0 then [join_with [newline] f] else [])) = join_with [newline] (h @ f)"
  by (cases "h = []"; cases "f = []") (auto simp: join_with_append join_with_Cons)

lemma joinContent_join:
  "joinContent st limit =
     (let truncated = (limit > 0 \<and> int (length (History st) + length (Footer st)) > limit);
          (h, f) = (if truncated
             then if int (length (Footer st)) \<ge> limit
                  then ([], drop (length (Footer st) - nat limit) (Footer st))
                  else (drop (length (History st) - (nat limit - length (Footer st))) (History st), Footer st)
             else (History st, Footer st))
      in (join_with [newline] (h @ f), truncated))"
  unfolding joinContent_def Let_def join_parts ..

section \<open>Properties\<close>


text \<open>The number of history lines kept per pane stays within \<open>MaxLines\<close>, in memory and on disk, over
  every sequence of merges, reads, discards, saves and reconciliations, failed writes included.\<close>

theorem history_bounded:
  assumes "bounded_manager m"
  shows "bounded_manager (fst (run_machine history_step m evs))"
  using history.run_inv [OF assms] by (simp add: list_all_iff)

theorem history_bounded_witness:
  "bounded_manager (fst (run_machine history_step \<lparr>hm_states = Map.empty, hm_disk = Map.empty, hm_lastSave = Map.empty\<rparr>
     [HMerge True 5 ''p1'' ''hello'' 0, HSaveAll (\<lambda>_. False) [''p1''], HReconcile [(''p1'', True)]]))"
  by (rule history_bounded) (simp add: bounded_manager_def)

text \<open>A limited read is the tail of the record: with a positive limit the text returned is the last
  \<open>limit\<close> lines of history and footer together joined by newlines (all of them without a limit), and
  truncation is reported exactly when there are more lines than the limit.\<close>

theorem history_window:
  "joinContent st limit =
     (let lines = History st @ Footer st
      in (join_with [newline] (if limit > 0 then last_n (nat limit) lines else lines),
          limit > 0 \<and> int (length lines) > limit))"
proof (cases "limit > 0 \<and> int (length (History st) + length (Footer st)) > limit")
  case False
  then have "(if limit > 0 then last_n (nat limit) (History st @ Footer st) else History st @ Footer st)
      = History st @ Footer st"
    by (auto simp: last_n_def)
  with False show ?thesis unfolding joinContent_join Let_def by (simp only: if_False prod.case) simp
next
  case True
  then have "last_n (nat limit) (History st @ Footer st) =
     (if int (length (Footer st)) \<ge> limit then drop (length (Footer st) - nat limit) (Footer st)
      else drop (length (History st) - (nat limit - length (Footer st))) (History st) @ Footer st)"
    by (auto simp: last_n_def)
  with True show ?thesis unfolding joinContent_join Let_def by (simp only: if_True prod.case if_distrib) simp
qed

text \<open>A frame whose body is unchanged is ignored together with its footer: once a frame has been
  merged without a pending refusal, a frame with the same body and a different footer returns the text
  of the record as it was, so the six footer lines shown stay those of the earlier frame.\<close>

theorem history_footer_not_refreshed:
  assumes "splitSnapshot raw = (body, footer')" "body \<noteq> []"
    and "hm_states m paneID = Some st" "LastHash st = hashLines body" "StaleRefusals st = 0"
  shows "hm_merge writes now m paneID raw limit = (m, joinContent st limit)"
  using assms by (simp add: hm_merge_def loadState_def Let_def)

theorem history_footer_not_refreshed_witness:
  "hm_merge True 9 \<lparr>hm_states = [''p'' \<mapsto> \<lparr>History = [''a''], Footer = [''old''], StaleRefusals = 0, LastHash = hashLines [''a'']\<rparr>],
        hm_disk = Map.empty, hm_lastSave = Map.empty\<rparr> ''p'' ''a'' 0
   = (\<lparr>hm_states = [''p'' \<mapsto> \<lparr>History = [''a''], Footer = [''old''], StaleRefusals = 0, LastHash = hashLines [''a'']\<rparr>],
        hm_disk = Map.empty, hm_lastSave = Map.empty\<rparr>,
      joinContent \<lparr>History = [''a''], Footer = [''old''], StaleRefusals = 0, LastHash = hashLines [''a'']\<rparr> 0)"
  by (rule history_footer_not_refreshed) (simp_all add: splitSnapshot_def newline_def FooterLines_def)

end
