(* ===== verification/Scheduler.thy ===== *)
theory Scheduler
  imports Relay_Prelude "HOL-Library.AList" "HOL-Library.Multiset" "HOL-Library.List_Lexorder" "HOL-Library.Char_ord"
begin

text \<open>
  The command scheduler, \<^verbatim>\<open>internal/coordinator/coordinator.go\<close>. One goroutine (\<open>run\<close>) owns the state and
  handles one message at a time; \<open>sched_step\<close> is the handling of one message and a run is any sequence
  of messages, so every order in which the channels deliver is covered.

  \<^item> A \<open>*scheduledOperation\<close> is its operation number, which \<open>operationSeq\<close> makes unique; the objects
    themselves are in the store \<open>s_ops\<close>. A waiter is the number of its response channel, which is the
    number of the request that made it. Counters (\<open>uint64\<close> in the code) are unbounded.
  \<^item> Maps that are iterated are association lists; their order stands for the order of one iteration.
  \<^item> The heap of deadlines is a list sorted by deadline, so that its head is what \<open>heap.Pop\<close> returns;
    \<open>op.index >= 0\<close> is membership.
  \<^item> What the goroutine does to the outside is appended to \<open>s_log\<close>: starting a worker, cancelling one,
    answering a channel. The clock readings of a handler are arguments of the event.
\<close>

section \<open>State\<close>

record cmd_result =
  cr_RequestID :: string
  cr_Action :: string
  cr_OK :: bool
  cr_Phase :: string
  cr_Error :: string
  cr_PaneID :: string
  cr_Data :: string
  cr_replayed :: bool

datatype sched_error = ErrIngressFull | ErrConflict | ErrClosed

record schedule_options =
  so_ID :: nat
  so_RequestID :: string
  so_ReceivedAt :: time
  so_Deadline :: time
  so_Kind :: string
  so_PaneID :: string
  so_RelayLevel :: bool
  so_PaneGeneration :: nat
  so_AllowAbsent :: bool
  so_LedgerKey :: string
  so_PayloadHash :: string

record scheduled_op =
  op_options :: schedule_options
  op_sequence :: nat
  op_generation :: nat
  op_waiters :: "(nat \<times> bool) list"
  op_dispatched :: bool

record in_flight =
  if_OperationID :: nat
  if_CommandID :: nat
  if_Generation :: nat
  if_StartedAt :: time

record pane_slot =
  sl_Generation :: nat
  sl_Queue :: "nat list"
  sl_InFlight :: "in_flight option"

record ledger_entry =
  le_payloadHash :: string
  le_operation :: "nat option"
  le_result :: "cmd_result option"
  le_generation :: nat
  le_paneID :: string
  le_createdAt :: time

record effect_result =
  er_Result :: "cmd_result option"
  er_BumpGeneration :: bool

record worker_token =
  wt_OperationID :: nat
  wt_PaneID :: string
  wt_Generation :: nat
  wt_AllowAbsent :: bool
  wt_Deadline :: time

datatype sched_effect =
    EStart worker_token
  | ECancel nat
  | EReply nat "cmd_result option" "sched_error option" bool
  | ELedgerApplied bool
  | EReplay "cmd_result option" bool "sched_error option"

record sched_metrics =
  mt_ExpiredQueued :: nat
  mt_Dispatched :: nat
  mt_Completed :: nat
  mt_HerdrInUse :: int
  mt_PaneSlots :: nat
  mt_LatencySamples :: nat
  mt_LatencyTotalMicros :: nat
  mt_LatencyMaxMicros :: nat

record scheduler =
  s_capacity :: int
  s_ops :: "nat \<Rightarrow> scheduled_op"
  s_slots :: "(string \<times> pane_slot) list"
  s_relayQueue :: "nat list"
  s_relayInFlight :: "nat list"
  s_ledger :: "(string \<times> ledger_entry) list"
  s_knownActive :: "string list"
  s_deadlines :: "nat list"
  s_inUse :: int
  s_stopping :: bool
  s_stopAck :: bool
  s_done :: bool
  s_metrics :: sched_metrics
  s_log :: "sched_effect list"

definition defaultHerdrCapacity :: int where "defaultHerdrCapacity = 8"
definition maxLedgerEntries :: nat where "maxLedgerEntries = 256"
definition ledgerRetention :: duration where "ledgerRetention = 24 * 3600 * second"

definition empty_slot :: pane_slot where
  "empty_slot = \<lparr>sl_Generation = 0, sl_Queue = [], sl_InFlight = None\<rparr>"

definition zero_metrics :: sched_metrics where
  "zero_metrics = \<lparr>mt_ExpiredQueued = 0, mt_Dispatched = 0, mt_Completed = 0, mt_HerdrInUse = 0,
     mt_PaneSlots = 0, mt_LatencySamples = 0, mt_LatencyTotalMicros = 0, mt_LatencyMaxMicros = 0\<rparr>"

text \<open>The store before any operation has been received holds an arbitrary, unused object.\<close>

definition NewScheduler :: "(nat \<Rightarrow> scheduled_op) \<Rightarrow> int \<Rightarrow> scheduler" where
  "NewScheduler store capacity =
     \<lparr>s_capacity = (if capacity \<le> 0 then defaultHerdrCapacity else capacity), s_ops = store, s_slots = [],
      s_relayQueue = [], s_relayInFlight = [], s_ledger = [], s_knownActive = [], s_deadlines = [],
      s_inUse = 0, s_stopping = False, s_stopAck = False, s_done = False, s_metrics = zero_metrics,
      s_log = []\<rparr>"

abbreviation op_deadline :: "scheduler \<Rightarrow> nat \<Rightarrow> time" where
  "op_deadline s i \<equiv> so_Deadline (op_options (s_ops s i))"

abbreviation op_key :: "scheduler \<Rightarrow> nat \<Rightarrow> string" where
  "op_key s i \<equiv> so_LedgerKey (op_options (s_ops s i))"

abbreviation op_pane :: "scheduler \<Rightarrow> nat \<Rightarrow> string" where
  "op_pane s i \<equiv> so_PaneID (op_options (s_ops s i))"

section \<open>Small operations\<close>

definition emit :: "sched_effect list \<Rightarrow> scheduler \<Rightarrow> scheduler" where
  "emit es s = s\<lparr>s_log := s_log s @ es\<rparr>"

definition heap_push :: "nat \<Rightarrow> scheduler \<Rightarrow> scheduler" where
  "heap_push i s = s\<lparr>s_deadlines := insort_key (op_deadline s) i (s_deadlines s)\<rparr>"

definition heap_remove :: "nat \<Rightarrow> scheduler \<Rightarrow> scheduler" where
  "heap_remove i s = s\<lparr>s_deadlines := remove1 i (s_deadlines s)\<rparr>"

definition set_slot :: "string \<Rightarrow> pane_slot \<Rightarrow> scheduler \<Rightarrow> scheduler" where
  "set_slot p slot s = s\<lparr>s_slots := AList.update p slot (s_slots s)\<rparr>"

definition drop_ledger :: "string \<Rightarrow> scheduler \<Rightarrow> scheduler" where
  "drop_ledger key s = (if key \<noteq> [] then s\<lparr>s_ledger := AList.delete key (s_ledger s)\<rparr> else s)"

definition replyWithReplay ::
  "nat \<Rightarrow> cmd_result option \<Rightarrow> sched_error option \<Rightarrow> bool \<Rightarrow> scheduler \<Rightarrow> scheduler" where
  "replyWithReplay i result err forceReplay s =
     emit (map (\<lambda>w. EReply (fst w) result err (forceReplay \<or> snd w)) (op_waiters (s_ops s i))) s"

definition reply :: "nat \<Rightarrow> cmd_result option \<Rightarrow> sched_error option \<Rightarrow> scheduler \<Rightarrow> scheduler" where
  "reply i result err s = replyWithReplay i result err False s"

definition replyReplayed :: "nat \<Rightarrow> cmd_result option \<Rightarrow> sched_error option \<Rightarrow> scheduler \<Rightarrow> scheduler" where
  "replyReplayed i result err s = replyWithReplay i result err True s"

definition not_started_result :: "scheduled_op \<Rightarrow> cmd_result" where
  "not_started_result op =
     \<lparr>cr_RequestID = so_RequestID (op_options op), cr_Action = so_Kind (op_options op), cr_OK = False,
      cr_Phase = ''not_started'', cr_Error = ''command was not sent; retry is safe'',
      cr_PaneID = so_PaneID (op_options op), cr_Data = [], cr_replayed = False\<rparr>"

definition replyNotStarted :: "nat \<Rightarrow> scheduler \<Rightarrow> scheduler" where
  "replyNotStarted i s = reply i (Some (not_started_result (s_ops s i))) None s"

definition stale_result :: "scheduled_op \<Rightarrow> cmd_result" where
  "stale_result op =
     \<lparr>cr_RequestID = so_RequestID (op_options op), cr_Action = so_Kind (op_options op), cr_OK = False,
      cr_Phase = (if op_dispatched op then ''dispatched_unknown'' else ''failed''),
      cr_Error = (if op_dispatched op
         then ''command was dispatched before the pane session was replaced; outcome is unknown''
         else ''pane session was replaced''),
      cr_PaneID = so_PaneID (op_options op), cr_Data = [], cr_replayed = False\<rparr>"

definition replyStale :: "nat \<Rightarrow> scheduler \<Rightarrow> scheduler" where
  "replyStale i s = reply i (Some (stale_result (s_ops s i))) None (drop_ledger (op_key s i) s)"

definition expire :: "nat \<Rightarrow> scheduler \<Rightarrow> scheduler" where
  "expire i s =
     replyNotStarted i
       ((drop_ledger (op_key s i) s)
          \<lparr>s_metrics := (s_metrics s)\<lparr>mt_ExpiredQueued := mt_ExpiredQueued (s_metrics s) + 1\<rparr>\<rparr>)"

definition start :: "nat \<Rightarrow> nat \<Rightarrow> scheduler \<Rightarrow> scheduler" where
  "start i generation s =
     emit [EStart \<lparr>wt_OperationID = i, wt_PaneID = op_pane s i, wt_Generation = generation,
             wt_AllowAbsent = so_AllowAbsent (op_options (s_ops s i)), wt_Deadline = op_deadline s i\<rparr>]
       (s\<lparr>s_metrics := (s_metrics s)\<lparr>mt_Dispatched := mt_Dispatched (s_metrics s) + 1\<rparr>,
          s_ops := (s_ops s)(i := (s_ops s i)\<lparr>op_dispatched := True\<rparr>)\<rparr>)"

definition setOwnerMetrics :: "scheduler \<Rightarrow> scheduler" where
  "setOwnerMetrics s =
     s\<lparr>s_metrics := (s_metrics s)\<lparr>mt_HerdrInUse := s_inUse s, mt_PaneSlots := length (s_slots s)\<rparr>\<rparr>"

text \<open>\<open>sort.Search\<close> as the standard library implements it, and \<open>insertBySequence\<close>.\<close>

function search_loop :: "(nat \<Rightarrow> bool) \<Rightarrow> nat \<Rightarrow> nat \<Rightarrow> nat" where
  "search_loop f i j =
     (if i < j then let h = (i + j) div 2 in if \<not> f h then search_loop f (h + 1) j else search_loop f i h
      else i)"
  by pat_completeness auto
termination
  by (relation "measure (\<lambda>(f, i, j). j - i)") auto

declare search_loop.simps [simp del]

definition insertBySequence :: "scheduler \<Rightarrow> nat list \<Rightarrow> nat \<Rightarrow> nat list" where
  "insertBySequence s queue i =
     (let at = search_loop (\<lambda>k. op_sequence (s_ops s (queue ! k)) > op_sequence (s_ops s i)) 0 (length queue)
      in take at queue @ i # drop at queue)"

definition removeOperation :: "nat list \<Rightarrow> nat \<Rightarrow> nat list \<times> bool" where
  "removeOperation queue target = (remove1 target queue, target \<in> set queue)"

definition removeQueued :: "nat \<Rightarrow> scheduler \<Rightarrow> scheduler \<times> bool" where
  "removeQueued i s =
     (if so_RelayLevel (op_options (s_ops s i))
      then let (q, removed) = removeOperation (s_relayQueue s) i in (s\<lparr>s_relayQueue := q\<rparr>, removed)
      else case map_of (s_slots s) (op_pane s i) of
             None \<Rightarrow> (s, False)
           | Some slot \<Rightarrow>
               if (case sl_InFlight slot of Some f \<Rightarrow> if_OperationID f = i | None \<Rightarrow> False) then (s, False)
               else let (q, removed) = removeOperation (sl_Queue slot) i
                    in (set_slot (op_pane s i) (slot\<lparr>sl_Queue := q\<rparr>) s, removed))"

section \<open>Dispatch\<close>

fun relay_loop :: "time \<Rightarrow> nat list \<Rightarrow> scheduler \<Rightarrow> scheduler" where
  "relay_loop now [] s = s\<lparr>s_relayQueue := []\<rparr>"
| "relay_loop now (i # q) s =
     (if s_inUse s < s_capacity s \<and> \<not> s_stopping s
      then let s1 = s\<lparr>s_relayQueue := q\<rparr>
           in if \<not> now < op_deadline s i then relay_loop now q (expire i (heap_remove i s1))
              else relay_loop now q
                     (start i 0 (s1\<lparr>s_inUse := s_inUse s + 1, s_relayInFlight := s_relayInFlight s @ [i]\<rparr>))
      else s\<lparr>s_relayQueue := i # q\<rparr>)"

text \<open>One visit of a pane: the new state and whether progress was made.\<close>

definition visit_pane :: "time \<Rightarrow> string \<Rightarrow> scheduler \<Rightarrow> scheduler \<times> bool" where
  "visit_pane now p s =
     (case map_of (s_slots s) p of
        None \<Rightarrow> (s, False)
      | Some slot \<Rightarrow>
          (case (sl_InFlight slot, sl_Queue slot) of
             (None, i # q) \<Rightarrow>
               let s1 = set_slot p (slot\<lparr>sl_Queue := q\<rparr>) s
               in if op_generation (s_ops s i) \<noteq> sl_Generation slot
                  then (replyStale i (heap_remove i s1), True)
                  else if \<not> now < op_deadline s i then (expire i (heap_remove i s1), True)
                  else (start i (sl_Generation slot)
                         ((set_slot p (slot\<lparr>sl_Queue := q, sl_InFlight := Some
                             \<lparr>if_OperationID = i, if_CommandID = so_ID (op_options (s_ops s i)),
                              if_Generation = sl_Generation slot, if_StartedAt = now\<rparr>\<rparr>) s)
                           \<lparr>s_inUse := s_inUse s + 1\<rparr>), True)
           | _ \<Rightarrow> (s, False)))"

fun pane_pass :: "time \<Rightarrow> string list \<Rightarrow> scheduler \<Rightarrow> bool \<Rightarrow> scheduler \<times> bool" where
  "pane_pass now [] s progress = (s, progress)"
| "pane_pass now (p # ps) s progress =
     (if s_inUse s \<ge> s_capacity s then (s, progress)
      else let (s', pr) = visit_pane now p s in pane_pass now ps s' (progress \<or> pr))"

definition queued_count :: "scheduler \<Rightarrow> nat" where
  "queued_count s = sum_list (map (\<lambda>x. length (sl_Queue (snd x))) (s_slots s))"

lemma sum_list_update:
  "map_of al k = Some v \<Longrightarrow>
     sum_list (map (\<lambda>x. f (snd x)) (AList.update k v' al)) + f v = sum_list (map (\<lambda>x. f (snd x)) al) + (f v' :: nat)"
  by (induction al) (auto split: if_splits)

lemma s_slots_simps [simp]:
  "s_slots (emit es s) = s_slots s" "s_slots (drop_ledger k s) = s_slots s" "s_slots (reply i r e s) = s_slots s"
  "s_slots (replyStale i s) = s_slots s" "s_slots (expire i s) = s_slots s" "s_slots (start i g s) = s_slots s"
  "s_slots (heap_remove i s) = s_slots s" "s_slots (heap_push i s) = s_slots s"
  "s_slots (replyWithReplay i r e b s) = s_slots s"
  by (simp_all add: emit_def drop_ledger_def reply_def replyWithReplay_def replyStale_def expire_def
      replyNotStarted_def start_def heap_remove_def heap_push_def)

definition in_flight_slot :: "time \<Rightarrow> nat \<Rightarrow> nat list \<Rightarrow> scheduler \<Rightarrow> pane_slot \<Rightarrow> pane_slot" where
  "in_flight_slot now i q s slot = slot\<lparr>sl_Queue := q, sl_InFlight := Some
     \<lparr>if_OperationID = i, if_CommandID = so_ID (op_options (s_ops s i)),
      if_Generation = sl_Generation slot, if_StartedAt = now\<rparr>\<rparr>"

lemma visit_pane_cases:
  obtains
    (idle) "visit_pane now p s = (s, False)"
      "\<forall>slot. map_of (s_slots s) p = Some slot \<longrightarrow> sl_InFlight slot \<noteq> None \<or> sl_Queue slot = []"
  | (stale) slot i q where "map_of (s_slots s) p = Some slot" "sl_InFlight slot = None" "sl_Queue slot = i # q"
      "op_generation (s_ops s i) \<noteq> sl_Generation slot"
      "visit_pane now p s = (replyStale i (heap_remove i (set_slot p (slot\<lparr>sl_Queue := q\<rparr>) s)), True)"
  | (expired) slot i q where "map_of (s_slots s) p = Some slot" "sl_InFlight slot = None" "sl_Queue slot = i # q"
      "visit_pane now p s = (expire i (heap_remove i (set_slot p (slot\<lparr>sl_Queue := q\<rparr>) s)), True)"
  | (started) slot i q where "map_of (s_slots s) p = Some slot" "sl_InFlight slot = None" "sl_Queue slot = i # q"
      "op_generation (s_ops s i) = sl_Generation slot" "now < op_deadline s i"
      "visit_pane now p s = (start i (sl_Generation slot)
         ((set_slot p (in_flight_slot now i q s slot) s)\<lparr>s_inUse := s_inUse s + 1\<rparr>), True)"
proof (cases "map_of (s_slots s) p")
  case None
  then show ?thesis by (intro idle) (simp_all add: visit_pane_def)
next
  case (Some slot)
  show ?thesis
  proof (cases "sl_InFlight slot = None \<and> sl_Queue slot \<noteq> []")
    case False
    with Some show ?thesis
      by (intro idle) (auto simp: visit_pane_def split: option.splits list.splits)
  next
    case True
    then obtain i q where q: "sl_InFlight slot = None" "sl_Queue slot = i # q"
      by (cases "sl_Queue slot") auto
    note v = visit_pane_def [of now p s] Let_def in_flight_slot_def
    show ?thesis
    proof (cases "op_generation (s_ops s i) = sl_Generation slot")
      case False
      with Some q show ?thesis by (intro stale) (simp_all add: v)
    next
      case gen: True
      show ?thesis
      proof (cases "now < op_deadline s i")
        case True
        with Some q gen show ?thesis by (intro started) (simp_all add: v)
      next
        case False
        with Some q gen show ?thesis by (intro expired) (simp_all add: v)
      qed
    qed
  qed
qed

lemma queued_count_set_slot:
  assumes "map_of (s_slots s) p = Some slot"
  shows "queued_count (set_slot p slot' s) + length (sl_Queue slot) = queued_count s + length (sl_Queue slot')"
  using sum_list_update [OF assms, of "\<lambda>v. length (sl_Queue v)" slot']
  by (simp add: queued_count_def set_slot_def)

lemma queued_count_simps [simp]:
  "queued_count (replyStale i s) = queued_count s" "queued_count (expire i s) = queued_count s"
  "queued_count (start i g s) = queued_count s" "queued_count (heap_remove i s) = queued_count s"
  "queued_count (s\<lparr>s_inUse := n\<rparr>) = queued_count s"
  by (simp_all add: queued_count_def)

lemma visit_pane_count:
  assumes "visit_pane now p s = (s', pr)"
  shows "queued_count s' + (if pr then 1 else 0) = queued_count s"
proof (cases rule: visit_pane_cases [of now p s])
  case idle
  with assms show ?thesis by simp
next
  case (stale slot i q)
  with assms queued_count_set_slot [OF stale(1), of "slot\<lparr>sl_Queue := q\<rparr>"] show ?thesis
    by (auto simp: in_flight_slot_def)
next
  case (expired slot i q)
  with assms queued_count_set_slot [OF expired(1), of "slot\<lparr>sl_Queue := q\<rparr>"] show ?thesis
    by (auto simp: in_flight_slot_def)
next
  case (started slot i q)
  with assms queued_count_set_slot [OF started(1), of "in_flight_slot now i q s slot"] show ?thesis
    by (auto simp: in_flight_slot_def)
qed

lemma pane_pass_count:
  "pane_pass now ps s pr = (s', pr') \<Longrightarrow>
     queued_count s' \<le> queued_count s \<and> (pr' \<and> \<not> pr \<longrightarrow> queued_count s' < queued_count s) \<and> (pr \<longrightarrow> pr')"
proof (induction ps arbitrary: s pr)
  case Nil
  then show ?case by simp
next
  case (Cons p ps)
  show ?case
  proof (cases "s_inUse s \<ge> s_capacity s")
    case True
    with Cons.prems show ?thesis by simp
  next
    case False
    obtain s1 pr1 where v: "visit_pane now p s = (s1, pr1)" by fastforce
    with Cons.prems False have "pane_pass now ps s1 (pr \<or> pr1) = (s', pr')" by simp
    from Cons.IH [OF this] visit_pane_count [OF v] show ?thesis by (auto split: if_splits)
  qed
qed

function pane_rounds :: "time \<Rightarrow> string list \<Rightarrow> scheduler \<Rightarrow> scheduler" where
  "pane_rounds now paneIDs s =
     (if s_inUse s < s_capacity s \<and> \<not> s_stopping s
      then let (s', progress) = pane_pass now paneIDs s False
           in if progress then pane_rounds now paneIDs s' else s'
      else s)"
  by pat_completeness auto
termination
proof (relation "measure (\<lambda>(now, ps, s). queued_count s)", simp, goal_cases)
  case (1 now ps s x s' pr)
  then show ?case using pane_pass_count [of now ps s False s' pr] by simp
qed

declare pane_rounds.simps [simp del]

definition dispatch :: "time \<Rightarrow> scheduler \<Rightarrow> scheduler" where
  "dispatch now s =
     (let s1 = relay_loop now (s_relayQueue s) s
      in setOwnerMetrics (pane_rounds now (sort (map fst (s_slots s1))) s1))"

section \<open>Message handlers\<close>

definition stale_queue :: "nat list \<Rightarrow> scheduler \<Rightarrow> scheduler" where
  "stale_queue q s = foldl (\<lambda>s i. replyStale i (heap_remove i s)) s q"

definition cancel_flight :: "pane_slot \<Rightarrow> scheduler \<Rightarrow> scheduler" where
  "cancel_flight slot s = (case sl_InFlight slot of None \<Rightarrow> s | Some f \<Rightarrow> emit [ECancel (if_OperationID f)] s)"

text \<open>A pane moves to a new generation: the worker in flight is cancelled, the queue is answered as stale
  and older ledger entries of the pane are dropped (all but one key on admission).\<close>

definition advance_slot :: "string \<Rightarrow> nat \<Rightarrow> string option \<Rightarrow> scheduler \<Rightarrow> scheduler" where
  "advance_slot p generation keep s =
     (case map_of (s_slots s) p of
        None \<Rightarrow> s
      | Some slot \<Rightarrow>
          let s1 = cancel_flight slot (set_slot p (slot\<lparr>sl_Generation := generation\<rparr>) s);
              s2 = stale_queue (sl_Queue slot) s1;
              s3 = set_slot p (slot\<lparr>sl_Generation := generation, sl_Queue := []\<rparr>) s2
          in s3\<lparr>s_ledger := filter (\<lambda>x. \<not> (Some (fst x) \<noteq> keep \<and> le_paneID (snd x) = p
                                       \<and> le_generation (snd x) < generation)) (s_ledger s3)\<rparr>)"

definition count_completed :: "scheduler \<Rightarrow> scheduler" where
  "count_completed s = s\<lparr>s_metrics := (s_metrics s)\<lparr>mt_Completed := mt_Completed (s_metrics s) + 1\<rparr>\<rparr>"

definition count_latency :: "duration \<Rightarrow> scheduler \<Rightarrow> scheduler" where
  "count_latency latency s =
     (if latency > 0
      then let micros = nat (latency div 1000); m = s_metrics s
           in s\<lparr>s_metrics := m\<lparr>mt_LatencySamples := mt_LatencySamples m + 1,
                  mt_LatencyTotalMicros := mt_LatencyTotalMicros m + micros,
                  mt_LatencyMaxMicros := max (mt_LatencyMaxMicros m) micros\<rparr>\<rparr>
      else s)"

text \<open>The end of an operation that was in flight: its capacity is returned, its ledger entry takes the
  result, its waiters are answered.\<close>

definition settle_ledger :: "string \<Rightarrow> cmd_result option \<Rightarrow> scheduler \<Rightarrow> scheduler" where
  "settle_ledger key result s =
     (if key = [] then s
      else case map_of (s_ledger s) key of
             None \<Rightarrow> s
           | Some entry \<Rightarrow>
               (case result of
                  None \<Rightarrow> s\<lparr>s_ledger := AList.delete key (s_ledger s)\<rparr>
                | Some r \<Rightarrow>
                    if cr_Phase r = ''not_started'' then s\<lparr>s_ledger := AList.delete key (s_ledger s)\<rparr>
                    else s\<lparr>s_ledger := AList.update key (entry\<lparr>le_result := Some r, le_operation := None\<rparr>) (s_ledger s)\<rparr>))"

definition finish_op :: "nat \<Rightarrow> effect_result \<Rightarrow> time \<Rightarrow> time \<Rightarrow> scheduler \<Rightarrow> scheduler" where
  "finish_op i res now nowD s =
     (let s1 = heap_remove i (s\<lparr>s_inUse := s_inUse s - 1\<rparr>);
          s2 = settle_ledger (op_key s i) (er_Result res) s1;
          s3 = setOwnerMetrics (count_latency (time_sub now (so_ReceivedAt (op_options (s_ops s i)))) (count_completed s2))
      in dispatch nowD (reply i (er_Result res) None s3))"

definition finish_stale :: "nat \<Rightarrow> time \<Rightarrow> scheduler \<Rightarrow> scheduler" where
  "finish_stale i nowD s =
     dispatch nowD (replyStale i (setOwnerMetrics (count_completed (heap_remove i (s\<lparr>s_inUse := s_inUse s - 1\<rparr>)))))"

text \<open>\<open>completeAndRedispatch\<close>. The validator \<open>generationCurrent\<close> may be unset; what it answers belongs to the
  event. A pane whose agent was closed gives up its slot when nothing is queued for it.\<close>

definition completeAndRedispatch ::
  "nat \<Rightarrow> effect_result \<Rightarrow> (string \<Rightarrow> nat \<Rightarrow> bool) option \<Rightarrow> time \<Rightarrow> time \<Rightarrow> scheduler \<Rightarrow> scheduler" where
  "completeAndRedispatch i res generationCurrent now nowD s =
     (let opts = op_options (s_ops s i); p = so_PaneID opts in
      if so_RelayLevel opts
      then if i \<notin> set (s_relayInFlight s) then s
           else finish_op i res now nowD (s\<lparr>s_relayInFlight := remove1 i (s_relayInFlight s)\<rparr>)
      else
        (case map_of (s_slots s) p of
           None \<Rightarrow> s
         | Some slot \<Rightarrow>
             (case sl_InFlight slot of
                None \<Rightarrow> s
              | Some f \<Rightarrow>
                  if if_OperationID f \<noteq> i then s
                  else
                    let stale = (if_Generation f \<noteq> sl_Generation slot \<or>
                                 (case generationCurrent of None \<Rightarrow> False | Some g \<Rightarrow> \<not> g p (if_Generation f)));
                        bump = (er_BumpGeneration res \<and> \<not> stale);
                        gen = (if bump then sl_Generation slot + 1 else sl_Generation slot);
                        s1 = (if bump
                              then s\<lparr>s_ledger := filter (\<lambda>x. \<not> (fst x \<noteq> so_LedgerKey opts \<and> le_paneID (snd x) = p
                                       \<and> le_generation (snd x) < gen)) (s_ledger s)\<rparr>
                              else s);
                        s2 = set_slot p (slot\<lparr>sl_Generation := gen, sl_InFlight := None\<rparr>) s1;
                        closed = (case er_Result res of Some r \<Rightarrow> cr_Phase r = ''closed'' | None \<Rightarrow> False);
                        s3 = (if sl_Queue slot = [] \<and> bump \<and> closed
                              then s2\<lparr>s_slots := AList.delete p (s_slots s2)\<rparr> else s2)
                    in if stale then finish_stale i nowD s3 else finish_op i res now nowD s3)))"

definition topology_absent :: "string list \<Rightarrow> scheduler \<Rightarrow> string \<Rightarrow> scheduler" where
  "topology_absent active s p =
     (if p \<in> set active then s
      else case map_of (s_slots s) p of
             None \<Rightarrow> s
           | Some slot \<Rightarrow> advance_slot p (sl_Generation slot + 1) None s)"

definition topology_generation :: "scheduler \<Rightarrow> string \<times> nat \<Rightarrow> scheduler" where
  "topology_generation s pg =
     (let (p, generation) = pg;
          slot = (case map_of (s_slots s) p of Some x \<Rightarrow> x | None \<Rightarrow> empty_slot);
          s1 = (if map_of (s_slots s) p = None then set_slot p empty_slot s else s)
      in if generation \<le> sl_Generation slot then s1 else advance_slot p generation None s1)"

definition applyTopology :: "string list \<Rightarrow> (string \<times> nat) list \<Rightarrow> time \<Rightarrow> scheduler \<Rightarrow> scheduler" where
  "applyTopology active generations nowD s =
     (let s1 = foldl (topology_absent active) s (s_knownActive s);
          s2 = foldl topology_generation s1 generations
      in dispatch nowD (s2\<lparr>s_knownActive := active\<rparr>))"

text \<open>The oldest entry that has a result, by the loop of \<open>pruneLedger\<close>; the empty key is "none".\<close>

definition older :: "string \<times> time \<Rightarrow> string \<times> ledger_entry \<Rightarrow> string \<times> time" where
  "older best x =
     (if le_operation (snd x) \<noteq> None then best
      else if fst best = [] \<or> le_createdAt (snd x) < snd best then (fst x, le_createdAt (snd x))
      else best)"

definition oldest_entry :: "(string \<times> ledger_entry) list \<Rightarrow> string \<times> time" where
  "oldest_entry es = foldl older ([], 0) es"

lemma oldest_entry_mem: "fst (oldest_entry es) = [] \<or> fst (oldest_entry es) \<in> fst ` set es"
proof -
  have "fst (foldl older b es) \<in> insert (fst b) (fst ` set es)" for b
  proof (induction es arbitrary: b)
    case Nil
    then show ?case by simp
  next
    case (Cons x es)
    have "fst (older b x) \<in> {fst b, fst x}" by (simp add: older_def)
    with Cons.IH [of "older b x"] show ?case by auto
  qed
  from this [of "([], 0)"] show ?thesis by (auto simp: oldest_entry_def)
qed

lemma length_delete_less: "k \<in> fst ` set es \<Longrightarrow> length (AList.delete k es) < length es"
  by (induction es) (auto simp: AList.delete_eq intro: le_less_trans [OF length_filter_le])

function evict_ledger :: "(string \<times> ledger_entry) list \<Rightarrow> (string \<times> ledger_entry) list" where
  "evict_ledger es =
     (if length es \<ge> maxLedgerEntries
      then if fst (oldest_entry es) = [] then es else evict_ledger (AList.delete (fst (oldest_entry es)) es)
      else es)"
  by pat_completeness auto
termination
proof (relation "measure length", simp)
  fix es :: "(string \<times> ledger_entry) list"
  assume "fst (oldest_entry es) \<noteq> []"
  then show "(AList.delete (fst (oldest_entry es)) es, es) \<in> measure length"
    using oldest_entry_mem [of es] length_delete_less [of "fst (oldest_entry es)" es] by simp
qed

declare evict_ledger.simps [simp del]

definition pruneLedger :: "time \<Rightarrow> scheduler \<Rightarrow> scheduler" where
  "pruneLedger now s =
     s\<lparr>s_ledger := evict_ledger (filter (\<lambda>x. \<not> (le_operation (snd x) = None
          \<and> time_sub now (le_createdAt (snd x)) \<ge> ledgerRetention)) (s_ledger s))\<rparr>"

text \<open>The admitted part of \<open>ingress\<close>: the operation is new, it has a place in the ledger if it has a key.\<close>

definition enqueue_op :: "nat \<Rightarrow> time \<Rightarrow> scheduler \<Rightarrow> scheduler" where
  "enqueue_op i nowD s =
     (let opts = op_options (s_ops s i); p = so_PaneID opts; key = so_LedgerKey opts;
          s1 = heap_push i s in
      if so_RelayLevel opts
      then dispatch nowD (s1\<lparr>s_relayQueue := insertBySequence s1 (s_relayQueue s1) i\<rparr>)
      else
        let s2 = (if map_of (s_slots s1) p = None then set_slot p empty_slot s1 else s1);
            gen = (case map_of (s_slots s2) p of Some x \<Rightarrow> sl_Generation x | None \<Rightarrow> 0);
            s3 = (if so_PaneGeneration opts > gen then advance_slot p (so_PaneGeneration opts) (Some key) s2 else s2);
            slot = (case map_of (s_slots s3) p of Some x \<Rightarrow> x | None \<Rightarrow> empty_slot);
            s4 = (case map_of (s_ledger s3) key of
                    None \<Rightarrow> s3
                  | Some entry \<Rightarrow>
                      s3\<lparr>s_ledger := AList.update key (entry\<lparr>le_generation := sl_Generation slot\<rparr>) (s_ledger s3)\<rparr>);
            s5 = s4\<lparr>s_ops := (s_ops s4)(i := (s_ops s4 i)\<lparr>op_generation := sl_Generation slot\<rparr>)\<rparr>
        in dispatch nowD (set_slot p (slot\<lparr>sl_Queue := insertBySequence s5 (sl_Queue slot) i\<rparr>) s5))"

definition attach_waiters :: "nat \<Rightarrow> nat \<Rightarrow> scheduler \<Rightarrow> scheduler" where
  "attach_waiters i j s =
     s\<lparr>s_ops := (s_ops s)(j := (s_ops s j)
         \<lparr>op_waiters := op_waiters (s_ops s j) @ map (\<lambda>w. (fst w, True)) (op_waiters (s_ops s i))\<rparr>)\<rparr>"

text \<open>A request received from the ingress channel; three clock readings.\<close>

definition ingress :: "nat \<Rightarrow> scheduled_op \<Rightarrow> time \<Rightarrow> time \<Rightarrow> time \<Rightarrow> scheduler \<Rightarrow> scheduler" where
  "ingress i op nowP nowR nowD s0 =
     (let opts = op_options op; key = so_LedgerKey opts;
          s = pruneLedger nowP (s0\<lparr>s_ops := (s_ops s0)(i := op)\<rparr>) in
      if s_stopping s then reply i None (Some ErrClosed) s
      else if \<not> nowR < so_Deadline opts then replyNotStarted i s
      else if \<not> so_RelayLevel opts \<and>
              (case map_of (s_slots s) (so_PaneID opts) of
                 Some slot \<Rightarrow> so_PaneGeneration opts < sl_Generation slot | None \<Rightarrow> False)
      then replyStale i s
      else if key = [] then enqueue_op i nowD s
      else case map_of (s_ledger s) key of
             Some existing \<Rightarrow>
               if le_payloadHash existing \<noteq> so_PayloadHash opts then reply i None (Some ErrConflict) s
               else (case le_result existing of
                       Some r \<Rightarrow> replyReplayed i (Some r) None s
                     | None \<Rightarrow> (case le_operation existing of Some j \<Rightarrow> attach_waiters i j s | None \<Rightarrow> s))
           | None \<Rightarrow>
               enqueue_op i nowD (s\<lparr>s_ledger := AList.update key
                 \<lparr>le_payloadHash = so_PayloadHash opts, le_operation = Some i, le_result = None, le_generation = 0,
                  le_paneID = so_PaneID opts, le_createdAt = so_ReceivedAt opts\<rparr> (s_ledger s)\<rparr>))"

definition update_ledger :: "string \<Rightarrow> nat \<Rightarrow> cmd_result option \<Rightarrow> scheduler \<Rightarrow> scheduler" where
  "update_ledger key generation result s =
     (case (map_of (s_ledger s) key, result) of
        (Some entry, Some r) \<Rightarrow>
          if le_generation entry = generation \<and> le_result entry \<noteq> None
          then emit [ELedgerApplied True]
                 (s\<lparr>s_ledger := AList.update key (entry\<lparr>le_result := Some r\<rparr>) (s_ledger s)\<rparr>)
          else emit [ELedgerApplied False] s
      | _ \<Rightarrow> emit [ELedgerApplied False] s)"

definition replay_query :: "string \<Rightarrow> string \<Rightarrow> scheduler \<Rightarrow> scheduler" where
  "replay_query key payloadHash s =
     (case map_of (s_ledger s) key of
        None \<Rightarrow> emit [EReplay None False None] s
      | Some entry \<Rightarrow>
          if le_payloadHash entry \<noteq> payloadHash then emit [EReplay None True (Some ErrConflict)] s
          else emit [EReplay (le_result entry) True None] s)"

fun expire_loop :: "time \<Rightarrow> nat list \<Rightarrow> scheduler \<Rightarrow> scheduler" where
  "expire_loop now [] s = s\<lparr>s_deadlines := []\<rparr>"
| "expire_loop now (i # h) s =
     (if \<not> now < op_deadline s i
      then let (s1, removed) = removeQueued i (s\<lparr>s_deadlines := h\<rparr>)
           in expire_loop now h (if removed then expire i s1 else s1)
      else s\<lparr>s_deadlines := i # h\<rparr>)"

definition timer_fired :: "time \<Rightarrow> time \<Rightarrow> scheduler \<Rightarrow> scheduler" where
  "timer_fired now nowD s = dispatch nowD (expire_loop now (s_deadlines s) s)"

definition close_queue :: "nat list \<Rightarrow> scheduler \<Rightarrow> scheduler" where
  "close_queue q s = foldl (\<lambda>s i. reply i None (Some ErrClosed) s) s q"

text \<open>What \<open>cancelInflight\<close> and \<open>stop\<close> share: every worker is cancelled, every queued request refused.\<close>

definition begin_stop :: "scheduler \<Rightarrow> scheduler" where
  "begin_stop s =
     (if s_stopping s then s
      else let s1 = foldl (\<lambda>s x. close_queue (sl_Queue (snd x)) (cancel_flight (snd x) s))
                      (s\<lparr>s_stopping := True\<rparr>) (s_slots s);
               s2 = s1\<lparr>s_slots := map (\<lambda>x. (fst x, (snd x)\<lparr>sl_Queue := []\<rparr>)) (s_slots s1)\<rparr>;
               s3 = emit (map ECancel (s_relayInFlight s2)) s2
           in (close_queue (s_relayQueue s3) s3)\<lparr>s_relayQueue := []\<rparr>)"

section \<open>The loop\<close>

datatype sched_event =
    SIngress nat scheduled_op time time time
  | SComplete nat effect_result "(string \<Rightarrow> nat \<Rightarrow> bool) option" time time
  | SLedger string nat "cmd_result option"
  | SReplay string string
  | STopology "string list" "(string \<times> nat) list" time
  | STimer time time
  | SCancelInflight
  | SStop

primrec sched_handle :: "sched_event \<Rightarrow> scheduler \<Rightarrow> scheduler" where
  "sched_handle (SIngress i op t1 t2 t3) s = ingress i op t1 t2 t3 s"
| "sched_handle (SComplete i res gc t1 t2) s = completeAndRedispatch i res gc t1 t2 s"
| "sched_handle (SLedger key g r) s = update_ledger key g r s"
| "sched_handle (SReplay key h) s = replay_query key h s"
| "sched_handle (STopology active gens t) s = applyTopology active gens t s"
| "sched_handle (STimer t1 t2) s = timer_fired t1 t2 s"
| "sched_handle SCancelInflight s = begin_stop s"
| "sched_handle SStop s = begin_stop (s\<lparr>s_stopAck := True\<rparr>)"

text \<open>One turn of the loop: nothing after the goroutine has returned; it returns once it is stopping, idle
  and \<open>Close\<close> is waiting.\<close>

definition sched_step :: "scheduler \<Rightarrow> sched_event \<Rightarrow> scheduler" where
  "sched_step s ev =
     (if s_done s then s
      else let s' = sched_handle ev s
           in s'\<lparr>s_done := s_stopping s' \<and> s_inUse s' = 0 \<and> s_stopAck s'\<rparr>)"

definition sched_run :: "scheduler \<Rightarrow> sched_event list \<Rightarrow> scheduler" where
  "sched_run s evs = foldl sched_step s evs"

end
