(* ===== verification/Scheduler_Inv.thy ===== *)
theory Scheduler_Inv
  imports Scheduler
begin

text \<open>
  The invariant of the scheduler and the account of its waiters. \<open>queued\<close> and \<open>flying\<close> are the operations
  waiting and in flight, as multisets of operation numbers; \<open>pending\<close> are the response channels their
  waiters hold and \<open>replied\<close> the channels answered so far. Each handler is shown to keep the invariant
  and to move channels from \<open>pending\<close> to \<open>replied\<close> without losing or repeating one.
\<close>

section \<open>What is live\<close>

definition flight :: "pane_slot \<Rightarrow> nat multiset" where
  "flight slot = (case sl_InFlight slot of None \<Rightarrow> {#} | Some f \<Rightarrow> {#if_OperationID f#})"

definition slot_queue :: "pane_slot \<Rightarrow> nat multiset" where
  "slot_queue slot = mset (sl_Queue slot)"

definition slot_sum :: "(pane_slot \<Rightarrow> nat multiset) \<Rightarrow> (string \<times> pane_slot) list \<Rightarrow> nat multiset" where
  "slot_sum f slots = sum_list (map (\<lambda>x. f (snd x)) slots)"

definition queued :: "scheduler \<Rightarrow> nat multiset" where
  "queued s = mset (s_relayQueue s) + slot_sum slot_queue (s_slots s)"

definition flying :: "scheduler \<Rightarrow> nat multiset" where
  "flying s = mset (s_relayInFlight s) + slot_sum flight (s_slots s)"

definition live :: "scheduler \<Rightarrow> nat multiset" where
  "live s = queued s + flying s"

definition chans :: "scheduler \<Rightarrow> nat \<Rightarrow> nat multiset" where
  "chans s i = mset (map fst (op_waiters (s_ops s i)))"

definition pending :: "scheduler \<Rightarrow> nat multiset" where
  "pending s = (\<Sum>i \<in># live s. chans s i)"

primrec reply_chan :: "sched_effect \<Rightarrow> nat multiset" where
  "reply_chan (EStart t) = {#}"
| "reply_chan (ECancel i) = {#}"
| "reply_chan (EReply c r e b) = {#c#}"
| "reply_chan (ELedgerApplied b) = {#}"
| "reply_chan (EReplay r b e) = {#}"

definition replied :: "scheduler \<Rightarrow> nat multiset" where
  "replied s = sum_list (map reply_chan (s_log s))"

definition account :: "scheduler \<Rightarrow> nat multiset" where
  "account s = pending s + replied s"

lemma slot_sum_update:
  "slot_sum f (AList.update p slot' slots) + (case map_of slots p of None \<Rightarrow> {#} | Some slot \<Rightarrow> f slot)
   = slot_sum f slots + f slot'"
  by (induction slots) (auto simp: slot_sum_def ac_simps split: option.splits)

lemma slot_sum_update_Some:
  "map_of slots p = Some slot \<Longrightarrow> slot_sum f (AList.update p slot' slots) + f slot = slot_sum f slots + f slot'"
  using slot_sum_update [of f p slot' slots] by simp

lemma slot_sum_update_None:
  "map_of slots p = None \<Longrightarrow> slot_sum f (AList.update p slot' slots) = slot_sum f slots + f slot'"
  using slot_sum_update [of f p slot' slots] by simp

lemma slot_sum_delete:
  "distinct (map fst slots) \<Longrightarrow> map_of slots p = Some slot \<Longrightarrow>
     slot_sum f (AList.delete p slots) + f slot = slot_sum f slots"
proof (induction slots)
  case Nil
  then show ?case by simp
next
  case (Cons x slots)
  have "AList.delete p slots = slots" if "p \<notin> fst ` set slots"
    using that by (simp add: delete_id)
  with Cons show ?case by (auto simp: slot_sum_def ac_simps split: if_splits)
qed

section \<open>The ledger\<close>

definition ledger_ok :: "(string \<times> ledger_entry) list \<Rightarrow> (nat \<Rightarrow> string) \<Rightarrow> nat multiset \<Rightarrow> bool" where
  "ledger_ok L key_of ops \<longleftrightarrow> distinct (map fst L) \<and>
     (\<forall>x \<in> set L. fst x \<noteq> [] \<and>
        (le_result (snd x) = None \<longrightarrow> (\<exists>j. le_operation (snd x) = Some j \<and> j \<in># ops \<and> key_of j = fst x)))"

lemma ledger_ok_filter: "ledger_ok L k ops \<Longrightarrow> ledger_ok (filter P L) k ops"
  by (auto simp: ledger_ok_def distinct_fst_filter)

lemma ledger_ok_delete: "ledger_ok L k ops \<Longrightarrow> ledger_ok (AList.delete key L) k ops"
  unfolding AList.delete_eq by (rule ledger_ok_filter)

lemma ledger_ok_mono: "ledger_ok L k ops \<Longrightarrow> set_mset ops \<subseteq> set_mset ops' \<Longrightarrow> ledger_ok L k ops'"
  unfolding ledger_ok_def by (meson subsetD)

lemma ledger_ok_cong: "ledger_ok L k ops \<Longrightarrow> (\<And>j. j \<in># ops \<Longrightarrow> k j = k' j) \<Longrightarrow> ledger_ok L k' ops"
  unfolding ledger_ok_def by metis

lemma ledger_ok_pop:
  assumes "ledger_ok L k (add_mset i ops)"
  shows "ledger_ok (if k i \<noteq> [] then AList.delete (k i) L else L) k ops"
proof -
  have "\<exists>j. le_operation (snd x) = Some j \<and> j \<in># ops \<and> k j = fst x"
    if "x \<in> set L" "fst x \<noteq> k i" "le_result (snd x) = None" for x
    using assms that unfolding ledger_ok_def by fastforce
  with assms show ?thesis
    by (auto simp: ledger_ok_def AList.delete_eq distinct_fst_filter)
qed

lemma set_update_distinct:
  "distinct (map fst L) \<Longrightarrow> set (AList.update key v L) = insert (key, v) {x \<in> set L. fst x \<noteq> key}"
  by (induction L) (force split: if_splits)+

lemma ledger_ok_update:
  assumes "ledger_ok L k ops" "key \<noteq> []"
    "le_result v = None \<longrightarrow> (\<exists>j. le_operation v = Some j \<and> j \<in># ops \<and> k j = key)"
  shows "ledger_ok (AList.update key v L) k ops"
  using assms by (auto simp: ledger_ok_def set_update_distinct distinct_update)

lemma ledger_ok_lookup:
  assumes "ledger_ok L k ops" "map_of L key = Some e"
  shows "key \<noteq> []" "le_result e = None \<Longrightarrow> \<exists>j. le_operation e = Some j \<and> j \<in># ops \<and> k j = key"
proof -
  have "(key, e) \<in> set L" using assms(2) by (rule map_of_SomeD)
  then have "fst (key, e) \<noteq> [] \<and> (le_result (snd (key, e)) = None \<longrightarrow>
      (\<exists>j. le_operation (snd (key, e)) = Some j \<and> j \<in># ops \<and> k j = fst (key, e)))"
    using assms(1) unfolding ledger_ok_def by blast
  then show "key \<noteq> []" "le_result e = None \<Longrightarrow> \<exists>j. le_operation e = Some j \<and> j \<in># ops \<and> k j = key"
    by simp_all
qed

lemma evict_ledger_filter: "\<exists>P. evict_ledger L = filter P L"
proof (induction L rule: evict_ledger.induct)
  case (1 L)
  show ?case
  proof (cases "length L \<ge> maxLedgerEntries \<and> fst (oldest_entry L) \<noteq> []")
    case True
    then obtain P where "evict_ledger (AList.delete (fst (oldest_entry L)) L) = filter P (AList.delete (fst (oldest_entry L)) L)"
      using 1 by blast
    with True show ?thesis
      by (auto simp: evict_ledger.simps [of L] AList.delete_eq filter_filter)
  next
    case False
    then have "evict_ledger L = filter (\<lambda>_. True) L" by (auto simp: evict_ledger.simps [of L])
    then show ?thesis by (intro exI [of _ "\<lambda>_. True"])
  qed
qed

section \<open>The invariant\<close>

definition sched_inv :: "scheduler \<Rightarrow> bool" where
  "sched_inv s \<longleftrightarrow> distinct (map fst (s_slots s)) \<and> s_inUse s = int (size (flying s)) \<and> s_inUse s \<le> s_capacity s
     \<and> (\<forall>i. count (live s) i \<le> 1) \<and> (s_stopping s \<longrightarrow> queued s = {#})
     \<and> (\<not> s_stopping s \<longrightarrow> ledger_ok (s_ledger s) (op_key s) (live s))"

text \<open>Two states that differ only in what the invariant and the account do not look at.\<close>

definition same_core :: "scheduler \<Rightarrow> scheduler \<Rightarrow> bool" where
  "same_core s s' \<longleftrightarrow> s_slots s' = s_slots s \<and> s_relayQueue s' = s_relayQueue s
     \<and> s_relayInFlight s' = s_relayInFlight s \<and> s_inUse s' = s_inUse s \<and> s_capacity s' = s_capacity s
     \<and> s_stopping s' = s_stopping s \<and> s_stopAck s' = s_stopAck s
     \<and> (\<forall>i. op_waiters (s_ops s' i) = op_waiters (s_ops s i) \<and> op_options (s_ops s' i) = op_options (s_ops s i))"

lemma same_core_refl [simp]: "same_core s s"
  by (simp add: same_core_def)

lemma same_core_trans: "same_core s s' \<Longrightarrow> same_core s' s'' \<Longrightarrow> same_core s s''"
  by (simp add: same_core_def)

lemma same_core_live:
  assumes "same_core s s'"
  shows "queued s' = queued s" "flying s' = flying s" "live s' = live s" "pending s' = pending s"
    "op_key s' = op_key s" "s_inUse s' = s_inUse s" "s_capacity s' = s_capacity s" "s_stopping s' = s_stopping s"
    "s_slots s' = s_slots s" "chans s' = chans s"
  using assms by (auto simp: same_core_def queued_def flying_def live_def pending_def chans_def fun_eq_iff)

lemma same_core_prims [simp]:
  "same_core s (emit es s)" "same_core s (heap_remove i s)" "same_core s (heap_push i s)" "same_core s (drop_ledger k s)"
  "same_core s (reply i r e s)" "same_core s (replyWithReplay i r e b s)" "same_core s (replyReplayed i r e s)"
  "same_core s (replyNotStarted i s)" "same_core s (replyStale i s)" "same_core s (expire i s)" "same_core s (start i g s)"
  "same_core s (setOwnerMetrics s)" "same_core s (count_completed s)" "same_core s (count_latency d s)"
  "same_core s (settle_ledger k res s)" "same_core s (cancel_flight slot s)" "same_core s (pruneLedger now s)"
  "same_core s (s\<lparr>s_ledger := L\<rparr>)" "same_core s (s\<lparr>s_deadlines := h\<rparr>)" "same_core s (s\<lparr>s_knownActive := a\<rparr>)"
  "same_core s (update_ledger k g r' s)" "same_core s (replay_query k h' s)"
  by (auto simp: same_core_def emit_def heap_remove_def heap_push_def drop_ledger_def reply_def replyWithReplay_def
      replyReplayed_def replyNotStarted_def replyStale_def expire_def start_def setOwnerMetrics_def count_completed_def
      count_latency_def settle_ledger_def cancel_flight_def pruneLedger_def Let_def update_ledger_def replay_query_def
      split: option.splits)

lemma replied_simps [simp]:
  "replied (emit es s) = replied s + sum_list (map reply_chan es)"
  "replied (heap_remove i s) = replied s" "replied (heap_push i s) = replied s" "replied (drop_ledger k s) = replied s"
  "replied (setOwnerMetrics s) = replied s" "replied (count_completed s) = replied s"
  "replied (count_latency d s) = replied s" "replied (settle_ledger k res s) = replied s"
  "replied (set_slot p slot s) = replied s" "replied (pruneLedger now s) = replied s"
  "replied (start i g s) = replied s" "replied (cancel_flight slot s) = replied s"
  "replied (s\<lparr>s_ledger := L\<rparr>) = replied s" "replied (s\<lparr>s_deadlines := h\<rparr>) = replied s"
  "replied (s\<lparr>s_inUse := n\<rparr>) = replied s" "replied (s\<lparr>s_relayQueue := q\<rparr>) = replied s"
  "replied (s\<lparr>s_relayInFlight := q\<rparr>) = replied s" "replied (s\<lparr>s_ops := st\<rparr>) = replied s"
  "replied (s\<lparr>s_slots := sl\<rparr>) = replied s" "replied (s\<lparr>s_knownActive := a\<rparr>) = replied s"
  "replied (s\<lparr>s_metrics := mm\<rparr>) = replied s" "replied (s\<lparr>s_stopping := b\<rparr>) = replied s"
  "replied (s\<lparr>s_stopAck := b\<rparr>) = replied s" "replied (s\<lparr>s_done := b\<rparr>) = replied s"
  by (auto simp: replied_def emit_def heap_remove_def heap_push_def drop_ledger_def setOwnerMetrics_def
      count_completed_def count_latency_def settle_ledger_def set_slot_def pruneLedger_def start_def cancel_flight_def
      Let_def split: option.splits)

lemma replied_reply [simp]:
  "replied (replyWithReplay i r e b s) = replied s + chans s i"
  "replied (reply i r e s) = replied s + chans s i"
  "replied (replyReplayed i r e s) = replied s + chans s i"
  "replied (replyNotStarted i s) = replied s + chans s i"
  "replied (replyStale i s) = replied s + chans s i"
  "replied (expire i s) = replied s + chans s i"
proof -
  have sl: "sum_list (map (reply_chan \<circ> (\<lambda>w. EReply (fst w) r e (b \<or> snd w))) ws) = mset (map fst ws)"
    for ws :: "(nat \<times> bool) list" and r e b
    by (induction ws) auto
  show w: "replied (replyWithReplay i r e b s) = replied s + chans s i" for r e b s
    by (simp add: replyWithReplay_def chans_def sl)
  then show "replied (reply i r e s) = replied s + chans s i"
    "replied (replyReplayed i r e s) = replied s + chans s i"
    "replied (replyNotStarted i s) = replied s + chans s i"
    by (simp_all add: reply_def replyReplayed_def replyNotStarted_def)
  show "replied (replyStale i s) = replied s + chans s i" "replied (expire i s) = replied s + chans s i"
    by (simp_all add: replyStale_def expire_def replyNotStarted_def reply_def w chans_def drop_ledger_def)
qed

lemma s_ledger_simps [simp]:
  "s_ledger (emit es s) = s_ledger s" "s_ledger (heap_remove i s) = s_ledger s" "s_ledger (heap_push i s) = s_ledger s"
  "s_ledger (reply i r e s) = s_ledger s" "s_ledger (replyWithReplay i r e b s) = s_ledger s"
  "s_ledger (replyReplayed i r e s) = s_ledger s" "s_ledger (replyNotStarted i s) = s_ledger s"
  "s_ledger (start i g s) = s_ledger s" "s_ledger (setOwnerMetrics s) = s_ledger s"
  "s_ledger (count_completed s) = s_ledger s" "s_ledger (count_latency d s) = s_ledger s"
  "s_ledger (set_slot p slot s) = s_ledger s" "s_ledger (cancel_flight slot s) = s_ledger s"
  "s_ledger (drop_ledger k s) = (if k \<noteq> [] then AList.delete k (s_ledger s) else s_ledger s)"
  "s_ledger (replyStale i s) = (if op_key s i \<noteq> [] then AList.delete (op_key s i) (s_ledger s) else s_ledger s)"
  "s_ledger (expire i s) = (if op_key s i \<noteq> [] then AList.delete (op_key s i) (s_ledger s) else s_ledger s)"
  by (auto simp: emit_def heap_remove_def heap_push_def reply_def replyWithReplay_def replyReplayed_def
      replyNotStarted_def start_def setOwnerMetrics_def count_completed_def count_latency_def set_slot_def
      drop_ledger_def replyStale_def expire_def cancel_flight_def Let_def split: option.splits)

section \<open>Elementary moves\<close>

text \<open>\<open>keeps s s'\<close>: the invariant holds afterwards, no channel is lost or answered twice, and nothing new is
  live.\<close>

definition keeps :: "scheduler \<Rightarrow> scheduler \<Rightarrow> bool" where
  "keeps s s' \<longleftrightarrow> sched_inv s' \<and> account s' = account s \<and> set_mset (live s') \<subseteq> set_mset (live s)
     \<and> s_stopping s' = s_stopping s \<and> s_capacity s' = s_capacity s"

lemma keeps_refl: "sched_inv s \<Longrightarrow> keeps s s"
  by (simp add: keeps_def)

lemma keeps_trans: "keeps s s' \<Longrightarrow> keeps s' s'' \<Longrightarrow> keeps s s''"
  by (auto simp: keeps_def)

lemma keeps_inv: "keeps s s' \<Longrightarrow> sched_inv s'"
  by (simp add: keeps_def)

lemma keeps_same_core:
  assumes "sched_inv s" "same_core s s'" "replied s' = replied s"
    "\<not> s_stopping s \<Longrightarrow> ledger_ok (s_ledger s') (op_key s) (live s)"
  shows "keeps s s'"
  using assms same_core_live [OF assms(2)] by (auto simp: keeps_def sched_inv_def account_def)

text \<open>\<open>popped i s s'\<close>: operation \<open>i\<close> has been taken out of a queue.\<close>

definition popped :: "nat \<Rightarrow> scheduler \<Rightarrow> scheduler \<Rightarrow> bool" where
  "popped i s s' \<longleftrightarrow> queued s = add_mset i (queued s') \<and> flying s' = flying s \<and> s_ops s' = s_ops s
     \<and> s_ledger s' = s_ledger s \<and> replied s' = replied s \<and> s_inUse s' = s_inUse s \<and> s_capacity s' = s_capacity s
     \<and> s_stopping s' = s_stopping s \<and> distinct (map fst (s_slots s'))"

lemma sum_mset_live_add: "live s = add_mset i M \<Longrightarrow> pending s = chans s i + (\<Sum>j \<in># M. chans s j)"
  by (simp add: pending_def)

lemma keeps_pop_reply:
  assumes inv: "sched_inv s" and pop: "popped i s s'" and core: "same_core s' s''"
    and led: "s_ledger s'' = (if op_key s i \<noteq> [] then AList.delete (op_key s i) (s_ledger s) else s_ledger s)"
    and rep: "replied s'' = replied s + chans s i"
  shows "keeps s s''"
proof -
  note c = same_core_live [OF core]
  have q: "queued s = add_mset i (queued s')" and f: "flying s' = flying s" and o: "s_ops s' = s_ops s"
    and m: "s_inUse s' = s_inUse s" "s_capacity s' = s_capacity s" "s_stopping s' = s_stopping s"
      "distinct (map fst (s_slots s'))"
    using pop by (simp_all add: popped_def)
  have lv: "live s = add_mset i (live s')" using q f by (simp add: live_def)
  have key: "op_key s'' = op_key s" using c(5) o by simp
  have ns: "\<not> s_stopping s" using inv q by (auto simp: sched_inv_def)
  have "chans s'' = chans s" using c(10) o by (simp add: chans_def fun_eq_iff)
  then have "account s'' = account s"
    using sum_mset_live_add [OF lv] rep c(3) by (simp add: account_def pending_def)
  moreover have "ledger_ok (s_ledger s'') (op_key s) (live s')"
    using ledger_ok_pop [of "s_ledger s" "op_key s" i "live s'"] inv ns lv led by (simp add: sched_inv_def)
  moreover have "\<forall>j. count (live s') j \<le> 1"
  proof
    fix j
    have "count (live s) j \<le> 1" using inv by (simp add: sched_inv_def)
    then show "count (live s') j \<le> 1" by (simp add: lv split: if_splits)
  qed
  ultimately show ?thesis
    using inv ns c f key lv m by (simp add: keeps_def sched_inv_def subset_insertI)
qed

lemma keeps_replyStale: "sched_inv s \<Longrightarrow> popped i s s' \<Longrightarrow> keeps s (replyStale i (heap_remove i s'))"
  by (rule keeps_pop_reply [of s i s'])
    (auto intro: same_core_trans [of s' "heap_remove i s'"] simp: popped_def chans_def heap_remove_def)

lemma keeps_expire: "sched_inv s \<Longrightarrow> popped i s s' \<Longrightarrow> keeps s (expire i (heap_remove i s'))"
  by (rule keeps_pop_reply [of s i s'])
    (auto intro: same_core_trans [of s' "heap_remove i s'"] simp: popped_def chans_def heap_remove_def)

lemma keeps_expire_plain: "sched_inv s \<Longrightarrow> popped i s s' \<Longrightarrow> keeps s (expire i s')"
  by (rule keeps_pop_reply [of s i s']) (auto simp: popped_def chans_def)

text \<open>Starting a queued operation.\<close>

lemma keeps_start:
  assumes inv: "sched_inv s" and q: "queued s = add_mset i (queued s')" "flying s' = add_mset i (flying s)"
    and o: "s_ops s' = s_ops s" "s_ledger s' = s_ledger s" "replied s' = replied s" "s_inUse s' = s_inUse s + 1"
      "s_capacity s' = s_capacity s" "s_stopping s' = s_stopping s" "distinct (map fst (s_slots s'))"
    and cap: "s_inUse s < s_capacity s"
  shows "keeps s (start i g s')"
proof -
  have ns: "\<not> s_stopping s" using inv q by (auto simp: sched_inv_def)
  have core: "same_core s' (start i g s')" by simp
  note c = same_core_live [OF core]
  have lv: "live s' = live s" using q by (simp add: live_def)
  have "sched_inv s'"
    using inv q(2) o cap ns lv by (simp add: sched_inv_def)
  moreover have "pending s' = pending s" using lv o(1) by (simp add: pending_def chans_def)
  ultimately show ?thesis
    using c lv o ns by (simp add: keeps_def sched_inv_def account_def)
qed

text \<open>The queue and flight sums when one slot is replaced.\<close>

lemma queued_set_slot:
  "map_of (s_slots s) p = Some slot \<Longrightarrow>
     queued (set_slot p slot' s) + slot_queue slot = queued s + slot_queue slot'"
  using slot_sum_update_Some [of "s_slots s" p slot slot_queue slot']
  by (simp add: queued_def set_slot_def)

lemma flying_set_slot:
  "map_of (s_slots s) p = Some slot \<Longrightarrow> flying (set_slot p slot' s) + flight slot = flying s + flight slot'"
  using slot_sum_update_Some [of "s_slots s" p slot flight slot']
  by (simp add: flying_def set_slot_def)

lemma set_slot_fields [simp]:
  "s_ops (set_slot p x s) = s_ops s" "s_inUse (set_slot p x s) = s_inUse s"
  "s_capacity (set_slot p x s) = s_capacity s" "s_stopping (set_slot p x s) = s_stopping s"
  "s_relayQueue (set_slot p x s) = s_relayQueue s" "s_relayInFlight (set_slot p x s) = s_relayInFlight s"
  "s_deadlines (set_slot p x s) = s_deadlines s" "s_stopAck (set_slot p x s) = s_stopAck s"
  by (simp_all add: set_slot_def)

lemma distinct_set_slot: "distinct (map fst (s_slots s)) \<Longrightarrow> distinct (map fst (s_slots (set_slot p x s)))"
  by (simp add: set_slot_def distinct_update)

lemma queued_fields [simp]: "queued (s\<lparr>s_inUse := n\<rparr>) = queued s" "flying (s\<lparr>s_inUse := n\<rparr>) = flying s"
  by (simp_all add: queued_def flying_def)

lemma keeps_visit_pane:
  assumes "sched_inv s" "s_inUse s < s_capacity s"
  shows "keeps s (fst (visit_pane now p s))"
proof -
  have d: "distinct (map fst (s_slots s))" using assms(1) by (simp add: sched_inv_def)
  have pop: "popped i s (set_slot p (slot\<lparr>sl_Queue := q\<rparr>) s)"
    if "map_of (s_slots s) p = Some slot" "sl_Queue slot = i # q" for slot i q
    using queued_set_slot [OF that(1), of "slot\<lparr>sl_Queue := q\<rparr>"] flying_set_slot [OF that(1), of "slot\<lparr>sl_Queue := q\<rparr>"]
      that(2) d by (simp add: popped_def distinct_set_slot slot_queue_def flight_def)
  show ?thesis
  proof (cases rule: visit_pane_cases [of now p s])
    case idle
    then show ?thesis using assms(1) by (simp add: keeps_refl)
  next
    case (stale slot i q)
    then show ?thesis using keeps_replyStale [OF assms(1) pop] by simp
  next
    case (expired slot i q)
    then show ?thesis using keeps_expire [OF assms(1) pop] by simp
  next
    case (started slot i q)
    let ?s' = "(set_slot p (in_flight_slot now i q s slot) s)\<lparr>s_inUse := s_inUse s + 1\<rparr>"
    have "queued s = add_mset i (queued ?s')" "flying ?s' = add_mset i (flying s)"
      using queued_set_slot [OF started(1), of "in_flight_slot now i q s slot"]
        flying_set_slot [OF started(1), of "in_flight_slot now i q s slot"] started(2,3)
      by (simp_all add: slot_queue_def flight_def in_flight_slot_def)
    then have "keeps s (start i (sl_Generation slot) ?s')"
      using assms d by (intro keeps_start) (simp_all add: distinct_set_slot)
    then show ?thesis using started(6) by simp
  qed
qed

lemma keeps_capacity: "keeps s s' \<Longrightarrow> s_inUse s' \<le> s_capacity s'"
  by (simp add: keeps_def sched_inv_def)

lemma keeps_pane_pass: "sched_inv s \<Longrightarrow> keeps s (fst (pane_pass now ps s pr))"
proof (induction ps arbitrary: s pr)
  case Nil
  then show ?case by (simp add: keeps_refl)
next
  case (Cons p ps)
  show ?case
  proof (cases "s_inUse s \<ge> s_capacity s")
    case True
    with Cons.prems show ?thesis by (simp add: keeps_refl)
  next
    case False
    obtain s1 pr1 where v: "visit_pane now p s = (s1, pr1)" by fastforce
    have k: "keeps s s1" using keeps_visit_pane [of s now p] Cons.prems False v by simp
    from keeps_trans [OF k Cons.IH [OF keeps_inv [OF k]]] False v show ?thesis by simp
  qed
qed

lemma keeps_pane_rounds: "sched_inv s \<Longrightarrow> keeps s (pane_rounds now ps s)"
proof (induction now ps s rule: pane_rounds.induct)
  case (1 now ps s)
  obtain s1 pr where p: "pane_pass now ps s False = (s1, pr)" by fastforce
  have k: "keeps s s1" using keeps_pane_pass [OF 1(2), of now ps False] p by simp
  show ?case
  proof (cases "s_inUse s < s_capacity s \<and> \<not> s_stopping s")
    case False
    then have "pane_rounds now ps s = s" by (subst pane_rounds.simps) auto
    with 1(2) show ?thesis by (simp add: keeps_refl)
  next
    case True
    then have "pane_rounds now ps s = (if pr then pane_rounds now ps s1 else s1)"
      using p by (subst pane_rounds.simps) simp
    moreover have "keeps s (pane_rounds now ps s1)" if pr
      using 1(1) [OF True p [symmetric] refl that] k keeps_trans keeps_inv by blast
    ultimately show ?thesis using k by simp
  qed
qed

lemma relayQueue_id: "s_relayQueue s = q \<Longrightarrow> s\<lparr>s_relayQueue := q\<rparr> = s" for s :: scheduler
  by auto

lemma keeps_relay_loop:
  "sched_inv s \<Longrightarrow> s_relayQueue s = q \<Longrightarrow> keeps s (relay_loop now q s)"
proof (induction q arbitrary: s)
  case Nil
  then show ?case by (simp add: relayQueue_id keeps_refl)
next
  case (Cons i q)
  let ?s1 = "s\<lparr>s_relayQueue := q\<rparr>"
  have d: "distinct (map fst (s_slots s))" using Cons.prems by (simp add: sched_inv_def)
  have q: "queued s = add_mset i (queued ?s1)" "flying ?s1 = flying s"
    using Cons.prems(2) by (simp_all add: queued_def flying_def)
  have rq: "s_relayQueue (expire i (heap_remove i ?s1)) = q"
    "s_relayQueue (start i 0 (?s1\<lparr>s_inUse := s_inUse s + 1, s_relayInFlight := s_relayInFlight s @ [i]\<rparr>)) = q"
    by (simp_all add: expire_def heap_remove_def replyNotStarted_def reply_def replyWithReplay_def emit_def
        drop_ledger_def start_def)
  show ?case
  proof (cases "s_inUse s < s_capacity s \<and> \<not> s_stopping s")
    case False
    with Cons.prems show ?thesis by (auto simp: relayQueue_id keeps_refl)
  next
    case True
    show ?thesis
    proof (cases "now < op_deadline s i")
      case False
      have "popped i s ?s1" using q d by (simp add: popped_def)
      with Cons.prems(1) have k: "keeps s (expire i (heap_remove i ?s1))" by (rule keeps_expire)
      with keeps_trans [OF k Cons.IH [OF keeps_inv [OF k] rq(1)]] True False show ?thesis by simp
    next
      case t: True
      let ?s2 = "?s1\<lparr>s_inUse := s_inUse s + 1, s_relayInFlight := s_relayInFlight s @ [i]\<rparr>"
      have "queued s = add_mset i (queued ?s2)" "flying ?s2 = add_mset i (flying s)"
        using Cons.prems(2) by (simp_all add: queued_def flying_def)
      then have k: "keeps s (start i 0 ?s2)"
        using Cons.prems(1) True d by (intro keeps_start) simp_all
      with keeps_trans [OF k Cons.IH [OF keeps_inv [OF k] rq(2)]] True t show ?thesis by simp
    qed
  qed
qed

lemma keeps_metrics: "sched_inv s \<Longrightarrow> keeps s (setOwnerMetrics s)"
  by (rule keeps_same_core) (auto simp: sched_inv_def)

lemma keeps_dispatch: "sched_inv s \<Longrightarrow> keeps s (dispatch now s)"
proof -
  assume inv: "sched_inv s"
  let ?s1 = "relay_loop now (s_relayQueue s) s"
  let ?s2 = "pane_rounds now (sort (map fst (s_slots ?s1))) ?s1"
  have k1: "keeps s ?s1" using inv by (simp add: keeps_relay_loop)
  have k2: "keeps ?s1 ?s2" by (rule keeps_pane_rounds) (rule keeps_inv [OF k1])
  have k3: "keeps ?s2 (setOwnerMetrics ?s2)" by (rule keeps_metrics) (rule keeps_inv [OF k2])
  show ?thesis
    using keeps_trans [OF k1 keeps_trans [OF k2 k3]] by (simp add: dispatch_def Let_def)
qed

section \<open>Completion\<close>

lemma ledger_ok_others:
  assumes "ledger_ok L k (add_mset i ops)" "x \<in> set L" "fst x \<noteq> k i" "le_result (snd x) = None"
  shows "\<exists>j. le_operation (snd x) = Some j \<and> j \<in># ops \<and> k j = fst x"
  using assms unfolding ledger_ok_def by fastforce

lemma ledger_ok_settle:
  assumes ok: "ledger_ok (s_ledger s) k (add_mset i ops)" and key: "k i = key"
  shows "ledger_ok (s_ledger (settle_ledger key res s)) k ops"
proof -
  have pop: "ledger_ok (if key \<noteq> [] then AList.delete key (s_ledger s) else s_ledger s) k ops"
    using ledger_ok_pop [OF ok] by (simp only: key)
  show ?thesis
  proof (cases "map_of (s_ledger s) key")
    case None
    then have "AList.delete key (s_ledger s) = s_ledger s"
      by (simp add: map_of_eq_None_iff delete_id)
    with None pop show ?thesis by (simp add: settle_ledger_def split: if_splits)
  next
    case (Some entry)
    then have ne: "key \<noteq> []" using ledger_ok_lookup(1) [OF ok] by simp
    have upd: "ledger_ok (AList.update key (entry\<lparr>le_result := Some r, le_operation := None\<rparr>) (s_ledger s)) k ops" for r
    proof -
      have "ledger_ok (AList.update key v (s_ledger s)) k ops" if "le_result v \<noteq> None" for v
        using ok ne that ledger_ok_others [OF ok] key
        by (auto simp: ledger_ok_def [of _ _ ops] ledger_ok_def [of "s_ledger s" _ "add_mset i ops"]
            set_update_distinct distinct_update)
      then show ?thesis by simp
    qed
    show ?thesis
      using pop ne upd Some by (simp add: settle_ledger_def split: option.splits)
  qed
qed

definition landed :: "nat \<Rightarrow> scheduler \<Rightarrow> scheduler \<Rightarrow> bool" where
  "landed i s s' \<longleftrightarrow> flying s = add_mset i (flying s') \<and> queued s' = queued s \<and> s_ops s' = s_ops s
     \<and> replied s' = replied s \<and> s_inUse s' = s_inUse s \<and> s_capacity s' = s_capacity s
     \<and> s_stopping s' = s_stopping s \<and> distinct (map fst (s_slots s'))
     \<and> (\<not> s_stopping s \<longrightarrow> ledger_ok (s_ledger s') (op_key s) (live s))"

lemma keeps_landed:
  assumes inv: "sched_inv s" and land: "landed i s s'" and core: "same_core (s'\<lparr>s_inUse := s_inUse s' - 1\<rparr>) s''"
    and led: "\<not> s_stopping s \<Longrightarrow> ledger_ok (s_ledger s'') (op_key s) (live s')"
    and rep: "replied s'' = replied s + chans s i"
  shows "keeps s s''"
proof -
  note c = same_core_live [OF core]
  have lv: "live s = add_mset i (live s')" using land by (simp add: landed_def live_def)
  have l': "live (s'\<lparr>s_inUse := n\<rparr>) = live s'" for n by (simp add: live_def)
  have "chans s'' = chans s" using c(10) land by (simp add: landed_def chans_def fun_eq_iff)
  then have "account s'' = account s"
    using sum_mset_live_add [OF lv] rep c(3) l' by (simp add: account_def pending_def)
  moreover have "\<forall>j. count (live s') j \<le> 1"
  proof
    fix j
    have "count (live s) j \<le> 1" using inv by (simp add: sched_inv_def)
    then show "count (live s') j \<le> 1" by (simp add: lv split: if_splits)
  qed
  ultimately show ?thesis
    using inv land led c l' lv by (auto simp: keeps_def sched_inv_def landed_def)
qed

lemma keeps_finish_op:
  assumes "sched_inv s" "landed i s s'"
  shows "keeps s (finish_op i res now nowD s')"
proof -
  let ?s1 = "heap_remove i (s'\<lparr>s_inUse := s_inUse s' - 1\<rparr>)"
  let ?s2 = "settle_ledger (op_key s' i) (er_Result res) ?s1"
  let ?s3 = "setOwnerMetrics (count_latency (time_sub now (so_ReceivedAt (op_options (s_ops s' i)))) (count_completed ?s2))"
  let ?s4 = "reply i (er_Result res) None ?s3"
  have ops: "s_ops s' = s_ops s" using assms(2) by (simp add: landed_def)
  have lv: "live s = add_mset i (live s')" using assms(2) by (simp add: landed_def live_def)
  have core: "same_core (s'\<lparr>s_inUse := s_inUse s' - 1\<rparr>) ?s3"
    by (meson same_core_prims same_core_trans)
  have "ledger_ok (s_ledger ?s4) (op_key s) (live s')" if "\<not> s_stopping s"
    using assms(2) that ledger_ok_settle [of ?s1 "op_key s" i "live s'" "op_key s i" "er_Result res"] lv ops
    by (simp add: landed_def)
  moreover have "chans ?s3 i = chans s i"
    using same_core_live(10) [OF core] ops by (simp add: chans_def fun_eq_iff)
  ultimately have "keeps s ?s4"
    using assms core by (intro keeps_landed [of s i s']) (auto intro: same_core_trans simp: landed_def)
  from keeps_trans [OF this keeps_dispatch [OF keeps_inv [OF this]]] show ?thesis
    by (simp add: finish_op_def Let_def)
qed

lemma keeps_finish_stale:
  assumes "sched_inv s" "landed i s s'"
  shows "keeps s (finish_stale i nowD s')"
proof -
  let ?s3 = "setOwnerMetrics (count_completed (heap_remove i (s'\<lparr>s_inUse := s_inUse s' - 1\<rparr>)))"
  let ?s4 = "replyStale i ?s3"
  have ops: "s_ops s' = s_ops s" using assms(2) by (simp add: landed_def)
  have lv: "live s = add_mset i (live s')" using assms(2) by (simp add: landed_def live_def)
  have core: "same_core (s'\<lparr>s_inUse := s_inUse s' - 1\<rparr>) ?s3"
    by (meson same_core_prims same_core_trans)
  have key: "op_key ?s3 i = op_key s i" using same_core_live(5) [OF core] ops by (simp add: fun_eq_iff)
  have "ledger_ok (s_ledger ?s4) (op_key s) (live s')" if "\<not> s_stopping s"
    using assms(2) that ledger_ok_pop [of "s_ledger s'" "op_key s" i "live s'"] lv key
    by (simp add: landed_def split: if_splits)
  moreover have "chans ?s3 i = chans s i"
    using same_core_live(10) [OF core] ops by (simp add: chans_def fun_eq_iff)
  ultimately have "keeps s ?s4"
    using assms core by (intro keeps_landed [of s i s']) (auto intro: same_core_trans simp: landed_def)
  from keeps_trans [OF this keeps_dispatch [OF keeps_inv [OF this]]] show ?thesis
    by (simp add: finish_stale_def)
qed

lemma landed_slot:
  assumes inv: "sched_inv s" and slot: "map_of (s_slots s) p = Some slot" "sl_InFlight slot = Some f" "if_OperationID f = i"
    and s': "s_slots s' = AList.update p (slot\<lparr>sl_Generation := g, sl_InFlight := None\<rparr>) (s_slots s)
       \<or> sl_Queue slot = [] \<and> s_slots s' = AList.delete p (AList.update p (slot\<lparr>sl_Generation := g, sl_InFlight := None\<rparr>) (s_slots s))"
    and rest: "s_relayQueue s' = s_relayQueue s" "s_relayInFlight s' = s_relayInFlight s" "s_ops s' = s_ops s"
      "s_log s' = s_log s" "s_inUse s' = s_inUse s" "s_capacity s' = s_capacity s" "s_stopping s' = s_stopping s"
    and led: "\<exists>P. s_ledger s' = filter P (s_ledger s)"
  shows "landed i s s'"
proof -
  let ?new = "slot\<lparr>sl_Generation := g, sl_InFlight := None\<rparr>"
  let ?up = "AList.update p ?new (s_slots s)"
  have d: "distinct (map fst (s_slots s))" using inv by (simp add: sched_inv_def)
  have dup: "distinct (map fst ?up)" using d by (simp add: distinct_update)
  have mo: "map_of ?up p = Some ?new" by (simp add: update_conv)
  have del: "slot_sum h (AList.delete p ?up) + h ?new = slot_sum h ?up" for h
    by (rule slot_sum_delete [OF dup mo])
  have fl: "slot_sum flight (s_slots s') + {#i#} = slot_sum flight (s_slots s)"
    using s' slot_sum_update_Some [OF slot(1), of flight ?new] del [of flight] slot(2,3) by (auto simp: flight_def)
  have q: "slot_sum slot_queue (s_slots s') = slot_sum slot_queue (s_slots s)"
    using s' slot_sum_update_Some [OF slot(1), of slot_queue ?new] del [of slot_queue] by (auto simp: slot_queue_def)
  have "distinct (map fst (s_slots s'))"
    using s' dup by (auto simp: distinct_delete)
  moreover have "\<not> s_stopping s \<Longrightarrow> ledger_ok (s_ledger s') (op_key s) (live s)"
    using led inv by (auto simp: sched_inv_def intro: ledger_ok_filter)
  ultimately show ?thesis
    using fl q rest by (auto simp: landed_def flying_def queued_def replied_def)
qed

lemma keeps_complete:
  assumes inv: "sched_inv s"
  shows "keeps s (completeAndRedispatch i res gc now nowD s)"
proof (cases "so_RelayLevel (op_options (s_ops s i))")
  case True
  show ?thesis
  proof (cases "i \<in> set (s_relayInFlight s)")
    case False
    with True inv show ?thesis by (simp add: completeAndRedispatch_def Let_def keeps_refl)
  next
    case in_relay: True
    let ?s' = "s\<lparr>s_relayInFlight := remove1 i (s_relayInFlight s)\<rparr>"
    have "landed i s ?s'"
      using inv in_relay by (auto simp: landed_def flying_def queued_def sched_inv_def replied_def)
    with keeps_finish_op [OF inv] True in_relay show ?thesis
      by (simp add: completeAndRedispatch_def Let_def)
  qed
next
  case False
  show ?thesis
  proof (cases "\<exists>slot f. map_of (s_slots s) (op_pane s i) = Some slot \<and> sl_InFlight slot = Some f \<and> if_OperationID f = i")
    case none: False
    then have "completeAndRedispatch i res gc now nowD s = s"
      using False by (auto simp: completeAndRedispatch_def Let_def split: option.splits)
    with inv show ?thesis by (simp add: keeps_refl)
  next
    case True
    then obtain slot f where sl: "map_of (s_slots s) (op_pane s i) = Some slot" "sl_InFlight slot = Some f"
      "if_OperationID f = i" by blast
    define p where "p = op_pane s i"
    define stale where "stale = (if_Generation f \<noteq> sl_Generation slot \<or>
        (case gc of None \<Rightarrow> False | Some g \<Rightarrow> \<not> g p (if_Generation f)))"
    define bump where "bump = (er_BumpGeneration res \<and> \<not> stale)"
    define gen where "gen = (if bump then sl_Generation slot + 1 else sl_Generation slot)"
    define s1 where "s1 = (if bump
        then s\<lparr>s_ledger := filter (\<lambda>x. \<not> (fst x \<noteq> op_key s i \<and> le_paneID (snd x) = p \<and> le_generation (snd x) < gen)) (s_ledger s)\<rparr>
        else s)"
    define s2 where "s2 = set_slot p (slot\<lparr>sl_Generation := gen, sl_InFlight := None\<rparr>) s1"
    define closed where "closed = (case er_Result res of Some r \<Rightarrow> cr_Phase r = ''closed'' | None \<Rightarrow> False)"
    define s3 where "s3 = (if sl_Queue slot = [] \<and> bump \<and> closed then s2\<lparr>s_slots := AList.delete p (s_slots s2)\<rparr> else s2)"
    have eq: "completeAndRedispatch i res gc now nowD s =
        (if stale then finish_stale i nowD s3 else finish_op i res now nowD s3)"
      unfolding s3_def closed_def s2_def s1_def gen_def bump_def stale_def p_def completeAndRedispatch_def Let_def
      by (simp only: False sl if_False option.case simp_thms)
    have s1f: "s_slots s1 = s_slots s" "s_relayQueue s1 = s_relayQueue s" "s_relayInFlight s1 = s_relayInFlight s"
      "s_ops s1 = s_ops s" "s_log s1 = s_log s" "s_inUse s1 = s_inUse s" "s_capacity s1 = s_capacity s"
      "s_stopping s1 = s_stopping s" by (simp_all add: s1_def)
    have "s_slots s3 = AList.update p (slot\<lparr>sl_Generation := gen, sl_InFlight := None\<rparr>) (s_slots s)
       \<or> sl_Queue slot = [] \<and> s_slots s3 = AList.delete p (AList.update p (slot\<lparr>sl_Generation := gen, sl_InFlight := None\<rparr>) (s_slots s))"
      by (simp add: s3_def s2_def set_slot_def s1f)
    moreover have "\<exists>P. s_ledger s3 = filter P (s_ledger s)"
    proof (cases bump)
      case True
      then show ?thesis
        by (intro exI [of _ "\<lambda>x. \<not> (fst x \<noteq> op_key s i \<and> le_paneID (snd x) = p \<and> le_generation (snd x) < gen)"])
          (simp add: s3_def s2_def s1_def)
    next
      case False
      then have "s_ledger s3 = filter (\<lambda>_. True) (s_ledger s)" by (simp add: s3_def s2_def s1_def)
      then show ?thesis by (intro exI [of _ "\<lambda>_. True"])
    qed
    ultimately have "landed i s s3"
      using landed_slot [OF inv sl [folded p_def], of s3 gen] s1f by (simp add: s3_def s2_def set_slot_def)
    with eq keeps_finish_op [OF inv] keeps_finish_stale [OF inv] show ?thesis by simp
  qed
qed

section \<open>Generations\<close>

lemma stale_queue_Cons: "stale_queue (i # q) s = stale_queue q (replyStale i (heap_remove i s))"
  by (simp add: stale_queue_def)

lemma stale_queue_core: "same_core s (stale_queue q s)"
proof (induction q arbitrary: s)
  case Nil
  then show ?case by (simp add: stale_queue_def)
next
  case (Cons i q)
  have "same_core s (replyStale i (heap_remove i s))" by (meson same_core_prims same_core_trans)
  from same_core_trans [OF this Cons.IH] show ?case by (simp add: stale_queue_Cons)
qed

lemma stale_queue_replied: "replied (stale_queue q s) = replied s + (\<Sum>i \<in># mset q. chans s i)"
proof (induction q arbitrary: s)
  case Nil
  then show ?case by (simp add: stale_queue_def)
next
  case (Cons i q)
  let ?s1 = "replyStale i (heap_remove i s)"
  have c: "same_core s ?s1" by (meson same_core_prims same_core_trans)
  have h: "chans (heap_remove i s) i = chans s i" by (simp add: chans_def heap_remove_def)
  show ?case using Cons.IH [of ?s1] same_core_live(10) [OF c] h by (simp add: stale_queue_Cons)
qed

lemma stale_queue_ledger:
  "ledger_ok (s_ledger s) (op_key s) (mset q + ops) \<Longrightarrow> ledger_ok (s_ledger (stale_queue q s)) (op_key s) ops"
proof (induction q arbitrary: s)
  case Nil
  then show ?case by (simp add: stale_queue_def)
next
  case (Cons i q)
  let ?s1 = "replyStale i (heap_remove i s)"
  have k: "op_key ?s1 = op_key s"
    using same_core_live(5) [of s ?s1] by (meson same_core_prims same_core_trans)
  have k0: "op_key (heap_remove i s) = op_key s" by (simp add: heap_remove_def fun_eq_iff)
  have "ledger_ok (s_ledger ?s1) (op_key s) (mset q + ops)"
    using ledger_ok_pop [of "s_ledger s" "op_key s" i "mset q + ops"] Cons.prems fun_cong [OF k0, of i]
    by (simp split: if_splits)
  with Cons.IH [of ?s1] k show ?case by (simp add: stale_queue_def)
qed

lemma cancel_flight_simps [simp]:
  "s_ledger (cancel_flight slot s) = s_ledger s" "replied (cancel_flight slot s) = replied s"
  by simp_all

text \<open>The same with one more operation \<open>X\<close> that the ledger may already name (on admission the entry is
  made before the operation is queued).\<close>

definition inv_with :: "nat multiset \<Rightarrow> scheduler \<Rightarrow> bool" where
  "inv_with X s \<longleftrightarrow> distinct (map fst (s_slots s)) \<and> s_inUse s = int (size (flying s)) \<and> s_inUse s \<le> s_capacity s
     \<and> (\<forall>i. count (live s + X) i \<le> 1) \<and> (s_stopping s \<longrightarrow> queued s = {#})
     \<and> (\<not> s_stopping s \<longrightarrow> ledger_ok (s_ledger s) (op_key s) (live s + X))"

definition keeps_with :: "nat multiset \<Rightarrow> scheduler \<Rightarrow> scheduler \<Rightarrow> bool" where
  "keeps_with X s s' \<longleftrightarrow> inv_with X s' \<and> account s' = account s \<and> set_mset (live s') \<subseteq> set_mset (live s)
     \<and> s_stopping s' = s_stopping s \<and> s_capacity s' = s_capacity s \<and> (\<forall>i. op_waiters (s_ops s' i) = op_waiters (s_ops s i)
     \<and> op_options (s_ops s' i) = op_options (s_ops s i))"

lemma inv_with_empty: "inv_with {#} = sched_inv"
  by (simp add: fun_eq_iff inv_with_def sched_inv_def)

lemma keeps_with_empty: "keeps_with {#} s s' \<Longrightarrow> keeps s s'"
  by (simp add: keeps_with_def keeps_def inv_with_empty)

lemma keeps_with_refl: "inv_with X s \<Longrightarrow> keeps_with X s s"
  by (simp add: keeps_with_def)

lemma keeps_with_trans: "keeps_with X s s' \<Longrightarrow> keeps_with X s' s'' \<Longrightarrow> keeps_with X s s''"
  by (auto simp: keeps_with_def)

lemma keeps_with_core:
  assumes "inv_with X s" "same_core s s'" "replied s' = replied s"
    "\<not> s_stopping s \<Longrightarrow> ledger_ok (s_ledger s') (op_key s) (live s + X)"
  shows "keeps_with X s s'"
  using assms same_core_live [OF assms(2)]
  by (auto simp: keeps_with_def inv_with_def account_def same_core_def)

lemma keeps_with_advance_slot:
  assumes inv: "inv_with X s"
  shows "keeps_with X s (advance_slot p g keep s)"
proof (cases "map_of (s_slots s) p")
  case None
  with inv show ?thesis by (simp add: advance_slot_def keeps_with_refl)
next
  case (Some slot)
  let ?s0 = "set_slot p (slot\<lparr>sl_Generation := g\<rparr>) s"
  let ?s1 = "cancel_flight slot ?s0"
  let ?s2 = "stale_queue (sl_Queue slot) ?s1"
  let ?s3 = "set_slot p (slot\<lparr>sl_Generation := g, sl_Queue := []\<rparr>) ?s2"
  let ?P = "\<lambda>x. \<not> (Some (fst x) \<noteq> keep \<and> le_paneID (snd x) = p \<and> le_generation (snd x) < g)"
  let ?s4 = "?s3\<lparr>s_ledger := filter ?P (s_ledger ?s3)\<rparr>"
  have eq: "advance_slot p g keep s = ?s4" using Some by (simp add: advance_slot_def Let_def)
  have d: "distinct (map fst (s_slots s))" using inv by (simp add: inv_with_def)
  have core: "same_core ?s0 ?s2" by (meson same_core_prims same_core_trans stale_queue_core)
  note c = same_core_live [OF core]
  have m2: "map_of (s_slots ?s2) p = Some (slot\<lparr>sl_Generation := g\<rparr>)"
    using c(9) by (simp add: set_slot_def update_conv)
  have q: "queued s = mset (sl_Queue slot) + queued ?s3" "flying ?s3 = flying s"
    using queued_set_slot [OF Some, of "slot\<lparr>sl_Generation := g\<rparr>"]
      queued_set_slot [OF m2, of "slot\<lparr>sl_Generation := g, sl_Queue := []\<rparr>"]
      flying_set_slot [OF Some, of "slot\<lparr>sl_Generation := g\<rparr>"]
      flying_set_slot [OF m2, of "slot\<lparr>sl_Generation := g, sl_Queue := []\<rparr>"] c(1,2)
    by (simp_all add: slot_queue_def flight_def add.commute)
  have lv: "live s = mset (sl_Queue slot) + live ?s3" using q by (simp add: live_def)
  have ch: "chans ?s3 = chans s" using c(10) by (simp add: chans_def fun_eq_iff)
  have key: "op_key ?s3 = op_key s" using c(5) by (simp add: fun_eq_iff)
  have key1: "op_key ?s1 = op_key s" using same_core_live(5) [of ?s0 ?s1] by (simp add: fun_eq_iff)
  have ch1: "chans ?s1 = chans s" using same_core_live(10) [of ?s0 ?s1] by (simp add: chans_def fun_eq_iff)
  have "replied ?s4 = replied s + (\<Sum>i \<in># mset (sl_Queue slot). chans s i)"
    using stale_queue_replied [of "sl_Queue slot" ?s1] ch1 by simp
  moreover have l34: "live ?s4 = live ?s3" "chans ?s4 = chans ?s3"
    using same_core_live(3,10) [of ?s3 ?s4] by simp_all
  moreover have "pending s = (\<Sum>i \<in># mset (sl_Queue slot). chans s i) + (\<Sum>i \<in># live ?s3. chans s i)"
    unfolding pending_def lv by simp
  ultimately have acc: "account s = account ?s4"
    using ch by (simp add: account_def pending_def)
  have "ledger_ok (s_ledger ?s2) (op_key s) (live ?s3 + X)" if "\<not> s_stopping s"
    using stale_queue_ledger [of ?s1 "sl_Queue slot" "live ?s3 + X"] inv that lv key1
    by (simp add: inv_with_def add.assoc)
  then have led: "ledger_ok (s_ledger ?s4) (op_key s) (live ?s3 + X)" if "\<not> s_stopping s"
    using that by (simp add: ledger_ok_filter)
  have "queued ?s4 = queued ?s3" by (rule same_core_live(1)) simp
  then have qe: "s_stopping s \<Longrightarrow> queued ?s4 = {#}"
    using inv q(1) by (metis (no_types, lifting) inv_with_def union_eq_empty)
  have cnt: "\<forall>j. count (live ?s3 + X) j \<le> 1"
  proof
    fix j
    have "count (live s + X) j \<le> 1" using inv by (simp add: inv_with_def)
    then show "count (live ?s3 + X) j \<le> 1" by (simp add: lv)
  qed
  have dist: "distinct (map fst (s_slots ?s3))"
    using d c(9) by (intro distinct_set_slot) (simp add: distinct_set_slot)
  have m: "s_inUse ?s4 = s_inUse s" "s_capacity ?s4 = s_capacity s" "s_stopping ?s4 = s_stopping s"
    "flying ?s4 = flying s" "op_key ?s4 = op_key s" "s_slots ?s4 = s_slots ?s3"
    using c(6-8) q(2) key same_core_live(2,5) [of ?s3 ?s4] by (simp_all add: fun_eq_iff)
  have o: "op_waiters (s_ops ?s4 i) = op_waiters (s_ops s i) \<and> op_options (s_ops ?s4 i) = op_options (s_ops s i)" for i
    using core by (simp add: same_core_def)
  have "keeps_with X s ?s4"
    using inv acc led cnt dist m l34(1) lv qe o by (simp add: keeps_with_def inv_with_def)
  with eq show ?thesis by simp
qed

lemma keeps_advance_slot: "sched_inv s \<Longrightarrow> keeps s (advance_slot p g keep s)"
  using keeps_with_advance_slot [of "{#}" s] keeps_with_empty by (simp add: inv_with_empty)

lemma queued_new_slot:
  assumes "map_of (s_slots s) p = None"
  shows "queued (set_slot p empty_slot s) = queued s" "flying (set_slot p empty_slot s) = flying s"
  using slot_sum_update_None [OF assms, of slot_queue empty_slot] slot_sum_update_None [OF assms, of flight empty_slot]
  by (simp_all add: queued_def flying_def set_slot_def slot_queue_def flight_def empty_slot_def)

lemma keeps_new_slot:
  assumes "sched_inv s" "map_of (s_slots s) p = None"
  shows "keeps s (set_slot p empty_slot s)"
  using assms queued_new_slot [OF assms(2)]
  by (simp add: keeps_def sched_inv_def account_def pending_def live_def chans_def distinct_set_slot)

lemma keeps_topology_generation:
  assumes "sched_inv s"
  shows "keeps s (topology_generation s pg)"
proof -
  obtain p g where pg: "pg = (p, g)" by fastforce
  let ?s1 = "if map_of (s_slots s) p = None then set_slot p empty_slot s else s"
  have k: "keeps s ?s1" using assms by (simp add: keeps_refl keeps_new_slot)
  with keeps_trans [OF k keeps_advance_slot [OF keeps_inv [OF k]]] pg show ?thesis
    by (auto simp: topology_generation_def Let_def split: option.splits)
qed

lemma keeps_foldl:
  assumes "\<And>s x. sched_inv s \<Longrightarrow> keeps s (f s x)" "sched_inv s"
  shows "keeps s (foldl f s xs)"
  using assms(2)
proof (induction xs arbitrary: s)
  case Nil
  then show ?case by (simp add: keeps_refl)
next
  case (Cons x xs)
  have k: "keeps s (f s x)" using Cons.prems by (rule assms(1))
  from keeps_trans [OF k Cons.IH [OF keeps_inv [OF k]]] show ?case by simp
qed

lemma keeps_applyTopology:
  assumes "sched_inv s"
  shows "keeps s (applyTopology active gens nowD s)"
proof -
  let ?s1 = "foldl (topology_absent active) s (s_knownActive s)"
  let ?s2 = "foldl topology_generation ?s1 gens"
  let ?s3 = "?s2\<lparr>s_knownActive := active\<rparr>"
  have k1: "keeps s ?s1"
    using assms by (intro keeps_foldl)
      (auto simp: topology_absent_def keeps_refl intro: keeps_advance_slot split: option.splits)
  have k2: "keeps ?s1 ?s2"
    using keeps_inv [OF k1] by (intro keeps_foldl keeps_topology_generation)
  have k3: "keeps ?s2 ?s3"
    using keeps_inv [OF k2] by (intro keeps_same_core) (simp_all add: sched_inv_def)
  have k4: "keeps ?s3 (dispatch nowD ?s3)" by (rule keeps_dispatch) (rule keeps_inv [OF k3])
  from keeps_trans [OF k1 keeps_trans [OF k2 keeps_trans [OF k3 k4]]] show ?thesis
    by (simp add: applyTopology_def Let_def)
qed

section \<open>Deadlines and shutdown\<close>

lemma update_same: "map_of al k = Some v \<Longrightarrow> AList.update k v al = al"
  by (induction al) (auto split: if_splits)

lemma removeQueued_cases:
  assumes "sched_inv s" "removeQueued i s = (s1, removed)"
  shows "if removed then popped i s s1 else s1 = s"
proof -
  have d: "distinct (map fst (s_slots s))" using assms(1) by (simp add: sched_inv_def)
  show ?thesis
  proof (cases "so_RelayLevel (op_options (s_ops s i))")
    case True
    with assms(2) have "s1 = s\<lparr>s_relayQueue := remove1 i (s_relayQueue s)\<rparr>" "removed = (i \<in> set (s_relayQueue s))"
      by (auto simp: removeQueued_def removeOperation_def)
    then show ?thesis
      using d by (auto simp: popped_def queued_def flying_def remove1_idem relayQueue_id replied_def)
  next
    case False
    show ?thesis
    proof (cases "removed \<or> s1 \<noteq> s")
      case True
      then obtain slot where sl: "map_of (s_slots s) (op_pane s i) = Some slot"
        "s1 = set_slot (op_pane s i) (slot\<lparr>sl_Queue := remove1 i (sl_Queue slot)\<rparr>) s"
        "removed = (i \<in> set (sl_Queue slot))"
        using assms(2) False by (auto simp: removeQueued_def removeOperation_def split: option.splits if_splits)
      have "i \<in> set (sl_Queue slot)"
      proof (rule ccontr)
        assume n: "i \<notin> set (sl_Queue slot)"
        then have "slot\<lparr>sl_Queue := remove1 i (sl_Queue slot)\<rparr> = slot" by (simp add: remove1_idem)
        then have "s1 = s" using sl(1,2) by (simp add: set_slot_def update_same)
        with True n sl(3) show False by simp
      qed
      then have mem: "mset (sl_Queue slot) = add_mset i (mset (remove1 i (sl_Queue slot)))" "removed"
        using sl(3) by simp_all
      have "queued s1 + mset (sl_Queue slot) = queued s + mset (remove1 i (sl_Queue slot))"
        using queued_set_slot [OF sl(1), of "slot\<lparr>sl_Queue := remove1 i (sl_Queue slot)\<rparr>"] sl(2)
        by (simp only: slot_queue_def) (simp del: mset_remove1)
      then have "queued s = add_mset i (queued s1)"
        unfolding mem(1) by (simp del: mset_remove1)
      with mem(2) show ?thesis
        using flying_set_slot [OF sl(1), of "slot\<lparr>sl_Queue := remove1 i (sl_Queue slot)\<rparr>"] sl(2,3) d
        by (auto simp: popped_def slot_queue_def flight_def distinct_set_slot)
    qed auto
  qed
qed

lemma keeps_deadlines: "sched_inv s \<Longrightarrow> keeps s (s\<lparr>s_deadlines := h\<rparr>)"
  by (rule keeps_same_core) (auto simp: sched_inv_def)

lemma keeps_expire_loop: "sched_inv s \<Longrightarrow> keeps s (expire_loop now h s)"
proof (induction h arbitrary: s)
  case Nil
  then show ?case by (simp add: keeps_deadlines)
next
  case (Cons i h)
  let ?s0 = "s\<lparr>s_deadlines := h\<rparr>"
  obtain s1 removed where r: "removeQueued i ?s0 = (s1, removed)" by fastforce
  have k0: "keeps s ?s0" using Cons.prems by (rule keeps_deadlines)
  have k1: "keeps ?s0 (if removed then expire i s1 else s1)"
    using removeQueued_cases [OF keeps_inv [OF k0] r] keeps_expire_plain [OF keeps_inv [OF k0]]
      keeps_refl [OF keeps_inv [OF k0]] by (auto split: if_splits)
  note k2 = keeps_trans [OF k0 k1]
  from keeps_trans [OF k2 Cons.IH [OF keeps_inv [OF k2]]] r Cons.prems show ?case
    by (simp add: keeps_deadlines)
qed

lemma keeps_timer: "sched_inv s \<Longrightarrow> keeps s (timer_fired now nowD s)"
  unfolding timer_fired_def
  using keeps_expire_loop [of s now "s_deadlines s"] keeps_dispatch keeps_trans keeps_inv by meson

lemma close_queue_core: "same_core s (close_queue q s)"
proof (induction q arbitrary: s)
  case Nil
  then show ?case by (simp add: close_queue_def)
next
  case (Cons i q)
  from same_core_trans [OF same_core_prims(5) Cons.IH] show ?case by (simp add: close_queue_def)
qed

lemma close_queue_replied: "replied (close_queue q s) = replied s + (\<Sum>i \<in># mset q. chans s i)"
proof (induction q arbitrary: s)
  case Nil
  then show ?case by (simp add: close_queue_def)
next
  case (Cons i q)
  let ?s1 = "reply i None (Some ErrClosed) s"
  have "chans ?s1 = chans s" by (rule same_core_live(10)) simp
  with Cons.IH [of ?s1] show ?case by (simp add: close_queue_def)
qed

lemma close_slots:
  "same_core s (foldl (\<lambda>s x. close_queue (sl_Queue (snd x)) (cancel_flight (snd x) s)) s slots) \<and>
   replied (foldl (\<lambda>s x. close_queue (sl_Queue (snd x)) (cancel_flight (snd x) s)) s slots)
     = replied s + (\<Sum>i \<in># slot_sum slot_queue slots. chans s i)"
proof (induction slots arbitrary: s)
  case Nil
  then show ?case by (simp add: slot_sum_def)
next
  case (Cons x slots)
  let ?s1 = "close_queue (sl_Queue (snd x)) (cancel_flight (snd x) s)"
  have c: "same_core s ?s1" by (meson close_queue_core same_core_prims same_core_trans)
  have ch: "chans (cancel_flight (snd x) s) = chans s" by (rule same_core_live(10)) simp
  from Cons.IH [of ?s1] same_core_trans [OF c] same_core_live(10) [OF c] show ?case
    by (simp add: close_queue_replied ch slot_sum_def slot_queue_def)
qed

lemma begin_stop_inv:
  assumes inv: "sched_inv s"
  shows "sched_inv (begin_stop s) \<and> account (begin_stop s) = account s
     \<and> set_mset (live (begin_stop s)) \<subseteq> set_mset (live s) \<and> s_stopping (begin_stop s)
     \<and> s_capacity (begin_stop s) = s_capacity s"
proof (cases "s_stopping s")
  case True
  with inv show ?thesis by (simp add: begin_stop_def)
next
  case False
  let ?s0 = "s\<lparr>s_stopping := True\<rparr>"
  let ?s1 = "foldl (\<lambda>s x. close_queue (sl_Queue (snd x)) (cancel_flight (snd x) s)) ?s0 (s_slots s)"
  let ?s2 = "?s1\<lparr>s_slots := map (\<lambda>x. (fst x, (snd x)\<lparr>sl_Queue := []\<rparr>)) (s_slots ?s1)\<rparr>"
  let ?s3 = "emit (map ECancel (s_relayInFlight ?s2)) ?s2"
  let ?s4 = "close_queue (s_relayQueue ?s3) ?s3"
  let ?s5 = "?s4\<lparr>s_relayQueue := []\<rparr>"
  have eq: "begin_stop s = ?s5" using False by (simp add: begin_stop_def Let_def)
  have c1: "same_core ?s0 ?s1" and r1: "replied ?s1 = replied s + (\<Sum>i \<in># slot_sum slot_queue (s_slots s). chans s i)"
    using close_slots [of ?s0 "s_slots s"] by (simp_all add: chans_def)
  have c3: "same_core ?s2 ?s4" by (meson close_queue_core same_core_prims same_core_trans)
  have f: "s_slots ?s5 = map (\<lambda>x. (fst x, (snd x)\<lparr>sl_Queue := []\<rparr>)) (s_slots s)"
    "s_relayInFlight ?s5 = s_relayInFlight s" "s_relayQueue ?s5 = []" "s_inUse ?s5 = s_inUse s"
    "s_capacity ?s5 = s_capacity s" "s_stopping ?s5" "chans ?s5 = chans s"
    using c1 c3 by (auto simp: same_core_def chans_def fun_eq_iff)
  have rq: "s_relayQueue ?s3 = s_relayQueue s" "chans ?s3 = chans s"
    using c1 by (auto simp: same_core_def chans_def fun_eq_iff emit_def)
  have em: "sum_list (map reply_chan (map ECancel is)) = {#}" for "is"
    by (induction "is") auto
  have "slot_sum slot_queue (s_slots ?s5) = {#}" "slot_sum flight (s_slots ?s5) = slot_sum flight (s_slots s)"
    unfolding f(1) slot_sum_def by (induction "s_slots s") (auto simp: slot_queue_def flight_def comp_def)
  then have q: "queued ?s5 = {#}" "flying ?s5 = flying s"
    using f(2,3) by (simp_all add: queued_def flying_def)
  have "replied ?s5 = replied s + (\<Sum>i \<in># queued s. chans s i)"
    using r1 rq em by (simp add: close_queue_replied queued_def)
  moreover have "pending ?s5 = (\<Sum>i \<in># flying s. chans s i)"
    using q f(7) by (simp add: pending_def live_def)
  moreover have "pending s = (\<Sum>i \<in># queued s. chans s i) + (\<Sum>i \<in># flying s. chans s i)"
    by (simp add: pending_def live_def)
  ultimately have "account ?s5 = account s" by (simp add: account_def)
  moreover have "\<forall>i. count (live ?s5) i \<le> 1"
  proof
    fix i
    have "count (live s) i \<le> 1" using inv by (simp add: sched_inv_def)
    then show "count (live ?s5) i \<le> 1" using q by (simp add: live_def)
  qed
  moreover have "distinct (map fst (s_slots ?s5))"
    using inv f(1) by (simp add: sched_inv_def comp_def)
  ultimately have "sched_inv ?s5 \<and> account ?s5 = account s \<and> set_mset (live ?s5) \<subseteq> set_mset (live s) \<and> s_stopping ?s5
      \<and> s_capacity ?s5 = s_capacity s"
    using inv q f(4-6) by (simp add: sched_inv_def live_def)
  with eq show ?thesis by simp
qed

end
