(* ===== verification/Scheduler_Props.thy ===== *)
theory Scheduler_Props
  imports Scheduler_Inv
begin

text \<open>
  Admission of a request, and the properties of whole runs of the scheduler: the capacity bound, the
  account of answers, the order of queues, what is started, deduplication by the ledger.
\<close>

section \<open>Admission\<close>

text \<open>\<open>admits i s s'\<close>: request \<open>i\<close> with its waiters has been taken in (queued, attached or answered).\<close>

definition admits :: "nat \<Rightarrow> scheduler \<Rightarrow> nat multiset \<Rightarrow> scheduler \<Rightarrow> bool" where
  "admits i s X s' \<longleftrightarrow> sched_inv s' \<and> account s' = account s + X
     \<and> set_mset (live s') \<subseteq> insert i (set_mset (live s)) \<and> s_stopping s' = s_stopping s
     \<and> s_capacity s' = s_capacity s"

lemma admits_keeps: "admits i s X s' \<Longrightarrow> keeps s' s'' \<Longrightarrow> admits i s X s''"
  by (auto simp: admits_def keeps_def)

lemma keeps_admits: "keeps s s' \<Longrightarrow> admits i s' X s'' \<Longrightarrow> admits i s X s''"
  by (auto simp: admits_def keeps_def)

lemma admits_dispatch: "admits i s X s' \<Longrightarrow> admits i s X (dispatch now s')"
  by (rule admits_keeps [OF _ keeps_dispatch]) (simp_all add: admits_def)

text \<open>An answer to a request that never became live.\<close>

lemma admits_reply:
  assumes "sched_inv s" "same_core s s'" "replied s' = replied s + X"
    "\<not> s_stopping s \<Longrightarrow> ledger_ok (s_ledger s') (op_key s) (live s)"
  shows "admits i s X s'"
  using assms same_core_live [OF assms(2)] by (auto simp: admits_def sched_inv_def account_def)

lemma mset_insertBySequence: "mset (insertBySequence s q i) = add_mset i (mset q)"
proof -
  have "mset (take n q @ i # drop n q) = add_mset i (mset q)" for n
    by (metis (no_types) append_take_drop_id mset.simps(2) mset_append union_mset_add_mset_right)
  then show ?thesis by (simp add: insertBySequence_def Let_def)
qed

lemma admits_queue:
  assumes inv: "inv_with {#i#} s" and core: "s_ops s' = s_ops s" "s_ledger s' = s_ledger s" "replied s' = replied s"
      "s_inUse s' = s_inUse s" "s_capacity s' = s_capacity s" "s_stopping s' = s_stopping s"
    and q: "queued s' = add_mset i (queued s)" "flying s' = flying s" "distinct (map fst (s_slots s'))"
    and ns: "\<not> s_stopping s"
  shows "admits i s (chans s i) s'"
proof -
  have lv: "live s' = add_mset i (live s)" using q by (simp add: live_def)
  then have "pending s' = chans s i + pending s" using core(1) by (simp add: pending_def chans_def)
  then have "account s' = account s + chans s i" using core(3) by (simp add: account_def)
  moreover have "sched_inv s'"
    using inv core q ns lv by (simp add: inv_with_def sched_inv_def)
  ultimately show ?thesis using core(5,6) lv by (simp add: admits_def)
qed

lemma chans_keeps_with: "keeps_with X s s' \<Longrightarrow> chans s' = chans s"
  by (simp add: keeps_with_def chans_def fun_eq_iff)

lemma admits_keeps_with: "keeps_with X s s' \<Longrightarrow> admits i s' Y s'' \<Longrightarrow> admits i s Y s''"
  by (auto simp: admits_def keeps_with_def)

lemma keeps_with_new_slot:
  assumes "inv_with X s" "map_of (s_slots s) p = None"
  shows "keeps_with X s (set_slot p empty_slot s)"
  using assms queued_new_slot [OF assms(2)]
  by (simp add: keeps_with_def inv_with_def account_def pending_def live_def chans_def distinct_set_slot)

lemma map_of_stale_queue: "s_slots (stale_queue q s) = s_slots s"
  using stale_queue_core [of s q] by (simp add: same_core_def)

lemma advance_slot_present:
  assumes "map_of (s_slots s) p \<noteq> None"
  shows "map_of (s_slots (advance_slot p g keep s)) p \<noteq> None"
  using assms by (auto simp: advance_slot_def Let_def set_slot_def update_conv')

lemma admits_enqueue:
  assumes inv: "inv_with {#i#} s" and ns: "\<not> s_stopping s"
  shows "admits i s (chans s i) (enqueue_op i nowD s)"
proof -
  let ?opts = "op_options (s_ops s i)"
  let ?p = "so_PaneID ?opts" and ?key = "so_LedgerKey ?opts"
  let ?s1 = "heap_push i s"
  have k1: "keeps_with {#i#} s ?s1"
    using inv ns by (intro keeps_with_core) (simp_all add: inv_with_def)
  have o1: "op_options (s_ops ?s1 i) = ?opts" by (simp add: heap_push_def)
  show ?thesis
  proof (cases "so_RelayLevel ?opts")
    case True
    let ?s2 = "?s1\<lparr>s_relayQueue := insertBySequence ?s1 (s_relayQueue ?s1) i\<rparr>"
    have "admits i ?s1 (chans ?s1 i) ?s2"
      using k1 ns by (intro admits_queue)
        (auto simp: keeps_with_def queued_def flying_def mset_insertBySequence inv_with_def)
    then have "admits i s (chans s i) ?s2"
      using admits_keeps_with [OF k1] chans_keeps_with [OF k1] by simp
    moreover have "enqueue_op i nowD s = dispatch nowD ?s2"
      using True o1 by (simp add: enqueue_op_def Let_def heap_push_def)
    ultimately show ?thesis by (simp add: admits_dispatch)
  next
    case False
    define s2 where "s2 = (if map_of (s_slots ?s1) ?p = None then set_slot ?p empty_slot ?s1 else ?s1)"
    define gen where "gen = (case map_of (s_slots s2) ?p of Some x \<Rightarrow> sl_Generation x | None \<Rightarrow> 0)"
    define s3 where "s3 = (if so_PaneGeneration ?opts > gen
        then advance_slot ?p (so_PaneGeneration ?opts) (Some ?key) s2 else s2)"
    define slot where "slot = (case map_of (s_slots s3) ?p of Some x \<Rightarrow> x | None \<Rightarrow> empty_slot)"
    define s4 where "s4 = (case map_of (s_ledger s3) ?key of None \<Rightarrow> s3
        | Some entry \<Rightarrow> s3\<lparr>s_ledger := AList.update ?key (entry\<lparr>le_generation := sl_Generation slot\<rparr>) (s_ledger s3)\<rparr>)"
    define s5 where "s5 = s4\<lparr>s_ops := (s_ops s4)(i := (s_ops s4 i)\<lparr>op_generation := sl_Generation slot\<rparr>)\<rparr>"
    define s6 where "s6 = set_slot ?p (slot\<lparr>sl_Queue := insertBySequence s5 (sl_Queue slot) i\<rparr>) s5"
    have eq: "enqueue_op i nowD s = dispatch nowD s6"
      unfolding s6_def s5_def s4_def slot_def s3_def gen_def s2_def enqueue_op_def Let_def
      using False by (simp only: if_False)
    have inv1: "inv_with {#i#} ?s1" using k1 by (simp add: keeps_with_def)
    have k2: "keeps_with {#i#} ?s1 s2"
      using inv1 by (simp add: s2_def keeps_with_refl keeps_with_new_slot)
    then have inv2: "inv_with {#i#} s2" by (simp add: keeps_with_def)
    have k3: "keeps_with {#i#} s2 s3"
      using inv2 by (simp add: s3_def keeps_with_refl keeps_with_advance_slot)
    then have inv3: "inv_with {#i#} s3" by (simp add: keeps_with_def)
    have k13: "keeps_with {#i#} s s3" by (rule keeps_with_trans [OF k1 keeps_with_trans [OF k2 k3]])
    then have ns3: "\<not> s_stopping s3" using ns by (simp add: keeps_with_def)
    have led3: "ledger_ok (s_ledger s3) (op_key s3) (live s3 + {#i#})"
      using inv3 ns3 by (simp add: inv_with_def)
    have led5: "ledger_ok (s_ledger s5) (op_key s3) (live s3 + {#i#})"
    proof (cases "map_of (s_ledger s3) ?key")
      case None
      then show ?thesis using led3 by (simp add: s5_def s4_def)
    next
      case (Some e)
      note lk = ledger_ok_lookup [OF led3 Some]
      have "ledger_ok (AList.update ?key (e\<lparr>le_generation := sl_Generation slot\<rparr>) (s_ledger s3)) (op_key s3) (live s3 + {#i#})"
        using lk by (intro ledger_ok_update [OF led3]) auto
      with Some show ?thesis by (simp add: s5_def s4_def)
    qed
    have "same_core s3 s5" by (auto simp: same_core_def s5_def s4_def split: option.splits)
    moreover have "replied s5 = replied s3" by (simp add: s5_def s4_def split: option.splits)
    ultimately have k5: "keeps_with {#i#} s3 s5" using inv3 led5 by (intro keeps_with_core)
    have sl5: "s_slots s5 = s_slots s3" using k5 by (simp add: s5_def s4_def split: option.splits)
    have "map_of (s_slots s2) ?p \<noteq> None" by (simp add: s2_def set_slot_def update_conv')
    then have "map_of (s_slots s3) ?p \<noteq> None"
      using advance_slot_present [of s2 ?p] by (simp add: s3_def del: not_None_eq)
    then have m5: "map_of (s_slots s5) ?p = Some slot" by (auto simp: sl5 slot_def)
    have k05: "keeps_with {#i#} s s5" by (rule keeps_with_trans [OF k13 k5])
    have "admits i s5 (chans s5 i) s6"
    proof (rule admits_queue)
      show "inv_with {#i#} s5" "\<not> s_stopping s5" using k05 ns by (simp_all add: keeps_with_def)
      then have "distinct (map fst (s_slots s5))" by (simp add: inv_with_def)
      then show "distinct (map fst (s_slots s6))" by (simp add: s6_def distinct_set_slot)
      show "queued s6 = add_mset i (queued s5)" "flying s6 = flying s5"
        using queued_set_slot [OF m5, of "slot\<lparr>sl_Queue := insertBySequence s5 (sl_Queue slot) i\<rparr>"]
          flying_set_slot [OF m5, of "slot\<lparr>sl_Queue := insertBySequence s5 (sl_Queue slot) i\<rparr>"]
        by (simp_all add: s6_def slot_queue_def flight_def mset_insertBySequence)
    qed (simp_all add: s6_def)
    then have "admits i s (chans s i) s6"
      using admits_keeps_with [OF k05] chans_keeps_with [OF k05] by simp
    then show ?thesis unfolding eq by (rule admits_dispatch)
  qed
qed

lemma sum_mset_update_one:
  assumes "count M j = 1" "\<And>i. i \<noteq> j \<Longrightarrow> g i = f i" "g j = f j + X"
  shows "(\<Sum>i \<in># M. g i) = (\<Sum>i \<in># M. f i) + (X :: nat multiset)"
proof -
  obtain M' where M: "M = add_mset j M'" using assms(1) by (metis count_eq_zero_iff multi_member_split zero_neq_one)
  then have "j \<notin># M'" using assms(1) by (simp add: not_in_iff)
  then have "(\<Sum>i \<in># M'. g i) = (\<Sum>i \<in># M'. f i)"
    using assms(2) by (intro arg_cong [where f = sum_mset] image_mset_cong) metis
  with M assms(3) show ?thesis by (simp add: add.commute add.left_commute)
qed

lemma admits_attach:
  assumes inv: "sched_inv s" and j: "j \<in># live s" "i \<noteq> j"
  shows "admits i s (chans s i) (attach_waiters i j s)"
proof -
  let ?s' = "attach_waiters i j s"
  have lv: "live ?s' = live s" "queued ?s' = queued s" "flying ?s' = flying s" "op_key ?s' = op_key s"
    by (auto simp: attach_waiters_def live_def queued_def flying_def fun_eq_iff)
  have "count (live s) j = 1"
    using inv j(1) by (metis One_nat_def Suc_leI count_greater_zero_iff le_antisym sched_inv_def)
  then have "pending ?s' = pending s + chans s i"
    unfolding pending_def lv by (rule sum_mset_update_one [where j = j])
      (simp_all add: chans_def attach_waiters_def comp_def)
  moreover have "replied ?s' = replied s" by (simp add: attach_waiters_def)
  ultimately have "account ?s' = account s + chans s i" by (simp add: account_def)
  moreover have "sched_inv ?s'"
    using inv lv by (simp add: sched_inv_def attach_waiters_def)
  ultimately show ?thesis by (auto simp: admits_def lv) (simp_all add: attach_waiters_def)
qed

lemma keeps_store:
  assumes inv: "sched_inv s" and i: "i \<notin># live s"
  shows "keeps s (s\<lparr>s_ops := (s_ops s)(i := op)\<rparr>)"
proof -
  let ?s' = "s\<lparr>s_ops := (s_ops s)(i := op)\<rparr>"
  have lv: "live ?s' = live s" "queued ?s' = queued s" "flying ?s' = flying s"
    by (simp_all add: live_def queued_def flying_def)
  have "pending ?s' = pending s"
    unfolding pending_def lv using i by (intro arg_cong [where f = sum_mset] image_mset_cong) (auto simp: chans_def)
  moreover have "ledger_ok (s_ledger s) (op_key ?s') (live s)" if "\<not> s_stopping s"
  proof (rule ledger_ok_cong)
    show "ledger_ok (s_ledger s) (op_key s) (live s)" using inv that by (simp add: sched_inv_def)
    show "op_key s j = op_key ?s' j" if "j \<in># live s" for j using that i by auto
  qed
  ultimately show ?thesis using inv lv by (simp add: keeps_def sched_inv_def account_def)
qed

lemma keeps_prune: "sched_inv s \<Longrightarrow> keeps s (pruneLedger now s)"
proof (rule keeps_same_core)
  assume inv: "sched_inv s" and ns: "\<not> s_stopping s"
  then have "ledger_ok (s_ledger s) (op_key s) (live s)" by (simp add: sched_inv_def)
  then show "ledger_ok (s_ledger (pruneLedger now s)) (op_key s) (live s)"
    using evict_ledger_filter [of "filter (\<lambda>x. \<not> (le_operation (snd x) = None
          \<and> time_sub now (le_createdAt (snd x)) \<ge> ledgerRetention)) (s_ledger s)"]
    by (auto simp: pruneLedger_def intro: ledger_ok_filter)
qed simp_all

lemma admits_ingress:
  assumes inv: "sched_inv s0" and i: "i \<notin># live s0"
  shows "admits i s0 (mset (map fst (op_waiters op))) (ingress i op nowP nowR nowD s0)"
proof -
  let ?opts = "op_options op"
  define s where "s = pruneLedger nowP (s0\<lparr>s_ops := (s_ops s0)(i := op)\<rparr>)"
  have k0: "keeps s0 (s0\<lparr>s_ops := (s_ops s0)(i := op)\<rparr>)" by (rule keeps_store [OF inv i])
  have ks: "keeps s0 s" unfolding s_def by (rule keeps_trans [OF k0 keeps_prune [OF keeps_inv [OF k0]]])
  then have inv_s: "sched_inv s" by (rule keeps_inv)
  have op: "s_ops s i = op" by (simp add: s_def pruneLedger_def)
  then have ch: "chans s i = mset (map fst (op_waiters op))" by (simp add: chans_def)
  have il: "i \<notin># live s" using ks i by (auto simp: keeps_def)
  have led: "ledger_ok (s_ledger s) (op_key s) (live s)" if "\<not> s_stopping s" using inv_s that by (simp add: sched_inv_def)
  have rep: "admits i s (chans s i) s'"
    if "same_core s s'" "replied s' = replied s + chans s i" "s_ledger s' = s_ledger s" for s'
    using that inv_s led by (intro admits_reply) simp_all
  have stale: "admits i s (chans s i) (replyStale i s)"
    using inv_s led by (intro admits_reply) (simp_all add: ledger_ok_delete)
  have "admits i s (chans s i) (ingress i op nowP nowR nowD s0)"
  proof (cases "s_stopping s \<or> \<not> nowR < so_Deadline ?opts \<or> (\<not> so_RelayLevel ?opts \<and>
        (case map_of (s_slots s) (so_PaneID ?opts) of Some slot \<Rightarrow> so_PaneGeneration ?opts < sl_Generation slot | None \<Rightarrow> False))")
    case True
    then show ?thesis
      using rep [of "reply i None (Some ErrClosed) s"] rep [of "replyNotStarted i s"] stale
      by (auto simp: ingress_def Let_def s_def [symmetric])
  next
    case False
    then have ns: "\<not> s_stopping s" by simp
    have inv1: "inv_with {#i#} s"
      using inv_s ns il led ledger_ok_mono [of "s_ledger s" "op_key s" "live s" "live s + {#i#}"]
      by (auto simp: inv_with_def sched_inv_def not_in_iff)
    have eq: "ingress i op nowP nowR nowD s0 =
      (if so_LedgerKey ?opts = [] then enqueue_op i nowD s
       else case map_of (s_ledger s) (so_LedgerKey ?opts) of
             Some existing \<Rightarrow>
               if le_payloadHash existing \<noteq> so_PayloadHash ?opts then reply i None (Some ErrConflict) s
               else (case le_result existing of
                       Some r \<Rightarrow> replyReplayed i (Some r) None s
                     | None \<Rightarrow> (case le_operation existing of Some j \<Rightarrow> attach_waiters i j s | None \<Rightarrow> s))
           | None \<Rightarrow>
               enqueue_op i nowD (s\<lparr>s_ledger := AList.update (so_LedgerKey ?opts)
                 \<lparr>le_payloadHash = so_PayloadHash ?opts, le_operation = Some i, le_result = None, le_generation = 0,
                  le_paneID = so_PaneID ?opts, le_createdAt = so_ReceivedAt ?opts\<rparr> (s_ledger s)\<rparr>))"
      unfolding ingress_def Let_def s_def [symmetric] using False by argo
    show ?thesis
    proof (cases "so_LedgerKey ?opts = []")
      case True
      with False admits_enqueue [OF inv1 ns] show ?thesis
        by (simp add: eq)
    next
      case key: False
      show ?thesis
      proof (cases "map_of (s_ledger s) (so_LedgerKey ?opts)")
        case None
        let ?e = "\<lparr>le_payloadHash = so_PayloadHash ?opts, le_operation = Some i, le_result = None, le_generation = 0,
                  le_paneID = so_PaneID ?opts, le_createdAt = so_ReceivedAt ?opts\<rparr>"
        let ?s' = "s\<lparr>s_ledger := AList.update (so_LedgerKey ?opts) ?e (s_ledger s)\<rparr>"
        have l0: "ledger_ok (s_ledger s) (op_key s) (live s + {#i#})"
          using inv1 ns by (simp add: inv_with_def)
        have "ledger_ok (s_ledger ?s') (op_key s) (live s + {#i#})"
          using key op ledger_ok_update [OF l0, of "so_LedgerKey ?opts" ?e] by simp
        then have k: "keeps_with {#i#} s ?s'" using inv1 by (intro keeps_with_core) simp_all
        then have "inv_with {#i#} ?s'" by (simp add: keeps_with_def)
        from admits_enqueue [OF this, of nowD] ns have "admits i ?s' (chans ?s' i) (enqueue_op i nowD ?s')" by simp
        then have "admits i s (chans s i) (enqueue_op i nowD ?s')"
          using admits_keeps_with [OF k] chans_keeps_with [OF k] by simp
        with False key None show ?thesis by (simp add: eq)
      next
        case (Some e)
        note lk = ledger_ok_lookup [OF led [OF ns] Some]
        consider (conflict) "le_payloadHash e \<noteq> so_PayloadHash ?opts"
          | (replay) r where "le_payloadHash e = so_PayloadHash ?opts" "le_result e = Some r"
          | (wait) j where "le_payloadHash e = so_PayloadHash ?opts" "le_result e = None" "le_operation e = Some j" "j \<in># live s"
          using lk by (cases "le_result e") auto
        then show ?thesis
        proof cases
          case conflict
          with False key Some rep [of "reply i None (Some ErrConflict) s"] show ?thesis
            by (simp add: eq)
        next
          case (replay r)
          with False key Some rep [of "replyReplayed i (Some r) None s"] show ?thesis
            by (simp add: eq)
        next
          case (wait j)
          then have "i \<noteq> j" using il by auto
          with False key Some wait admits_attach [OF inv_s wait(4)] show ?thesis
            by (simp add: eq)
        qed
      qed
    qed
  qed
  with keeps_admits [OF ks] ch show ?thesis by simp
qed

section \<open>Runs\<close>

primrec event_ids :: "sched_event \<Rightarrow> nat list" where
  "event_ids (SIngress i op t1 t2 t3) = [i]"
| "event_ids (SComplete i res gc t1 t2) = []"
| "event_ids (SLedger key g r) = []"
| "event_ids (SReplay key h) = []"
| "event_ids (STopology active gens t) = []"
| "event_ids (STimer t1 t2) = []"
| "event_ids SCancelInflight = []"
| "event_ids SStop = []"

definition run_ids :: "sched_event list \<Rightarrow> nat list" where
  "run_ids evs = concat (map event_ids evs)"

text \<open>The channels of the requests the goroutine takes from the ingress channel before it returns.\<close>

primrec event_chans :: "sched_event \<Rightarrow> nat multiset" where
  "event_chans (SIngress i op t1 t2 t3) = mset (map fst (op_waiters op))"
| "event_chans (SComplete i res gc t1 t2) = {#}"
| "event_chans (SLedger key g r) = {#}"
| "event_chans (SReplay key h) = {#}"
| "event_chans (STopology active gens t) = {#}"
| "event_chans (STimer t1 t2) = {#}"
| "event_chans SCancelInflight = {#}"
| "event_chans SStop = {#}"

primrec received :: "scheduler \<Rightarrow> sched_event list \<Rightarrow> nat multiset" where
  "received s [] = {#}"
| "received s (ev # evs) = (if s_done s then {#} else event_chans ev) + received (sched_step s ev) evs"

definition drained :: "scheduler \<Rightarrow> bool" where
  "drained s \<longleftrightarrow> (s_done s \<longrightarrow> live s = {#})"

lemma keeps_update_ledger: "sched_inv s \<Longrightarrow> keeps s (update_ledger k g r s)"
proof (rule keeps_same_core)
  assume inv: "sched_inv s" and ns: "\<not> s_stopping s"
  then have l: "ledger_ok (s_ledger s) (op_key s) (live s)" by (simp add: sched_inv_def)
  have "ledger_ok (AList.update k (e\<lparr>le_result := Some r'\<rparr>) (s_ledger s)) (op_key s) (live s)"
    if "map_of (s_ledger s) k = Some e" for e r'
    using ledger_ok_update [OF l ledger_ok_lookup(1) [OF l that]] by simp
  with l show "ledger_ok (s_ledger (update_ledger k g r s)) (op_key s) (live s)"
    by (auto simp: update_ledger_def split: option.splits)
next
  show "replied (update_ledger k g r s) = replied s" by (simp add: update_ledger_def split: option.splits)
qed simp_all

lemma keeps_replay_query: "sched_inv s \<Longrightarrow> keeps s (replay_query k h s)"
  by (rule keeps_same_core) (auto simp: replay_query_def sched_inv_def split: option.splits)

lemma stopAck_core: "sched_inv (s\<lparr>s_stopAck := b\<rparr>) = sched_inv s" "account (s\<lparr>s_stopAck := b\<rparr>) = account s"
  "live (s\<lparr>s_stopAck := b\<rparr>) = live s" "s_stopping (s\<lparr>s_stopAck := b\<rparr>) = s_stopping s"
  "sched_inv (s\<lparr>s_done := b\<rparr>) = sched_inv s" "account (s\<lparr>s_done := b\<rparr>) = account s" "live (s\<lparr>s_done := b\<rparr>) = live s"
  by (simp_all add: sched_inv_def account_def live_def queued_def flying_def pending_def chans_def replied_def)

lemma sched_handle_inv:
  assumes "sched_inv s" "\<forall>i \<in> set (event_ids ev). i \<notin># live s"
  shows "sched_inv (sched_handle ev s) \<and> account (sched_handle ev s) = account s + event_chans ev
     \<and> set_mset (live (sched_handle ev s)) \<subseteq> set (event_ids ev) \<union> set_mset (live s)
     \<and> s_capacity (sched_handle ev s) = s_capacity s"
proof (cases ev)
  case (SIngress i op t1 t2 t3)
  with admits_ingress [OF assms(1), of i op t1 t2 t3] assms(2) show ?thesis by (simp add: admits_def)
next
  case (SComplete i res gc t1 t2)
  with keeps_complete [OF assms(1)] show ?thesis by (simp add: keeps_def)
next
  case (SLedger k g r)
  with keeps_update_ledger [OF assms(1)] show ?thesis by (simp add: keeps_def)
next
  case (SReplay k h)
  with keeps_replay_query [OF assms(1)] show ?thesis by (simp add: keeps_def)
next
  case (STopology a g t)
  with keeps_applyTopology [OF assms(1)] show ?thesis by (simp add: keeps_def)
next
  case (STimer t1 t2)
  with keeps_timer [OF assms(1)] show ?thesis by (simp add: keeps_def)
next
  case SCancelInflight
  with begin_stop_inv [OF assms(1)] show ?thesis by simp
next
  case SStop
  with begin_stop_inv [of "s\<lparr>s_stopAck := True\<rparr>"] assms(1) show ?thesis by (simp add: stopAck_core)
qed

lemma sched_step_inv:
  assumes "sched_inv s" "drained s" "\<forall>i \<in> set (event_ids ev). i \<notin># live s"
  shows "sched_inv (sched_step s ev) \<and> drained (sched_step s ev)
     \<and> account (sched_step s ev) = account s + (if s_done s then {#} else event_chans ev)
     \<and> set_mset (live (sched_step s ev)) \<subseteq> set (event_ids ev) \<union> set_mset (live s)
     \<and> s_capacity (sched_step s ev) = s_capacity s"
proof (cases "s_done s")
  case True
  with assms show ?thesis by (auto simp: sched_step_def)
next
  case False
  let ?s' = "sched_handle ev s"
  note h = sched_handle_inv [OF assms(1,3)]
  have "live ?s' = {#}" if "s_stopping ?s'" "s_inUse ?s' = 0"
    using h that by (simp add: sched_inv_def live_def)
  then have "drained (sched_step s ev)" using False by (simp add: drained_def sched_step_def Let_def stopAck_core)
  with h False show ?thesis by (simp add: sched_step_def Let_def stopAck_core)
qed

lemma sched_run_inv:
  assumes "sched_inv s" "drained s" "distinct (run_ids evs)" "\<forall>i \<in> set (run_ids evs). i \<notin># live s"
  shows "sched_inv (sched_run s evs) \<and> drained (sched_run s evs)
     \<and> account (sched_run s evs) = account s + received s evs
     \<and> set_mset (live (sched_run s evs)) \<subseteq> set (run_ids evs) \<union> set_mset (live s)
     \<and> s_capacity (sched_run s evs) = s_capacity s"
  using assms
proof (induction evs arbitrary: s)
  case Nil
  then show ?case by (simp add: sched_run_def run_ids_def)
next
  case (Cons ev evs)
  let ?s' = "sched_step s ev"
  have ids: "run_ids (ev # evs) = event_ids ev @ run_ids evs" by (simp add: run_ids_def)
  have st: "sched_inv ?s'" "drained ?s'" "account ?s' = account s + (if s_done s then {#} else event_chans ev)"
    "set_mset (live ?s') \<subseteq> set (event_ids ev) \<union> set_mset (live s)" "s_capacity ?s' = s_capacity s"
    using sched_step_inv [OF Cons.prems(1,2), of ev] Cons.prems(4) ids by auto
  have d: "distinct (run_ids evs)" using Cons.prems(3) ids by simp
  have "\<forall>i \<in> set (run_ids evs). i \<notin># live ?s'"
    using st(4) Cons.prems(3,4) ids by auto
  note ih = Cons.IH [OF st(1,2) d this]
  have "sched_run s (ev # evs) = sched_run ?s' evs" by (simp add: sched_run_def)
  with ih st(3-5) ids show ?case by (auto simp: add.assoc)
qed

lemma NewScheduler_inv: "sched_inv (NewScheduler store cap)" "drained (NewScheduler store cap)"
  "account (NewScheduler store cap) = {#}" "live (NewScheduler store cap) = {#}"
  by (simp_all add: sched_inv_def drained_def NewScheduler_def queued_def flying_def live_def slot_sum_def
      account_def pending_def replied_def ledger_ok_def defaultHerdrCapacity_def)

section \<open>What dispatch starts\<close>

text \<open>\<open>startable now s tok\<close>: the token is that of an operation waiting in \<open>s\<close> that may start.\<close>

definition startable :: "time \<Rightarrow> scheduler \<Rightarrow> worker_token \<Rightarrow> bool" where
  "startable now s tok \<longleftrightarrow> now < wt_Deadline tok \<and> wt_Deadline tok = op_deadline s (wt_OperationID tok) \<and>
     (wt_OperationID tok \<in> set (s_relayQueue s) \<and> wt_Generation tok = 0 \<or>
      (\<exists>p slot. map_of (s_slots s) p = Some slot \<and> sl_InFlight slot = None
         \<and> wt_OperationID tok \<in> set (sl_Queue slot) \<and> wt_Generation tok = sl_Generation slot
         \<and> op_generation (s_ops s (wt_OperationID tok)) = sl_Generation slot))"

text \<open>A step of dispatch: what is startable afterwards was startable before, and so was all that started.\<close>

definition starts_ok :: "time \<Rightarrow> scheduler \<Rightarrow> scheduler \<Rightarrow> bool" where
  "starts_ok now s s' \<longleftrightarrow> (\<forall>tok. startable now s' tok \<longrightarrow> startable now s tok)
     \<and> (\<exists>new. s_log s' = s_log s @ new \<and> (\<forall>tok. EStart tok \<in> set new \<longrightarrow> startable now s tok))"

lemma starts_ok_refl: "starts_ok now s s"
  by (simp add: starts_ok_def)

lemma starts_ok_trans: "starts_ok now s s' \<Longrightarrow> starts_ok now s' s'' \<Longrightarrow> starts_ok now s s''"
  unfolding starts_ok_def by (metis Un_iff append.assoc set_append)

lemma log_simps:
  "\<exists>new. s_log (replyStale i s) = s_log s @ new \<and> (\<forall>tok. EStart tok \<notin> set new)"
  "\<exists>new. s_log (expire i s) = s_log s @ new \<and> (\<forall>tok. EStart tok \<notin> set new)"
  by (auto simp: replyStale_def expire_def replyNotStarted_def reply_def replyWithReplay_def emit_def drop_ledger_def)

lemma reply_fields:
  "s_relayQueue (replyStale i s) = s_relayQueue s" "s_relayQueue (expire i s) = s_relayQueue s"
  "s_ops (replyStale i s) = s_ops s" "s_ops (expire i s) = s_ops s"
  "s_relayQueue (heap_remove i s) = s_relayQueue s" "s_ops (heap_remove i s) = s_ops s" "s_log (heap_remove i s) = s_log s"
  by (auto simp: replyStale_def expire_def replyNotStarted_def reply_def replyWithReplay_def emit_def drop_ledger_def
      heap_remove_def)

lemma startable_mono:
  assumes "startable now s' tok" "set (s_relayQueue s') \<subseteq> set (s_relayQueue s)"
    "\<And>i. op_options (s_ops s' i) = op_options (s_ops s i) \<and> op_generation (s_ops s' i) = op_generation (s_ops s i)"
    "\<And>p slot'. map_of (s_slots s') p = Some slot' \<Longrightarrow> sl_InFlight slot' = None \<Longrightarrow>
       \<exists>slot. map_of (s_slots s) p = Some slot \<and> sl_InFlight slot = None \<and> sl_Generation slot = sl_Generation slot'
         \<and> set (sl_Queue slot') \<subseteq> set (sl_Queue slot)"
  shows "startable now s tok"
proof -
  let ?i = "wt_OperationID tok"
  have t: "now < wt_Deadline tok" "wt_Deadline tok = op_deadline s ?i"
    using assms(1,3) by (simp_all add: startable_def)
  consider (relay) "?i \<in> set (s_relayQueue s')" "wt_Generation tok = 0"
    | (pane) p slot' where "map_of (s_slots s') p = Some slot'" "sl_InFlight slot' = None" "?i \<in> set (sl_Queue slot')"
        "wt_Generation tok = sl_Generation slot'" "op_generation (s_ops s' ?i) = sl_Generation slot'"
    using assms(1) unfolding startable_def by auto
  then show ?thesis
  proof cases
    case relay
    with t assms(2) show ?thesis unfolding startable_def by blast
  next
    case pane
    then obtain slot where "map_of (s_slots s) p = Some slot" "sl_InFlight slot = None"
      "sl_Generation slot = sl_Generation slot'" "set (sl_Queue slot') \<subseteq> set (sl_Queue slot)"
      using assms(4) by blast
    moreover have "op_generation (s_ops s ?i) = sl_Generation slot'" using pane(5) assms(3) by simp
    ultimately show ?thesis using t pane(3,4) unfolding startable_def by (metis subsetD)
  qed
qed

lemma starts_ok_visit_pane: "starts_ok now s (fst (visit_pane now p s))"
proof -
  have pop: "startable now s' tok \<Longrightarrow> startable now s tok"
    if "map_of (s_slots s) p = Some slot" "sl_InFlight slot = None" "sl_Queue slot = i # q"
      "s_slots s' = AList.update p (slot\<lparr>sl_Queue := q\<rparr>) (s_slots s)" "s_relayQueue s' = s_relayQueue s" "s_ops s' = s_ops s"
    for slot i q s' tok
    using that by (elim startable_mono) (auto simp: update_conv' split: if_splits)
  show ?thesis
  proof (cases rule: visit_pane_cases [of now p s])
    case idle
    then show ?thesis by (simp add: starts_ok_refl)
  next
    case (stale slot i q)
    let ?s1 = "heap_remove i (set_slot p (slot\<lparr>sl_Queue := q\<rparr>) s)"
    obtain new where "s_log (replyStale i ?s1) = s_log ?s1 @ new" "\<forall>tok. EStart tok \<notin> set new" using log_simps(1) by blast
    then show ?thesis
      using pop [OF stale(1-3), of "replyStale i ?s1"] stale(5)
      by (auto simp: starts_ok_def reply_fields set_slot_def)
  next
    case (expired slot i q)
    let ?s1 = "heap_remove i (set_slot p (slot\<lparr>sl_Queue := q\<rparr>) s)"
    obtain new where "s_log (expire i ?s1) = s_log ?s1 @ new" "\<forall>tok. EStart tok \<notin> set new" using log_simps(2) by blast
    then show ?thesis
      using pop [OF expired(1-3), of "expire i ?s1"] expired(4)
      by (auto simp: starts_ok_def reply_fields set_slot_def)
  next
    case (started slot i q)
    let ?s1 = "(set_slot p (in_flight_slot now i q s slot) s)\<lparr>s_inUse := s_inUse s + 1\<rparr>"
    have a: "startable now (start i (sl_Generation slot) ?s1) tok \<Longrightarrow> startable now s tok" for tok
      by (elim startable_mono)
        (auto simp: start_def emit_def set_slot_def update_conv' in_flight_slot_def split: if_splits)
    have "startable now s \<lparr>wt_OperationID = i, wt_PaneID = op_pane s i, wt_Generation = sl_Generation slot,
             wt_AllowAbsent = so_AllowAbsent (op_options (s_ops s i)), wt_Deadline = op_deadline s i\<rparr>"
      using started(1-5) unfolding startable_def by (auto intro!: exI [of _ p])
    with a started(6) show ?thesis
      by (auto simp: starts_ok_def start_def emit_def set_slot_def)
  qed
qed

lemma starts_ok_pane_pass: "starts_ok now s (fst (pane_pass now ps s pr))"
proof (induction ps arbitrary: s pr)
  case Nil
  then show ?case by (simp add: starts_ok_refl)
next
  case (Cons p ps)
  obtain s1 pr1 where v: "visit_pane now p s = (s1, pr1)" by fastforce
  have "starts_ok now s s1" using starts_ok_visit_pane [of now s p] v by simp
  from starts_ok_trans [OF this Cons.IH] v show ?case by (simp add: starts_ok_refl)
qed

lemma starts_ok_pane_rounds: "starts_ok now s (pane_rounds now ps s)"
proof (induction now ps s rule: pane_rounds.induct)
  case (1 now ps s)
  obtain s1 pr where p: "pane_pass now ps s False = (s1, pr)" by fastforce
  have k: "starts_ok now s s1" using starts_ok_pane_pass [of now s ps False] p by simp
  show ?case
  proof (cases "s_inUse s < s_capacity s \<and> \<not> s_stopping s")
    case False
    then have "pane_rounds now ps s = s" by (subst pane_rounds.simps) auto
    then show ?thesis by (simp add: starts_ok_refl)
  next
    case True
    then have "pane_rounds now ps s = (if pr then pane_rounds now ps s1 else s1)"
      using p by (subst pane_rounds.simps) simp
    moreover have "starts_ok now s (pane_rounds now ps s1)" if pr
      using starts_ok_trans [OF k 1(1) [OF True p [symmetric] refl that]] .
    ultimately show ?thesis using k by simp
  qed
qed

lemma starts_ok_relay_loop: "s_relayQueue s = q \<Longrightarrow> starts_ok now s (relay_loop now q s)"
proof (induction q arbitrary: s)
  case Nil
  then show ?case by (simp add: relayQueue_id starts_ok_refl)
next
  case (Cons i q)
  let ?s1 = "s\<lparr>s_relayQueue := q\<rparr>"
  show ?case
  proof (cases "s_inUse s < s_capacity s \<and> \<not> s_stopping s")
    case False
    with Cons.prems show ?thesis by (auto simp: relayQueue_id starts_ok_refl)
  next
    case True
    show ?thesis
    proof (cases "now < op_deadline s i")
      case False
      let ?s2 = "expire i (heap_remove i ?s1)"
      obtain new where "s_log ?s2 = s_log (heap_remove i ?s1) @ new" "\<forall>tok. EStart tok \<notin> set new" using log_simps(2) by blast
      moreover have "startable now ?s2 tok \<Longrightarrow> startable now s tok" for tok
        using Cons.prems by (elim startable_mono) (auto simp: reply_fields)
      ultimately have "starts_ok now s ?s2" by (auto simp: starts_ok_def reply_fields)
      from starts_ok_trans [OF this Cons.IH [of ?s2]] True False show ?thesis by (simp add: reply_fields)
    next
      case t: True
      let ?s2 = "?s1\<lparr>s_inUse := s_inUse s + 1, s_relayInFlight := s_relayInFlight s @ [i]\<rparr>"
      have rq: "s_relayQueue (start i 0 ?s2) = q" by (simp add: start_def emit_def)
      have "startable now (start i 0 ?s2) tok \<Longrightarrow> startable now s tok" for tok
        using Cons.prems by (elim startable_mono) (auto simp: start_def emit_def)
      moreover have "startable now s \<lparr>wt_OperationID = i, wt_PaneID = op_pane s i, wt_Generation = 0,
             wt_AllowAbsent = so_AllowAbsent (op_options (s_ops s i)), wt_Deadline = op_deadline s i\<rparr>"
        using t Cons.prems by (simp add: startable_def)
      ultimately have "starts_ok now s (start i 0 ?s2)" by (auto simp: starts_ok_def start_def emit_def)
      from starts_ok_trans [OF this Cons.IH [OF rq]] True t show ?thesis by simp
    qed
  qed
qed

lemma starts_ok_dispatch: "starts_ok now s (dispatch now s)"
proof -
  let ?s1 = "relay_loop now (s_relayQueue s) s"
  let ?s2 = "pane_rounds now (sort (map fst (s_slots ?s1))) ?s1"
  have "starts_ok now s ?s2" by (rule starts_ok_trans [OF starts_ok_relay_loop starts_ok_pane_rounds]) simp
  moreover have "starts_ok now ?s2 (setOwnerMetrics ?s2)"
    by (auto simp: starts_ok_def setOwnerMetrics_def startable_def)
  ultimately show ?thesis unfolding dispatch_def Let_def by (rule starts_ok_trans)
qed

section \<open>What dispatch leaves waiting\<close>

definition idle_pane :: "scheduler \<Rightarrow> string \<Rightarrow> bool" where
  "idle_pane s p \<longleftrightarrow>
     (\<forall>slot. map_of (s_slots s) p = Some slot \<longrightarrow> sl_InFlight slot \<noteq> None \<or> sl_Queue slot = [])"

lemma visit_pane_no_progress: "visit_pane now p s = (s', False) \<Longrightarrow> s' = s \<and> idle_pane s p"
  by (cases rule: visit_pane_cases [of now p s]) (auto simp: idle_pane_def)

lemma pane_pass_progress: "snd (pane_pass now ps s True)"
  by (induction ps arbitrary: s) (auto simp: case_prod_beta)

lemma pane_pass_no_progress:
  "pane_pass now ps s False = (s', False) \<Longrightarrow> s' = s \<and> (s_inUse s \<ge> s_capacity s \<or> (\<forall>p \<in> set ps. idle_pane s p))"
proof (induction ps)
  case Nil
  then show ?case by simp
next
  case (Cons p ps)
  show ?case
  proof (cases "s_inUse s \<ge> s_capacity s")
    case True
    with Cons.prems show ?thesis by simp
  next
    case False
    obtain s1 pr1 where v: "visit_pane now p s = (s1, pr1)" by fastforce
    then have pp: "pane_pass now ps s1 pr1 = (s', False)" using Cons.prems False by simp
    then have "\<not> pr1" using pane_pass_progress [of now ps s1] by (cases pr1) auto
    with visit_pane_no_progress [of now p s s1] v pp Cons.IH show ?thesis by auto
  qed
qed

lemma pane_rounds_idle:
  "\<not> s_stopping s \<Longrightarrow> sched_inv s \<Longrightarrow>
     s_inUse (pane_rounds now ps s) \<ge> s_capacity s \<or> (\<forall>p \<in> set ps. idle_pane (pane_rounds now ps s) p)"
proof (induction now ps s rule: pane_rounds.induct)
  case (1 now ps s)
  obtain s1 pr where p: "pane_pass now ps s False = (s1, pr)" by fastforce
  have k: "keeps s s1" using keeps_pane_pass [OF 1(3), of now ps False] p by simp
  show ?case
  proof (cases "s_inUse s < s_capacity s")
    case False
    then have "pane_rounds now ps s = s" by (subst pane_rounds.simps) auto
    with False show ?thesis by simp
  next
    case True
    then have eq: "pane_rounds now ps s = (if pr then pane_rounds now ps s1 else s1)"
      using p 1(2) by (subst pane_rounds.simps) simp
    show ?thesis
    proof (cases pr)
      case True
      with 1(1) [OF conjI [OF \<open>s_inUse s < s_capacity s\<close> 1(2)] p [symmetric] refl True] eq k 1(2)
      show ?thesis by (simp add: keeps_def)
    next
      case False
      with pane_pass_no_progress [of now ps s s1] p eq show ?thesis by auto
    qed
  qed
qed

lemma relay_loop_rest:
  "\<not> s_stopping s \<Longrightarrow> sched_inv s \<Longrightarrow> s_relayQueue s = q \<Longrightarrow>
     s_relayQueue (relay_loop now q s) = [] \<or> s_inUse (relay_loop now q s) \<ge> s_capacity s"
proof (induction q arbitrary: s)
  case Nil
  then show ?case by simp
next
  case (Cons i q)
  let ?s1 = "s\<lparr>s_relayQueue := q\<rparr>"
  let ?ex = "expire i (heap_remove i ?s1)"
  let ?s2 = "?s1\<lparr>s_inUse := s_inUse s + 1, s_relayInFlight := s_relayInFlight s @ [i]\<rparr>"
  show ?case
  proof (cases "s_inUse s < s_capacity s")
    case False
    then show ?thesis by simp
  next
    case True
    have d: "distinct (map fst (s_slots s))" using Cons.prems by (simp add: sched_inv_def)
    have "queued s = add_mset i (queued ?s1)" "flying ?s1 = flying s"
      "queued s = add_mset i (queued ?s2)" "flying ?s2 = add_mset i (flying s)"
      using Cons.prems(3) by (simp_all add: queued_def flying_def)
    then have k: "keeps s ?ex" "keeps s (start i 0 ?s2)"
      using Cons.prems True d by (auto intro!: keeps_expire keeps_start simp: popped_def)
    have rq: "s_relayQueue ?ex = q" "s_relayQueue (start i 0 ?s2) = q"
      by (simp_all add: reply_fields start_def emit_def)
    show ?thesis
      using Cons.IH [of ?ex] Cons.IH [of "start i 0 ?s2"] k rq True Cons.prems
      by (simp add: keeps_def Let_def)
  qed
qed

lemma visit_pane_frame:
  "fst ` set (s_slots (fst (visit_pane now p s))) = fst ` set (s_slots s) \<and>
   s_relayQueue (fst (visit_pane now p s)) = s_relayQueue s"
proof -
  have m: "map_of (s_slots s) p = Some slot \<Longrightarrow> insert p (fst ` set (s_slots s)) = fst ` set (s_slots s)" for slot
    by (metis insert_absorb map_of_SomeD image_eqI fst_conv)
  show ?thesis
    by (cases rule: visit_pane_cases [of now p s])
      (auto simp: set_slot_def reply_fields start_def emit_def dom_update dest!: m)
qed

lemma pane_pass_frame:
  "fst ` set (s_slots (fst (pane_pass now ps s pr))) = fst ` set (s_slots s) \<and>
   s_relayQueue (fst (pane_pass now ps s pr)) = s_relayQueue s"
proof (induction ps arbitrary: s pr)
  case Nil
  then show ?case by simp
next
  case (Cons p ps)
  obtain s1 pr1 where v: "visit_pane now p s = (s1, pr1)" by fastforce
  show ?case using Cons.IH [of s1 "pr \<or> pr1"] visit_pane_frame [of now p s] v by simp
qed

lemma pane_rounds_frame:
  "fst ` set (s_slots (pane_rounds now ps s)) = fst ` set (s_slots s) \<and> s_relayQueue (pane_rounds now ps s) = s_relayQueue s"
proof (induction now ps s rule: pane_rounds.induct)
  case (1 now ps s)
  obtain s1 pr where p: "pane_pass now ps s False = (s1, pr)" by fastforce
  have f: "fst ` set (s_slots s1) = fst ` set (s_slots s) \<and> s_relayQueue s1 = s_relayQueue s"
    using pane_pass_frame [of now ps s False] p by simp
  show ?case
  proof (cases "s_inUse s < s_capacity s \<and> \<not> s_stopping s")
    case False
    then have "pane_rounds now ps s = s" by (subst pane_rounds.simps) auto
    then show ?thesis by simp
  next
    case True
    then have "pane_rounds now ps s = (if pr then pane_rounds now ps s1 else s1)"
      using p by (subst pane_rounds.simps) simp
    with f 1 [OF True p [symmetric] refl] show ?thesis by simp
  qed
qed

lemma dispatch_idle:
  assumes "sched_inv s" "\<not> s_stopping s"
  shows "s_inUse (dispatch now s) = s_capacity s \<or>
    s_relayQueue (dispatch now s) = [] \<and> (\<forall>p. idle_pane (dispatch now s) p)"
proof -
  let ?s1 = "relay_loop now (s_relayQueue s) s"
  let ?ps = "sort (map fst (s_slots ?s1))"
  let ?s2 = "pane_rounds now ?ps ?s1"
  have k1: "keeps s ?s1" using assms(1) by (simp add: keeps_relay_loop)
  then have i1: "sched_inv ?s1" "\<not> s_stopping ?s1" "s_capacity ?s1 = s_capacity s"
    using assms(2) by (simp_all add: keeps_def)
  have k2: "keeps ?s1 ?s2" using i1(1) by (rule keeps_pane_rounds)
  then have le: "s_inUse ?s2 \<le> s_capacity s" using i1(3) by (simp add: keeps_def sched_inv_def)
  have keys: "map_of (s_slots ?s2) p = None" if "p \<notin> set ?ps" for p
    using that pane_rounds_frame [of now ?ps ?s1] by (simp add: map_of_eq_None_iff)
  have m: "s_inUse (setOwnerMetrics t) = s_inUse t" "s_relayQueue (setOwnerMetrics t) = s_relayQueue t"
    "idle_pane (setOwnerMetrics t) = idle_pane t" for t
    by (simp_all add: setOwnerMetrics_def idle_pane_def fun_eq_iff)
  have panes: "s_inUse ?s2 \<ge> s_capacity s \<or> (\<forall>p. idle_pane ?s2 p)"
    using pane_rounds_idle [OF i1(2,1), of now ?ps] i1(3) keys unfolding idle_pane_def by (metis option.distinct(1))
  have "s_relayQueue ?s1 = [] \<or> s_inUse ?s1 \<ge> s_capacity s"
    using relay_loop_rest [of s "s_relayQueue s" now] assms by simp
  moreover have "?s2 = ?s1" if "s_inUse ?s1 \<ge> s_capacity s"
    using that i1(3) by (subst pane_rounds.simps) simp
  ultimately have "s_relayQueue ?s2 = [] \<or> s_inUse ?s2 \<ge> s_capacity s"
    using pane_rounds_frame [of now ?ps ?s1] by auto
  with panes le show ?thesis by (auto simp: dispatch_def Let_def m)
qed

section \<open>Panes that go\<close>

lemma advance_slot_live:
  assumes "map_of (s_slots s) p = Some slot"
  shows "live s = mset (sl_Queue slot) + live (advance_slot p g keep s)"
proof -
  let ?s0 = "set_slot p (slot\<lparr>sl_Generation := g\<rparr>) s"
  let ?s2 = "stale_queue (sl_Queue slot) (cancel_flight slot ?s0)"
  let ?s3 = "set_slot p (slot\<lparr>sl_Generation := g, sl_Queue := []\<rparr>) ?s2"
  have core: "same_core ?s0 ?s2" by (meson same_core_prims same_core_trans stale_queue_core)
  note c = same_core_live [OF core]
  have m2: "map_of (s_slots ?s2) p = Some (slot\<lparr>sl_Generation := g\<rparr>)"
    using c(9) by (simp add: set_slot_def update_conv)
  have "live (advance_slot p g keep s) = live ?s3"
    using assms same_core_live(3) [OF same_core_prims(18) [of ?s3]] by (simp add: advance_slot_def Let_def)
  moreover have "queued s = mset (sl_Queue slot) + queued ?s3" "flying ?s3 = flying s"
    using queued_set_slot [OF assms, of "slot\<lparr>sl_Generation := g\<rparr>"]
      queued_set_slot [OF m2, of "slot\<lparr>sl_Generation := g, sl_Queue := []\<rparr>"]
      flying_set_slot [OF assms, of "slot\<lparr>sl_Generation := g\<rparr>"]
      flying_set_slot [OF m2, of "slot\<lparr>sl_Generation := g, sl_Queue := []\<rparr>"] c(1,2)
    by (simp_all add: slot_queue_def flight_def add.commute)
  ultimately show ?thesis by (simp add: live_def)
qed

lemma queue_live:
  assumes "map_of (s_slots s) p = Some slot" "i \<in> set (sl_Queue slot)"
  shows "i \<in># live s"
  using advance_slot_live [OF assms(1), of 0 None] assms(2) by simp

lemma advance_slot_other: "k \<noteq> p \<Longrightarrow> map_of (s_slots (advance_slot k g keep s)) p = map_of (s_slots s) p"
proof -
  assume ne: "k \<noteq> p"
  have "s_slots (cancel_flight slot t) = s_slots t" for slot t
    by (simp add: cancel_flight_def split: option.splits)
  with ne show ?thesis
    by (simp add: advance_slot_def Let_def set_slot_def update_conv' map_of_stale_queue split: option.splits)
qed

lemma absent_fold_gone:
  assumes "sched_inv s" "p \<in> set ks" "p \<notin> set active" "map_of (s_slots s) p = Some slot" "i \<in> set (sl_Queue slot)"
  shows "i \<notin># live (foldl (topology_absent active) s ks)"
  using assms(1,2,4)
proof (induction ks arbitrary: s)
  case Nil
  then show ?case by simp
next
  case (Cons k ks)
  let ?s1 = "topology_absent active s k"
  have step: "sched_inv t \<Longrightarrow> keeps t (topology_absent active t x)" for t x
    by (auto simp: topology_absent_def keeps_refl intro: keeps_advance_slot split: option.splits)
  have inv1: "sched_inv ?s1" by (rule keeps_inv [OF step [OF Cons.prems(1)]])
  show ?case
  proof (cases "k = p")
    case True
    then have s1: "?s1 = advance_slot p (sl_Generation slot + 1) None s"
      using assms(3) Cons.prems(3) by (simp add: topology_absent_def)
    have "count (live s) i \<le> 1" using Cons.prems(1) by (simp add: sched_inv_def)
    moreover have "0 < count (mset (sl_Queue slot)) i" using assms(5) by simp
    moreover have "count (live s) i = count (mset (sl_Queue slot)) i + count (live ?s1) i"
      unfolding s1 by (subst advance_slot_live [OF Cons.prems(3), of "sl_Generation slot + 1" None]) (rule count_union)
    ultimately have "count (live ?s1) i = 0" by linarith
    then have "i \<notin># live ?s1" by (simp add: not_in_iff)
    moreover have "keeps ?s1 (foldl (topology_absent active) ?s1 ks)"
      using step inv1 by (rule keeps_foldl)
    ultimately show ?thesis by (auto simp: keeps_def)
  next
    case False
    then have "map_of (s_slots ?s1) p = Some slot"
      using Cons.prems(3) advance_slot_other [of k p] by (simp add: topology_absent_def split: option.splits)
    with Cons.IH [OF inv1] Cons.prems(2) False show ?thesis by simp
  qed
qed

lemma topology_gone:
  assumes "sched_inv s" "p \<in> set (s_knownActive s)" "p \<notin> set active" "map_of (s_slots s) p = Some slot"
    "i \<in> set (sl_Queue slot)"
  shows "i \<notin># live (applyTopology active gens now s)"
proof -
  let ?s1 = "foldl (topology_absent active) s (s_knownActive s)"
  let ?s2 = "foldl topology_generation ?s1 gens"
  let ?s3 = "?s2\<lparr>s_knownActive := active\<rparr>"
  have inv1: "sched_inv ?s1"
    using assms(1) by (intro keeps_inv [OF keeps_foldl])
      (auto simp: topology_absent_def keeps_refl intro: keeps_advance_slot split: option.splits)
  have gone: "i \<notin># live ?s1" by (rule absent_fold_gone [OF assms])
  have k2: "keeps ?s1 ?s2" using inv1 by (intro keeps_foldl keeps_topology_generation)
  have k3: "keeps ?s2 ?s3" using keeps_inv [OF k2] by (intro keeps_same_core) (simp_all add: sched_inv_def)
  have "keeps ?s1 (dispatch now ?s3)"
    by (rule keeps_trans [OF k2 keeps_trans [OF k3 keeps_dispatch [OF keeps_inv [OF k3]]]])
  with gone show ?thesis by (auto simp: keeps_def applyTopology_def Let_def)
qed

section \<open>Properties\<close>

definition demo_op :: "string \<Rightarrow> nat \<Rightarrow> string \<Rightarrow> scheduled_op" where
  "demo_op pane chan key =
     \<lparr>op_options = \<lparr>so_ID = chan, so_RequestID = ''r'', so_ReceivedAt = 1, so_Deadline = 100, so_Kind = ''prompt'',
        so_PaneID = pane, so_RelayLevel = False, so_PaneGeneration = 1, so_AllowAbsent = False,
        so_LedgerKey = key, so_PayloadHash = ''h''\<rparr>,
      op_sequence = chan, op_generation = 0, op_waiters = [(chan, False)], op_dispatched = False\<rparr>"

text \<open>C2. Concurrency is bounded: over every sequence of messages (requests with their own operation
  numbers, completions, topology changes, timers, cancellation, shutdown, in any order and with any
  clock), the number of workers counted is the number of operations in flight and never exceeds the
  capacity, and no operation is in two places at once.\<close>

theorem scheduler_capacity:
  assumes "distinct (run_ids evs)"
  shows "s_inUse (sched_run (NewScheduler store capacity) evs)
           = int (size (flying (sched_run (NewScheduler store capacity) evs)))
       \<and> s_inUse (sched_run (NewScheduler store capacity) evs)
           \<le> (if capacity \<le> 0 then defaultHerdrCapacity else capacity)
       \<and> (\<forall>i. count (live (sched_run (NewScheduler store capacity) evs)) i \<le> 1)"
  using sched_run_inv [of "NewScheduler store capacity" evs] NewScheduler_inv [of store capacity] assms
  by (simp add: sched_inv_def NewScheduler_def)

theorem scheduler_capacity_witness:
  "s_inUse (sched_run (NewScheduler (\<lambda>_. demo_op [] 0 []) 1)
       [SIngress 1 (demo_op ''a'' 1 []) 2 2 2, SIngress 2 (demo_op ''b'' 2 []) 3 3 3, STimer 200 200])
     \<le> (if (1 :: int) \<le> 0 then defaultHerdrCapacity else 1)"
  using scheduler_capacity [of "[SIngress 1 (demo_op ''a'' 1 []) 2 2 2, SIngress 2 (demo_op ''b'' 2 []) 3 3 3, STimer 200 200]"
      "\<lambda>_. demo_op [] 0 []" 1] by (simp add: run_ids_def)

text \<open>C1. Every request is answered, and only once: the response channels of the requests taken from the
  ingress channel are at every moment exactly those answered so far and those still held by a queued or
  running operation, each counted once. When the goroutine returns, none is left unanswered. (A second
  send would block the goroutine for ever, since a channel holds one answer.)\<close>

theorem scheduler_answers_once:
  assumes "distinct (run_ids evs)"
  shows "replied (sched_run (NewScheduler store capacity) evs) + pending (sched_run (NewScheduler store capacity) evs)
           = received (NewScheduler store capacity) evs
       \<and> (s_done (sched_run (NewScheduler store capacity) evs) \<longrightarrow>
            replied (sched_run (NewScheduler store capacity) evs) = received (NewScheduler store capacity) evs)"
proof -
  let ?s = "sched_run (NewScheduler store capacity) evs"
  have r: "account ?s = received (NewScheduler store capacity) evs" "drained ?s"
    using sched_run_inv [of "NewScheduler store capacity" evs] NewScheduler_inv [of store capacity] assms by simp_all
  then have "replied ?s + pending ?s = received (NewScheduler store capacity) evs"
    by (simp add: account_def add.commute)
  moreover have "s_done ?s \<Longrightarrow> pending ?s = {#}" using r(2) by (simp add: drained_def pending_def)
  ultimately show ?thesis by auto
qed

theorem scheduler_answers_once_witness:
  "replied (sched_run (NewScheduler (\<lambda>_. demo_op [] 0 []) 1) [SIngress 1 (demo_op ''a'' 1 []) 2 2 2, SStop])
     + pending (sched_run (NewScheduler (\<lambda>_. demo_op [] 0 []) 1) [SIngress 1 (demo_op ''a'' 1 []) 2 2 2, SStop])
   = received (NewScheduler (\<lambda>_. demo_op [] 0 []) 1) [SIngress 1 (demo_op ''a'' 1 []) 2 2 2, SStop]"
  using scheduler_answers_once [of "[SIngress 1 (demo_op ''a'' 1 []) 2 2 2, SStop]" "\<lambda>_. demo_op [] 0 []" 1]
  by (simp add: run_ids_def)

text \<open>Only current work is started: whatever \<open>dispatch\<close> starts was waiting, its deadline has not passed,
  and a pane operation is started only on a pane with nothing in flight and only if it was queued for the
  generation the slot has now; the token given to the worker carries that generation.\<close>

theorem dispatch_starts_current:
  "\<exists>new. s_log (dispatch now s) = s_log s @ new \<and> (\<forall>tok. EStart tok \<in> set new \<longrightarrow> startable now s tok)"
  using starts_ok_dispatch [of now s] by (simp add: starts_ok_def)

definition demo_state :: scheduler where
  "demo_state = (NewScheduler (\<lambda>_. (demo_op ''a'' 1 [])) 1)\<lparr>s_relayQueue := [1]\<rparr>"

theorem dispatch_starts_current_witness:
  "startable 5 demo_state \<lparr>wt_OperationID = 1, wt_PaneID = ''a'', wt_Generation = 0, wt_AllowAbsent = False, wt_Deadline = 100\<rparr>"
proof -
  have "s_log (dispatch 5 demo_state) = s_log demo_state
      @ [EStart \<lparr>wt_OperationID = 1, wt_PaneID = ''a'', wt_Generation = 0, wt_AllowAbsent = False, wt_Deadline = 100\<rparr>]"
    by (simp add: dispatch_def Let_def demo_state_def NewScheduler_def demo_op_def start_def emit_def
        setOwnerMetrics_def pane_rounds.simps)
  with dispatch_starts_current [of 5 demo_state] show ?thesis by auto
qed

text \<open>C35. No runnable work is left behind: unless the scheduler is stopping, after \<open>dispatch\<close> either the
  capacity is fully used, or no relay operation waits and every pane with a queue has one in flight.\<close>

theorem dispatch_work_conserving:
  assumes "sched_inv s" "\<not> s_stopping s"
  shows "s_inUse (dispatch now s) = s_capacity s \<or>
    s_relayQueue (dispatch now s) = [] \<and>
    (\<forall>p slot. map_of (s_slots (dispatch now s)) p = Some slot \<longrightarrow> sl_InFlight slot \<noteq> None \<or> sl_Queue slot = [])"
  using dispatch_idle [OF assms, of now] by (simp add: idle_pane_def)

theorem dispatch_work_conserving_witness:
  "s_inUse (dispatch 5 (NewScheduler (\<lambda>_. demo_op [] 0 []) 3)) = s_capacity (NewScheduler (\<lambda>_. demo_op [] 0 []) 3) \<or>
    s_relayQueue (dispatch 5 (NewScheduler (\<lambda>_. demo_op [] 0 []) 3)) = []"
proof -
  have "\<not> s_stopping (NewScheduler (\<lambda>_. demo_op [] 0 []) 3)" by (simp add: NewScheduler_def)
  from dispatch_work_conserving [OF NewScheduler_inv(1) this, of 5] show ?thesis by blast
qed

text \<open>Work queued for a pane that has gone is discarded for good: when a topology update no longer lists
  a known pane, the operations queued for it are neither queued nor in flight afterwards, and no later
  message makes them live again.\<close>

theorem topology_discards_queued:
  assumes "sched_inv s" "\<not> s_done s" "p \<in> set (s_knownActive s)" "p \<notin> set active"
    and "map_of (s_slots s) p = Some slot" "i \<in> set (sl_Queue slot)"
    and "distinct (run_ids evs)" "\<forall>j \<in> set (run_ids evs). j \<notin># live s"
  shows "i \<notin># live (sched_run s (STopology active gens now # evs))"
proof -
  let ?s1 = "sched_step s (STopology active gens now)"
  have "sched_inv ?s1 \<and> drained ?s1 \<and> set_mset (live ?s1) \<subseteq> set_mset (live s)"
    using sched_step_inv [OF assms(1), of "STopology active gens now"] assms(2) by (auto simp: drained_def)
  moreover have "i \<notin># live ?s1"
    using topology_gone [OF assms(1,3-6)] assms(2) by (simp add: sched_step_def Let_def stopAck_core)
  moreover have "i \<in># live s" using queue_live [OF assms(5,6)] .
  ultimately show ?thesis
    using sched_run_inv [of ?s1 evs] assms(7,8) by (auto simp: sched_run_def)
qed

theorem topology_discards_queued_witness:
  "1 \<notin># live (sched_run ((NewScheduler (\<lambda>_. demo_op ''a'' 1 []) 1)\<lparr>s_knownActive := [''a''],
        s_slots := [(''a'', \<lparr>sl_Generation = 1, sl_Queue = [1], sl_InFlight = None\<rparr>)]\<rparr>)
      [STopology [''b''] [] 5, STimer 6 6])"
  by (rule topology_discards_queued [where p = "''a''" and slot = "\<lparr>sl_Generation = 1, sl_Queue = [1], sl_InFlight = None\<rparr>"])
    (simp_all add: NewScheduler_def run_ids_def sched_inv_def live_def queued_def flying_def slot_sum_def
      slot_queue_def flight_def ledger_ok_def)

text \<open>The ledger makes a request idempotent: while its key has an entry, a current request with that key
  starts nothing and queues nothing. With a different payload it is refused, with a recorded result it
  gets that result marked as replayed, and otherwise it waits for the operation under way.\<close>

theorem ledger_deduplicates:
  assumes "\<not> s_stopping s" "nowR < so_Deadline (op_options op)" "so_LedgerKey (op_options op) \<noteq> []"
    and "so_RelayLevel (op_options op) \<or> (\<forall>slot. map_of (s_slots s) (so_PaneID (op_options op)) = Some slot \<longrightarrow>
           sl_Generation slot \<le> so_PaneGeneration (op_options op))"
    and "map_of (s_ledger (pruneLedger nowP s)) (so_LedgerKey (op_options op)) = Some e"
  shows "queued (ingress i op nowP nowR nowD s) = queued s \<and> flying (ingress i op nowP nowR nowD s) = flying s
     \<and> s_log (ingress i op nowP nowR nowD s) = s_log s @
         (if le_payloadHash e \<noteq> so_PayloadHash (op_options op)
          then map (\<lambda>w. EReply (fst w) None (Some ErrConflict) (snd w)) (op_waiters op)
          else case le_result e of
                 Some r \<Rightarrow> map (\<lambda>w. EReply (fst w) (Some r) None True) (op_waiters op)
               | None \<Rightarrow> [])"
proof -
  let ?opts = "op_options op"
  define s1 where "s1 = pruneLedger nowP (s\<lparr>s_ops := (s_ops s)(i := op)\<rparr>)"
  have f: "s_stopping s1 = s_stopping s" "s_slots s1 = s_slots s" "s_log s1 = s_log s" "s_ops s1 i = op"
    "s_ledger s1 = s_ledger (pruneLedger nowP s)" "queued s1 = queued s" "flying s1 = flying s"
    by (simp_all add: s1_def pruneLedger_def queued_def flying_def)
  have nostale: "\<not> (\<not> so_RelayLevel ?opts \<and> (case map_of (s_slots s1) (so_PaneID ?opts) of
                 Some slot \<Rightarrow> so_PaneGeneration ?opts < sl_Generation slot | None \<Rightarrow> False))"
    using assms(4) f(2) by (auto split: option.splits)
  have eq: "ingress i op nowP nowR nowD s =
     (if le_payloadHash e \<noteq> so_PayloadHash ?opts then reply i None (Some ErrConflict) s1
      else (case le_result e of
              Some r \<Rightarrow> replyReplayed i (Some r) None s1
            | None \<Rightarrow> (case le_operation e of Some j \<Rightarrow> attach_waiters i j s1 | None \<Rightarrow> s1)))"
    unfolding ingress_def Let_def s1_def [symmetric]
    using assms(1-3,5) nostale f(1,5) by (simp only: if_False not_True_eq_False option.case simp_thms)
  have q: "queued (attach_waiters i j t) = queued t" "flying (attach_waiters i j t) = flying t"
    "s_log (attach_waiters i j t) = s_log t" for i j t
    by (simp_all add: attach_waiters_def queued_def flying_def)
  have r: "queued (reply i r' e' t) = queued t" "flying (reply i r' e' t) = flying t"
    "queued (replyReplayed i r' e' t) = queued t" "flying (replyReplayed i r' e' t) = flying t" for r' e' t
    using same_core_live(1,2) [OF same_core_prims(5)] same_core_live(1,2) [OF same_core_prims(7)] by simp_all
  have l: "s_log (reply i r' e' t) = s_log t @ map (\<lambda>w. EReply (fst w) r' e' (snd w)) (op_waiters (s_ops t i))"
    "s_log (replyReplayed i r' e' t) = s_log t @ map (\<lambda>w. EReply (fst w) r' e' True) (op_waiters (s_ops t i))" for r' e' t
    by (simp_all add: reply_def replyReplayed_def replyWithReplay_def emit_def)
  show ?thesis
    unfolding eq using f by (simp add: q r l split: option.splits)
qed

theorem ledger_deduplicates_witness:
  "queued (ingress 2 (demo_op ''a'' 2 ''k'') 5 5 5 ((NewScheduler (\<lambda>_. demo_op ''a'' 1 ''k'') 1)\<lparr>s_ledger :=
      [(''k'', \<lparr>le_payloadHash = ''h'', le_operation = Some 1, le_result = None, le_generation = 1, le_paneID = ''a'', le_createdAt = 1\<rparr>)]\<rparr>))
   = queued (NewScheduler (\<lambda>_. demo_op ''a'' 1 ''k'') 1)"
proof -
  let ?e = "\<lparr>le_payloadHash = ''h'', le_operation = Some 1, le_result = None, le_generation = 1, le_paneID = ''a'', le_createdAt = 1\<rparr>"
  let ?s = "(NewScheduler (\<lambda>_. demo_op ''a'' 1 ''k'') 1)\<lparr>s_ledger := [(''k'', ?e)]\<rparr>"
  have "map_of (s_ledger (pruneLedger 5 ?s)) (so_LedgerKey (op_options (demo_op ''a'' 2 ''k''))) = Some ?e"
    by (simp add: pruneLedger_def evict_ledger.simps maxLedgerEntries_def demo_op_def)
  with ledger_deduplicates [of ?s 5 "demo_op ''a'' 2 ''k''" 5 ?e 2 5] show ?thesis
    by (simp add: NewScheduler_def demo_op_def queued_def)
qed

text \<open>A request that carries an outdated pane generation drops the ledger entry of its key, also when
  the entry belongs to another request that completed under the current generation: afterwards the key is
  unknown, so a further retry of that request is executed again instead of being answered from the ledger.\<close>

theorem stale_request_forgets_ledger_entry:
  assumes "\<not> s_stopping s" "nowR < so_Deadline (op_options op)" "\<not> so_RelayLevel (op_options op)"
    and "map_of (s_slots s) (so_PaneID (op_options op)) = Some slot"
    and "so_PaneGeneration (op_options op) < sl_Generation slot" "so_LedgerKey (op_options op) \<noteq> []"
  shows "map_of (s_ledger (ingress i op nowP nowR nowD s)) (so_LedgerKey (op_options op)) = None"
  using assms
  by (simp add: ingress_def Let_def pruneLedger_def delete_conv')

theorem stale_request_forgets_ledger_entry_witness:
  "map_of (s_ledger (ingress 2 (demo_op ''a'' 2 ''k'') 5 5 5 ((NewScheduler (\<lambda>_. demo_op ''a'' 1 ''k'') 1)\<lparr>
      s_slots := [(''a'', \<lparr>sl_Generation = 2, sl_Queue = [], sl_InFlight = None\<rparr>)],
      s_ledger := [(''k'', \<lparr>le_payloadHash = ''h'', le_operation = None, le_result = Some (stale_result (demo_op ''a'' 1 ''k'')),
                    le_generation = 2, le_paneID = ''a'', le_createdAt = 1\<rparr>)]\<rparr>))) ''k'' = None"
  using stale_request_forgets_ledger_entry [of "(NewScheduler (\<lambda>_. demo_op ''a'' 1 ''k'') 1)\<lparr>
      s_slots := [(''a'', \<lparr>sl_Generation = 2, sl_Queue = [], sl_InFlight = None\<rparr>)],
      s_ledger := [(''k'', \<lparr>le_payloadHash = ''h'', le_operation = None, le_result = Some (stale_result (demo_op ''a'' 1 ''k'')),
                    le_generation = 2, le_paneID = ''a'', le_createdAt = 1\<rparr>)]\<rparr>" 5 "demo_op ''a'' 2 ''k''"
      "\<lparr>sl_Generation = 2, sl_Queue = [], sl_InFlight = None\<rparr>" 2 5 5]
  by (simp add: NewScheduler_def demo_op_def)

end
