(* ===== verification/Attention_State.thy ===== *)
theory Attention_State
  imports Base64url "HOL-Library.AList" "HOL-Library.List_Lexorder" "HOL-Library.Char_ord"
begin

text \<open>
  The pane state store, \<^verbatim>\<open>internal/coordinator/state.go\<close> and \<^verbatim>\<open>internal/coordinator/triage.go\<close>: what the
  relay believes about every agent pane, fed by inventory polls and by status events, and the
  notification state machine on top.

  \<^item> A Go map whose absent keys read as zero is a total function (\<open>revision\<close>, \<open>generation\<close>, the flags);
    a map that is measured or iterated (\<open>agents\<close>, \<open>pendingEvents\<close>, \<open>triage\<close>) is an association list.
  \<^item> The details of a blocked pane are one record \<open>blocked_details\<close>; fields of \<open>AgentState\<close> that the
    store only carries along are in \<open>as_info\<close>. An interaction is its \<open>ID\<close> and its other contents.
  \<^item> A handler reads the clock once (\<open>now\<close>). Random event identifiers come from \<open>env_draw\<close>, the n-th
    draw of the process; \<open>env_digest\<close> is the hexadecimal SHA-256 of a string. The callback
    \<open>onTransition\<close> appends to \<open>st_transitions\<close>.
\<close>

section \<open>State\<close>

record interaction =
  in_ID :: string
  in_body :: string

record blocked_details =
  bd_BlockedEventID :: string
  bd_AttentionKind :: string
  bd_Prompt :: string
  bd_Command :: string
  bd_Options :: "string list"
  bd_Interaction :: "interaction option"
  bd_QuestionLayout :: bool
  bd_InteractionID :: string

record agent_state =
  as_PaneID :: string
  as_RawPaneID :: string
  as_TerminalID :: string
  as_TabID :: string
  as_WorkspaceID :: string
  as_Agent :: string
  as_Name :: string
  as_Status :: string
  as_Cwd :: string
  as_Project :: string
  as_UpdatedAt :: int
  as_LastActiveAt :: int
  as_LastSeenAt :: int
  as_ActivitySeq :: int
  as_SessionID :: string
  as_PaneRevision :: int
  as_StateRevision :: int
  as_ScrollMaxOffset :: int
  as_ForegroundCwd :: string
  as_blocked :: blocked_details
  as_info :: "string list"

record pending_event =
  pe_tabID :: string
  pe_workspaceID :: string
  pe_status :: string
  pe_updatedAt :: int
  pe_expiresAt :: time

record triage_record =
  tr_LastActiveAt :: int
  tr_LastSeenAt :: int

record workspace =
  ws_ID :: string
  ws_Number :: int
  ws_Label :: string
  ws_Focused :: bool
  ws_PaneCount :: int
  ws_TabCount :: int
  ws_ActiveTabID :: string
  ws_AgentStatus :: string
  ws_Cwd :: string
  ws_Worktree :: "string list option"
  ws_Session :: string

record poll_token =
  pt_BaseRevision :: int
  pt_TopologyGeneration :: int

record transition =
  tn_paneID :: string
  tn_agent :: string
  tn_project :: string
  tn_status :: string
  tn_revision :: int

record env =
  env_draw :: "nat \<Rightarrow> bytes option"
  env_digest :: "string \<Rightarrow> string"

record pane_store =
  st_agents :: "(string \<times> agent_state) list"
  st_workspaces :: "workspace list"
  st_revision :: "string \<Rightarrow> int"
  st_contentRev :: "string \<Rightarrow> int"
  st_attentionRev :: "string \<Rightarrow> int"
  st_prevStatus :: "string \<Rightarrow> string"
  st_topologyGen :: int
  st_revCounter :: int
  st_unseenDone :: "string \<Rightarrow> bool"
  st_ackDone :: "string \<Rightarrow> bool"
  st_finishedNotif :: "string \<Rightarrow> bool"
  st_completionRev :: "string \<Rightarrow> int"
  st_generation :: "string \<Rightarrow> int"
  st_triage :: "(string \<times> triage_record) list"
  st_triagePath :: string
  st_inventoryReady :: bool
  st_inventoryErrorCode :: string
  st_inventoryMessage :: string
  st_lastAttemptAt :: time
  st_lastSuccessAt :: time
  st_hasCallback :: bool
  st_transitions :: "transition list"
  st_pendingEvents :: "(string \<times> pending_event) list"
  st_topologyRetries :: nat
  st_blockedEventSeq :: nat
  st_draws :: nat
  st_customAnswers :: "string \<Rightarrow> (string \<times> string) list"

definition no_details :: blocked_details where
  "no_details = \<lparr>bd_BlockedEventID = [], bd_AttentionKind = [], bd_Prompt = [], bd_Command = [], bd_Options = [],
     bd_Interaction = None, bd_QuestionLayout = False, bd_InteractionID = []\<rparr>"

definition NewState :: pane_store where
  "NewState = \<lparr>st_agents = [], st_workspaces = [], st_revision = (\<lambda>_. 0), st_contentRev = (\<lambda>_. 0),
     st_attentionRev = (\<lambda>_. 0), st_prevStatus = (\<lambda>_. []), st_topologyGen = 0, st_revCounter = 0,
     st_unseenDone = (\<lambda>_. False), st_ackDone = (\<lambda>_. False), st_finishedNotif = (\<lambda>_. False),
     st_completionRev = (\<lambda>_. 0), st_generation = (\<lambda>_. 0), st_triage = [], st_triagePath = [],
     st_inventoryReady = False, st_inventoryErrorCode = [], st_inventoryMessage = [], st_lastAttemptAt = 0, st_lastSuccessAt = 0,
     st_hasCallback = False, st_transitions = [], st_pendingEvents = [], st_topologyRetries = 0,
     st_blockedEventSeq = 0, st_draws = 0, st_customAnswers = (\<lambda>_. [])\<rparr>"

definition AttentionApproval :: string where "AttentionApproval = ''approval''"
definition AttentionQuestion :: string where "AttentionQuestion = ''question''"
definition AttentionChat :: string where "AttentionChat = ''chat''"
definition AttentionUnknown :: string where "AttentionUnknown = ''unknown''"

definition attentionStatuses :: "string \<Rightarrow> bool" where
  "attentionStatuses s \<longleftrightarrow> s \<in> {''working'', ''blocked''}"

definition doneStatuses :: "string \<Rightarrow> bool" where
  "doneStatuses s \<longleftrightarrow> s \<in> {''done'', ''complete'', ''completed'', ''finished'', ''success'', ''succeeded'', ''unread''}"

section \<open>Blocked details\<close>

definition interactionsEqual :: "interaction option \<Rightarrow> interaction option \<Rightarrow> bool" where
  "interactionsEqual l r = (case (l, r) of (Some a, Some b) \<Rightarrow> in_ID a = in_ID b | _ \<Rightarrow> l = None \<and> r = None)"

definition details_equal :: "blocked_details \<Rightarrow> blocked_details \<Rightarrow> bool" where
  "details_equal l r \<longleftrightarrow>
     bd_BlockedEventID l = bd_BlockedEventID r \<and> bd_AttentionKind l = bd_AttentionKind r \<and>
     bd_Prompt l = bd_Prompt r \<and> bd_Command l = bd_Command r \<and> bd_Options l = bd_Options r \<and>
     interactionsEqual (bd_Interaction l) (bd_Interaction r) \<and>
     bd_QuestionLayout l = bd_QuestionLayout r \<and> bd_InteractionID l = bd_InteractionID r"

definition blockedDetailsEqual :: "agent_state option \<Rightarrow> agent_state \<Rightarrow> bool" where
  "blockedDetailsEqual l r = (case l of None \<Rightarrow> False | Some a \<Rightarrow> details_equal (as_blocked a) (as_blocked r))"

definition clearBlockedDetails :: "agent_state \<Rightarrow> agent_state" where
  "clearBlockedDetails a = a\<lparr>as_blocked := no_details\<rparr>"

definition copyBlockedDetails :: "agent_state \<Rightarrow> agent_state \<Rightarrow> agent_state" where
  "copyBlockedDetails destination source = destination\<lparr>as_blocked := as_blocked source\<rparr>"

text \<open>\<open>fmt.Sprintf("%d", n)\<close> for the numbers that occur in a fallback identifier.\<close>

definition signed_decimal :: "int \<Rightarrow> string" where
  "signed_decimal n = (if n < 0 then ''-'' @ decimal (nat (- n)) else decimal (nat n))"

definition newBlockedEventIDLocked :: "env \<Rightarrow> time \<Rightarrow> pane_store \<Rightarrow> pane_store \<times> string" where
  "newBlockedEventIDLocked E now s =
     (let s1 = s\<lparr>st_draws := st_draws s + 1\<rparr>
      in case env_draw E (st_draws s) of
           Some value \<Rightarrow> (s1, b64_encode value)
         | None \<Rightarrow>
             let sequence = st_blockedEventSeq s + 1
             in (s1\<lparr>st_blockedEventSeq := sequence\<rparr>,
                 ''blocked-'' @ signed_decimal (now - unix_epoch) @ ''-'' @ decimal sequence))"

definition applyBlockedCycleLocked ::
  "env \<Rightarrow> time \<Rightarrow> pane_store \<Rightarrow> agent_state \<Rightarrow> agent_state option \<Rightarrow> pane_store \<times> agent_state" where
  "applyBlockedCycleLocked E now s agent existing =
     (if as_Status agent \<noteq> ''blocked'' then (s, clearBlockedDetails agent)
      else
        let d = as_blocked agent;
            d1 = (if bd_AttentionKind d = [] then d\<lparr>bd_AttentionKind := AttentionUnknown\<rparr> else d)
        in if bd_BlockedEventID d1 \<noteq> [] then (s, agent\<lparr>as_blocked := d1\<rparr>)
           else case existing of
                  Some e \<Rightarrow>
                    if as_Status e = ''blocked'' \<and> bd_BlockedEventID (as_blocked e) \<noteq> []
                    then (s, agent\<lparr>as_blocked := d1\<lparr>bd_BlockedEventID := bd_BlockedEventID (as_blocked e)\<rparr>\<rparr>)
                    else let (s1, i) = newBlockedEventIDLocked E now s
                         in (s1, agent\<lparr>as_blocked := d1\<lparr>bd_BlockedEventID := i\<rparr>\<rparr>)
                | None \<Rightarrow>
                    let (s1, i) = newBlockedEventIDLocked E now s
                    in (s1, agent\<lparr>as_blocked := d1\<lparr>bd_BlockedEventID := i\<rparr>\<rparr>))"

section \<open>Triage\<close>

definition triageStateLimit :: nat where "triageStateLimit = 2048"
definition triageStateMaxAge :: duration where "triageStateMaxAge = 90 * 24 * 3600 * second"

definition triage_parts :: "agent_state \<Rightarrow> string list" where
  "triage_parts agent =
     (if as_TerminalID agent \<noteq> [] then [''terminal='' @ as_TerminalID agent]
      else [''pane='' @ (if as_RawPaneID agent \<noteq> [] then as_RawPaneID agent else as_PaneID agent),
            ''tab='' @ as_TabID agent, ''workspace='' @ as_WorkspaceID agent])
     @ (if as_SessionID agent \<noteq> [] then [''session='' @ as_SessionID agent] else [])"

definition join_nul :: "string list \<Rightarrow> string" where
  "join_nul xs = concat (case xs of [] \<Rightarrow> [] | y # ys \<Rightarrow> y # map (\<lambda>z. CHR 0x00 # z) ys)"

definition triageIdentity :: "env \<Rightarrow> agent_state \<Rightarrow> string" where
  "triageIdentity E agent = env_digest E (join_nul (triage_parts agent))"

definition applyTriageLocked :: "env \<Rightarrow> pane_store \<Rightarrow> agent_state \<Rightarrow> agent_state" where
  "applyTriageLocked E s agent =
     (case map_of (st_triage s) (triageIdentity E agent) of
        Some r \<Rightarrow> agent\<lparr>as_LastActiveAt := tr_LastActiveAt r, as_LastSeenAt := tr_LastSeenAt r\<rparr>
      | None \<Rightarrow> agent\<lparr>as_LastActiveAt := 0, as_LastSeenAt := 0\<rparr>)"

definition syncTriageLocked :: "env \<Rightarrow> pane_store \<Rightarrow> agent_state \<Rightarrow> pane_store \<times> bool" where
  "syncTriageLocked E s agent =
     (let key = triageIdentity E agent;
          next = \<lparr>tr_LastActiveAt = as_LastActiveAt agent, tr_LastSeenAt = as_LastSeenAt agent\<rparr>
      in if key = [] then (s, False)
         else if tr_LastActiveAt next = 0 \<and> tr_LastSeenAt next = 0 then (s, False)
         else if map_of (st_triage s) key = Some next then (s, False)
         else (s\<lparr>st_triage := AList.update key next (st_triage s)\<rparr>, True))"

definition triage_stamp :: "string \<times> triage_record \<Rightarrow> int" where
  "triage_stamp x = max (tr_LastActiveAt (snd x)) (tr_LastSeenAt (snd x))"

definition pruneTriageLocked :: "int \<Rightarrow> pane_store \<Rightarrow> pane_store" where
  "pruneTriageLocked cutoff s =
     (let kept = filter (\<lambda>x. \<not> triage_stamp x < cutoff) (st_triage s)
      in if length kept \<le> triageStateLimit then s\<lparr>st_triage := kept\<rparr>
         else let ordered = sort_key triage_stamp kept;
                  dropped = map fst (take (length ordered - triageStateLimit) ordered)
              in s\<lparr>st_triage := filter (\<lambda>x. fst x \<notin> set dropped) kept\<rparr>)"

definition persistTriageLocked :: "time \<Rightarrow> pane_store \<Rightarrow> pane_store" where
  "persistTriageLocked now s =
     (if st_triagePath s = [] then s else pruneTriageLocked (unix_milli (now - triageStateMaxAge)) s)"

section \<open>Transitions\<close>

definition notify :: "string \<Rightarrow> string \<Rightarrow> pane_store \<Rightarrow> pane_store" where
  "notify paneID status s =
     (if \<not> st_hasCallback s then s
      else let (agent, project) = (case map_of (st_agents s) paneID of
                                     Some a \<Rightarrow> (as_Agent a, as_Project a) | None \<Rightarrow> ([], []))
           in s\<lparr>st_transitions := st_transitions s @
                 [\<lparr>tn_paneID = paneID, tn_agent = agent, tn_project = project, tn_status = status,
                   tn_revision = st_revision s paneID\<rparr>]\<rparr>)"

definition mark_completed :: "string \<Rightarrow> pane_store \<Rightarrow> pane_store" where
  "mark_completed paneID s =
     s\<lparr>st_ackDone := (st_ackDone s)(paneID := False), st_unseenDone := (st_unseenDone s)(paneID := True),
       st_completionRev := (st_completionRev s)(paneID := st_revision s paneID)\<rparr>"

definition registerTransition :: "string \<Rightarrow> string \<Rightarrow> string \<Rightarrow> string \<Rightarrow> pane_store \<Rightarrow> pane_store" where
  "registerTransition paneID prev status previousAttention s =
     (if attentionStatuses status
      then let s1 = (if prev \<noteq> status
                     then s\<lparr>st_unseenDone := (st_unseenDone s)(paneID := False),
                            st_ackDone := (st_ackDone s)(paneID := False),
                            st_finishedNotif := (st_finishedNotif s)(paneID := False),
                            st_completionRev := (st_completionRev s)(paneID := 0)\<rparr>
                     else s);
               s2 = (if status = ''blocked'' \<and> prev \<noteq> ''blocked'' then notify paneID status s1 else s1)
           in (if status = ''working'' \<and> prev \<noteq> ''working'' then notify paneID status s2 else s2)
      else if doneStatuses status
      then (if attentionStatuses prev then notify paneID status (mark_completed paneID s) else s)
      else if status = ''idle'' \<and> attentionStatuses prev
      then (if prev = ''blocked'' \<and> previousAttention = AttentionChat then s
            else notify paneID status (mark_completed paneID s))
      else s)"

definition syncAttentionCompletionLocked :: "string \<Rightarrow> string \<Rightarrow> string \<Rightarrow> pane_store \<Rightarrow> pane_store" where
  "syncAttentionCompletionLocked paneID previous current s =
     (if current = AttentionChat
      then (if previous \<noteq> AttentionChat
            then s\<lparr>st_finishedNotif := (st_finishedNotif s)(paneID := False),
                   st_completionRev := (st_completionRev s)(paneID := st_revision s paneID)\<rparr>
            else s)
      else if previous = AttentionChat
      then s\<lparr>st_finishedNotif := (st_finishedNotif s)(paneID := False),
             st_completionRev := (st_completionRev s)(paneID := 0)\<rparr>
      else s)"

definition preservesChatCompletion :: "string \<Rightarrow> string \<Rightarrow> string \<Rightarrow> bool" where
  "preservesChatCompletion previousStatus currentStatus previousAttention \<longleftrightarrow>
     previousStatus = ''blocked'' \<and> currentStatus = ''idle'' \<and> previousAttention = AttentionChat"

section \<open>Identity\<close>

definition identity_differs :: "string \<Rightarrow> string \<Rightarrow> bool" where
  "identity_differs a b \<longleftrightarrow> a \<noteq> [] \<and> b \<noteq> [] \<and> a \<noteq> b"

definition paneSessionReplaced :: "agent_state \<Rightarrow> agent_state \<Rightarrow> bool" where
  "paneSessionReplaced existing incoming \<longleftrightarrow>
     identity_differs (as_RawPaneID existing) (as_RawPaneID incoming) \<or>
     identity_differs (as_TerminalID existing) (as_TerminalID incoming) \<or>
     identity_differs (as_TabID existing) (as_TabID incoming) \<or>
     identity_differs (as_WorkspaceID existing) (as_WorkspaceID incoming)"

definition eventIdentityMatches :: "agent_state \<Rightarrow> string \<Rightarrow> string \<Rightarrow> bool" where
  "eventIdentityMatches agent tabID workspaceID \<longleftrightarrow>
     \<not> identity_differs tabID (as_TabID agent) \<and> \<not> identity_differs workspaceID (as_WorkspaceID agent)"

section \<open>Inventory\<close>

definition forget_flags :: "string \<Rightarrow> pane_store \<Rightarrow> pane_store" where
  "forget_flags p s =
     s\<lparr>st_prevStatus := (st_prevStatus s)(p := []), st_unseenDone := (st_unseenDone s)(p := False),
       st_ackDone := (st_ackDone s)(p := False), st_finishedNotif := (st_finishedNotif s)(p := False),
       st_completionRev := (st_completionRev s)(p := 0)\<rparr>"

definition bump_generation :: "string \<Rightarrow> pane_store \<Rightarrow> pane_store" where
  "bump_generation p s = s\<lparr>st_generation := (st_generation s)(p := st_generation s p + 1)\<rparr>"

text \<open>The existing entry an incoming one continues: none after a replacement.\<close>

definition continued :: "pane_store \<Rightarrow> agent_state \<Rightarrow> agent_state option" where
  "continued s incoming =
     (case map_of (st_agents s) (as_PaneID incoming) of
        Some e \<Rightarrow> if paneSessionReplaced e incoming then None else Some e
      | None \<Rightarrow> None)"

definition is_replaced :: "pane_store \<Rightarrow> agent_state \<Rightarrow> bool" where
  "is_replaced s incoming =
     (case map_of (st_agents s) (as_PaneID incoming) of
        Some e \<Rightarrow> paneSessionReplaced e incoming | None \<Rightarrow> False)"

text \<open>The generation after this entry: a replacement or a reappearance starts a new epoch.\<close>

definition open_epoch :: "bool \<Rightarrow> pane_store \<Rightarrow> agent_state \<Rightarrow> pane_store" where
  "open_epoch initialSnapshot s incoming =
     (let p = as_PaneID incoming in
      if is_replaced s incoming then forget_flags p (bump_generation p s)
      else if continued s incoming = None \<and> \<not> initialSnapshot \<and> st_generation s p > 0
      then bump_generation p s
      else s)"

text \<open>The status and its details: an event that landed during the poll wins over the sampled status.\<close>

definition merge_status :: "env \<Rightarrow> int \<Rightarrow> pane_store \<Rightarrow> agent_state \<Rightarrow> agent_state option \<Rightarrow> agent_state" where
  "merge_status E baseRev s incoming existing =
     (case existing of
        None \<Rightarrow> applyTriageLocked E s incoming
      | Some e \<Rightarrow>
          let cp = incoming\<lparr>as_LastActiveAt := as_LastActiveAt e, as_LastSeenAt := as_LastSeenAt e\<rparr>
          in if st_revision s (as_PaneID incoming) > baseRev \<and> as_Status incoming \<noteq> as_Status e
             then let c = cp\<lparr>as_Status := as_Status e\<rparr>
                  in if as_Status e = ''blocked'' then copyBlockedDetails c e else c
             else cp)"

definition take_pending ::
  "time \<Rightarrow> pane_store \<Rightarrow> agent_state \<Rightarrow> agent_state \<Rightarrow> pane_store \<times> agent_state \<times> bool" where
  "take_pending now s incoming cp =
     (case map_of (st_pendingEvents s) (as_PaneID incoming) of
        None \<Rightarrow> (s, cp, False)
      | Some pending \<Rightarrow>
          let s1 = s\<lparr>st_pendingEvents := AList.delete (as_PaneID incoming) (st_pendingEvents s)\<rparr>
          in if now < pe_expiresAt pending
                \<and> eventIdentityMatches incoming (pe_tabID pending) (pe_workspaceID pending)
             then (s1, cp\<lparr>as_Status := pe_status pending, as_UpdatedAt := pe_updatedAt pending\<rparr>, True)
             else (s1, cp, False))"

definition stamp_times ::
  "time \<Rightarrow> bool \<Rightarrow> bool \<Rightarrow> agent_state option \<Rightarrow> agent_state \<Rightarrow> agent_state" where
  "stamp_times now initialSnapshot pendingTimestamp existing cp =
     (let updated = (case existing of
            None \<Rightarrow> if pendingTimestamp then as_UpdatedAt cp else if initialSnapshot then 0 else unix_milli now
          | Some e \<Rightarrow>
              if as_Status e = as_Status cp \<and> as_Name e = as_Name cp \<and> as_Cwd e = as_Cwd cp \<and> as_Agent e = as_Agent cp
                 \<and> as_ActivitySeq e = as_ActivitySeq cp \<and> as_PaneRevision e = as_PaneRevision cp
                 \<and> as_ScrollMaxOffset e = as_ScrollMaxOffset cp \<and> as_ForegroundCwd e = as_ForegroundCwd cp
              then as_UpdatedAt e else unix_milli now);
          c = cp\<lparr>as_UpdatedAt := updated\<rparr>;
          activityAdvanced = (pendingTimestamp \<or> (case existing of None \<Rightarrow> False
            | Some e \<Rightarrow> as_Status e \<noteq> as_Status c \<or> as_ActivitySeq e \<noteq> as_ActivitySeq c))
      in if activityAdvanced \<and> as_UpdatedAt c > as_LastActiveAt c
         then c\<lparr>as_LastActiveAt := as_UpdatedAt c\<rparr> else c)"

definition bump_revisions :: "agent_state option \<Rightarrow> agent_state \<Rightarrow> pane_store \<Rightarrow> pane_store" where
  "bump_revisions existing cp s =
     (let p = as_PaneID cp;
          attentionChanged = (\<not> blockedDetailsEqual existing cp);
          changed = (case existing of None \<Rightarrow> True
            | Some e \<Rightarrow> as_Status e \<noteq> as_Status cp \<or> as_Name e \<noteq> as_Name cp \<or> as_Cwd e \<noteq> as_Cwd cp
                \<or> as_Agent e \<noteq> as_Agent cp \<or> as_ActivitySeq e \<noteq> as_ActivitySeq cp \<or> attentionChanged)
      in s\<lparr>st_contentRev := (if changed then (st_contentRev s)(p := st_contentRev s p + 1) else st_contentRev s),
           st_attentionRev := (if attentionChanged then (st_attentionRev s)(p := st_attentionRev s p + 1)
                               else st_attentionRev s)\<rparr>)"

definition restore_flags :: "agent_state option \<Rightarrow> agent_state \<Rightarrow> pane_store \<Rightarrow> pane_store" where
  "restore_flags existing cp s =
     (let p = as_PaneID cp in
      if existing = None \<and> (doneStatuses (as_Status cp) \<or> as_Status cp = ''idle'')
      then if as_LastActiveAt cp > as_LastSeenAt cp
           then s\<lparr>st_unseenDone := (st_unseenDone s)(p := True), st_ackDone := (st_ackDone s)(p := False)\<rparr>
           else if doneStatuses (as_Status cp) \<and> (as_LastActiveAt cp > 0 \<or> as_LastSeenAt cp > 0)
           then s\<lparr>st_ackDone := (st_ackDone s)(p := True)\<rparr>
           else s
      else s)"

text \<open>The body of the loop of \<open>commitInventoryLocked\<close> for one incoming entry, in two halves: the entry that
  will be stored, then storing it with its transition, flags, triage and notifications.\<close>

definition prepare_entry ::
  "env \<Rightarrow> time \<Rightarrow> int \<Rightarrow> bool \<Rightarrow> pane_store \<Rightarrow> agent_state \<Rightarrow> pane_store \<times> agent_state" where
  "prepare_entry E now baseRev initialSnapshot s incoming =
     (let existing = continued s incoming;
          s1 = open_epoch initialSnapshot s incoming;
          cp1 = merge_status E baseRev s1 incoming existing;
          (s2, cp2, pendingTimestamp) = take_pending now s1 incoming cp1;
          cp3 = stamp_times now initialSnapshot pendingTimestamp existing cp2;
          (s3, cp) = applyBlockedCycleLocked E now s2 cp3 existing
      in (bump_revisions existing cp s3, cp))"

definition install_entry ::
  "env \<Rightarrow> agent_state option \<Rightarrow> agent_state \<Rightarrow> pane_store \<Rightarrow> pane_store \<times> bool" where
  "install_entry E existing cp s =
     (let p = as_PaneID cp;
          attentionChanged = (\<not> blockedDetailsEqual existing cp);
          prev = st_prevStatus s p;
          previousAttention = (case existing of Some e \<Rightarrow> bd_AttentionKind (as_blocked e) | None \<Rightarrow> []);
          s1 = s\<lparr>st_revision := (st_revision s)(p := st_revCounter s), st_agents := AList.update p cp (st_agents s),
                 st_prevStatus := (st_prevStatus s)(p := as_Status cp)\<rparr>;
          s2 = registerTransition p prev (as_Status cp) previousAttention s1;
          s3 = restore_flags existing cp s2;
          (s4, dirty) = syncTriageLocked E s3 cp;
          s5 = (if preservesChatCompletion prev (as_Status cp) previousAttention then s4
                else syncAttentionCompletionLocked p previousAttention (bd_AttentionKind (as_blocked cp)) s4);
          s6 = (if prev = ''blocked'' \<and> as_Status cp = ''blocked'' \<and>
                   (previousAttention \<noteq> bd_AttentionKind (as_blocked cp) \<or>
                    attentionChanged \<and> bd_AttentionKind (as_blocked cp) = AttentionApproval)
                then notify p (as_Status cp) s5 else s5)
      in (s6, dirty))"

definition commit_agent ::
  "env \<Rightarrow> time \<Rightarrow> int \<Rightarrow> bool \<Rightarrow> pane_store \<times> bool \<Rightarrow> agent_state \<Rightarrow> pane_store \<times> bool" where
  "commit_agent E now baseRev initialSnapshot sd incoming =
     (let (s, triageDirty) = sd;
          (s1, cp) = prepare_entry E now baseRev initialSnapshot s incoming;
          (s2, dirty) = install_entry E (continued s incoming) cp s1
      in (s2, dirty \<or> triageDirty))"

text \<open>A pane missing from the snapshot.\<close>

definition remove_agent :: "pane_store \<Rightarrow> string \<Rightarrow> pane_store" where
  "remove_agent s p =
     (let s1 = forget_flags p (bump_generation p s)
      in s1\<lparr>st_agents := AList.delete p (st_agents s1), st_revision := (st_revision s1)(p := 0),
            st_contentRev := (st_contentRev s1)(p := 0), st_attentionRev := (st_attentionRev s1)(p := 0),
            st_customAnswers := (st_customAnswers s1)(p := [])\<rparr>)"

definition topology_changed :: "pane_store \<Rightarrow> agent_state list \<Rightarrow> bool" where
  "topology_changed s agents \<longleftrightarrow>
     length agents \<noteq> length (st_agents s) \<or>
     (\<exists>a \<in> set agents. case map_of (st_agents s) (as_PaneID a) of
        None \<Rightarrow> True | Some e \<Rightarrow> paneSessionReplaced e a)"

definition commitInventoryLocked :: "env \<Rightarrow> time \<Rightarrow> agent_state list \<Rightarrow> int \<Rightarrow> pane_store \<Rightarrow> pane_store" where
  "commitInventoryLocked E now agents baseRev s =
     (let initialSnapshot = (\<not> st_inventoryReady s);
          s1 = s\<lparr>st_topologyGen := (if topology_changed s agents then st_topologyGen s + 1 else st_topologyGen s),
                 st_revCounter := st_revCounter s + 1, st_inventoryReady := True, st_inventoryErrorCode := [], st_inventoryMessage := [],
                 st_lastAttemptAt := now, st_lastSuccessAt := now\<rparr>;
          (s2, triageDirty) = foldl (commit_agent E now baseRev initialSnapshot) (s1, False) agents;
          gone = filter (\<lambda>p. p \<notin> as_PaneID ` set agents) (map fst (st_agents s2));
          s3 = foldl remove_agent s2 gone;
          s4 = s3\<lparr>st_pendingEvents := filter (\<lambda>x. now < pe_expiresAt (snd x)) (st_pendingEvents s3)\<rparr>
      in (if triageDirty then persistTriageLocked now s4 else s4))"

definition CommitInventory :: "env \<Rightarrow> time \<Rightarrow> agent_state list \<Rightarrow> int \<Rightarrow> pane_store \<Rightarrow> pane_store" where
  "CommitInventory E now agents baseRev s = commitInventoryLocked E now agents baseRev s"

section \<open>Workspaces, topology and polls\<close>

definition workspacesEqual :: "workspace list \<Rightarrow> workspace list \<Rightarrow> bool" where
  "workspacesEqual l r \<longleftrightarrow> map (\<lambda>w. w\<lparr>ws_Session := []\<rparr>) l = map (\<lambda>w. w\<lparr>ws_Session := []\<rparr>) r"

definition commitWorkspacesLocked :: "workspace list \<Rightarrow> pane_store \<Rightarrow> pane_store \<times> bool" where
  "commitWorkspacesLocked workspaces s =
     (let previousByID = map_of (rev (map (\<lambda>w. (ws_ID w, ws_Cwd w)) (st_workspaces s)));
          merged = map (\<lambda>w. if ws_Cwd w = [] then w\<lparr>ws_Cwd := (case previousByID (ws_ID w) of Some c \<Rightarrow> c | None \<Rightarrow> [])\<rparr> else w)
                     workspaces
      in if workspacesEqual (st_workspaces s) merged then (s, False)
         else (s\<lparr>st_workspaces := merged\<rparr>, True))"

definition topology_entry :: "pane_store \<Rightarrow> agent_state \<Rightarrow> agent_state" where
  "topology_entry s incoming =
     (case map_of (st_agents s) (as_PaneID incoming) of
        None \<Rightarrow> incoming
      | Some e \<Rightarrow>
          if paneSessionReplaced e incoming then incoming
          else let c = incoming\<lparr>as_Status := as_Status e\<rparr>
               in if as_Status e = ''blocked'' then copyBlockedDetails c e else c)"

definition CommitTopology ::
  "env \<Rightarrow> time \<Rightarrow> agent_state list \<Rightarrow> workspace list \<Rightarrow> int \<Rightarrow> pane_store \<Rightarrow> pane_store \<times> bool" where
  "CommitTopology E now agents workspaces baseRev s =
     (let (s1, changed) = commitWorkspacesLocked workspaces s;
          s2 = (if changed then s1\<lparr>st_topologyGen := st_topologyGen s1 + 1\<rparr> else s1)
      in (commitInventoryLocked E now (map (topology_entry s2) agents) baseRev s2, changed))"

definition BeginPoll :: "pane_store \<Rightarrow> poll_token" where
  "BeginPoll s = \<lparr>pt_BaseRevision = st_revCounter s, pt_TopologyGeneration = st_topologyGen s\<rparr>"

definition CommitPoll ::
  "env \<Rightarrow> time \<Rightarrow> agent_state list \<Rightarrow> workspace list \<Rightarrow> poll_token \<Rightarrow> pane_store \<Rightarrow> pane_store \<times> bool \<times> bool" where
  "CommitPoll E now agents workspaces token s =
     (if st_topologyGen s \<noteq> pt_TopologyGeneration token
      then (s\<lparr>st_topologyRetries := st_topologyRetries s + 1\<rparr>, False, False)
      else let (s1, changed) = commitWorkspacesLocked workspaces s
           in (commitInventoryLocked E now agents (pt_BaseRevision token) s1, changed, True))"

definition MarkTopologyChanged :: "pane_store \<Rightarrow> pane_store" where
  "MarkTopologyChanged s = s\<lparr>st_topologyGen := st_topologyGen s + 1\<rparr>"

definition BumpGeneration :: "string \<Rightarrow> pane_store \<Rightarrow> pane_store" where
  "BumpGeneration p s = bump_generation p s"

definition PaneSession :: "pane_store \<Rightarrow> string \<Rightarrow> int \<times> bool" where
  "PaneSession s p = (st_generation s p, map_of (st_agents s) p \<noteq> None)"

text \<open>\<open>uint64(s.generation[paneID]) == generation\<close>, for a generation that is a \<open>uint64\<close>.\<close>

definition PaneSessionCurrent :: "pane_store \<Rightarrow> string \<Rightarrow> nat \<Rightarrow> bool" where
  "PaneSessionCurrent s p generation \<longleftrightarrow> map_of (st_agents s) p \<noteq> None \<and> st_generation s p mod 2 ^ 64 = int generation"

section \<open>Events\<close>

definition oldest_pending :: "(string \<times> pending_event) list \<Rightarrow> string" where
  "oldest_pending es =
     fst (foldl (\<lambda>best x. if fst best = [] \<or> pe_expiresAt (snd x) < snd best then (fst x, pe_expiresAt (snd x)) else best)
            ([], 0) es)"

definition add_pending :: "time \<Rightarrow> string \<Rightarrow> string \<Rightarrow> string \<Rightarrow> string \<Rightarrow> int \<Rightarrow> pane_store \<Rightarrow> pane_store" where
  "add_pending now p tabID workspaceID status updatedAt s =
     (let es = (if length (st_pendingEvents s) \<ge> 128
                then AList.delete (oldest_pending (st_pendingEvents s)) (st_pendingEvents s) else st_pendingEvents s)
      in s\<lparr>st_pendingEvents := AList.update p
            \<lparr>pe_tabID = tabID, pe_workspaceID = workspaceID, pe_status = status, pe_updatedAt = updatedAt,
             pe_expiresAt = now + 30 * second\<rparr> es\<rparr>)"

text \<open>The pane after an event: its times and, for a new blocked cycle, a new event identifier.\<close>

definition event_agent :: "env \<Rightarrow> time \<Rightarrow> string \<Rightarrow> int \<Rightarrow> agent_state \<Rightarrow> pane_store \<Rightarrow> pane_store \<times> agent_state" where
  "event_agent E now status updatedAt a s =
     (let a1 = a\<lparr>as_Status := status, as_UpdatedAt := updatedAt,
                 as_LastActiveAt := (if updatedAt > as_LastActiveAt a then updatedAt
                                     else if updatedAt \<le> 0 then unix_milli now else as_LastActiveAt a)\<rparr>
      in if status = ''blocked''
         then if as_Status a \<noteq> ''blocked'' \<or> bd_BlockedEventID (as_blocked a) = []
              then let (s1, i) = newBlockedEventIDLocked E now s
                   in (s1, a1\<lparr>as_blocked := no_details\<lparr>bd_BlockedEventID := i, bd_AttentionKind := AttentionUnknown\<rparr>\<rparr>)
              else (s, a1)
         else (s, clearBlockedDetails a1))"

text \<open>The counters an accepted event advances, and what follows once the pane is updated.\<close>

definition event_start :: "string \<Rightarrow> agent_state \<Rightarrow> string \<Rightarrow> pane_store \<Rightarrow> pane_store" where
  "event_start p a status s =
     s\<lparr>st_revCounter := st_revCounter s + 1, st_revision := (st_revision s)(p := st_revCounter s + 1),
       st_contentRev := (if as_Status a \<noteq> status then (st_contentRev s)(p := st_contentRev s p + 1) else st_contentRev s)\<rparr>"

definition event_store :: "string \<Rightarrow> agent_state \<Rightarrow> agent_state \<Rightarrow> pane_store \<Rightarrow> pane_store" where
  "event_store p a a' s =
     s\<lparr>st_agents := AList.update p a' (st_agents s),
       st_attentionRev := (if details_equal (as_blocked a) (as_blocked a') then st_attentionRev s
                           else (st_attentionRev s)(p := st_attentionRev s p + 1)),
       st_prevStatus := (st_prevStatus s)(p := as_Status a')\<rparr>"

definition event_finish :: "env \<Rightarrow> time \<Rightarrow> string \<Rightarrow> agent_state \<Rightarrow> agent_state \<Rightarrow> pane_store \<Rightarrow> pane_store" where
  "event_finish E now p a a' s =
     (let prev = as_Status a; status = as_Status a';
          previousAttention = bd_AttentionKind (as_blocked a);
          s1 = registerTransition p prev status previousAttention s;
          s2 = (if preservesChatCompletion prev status previousAttention then s1
                else syncAttentionCompletionLocked p previousAttention (bd_AttentionKind (as_blocked a')) s1);
          (s3, dirty) = syncTriageLocked E s2 a'
      in (if dirty then persistTriageLocked now s3 else s3))"

definition CommitEventForSession ::
  "env \<Rightarrow> time \<Rightarrow> string \<Rightarrow> string \<Rightarrow> string \<Rightarrow> string \<Rightarrow> int \<Rightarrow> pane_store \<Rightarrow> pane_store \<times> bool" where
  "CommitEventForSession E now p tabID workspaceID status updatedAt s =
     (case map_of (st_agents s) p of
        None \<Rightarrow> (add_pending now p tabID workspaceID status updatedAt s, False)
      | Some a \<Rightarrow>
          if \<not> eventIdentityMatches a tabID workspaceID then (s, False)
          else
            let (s1, a') = event_agent E now status updatedAt a (event_start p a status s)
            in (event_finish E now p a a' (event_store p a a' s1), True))"

definition CommitEvent :: "env \<Rightarrow> time \<Rightarrow> string \<Rightarrow> string \<Rightarrow> int \<Rightarrow> pane_store \<Rightarrow> pane_store \<times> bool" where
  "CommitEvent E now p status updatedAt s = CommitEventForSession E now p [] [] status updatedAt s"

record classification =
  cl_Kind :: string
  cl_Prompt :: string
  cl_Command :: string
  cl_Options :: "string list"
  cl_Interaction :: "interaction option"
  cl_QuestionLayout :: bool

definition applyAttentionClassification :: "agent_state \<Rightarrow> classification \<Rightarrow> agent_state \<times> bool" where
  "applyAttentionClassification agent c =
     (let options = (if cl_Kind c \<noteq> AttentionApproval then [] else cl_Options c);
          interaction = (if cl_Kind c \<noteq> AttentionQuestion then None else cl_Interaction c);
          layout = (cl_Kind c = AttentionQuestion \<and> cl_QuestionLayout c);
          iid = (case interaction of Some i \<Rightarrow> in_ID i | None \<Rightarrow> []);
          d = as_blocked agent;
          changed = (bd_AttentionKind d \<noteq> cl_Kind c \<or> bd_Prompt d \<noteq> cl_Prompt c \<or> bd_Command d \<noteq> cl_Command c
            \<or> bd_Options d \<noteq> options \<or> \<not> interactionsEqual (bd_Interaction d) interaction
            \<or> bd_QuestionLayout d \<noteq> layout \<or> bd_InteractionID d \<noteq> iid)
      in (agent\<lparr>as_blocked := d\<lparr>bd_AttentionKind := cl_Kind c, bd_Prompt := cl_Prompt c, bd_Command := cl_Command c,
            bd_Options := options, bd_Interaction := interaction, bd_QuestionLayout := layout,
            bd_InteractionID := iid\<rparr>\<rparr>, changed))"

definition CommitAttentionClassification ::
  "string \<Rightarrow> string \<Rightarrow> nat \<Rightarrow> int \<Rightarrow> classification \<Rightarrow> pane_store \<Rightarrow> pane_store \<times> agent_state option" where
  "CommitAttentionClassification p eventID generation contentRevision classification s =
     (case map_of (st_agents s) p of
        None \<Rightarrow> (s, None)
      | Some agent \<Rightarrow>
          if as_Status agent \<noteq> ''blocked'' \<or> bd_BlockedEventID (as_blocked agent) \<noteq> eventID
             \<or> st_generation s p mod 2 ^ 64 \<noteq> int generation \<or> st_contentRev s p \<noteq> contentRevision
          then (s, None)
          else
            let c = (if cl_Kind classification = [] then classification\<lparr>cl_Kind := AttentionUnknown\<rparr> else classification);
                (agent', changed) = applyAttentionClassification agent c;
                s1 = s\<lparr>st_agents := AList.update p agent' (st_agents s)\<rparr>;
                s2 = (if changed
                      then syncAttentionCompletionLocked p (bd_AttentionKind (as_blocked agent)) (bd_AttentionKind (as_blocked agent'))
                             (s1\<lparr>st_revCounter := st_revCounter s1 + 1,
                                 st_revision := (st_revision s1)(p := st_revCounter s1 + 1),
                                 st_contentRev := (st_contentRev s1)(p := st_contentRev s1 p + 1),
                                 st_attentionRev := (st_attentionRev s1)(p := st_attentionRev s1 p + 1)\<rparr>)
                      else s1)
            in (s2, Some (agent'\<lparr>as_StateRevision := st_revision s2 p\<rparr>)))"

section \<open>Acknowledgement, display, notifications\<close>

definition AcknowledgePane :: "env \<Rightarrow> time \<Rightarrow> string \<Rightarrow> pane_store \<Rightarrow> pane_store \<times> bool" where
  "AcknowledgePane E now p s =
     (case map_of (st_agents s) p of
        None \<Rightarrow> (s, False)
      | Some agent \<Rightarrow>
          let agent' = agent\<lparr>as_LastSeenAt := max (unix_milli now) (as_LastActiveAt agent)\<rparr>;
              s1 = s\<lparr>st_agents := AList.update p agent' (st_agents s)\<rparr>;
              s2 = (if st_unseenDone s1 p \<or> doneStatuses (as_Status agent')
                    then s1\<lparr>st_unseenDone := (st_unseenDone s1)(p := False), st_ackDone := (st_ackDone s1)(p := True)\<rparr>
                    else s1);
              (s3, dirty) = syncTriageLocked E s2 agent'
          in (if dirty then persistTriageLocked now s3 else s3, True))"

definition DisplayedStatus :: "pane_store \<Rightarrow> string \<Rightarrow> string" where
  "DisplayedStatus s p =
     (case map_of (st_agents s) p of
        None \<Rightarrow> []
      | Some a \<Rightarrow>
          if doneStatuses (as_Status a) \<and> st_ackDone s p then ''idle''
          else if as_Status a = ''idle'' \<and> st_unseenDone s p then ''done''
          else as_Status a)"

definition snapshot_agent :: "pane_store \<Rightarrow> agent_state \<Rightarrow> agent_state" where
  "snapshot_agent s a =
     (let p = as_PaneID a;
          c1 = a\<lparr>as_StateRevision := st_revision s p\<rparr>;
          c2 = (if doneStatuses (as_Status c1) \<and> st_ackDone s p then c1\<lparr>as_Status := ''idle''\<rparr> else c1)
      in (if as_Status c2 = ''idle'' \<and> st_unseenDone s p then c2\<lparr>as_Status := ''done''\<rparr> else c2))"

definition Snapshot :: "pane_store \<Rightarrow> agent_state list" where
  "Snapshot s = sort_key as_PaneID (map (\<lambda>x. snapshot_agent s (snd x)) (st_agents s))"

definition RegisterFinishedNotification :: "string \<Rightarrow> pane_store \<Rightarrow> pane_store \<times> bool" where
  "RegisterFinishedNotification p s =
     (if st_finishedNotif s p then (s, False)
      else (s\<lparr>st_finishedNotif := (st_finishedNotif s)(p := True)\<rparr>, True))"

definition RegisterFinishedNotificationForTransition :: "string \<Rightarrow> int \<Rightarrow> pane_store \<Rightarrow> pane_store \<times> bool" where
  "RegisterFinishedNotificationForTransition p revision s =
     (case map_of (st_agents s) p of
        None \<Rightarrow> (s, False)
      | Some agent \<Rightarrow>
          if (attentionStatuses (as_Status agent) \<and>
                \<not> (as_Status agent = ''blocked'' \<and> bd_AttentionKind (as_blocked agent) = AttentionChat))
             \<or> st_completionRev s p \<noteq> revision \<or> st_finishedNotif s p
          then (s, False)
          else (s\<lparr>st_finishedNotif := (st_finishedNotif s)(p := True)\<rparr>, True))"

section \<open>Inventory health\<close>

text \<open>A failed poll: the error of the herdr command line carries a code, any other error does not.\<close>

datatype poll_error = CLIError string | OtherError

definition MarkInventoryFailure :: "time \<Rightarrow> poll_error option \<Rightarrow> pane_store \<Rightarrow> pane_store" where
  "MarkInventoryFailure now err s =
     (let s1 = s\<lparr>st_lastAttemptAt := now, st_inventoryReady := False\<rparr>
      in case err of
           None \<Rightarrow> s1\<lparr>st_inventoryErrorCode := [], st_inventoryMessage := []\<rparr>
         | Some e \<Rightarrow>
             if e = CLIError ''server_not_running''
             then s1\<lparr>st_inventoryErrorCode := ''server_not_running'',
                     st_inventoryMessage := ''Herdr is not running on this computer. Start it with `herdr`.''\<rparr>
             else s1\<lparr>st_inventoryErrorCode := ''command_failed'',
                     st_inventoryMessage := ''Unable to read the current Herdr agent inventory.''\<rparr>)"

definition MarkTopologyDegraded :: "time \<Rightarrow> pane_store \<Rightarrow> pane_store" where
  "MarkTopologyDegraded now s =
     s\<lparr>st_lastAttemptAt := now, st_inventoryReady := False, st_inventoryErrorCode := ''topology_churn'',
       st_inventoryMessage := ''Agent inventory is changing too quickly to produce a stable snapshot.''\<rparr>"

record inventory_status =
  is_state :: string
  is_error_code :: string
  is_message :: string
  is_last_attempt_at :: int
  is_last_success_at :: int
  is_stale :: bool

text \<open>Seconds since 1970, or zero for the zero time.\<close>

definition unix_seconds :: "time \<Rightarrow> int" where
  "unix_seconds t = (if is_zero_time t then 0 else (t - unix_epoch) div second)"

definition InventoryStatus :: "pane_store \<Rightarrow> inventory_status" where
  "InventoryStatus s =
     (let state = (if st_inventoryReady s then ''ready''
                   else if st_inventoryErrorCode s \<noteq> [] then ''error'' else ''starting'')
      in \<lparr>is_state = state, is_error_code = st_inventoryErrorCode s, is_message = st_inventoryMessage s,
          is_last_attempt_at = unix_seconds (st_lastAttemptAt s),
          is_last_success_at = unix_seconds (st_lastSuccessAt s),
          is_stale = (state \<noteq> ''ready'' \<and> \<not> is_zero_time (st_lastSuccessAt s))\<rparr>)"

section \<open>Is a transition still the current one?\<close>

definition TransitionCurrent :: "pane_store \<Rightarrow> string \<Rightarrow> string \<Rightarrow> int \<Rightarrow> bool" where
  "TransitionCurrent s p status r =
     (case map_of (st_agents s) p of None \<Rightarrow> False | Some a \<Rightarrow> as_Status a = status \<and> st_revision s p = r)"

definition BlockedTransitionCurrent :: "pane_store \<Rightarrow> string \<Rightarrow> string \<Rightarrow> nat \<Rightarrow> bool" where
  "BlockedTransitionCurrent s p eventID generation =
     (case map_of (st_agents s) p of None \<Rightarrow> False
      | Some a \<Rightarrow> as_Status a = ''blocked'' \<and> bd_BlockedEventID (as_blocked a) = eventID
          \<and> st_generation s p mod 2 ^ 64 = int generation)"

definition AttentionTransitionCurrent :: "pane_store \<Rightarrow> string \<Rightarrow> string \<Rightarrow> nat \<Rightarrow> string \<Rightarrow> int \<Rightarrow> bool" where
  "AttentionTransitionCurrent s p eventID generation kind r =
     (case map_of (st_agents s) p of None \<Rightarrow> False
      | Some a \<Rightarrow> as_Status a = ''blocked'' \<and> bd_BlockedEventID (as_blocked a) = eventID
          \<and> st_generation s p mod 2 ^ 64 = int generation
          \<and> bd_AttentionKind (as_blocked a) = kind \<and> st_attentionRev s p = r)"

definition CompletionCurrent :: "pane_store \<Rightarrow> string \<Rightarrow> int \<Rightarrow> bool" where
  "CompletionCurrent s p r =
     (case map_of (st_agents s) p of None \<Rightarrow> False
      | Some a \<Rightarrow> (\<not> attentionStatuses (as_Status a) \<or>
            as_Status a = ''blocked'' \<and> bd_AttentionKind (as_blocked a) = AttentionChat)
          \<and> st_completionRev s p = r)"

section \<open>Custom answers, workspaces and reads\<close>

text \<open>\<open>SummaryKey\<close> belongs to the question parser and \<open>TrimSpace\<close> to the standard library: both are
  arguments. An association list per pane stands for the inner map.\<close>

definition RecordCustomAnswer ::
  "(string \<Rightarrow> string) \<Rightarrow> (string \<Rightarrow> string) \<Rightarrow> string \<Rightarrow> string \<Rightarrow> string \<Rightarrow> pane_store \<Rightarrow> pane_store" where
  "RecordCustomAnswer SummaryKey TrimSpace p questionText txt s =
     (let key = SummaryKey questionText; value = TrimSpace txt; answers = st_customAnswers s p
      in if p = [] \<or> key = [] \<or> value = [] then s
         else if map_of answers key = None \<and> 32 \<le> length answers then s
         else s\<lparr>st_customAnswers := (st_customAnswers s)(p := AList.update key value answers)\<rparr>)"

definition CustomAnswers :: "pane_store \<Rightarrow> string \<Rightarrow> (string \<times> string) list" where
  "CustomAnswers s p = st_customAnswers s p"

definition SetOnTransition :: "bool \<Rightarrow> pane_store \<Rightarrow> pane_store" where
  "SetOnTransition present s = s\<lparr>st_hasCallback := present\<rparr>"

definition CommitWorkspaces :: "workspace list \<Rightarrow> pane_store \<Rightarrow> pane_store \<times> bool" where
  "CommitWorkspaces ws s = commitWorkspacesLocked ws s"

definition Workspace :: "pane_store \<Rightarrow> string \<Rightarrow> workspace option" where
  "Workspace s wid = find (\<lambda>w. ws_ID w = wid) (st_workspaces s)"

definition Agent :: "pane_store \<Rightarrow> string \<Rightarrow> agent_state option" where
  "Agent s p = map_option (\<lambda>a. a\<lparr>as_StateRevision := st_revision s p\<rparr>) (map_of (st_agents s) p)"

text \<open>\<open>time.UnixMilli\<close>; the zero time when no pane has been updated.\<close>

definition LastUpdatedAt :: "pane_store \<Rightarrow> time" where
  "LastUpdatedAt s =
     (let latest = foldl (\<lambda>m x. if as_UpdatedAt (snd x) > m then as_UpdatedAt (snd x) else m) 0 (st_agents s)
      in if latest = 0 then 0 else unix_epoch + latest * millisecond)"

section \<open>Durable triage\<close>

text \<open>What reading the triage file gives: nothing there, an I/O error, bytes that do not parse, or a
  version and its records.\<close>

datatype triage_file = TriageMissing | TriageUnreadable | TriageMalformed | TriageFile int "(string \<times> triage_record) list"
datatype triage_error = TriageDirRequired | TriageDirFailed | TriageReadFailed | TriageInvalid

definition triageStateVersion :: int where "triageStateVersion = 2"

definition load_triage :: "bool \<Rightarrow> (string \<times> triage_record) list \<Rightarrow> (string \<times> triage_record) list" where
  "load_triage migrated panes =
     map (\<lambda>(k, r). (k, if migrated then r\<lparr>tr_LastActiveAt := 0\<rparr> else r))
       (filter (\<lambda>(k, r). \<not> (k = [] \<or> tr_LastActiveAt r < 0 \<or> tr_LastSeenAt r < 0)) panes)"

definition EnableTriagePersistence ::
  "(string \<Rightarrow> string) \<Rightarrow> (string \<Rightarrow> string \<Rightarrow> string) \<Rightarrow> bool \<Rightarrow> triage_file \<Rightarrow> time \<Rightarrow> string \<Rightarrow> pane_store \<Rightarrow> pane_store \<times> triage_error option" where
  "EnableTriagePersistence TrimSpace Join mkdir_ok f now cacheDir s =
     (if TrimSpace cacheDir = [] then (s, Some TriageDirRequired)
      else if \<not> mkdir_ok then (s, Some TriageDirFailed)
      else let s1 = s\<lparr>st_triagePath := Join cacheDir ''triage-state.json''\<rparr> in
           case f of
             TriageUnreadable \<Rightarrow> (s, Some TriageReadFailed)
           | TriageMalformed \<Rightarrow> (s, Some TriageInvalid)
           | TriageMissing \<Rightarrow> (s1\<lparr>st_triage := []\<rparr>, None)
           | TriageFile version panes \<Rightarrow>
               if version \<noteq> 1 \<and> version \<noteq> triageStateVersion then (s, Some TriageInvalid)
               else let migrated = (version = 1);
                        s2 = s1\<lparr>st_triage := load_triage migrated panes\<rparr>
                    in (if migrated then persistTriageLocked now s2 else s2, None))"

text \<open>The contents \<open>persistTriageLocked\<close> writes when a path is set.\<close>

definition triage_contents :: "pane_store \<Rightarrow> triage_file" where
  "triage_contents s = TriageFile triageStateVersion (st_triage s)"

end
