(* ===== verification/Attention_Inv.thy ===== *)
theory Attention_Inv
  imports Attention_State
begin

text \<open>
  Invariants of the pane store over every sequence of its operations, and what a poll and an event may
  and may not change. \<open>pane_view\<close> is what the invariant says about one pane; an operation on one pane
  leaves the view of every other pane alone.
\<close>

section \<open>Frames\<close>

type_synonym pane_view = "agent_state option \<times> bool \<times> bool \<times> string \<times> int"

definition pane_view :: "pane_store \<Rightarrow> string \<Rightarrow> pane_view" where
  "pane_view s p = (map_of (st_agents s) p, st_unseenDone s p, st_ackDone s p, st_prevStatus s p, st_generation s p)"

text \<open>Parts that only touch counters, the transition log, triage or pending events.\<close>

definition same_panes :: "pane_store \<Rightarrow> pane_store \<Rightarrow> bool" where
  "same_panes s s' \<longleftrightarrow> st_agents s' = st_agents s \<and> st_unseenDone s' = st_unseenDone s \<and> st_ackDone s' = st_ackDone s
     \<and> st_prevStatus s' = st_prevStatus s \<and> st_generation s' = st_generation s"

lemma same_panes_view: "same_panes s s' \<Longrightarrow> pane_view s' = pane_view s"
  by (simp add: same_panes_def pane_view_def fun_eq_iff)

lemma same_panes_trans: "same_panes s s' \<Longrightarrow> same_panes s' s'' \<Longrightarrow> same_panes s s''"
  by (simp add: same_panes_def)

lemma same_panes_prims [simp]:
  "same_panes s s" "same_panes s (notify p status s)" "same_panes s (syncAttentionCompletionLocked p a b s)"
  "same_panes s (fst (syncTriageLocked E s a'))" "same_panes s (pruneTriageLocked c s)" "same_panes s (persistTriageLocked now s)"
  "same_panes s (fst (newBlockedEventIDLocked E now s))" "same_panes s (fst (take_pending now s incoming cp))"
  "same_panes s (bump_revisions existing cp s)"
  by (auto simp: same_panes_def notify_def syncAttentionCompletionLocked_def syncTriageLocked_def pruneTriageLocked_def
      persistTriageLocked_def newBlockedEventIDLocked_def take_pending_def bump_revisions_def Let_def
      split: option.splits prod.splits)

lemma same_panes_blocked: "same_panes s (fst (applyBlockedCycleLocked E now s a e))"
  using same_panes_prims(7) [of s E now]
  by (auto simp: applyBlockedCycleLocked_def Let_def case_prod_beta split: option.splits)

lemma same_panes_event: "same_panes s (fst (event_agent E now st u a s))"
  using same_panes_prims(7) [of s E now] by (auto simp: event_agent_def Let_def case_prod_beta)

text \<open>The flags of one pane after a transition.\<close>

lemma registerTransition_flags:
  "st_agents (registerTransition p prev st pa s) = st_agents s" "st_prevStatus (registerTransition p prev st pa s) = st_prevStatus s"
  "st_generation (registerTransition p prev st pa s) = st_generation s"
  "q \<noteq> p \<Longrightarrow> st_unseenDone (registerTransition p prev st pa s) q = st_unseenDone s q"
  "q \<noteq> p \<Longrightarrow> st_ackDone (registerTransition p prev st pa s) q = st_ackDone s q"
  "\<not> (st_unseenDone s p \<and> st_ackDone s p) \<Longrightarrow>
     \<not> (st_unseenDone (registerTransition p prev st pa s) p \<and> st_ackDone (registerTransition p prev st pa s) p)"
  "\<not> attentionStatuses prev \<Longrightarrow> \<not> attentionStatuses st \<Longrightarrow> registerTransition p prev st pa s = s"
  by (auto simp: registerTransition_def mark_completed_def notify_def Let_def split: option.splits prod.splits)

definition blocked_wf :: "agent_state \<Rightarrow> bool" where
  "blocked_wf a \<longleftrightarrow>
     (as_Status a = ''blocked'' \<longrightarrow> bd_BlockedEventID (as_blocked a) \<noteq> [] \<and> bd_AttentionKind (as_blocked a) \<noteq> [])
   \<and> (as_Status a \<noteq> ''blocked'' \<longrightarrow> as_blocked a = no_details)"

definition view_ok :: "string \<Rightarrow> pane_view \<Rightarrow> bool" where
  "view_ok p v = (case v of (a, unseen, ack, prev, gen) \<Rightarrow>
     \<not> (unseen \<and> ack) \<and> 0 \<le> gen \<and>
     (case a of None \<Rightarrow> \<not> unseen \<and> \<not> ack \<and> prev = []
      | Some x \<Rightarrow> as_PaneID x = p \<and> prev = as_Status x \<and> blocked_wf x))"

definition store_inv :: "pane_store \<Rightarrow> bool" where
  "store_inv s \<longleftrightarrow> distinct (map fst (st_agents s)) \<and> distinct (map fst (st_pendingEvents s))
     \<and> length (st_pendingEvents s) \<le> 128 \<and> fst ` set (st_pendingEvents s) \<inter> fst ` set (st_agents s) = {}
     \<and> (\<forall>p. view_ok p (pane_view s p))"

text \<open>What the environment promises: random values are twelve bytes long.\<close>

definition draws_ok :: "env \<Rightarrow> bool" where
  "draws_ok E \<longleftrightarrow> (\<forall>n v. env_draw E n = Some v \<longrightarrow> length v = 12)"

lemma newBlockedEventID_nonempty:
  "draws_ok E \<Longrightarrow> snd (newBlockedEventIDLocked E now s) \<noteq> []"
proof -
  assume ok: "draws_ok E"
  have "b64_encode v \<noteq> []" if "env_draw E n = Some v" for v n
  proof -
    have "length v = 12" using ok that by (auto simp: draws_ok_def)
    then show ?thesis using length_b64_encode [of v] by auto
  qed
  then show ?thesis
    by (auto simp: newBlockedEventIDLocked_def Let_def split: option.splits)
qed

lemma applyBlockedCycle_wf:
  assumes "draws_ok E"
  shows "blocked_wf (snd (applyBlockedCycleLocked E now s a e))"
    "as_Status (snd (applyBlockedCycleLocked E now s a e)) = as_Status a"
    "as_PaneID (snd (applyBlockedCycleLocked E now s a e)) = as_PaneID a"
  using newBlockedEventID_nonempty [OF assms, of now s]
  by (auto simp: applyBlockedCycleLocked_def blocked_wf_def Let_def clearBlockedDetails_def AttentionUnknown_def
      case_prod_beta split: option.splits)

lemma event_agent_wf:
  assumes "draws_ok E" "blocked_wf a"
  shows "blocked_wf (snd (event_agent E now st u a s))" "as_Status (snd (event_agent E now st u a s)) = st"
    "as_PaneID (snd (event_agent E now st u a s)) = as_PaneID a"
  using newBlockedEventID_nonempty [OF assms(1), of now s] assms(2)
  by (auto simp: event_agent_def blocked_wf_def Let_def clearBlockedDetails_def AttentionUnknown_def case_prod_beta)

section \<open>One inventory entry\<close>

lemma merge_status_pane [simp]: "as_PaneID (merge_status E b s inc e) = as_PaneID inc"
  by (auto simp: merge_status_def applyTriageLocked_def copyBlockedDetails_def Let_def split: option.splits)

lemma take_pending_pane [simp]: "as_PaneID (fst (snd (take_pending now s inc cp))) = as_PaneID cp"
  by (auto simp: take_pending_def Let_def split: option.splits)

lemma stamp_times_pane [simp]: "as_PaneID (stamp_times now i t e c) = as_PaneID c" "as_Status (stamp_times now i t e c) = as_Status c"
  by (auto simp: stamp_times_def Let_def)

lemma take_pending_events:
  "st_pendingEvents (fst (take_pending now s inc cp)) =
     (if map_of (st_pendingEvents s) (as_PaneID inc) = None then st_pendingEvents s
      else AList.delete (as_PaneID inc) (st_pendingEvents s))"
  by (auto simp: take_pending_def Let_def split: option.splits)

lemma notify_pending: "st_pendingEvents (notify p st s) = st_pendingEvents s"
  by (simp add: notify_def Let_def split: option.splits)

lemma pending_frames:
  "st_pendingEvents (fst (newBlockedEventIDLocked E now s)) = st_pendingEvents s"
  "st_pendingEvents (fst (applyBlockedCycleLocked E now s a e)) = st_pendingEvents s"
  "st_pendingEvents (bump_revisions e cp s) = st_pendingEvents s"
  "st_pendingEvents (open_epoch ini s inc) = st_pendingEvents s"
  "st_pendingEvents (notify p st s) = st_pendingEvents s"
  "st_pendingEvents (registerTransition p prev st pa s) = st_pendingEvents s"
  "st_pendingEvents (restore_flags e cp s) = st_pendingEvents s"
  "st_pendingEvents (fst (syncTriageLocked E s cp)) = st_pendingEvents s"
  "st_pendingEvents (syncAttentionCompletionLocked p x y s) = st_pendingEvents s"
  "st_pendingEvents (persistTriageLocked now s) = st_pendingEvents s"
  "st_pendingEvents (fst (event_agent E now st u a s)) = st_pendingEvents s"
proof -
  show new: "st_pendingEvents (fst (newBlockedEventIDLocked E now s)) = st_pendingEvents s"
    by (simp add: newBlockedEventIDLocked_def Let_def split: option.splits)
  then show "st_pendingEvents (fst (applyBlockedCycleLocked E now s a e)) = st_pendingEvents s"
    "st_pendingEvents (fst (event_agent E now st u a s)) = st_pendingEvents s"
    by (auto simp: applyBlockedCycleLocked_def event_agent_def Let_def case_prod_beta split: option.splits)
  show "st_pendingEvents (notify p st s) = st_pendingEvents s" by (rule notify_pending)
  show "st_pendingEvents (registerTransition p prev st pa s) = st_pendingEvents s"
    by (simp add: registerTransition_def Let_def notify_pending mark_completed_def)
qed (auto simp: bump_revisions_def open_epoch_def forget_flags_def bump_generation_def restore_flags_def syncTriageLocked_def
      syncAttentionCompletionLocked_def persistTriageLocked_def pruneTriageLocked_def Let_def)

lemma prepare_entry_props:
  assumes "draws_ok E" "prepare_entry E now b ini s inc = (s1, cp)"
  shows "same_panes (open_epoch ini s inc) s1" "blocked_wf cp" "as_PaneID cp = as_PaneID inc"
    "st_pendingEvents s1 = (if map_of (st_pendingEvents s) (as_PaneID inc) = None then st_pendingEvents s
      else AList.delete (as_PaneID inc) (st_pendingEvents s))"
proof -
  let ?e = "continued s inc" and ?s0 = "open_epoch ini s inc"
  obtain s2 cp2 pend where tp: "take_pending now ?s0 inc (merge_status E b ?s0 inc ?e) = (s2, cp2, pend)"
    by (metis surj_pair)
  let ?cp3 = "stamp_times now ini pend ?e cp2"
  obtain s3 cp' where ab: "applyBlockedCycleLocked E now s2 ?cp3 ?e = (s3, cp')" by fastforce
  have eq: "s1 = bump_revisions ?e cp s3" "cp = cp'"
    using assms(2) tp ab by (auto simp: prepare_entry_def Let_def)
  have "same_panes ?s0 s2" using same_panes_prims(8) [of ?s0 now inc "merge_status E b ?s0 inc ?e"] tp by simp
  moreover have "same_panes s2 s3" using same_panes_blocked [of s2 E now ?cp3 ?e] ab by simp
  ultimately show "same_panes ?s0 s1" unfolding eq by (meson same_panes_prims(9) same_panes_trans)
  show "blocked_wf cp" "as_PaneID cp = as_PaneID inc"
    using applyBlockedCycle_wf [OF assms(1), of now s2 ?cp3 ?e] ab eq tp
      take_pending_pane [of now ?s0 inc "merge_status E b ?s0 inc ?e"] by simp_all
  have "st_pendingEvents s3 = st_pendingEvents s2" using pending_frames(2) [of E now s2 ?cp3 ?e] ab by simp
  then show "st_pendingEvents s1 = (if map_of (st_pendingEvents s) (as_PaneID inc) = None then st_pendingEvents s
      else AList.delete (as_PaneID inc) (st_pendingEvents s))"
    using take_pending_events [of now ?s0 inc "merge_status E b ?s0 inc ?e"] tp eq
    by (simp add: pending_frames)
qed

lemma restore_flags_frame:
  "st_agents (restore_flags e cp s) = st_agents s" "st_prevStatus (restore_flags e cp s) = st_prevStatus s"
  "st_generation (restore_flags e cp s) = st_generation s"
  "q \<noteq> as_PaneID cp \<Longrightarrow> st_unseenDone (restore_flags e cp s) q = st_unseenDone s q"
  "q \<noteq> as_PaneID cp \<Longrightarrow> st_ackDone (restore_flags e cp s) q = st_ackDone s q"
  "e \<noteq> None \<Longrightarrow> restore_flags e cp s = s"
  by (auto simp: restore_flags_def Let_def)

lemma attention_not_done: "attentionStatuses x \<Longrightarrow> \<not> doneStatuses x \<and> x \<noteq> ''idle''"
  by (auto simp: attentionStatuses_def doneStatuses_def)

lemma restore_flags_attention: "attentionStatuses (as_Status cp) \<Longrightarrow> restore_flags e cp s = s"
  using attention_not_done [of "as_Status cp"] by (simp add: restore_flags_def Let_def)

lemma install_entry_props:
  fixes s cp
  defines "p \<equiv> as_PaneID cp"
  assumes i: "install_entry E e cp s = (s', d)"
    and excl: "\<not> (st_unseenDone s p \<and> st_ackDone s p)"
    and fresh: "e = None \<Longrightarrow> \<not> st_unseenDone s p \<and> \<not> st_ackDone s p \<and> st_prevStatus s p = []"
  shows "st_agents s' = AList.update p cp (st_agents s)" "st_generation s' = st_generation s"
    "st_prevStatus s' = (st_prevStatus s)(p := as_Status cp)" "st_pendingEvents s' = st_pendingEvents s"
    "q \<noteq> p \<Longrightarrow> st_unseenDone s' q = st_unseenDone s q" "q \<noteq> p \<Longrightarrow> st_ackDone s' q = st_ackDone s q"
    "\<not> (st_unseenDone s' p \<and> st_ackDone s' p)"
proof -
  let ?prev = "st_prevStatus s p"
  let ?pa = "case e of Some e \<Rightarrow> bd_AttentionKind (as_blocked e) | None \<Rightarrow> []"
  let ?s1 = "s\<lparr>st_revision := (st_revision s)(p := st_revCounter s), st_agents := AList.update p cp (st_agents s),
                 st_prevStatus := (st_prevStatus s)(p := as_Status cp)\<rparr>"
  let ?s2 = "registerTransition p ?prev (as_Status cp) ?pa ?s1"
  define s3 where "s3 = restore_flags e cp ?s2"
  define s4 where "s4 = fst (syncTriageLocked E s3 cp)"
  define s5 where "s5 = (if preservesChatCompletion ?prev (as_Status cp) ?pa then s4
                else syncAttentionCompletionLocked p ?pa (bd_AttentionKind (as_blocked cp)) s4)"
  define c where "c = (?prev = ''blocked'' \<and> as_Status cp = ''blocked'' \<and> (?pa \<noteq> bd_AttentionKind (as_blocked cp) \<or>
                    \<not> blockedDetailsEqual e cp \<and> bd_AttentionKind (as_blocked cp) = AttentionApproval))"
  have "fst (install_entry E e cp s) = (if c then notify p (as_Status cp) s5 else s5)"
    unfolding c_def s5_def s4_def s3_def by (simp only: install_entry_def Let_def case_prod_beta fst_conv p_def)
  then have s': "s' = s5 \<or> s' = notify p (as_Status cp) s5" using i by (simp split: if_splits)
  have c45: "same_panes s3 s5"
    using same_panes_prims(3) [of s4] same_panes_prims(4) [of s3 E cp] same_panes_trans
    unfolding s5_def s4_def by presburger
  have core: "same_panes s3 s'"
    using s' c45 same_panes_prims(2) [of s5] same_panes_trans by metis
  show "st_agents s' = AList.update p cp (st_agents s)" "st_generation s' = st_generation s"
    "st_prevStatus s' = (st_prevStatus s)(p := as_Status cp)"
    using core by (simp_all add: same_panes_def s3_def restore_flags_frame registerTransition_flags)
  have pe: "st_pendingEvents s5 = st_pendingEvents s" by (simp add: s5_def s4_def s3_def pending_frames)
  then show "st_pendingEvents s' = st_pendingEvents s" using s' pending_frames(5) [of p "as_Status cp" s5] by metis
  show "st_unseenDone s' q = st_unseenDone s q" "st_ackDone s' q = st_ackDone s q" if "q \<noteq> p"
    using core that by (simp_all add: same_panes_def s3_def p_def restore_flags_frame registerTransition_flags)
  show "\<not> (st_unseenDone s' p \<and> st_ackDone s' p)"
  proof (cases e)
    case (Some x)
    then have "s3 = ?s2" unfolding s3_def by (intro restore_flags_frame(6)) simp
    moreover have "\<not> (st_unseenDone ?s2 p \<and> st_ackDone ?s2 p)"
      by (rule registerTransition_flags(6)) (use excl in simp)
    ultimately show ?thesis using core by (simp add: same_panes_def)
  next
    case None
    note f = fresh [OF None]
    have "\<not> (st_unseenDone s3 p \<and> st_ackDone s3 p)"
    proof (cases "attentionStatuses (as_Status cp)")
      case True
      then have "s3 = ?s2" unfolding s3_def by (rule restore_flags_attention)
      moreover have "\<not> (st_unseenDone ?s2 p \<and> st_ackDone ?s2 p)"
        by (rule registerTransition_flags(6)) (use excl in simp)
      ultimately show ?thesis by simp
    next
      case False
      have "\<not> attentionStatuses ?prev" using f by (simp add: attentionStatuses_def)
      then have "?s2 = ?s1" using False by (rule registerTransition_flags(7))
      then show ?thesis using f None by (auto simp: s3_def restore_flags_def Let_def p_def)
    qed
    then show ?thesis using core by (simp add: same_panes_def)
  qed
qed

lemma open_epoch_frame:
  "st_agents (open_epoch ini s inc) = st_agents s"
  "q \<noteq> as_PaneID inc \<Longrightarrow> pane_view (open_epoch ini s inc) q = pane_view s q"
  "st_generation (open_epoch ini s inc) (as_PaneID inc) = st_generation s (as_PaneID inc) +
     (if is_replaced s inc \<or> (map_of (st_agents s) (as_PaneID inc) = None \<and> \<not> ini \<and> st_generation s (as_PaneID inc) > 0)
      then 1 else 0)"
  by (auto simp: open_epoch_def forget_flags_def bump_generation_def pane_view_def Let_def is_replaced_def continued_def
      split: option.splits if_splits)

lemma open_epoch_fresh:
  assumes "view_ok (as_PaneID inc) (pane_view s (as_PaneID inc))" "continued s inc = None"
  shows "\<not> st_unseenDone (open_epoch ini s inc) (as_PaneID inc) \<and> \<not> st_ackDone (open_epoch ini s inc) (as_PaneID inc)
    \<and> st_prevStatus (open_epoch ini s inc) (as_PaneID inc) = []"
  using assms
  by (auto simp: open_epoch_def forget_flags_def bump_generation_def pane_view_def view_ok_def Let_def is_replaced_def continued_def
      split: option.splits if_splits)

lemma open_epoch_excl:
  assumes "view_ok (as_PaneID inc) (pane_view s (as_PaneID inc))"
  shows "\<not> (st_unseenDone (open_epoch ini s inc) (as_PaneID inc) \<and> st_ackDone (open_epoch ini s inc) (as_PaneID inc))"
  using assms
  by (auto simp: open_epoch_def forget_flags_def bump_generation_def pane_view_def view_ok_def Let_def is_replaced_def continued_def
      split: option.splits if_splits)

definition next_generation :: "bool \<Rightarrow> pane_store \<Rightarrow> agent_state \<Rightarrow> int" where
  "next_generation ini s inc = st_generation s (as_PaneID inc) +
     (if is_replaced s inc \<or> (map_of (st_agents s) (as_PaneID inc) = None \<and> \<not> ini \<and> st_generation s (as_PaneID inc) > 0)
      then 1 else 0)"

lemma commit_agent_props:
  fixes s inc
  defines "p \<equiv> as_PaneID inc"
  assumes ok: "draws_ok E" "view_ok p (pane_view s p)" and c: "commit_agent E now b ini (s, d) inc = (s', d')"
  shows "q \<noteq> p \<Longrightarrow> pane_view s' q = pane_view s q" "view_ok p (pane_view s' p)"
    "st_generation s' p = next_generation ini s inc"
    "map_of (st_agents s') p = Some (snd (prepare_entry E now b ini s inc))"
    "fst ` set (st_agents s') = insert p (fst ` set (st_agents s))"
    "distinct (map fst (st_agents s)) \<Longrightarrow> distinct (map fst (st_agents s'))"
    "distinct (map fst (st_pendingEvents s)) \<Longrightarrow> distinct (map fst (st_pendingEvents s'))"
    "length (st_pendingEvents s') \<le> length (st_pendingEvents s)"
    "fst ` set (st_pendingEvents s') = fst ` set (st_pendingEvents s) - {p}"
proof -
  obtain s1 cp where pr: "prepare_entry E now b ini s inc = (s1, cp)" by fastforce
  obtain s2 dd where ie: "install_entry E (continued s inc) cp s1 = (s2, dd)" by fastforce
  have s': "s' = s2" using c pr ie by (simp add: commit_agent_def)
  note pp = prepare_entry_props [OF ok(1) pr]
  have pcp: "as_PaneID cp = p" using pp(3) by (simp add: p_def)
  let ?s0 = "open_epoch ini s inc"
  have v1: "pane_view s1 = pane_view ?s0" by (rule same_panes_view [OF pp(1)])
  have f1: "st_agents s1 = st_agents s" "st_unseenDone s1 = st_unseenDone ?s0" "st_ackDone s1 = st_ackDone ?s0"
    "st_prevStatus s1 = st_prevStatus ?s0" "st_generation s1 = st_generation ?s0"
    using pp(1) by (simp_all add: same_panes_def open_epoch_frame(1))
  have excl: "\<not> (st_unseenDone s1 (as_PaneID cp) \<and> st_ackDone s1 (as_PaneID cp))"
    using open_epoch_excl [of inc s ini] ok(2) f1 pcp by (simp add: p_def)
  have fresh: "continued s inc = None \<Longrightarrow> \<not> st_unseenDone s1 (as_PaneID cp) \<and> \<not> st_ackDone s1 (as_PaneID cp)
      \<and> st_prevStatus s1 (as_PaneID cp) = []"
    using open_epoch_fresh [of inc s ini] ok(2) f1 pcp by (simp add: p_def)
  note ip = install_entry_props [OF ie excl fresh, unfolded pcp]
  show "pane_view s' q = pane_view s q" if "q \<noteq> p"
    using ip(1-3,5,6) that open_epoch_frame(2) [of q inc ini s] v1 [THEN fun_cong, of q] f1
    by (auto simp: pane_view_def s' p_def update_conv')
  have g: "st_generation s' p = next_generation ini s inc"
    using ip(2) f1(5) open_epoch_frame(3) [of ini s inc] by (simp add: s' p_def next_generation_def)
  then show "st_generation s' p = next_generation ini s inc" .
  show m: "map_of (st_agents s') p = Some (snd (prepare_entry E now b ini s inc))"
    using ip(1) pr by (simp add: s' update_conv')
  have "0 \<le> st_generation s p" using ok(2) by (simp add: view_ok_def pane_view_def)
  then have "0 \<le> st_generation s' p" unfolding g by (simp add: next_generation_def p_def)
  with m show "view_ok p (pane_view s' p)"
    using ip(3,7) pp(2) pcp pr by (simp add: view_ok_def pane_view_def s')
  show "fst ` set (st_agents s') = insert p (fst ` set (st_agents s))"
    using ip(1) f1(1) by (simp add: s' dom_update)
  show "distinct (map fst (st_agents s)) \<Longrightarrow> distinct (map fst (st_agents s'))"
    using ip(1) f1(1) by (simp add: s' distinct_update)
  show "distinct (map fst (st_pendingEvents s)) \<Longrightarrow> distinct (map fst (st_pendingEvents s'))"
    using ip(4) pp(4) by (simp add: s' distinct_delete)
  show "length (st_pendingEvents s') \<le> length (st_pendingEvents s)"
    using ip(4) pp(4) by (simp add: s' length_delete_le)
  have "fst ` set (AList.delete p xs) = fst ` set xs - {p}" for xs :: "(string \<times> pending_event) list"
    by (auto simp: AList.delete_eq)
  moreover have "map_of (st_pendingEvents s) p = None \<Longrightarrow> p \<notin> fst ` set (st_pendingEvents s)" by (simp add: map_of_eq_None_iff)
  ultimately show "fst ` set (st_pendingEvents s') = fst ` set (st_pendingEvents s) - {p}"
    using ip(4) pp(4) by (auto simp: s' p_def [symmetric])
qed

section \<open>The whole inventory\<close>

lemma store_inv_view: "store_inv s \<Longrightarrow> view_ok p (pane_view s p)"
  by (simp add: store_inv_def)

lemma commit_agent_inv:
  assumes "draws_ok E" "store_inv s" "commit_agent E now b ini (s, d) inc = (s', d')"
  shows "store_inv s'"
proof -
  note c = commit_agent_props [OF assms(1) store_inv_view [OF assms(2)] assms(3)]
  have "view_ok q (pane_view s' q)" for q
    using c(1) [of q] c(2) store_inv_view [OF assms(2), of q] by (cases "q = as_PaneID inc") simp_all
  moreover have "fst ` set (st_pendingEvents s') \<inter> fst ` set (st_agents s') = {}"
    unfolding c(5,9) using assms(2) by (auto simp: store_inv_def)
  ultimately show ?thesis using c(6-8) assms(2) by (simp add: store_inv_def)
qed

lemma fold_commit_inv:
  assumes "draws_ok E" "store_inv s"
  shows "store_inv (fst (foldl (commit_agent E now b ini) (s, d) incs))"
  using assms(2)
proof (induction incs arbitrary: s d)
  case Nil
  then show ?case by simp
next
  case (Cons inc incs)
  obtain s1 d1 where c: "commit_agent E now b ini (s, d) inc = (s1, d1)" by fastforce
  from Cons.IH [OF commit_agent_inv [OF assms(1) Cons.prems c], of d1] c show ?case by simp
qed

lemma fold_commit_other:
  assumes "draws_ok E" "store_inv s" "q \<notin> as_PaneID ` set incs"
  shows "pane_view (fst (foldl (commit_agent E now b ini) (s, d) incs)) q = pane_view s q"
  using assms(2,3)
proof (induction incs arbitrary: s d)
  case Nil
  then show ?case by simp
next
  case (Cons inc incs)
  obtain s1 d1 where c: "commit_agent E now b ini (s, d) inc = (s1, d1)" by fastforce
  have "pane_view s1 q = pane_view s q"
    using commit_agent_props(1) [OF assms(1) store_inv_view [OF Cons.prems(1)] c, of q] Cons.prems(2) by auto
  with Cons.IH [OF commit_agent_inv [OF assms(1) Cons.prems(1) c], of d1] Cons.prems(2) c show ?case by simp
qed

lemma fold_commit_keys:
  assumes "draws_ok E" "store_inv s"
  shows "fst ` set (st_agents (fst (foldl (commit_agent E now b ini) (s, d) incs))) = as_PaneID ` set incs \<union> fst ` set (st_agents s)"
  using assms(2)
proof (induction incs arbitrary: s d)
  case Nil
  then show ?case by simp
next
  case (Cons inc incs)
  obtain s1 d1 where c: "commit_agent E now b ini (s, d) inc = (s1, d1)" by fastforce
  have "fst ` set (st_agents s1) = insert (as_PaneID inc) (fst ` set (st_agents s))"
    by (rule commit_agent_props(5) [OF assms(1) store_inv_view [OF Cons.prems] c])
  with Cons.IH [OF commit_agent_inv [OF assms(1) Cons.prems c], of d1] c show ?case by simp
qed

lemma next_generation_view:
  "pane_view s (as_PaneID inc) = pane_view s' (as_PaneID inc) \<Longrightarrow> next_generation ini s inc = next_generation ini s' inc"
  by (simp add: next_generation_def pane_view_def is_replaced_def)

text \<open>With one entry per pane, the entry for a pane is committed against the view the store had of it.\<close>

lemma fold_commit_entry:
  assumes "draws_ok E" "store_inv s" "distinct (map as_PaneID incs)" "inc \<in> set incs"
  obtains t where "pane_view t (as_PaneID inc) = pane_view s (as_PaneID inc)" "store_inv t"
    "st_generation (fst (foldl (commit_agent E now b ini) (s, d) incs)) (as_PaneID inc) = next_generation ini s inc"
    "map_of (st_agents (fst (foldl (commit_agent E now b ini) (s, d) incs))) (as_PaneID inc)
       = Some (snd (prepare_entry E now b ini t inc))"
    "\<exists>pre. set pre \<subseteq> set incs \<and> as_PaneID inc \<notin> as_PaneID ` set pre \<and> t = fst (foldl (commit_agent E now b ini) (s, d) pre)"
proof -
  obtain pre post where incs: "incs = pre @ inc # post" using assms(4) by (meson split_list)
  obtain t dt where t: "foldl (commit_agent E now b ini) (s, d) pre = (t, dt)" by fastforce
  obtain t1 d1 where c: "commit_agent E now b ini (t, dt) inc = (t1, d1)" by fastforce
  have notin: "as_PaneID inc \<notin> as_PaneID ` set pre" "as_PaneID inc \<notin> as_PaneID ` set post"
    using assms(3) incs by auto
  have vt: "pane_view t (as_PaneID inc) = pane_view s (as_PaneID inc)"
    using fold_commit_other [OF assms(1,2) notin(1), of now b ini d] t by simp
  have it: "store_inv t" using fold_commit_inv [OF assms(1,2), of now b ini d pre] t by simp
  note cp = commit_agent_props [OF assms(1) store_inv_view [OF it] c]
  have i1: "store_inv t1" by (rule commit_agent_inv [OF assms(1) it c])
  let ?fin = "fst (foldl (commit_agent E now b ini) (s, d) incs)"
  have "?fin = fst (foldl (commit_agent E now b ini) (t1, d1) post)" using incs t c by simp
  then have vf: "pane_view ?fin (as_PaneID inc) = pane_view t1 (as_PaneID inc)"
    using fold_commit_other [OF assms(1) i1 notin(2), of now b ini d1] by simp
  show ?thesis
  proof (rule that)
    show "st_generation ?fin (as_PaneID inc) = next_generation ini s inc"
      using vf cp(3) next_generation_view [OF vt] by (simp add: pane_view_def)
    show "map_of (st_agents ?fin) (as_PaneID inc) = Some (snd (prepare_entry E now b ini t inc))"
      using vf cp(4) by (simp add: pane_view_def)
    show "\<exists>pre. set pre \<subseteq> set incs \<and> as_PaneID inc \<notin> as_PaneID ` set pre \<and> t = fst (foldl (commit_agent E now b ini) (s, d) pre)"
      using incs t notin(1) by (intro exI [of _ pre]) auto
  qed (use vt it in auto)
qed

lemma remove_agent_view:
  "pane_view (remove_agent s p) q = (if q = p then (None, False, False, [], st_generation s p + 1) else pane_view s q)"
  by (simp add: remove_agent_def forget_flags_def bump_generation_def pane_view_def Let_def delete_conv')

lemma remove_agent_frame:
  "st_agents (remove_agent s p) = AList.delete p (st_agents s)" "st_pendingEvents (remove_agent s p) = st_pendingEvents s"
  by (simp_all add: remove_agent_def forget_flags_def bump_generation_def Let_def)

lemma remove_agent_inv:
  assumes "store_inv s"
  shows "store_inv (remove_agent s p)"
proof -
  have "0 \<le> st_generation s p" using store_inv_view [OF assms, of p] by (simp add: view_ok_def pane_view_def)
  then have "view_ok q (pane_view (remove_agent s p) q)" for q
    using store_inv_view [OF assms, of q] by (simp add: remove_agent_view view_ok_def [of p])
  moreover have "fst ` set (AList.delete p (st_agents s)) \<subseteq> fst ` set (st_agents s)" by (auto simp: AList.delete_eq)
  ultimately show ?thesis using assms by (auto simp: store_inv_def remove_agent_frame distinct_delete)
qed

lemma fold_remove:
  assumes "store_inv s" "distinct ps"
  shows "store_inv (foldl remove_agent s ps)
    \<and> pane_view (foldl remove_agent s ps) q =
        (if q \<in> set ps then (None, False, False, [], st_generation s q + 1) else pane_view s q)
    \<and> st_pendingEvents (foldl remove_agent s ps) = st_pendingEvents s"
  using assms
proof (induction ps arbitrary: s)
  case Nil
  then show ?case by simp
next
  case (Cons p ps)
  have "pane_view (remove_agent s p) q = (if q = p then (None, False, False, [], st_generation s p + 1) else pane_view s q)"
    by (rule remove_agent_view)
  then have g: "q \<noteq> p \<Longrightarrow> st_generation (remove_agent s p) q = st_generation s q" by (simp add: pane_view_def)
  show ?case
    using Cons.IH [OF remove_agent_inv [OF Cons.prems(1)], of p] Cons.prems(2) g
      remove_agent_view [of s p q] remove_agent_frame(2) [of s p] by auto
qed

lemma persist_view: "pane_view (persistTriageLocked now s) = pane_view s" "store_inv (persistTriageLocked now s) = store_inv s"
  by (simp_all add: pane_view_def persistTriageLocked_def pruneTriageLocked_def Let_def store_inv_def fun_eq_iff)

lemma pending_subset_inv:
  assumes "store_inv s"
  shows "store_inv (s\<lparr>st_pendingEvents := filter P (st_pendingEvents s)\<rparr>)"
proof -
  let ?es = "filter P (st_pendingEvents s)"
  have "length ?es \<le> 128"
    using assms order_trans [OF length_filter_le [of P "st_pendingEvents s"]] by (simp add: store_inv_def)
  moreover have "fst ` set ?es \<inter> fst ` set (st_agents s) = {}" using assms by (auto simp: store_inv_def)
  moreover have "distinct (map fst ?es)" using assms by (simp add: store_inv_def distinct_fst_filter)
  ultimately show ?thesis using assms by (simp add: store_inv_def pane_view_def)
qed

text \<open>The store after a commit: committed panes, panes gone, and the rest.\<close>

lemma commitInventory_view:
  assumes "draws_ok E" "store_inv s"
  obtains s1 s2 d where "same_panes s s1" "store_inv s1" "st_revision s1 = st_revision s" "st_pendingEvents s1 = st_pendingEvents s"
    "s2 = fst (foldl (commit_agent E now b (\<not> st_inventoryReady s)) (s1, d) agents)"
    "store_inv (commitInventoryLocked E now agents b s)"
    "\<And>q. pane_view (commitInventoryLocked E now agents b s) q =
       (if q \<in> as_PaneID ` set agents then pane_view s2 q
        else if q \<in> fst ` set (st_agents s) then (None, False, False, [], st_generation s q + 1)
        else pane_view s q)"
proof -
  define s1 where "s1 = s\<lparr>st_topologyGen := (if topology_changed s agents then st_topologyGen s + 1 else st_topologyGen s),
                 st_revCounter := st_revCounter s + 1, st_inventoryReady := True, st_inventoryErrorCode := [], st_inventoryMessage := [],
                 st_lastAttemptAt := now, st_lastSuccessAt := now\<rparr>"
  define s2 where "s2 = fst (foldl (commit_agent E now b (\<not> st_inventoryReady s)) (s1, False) agents)"
  define gone where "gone = filter (\<lambda>p. p \<notin> as_PaneID ` set agents) (map fst (st_agents s2))"
  define s3 where "s3 = foldl remove_agent s2 gone"
  define s4 where "s4 = s3\<lparr>st_pendingEvents := filter (\<lambda>x. now < pe_expiresAt (snd x)) (st_pendingEvents s3)\<rparr>"
  have sp: "same_panes s s1" by (simp add: same_panes_def s1_def)
  have i1: "store_inv s1" using assms(2) same_panes_view [OF sp] by (simp add: store_inv_def s1_def)
  have i2: "store_inv s2" unfolding s2_def by (rule fold_commit_inv [OF assms(1) i1])
  have dg: "distinct gone" using i2 by (simp add: gone_def store_inv_def)
  note fr = fold_remove [OF i2 dg]
  have v4: "pane_view s4 = pane_view s3" by (simp add: s4_def pane_view_def fun_eq_iff)
  have i3: "store_inv s3" unfolding s3_def using fr by blast
  have i4: "store_inv s4" unfolding s4_def by (rule pending_subset_inv [OF i3])
  have ci: "commitInventoryLocked E now agents b s = persistTriageLocked now s4 \<or> commitInventoryLocked E now agents b s = s4"
    unfolding commitInventoryLocked_def Let_def s4_def s3_def gone_def s2_def s1_def by (simp add: case_prod_beta)
  have keys: "fst ` set (st_agents s2) = as_PaneID ` set agents \<union> fst ` set (st_agents s)"
    unfolding s2_def using fold_commit_keys [OF assms(1) i1] sp by (simp add: same_panes_def)
  have v: "pane_view s3 q = (if q \<in> as_PaneID ` set agents then pane_view s2 q
        else if q \<in> fst ` set (st_agents s) then (None, False, False, [], st_generation s q + 1)
        else pane_view s q)" for q
  proof -
    have out: "q \<notin> as_PaneID ` set agents \<Longrightarrow> pane_view s2 q = pane_view s q"
      unfolding s2_def using fold_commit_other [OF assms(1) i1] same_panes_view [OF sp] by simp
    moreover have "q \<in> set gone \<longleftrightarrow> q \<notin> as_PaneID ` set agents \<and> q \<in> fst ` set (st_agents s)"
      using keys by (auto simp: gone_def)
    ultimately show ?thesis using fr [of q] by (auto simp: s3_def pane_view_def)
  qed
  have r1: "st_revision s1 = st_revision s" "st_pendingEvents s1 = st_pendingEvents s" by (simp_all add: s1_def)
  have iC: "store_inv (commitInventoryLocked E now agents b s)" using ci i4 persist_view(2) [of now s4] by auto
  have "pane_view (commitInventoryLocked E now agents b s) = pane_view s3" using ci v4 persist_view(1) [of now s4] by auto
  then show ?thesis using that [OF sp i1 r1 s2_def iC] v by presburger
qed

end
