(* ===== verification/Attention_Props.thy ===== *)
theory Attention_Props
  imports Attention_Inv
begin

text \<open>
  The pane store as a machine: one event per operation of \<open>State\<close> that changes it, the invariant of
  \<open>Attention_Inv\<close> as an instance of \<open>invariant_machine\<close>, and the properties of its callers: which status
  wins when a poll and an event race, when a poll is refused, and that a pane session once ended never
  becomes current again.
\<close>

section \<open>Events\<close>

datatype store_event =
    AInventory time "agent_state list" int
  | ATopology time "agent_state list" "workspace list" int
  | APoll time "agent_state list" "workspace list" poll_token
  | AEvent time string string string string int
  | AClassify string string nat int classification
  | AAcknowledge time string
  | ABump string
  | AMarkTopology
  | AFinished string
  | AFinishedFor string int
  | AFailure time "poll_error option"
  | ADegraded time
  | AAnswer "string \<Rightarrow> string" "string \<Rightarrow> string" string string string
  | ACallback bool
  | AWorkspaces "workspace list"
  | ATriage "string \<Rightarrow> string" "string \<Rightarrow> string \<Rightarrow> string" bool triage_file time string

fun store_step :: "env \<Rightarrow> pane_store \<Rightarrow> store_event \<Rightarrow> pane_store \<times> unit" where
  "store_step E s (AInventory now agents b) = (CommitInventory E now agents b s, ())"
| "store_step E s (ATopology now agents ws b) = (fst (CommitTopology E now agents ws b s), ())"
| "store_step E s (APoll now agents ws tok) = (fst (CommitPoll E now agents ws tok s), ())"
| "store_step E s (AEvent now p tab wid status upd) = (fst (CommitEventForSession E now p tab wid status upd s), ())"
| "store_step E s (AClassify p eid g r c) = (fst (CommitAttentionClassification p eid g r c s), ())"
| "store_step E s (AAcknowledge now p) = (fst (AcknowledgePane E now p s), ())"
| "store_step E s (ABump p) = (BumpGeneration p s, ())"
| "store_step E s AMarkTopology = (MarkTopologyChanged s, ())"
| "store_step E s (AFinished p) = (fst (RegisterFinishedNotification p s), ())"
| "store_step E s (AFinishedFor p r) = (fst (RegisterFinishedNotificationForTransition p r s), ())"
| "store_step E s (AFailure now err) = (MarkInventoryFailure now err s, ())"
| "store_step E s (ADegraded now) = (MarkTopologyDegraded now s, ())"
| "store_step E s (AAnswer key trim p q t) = (RecordCustomAnswer key trim p q t s, ())"
| "store_step E s (ACallback b) = (SetOnTransition b s, ())"
| "store_step E s (AWorkspaces ws) = (fst (CommitWorkspaces ws s), ())"
| "store_step E s (ATriage trim join mk f now dir) = (fst (EnableTriagePersistence trim join mk f now dir s), ())"

definition store_run :: "env \<Rightarrow> pane_store \<Rightarrow> store_event list \<Rightarrow> pane_store" where
  "store_run E s evs = fst (run_machine (store_step E) s evs)"

section \<open>Operations on one pane\<close>

lemma store_inv_cong:
  "same_panes s s' \<Longrightarrow> st_pendingEvents s' = st_pendingEvents s \<Longrightarrow> store_inv s' = store_inv s"
  using same_panes_view [of s s'] by (simp add: store_inv_def same_panes_def)

lemma store_inv_update:
  assumes "store_inv s" "map_of (st_agents s) p = Some a" "st_agents s' = AList.update p a' (st_agents s)"
    and "st_pendingEvents s' = st_pendingEvents s" "\<And>q. q \<noteq> p \<Longrightarrow> pane_view s' q = pane_view s q"
    and "view_ok p (pane_view s' p)"
  shows "store_inv s'"
proof -
  have p: "p \<in> fst ` set (st_agents s)" using assms(2) by (force dest: map_of_SomeD)
  have "view_ok q (pane_view s' q)" for q
    using assms(5,6) store_inv_view [OF assms(1), of q] by (cases "q = p") simp_all
  moreover have "fst ` set (st_agents s') = fst ` set (st_agents s)"
    using p by (auto simp: assms(3) dom_update)
  ultimately show ?thesis using assms(1,3,4) by (simp add: store_inv_def distinct_update)
qed

text \<open>The state after an accepted event, and what is left of the old one.\<close>

lemma event_finish_panes:
  "same_panes (registerTransition p (as_Status a) (as_Status a') (bd_AttentionKind (as_blocked a)) s) (event_finish E now p a a' s)"
proof -
  let ?s1 = "registerTransition p (as_Status a) (as_Status a') (bd_AttentionKind (as_blocked a)) s"
  define s2 where "s2 = (if preservesChatCompletion (as_Status a) (as_Status a') (bd_AttentionKind (as_blocked a)) then ?s1
      else syncAttentionCompletionLocked p (bd_AttentionKind (as_blocked a)) (bd_AttentionKind (as_blocked a')) ?s1)"
  define s3 where "s3 = fst (syncTriageLocked E s2 a')"
  have "event_finish E now p a a' s = s3 \<or> event_finish E now p a a' s = persistTriageLocked now s3"
    unfolding event_finish_def s3_def s2_def Let_def case_prod_beta by argo
  moreover have "same_panes ?s1 s2" by (simp add: s2_def)
  moreover have "same_panes s2 s3" by (simp add: s3_def)
  moreover have "same_panes s3 (persistTriageLocked now s3)" by simp
  ultimately show ?thesis by (metis same_panes_trans)
qed

lemma event_finish_pending: "st_pendingEvents (event_finish E now p a a' s) = st_pendingEvents s"
  by (simp add: event_finish_def Let_def case_prod_beta pending_frames)

lemma event_start_frame:
  "same_panes s (event_start p a status s)" "st_pendingEvents (event_start p a status s) = st_pendingEvents s"
  by (simp_all add: event_start_def same_panes_def)

definition event_result :: "env \<Rightarrow> time \<Rightarrow> string \<Rightarrow> string \<Rightarrow> int \<Rightarrow> agent_state \<Rightarrow> pane_store \<Rightarrow> agent_state" where
  "event_result E now p status upd a s = snd (event_agent E now status upd a (event_start p a status s))"

lemma commitEvent_props:
  fixes s p a E now status upd
  defines "a' \<equiv> event_result E now p status upd a s"
  assumes "draws_ok E" "store_inv s" "map_of (st_agents s) p = Some a" "eventIdentityMatches a tab wid"
    and s': "s' = fst (CommitEventForSession E now p tab wid status upd s)"
  shows "st_agents s' = AList.update p a' (st_agents s)" "as_Status a' = status" "as_PaneID a' = p" "blocked_wf a'"
    "st_prevStatus s' = (st_prevStatus s)(p := status)" "st_generation s' = st_generation s"
    "q \<noteq> p \<Longrightarrow> st_unseenDone s' q = st_unseenDone s q" "q \<noteq> p \<Longrightarrow> st_ackDone s' q = st_ackDone s q"
    "\<not> (st_unseenDone s' p \<and> st_ackDone s' p)" "st_pendingEvents s' = st_pendingEvents s"
proof -
  have wf: "blocked_wf a" "as_PaneID a = p" "\<not> (st_unseenDone s p \<and> st_ackDone s p)"
    using store_inv_view [OF assms(3), of p] assms(4) by (auto simp: view_ok_def pane_view_def)
  obtain s1 where ea: "event_agent E now status upd a (event_start p a status s) = (s1, a')"
    by (metis a'_def event_result_def prod.collapse)
  have ev: "s' = event_finish E now p a a' (event_store p a a' s1)"
    unfolding s' CommitEventForSession_def using assms(4,5) ea by simp
  show a': "as_Status a' = status" "as_PaneID a' = p" "blocked_wf a'"
    using event_agent_wf [OF assms(2) wf(1), of now status upd "event_start p a status s"] ea wf by simp_all
  have "same_panes s s1"
    using same_panes_event [of "event_start p a status s" E now status upd a] ea
      same_panes_trans [OF event_start_frame(1)] by fastforce
  then have f: "st_agents s1 = st_agents s" "st_prevStatus s1 = st_prevStatus s" "st_generation s1 = st_generation s"
    "st_unseenDone s1 = st_unseenDone s" "st_ackDone s1 = st_ackDone s" by (simp_all add: same_panes_def)
  let ?s2 = "event_store p a a' s1"
  let ?s3 = "registerTransition p (as_Status a) (as_Status a') (bd_AttentionKind (as_blocked a)) ?s2"
  have sp: "same_panes ?s3 s'" unfolding ev by (rule event_finish_panes)
  show "st_agents s' = AList.update p a' (st_agents s)" "st_prevStatus s' = (st_prevStatus s)(p := status)"
    "st_generation s' = st_generation s"
    using sp f a' by (simp_all add: same_panes_def registerTransition_flags event_store_def)
  show "st_unseenDone s' q = st_unseenDone s q" "st_ackDone s' q = st_ackDone s q" if "q \<noteq> p"
    using sp f that by (simp_all add: same_panes_def registerTransition_flags event_store_def)
  have "\<not> (st_unseenDone ?s3 p \<and> st_ackDone ?s3 p)"
    by (rule registerTransition_flags(6)) (use wf f in \<open>simp add: event_store_def\<close>)
  then show "\<not> (st_unseenDone s' p \<and> st_ackDone s' p)" using sp by (simp add: same_panes_def)
  have "st_pendingEvents s1 = st_pendingEvents s"
    using pending_frames(11) [of E now status upd a "event_start p a status s"] ea event_start_frame(2) by simp
  then show "st_pendingEvents s' = st_pendingEvents s"
    by (simp add: ev event_finish_pending) (simp add: event_store_def)
qed

lemma oldest_pending_in:
  assumes "es \<noteq> []"
  shows "oldest_pending es \<in> fst ` set es"
proof -
  let ?f = "\<lambda>best x. if fst best = [] \<or> pe_expiresAt (snd x) < snd best then (fst x, pe_expiresAt (snd x)) else best"
  have "fst (foldl ?f b xs) \<in> insert (fst b) (fst ` set xs)" for b xs
    by (induction xs arbitrary: b) force+
  from this [of "?f ([], 0) (hd es)" "tl es"] show ?thesis
    using assms by (cases es) (auto simp: oldest_pending_def)
qed

lemma add_pending_inv:
  assumes "store_inv s" "map_of (st_agents s) p = None"
  shows "store_inv (add_pending now p tab wid status upd s)"
proof -
  let ?es = "st_pendingEvents s"
  define es where "es = (if 128 \<le> length ?es then AList.delete (oldest_pending ?es) ?es else ?es)"
  have d: "distinct (map fst ?es)" "length ?es \<le> 128" "fst ` set ?es \<inter> fst ` set (st_agents s) = {}"
    using assms(1) by (simp_all add: store_inv_def)
  have p: "p \<notin> fst ` set (st_agents s)" using assms(2) by (simp add: map_of_eq_None_iff)
  have len: "length es < 128"
  proof (cases "128 \<le> length ?es")
    case True
    then have "oldest_pending ?es \<in> fst ` set ?es" by (intro oldest_pending_in) auto
    then have "length (AList.delete (oldest_pending ?es) ?es) < length ?es"
      unfolding AList.delete_eq by (auto intro: length_filter_less)
    then show ?thesis using True d(2) by (simp add: es_def)
  qed (simp add: es_def)
  have sub: "fst ` set es \<subseteq> fst ` set ?es" "distinct (map fst es)"
    using d(1) by (auto simp: es_def AList.delete_eq distinct_fst_filter)
  have "length (AList.update p v es) \<le> length es + 1" for v by (induction es) auto
  from this [of "\<lparr>pe_tabID = tab, pe_workspaceID = wid, pe_status = status, pe_updatedAt = upd, pe_expiresAt = now + 30 * second\<rparr>"]
  show ?thesis
    using len sub d(3) p assms(1)
    by (auto simp: store_inv_def add_pending_def es_def [symmetric] Let_def pane_view_def distinct_update dom_update)
qed

lemma commitEvent_inv:
  assumes "draws_ok E" "store_inv s"
  shows "store_inv (fst (CommitEventForSession E now p tab wid status upd s))"
proof (cases "map_of (st_agents s) p")
  case None
  then show ?thesis using add_pending_inv [OF assms(2) None] by (simp add: CommitEventForSession_def)
next
  case (Some a)
  show ?thesis
  proof (cases "eventIdentityMatches a tab wid")
    case False
    then show ?thesis using Some assms(2) by (simp add: CommitEventForSession_def)
  next
    case True
    let ?s' = "fst (CommitEventForSession E now p tab wid status upd s)"
    note e = commitEvent_props [where now = now and status = status and upd = upd, OF assms Some True refl]
    show ?thesis
    proof (rule store_inv_update [OF assms(2) Some e(1) e(10)])
      show "pane_view ?s' q = pane_view s q" if "q \<noteq> p" for q
        using e(1,5,6) e(7,8) [OF that] that by (simp add: pane_view_def update_conv')
      have "0 \<le> st_generation s p" using store_inv_view [OF assms(2), of p] by (simp add: view_ok_def pane_view_def)
      then show "view_ok p (pane_view ?s' p)"
        using e(1-6,9) by (simp add: view_ok_def pane_view_def update_conv')
    qed
  qed
qed

lemma classification_inv:
  assumes "store_inv s"
  shows "store_inv (fst (CommitAttentionClassification p eid g r c s))"
proof (cases "map_of (st_agents s) p")
  case None
  then show ?thesis using assms by (simp add: CommitAttentionClassification_def)
next
  case (Some a)
  have v: "blocked_wf a" "as_PaneID a = p" "0 \<le> st_generation s p" "st_prevStatus s p = as_Status a"
    "\<not> (st_unseenDone s p \<and> st_ackDone s p)"
    using store_inv_view [OF assms, of p] Some by (auto simp: view_ok_def pane_view_def)
  let ?s' = "fst (CommitAttentionClassification p eid g r c s)"
  let ?c = "if cl_Kind c = [] then c\<lparr>cl_Kind := AttentionUnknown\<rparr> else c"
  define a' where "a' = fst (applyAttentionClassification a ?c)"
  show ?thesis
  proof (cases "as_Status a \<noteq> ''blocked'' \<or> bd_BlockedEventID (as_blocked a) \<noteq> eid
             \<or> st_generation s p mod 2 ^ 64 \<noteq> int g \<or> st_contentRev s p \<noteq> r")
    case True
    then show ?thesis using Some assms by (auto simp: CommitAttentionClassification_def)
  next
    case False
    then have ch: "same_panes (s\<lparr>st_agents := AList.update p a' (st_agents s)\<rparr>) ?s'" "st_pendingEvents ?s' = st_pendingEvents s"
      using Some by (auto simp: CommitAttentionClassification_def Let_def case_prod_beta a'_def pending_frames
          same_panes_def syncAttentionCompletionLocked_def)
    have a': "as_Status a' = as_Status a" "as_PaneID a' = p" "blocked_wf a'"
      using v False by (auto simp: a'_def applyAttentionClassification_def Let_def blocked_wf_def AttentionUnknown_def)
    show ?thesis
      by (rule store_inv_update [OF assms Some _ ch(2)])
        (use ch(1) v a' in \<open>auto simp: same_panes_def pane_view_def view_ok_def update_conv'\<close>)
  qed
qed

lemma acknowledge_inv:
  assumes "store_inv s"
  shows "store_inv (fst (AcknowledgePane E now p s))"
proof (cases "map_of (st_agents s) p")
  case None
  then show ?thesis using assms by (simp add: AcknowledgePane_def)
next
  case (Some a)
  have v: "blocked_wf a" "as_PaneID a = p" "0 \<le> st_generation s p" "st_prevStatus s p = as_Status a"
    "\<not> (st_unseenDone s p \<and> st_ackDone s p)"
    using store_inv_view [OF assms, of p] Some by (auto simp: view_ok_def pane_view_def)
  define a' where "a' = a\<lparr>as_LastSeenAt := max (unix_milli now) (as_LastActiveAt a)\<rparr>"
  define s1 where "s1 = s\<lparr>st_agents := AList.update p a' (st_agents s)\<rparr>"
  define s2 where "s2 = (if st_unseenDone s1 p \<or> doneStatuses (as_Status a')
      then s1\<lparr>st_unseenDone := (st_unseenDone s1)(p := False), st_ackDone := (st_ackDone s1)(p := True)\<rparr> else s1)"
  let ?s' = "fst (AcknowledgePane E now p s)"
  have "?s' = fst (syncTriageLocked E s2 a') \<or> ?s' = persistTriageLocked now (fst (syncTriageLocked E s2 a'))"
    unfolding AcknowledgePane_def Some option.case s2_def s1_def a'_def Let_def case_prod_beta fst_conv by argo
  then have sp: "same_panes s2 ?s'" "st_pendingEvents ?s' = st_pendingEvents s2"
    by (auto simp: pending_frames intro: same_panes_trans [OF same_panes_prims(4) same_panes_prims(6)])
  have a': "as_Status a' = as_Status a" "as_PaneID a' = p" "blocked_wf a'"
    using v by (simp_all add: a'_def blocked_wf_def)
  show ?thesis
    by (rule store_inv_update [OF assms Some, of _ a'])
      (use sp v a' in \<open>auto simp: same_panes_def pane_view_def view_ok_def update_conv' s2_def s1_def\<close>)
qed

section \<open>The invariant\<close>

lemma commitInventory_inv:
  assumes "draws_ok E" "store_inv s"
  shows "store_inv (commitInventoryLocked E now agents b s)"
  by (rule commitInventory_view [OF assms, of now b agents])

lemma commitWorkspaces_frame:
  "same_panes s (fst (commitWorkspacesLocked ws s))" "st_pendingEvents (fst (commitWorkspacesLocked ws s)) = st_pendingEvents s"
  "st_topologyGen (fst (commitWorkspacesLocked ws s)) = st_topologyGen s"
  "st_revision (fst (commitWorkspacesLocked ws s)) = st_revision s"
  "st_inventoryReady (fst (commitWorkspacesLocked ws s)) = st_inventoryReady s"
  by (simp_all add: commitWorkspacesLocked_def Let_def same_panes_def)

lemma quiet_steps:
  "same_panes s (MarkTopologyChanged s)" "same_panes s (fst (RegisterFinishedNotification p s))"
  "same_panes s (fst (RegisterFinishedNotificationForTransition p r s))" "same_panes s (MarkInventoryFailure now err s)"
  "same_panes s (MarkTopologyDegraded now s)" "same_panes s (RecordCustomAnswer key trim p q t s)"
  "same_panes s (SetOnTransition b s)" "same_panes s (fst (CommitWorkspaces ws s))"
  "same_panes s (fst (EnableTriagePersistence trim join mk f now dir s))"
  by (auto simp: same_panes_def MarkTopologyChanged_def RegisterFinishedNotification_def
      RegisterFinishedNotificationForTransition_def MarkInventoryFailure_def MarkTopologyDegraded_def
      RecordCustomAnswer_def SetOnTransition_def CommitWorkspaces_def commitWorkspacesLocked_def
      EnableTriagePersistence_def persistTriageLocked_def pruneTriageLocked_def Let_def
      split: option.splits triage_file.splits)

lemma quiet_pending:
  "st_pendingEvents (MarkTopologyChanged s) = st_pendingEvents s"
  "st_pendingEvents (fst (RegisterFinishedNotification p s)) = st_pendingEvents s"
  "st_pendingEvents (fst (RegisterFinishedNotificationForTransition p r s)) = st_pendingEvents s"
  "st_pendingEvents (MarkInventoryFailure now err s) = st_pendingEvents s"
  "st_pendingEvents (MarkTopologyDegraded now s) = st_pendingEvents s"
  "st_pendingEvents (RecordCustomAnswer key trim p q t s) = st_pendingEvents s"
  "st_pendingEvents (SetOnTransition b s) = st_pendingEvents s"
  "st_pendingEvents (fst (CommitWorkspaces ws s)) = st_pendingEvents s"
  "st_pendingEvents (fst (EnableTriagePersistence trim join mk f now dir s)) = st_pendingEvents s"
  by (auto simp: MarkTopologyChanged_def RegisterFinishedNotification_def
      RegisterFinishedNotificationForTransition_def MarkInventoryFailure_def MarkTopologyDegraded_def
      RecordCustomAnswer_def SetOnTransition_def CommitWorkspaces_def commitWorkspacesLocked_def
      EnableTriagePersistence_def persistTriageLocked_def pruneTriageLocked_def Let_def
      split: option.splits triage_file.splits)

lemmas quiet_inv = quiet_steps [THEN store_inv_cong] quiet_pending

lemma retry_inv: "store_inv s \<Longrightarrow> store_inv (s\<lparr>st_topologyRetries := n\<rparr>)"
  by (simp add: store_inv_def pane_view_def)

lemma bump_inv: "store_inv s \<Longrightarrow> store_inv (BumpGeneration p s)"
  by (auto simp: store_inv_def BumpGeneration_def bump_generation_def pane_view_def view_ok_def)

interpretation store: invariant_machine "store_step E" "\<lambda>_. draws_ok E" store_inv
proof
  fix s e
  assume i: "store_inv s" and d: "draws_ok E"
  have w: "store_inv (fst (commitWorkspacesLocked ws s))" for ws
    using store_inv_cong [OF commitWorkspaces_frame(1,2)] i by simp
  have wt: "store_inv (fst (commitWorkspacesLocked ws s)\<lparr>st_topologyGen := g\<rparr>)" for ws g
    using w [of ws] by (simp add: store_inv_def pane_view_def)
  show "store_inv (fst (store_step E s e))"
    by (cases e)
      (use i d w wt in \<open>auto simp: CommitInventory_def CommitTopology_def CommitPoll_def Let_def case_prod_beta quiet_inv
         bump_inv commitEvent_inv classification_inv acknowledge_inv retry_inv
         intro!: commitInventory_inv\<close>)
qed

section \<open>Counters\<close>

definition same_counters :: "pane_store \<Rightarrow> pane_store \<Rightarrow> bool" where
  "same_counters s s' \<longleftrightarrow> st_revision s' = st_revision s \<and> st_topologyGen s' = st_topologyGen s \<and> st_revCounter s' = st_revCounter s"

lemma same_counters_trans: "same_counters s s' \<Longrightarrow> same_counters s' s'' \<Longrightarrow> same_counters s s''"
  by (simp add: same_counters_def)

lemma same_counters_prims [simp]:
  "same_counters s s" "same_counters s (notify p status s)" "same_counters s (syncAttentionCompletionLocked p a b s)"
  "same_counters s (fst (syncTriageLocked E s a'))" "same_counters s (pruneTriageLocked c s)"
  "same_counters s (persistTriageLocked now s)" "same_counters s (fst (newBlockedEventIDLocked E now s))"
  "same_counters s (fst (take_pending now s incoming cp))" "same_counters s (bump_revisions existing cp s)"
  "same_counters s (open_epoch ini s incoming)" "same_counters s (restore_flags existing cp s)"
  "same_counters s (mark_completed p s)"
  by (auto simp: same_counters_def notify_def syncAttentionCompletionLocked_def syncTriageLocked_def pruneTriageLocked_def
      persistTriageLocked_def newBlockedEventIDLocked_def take_pending_def bump_revisions_def open_epoch_def forget_flags_def
      bump_generation_def restore_flags_def mark_completed_def Let_def split: option.splits prod.splits)

lemma same_counters_register: "same_counters s (registerTransition p prev st pa s)"
  by (auto simp: same_counters_def registerTransition_def mark_completed_def notify_def Let_def split: option.splits prod.splits)

lemma same_counters_blocked: "same_counters s (fst (applyBlockedCycleLocked E now s a e))"
  using same_counters_prims(7) [of s E now]
  by (auto simp: applyBlockedCycleLocked_def Let_def case_prod_beta split: option.splits)

lemma same_counters_event: "same_counters s (fst (event_agent E now st u a s))"
  using same_counters_prims(7) [of s E now] by (auto simp: event_agent_def Let_def case_prod_beta)

lemma event_finish_counters: "same_counters s (event_finish E now p a a' s)"
proof -
  let ?s1 = "registerTransition p (as_Status a) (as_Status a') (bd_AttentionKind (as_blocked a)) s"
  define s2 where "s2 = (if preservesChatCompletion (as_Status a) (as_Status a') (bd_AttentionKind (as_blocked a)) then ?s1
      else syncAttentionCompletionLocked p (bd_AttentionKind (as_blocked a)) (bd_AttentionKind (as_blocked a')) ?s1)"
  define s3 where "s3 = fst (syncTriageLocked E s2 a')"
  have "event_finish E now p a a' s = s3 \<or> event_finish E now p a a' s = persistTriageLocked now s3"
    unfolding event_finish_def s3_def s2_def Let_def case_prod_beta by argo
  moreover have "same_counters s ?s1" by (rule same_counters_register)
  moreover have "same_counters ?s1 s2" "same_counters s2 s3" "same_counters s3 (persistTriageLocked now s3)"
    by (simp_all add: s2_def s3_def)
  ultimately show ?thesis by (metis same_counters_trans)
qed

lemma prepare_entry_counters: "same_counters s (fst (prepare_entry E now b ini s inc))"
proof -
  let ?e = "continued s inc" and ?s0 = "open_epoch ini s inc"
  obtain s2 cp2 pend where tp: "take_pending now ?s0 inc (merge_status E b ?s0 inc ?e) = (s2, cp2, pend)"
    by (metis surj_pair)
  obtain s3 cp where ab: "applyBlockedCycleLocked E now s2 (stamp_times now ini pend ?e cp2) ?e = (s3, cp)" by fastforce
  have "same_counters ?s0 s2" using same_counters_prims(8) [of ?s0 now inc "merge_status E b ?s0 inc ?e"] tp by simp
  moreover have "same_counters s2 s3"
    using same_counters_blocked [of s2 E now "stamp_times now ini pend ?e cp2" ?e] ab by simp
  ultimately have "same_counters s (bump_revisions ?e cp s3)" by (meson same_counters_prims(9,10) same_counters_trans)
  then show ?thesis using tp ab by (simp add: prepare_entry_def Let_def)
qed

lemma install_entry_counters:
  "st_topologyGen (fst (install_entry E e cp s)) = st_topologyGen s"
  "st_revCounter (fst (install_entry E e cp s)) = st_revCounter s"
  "st_revision (fst (install_entry E e cp s)) = (st_revision s)(as_PaneID cp := st_revCounter s)"
proof -
  define p where "p = as_PaneID cp"
  define pa where "pa = (case e of Some e \<Rightarrow> bd_AttentionKind (as_blocked e) | None \<Rightarrow> [])"
  define s1 where "s1 = s\<lparr>st_revision := (st_revision s)(p := st_revCounter s), st_agents := AList.update p cp (st_agents s),
                 st_prevStatus := (st_prevStatus s)(p := as_Status cp)\<rparr>"
  define s2 where "s2 = registerTransition p (st_prevStatus s p) (as_Status cp) pa s1"
  define s4 where "s4 = fst (syncTriageLocked E (restore_flags e cp s2) cp)"
  define s5 where "s5 = (if preservesChatCompletion (st_prevStatus s p) (as_Status cp) pa then s4
                else syncAttentionCompletionLocked p pa (bd_AttentionKind (as_blocked cp)) s4)"
  have "fst (install_entry E e cp s) = s5 \<or> fst (install_entry E e cp s) = notify p (as_Status cp) s5"
    unfolding install_entry_def s5_def s4_def s2_def s1_def pa_def p_def Let_def case_prod_beta fst_conv by argo
  moreover have "same_counters s1 s2" unfolding s2_def by (rule same_counters_register)
  moreover have "same_counters s2 s4" unfolding s4_def by (meson same_counters_prims(4,11) same_counters_trans)
  moreover have "same_counters s4 s5" "same_counters s5 (notify p (as_Status cp) s5)" by (simp_all add: s5_def)
  ultimately have "same_counters s1 (fst (install_entry E e cp s))" by (metis same_counters_trans)
  then show "st_topologyGen (fst (install_entry E e cp s)) = st_topologyGen s"
    "st_revCounter (fst (install_entry E e cp s)) = st_revCounter s"
    "st_revision (fst (install_entry E e cp s)) = (st_revision s)(as_PaneID cp := st_revCounter s)"
    by (simp_all add: same_counters_def s1_def p_def)
qed

lemma commit_agent_counters:
  assumes "draws_ok E" "commit_agent E now b ini (s, d) inc = (s', d')"
  shows "st_topologyGen s' = st_topologyGen s" "st_revision s' = (st_revision s)(as_PaneID inc := st_revCounter s)"
    "st_revCounter s' = st_revCounter s"
proof -
  obtain s1 cp where pr: "prepare_entry E now b ini s inc = (s1, cp)" by fastforce
  have "same_counters s s1" using prepare_entry_counters [of s E now b ini inc] pr by simp
  moreover have "s' = fst (install_entry E (continued s inc) cp s1)"
    using assms(2) pr by (auto simp: commit_agent_def case_prod_beta)
  ultimately show "st_topologyGen s' = st_topologyGen s" "st_revision s' = (st_revision s)(as_PaneID inc := st_revCounter s)"
    "st_revCounter s' = st_revCounter s"
    using prepare_entry_props(3) [OF assms(1) pr] by (simp_all add: install_entry_counters same_counters_def)
qed

lemma fold_commit_counters:
  assumes "draws_ok E"
  shows "st_topologyGen (fst (foldl (commit_agent E now b ini) (s, d) incs)) = st_topologyGen s
    \<and> (q \<notin> as_PaneID ` set incs \<longrightarrow> st_revision (fst (foldl (commit_agent E now b ini) (s, d) incs)) q = st_revision s q)"
proof (induction incs arbitrary: s d)
  case (Cons inc incs)
  obtain s1 d1 where c: "commit_agent E now b ini (s, d) inc = (s1, d1)" by fastforce
  show ?case using Cons.IH [of s1 d1] commit_agent_counters [OF assms c] c by simp
qed simp

lemma remove_agent_counters: "st_topologyGen (foldl remove_agent s ps) = st_topologyGen s"
  by (induction ps arbitrary: s) (simp_all add: remove_agent_def forget_flags_def bump_generation_def Let_def)

lemma commitInventory_topology:
  assumes "draws_ok E"
  shows "st_topologyGen (commitInventoryLocked E now agents b s) = st_topologyGen s + (if topology_changed s agents then 1 else 0)"
proof -
  define s1 where "s1 = s\<lparr>st_topologyGen := (if topology_changed s agents then st_topologyGen s + 1 else st_topologyGen s),
                 st_revCounter := st_revCounter s + 1, st_inventoryReady := True, st_inventoryErrorCode := [], st_inventoryMessage := [],
                 st_lastAttemptAt := now, st_lastSuccessAt := now\<rparr>"
  define s2 where "s2 = fst (foldl (commit_agent E now b (\<not> st_inventoryReady s)) (s1, False) agents)"
  define s3 where "s3 = foldl remove_agent s2 (filter (\<lambda>p. p \<notin> as_PaneID ` set agents) (map fst (st_agents s2)))"
  define s4 where "s4 = s3\<lparr>st_pendingEvents := filter (\<lambda>x. now < pe_expiresAt (snd x)) (st_pendingEvents s3)\<rparr>"
  have "commitInventoryLocked E now agents b s = persistTriageLocked now s4 \<or> commitInventoryLocked E now agents b s = s4"
    unfolding commitInventoryLocked_def Let_def s4_def s3_def s2_def s1_def by (simp add: case_prod_beta)
  moreover have "st_topologyGen (persistTriageLocked now s4) = st_topologyGen s4"
    using same_counters_prims(6) [of s4 now] by (simp add: same_counters_def)
  moreover have "st_topologyGen s4 = st_topologyGen s1"
    by (simp add: s4_def s3_def remove_agent_counters) (simp add: s2_def fold_commit_counters [OF assms])
  ultimately show ?thesis by (auto simp: s1_def)
qed

section \<open>Monotone counters\<close>

lemma commit_generation_mono:
  assumes "draws_ok E" "store_inv s"
  shows "st_generation s p \<le> st_generation (fst (foldl (commit_agent E now b ini) (s, d) incs)) p"
  using assms(2)
proof (induction incs arbitrary: s d)
  case (Cons inc incs)
  obtain s1 d1 where c: "commit_agent E now b ini (s, d) inc = (s1, d1)" by fastforce
  note cp = commit_agent_props [OF assms(1) store_inv_view [OF Cons.prems] c]
  have "st_generation s p \<le> st_generation s1 p"
    using cp(1) [of p] cp(3) by (cases "p = as_PaneID inc") (simp_all add: next_generation_def pane_view_def)
  also have "\<dots> \<le> st_generation (fst (foldl (commit_agent E now b ini) (s1, d1) incs)) p"
    by (rule Cons.IH [OF commit_agent_inv [OF assms(1) Cons.prems c]])
  finally show ?case using c by simp
qed simp

lemma inventory_generation_mono:
  assumes "draws_ok E" "store_inv s"
  shows "st_generation s p \<le> st_generation (commitInventoryLocked E now agents b s) p"
proof (rule commitInventory_view [OF assms, of now b agents])
  fix s1 s2 d
  assume sp: "same_panes s s1" "store_inv s1"
    and s2: "s2 = fst (foldl (commit_agent E now b (\<not> st_inventoryReady s)) (s1, d) agents)"
    and v: "\<And>q. pane_view (commitInventoryLocked E now agents b s) q =
       (if q \<in> as_PaneID ` set agents then pane_view s2 q
        else if q \<in> fst ` set (st_agents s) then (None, False, False, [], st_generation s q + 1)
        else pane_view s q)"
  have "st_generation s p \<le> st_generation s2 p"
    using commit_generation_mono [OF assms(1) sp(2), of p] sp(1) by (simp add: s2 same_panes_def)
  then show ?thesis using v [of p] by (auto simp: pane_view_def split: if_splits)
qed

lemma topology_bump_inv: "store_inv s \<Longrightarrow> store_inv (s\<lparr>st_topologyGen := g\<rparr>)"
  by (simp add: store_inv_def pane_view_def)

lemma quiet_generation:
  "st_generation (MarkTopologyChanged s) = st_generation s" "st_generation (fst (RegisterFinishedNotification p s)) = st_generation s"
  "st_generation (fst (RegisterFinishedNotificationForTransition p r s)) = st_generation s"
  "st_generation (MarkInventoryFailure now err s) = st_generation s" "st_generation (MarkTopologyDegraded now s) = st_generation s"
  "st_generation (RecordCustomAnswer key trim p q t s) = st_generation s" "st_generation (SetOnTransition b s) = st_generation s"
  "st_generation (fst (CommitWorkspaces ws s)) = st_generation s"
  "st_generation (fst (EnableTriagePersistence trim join mk f now dir s)) = st_generation s"
  using quiet_steps(1) [of s] quiet_steps(2) [of s p] quiet_steps(3) [of s p r] quiet_steps(4) [of s now err]
    quiet_steps(5) [of s now] quiet_steps(6) [of s key trim p q t] quiet_steps(7) [of s b] quiet_steps(8) [of s ws]
    quiet_steps(9) [of s trim join mk f now dir]
  unfolding same_panes_def by blast+

lemma acknowledge_frame:
  "st_topologyGen (fst (AcknowledgePane E now p s)) = st_topologyGen s"
  "st_generation (fst (AcknowledgePane E now p s)) = st_generation s"
  by (simp_all add: AcknowledgePane_def syncTriageLocked_def persistTriageLocked_def pruneTriageLocked_def Let_def
      split: option.split)

lemma classification_frame:
  "st_topologyGen (fst (CommitAttentionClassification p eid g r c s)) = st_topologyGen s"
  "st_generation (fst (CommitAttentionClassification p eid g r c s)) = st_generation s"
  by (simp_all add: CommitAttentionClassification_def syncAttentionCompletionLocked_def Let_def case_prod_beta
      split: option.split)

lemma quiet_counters:
  "st_topologyGen (fst (RegisterFinishedNotification p s)) = st_topologyGen s"
  "st_topologyGen (fst (RegisterFinishedNotificationForTransition p r s)) = st_topologyGen s"
  "st_topologyGen (MarkInventoryFailure now err s) = st_topologyGen s"
  "st_topologyGen (MarkTopologyDegraded now s) = st_topologyGen s"
  "st_topologyGen (RecordCustomAnswer key trim p q t s) = st_topologyGen s"
  "st_topologyGen (SetOnTransition b s) = st_topologyGen s"
  "st_topologyGen (fst (CommitWorkspaces ws s)) = st_topologyGen s"
  "st_topologyGen (fst (EnableTriagePersistence trim join mk f now dir s)) = st_topologyGen s"
  "st_topologyGen (BumpGeneration p s) = st_topologyGen s"
  by (simp_all add: RegisterFinishedNotification_def
      RegisterFinishedNotificationForTransition_def MarkInventoryFailure_def MarkTopologyDegraded_def
      RecordCustomAnswer_def SetOnTransition_def CommitWorkspaces_def commitWorkspacesLocked_def BumpGeneration_def
      bump_generation_def EnableTriagePersistence_def persistTriageLocked_def pruneTriageLocked_def Let_def
      split: option.split triage_file.split)

lemma commitEvent_counters:
  assumes "s' = fst (CommitEventForSession E now p tab wid status upd s)"
  shows "st_topologyGen s' = st_topologyGen s"
    and "snd (CommitEventForSession E now p tab wid status upd s) \<Longrightarrow>
      st_revision s' p = st_revCounter s + 1 \<and> st_revCounter s' = st_revCounter s + 1"
proof -
  have "st_topologyGen s' = st_topologyGen s \<and> (snd (CommitEventForSession E now p tab wid status upd s) \<longrightarrow>
      st_revision s' p = st_revCounter s + 1 \<and> st_revCounter s' = st_revCounter s + 1)"
  proof (cases "map_of (st_agents s) p")
    case None
    then show ?thesis by (simp add: assms CommitEventForSession_def add_pending_def Let_def)
  next
    case (Some a)
    obtain s1 a' where ea: "event_agent E now status upd a (event_start p a status s) = (s1, a')" by fastforce
    have "same_counters (event_start p a status s) s1"
      using same_counters_event [of "event_start p a status s" E now status upd a] ea by simp
    moreover have "same_counters (event_store p a a' s1) (event_finish E now p a a' (event_store p a a' s1))"
      by (rule event_finish_counters)
    ultimately show ?thesis
      using Some ea by (auto simp: assms CommitEventForSession_def same_counters_def event_start_def event_store_def)
  qed
  then show "st_topologyGen s' = st_topologyGen s"
    "snd (CommitEventForSession E now p tab wid status upd s) \<Longrightarrow>
      st_revision s' p = st_revCounter s + 1 \<and> st_revCounter s' = st_revCounter s + 1" by simp_all
qed

lemma topology_mono:
  assumes "draws_ok E"
  shows "st_topologyGen s \<le> st_topologyGen (fst (store_step E s e))"
  by (cases e)
    (simp_all add: quiet_counters acknowledge_frame classification_frame commitEvent_counters(1) [OF refl] CommitInventory_def CommitTopology_def CommitPoll_def MarkTopologyChanged_def
      commitInventory_topology [OF assms] commitWorkspaces_frame(3) Let_def case_prod_beta)

lemma generation_mono:
  assumes "draws_ok E" "store_inv s"
  shows "st_generation s p \<le> st_generation (fst (store_step E s e)) p"
proof -
  have w: "store_inv (fst (commitWorkspacesLocked ws s))" "st_generation (fst (commitWorkspacesLocked ws s)) = st_generation s" for ws
    using store_inv_cong [OF commitWorkspaces_frame(1,2)] assms(2) commitWorkspaces_frame(1) [of s ws]
    by (simp_all add: same_panes_def)
  have inv: "st_generation s p \<le> st_generation (commitInventoryLocked E now ags b (fst (commitWorkspacesLocked ws s))) p"
    "st_generation s p \<le> st_generation (commitInventoryLocked E now ags b (fst (commitWorkspacesLocked ws s)\<lparr>st_topologyGen := g\<rparr>)) p"
    for now ags b ws g
    using inventory_generation_mono [OF assms(1) w(1) [of ws], of p now ags b]
      inventory_generation_mono [OF assms(1) topology_bump_inv [OF w(1) [of ws], of g], of p now ags b] w(2) by simp_all
  have ev: "st_generation (fst (CommitEventForSession E now q tab wid status upd s)) = st_generation s" for now q tab wid status upd
  proof (cases "map_of (st_agents s) q")
    case (Some a)
    then show ?thesis
      using commitEvent_props(6) [where now = now and status = status and upd = upd, OF assms Some _ refl, of tab wid]
      by (cases "eventIdentityMatches a tab wid") (simp_all add: CommitEventForSession_def)
  qed (simp add: CommitEventForSession_def add_pending_def Let_def)
  show ?thesis
    by (cases e)
      (use assms in \<open>simp_all add: CommitInventory_def CommitTopology_def CommitPoll_def Let_def case_prod_beta inv ev
        quiet_generation acknowledge_frame classification_frame inventory_generation_mono BumpGeneration_def bump_generation_def\<close>)
qed

lemma store_run_simps [simp]:
  "store_run E s [] = s" "store_run E s (e # es) = store_run E (fst (store_step E s e)) es"
  by (simp_all add: store_run_def)

lemma store_run_inv: "draws_ok E \<Longrightarrow> store_inv s \<Longrightarrow> store_inv (store_run E s evs)"
  unfolding store_run_def by (rule store.run_inv) (simp_all add: list_all_iff)

lemma store_run_mono:
  assumes "draws_ok E" "store_inv s"
  shows "st_generation s p \<le> st_generation (store_run E s evs) p" "st_topologyGen s \<le> st_topologyGen (store_run E s evs)"
proof -
  have "st_generation s p \<le> st_generation (store_run E s evs) p \<and> st_topologyGen s \<le> st_topologyGen (store_run E s evs)"
    using assms(2)
  proof (induction evs arbitrary: s)
    case (Cons e evs)
    have "store_inv (fst (store_step E s e))" using store.step_inv [OF Cons.prems assms(1)] .
    from Cons.IH [OF this] show ?case
      using generation_mono [OF assms(1) Cons.prems, of p e] topology_mono [OF assms(1), of s e] by fastforce
  qed simp
  then show "st_generation s p \<le> st_generation (store_run E s evs) p" "st_topologyGen s \<le> st_topologyGen (store_run E s evs)"
    by simp_all
qed

section \<open>A concrete store\<close>

definition sample_agent :: agent_state where
  "sample_agent = \<lparr>as_PaneID = ''p1'', as_RawPaneID = ''p1'', as_TerminalID = ''t1'', as_TabID = ''tab'', as_WorkspaceID = ''w'',
     as_Agent = ''claude'', as_Name = [], as_Status = ''idle'', as_Cwd = [], as_Project = [], as_UpdatedAt = 0, as_LastActiveAt = 0,
     as_LastSeenAt = 0, as_ActivitySeq = 0, as_SessionID = [], as_PaneRevision = 0, as_StateRevision = 0, as_ScrollMaxOffset = 0,
     as_ForegroundCwd = [], as_blocked = no_details, as_info = []\<rparr>"

definition store_env :: env where
  "store_env = \<lparr>env_draw = (\<lambda>n. Some (replicate 12 (of_nat n))), env_digest = (\<lambda>x. x)\<rparr>"

definition sample_store :: pane_store where
  "sample_store = CommitInventory store_env unix_epoch [sample_agent] 0 NewState"

lemma store_env_ok: "draws_ok store_env"
  by (simp add: draws_ok_def store_env_def)

lemma new_store_inv: "store_inv NewState"
  by (simp add: store_inv_def NewState_def pane_view_def view_ok_def)

lemma sample_store_inv: "store_inv sample_store"
  unfolding sample_store_def CommitInventory_def by (rule commitInventory_inv [OF store_env_ok new_store_inv])

lemma sample_pane: "map_of (st_agents sample_store) ''p1'' = Some sample_agent"
  by code_simp

section \<open>Properties\<close>

text \<open>The sampled status of one committed entry.\<close>

lemma prepare_entry_status:
  assumes "map_of (st_pendingEvents s) (as_PaneID inc) = None" "continued s inc = Some e"
    and "st_revision s = st_revision (open_epoch ini s inc)"
  shows "as_Status (snd (prepare_entry E now b ini s inc)) =
    (if b < st_revision s (as_PaneID inc) then as_Status e else as_Status inc)"
proof -
  let ?s0 = "open_epoch ini s inc"
  have tp: "take_pending now ?s0 inc (merge_status E b ?s0 inc (Some e)) = (?s0, merge_status E b ?s0 inc (Some e), False)"
    using assms(1) by (simp add: take_pending_def pending_frames)
  have ab: "as_Status (snd (applyBlockedCycleLocked E now t c x)) = as_Status c" for t c x
    by (auto simp: applyBlockedCycleLocked_def clearBlockedDetails_def Let_def case_prod_beta split: option.splits)
  have "as_Status (merge_status E b ?s0 inc (Some e)) = (if b < st_revision s (as_PaneID inc) then as_Status e else as_Status inc)"
    using assms(3) by (auto simp: merge_status_def copyBlockedDetails_def Let_def)
  then show ?thesis by (simp add: prepare_entry_def assms(2) tp ab Let_def case_prod_beta)
qed

lemma inventory_entry_status:
  assumes "draws_ok E" "store_inv s" "distinct (map as_PaneID agents)" "inc \<in> set agents"
    and "map_of (st_agents s) (as_PaneID inc) = Some e" "\<not> paneSessionReplaced e inc"
  shows "\<exists>a. map_of (st_agents (commitInventoryLocked E now agents b s)) (as_PaneID inc) = Some a \<and>
    as_Status a = (if b < st_revision s (as_PaneID inc) then as_Status e else as_Status inc)"
proof (rule commitInventory_view [OF assms(1,2), of now b agents])
  let ?p = "as_PaneID inc" and ?ini = "\<not> st_inventoryReady s"
  fix s1 s2 d
  assume sp: "same_panes s s1" "store_inv s1" "st_revision s1 = st_revision s" "st_pendingEvents s1 = st_pendingEvents s"
    and s2: "s2 = fst (foldl (commit_agent E now b ?ini) (s1, d) agents)"
    and v: "\<And>q. pane_view (commitInventoryLocked E now agents b s) q =
       (if q \<in> as_PaneID ` set agents then pane_view s2 q
        else if q \<in> fst ` set (st_agents s) then (None, False, False, [], st_generation s q + 1)
        else pane_view s q)"
  obtain t pre where t: "pane_view t ?p = pane_view s1 ?p" "store_inv t"
      "map_of (st_agents s2) ?p = Some (snd (prepare_entry E now b ?ini t inc))"
      "?p \<notin> as_PaneID ` set pre" "t = fst (foldl (commit_agent E now b ?ini) (s1, d) pre)"
    unfolding s2 by (rule fold_commit_entry [OF assms(1) sp(2) assms(3,4), of now b ?ini d]) blast
  have e: "map_of (st_agents t) ?p = Some e" using t(1) same_panes_view [OF sp(1)] assms(5) by (simp add: pane_view_def)
  have "?p \<in> fst ` set (st_agents t)" using e by (force dest: map_of_SomeD)
  then have "map_of (st_pendingEvents t) ?p = None" using t(2) by (auto simp: store_inv_def map_of_eq_None_iff)
  moreover have "continued t inc = Some e" using e assms(6) by (simp add: continued_def)
  moreover have "st_revision t = st_revision (open_epoch ?ini t inc)"
    using same_counters_prims(10) [of t ?ini inc] by (simp add: same_counters_def)
  moreover have "st_revision t ?p = st_revision s ?p"
    using fold_commit_counters [OF assms(1), of now b ?ini s1 d pre ?p] t(4,5) sp(3) by simp
  ultimately have "as_Status (snd (prepare_entry E now b ?ini t inc)) =
      (if b < st_revision s ?p then as_Status e else as_Status inc)"
    using prepare_entry_status [of t inc e ?ini E now b] by simp
  moreover have "map_of (st_agents (commitInventoryLocked E now agents b s)) ?p = map_of (st_agents s2) ?p"
    using v [of ?p] assms(4) by (simp add: pane_view_def)
  ultimately show ?thesis using t(3) by auto
qed

lemma event_keeps_identity:
  "paneSessionReplaced (event_result E now p status upd a s) inc = paneSessionReplaced a inc"
  by (simp add: event_result_def event_agent_def paneSessionReplaced_def clearBlockedDetails_def Let_def case_prod_beta)

text \<open>C6. Which status wins when a poll and an event race: an event accepted after the poll was begun survives
  the poll's commit whatever status the poll had sampled, whereas a poll begun after the event
  replaces it; in both cases the event itself does not invalidate the poll.\<close>

theorem poll_event_race:
  assumes "draws_ok E" "store_inv s" "map_of (st_agents s) p = Some a"
    and "CommitEventForSession E t1 p tab wid status upd s = (s1, True)"
    and "distinct (map as_PaneID agents)" "inc \<in> set agents" "as_PaneID inc = p" "\<not> paneSessionReplaced a inc"
  shows "\<exists>a1 a2 x y. CommitPoll E t2 agents ws (BeginPoll s) s1 = (x, y, True) \<and> map_of (st_agents x) p = Some a1 \<and> as_Status a1 = status
     \<and> map_of (st_agents (fst (CommitPoll E t2 agents ws (BeginPoll s1) s1))) p = Some a2 \<and> as_Status a2 = as_Status inc"
proof -
  have m: "eventIdentityMatches a tab wid" using assms(3,4) by (auto simp: CommitEventForSession_def split: if_splits)
  have s1: "s1 = fst (CommitEventForSession E t1 p tab wid status upd s)" using assms(4) by simp
  note e = commitEvent_props [where now = t1 and status = status and upd = upd, OF assms(1,2,3) m s1]
  have c: "st_topologyGen s1 = st_topologyGen s" "st_revision s1 p = st_revCounter s + 1" "st_revCounter s1 = st_revCounter s + 1"
    using commitEvent_counters [OF s1] assms(4) by simp_all
  define s2 where "s2 = fst (commitWorkspacesLocked ws s1)"
  have i1: "store_inv s1" using commitEvent_inv [OF assms(1,2)] s1 by simp
  have s2: "store_inv s2" "st_agents s2 = st_agents s1" "st_revision s2 = st_revision s1"
    using store_inv_cong [OF commitWorkspaces_frame(1,2)] i1 commitWorkspaces_frame(1) [of s1 ws] commitWorkspaces_frame(4) [of ws s1]
    by (simp_all add: s2_def same_panes_def)
  let ?a' = "event_result E t1 p status upd a s"
  have ag: "map_of (st_agents s2) (as_PaneID inc) = Some ?a'" using e(1) s2(2) assms(7) by (simp add: update_conv')
  have nr: "\<not> paneSessionReplaced ?a' inc" using assms(8) by (simp add: event_keeps_identity)
  note st = inventory_entry_status [OF assms(1) s2(1) assms(5,6) ag nr, of t2]
  have cp: "CommitPoll E t2 agents ws tok s1 = (commitInventoryLocked E t2 agents (pt_BaseRevision tok) s2, snd (commitWorkspacesLocked ws s1), True)"
    if "pt_TopologyGeneration tok = st_topologyGen s1" for tok
    using that by (simp add: CommitPoll_def s2_def case_prod_beta)
  show ?thesis
    using st [of "st_revCounter s"] st [of "st_revCounter s1"] cp [of "BeginPoll s"] cp [of "BeginPoll s1"] c s2(3) e(2) assms(7)
    by (simp add: BeginPoll_def)
qed

theorem poll_event_race_witness:
  "\<exists>a1 a2 x y. CommitPoll store_env unix_epoch [sample_agent] [] (BeginPoll sample_store)
        (fst (CommitEventForSession store_env unix_epoch ''p1'' [] [] ''working'' 5 sample_store)) = (x, y, True)
     \<and> map_of (st_agents x) ''p1'' = Some a1 \<and> as_Status a1 = ''working''
     \<and> map_of (st_agents (fst (CommitPoll store_env unix_epoch [sample_agent] []
         (BeginPoll (fst (CommitEventForSession store_env unix_epoch ''p1'' [] [] ''working'' 5 sample_store)))
         (fst (CommitEventForSession store_env unix_epoch ''p1'' [] [] ''working'' 5 sample_store))))) ''p1'' = Some a2
     \<and> as_Status a2 = ''idle''"
proof -
  have acc: "CommitEventForSession store_env unix_epoch ''p1'' [] [] ''working'' 5 sample_store =
      (fst (CommitEventForSession store_env unix_epoch ''p1'' [] [] ''working'' 5 sample_store), True)"
    using sample_pane by (simp add: CommitEventForSession_def eventIdentityMatches_def identity_differs_def case_prod_beta)
  have "as_Status sample_agent = ''idle''" "as_PaneID sample_agent = ''p1''" by (simp_all add: sample_agent_def)
  then show ?thesis
    using poll_event_race [OF store_env_ok sample_store_inv sample_pane acc, of "[sample_agent]" sample_agent unix_epoch "[]"]
    by (simp add: paneSessionReplaced_def identity_differs_def)
qed

text \<open>C7. A pane session once ended is never current again: when an inventory no longer lists a pane, or lists it
  with a different terminal, tab or workspace, no later sequence of operations makes the generation
  under which work had been admitted current again (until the counter would wrap at 64 bits).\<close>

theorem session_never_revived:
  assumes "draws_ok E" "store_inv s" "PaneSessionCurrent s p g" "st_generation s p < 2 ^ 64"
    and "p \<notin> as_PaneID ` set agents \<or>
      distinct (map as_PaneID agents) \<and> (\<exists>inc \<in> set agents. as_PaneID inc = p \<and> is_replaced s inc)"
    and "st_generation (store_run E (CommitInventory E now agents b s) evs) p < 2 ^ 64"
  shows "\<not> PaneSessionCurrent (store_run E (CommitInventory E now agents b s) evs) p g"
proof -
  let ?s' = "commitInventoryLocked E now agents b s"
  have g0: "0 \<le> st_generation s p" using store_inv_view [OF assms(2), of p] by (simp add: view_ok_def pane_view_def)
  with assms(3,4) have g: "st_generation s p = int g" and act: "p \<in> fst ` set (st_agents s)"
    by (auto simp: PaneSessionCurrent_def mod_pos_pos_trivial map_of_eq_None_iff)
  have "st_generation ?s' p = st_generation s p + 1"
  proof (rule commitInventory_view [OF assms(1,2), of now b agents])
    let ?ini = "\<not> st_inventoryReady s"
    fix s1 s2 d
    assume sp: "same_panes s s1" "store_inv s1" and s2: "s2 = fst (foldl (commit_agent E now b ?ini) (s1, d) agents)"
      and v: "\<And>q. pane_view ?s' q = (if q \<in> as_PaneID ` set agents then pane_view s2 q
        else if q \<in> fst ` set (st_agents s) then (None, False, False, [], st_generation s q + 1) else pane_view s q)"
    show ?thesis
    proof (cases "p \<in> as_PaneID ` set agents")
      case False
      then show ?thesis using v [of p] act by (simp add: pane_view_def)
    next
      case True
      then obtain inc where inc: "distinct (map as_PaneID agents)" "inc \<in> set agents" "as_PaneID inc = p" "is_replaced s inc"
        using assms(5) by auto
      then have "is_replaced s1 inc" "st_generation s1 p = st_generation s p"
        using sp(1) by (simp_all add: is_replaced_def same_panes_def)
      then have "st_generation s2 p = st_generation s p + 1"
        unfolding s2 using fold_commit_entry [OF assms(1) sp(2) inc(1,2), of now b ?ini d] inc(3)
        by (auto simp: next_generation_def)
      then show ?thesis using v [of p] True by (simp add: pane_view_def)
    qed
  qed
  moreover have "st_generation ?s' p \<le> st_generation (store_run E ?s' evs) p"
    by (rule store_run_mono [OF assms(1) commitInventory_inv [OF assms(1,2)]])
  ultimately show ?thesis
    using g g0 assms(6) by (auto simp: PaneSessionCurrent_def CommitInventory_def mod_pos_pos_trivial)
qed

theorem session_never_revived_witness:
  "PaneSessionCurrent sample_store ''p1'' 0 \<and>
   \<not> PaneSessionCurrent (store_run store_env (CommitInventory store_env unix_epoch [] 1 sample_store)
      [AInventory unix_epoch [sample_agent] 2]) ''p1'' 0"
proof -
  have c: "PaneSessionCurrent sample_store ''p1'' 0" and g: "st_generation sample_store ''p1'' < 2 ^ 64" by code_simp+
  have "st_generation (store_run store_env (CommitInventory store_env unix_epoch [] 1 sample_store)
      [AInventory unix_epoch [sample_agent] 2]) ''p1'' < 2 ^ 64" by code_simp
  from session_never_revived [OF store_env_ok sample_store_inv c g _ this] c show ?thesis by simp
qed

text \<open>A poll cannot overwrite a newer topology: once an inventory that changed the set of panes, or replaced the
  session of one, has been committed, every poll begun before it is refused, however many operations
  lie in between, and the refusal changes nothing but the retry counter.\<close>

theorem stale_poll_refused:
  assumes "draws_ok E" "store_inv s" "topology_changed (store_run E s evs) agents"
  shows "CommitPoll E now' agents' ws (BeginPoll s)
           (store_run E (CommitInventory E now agents b (store_run E s evs)) evs')
       = ((store_run E (CommitInventory E now agents b (store_run E s evs)) evs')
            \<lparr>st_topologyRetries := st_topologyRetries (store_run E (CommitInventory E now agents b (store_run E s evs)) evs') + 1\<rparr>,
          False, False)"
proof -
  let ?s1 = "store_run E s evs"
  let ?s2 = "CommitInventory E now agents b ?s1"
  have i1: "store_inv ?s1" by (rule store_run_inv [OF assms(1,2)])
  have i2: "store_inv ?s2" unfolding CommitInventory_def by (rule commitInventory_inv [OF assms(1) i1])
  have "st_topologyGen s \<le> st_topologyGen ?s1" by (rule store_run_mono(2) [OF assms(1,2)])
  also have "\<dots> < st_topologyGen ?s2"
    using assms(3) by (simp add: CommitInventory_def commitInventory_topology [OF assms(1)])
  also have "\<dots> \<le> st_topologyGen (store_run E ?s2 evs')" by (rule store_run_mono(2) [OF assms(1) i2])
  finally show ?thesis by (simp add: CommitPoll_def BeginPoll_def)
qed

theorem stale_poll_refused_witness:
  "snd (CommitPoll store_env unix_epoch [sample_agent] [] (BeginPoll sample_store)
      (store_run store_env (CommitInventory store_env unix_epoch [] 1 (store_run store_env sample_store [ACallback True]))
         [ABump ''p2''])) = (False, False)"
proof -
  have t: "topology_changed (store_run store_env sample_store [ACallback True]) []" by code_simp
  show ?thesis unfolding stale_poll_refused [OF store_env_ok sample_store_inv t] by simp
qed

lemma snapshot_status:
  "as_Status (snapshot_agent s a) =
     (if doneStatuses (as_Status a) \<and> st_ackDone s (as_PaneID a)
      then (if st_unseenDone s (as_PaneID a) then ''done'' else ''idle'')
      else if as_Status a = ''idle'' \<and> st_unseenDone s (as_PaneID a) then ''done'' else as_Status a)"
  by (simp add: snapshot_agent_def Let_def)

lemma snapshot_of_inv:
  assumes i: "store_inv s"
  shows "sorted_wrt (<) (map as_PaneID (Snapshot s)) \<and> as_PaneID ` set (Snapshot s) = fst ` set (st_agents s)
    \<and> list_all (\<lambda>a. as_Status a = DisplayedStatus s (as_PaneID a)) (Snapshot s)"
proof -
  have id: "as_PaneID (snapshot_agent t a) = as_PaneID a" for t a by (simp add: snapshot_agent_def Let_def)
  have pane: "as_PaneID a = p \<and> map_of (st_agents s) p = Some a \<and> \<not> (st_unseenDone s p \<and> st_ackDone s p)"
    if "(p, a) \<in> set (st_agents s)" for p a
  proof -
    have "map_of (st_agents s) p = Some a" using that i by (simp add: store_inv_def)
    then show ?thesis using store_inv_view [OF i, of p] by (auto simp: view_ok_def pane_view_def)
  qed
  have keys: "map as_PaneID (map (\<lambda>x. snapshot_agent s (snd x)) (st_agents s)) = map fst (st_agents s)"
    using pane by (auto simp: id)
  have d: "distinct (map fst (st_agents s))" using i by (simp add: store_inv_def)
  have "sorted (map as_PaneID (Snapshot s))" by (simp add: Snapshot_def)
  moreover have "distinct (map as_PaneID (Snapshot s))"
    using d unfolding Snapshot_def keys [symmetric] by (simp only: distinct_map distinct_sort set_sort)
  ultimately have "sorted_wrt (<) (map as_PaneID (Snapshot s))" using strict_sorted_iff by blast
  moreover have "as_PaneID ` set (Snapshot s) = fst ` set (st_agents s)"
    using arg_cong [OF keys, of set] by (simp add: Snapshot_def image_image)
  moreover have "list_all (\<lambda>a. as_Status a = DisplayedStatus s (as_PaneID a)) (Snapshot s)"
  proof -
    have "as_Status (snapshot_agent s a) = DisplayedStatus s (as_PaneID (snapshot_agent s a))"
      if "(p, a) \<in> set (st_agents s)" for p a
      using pane [OF that] by (simp add: id DisplayedStatus_def snapshot_status)
    then show ?thesis by (auto simp: list_all_iff Snapshot_def)
  qed
  ultimately show ?thesis by blast
qed

text \<open>What a client is shown: in every reachable state the snapshot lists each pane once, in increasing order
  of its id, and the status it shows for a pane is exactly \<open>DisplayedStatus\<close>.\<close>

theorem snapshot_displays:
  assumes "draws_ok E"
  shows "let s = store_run E NewState evs; snap = Snapshot s
         in sorted_wrt (<) (map as_PaneID snap) \<and> as_PaneID ` set snap = fst ` set (st_agents s)
            \<and> list_all (\<lambda>a. as_Status a = DisplayedStatus s (as_PaneID a)) snap"
  unfolding Let_def by (rule snapshot_of_inv [OF store_run_inv [OF assms new_store_inv]])

theorem snapshot_displays_witness:
  "list_all (\<lambda>a. as_Status a = DisplayedStatus (store_run store_env NewState [AInventory unix_epoch [sample_agent] 0])
       (as_PaneID a)) (Snapshot (store_run store_env NewState [AInventory unix_epoch [sample_agent] 0]))"
  using snapshot_displays [OF store_env_ok, of "[AInventory unix_epoch [sample_agent] 0]"] unfolding Let_def by blast

text \<open>C34. The store stays well formed under every sequence of its operations: each pane is filed under its own id
  with the status its transitions were computed from, a blocked pane has an event id and a kind of attention
  and a pane that is not blocked has neither, no pane is both unseen and acknowledged, a pane that has gone
  leaves no flags behind, and at most 128 events wait, all of them for panes not yet known.\<close>

theorem store_invariant:
  assumes "draws_ok E"
  shows "store_inv (store_run E NewState evs)"
  by (rule store_run_inv [OF assms new_store_inv])

theorem store_invariant_witness:
  "store_inv (store_run store_env NewState [AInventory unix_epoch [sample_agent] 0, AEvent unix_epoch ''p1'' [] [] ''blocked'' 7])"
  by (rule store_invariant [OF store_env_ok])

end
