(* ===== verification/Stun.thy ===== *)
theory Stun
  imports Rate_Limiter
begin

text \<open>
  The gateway's address discovery, \<^verbatim>\<open>internal/gateway/stun.go\<close>: the server half of RFC 5389 reduced to
  Binding Requests, and the two-level limiter in front of it. \<open>netip.Addr\<close> is a value with the bytes of
  its address; the socket loop is one function per datagram. The reading of a response by a client is
  specified here independently, from the RFC.
\<close>

unbundle bit_operations_syntax

section \<open>Constants\<close>

definition stunHeaderSize :: nat where "stunHeaderSize = 20"
definition stunMagicCookie :: nat where "stunMagicCookie = 0x2112A442"
definition stunTxIDSize :: nat where "stunTxIDSize = 12"
definition stunAttrHeaderSize :: nat where "stunAttrHeaderSize = 4"
definition stunBindingRequest :: nat where "stunBindingRequest = 0x0001"
definition stunBindingSuccess :: nat where "stunBindingSuccess = 0x0101"
definition stunAttrXORMappedAddress :: nat where "stunAttrXORMappedAddress = 0x0020"
definition stunAttrSoftware :: nat where "stunAttrSoftware = 0x8022"
definition stunFamilyIPv4 :: byte where "stunFamilyIPv4 = 0x01"
definition stunFamilyIPv6 :: byte where "stunFamilyIPv6 = 0x02"
definition stunMaxRequest :: nat where "stunMaxRequest = 1280"
definition stunSoftware :: bytes where "stunSoftware = map (of_nat \<circ> of_char) ''herdr-gateway''"
definition stunMaxResponse :: nat where
  "stunMaxResponse = stunHeaderSize + stunAttrHeaderSize + 4 + 16 + stunAttrHeaderSize + (length stunSoftware + 3) div 4 * 4"
definition stunMandatoryResponse :: nat where
  "stunMandatoryResponse = stunHeaderSize + stunAttrHeaderSize + 4 + 16"
definition stunRateLimit :: int where "stunRateLimit = 20"
definition stunRateWindow :: duration where "stunRateWindow = 5 * second"
definition stunLimiterSlots :: nat where "stunLimiterSlots = 4096"
definition stunGlobalRate :: int where "stunGlobalRate = 2000"
definition stunGlobalWindow :: duration where "stunGlobalWindow = second"

lemmas stun_const_defs = stunHeaderSize_def stunMagicCookie_def stunTxIDSize_def stunAttrHeaderSize_def
  stunBindingRequest_def stunBindingSuccess_def stunAttrXORMappedAddress_def stunAttrSoftware_def
  stunFamilyIPv4_def stunFamilyIPv6_def stunMaxRequest_def stunMaxResponse_def stunMandatoryResponse_def

section \<open>Addresses\<close>

text \<open>An address is 4 or 16 bytes; \<open>Unmap\<close> turns \<open>::ffff:a.b.c.d\<close> into \<open>a.b.c.d\<close>, and \<open>As16\<close> is the inverse.\<close>

datatype addr = IPv4 bytes | IPv6 bytes

fun addr_ok :: "addr \<Rightarrow> bool" where
  "addr_ok (IPv4 b) \<longleftrightarrow> length b = 4"
| "addr_ok (IPv6 b) \<longleftrightarrow> length b = 16"

definition mapped_prefix :: bytes where "mapped_prefix = replicate 10 0 @ [0xFF, 0xFF]"

fun As16 :: "addr \<Rightarrow> bytes" where
  "As16 (IPv4 b) = mapped_prefix @ b"
| "As16 (IPv6 b) = b"

fun Unmap :: "addr \<Rightarrow> addr" where
  "Unmap (IPv4 b) = IPv4 b"
| "Unmap (IPv6 b) = (if take 12 b = mapped_prefix then IPv4 (drop 12 b) else IPv6 b)"

section \<open>Messages\<close>

definition stunBindingTxID :: "bytes \<Rightarrow> bytes option" where
  "stunBindingTxID request =
     (if length request < stunHeaderSize then None
      else if be_decode (take 2 request) \<noteq> stunBindingRequest then None
      else if be_decode (take 4 (drop 4 request)) \<noteq> stunMagicCookie then None
      else let len = be_decode (take 2 (drop 2 request))
           in if len mod 4 \<noteq> 0 \<or> stunHeaderSize + len \<noteq> length request then None
              else Some (take (stunHeaderSize - 8) (drop 8 request)))"

definition appendSTUNAttr :: "bytes \<Rightarrow> nat \<Rightarrow> bytes \<Rightarrow> bytes" where
  "appendSTUNAttr dst attrType v =
     dst @ be_encode 2 attrType @ be_encode 2 (length v) @ v @ replicate ((4 - length v mod 4) mod 4) 0"

definition xor_bytes :: "bytes \<Rightarrow> bytes \<Rightarrow> bytes" where
  "xor_bytes xs ys = map2 (XOR) xs ys"

text \<open>The pad is the cookie followed by the transaction id.\<close>

definition xor_pad :: "bytes \<Rightarrow> bytes" where
  "xor_pad txID = be_encode 4 stunMagicCookie @ take stunTxIDSize (txID @ replicate stunTxIDSize 0)"

definition appendXORMappedAddress :: "bytes \<Rightarrow> bytes \<Rightarrow> addr \<Rightarrow> 16 word \<Rightarrow> bytes" where
  "appendXORMappedAddress dst txID source port =
     (let family = (case source of IPv4 _ \<Rightarrow> stunFamilyIPv4 | IPv6 _ \<Rightarrow> stunFamilyIPv6);
          address = (case source of IPv4 b \<Rightarrow> b | IPv6 b \<Rightarrow> b);
          port' = port XOR word_of_nat (stunMagicCookie div 2 ^ 16)
      in appendSTUNAttr dst stunAttrXORMappedAddress
           ([0, family] @ be_encode 2 (unat port') @ xor_bytes address (xor_pad txID)))"

text \<open>\<open>PutUint16\<close> on the length field of the message that starts at \<open>head\<close>.\<close>

definition put_length :: "bytes \<Rightarrow> nat \<Rightarrow> nat \<Rightarrow> bytes" where
  "put_length dst head n = take (head + 2) dst @ be_encode 2 n @ drop (head + 4) dst"

definition appendBindingSuccess :: "bytes \<Rightarrow> bytes \<Rightarrow> addr \<Rightarrow> 16 word \<Rightarrow> nat \<Rightarrow> bytes" where
  "appendBindingSuccess dst txID source port requestSize =
     (let head = length dst;
          d1 = dst @ be_encode 2 stunBindingSuccess @ be_encode 2 0 @ be_encode 4 stunMagicCookie @ txID;
          d2 = appendXORMappedAddress d1 txID source port;
          software = stunAttrHeaderSize + (length stunSoftware + 3) div 4 * 4;
          d3 = (if length d2 - head + software \<le> 2 * requestSize
                then appendSTUNAttr d2 stunAttrSoftware stunSoftware else d2)
      in put_length d3 head (length d3 - head - stunHeaderSize))"

section \<open>Limiter\<close>

record stun_window =
  sw_start :: time
  sw_count :: int

record stun_limiter =
  sl_seed :: "64 word"
  sl_global :: stun_window
  sl_slots :: "nat \<Rightarrow> stun_window"

definition charge :: "stun_window \<Rightarrow> time \<Rightarrow> duration \<Rightarrow> int \<Rightarrow> stun_window \<times> bool" where
  "charge w now window limit =
     (if time_sub now (sw_start w) \<ge> window then (w\<lparr>sw_start := now, sw_count := 1\<rparr>, True)
      else if sw_count w \<ge> limit then (w, False)
      else (w\<lparr>sw_count := sw_count w + 1\<rparr>, True))"

definition zero_window :: stun_window where "zero_window = \<lparr>sw_start = 0, sw_count = 0\<rparr>"

definition newSTUNLimiter :: "64 word \<Rightarrow> stun_limiter" where
  "newSTUNLimiter seed = \<lparr>sl_seed = seed, sl_global = zero_window, sl_slots = (\<lambda>_. zero_window)\<rparr>"

definition stun_hash :: "64 word \<Rightarrow> bytes \<Rightarrow> 64 word" where
  "stun_hash seed key = foldl (\<lambda>hash b. (hash XOR ucast b) * 1099511628211) seed key"

definition stun_slot :: "stun_limiter \<Rightarrow> addr \<Rightarrow> nat" where
  "stun_slot l source = unat (stun_hash (sl_seed l) (As16 source) AND (word_of_nat (stunLimiterSlots - 1)))"

definition stun_allow :: "stun_limiter \<Rightarrow> addr \<Rightarrow> time \<Rightarrow> stun_limiter \<times> bool" where
  "stun_allow l source now =
     (let (g, ok) = charge (sl_global l) now stunGlobalWindow stunGlobalRate;
          l1 = l\<lparr>sl_global := g\<rparr>
      in if \<not> ok then (l1, False)
         else let i = stun_slot l source;
                  (w, ok') = charge (sl_slots l1 i) now stunRateWindow stunRateLimit
              in (l1\<lparr>sl_slots := (sl_slots l1)(i := w)\<rparr>, ok'))"

text \<open>One iteration of the socket loop: the datagram is cut to the read buffer, and answered or not.\<close>

record stun_datagram =
  sd_bytes :: bytes
  sd_from :: addr
  sd_port :: "16 word"
  sd_now :: time

definition runSTUN :: "stun_limiter \<Rightarrow> stun_datagram \<Rightarrow> stun_limiter \<times> bytes option" where
  "runSTUN l d =
     (let request = take stunMaxRequest (sd_bytes d)
      in case stunBindingTxID request of
           None \<Rightarrow> (l, None)
         | Some txID \<Rightarrow>
             let source = Unmap (sd_from d);
                 (l1, ok) = stun_allow l source (sd_now d)
             in if \<not> ok then (l1, None)
                else (l1, Some (appendBindingSuccess [] txID source (sd_port d) (length request))))"

section \<open>What a client reads\<close>

text \<open>The attributes of a message, each a type, a length and a value padded to four bytes.\<close>

function read_attrs :: "bytes \<Rightarrow> (nat \<times> bytes) list option" where
  "read_attrs bs =
     (if bs = [] then Some []
      else if length bs < 4 then None
      else let t = be_decode (take 2 bs); n = be_decode (take 2 (drop 2 bs)); pad = (4 - n mod 4) mod 4
           in if length bs < 4 + n + pad then None
              else map_option (\<lambda>rest. (t, take n (drop 4 bs)) # rest) (read_attrs (drop (4 + n + pad) bs)))"
  by pat_completeness auto
termination
  by (relation "measure length") auto

declare read_attrs.simps [simp del]

definition read_mapped :: "bytes \<Rightarrow> bytes \<Rightarrow> (addr \<times> 16 word) option" where
  "read_mapped txID v =
     (if length v < 4 then None
      else let port = word_of_nat (be_decode (take 2 (drop 2 v))) XOR word_of_nat (stunMagicCookie div 2 ^ 16);
               a = xor_bytes (drop 4 v) (be_encode 4 stunMagicCookie @ txID)
           in if v ! 1 = stunFamilyIPv4 \<and> length v = 8 then Some (IPv4 a, port)
              else if v ! 1 = stunFamilyIPv6 \<and> length v = 20 then Some (IPv6 a, port)
              else None)"

definition read_binding_success :: "bytes \<Rightarrow> (bytes \<times> addr \<times> 16 word) option" where
  "read_binding_success m =
     (if length m < 20 \<or> be_decode (take 2 m) \<noteq> 0x0101 \<or> be_decode (take 4 (drop 4 m)) \<noteq> 0x2112A442
         \<or> be_decode (take 2 (drop 2 m)) + 20 \<noteq> length m then None
      else let txID = take 12 (drop 8 m)
           in case read_attrs (drop 20 m) of
                None \<Rightarrow> None
              | Some attrs \<Rightarrow>
                  (case map_of attrs 0x0020 of
                     None \<Rightarrow> None
                   | Some v \<Rightarrow> map_option (\<lambda>(a, p). (txID, a, p)) (read_mapped txID v)))"

section \<open>Shape of a response\<close>

lemma stunBindingTxID_ok:
  assumes "stunBindingTxID request = Some txID"
  shows "length txID = 12" "20 \<le> length request"
  using assms by (auto simp: stunBindingTxID_def stun_const_defs Let_def split: if_splits)

lemma length_software: "length stunSoftware = 13"
  by (simp add: stunSoftware_def)

lemma appendSTUNAttr_append: "appendSTUNAttr dst t v = dst @ appendSTUNAttr [] t v"
  by (simp add: appendSTUNAttr_def)

lemma appendXOR_append: "appendXORMappedAddress dst tx src port = dst @ appendXORMappedAddress [] tx src port"
  using appendSTUNAttr_append unfolding appendXORMappedAddress_def Let_def by blast

definition addr_bytes :: "addr \<Rightarrow> bytes" where
  "addr_bytes src = (case src of IPv4 b \<Rightarrow> b | IPv6 b \<Rightarrow> b)"

lemma addr_bytes_length: "addr_ok src \<Longrightarrow> length (addr_bytes src) = (case src of IPv4 _ \<Rightarrow> 4 | IPv6 _ \<Rightarrow> 16)"
  by (cases src) (simp_all add: addr_bytes_def)

lemma length_xor_pad: "length (xor_pad tx) = 16"
  by (simp add: xor_pad_def stun_const_defs)

lemma xor_pad_tx: "length tx = 12 \<Longrightarrow> xor_pad tx = be_encode 4 stunMagicCookie @ tx"
  by (simp add: xor_pad_def stun_const_defs)

lemma length_xor_bytes [simp]: "length (xor_bytes xs ys) = min (length xs) (length ys)"
  by (simp add: xor_bytes_def)

lemma xor_bytes_twice: "length xs \<le> length ys \<Longrightarrow> xor_bytes (xor_bytes xs ys) ys = xs"
  by (rule nth_equalityI) (simp_all add: xor_bytes_def xor.assoc)

definition mapped_value :: "bytes \<Rightarrow> addr \<Rightarrow> 16 word \<Rightarrow> bytes" where
  "mapped_value tx src port =
     [0, case src of IPv4 _ \<Rightarrow> stunFamilyIPv4 | IPv6 _ \<Rightarrow> stunFamilyIPv6]
     @ be_encode 2 (unat (port XOR word_of_nat (stunMagicCookie div 2 ^ 16))) @ xor_bytes (addr_bytes src) (xor_pad tx)"

lemma length_mapped_value:
  "addr_ok src \<Longrightarrow> length (mapped_value tx src port) = (case src of IPv4 _ \<Rightarrow> 8 | IPv6 _ \<Rightarrow> 20)"
  using addr_bytes_length [of src] by (cases src) (simp_all add: mapped_value_def length_xor_pad)

lemma appendXOR_eq: "appendXORMappedAddress [] tx src port = appendSTUNAttr [] stunAttrXORMappedAddress (mapped_value tx src port)"
  by (simp add: appendXORMappedAddress_def mapped_value_def addr_bytes_def Let_def)

lemma length_attr: "length (appendSTUNAttr [] t v) = 4 + length v + (4 - length v mod 4) mod 4"
  by (simp add: appendSTUNAttr_def)

definition response_attrs :: "bytes \<Rightarrow> addr \<Rightarrow> 16 word \<Rightarrow> nat \<Rightarrow> bytes" where
  "response_attrs tx src port n =
     appendXORMappedAddress [] tx src port
     @ (if 20 + length (appendXORMappedAddress [] tx src port) + 20 \<le> 2 * n
        then appendSTUNAttr [] stunAttrSoftware stunSoftware else [])"

lemma length_mapped_attr:
  "addr_ok src \<Longrightarrow> length (appendXORMappedAddress [] tx src port) = (case src of IPv4 _ \<Rightarrow> 12 | IPv6 _ \<Rightarrow> 24)"
  using length_mapped_value [of src tx port] by (cases src) (simp_all add: appendXOR_eq length_attr)

lemma length_response_attrs:
  "addr_ok src \<Longrightarrow> length (response_attrs tx src port n) =
     (case src of IPv4 _ \<Rightarrow> 12 + (if 52 \<le> 2 * n then 20 else 0) | IPv6 _ \<Rightarrow> 24 + (if 64 \<le> 2 * n then 20 else 0))"
  using length_mapped_attr [of src tx port]
  by (cases src) (simp_all add: response_attrs_def length_attr length_software)

lemma response_shape:
  assumes "length tx = 12" "addr_ok src"
  shows "appendBindingSuccess [] tx src port n =
    be_encode 2 stunBindingSuccess @ be_encode 2 (length (response_attrs tx src port n)) @ be_encode 4 stunMagicCookie
    @ tx @ response_attrs tx src port n"
proof -
  let ?h = "be_encode 2 stunBindingSuccess @ be_encode 2 0 @ be_encode 4 stunMagicCookie @ tx"
  have "appendBindingSuccess [] tx src port n = put_length (?h @ response_attrs tx src port n) 0 (length (response_attrs tx src port n))"
    using assms(1)
    by (simp add: appendBindingSuccess_def Let_def appendXOR_append [of "_ @ _"] appendSTUNAttr_append [of "_ @ _"]
        response_attrs_def length_software stunHeaderSize_def stunAttrHeaderSize_def)
  then show ?thesis by (simp add: put_length_def)
qed

lemma read_attrs_Cons:
  assumes "t < 65536" "length v < 65536"
  shows "read_attrs (appendSTUNAttr [] t v @ rest) = map_option (\<lambda>r. (t, v) # r) (read_attrs rest)"
proof -
  have "be_decode (be_encode 2 t) = t" "be_decode (be_encode 2 (length v)) = length v"
    using assms by (simp_all add: be_decode_encode)
  moreover have "be_encode 2 t \<noteq> []" by (metis length_be_encode list.size(3) zero_neq_numeral)
  ultimately show ?thesis
    by (subst read_attrs.simps) (simp add: appendSTUNAttr_def Let_def)
qed

lemma read_attrs_Nil [simp]: "read_attrs [] = Some []"
  by (simp add: read_attrs.simps)

lemma read_mapped_value:
  assumes "length tx = 12" "addr_ok src"
  shows "read_mapped tx (mapped_value tx src port) = Some (src, port)"
proof -
  have x: "xor_bytes (xor_bytes (addr_bytes src) (xor_pad tx)) (be_encode 4 stunMagicCookie @ tx) = addr_bytes src"
    using addr_bytes_length [OF assms(2)] xor_bytes_twice [of "addr_bytes src" "xor_pad tx"] length_xor_pad [of tx]
    by (cases src) (simp_all add: xor_pad_tx [OF assms(1), symmetric])
  let ?q = "port XOR word_of_nat (stunMagicCookie div 2 ^ 16)"
  have "unat ?q < 256 ^ 2" using unsigned_less [of ?q] by simp
  then have p: "word_of_nat (be_decode (be_encode 2 (unat ?q))) XOR word_of_nat (stunMagicCookie div 2 ^ 16) = port"
    by (simp add: xor.assoc)
  show ?thesis
    using x p length_mapped_value [OF assms(2), of tx port]
    by (cases src) (simp_all add: read_mapped_def mapped_value_def addr_bytes_def Let_def stunFamilyIPv4_def stunFamilyIPv6_def)
qed

lemma response_readable:
  assumes "length tx = 12" "addr_ok src"
  shows "read_binding_success (appendBindingSuccess [] tx src port n) = Some (tx, src, port)"
proof -
  have "length (response_attrs tx src port n) < 65536"
    unfolding length_response_attrs [OF assms(2)] by (cases src) simp_all
  then have len: "be_decode (be_encode 2 (length (response_attrs tx src port n))) = length (response_attrs tx src port n)"
    by (simp add: be_decode_encode)
  have "length (mapped_value tx src port) < 65536" unfolding length_mapped_value [OF assms(2)] by (cases src) simp_all
  then have "\<exists>r. read_attrs (response_attrs tx src port n) = Some ((stunAttrXORMappedAddress, mapped_value tx src port) # r)"
    using read_attrs_Cons [of stunAttrSoftware stunSoftware "[]"]
    by (simp add: response_attrs_def appendXOR_eq read_attrs_Cons stunAttrXORMappedAddress_def stunAttrSoftware_def length_software)
  then show ?thesis
    using assms(1) len read_mapped_value [OF assms, of port]
    by (auto simp: response_shape [OF assms] read_binding_success_def stunBindingSuccess_def stunMagicCookie_def be_decode_encode
        stunAttrXORMappedAddress_def Let_def)
qed

section \<open>The limiter\<close>

text \<open>A window and the groups of times it admitted, latest first; the first group is the running one.\<close>

definition window_tracks :: "int \<Rightarrow> duration \<Rightarrow> stun_window \<Rightarrow> window list \<Rightarrow> time \<Rightarrow> bool" where
  "window_tracks limit d w gs now \<longleftrightarrow>
     gs \<noteq> [] \<and> fst (hd gs) = sw_start w \<and> int (length (snd (hd gs))) = sw_count w
     \<and> list_all (window_ok limit d) gs \<and> windows_apart d gs \<and> sw_start w \<le> now"

lemma charge_tracks:
  assumes "0 < limit" "0 < d" "d \<le> max_duration" "window_tracks limit d w gs t0" "t0 \<le> now" "charge w now d limit = (w', ok)"
  shows "\<exists>gs'. window_tracks limit d w' gs' now \<and> granted gs' = (if ok then now # granted gs else granted gs)"
proof -
  obtain g gs0 where gs: "gs = g # gs0" using assms(4) by (cases gs) (auto simp: window_tracks_def)
  note t = assms(4) [unfolded window_tracks_def gs]
  have le: "sw_start w \<le> now" using t assms(5) by simp
  show ?thesis
  proof (cases "sw_start w + d \<le> now")
    case True
    then have "w' = w\<lparr>sw_start := now, sw_count := 1\<rparr>" "ok"
      using assms(6) time_sub_ge_iff [OF assms(2,3), of now "sw_start w"] by (auto simp: charge_def split: if_splits)
    moreover have "window_ok limit d (now, [now])" using assms(1,2) by (simp add: window_ok_def)
    ultimately show ?thesis
      using True t by (intro exI [of _ "(now, [now]) # gs"]) (simp add: window_tracks_def gs)
  next
    case False
    then have c: "charge w now d limit = (if sw_count w \<ge> limit then (w, False) else (w\<lparr>sw_count := sw_count w + 1\<rparr>, True))"
      using time_sub_ge_iff [OF assms(2,3), of now "sw_start w"] by (simp add: charge_def)
    show ?thesis
    proof (cases "sw_count w \<ge> limit")
      case True
      then show ?thesis using c assms(4,6) le by (intro exI [of _ gs]) (auto simp: window_tracks_def)
    next
      case more: False
      have "window_ok limit d (fst g, now # snd g)" using t more False le by (auto simp: window_ok_def)
      moreover have "windows_apart d ((fst g, now # snd g) # gs0)" using t by (cases gs0) simp_all
      ultimately show ?thesis
        using c assms(6) more t le by (intro exI [of _ "(fst g, now # snd g) # gs0"]) (auto simp: window_tracks_def gs)
    qed
  qed
qed

text \<open>The answers of a sequence of datagrams: for each answer its time and the slot of its source, latest first.\<close>

fun stun_answers :: "stun_limiter \<Rightarrow> stun_datagram list \<Rightarrow> (time \<times> nat) list \<Rightarrow> (time \<times> nat) list" where
  "stun_answers l [] acc = acc"
| "stun_answers l (d # ds) acc =
     (let (l1, r) = runSTUN l d
      in stun_answers l1 ds (if r = None then acc else (sd_now d, stun_slot l (Unmap (sd_from d))) # acc))"

definition limiter_tracks :: "nat \<Rightarrow> stun_limiter \<Rightarrow> (time \<times> nat) list \<Rightarrow> time \<Rightarrow> bool" where
  "limiter_tracks i l acc now \<longleftrightarrow>
     (\<exists>gs. window_tracks stunGlobalRate stunGlobalWindow (sl_global l) gs now
        \<and> (\<forall>a d. in_range a d (map fst acc) \<le> in_range a d (granted gs)))
   \<and> (\<exists>gs. window_tracks stunRateLimit stunRateWindow (sl_slots l i) gs now
        \<and> granted gs = map fst (filter (\<lambda>x. snd x = i) acc))"

lemma stun_limits_sane:
  "0 < stunGlobalRate" "0 < stunGlobalWindow" "stunGlobalWindow \<le> max_duration"
  "0 < stunRateLimit" "0 < stunRateWindow" "stunRateWindow \<le> max_duration"
  by (simp_all add: stunGlobalRate_def stunGlobalWindow_def stunRateLimit_def stunRateWindow_def second_def max_duration_def)

lemma in_range_Cons: "in_range a d (x # xs) = (if a \<le> x \<and> x < a + d then 1 else 0) + in_range a d xs"
  by (simp add: in_range_def)

lemma window_tracks_later: "window_tracks m d w gs t \<Longrightarrow> t \<le> t' \<Longrightarrow> window_tracks m d w gs t'"
  by (simp add: window_tracks_def)

lemma limiter_tracks_later: "limiter_tracks i l acc t \<Longrightarrow> t \<le> t' \<Longrightarrow> limiter_tracks i l acc t'"
  unfolding limiter_tracks_def using window_tracks_later by blast

lemma limiter_step:
  assumes "limiter_tracks i l acc t" "t \<le> sd_now d" "runSTUN l d = (l1, r)"
  shows "limiter_tracks i l1 (if r = None then acc else (sd_now d, stun_slot l (Unmap (sd_from d))) # acc) (sd_now d)"
proof (cases "stunBindingTxID (take stunMaxRequest (sd_bytes d))")
  case None
  then have "l1 = l" "r = None" using assms(3) by (simp_all add: runSTUN_def)
  then show ?thesis using limiter_tracks_later [OF assms(1,2)] by simp
next
  case (Some tx)
  let ?now = "sd_now d" and ?k = "stun_slot l (Unmap (sd_from d))"
  obtain g ok where g: "charge (sl_global l) ?now stunGlobalWindow stunGlobalRate = (g, ok)" by fastforce
  obtain w ok' where w: "charge (sl_slots l ?k) ?now stunRateWindow stunRateLimit = (w, ok')" by fastforce
  obtain gs where gs: "window_tracks stunGlobalRate stunGlobalWindow (sl_global l) gs t"
      "\<And>a d. in_range a d (map fst acc) \<le> in_range a d (granted gs)" using assms(1) by (auto simp: limiter_tracks_def)
  obtain hs where hs: "window_tracks stunRateLimit stunRateWindow (sl_slots l i) hs t"
      "granted hs = map fst (filter (\<lambda>x. snd x = i) acc)" using assms(1) by (auto simp: limiter_tracks_def)
  obtain gs' where gs': "window_tracks stunGlobalRate stunGlobalWindow g gs' ?now"
      "granted gs' = (if ok then ?now # granted gs else granted gs)"
    using charge_tracks [OF stun_limits_sane(1-3) gs(1) assms(2) g] by blast
  have hs_now: "window_tracks stunRateLimit stunRateWindow (sl_slots l i) hs ?now"
    by (rule window_tracks_later [OF hs(1) assms(2)])
  have al: "stun_allow l (Unmap (sd_from d)) ?now =
      (if ok then (l\<lparr>sl_global := g, sl_slots := (sl_slots l)(?k := w)\<rparr>, ok') else (l\<lparr>sl_global := g\<rparr>, False))"
    using g w by (simp add: stun_allow_def Let_def)
  have ans: "l1 = (if ok then l\<lparr>sl_global := g, sl_slots := (sl_slots l)(?k := w)\<rparr> else l\<lparr>sl_global := g\<rparr>)"
      "(r \<noteq> None) = (ok \<and> ok')"
    using assms(3) Some al by (auto simp: runSTUN_def Let_def split: if_splits)
  let ?acc = "if r = None then acc else (?now, ?k) # acc"
  have "sl_global l1 = g" using ans(1) by (simp split: if_splits)
  moreover have "in_range a d (map fst ?acc) \<le> in_range a d (granted gs')" for a d
    using gs(2) [of a d] gs'(2) ans(2) by (auto simp: in_range_Cons)
  moreover have "\<exists>hs'. window_tracks stunRateLimit stunRateWindow (sl_slots l1 i) hs' ?now
      \<and> granted hs' = map fst (filter (\<lambda>x. snd x = i) ?acc)"
  proof (cases "ok \<and> ?k = i")
    case True
    obtain hs' where "window_tracks stunRateLimit stunRateWindow w hs' ?now"
        "granted hs' = (if ok' then ?now # granted hs else granted hs)"
      using charge_tracks [OF stun_limits_sane(4-6), of "sl_slots l ?k" hs t ?now w ok'] hs(1) True assms(2) w by blast
    then show ?thesis using True ans hs(2) by (intro exI [of _ hs']) auto
  next
    case False
    then have "sl_slots l1 i = sl_slots l i" "filter (\<lambda>x. snd x = i) ?acc = filter (\<lambda>x. snd x = i) acc"
      using ans by auto
    then show ?thesis using hs_now hs(2) by auto
  qed
  ultimately show ?thesis using gs'(1) unfolding limiter_tracks_def by auto
qed

lemma stun_answers_tracks:
  assumes "limiter_tracks i l acc t" "sorted_wrt (\<lambda>x y. sd_now x \<le> sd_now y) ds" "\<forall>d \<in> set ds. t \<le> sd_now d"
  shows "\<exists>l' t'. limiter_tracks i l' (stun_answers l ds acc) t'"
  using assms
proof (induction ds arbitrary: l acc t)
  case (Cons d ds)
  obtain l1 r where r: "runSTUN l d = (l1, r)" by fastforce
  show ?case
    using Cons.IH [OF limiter_step [OF Cons.prems(1) _ r]] Cons.prems(2,3) r by simp
qed auto

lemma new_limiter_tracks: "limiter_tracks i (newSTUNLimiter seed) [] 0"
  by (auto simp: limiter_tracks_def window_tracks_def newSTUNLimiter_def zero_window_def window_ok_def in_range_def
      stunGlobalRate_def stunRateLimit_def intro!: exI [of _ "[(0, [])]"])

section \<open>Properties\<close>

text \<open>Address discovery works: every answer the listener sends can be read by a client that follows the RFC,
  and the client finds in it the transaction id of its own request and the address and port the datagram
  came from (an IPv4 address seen through a dual-stack socket as the IPv4 address it is).\<close>

theorem stun_reflects_source:
  assumes "runSTUN l d = (l', Some response)" "addr_ok (sd_from d)" "length (sd_bytes d) \<le> stunMaxRequest"
  shows "read_binding_success response = Some (take 12 (drop 8 (sd_bytes d)), Unmap (sd_from d), sd_port d)"
proof -
  have req: "take stunMaxRequest (sd_bytes d) = sd_bytes d" using assms(3) by simp
  obtain tx where tx: "stunBindingTxID (sd_bytes d) = Some tx"
      "response = appendBindingSuccess [] tx (Unmap (sd_from d)) (sd_port d) (length (sd_bytes d))"
    using assms(1) by (auto simp: runSTUN_def req Let_def case_prod_beta split: option.splits if_splits)
  have "tx = take 12 (drop 8 (sd_bytes d))"
    using tx(1) by (auto simp: stunBindingTxID_def stun_const_defs Let_def split: if_splits)
  moreover have "addr_ok (Unmap (sd_from d))" using assms(2) by (cases "sd_from d") auto
  ultimately show ?thesis
    using response_readable [OF stunBindingTxID_ok(1) [OF tx(1)]] tx(2) by simp
qed

definition sample_request :: bytes where
  "sample_request = [0, 1, 0, 0, 0x21, 0x12, 0xA4, 0x42, 1, 2, 3, 4, 5, 6, 7, 8, 9, 10, 11, 12]"

definition sample_datagram :: stun_datagram where
  "sample_datagram = \<lparr>sd_bytes = sample_request, sd_from = IPv6 (mapped_prefix @ [192, 0, 2, 7]), sd_port = 4321, sd_now = unix_epoch\<rparr>"

lemma fresh_allow: "stunRateWindow \<le> now \<Longrightarrow> snd (stun_allow (newSTUNLimiter seed) src now)"
  using stun_limits_sane time_sub_ge_iff [of stunRateWindow now 0] time_sub_ge_iff [of stunGlobalWindow now 0]
  by (simp add: stun_allow_def newSTUNLimiter_def zero_window_def charge_def Let_def stunRateWindow_def stunGlobalWindow_def second_def)

lemma sample_answered: "snd (runSTUN (newSTUNLimiter 7) sample_datagram) \<noteq> None"
proof -
  have "stunBindingTxID (take stunMaxRequest (sd_bytes sample_datagram)) \<noteq> None"
    by (simp add: stunBindingTxID_def stun_const_defs sample_datagram_def sample_request_def)
  moreover have "snd (stun_allow (newSTUNLimiter 7) src (sd_now sample_datagram))" for src
    by (rule fresh_allow) (simp add: sample_datagram_def unix_epoch_def stunRateWindow_def second_def)
  ultimately show ?thesis by (auto simp: runSTUN_def Let_def case_prod_beta)
qed

theorem stun_reflects_source_witness:
  "\<exists>response. snd (runSTUN (newSTUNLimiter 7) sample_datagram) = Some response
     \<and> read_binding_success response = Some ([1, 2, 3, 4, 5, 6, 7, 8, 9, 10, 11, 12], IPv4 [192, 0, 2, 7], 4321)"
proof -
  obtain l' response where r: "runSTUN (newSTUNLimiter 7) sample_datagram = (l', Some response)"
    using sample_answered by (cases "runSTUN (newSTUNLimiter 7) sample_datagram") auto
  have ok: "addr_ok (sd_from sample_datagram)" "length (sd_bytes sample_datagram) \<le> stunMaxRequest"
    by (simp_all add: sample_datagram_def sample_request_def mapped_prefix_def stunMaxRequest_def)
  have tx: "take 12 (drop 8 (sd_bytes sample_datagram)) = [1, 2, 3, 4, 5, 6, 7, 8, 9, 10, 11, 12]"
    and src: "Unmap (sd_from sample_datagram) = IPv4 [192, 0, 2, 7]" and port: "sd_port sample_datagram = 4321"
    by (simp_all add: sample_datagram_def sample_request_def mapped_prefix_def numeral_eq_Suc)
  show ?thesis
    using stun_reflects_source [OF r ok] unfolding tx src port r snd_conv by simp
qed

text \<open>The listener is a poor reflector: what is not a well-formed Binding Request is not answered and costs
  nobody's budget, an IPv4 source is never sent more than twice what it sent, no answer exceeds the
  larger of that and the 44 bytes the protocol needs for IPv6, and none exceeds the response buffer.\<close>

theorem stun_amplification:
  assumes "addr_ok (sd_from d)"
  shows "case runSTUN l d of
      (l', None) \<Rightarrow> stunBindingTxID (take stunMaxRequest (sd_bytes d)) = None \<longrightarrow> l' = l
    | (l', Some response) \<Rightarrow>
        stunBindingTxID (take stunMaxRequest (sd_bytes d)) \<noteq> None
        \<and> (case Unmap (sd_from d) of
             IPv4 _ \<Rightarrow> length response \<le> 2 * length (sd_bytes d)
           | IPv6 _ \<Rightarrow> length response \<le> max stunMandatoryResponse (2 * length (sd_bytes d)))
        \<and> length response \<le> stunMaxResponse"
proof (cases "stunBindingTxID (take stunMaxRequest (sd_bytes d))")
  case None
  then show ?thesis by (simp add: runSTUN_def)
next
  case (Some tx)
  let ?req = "take stunMaxRequest (sd_bytes d)" and ?src = "Unmap (sd_from d)"
  have ok: "addr_ok ?src" using assms by (cases "sd_from d") auto
  note tx = stunBindingTxID_ok [OF Some]
  have len: "length (appendBindingSuccess [] tx ?src (sd_port d) (length ?req)) =
      20 + length (response_attrs tx ?src (sd_port d) (length ?req))"
    using tx(1) by (simp add: response_shape [OF tx(1) ok])
  have n: "20 \<le> length ?req" "length ?req \<le> length (sd_bytes d)" using tx(2) by simp_all
  have "(case ?src of
             IPv4 _ \<Rightarrow> length (appendBindingSuccess [] tx ?src (sd_port d) (length ?req)) \<le> 2 * length (sd_bytes d)
           | IPv6 _ \<Rightarrow> length (appendBindingSuccess [] tx ?src (sd_port d) (length ?req)) \<le> max stunMandatoryResponse (2 * length (sd_bytes d)))
        \<and> length (appendBindingSuccess [] tx ?src (sd_port d) (length ?req)) \<le> stunMaxResponse"
    unfolding len length_response_attrs [OF ok] stunHeaderSize_def stunAttrHeaderSize_def stunMandatoryResponse_def
      stunMaxResponse_def length_software
    using n by (cases ?src) (auto simp del: length_take)
  then show ?thesis using Some by (simp add: runSTUN_def Let_def case_prod_beta del: length_take)
qed

theorem stun_amplification_witness:
  "case snd (runSTUN (newSTUNLimiter 7) sample_datagram) of
     None \<Rightarrow> False | Some response \<Rightarrow> length response \<le> 2 * length (sd_bytes sample_datagram)"
proof -
  obtain l' r where r: "runSTUN (newSTUNLimiter 7) sample_datagram = (l', r)" by fastforce
  note sample_answered
  moreover have u: "Unmap (sd_from sample_datagram) = IPv4 [192, 0, 2, 7]"
    by (simp add: sample_datagram_def mapped_prefix_def numeral_eq_Suc)
  moreover have "addr_ok (sd_from sample_datagram)" by (simp add: sample_datagram_def mapped_prefix_def)
  ultimately show ?thesis
    using stun_amplification [of sample_datagram "newSTUNLimiter 7"] r by (cases r) auto
qed

text \<open>The flood ceiling: over any sequence of datagrams at non-decreasing times, from any sources, at most 4000
  answers are sent in any second, and at most 40 in any five seconds to the sources that share a slot,
  so in particular to any one source.\<close>

theorem stun_rate_bound:
  assumes "sorted_wrt (\<lambda>x y. sd_now x \<le> sd_now y) ds" "\<forall>d \<in> set ds. 0 \<le> sd_now d"
  shows "in_range a second (map fst (stun_answers (newSTUNLimiter seed) ds [])) \<le> 4000
    \<and> in_range a (5 * second) (map fst (filter (\<lambda>x. snd x = i) (stun_answers (newSTUNLimiter seed) ds []))) \<le> 40"
proof -
  let ?acc = "stun_answers (newSTUNLimiter seed) ds []"
  obtain l' t' where t: "limiter_tracks i l' ?acc t'"
    using stun_answers_tracks [OF new_limiter_tracks assms] by blast
  obtain gs where gs: "window_tracks stunGlobalRate stunGlobalWindow (sl_global l') gs t'"
      "in_range a second (map fst ?acc) \<le> in_range a second (granted gs)" using t by (auto simp: limiter_tracks_def)
  obtain hs where hs: "window_tracks stunRateLimit stunRateWindow (sl_slots l' i) hs t'"
      "granted hs = map fst (filter (\<lambda>x. snd x = i) ?acc)" using t by (auto simp: limiter_tracks_def)
  have "in_range a stunGlobalWindow (granted gs) \<le> 2 * stunGlobalRate"
    using gs(1) stun_limits_sane by (intro in_range_windows) (auto simp: window_tracks_def)
  moreover have "in_range a stunRateWindow (granted hs) \<le> 2 * stunRateLimit"
    using hs(1) stun_limits_sane by (intro in_range_windows) (auto simp: window_tracks_def)
  ultimately show ?thesis
    using gs(2) hs(2) by (simp add: stunGlobalWindow_def stunGlobalRate_def stunRateWindow_def stunRateLimit_def)
qed

lemma sample_now: "sd_now sample_datagram = unix_epoch"
  by (simp add: sample_datagram_def)

theorem stun_rate_bound_witness:
  "in_range unix_epoch second (map fst (stun_answers (newSTUNLimiter 7) [sample_datagram, sample_datagram] [])) \<le> 4000"
  by (rule stun_rate_bound [of "[sample_datagram, sample_datagram]" unix_epoch 7 0, THEN conjunct1])
    (simp_all only: sorted_wrt.simps list.set ball_simps sample_now unix_epoch_def, simp_all)

end
