(* ===== verification/Gateway_Server.thy ===== *)
theory Gateway_Server
  imports Rate_Limiter Quota Go_Strings "HOL-Library.AList"
begin

text \<open>
  The rendezvous service of the gateway: \<^verbatim>\<open>internal/gateway/server.go\<close> (limits, defaults, the registration
  table), \<^verbatim>\<open>internal/gateway/relay.go\<close> (relay links) and \<^verbatim>\<open>internal/gateway/client.go\<close> (phone connections).

  \<^item> Links and phone connections are objects shared by several goroutines: they live in the stores
    \<open>gw_links\<close> and \<open>gw_phones\<close>, indexed by allocation number, and the maps of the code hold these numbers.
  \<^item> A step is a stretch of code between two points where the goroutine waits for a peer or gives up the
    registration table. \<open>handleRelay\<close> is \<open>relayHello\<close> and \<open>registerRelay\<close>; \<open>registerRelay\<close> is \<open>register_begin\<close> and, once the incumbent was probed,
    \<open>register_swap\<close>; \<open>handleConnect\<close> is \<open>connect_lookup\<close>, \<open>connect_attach\<close> and \<open>announce\<close>; the end of a link is
    \<open>link_close\<close>, \<open>detachClients\<close> and \<open>unregisterRelay\<close>. Each of these is an event, so that other
    goroutines run between them; \<open>handleRelay\<close>, \<open>register_displace\<close>, \<open>handleConnect\<close>, \<open>link_teardown\<close> and \<open>ready_failed\<close> compose
    them as the code does. A failed upgrade is no event. Handling one received frame is one event. Go leaves the order of a loop over
    a map open; the model takes the order of insertion.
  \<^item> Writes to a relay link go to \<open>gw_sent\<close>; \<open>ge_write n\<close> says whether the n-th one succeeds. What a socket
    or the random source did is an argument of the step that depends on it, and so is the clock. Closing
    a socket is recorded in the object. JSON encoding and \<open>monthKey\<close> are functions of the environment.
\<close>

section \<open>State\<close>

record gateway_options =
  go_MaxRelays :: int
  go_MaxClients :: int
  go_MaxClientsPerRelay :: int
  go_ConnectRatePerMinute :: int
  go_MonthlyBytes :: int
  go_QuotaWarnPercent :: int
  go_IdleTimeout :: duration
  go_StatePath :: string

record client_conn =
  cc_link :: nat
  cc_connID :: "32 word"
  cc_lastActivity :: int
  cc_out :: "bytes list"
  cc_outClosed :: bool
  cc_chanClosed :: bool
  cc_queuedBytes :: int
  cc_drain :: "(nat \<times> string) option"
  cc_cancelled :: bool
  cc_closed :: "(nat \<times> string) option option"

record relay_link =
  lk_relayID :: string
  lk_conns :: "(32 word \<times> nat) list"
  lk_nextID :: "32 word"
  lk_closed :: bool
  lk_closeStatus :: "(nat \<times> string) option"
  lk_unansweredPings :: int

record gateway_server =
  gw_opts :: gateway_options
  gw_limiter :: rate_limiter
  gw_quota :: quota_store
  gw_clients :: int
  gw_relays :: "(string \<times> nat) list"
  gw_links :: "nat \<Rightarrow> relay_link"
  gw_nlinks :: nat
  gw_phones :: "nat \<Rightarrow> client_conn"
  gw_nphones :: nat
  gw_stopped :: bool
  gw_sent :: "(nat \<times> bytes) list"

record gateway_env =
  ge_monthKey :: "time \<Rightarrow> string"
  ge_notice :: "notice_payload \<Rightarrow> bytes option"
  ge_open :: "string \<Rightarrow> string \<Rightarrow> bytes option"
  ge_write :: "nat \<Rightarrow> bool"

definition maxUnansweredPings :: int where "maxUnansweredPings = 2"
definition maxIdleSweepInterval :: duration where "maxIdleSweepInterval = 30 * second"
definition clientQueueDepth :: nat where "clientQueueDepth = 32"
definition maxQueuedBytes :: int where "maxQueuedBytes = 4 * 2 ^ 20"
definition DefaultMaxRelays :: int where "DefaultMaxRelays = 1024"
definition DefaultMaxClients :: int where "DefaultMaxClients = 512"
definition DefaultMaxClientsPerRelay :: int where "DefaultMaxClientsPerRelay = 8"
definition DefaultConnectRatePerMinute :: int where "DefaultConnectRatePerMinute = 30"
definition DefaultMonthlyBytes :: int where "DefaultMonthlyBytes = 5 * 2 ^ 30"
definition DefaultQuotaWarnPercent :: int where "DefaultQuotaWarnPercent = 80"
definition DefaultIdleTimeout :: duration where "DefaultIdleTimeout = 5 * 60 * second"

text \<open>WebSocket close codes.\<close>

definition StatusNormalClosure :: nat where "StatusNormalClosure = 1000"
definition StatusGoingAway :: nat where "StatusGoingAway = 1001"
definition StatusProtocolError :: nat where "StatusProtocolError = 1002"
definition StatusUnsupportedData :: nat where "StatusUnsupportedData = 1003"
definition StatusPolicyViolation :: nat where "StatusPolicyViolation = 1008"
definition StatusInternalError :: nat where "StatusInternalError = 1011"

section \<open>Construction\<close>

definition or_default :: "int \<Rightarrow> int \<Rightarrow> int" where
  "or_default x d = (if x = 0 then d else x)"

definition apply_defaults :: "gateway_options \<Rightarrow> gateway_options" where
  "apply_defaults o1 =
     o1\<lparr>go_MaxRelays := or_default (go_MaxRelays o1) DefaultMaxRelays,
       go_MaxClients := or_default (go_MaxClients o1) DefaultMaxClients,
       go_MaxClientsPerRelay := or_default (go_MaxClientsPerRelay o1) DefaultMaxClientsPerRelay,
       go_ConnectRatePerMinute := or_default (go_ConnectRatePerMinute o1) DefaultConnectRatePerMinute,
       go_MonthlyBytes := or_default (go_MonthlyBytes o1) DefaultMonthlyBytes,
       go_QuotaWarnPercent := or_default (go_QuotaWarnPercent o1) DefaultQuotaWarnPercent,
       go_IdleTimeout := or_default (go_IdleTimeout o1) DefaultIdleTimeout\<rparr>"

definition new_link :: "string \<Rightarrow> relay_link" where
  "new_link relayID = \<lparr>lk_relayID = relayID, lk_conns = [], lk_nextID = 0, lk_closed = False, lk_closeStatus = None,
     lk_unansweredPings = 0\<rparr>"

definition new_client :: "nat \<Rightarrow> client_conn" where
  "new_client l = \<lparr>cc_link = l, cc_connID = 0, cc_lastActivity = 0, cc_out = [], cc_outClosed = False, cc_chanClosed = False,
     cc_queuedBytes = 0, cc_drain = None, cc_cancelled = False, cc_closed = None\<rparr>"

text \<open>\<open>New\<close>: \<open>Inl\<close> for a warning percentage over 100 or a state file that cannot be loaded.\<close>

datatype new_error = QuotaWarnTooHigh | StateNotLoaded quota_error

definition New :: "gateway_env \<Rightarrow> gateway_options \<Rightarrow> state_file \<Rightarrow> time \<Rightarrow> new_error + gateway_server" where
  "New E opts f now =
     (if go_QuotaWarnPercent opts > 100 then Inl QuotaWarnTooHigh
      else let o1 = apply_defaults opts;
               (q, err) = load (ge_monthKey E) (newQuotaStore (go_StatePath o1) (go_MonthlyBytes o1) (go_QuotaWarnPercent o1)) f now
           in case err of
                Some e \<Rightarrow> Inl (StateNotLoaded e)
              | None \<Rightarrow> Inr \<lparr>gw_opts = o1, gw_limiter = newRateLimiter (go_ConnectRatePerMinute o1) (60 * second), gw_quota = q,
                  gw_clients = 0, gw_relays = [], gw_links = (\<lambda>_. new_link []), gw_nlinks = 0, gw_phones = (\<lambda>_. new_client 0),
                  gw_nphones = 0, gw_stopped = False, gw_sent = []\<rparr>)"

definition idleSweepInterval :: "gateway_server \<Rightarrow> duration" where
  "idleSweepInterval s =
     (if go_IdleTimeout (gw_opts s) \<le> 0 then 0
      else let i = go_IdleTimeout (gw_opts s) div 2;
               i1 = (if i > maxIdleSweepInterval then maxIdleSweepInterval else i)
           in (if i1 < second then second else i1))"

section \<open>Objects\<close>

definition set_link :: "nat \<Rightarrow> relay_link \<Rightarrow> gateway_server \<Rightarrow> gateway_server" where
  "set_link l x s = s\<lparr>gw_links := (gw_links s)(l := x)\<rparr>"

definition set_phone :: "nat \<Rightarrow> client_conn \<Rightarrow> gateway_server \<Rightarrow> gateway_server" where
  "set_phone c x s = s\<lparr>gw_phones := (gw_phones s)(c := x)\<rparr>"

definition writeRaw :: "gateway_env \<Rightarrow> nat \<Rightarrow> bytes \<Rightarrow> gateway_server \<Rightarrow> gateway_server \<times> bool" where
  "writeRaw E l frame s = (s\<lparr>gw_sent := gw_sent s @ [(l, frame)]\<rparr>, ge_write E (length (gw_sent s)))"

definition writeFrame :: "gateway_env \<Rightarrow> nat \<Rightarrow> byte \<Rightarrow> 32 word \<Rightarrow> bytes \<Rightarrow> gateway_server \<Rightarrow> gateway_server \<times> bool" where
  "writeFrame E l op connID payload s = writeRaw E l (EncodeFrame op connID payload) s"

fun notify_relay :: "gateway_env \<Rightarrow> nat \<Rightarrow> notice_payload list \<Rightarrow> gateway_server \<Rightarrow> gateway_server" where
  "notify_relay E l [] s = s"
| "notify_relay E l (n # ns) s =
     (case ge_notice E n of
        None \<Rightarrow> notify_relay E l ns s
      | Some payload \<Rightarrow>
          let (s1, ok) = writeFrame E l OpNotice 0 payload s
          in if ok then notify_relay E l ns s1 else s1)"

section \<open>Phone connections\<close>

definition unix_nano :: "time \<Rightarrow> int" where
  "unix_nano t = int64 (t - unix_epoch)"

definition touch :: "nat \<Rightarrow> time \<Rightarrow> gateway_server \<Rightarrow> gateway_server" where
  "touch c now s = set_phone c ((gw_phones s c)\<lparr>cc_lastActivity := unix_nano now\<rparr>) s"

definition deliver :: "client_conn \<Rightarrow> bytes \<Rightarrow> client_conn \<times> bool" where
  "deliver c frame =
     (if cc_outClosed c then (c, False)
      else if cc_queuedBytes c + int (length frame) > maxQueuedBytes then (c, False)
      else if length (cc_out c) < clientQueueDepth
      then (c\<lparr>cc_out := cc_out c @ [frame], cc_queuedBytes := cc_queuedBytes c + int (length frame)\<rparr>, True)
      else (c, False))"

definition finish :: "nat \<Rightarrow> string \<Rightarrow> client_conn \<Rightarrow> client_conn" where
  "finish status reason c =
     (if cc_outClosed c then c
      else c\<lparr>cc_outClosed := True, cc_drain := Some (status, reason), cc_chanClosed := True\<rparr>)"

definition closeWith :: "nat \<Rightarrow> string \<Rightarrow> client_conn \<Rightarrow> client_conn" where
  "closeWith status reason c =
     (if cc_closed c \<noteq> None then c
      else c\<lparr>cc_outClosed := True, cc_cancelled := True, cc_closed := Some (Some (status, reason))\<rparr>)"

definition kill :: "client_conn \<Rightarrow> client_conn" where
  "kill c =
     (if cc_closed c \<noteq> None then c
      else c\<lparr>cc_outClosed := True, cc_cancelled := True, cc_closed := Some None\<rparr>)"

text \<open>One turn of \<open>writePump\<close>: \<open>None\<close> when it would block, otherwise the frame handed to the socket, if any,
  and whether the pump goes on. \<open>done_first\<close> is the choice of the \<open>select\<close> when the connection is cancelled and
  the queue is ready too; \<open>write_ok\<close> is the outcome of the socket write.\<close>

definition writePump :: "bool \<Rightarrow> bool \<Rightarrow> client_conn \<Rightarrow> (client_conn \<times> bytes option \<times> bool) option" where
  "writePump done_first write_ok c =
     (if cc_cancelled c \<and> (done_first \<or> cc_out c = [] \<and> \<not> cc_chanClosed c) then Some (c, None, False)
      else case cc_out c of
             frame # rest \<Rightarrow>
               let c1 = c\<lparr>cc_out := rest, cc_queuedBytes := cc_queuedBytes c - int (length frame)\<rparr>
               in if write_ok then Some (c1, Some frame, True) else Some (c1\<lparr>cc_cancelled := True\<rparr>, Some frame, False)
           | [] \<Rightarrow>
               if cc_chanClosed c
               then let (status, reason) = (case cc_drain c of Some d \<Rightarrow> d | None \<Rightarrow> (0, []))
                    in Some (closeWith status reason c, None, False)
               else None)"

section \<open>Relay links\<close>

definition reserveClient :: "gateway_server \<Rightarrow> gateway_server \<times> bool" where
  "reserveClient s =
     (if go_MaxClients (gw_opts s) < 0 then (s\<lparr>gw_clients := gw_clients s + 1\<rparr>, True)
      else if gw_clients s \<ge> go_MaxClients (gw_opts s) then (s, False)
      else (s\<lparr>gw_clients := gw_clients s + 1\<rparr>, True))"

definition releaseClients :: "nat \<Rightarrow> gateway_server \<Rightarrow> gateway_server" where
  "releaseClients n s = (if n > 0 then s\<lparr>gw_clients := gw_clients s - int n\<rparr> else s)"

datatype attach_error = ErrAtCapacity | ErrLinkClosed | ErrTooManyClients

definition attach :: "nat \<Rightarrow> nat \<Rightarrow> gateway_server \<Rightarrow> gateway_server \<times> attach_error option" where
  "attach l c s =
     (let (s1, ok) = reserveClient s; link = gw_links s1 l; limit = go_MaxClientsPerRelay (gw_opts s1)
      in if \<not> ok then (s1, Some ErrAtCapacity)
         else if lk_closed link then (releaseClients 1 s1, Some ErrLinkClosed)
         else if limit \<ge> 0 \<and> int (length (lk_conns link)) \<ge> limit then (releaseClients 1 s1, Some ErrTooManyClients)
         else let n = lk_nextID link + 1; connID = (if n = 0 then 1 else n)
              in (set_link l (link\<lparr>lk_nextID := connID, lk_conns := AList.update connID c (lk_conns link)\<rparr>)
                    (set_phone c ((gw_phones s1 c)\<lparr>cc_connID := connID\<rparr>) s1), None))"

definition link_client :: "nat \<Rightarrow> 32 word \<Rightarrow> gateway_server \<Rightarrow> nat option" where
  "link_client l connID s = map_of (lk_conns (gw_links s l)) connID"

definition link_remove :: "nat \<Rightarrow> 32 word \<Rightarrow> gateway_server \<Rightarrow> gateway_server \<times> nat option" where
  "link_remove l connID s =
     (case link_client l connID s of
        None \<Rightarrow> (s, None)
      | Some c \<Rightarrow>
          (releaseClients 1 (set_link l ((gw_links s l)\<lparr>lk_conns := AList.delete connID (lk_conns (gw_links s l))\<rparr>) s), Some c))"

definition finish_all :: "nat \<Rightarrow> string \<Rightarrow> nat list \<Rightarrow> gateway_server \<Rightarrow> gateway_server" where
  "finish_all status reason cs s = foldl (\<lambda>t c. set_phone c (finish status reason (gw_phones t c)) t) s cs"

definition detachClients :: "nat \<Rightarrow> string \<Rightarrow> gateway_server \<Rightarrow> gateway_server" where
  "detachClients l reason s =
     (let cs = map snd (lk_conns (gw_links s l));
          s1 = releaseClients (length cs) (set_link l ((gw_links s l)\<lparr>lk_conns := []\<rparr>) s)
      in finish_all StatusGoingAway reason cs s1)"

definition link_close :: "nat \<Rightarrow> nat \<Rightarrow> string \<Rightarrow> gateway_server \<Rightarrow> gateway_server" where
  "link_close l status reason s =
     (if lk_closeStatus (gw_links s l) \<noteq> None then s
      else set_link l ((gw_links s l)\<lparr>lk_closed := True, lk_closeStatus := Some (status, reason)\<rparr>) s)"

text \<open>\<open>sanitizeReason\<close>: on a valid encoding the runes it drops are single bytes.\<close>

definition sanitizeReason :: "bytes \<Rightarrow> string" where
  "sanitizeReason payload =
     (let p = map (\<lambda>b. char_of (unat b)) (if length payload > MaxCloseReason then take MaxCloseReason payload else payload)
      in if \<not> utf8_valid p then []
         else filter (\<lambda>c. \<not> (byte_val c < 0x20 \<or> byte_val c = 0x7f)) p)"

definition deliverData :: "gateway_env \<Rightarrow> time \<Rightarrow> nat \<Rightarrow> 32 word \<Rightarrow> bytes \<Rightarrow> gateway_server \<Rightarrow> gateway_server" where
  "deliverData E now l connID payload s =
     (case link_client l connID s of
        None \<Rightarrow> fst (writeFrame E l OpClose connID (string_bytes ''unknown_conn'') s)
      | Some c \<Rightarrow>
          let s1 = touch c now s;
              (q, notices) = add_bytes (ge_monthKey E) (gw_quota s1) (lk_relayID (gw_links s1 l)) (word_of_nat (length payload)) now;
              s2 = notify_relay E l notices (s1\<lparr>gw_quota := q\<rparr>);
              (c', ok) = deliver (gw_phones s2 c) payload;
              s3 = set_phone c c' s2
          in if ok then s3
             else (case link_remove l connID s3 of
                     (s4, None) \<Rightarrow> s4
                   | (s4, Some _) \<Rightarrow>
                       fst (writeFrame E l OpClose connID (string_bytes ''slow_client'')
                              (set_phone c (kill (gw_phones s4 c)) s4))))"

text \<open>One turn of the link's \<open>readPump\<close> on a received message; the flag says whether the pump goes on.\<close>

definition relay_frame :: "gateway_env \<Rightarrow> time \<Rightarrow> nat \<Rightarrow> bool \<Rightarrow> bytes \<Rightarrow> gateway_server \<Rightarrow> gateway_server \<times> bool" where
  "relay_frame E now l binary data s =
     (if \<not> binary then (link_close l StatusUnsupportedData ''binary_frames_only'' s, False)
      else case DecodeFrame data of
             Inl _ \<Rightarrow> (link_close l StatusProtocolError ''malformed_frame'' s, False)
           | Inr (op, connID, payload) \<Rightarrow>
               if op = OpData then (deliverData E now l connID payload s, True)
               else if op = OpClose
               then (case link_remove l connID s of
                       (s1, None) \<Rightarrow> (s1, True)
                     | (s1, Some c) \<Rightarrow>
                         (set_phone c (finish StatusPolicyViolation (sanitizeReason payload) (gw_phones s1 c)) s1, True))
               else if op = OpPong
               then (set_link l ((gw_links s l)\<lparr>lk_unansweredPings := 0\<rparr>) s, True)
               else if op = OpPing then writeFrame E l OpPong 0 [] s
               else (link_close l StatusProtocolError ''unexpected_opcode'' s, False))"

text \<open>The two tickers of \<open>maintain\<close>.\<close>

definition ping_tick :: "gateway_env \<Rightarrow> nat \<Rightarrow> gateway_server \<Rightarrow> gateway_server \<times> bool" where
  "ping_tick E l s =
     (if lk_unansweredPings (gw_links s l) \<ge> maxUnansweredPings
      then (link_close l StatusPolicyViolation ''ping_timeout'' s, False)
      else let s1 = set_link l ((gw_links s l)\<lparr>lk_unansweredPings := lk_unansweredPings (gw_links s l) + 1\<rparr>) s;
               (s2, ok) = writeFrame E l OpPing 0 [] s1
           in if ok then (s2, True) else (link_close l StatusInternalError [] s2, False))"

fun close_stale :: "gateway_env \<Rightarrow> nat \<Rightarrow> nat list \<Rightarrow> gateway_server \<Rightarrow> gateway_server" where
  "close_stale E l [] s = s"
| "close_stale E l (c # cs) s =
     (let s1 = set_phone c (finish StatusPolicyViolation ''idle_timeout'' (gw_phones s c)) s
      in close_stale E l cs (fst (writeFrame E l OpClose (cc_connID (gw_phones s1 c)) (string_bytes ''idle_timeout'') s1)))"

definition sweepIdle :: "gateway_env \<Rightarrow> time \<Rightarrow> nat \<Rightarrow> gateway_server \<Rightarrow> gateway_server" where
  "sweepIdle E now l s =
     (let deadline = unix_nano (now - go_IdleTimeout (gw_opts s));
          idle = (\<lambda>x. \<not> cc_lastActivity (gw_phones s (snd x)) > deadline);
          stale = map snd (filter idle (lk_conns (gw_links s l)));
          s1 = releaseClients (length stale)
                 (set_link l ((gw_links s l)\<lparr>lk_conns := filter (\<lambda>x. \<not> idle x) (lk_conns (gw_links s l))\<rparr>) s)
      in close_stale E l stale s1)"

section \<open>Registration\<close>

definition CodeRateLimited :: string where "CodeRateLimited = ''rate_limited''"
definition CodeUnknownRelay :: string where "CodeUnknownRelay = ''unknown_relay''"
definition CodeQuotaExceeded :: string where "CodeQuotaExceeded = ''quota_exceeded''"
definition CodeTooManyClient :: string where "CodeTooManyClient = ''too_many_clients''"
definition CodeInternal :: string where "CodeInternal = ''internal''"

definition lookupRelay :: "gateway_server \<Rightarrow> string \<Rightarrow> nat option" where
  "lookupRelay s relayID = map_of (gw_relays s) relayID"

definition install_link :: "string \<Rightarrow> gateway_server \<Rightarrow> gateway_server \<times> nat" where
  "install_link relayID s =
     (let l = gw_nlinks s
      in (set_link l (new_link relayID) (s\<lparr>gw_nlinks := l + 1, gw_relays := AList.update relayID l (gw_relays s)\<rparr>), l))"

definition relays_full :: "gateway_server \<Rightarrow> bool" where
  "relays_full s \<longleftrightarrow> go_MaxRelays (gw_opts s) \<ge> 0 \<and> int (length (gw_relays s)) \<ge> go_MaxRelays (gw_opts s)"

datatype registration = Refused string | Registered nat | Probing nat

definition register_begin :: "string \<Rightarrow> gateway_server \<Rightarrow> gateway_server \<times> registration" where
  "register_begin relayID s =
     (case lookupRelay s relayID of
        Some previous \<Rightarrow> (s, Probing previous)
      | None \<Rightarrow>
          if relays_full s then (s, Refused CodeAtCapacity)
          else let (s1, l) = install_link relayID s in (s1, Registered l))"

text \<open>After the probe of \<open>previous\<close>, with its outcome.\<close>

definition register_swap :: "string \<Rightarrow> nat \<Rightarrow> bool \<Rightarrow> gateway_server \<Rightarrow> gateway_server \<times> registration" where
  "register_swap relayID previous alive s =
     (if alive then (s, Refused CodeRelayBusy)
      else let current = lookupRelay s relayID
           in if current \<noteq> Some previous \<and> current \<noteq> None then (s, Refused CodeRelayBusy)
              else if current = None \<and> relays_full s then (s, Refused CodeAtCapacity)
              else let (s1, l) = install_link relayID s in (s1, Registered l))"

definition register_displace :: "string \<Rightarrow> nat \<Rightarrow> bool \<Rightarrow> gateway_server \<Rightarrow> gateway_server \<times> registration" where
  "register_displace relayID previous alive s =
     (case register_swap relayID previous alive s of
        (s1, Registered l) \<Rightarrow>
          (link_close previous StatusPolicyViolation CodeRelayBusy (detachClients previous ''relay_replaced'' s1), Registered l)
      | (s1, r) \<Rightarrow> (s1, r))"

definition unregisterRelay :: "nat \<Rightarrow> gateway_server \<Rightarrow> gateway_server" where
  "unregisterRelay l s =
     (let relayID = lk_relayID (gw_links s l)
      in if lookupRelay s relayID = Some l then s\<lparr>gw_relays := AList.delete relayID (gw_relays s)\<rparr> else s)"

text \<open>The deferred teardown of \<open>run\<close>, and the path of \<open>handleRelay\<close> whose ready message cannot be written.\<close>

definition link_teardown :: "nat \<Rightarrow> gateway_server \<Rightarrow> gateway_server" where
  "link_teardown l s = unregisterRelay l (detachClients l ''relay_disconnected'' (link_close l StatusNormalClosure [] s))"

definition ready_failed :: "nat \<Rightarrow> gateway_server \<Rightarrow> gateway_server" where
  "ready_failed l s = unregisterRelay l (link_close l StatusInternalError [] s)"

definition check_register :: "register_hello option \<Rightarrow> string + string" where
  "check_register h =
     (case h of
        None \<Rightarrow> Inl CodeBadHello
      | Some hello \<Rightarrow>
          if rh_type hello \<noteq> TypeRegister then Inl CodeBadHello
          else if rh_proto hello \<noteq> Proto then Inl CodeBadHello
          else if \<not> ValidRelayID (rh_relay_id hello) then Inl CodeBadHello
          else Inr (rh_relay_id hello))"

text \<open>\<open>handleRelay\<close> up to the hello: \<open>Inl None\<close> when the request is refused before the upgrade or the greeting could
  not be written, \<open>Inr\<close> the relay id to register. \<open>random\<close> is the nonce drawn, if any, \<open>hello_ok\<close> whether writing
  the greeting succeeded, and \<open>h\<close> the hello that was read and parsed, if any.\<close>

definition relayHello ::
  "gateway_server \<Rightarrow> string \<Rightarrow> time \<Rightarrow> bytes option \<Rightarrow> bool \<Rightarrow> register_hello option
    \<Rightarrow> gateway_server \<times> (registration option + string)" where
  "relayHello s ip now random hello_ok h =
     (if gw_stopped s then (s, Inl None)
      else let (lim, ok) = allow (gw_limiter s) (''relay:'' @ ip) now; s1 = s\<lparr>gw_limiter := lim\<rparr>
           in if \<not> ok then (s1, Inl None)
              else if random = None then (s1, Inl (Some (Refused CodeInternal)))
              else if \<not> hello_ok then (s1, Inl None)
              else case check_register h of
                     Inl code \<Rightarrow> (s1, Inl (Some (Refused code)))
                   | Inr relayID \<Rightarrow> (s1, Inr relayID))"

text \<open>\<open>handleRelay\<close> up to the probe.\<close>

definition handleRelay ::
  "gateway_server \<Rightarrow> string \<Rightarrow> time \<Rightarrow> bytes option \<Rightarrow> bool \<Rightarrow> register_hello option \<Rightarrow> gateway_server \<times> registration option" where
  "handleRelay s ip now random hello_ok h =
     (case relayHello s ip now random hello_ok h of
        (s1, Inl r) \<Rightarrow> (s1, r)
      | (s1, Inr relayID) \<Rightarrow> (let (s2, r) = register_begin relayID s1 in (s2, Some r)))"

section \<open>Pairing\<close>

definition proofBytes :: nat where "proofBytes = 32"

definition validProof :: "string \<Rightarrow> bool" where
  "validProof p = (case b64_decode p of None \<Rightarrow> False | Some raw \<Rightarrow> length raw = proofBytes)"

definition connectHello :: "connect_hello option \<Rightarrow> string + connect_hello" where
  "connectHello h =
     (case h of
        None \<Rightarrow> Inl CodeBadHello
      | Some hello \<Rightarrow>
          if ch_type hello \<noteq> TypeConnect then Inl CodeBadHello
          else if ch_proto hello \<noteq> Proto then Inl CodeBadHello
          else if \<not> ValidRelayID (ch_relay_id hello) then Inl CodeBadHello
          else if \<not> validProof (ch_proof hello) then Inl CodeBadHello
          else Inr hello)"

datatype connect_result = NotUpgraded | Rejected string | WriteFailed | Paired nat

definition alloc_client :: "nat \<Rightarrow> time \<Rightarrow> gateway_server \<Rightarrow> gateway_server \<times> nat" where
  "alloc_client l now s =
     (let c = gw_nphones s
      in (set_phone c ((new_client l)\<lparr>cc_lastActivity := unix_nano now\<rparr>) (s\<lparr>gw_nphones := c + 1\<rparr>), c))"

text \<open>The end of \<open>handleConnect\<close>, once the phone is attached: the ready message, then the announcement.\<close>

definition announce ::
  "gateway_env \<Rightarrow> nat \<Rightarrow> nat \<Rightarrow> string \<Rightarrow> string \<Rightarrow> bool \<Rightarrow> gateway_server \<Rightarrow> gateway_server \<times> connect_result" where
  "announce E l c nonce p ready_ok s =
     (let connID = cc_connID (gw_phones s c)
      in if \<not> ready_ok then (fst (link_remove l connID s), WriteFailed)
         else case ge_open E nonce p of
                None \<Rightarrow> (fst (link_remove l connID s), Rejected CodeInternal)
              | Some payload \<Rightarrow>
                  let (s1, ok) = writeFrame E l OpOpen connID payload s
                  in if ok then (s1, Paired c) else (fst (link_remove l connID s1), Rejected CodeInternal))"

text \<open>\<open>handleConnect\<close> up to the quota check: \<open>Inr\<close> the link, the nonce and the proof when the phone may attach.\<close>

definition connect_lookup ::
  "gateway_env \<Rightarrow> string \<Rightarrow> time \<Rightarrow> bytes option \<Rightarrow> bool \<Rightarrow> connect_hello option \<Rightarrow> gateway_server
    \<Rightarrow> gateway_server \<times> (connect_result + nat \<times> string \<times> string)" where
  "connect_lookup E ip now random hello_ok h s =
     (if gw_stopped s then (s, Inl NotUpgraded)
      else case random of
        None \<Rightarrow> (s, Inl (Rejected CodeInternal))
      | Some raw \<Rightarrow>
      if \<not> hello_ok then (s, Inl WriteFailed)
      else (case connectHello h of
         Inl code \<Rightarrow> (s, Inl (Rejected code))
       | Inr hello \<Rightarrow>
           let (lim, ok) = allow (gw_limiter s) (''connect:'' @ ip) now; s1 = s\<lparr>gw_limiter := lim\<rparr>
           in if \<not> ok then (s1, Inl (Rejected CodeRateLimited))
              else (case lookupRelay s1 (ch_relay_id hello) of
                      None \<Rightarrow> (s1, Inl (Rejected CodeUnknownRelay))
                    | Some l \<Rightarrow>
                        let (q, over, notices) = exceeded (ge_monthKey E) (gw_quota s1) (ch_relay_id hello) now;
                            s2 = notify_relay E l notices (s1\<lparr>gw_quota := q\<rparr>)
                        in if over then (s2, Inl (Rejected CodeQuotaExceeded))
                           else (s2, Inr (l, b64_encode raw, ch_proof hello)))))"

definition attach_code :: "attach_error \<Rightarrow> string" where
  "attach_code e =
     (case e of ErrAtCapacity \<Rightarrow> CodeAtCapacity | ErrTooManyClients \<Rightarrow> CodeTooManyClient | ErrLinkClosed \<Rightarrow> CodeUnknownRelay)"

definition connect_attach :: "nat \<Rightarrow> time \<Rightarrow> gateway_server \<Rightarrow> gateway_server \<times> (connect_result + nat)" where
  "connect_attach l now s =
     (let (s1, c) = alloc_client l now s; (s2, err) = attach l c s1
      in case err of Some e \<Rightarrow> (s2, Inl (Rejected (attach_code e))) | None \<Rightarrow> (s2, Inr c))"

definition handleConnect ::
  "gateway_env \<Rightarrow> string \<Rightarrow> time \<Rightarrow> bytes option \<Rightarrow> bool \<Rightarrow> connect_hello option \<Rightarrow> bool \<Rightarrow> gateway_server
    \<Rightarrow> gateway_server \<times> connect_result" where
  "handleConnect E ip now random hello_ok h ready_ok s =
     (case connect_lookup E ip now random hello_ok h s of
        (s1, Inl r) \<Rightarrow> (s1, r)
      | (s1, Inr (l, nonce, p)) \<Rightarrow>
          (case connect_attach l now s1 of
             (s2, Inl r) \<Rightarrow> (s2, r)
           | (s2, Inr c) \<Rightarrow> announce E l c nonce p ready_ok s2))"

text \<open>One turn of a phone's \<open>readPump\<close>: \<open>Some\<close> the status and reason when it returns.\<close>

definition phone_frame ::
  "gateway_env \<Rightarrow> time \<Rightarrow> nat \<Rightarrow> bool \<Rightarrow> bytes \<Rightarrow> gateway_server \<Rightarrow> gateway_server \<times> (nat \<times> string) option" where
  "phone_frame E now c binary data s =
     (if \<not> binary then (s, Some (StatusUnsupportedData, ''binary_frames_only''))
      else let l = cc_link (gw_phones s c);
               s1 = touch c now s;
               (s2, ok) = writeRaw E l (AppendFrame [] OpData (cc_connID (gw_phones s1 c)) data) s1
           in if \<not> ok then (s2, Some (StatusGoingAway, ''relay_write_failed''))
              else let (q, notices) = add_bytes (ge_monthKey E) (gw_quota s2) (lk_relayID (gw_links s2 l)) (word_of_nat (length data)) now
                   in (notify_relay E l notices (s2\<lparr>gw_quota := q\<rparr>), None))"

text \<open>The end of a phone's \<open>run\<close>.\<close>

definition phone_end :: "gateway_env \<Rightarrow> nat \<Rightarrow> nat \<Rightarrow> string \<Rightarrow> gateway_server \<Rightarrow> gateway_server" where
  "phone_end E c status reason s =
     (let l = cc_link (gw_phones s c); connID = cc_connID (gw_phones s c);
          s2 = (case link_remove l connID s of
                  (s1, None) \<Rightarrow> s1
                | (s1, Some _) \<Rightarrow> fst (writeFrame E l OpClose connID (string_bytes reason) s1))
      in set_phone c (closeWith status reason (gw_phones s2 c)) s2)"

definition phone_pump :: "bool \<Rightarrow> bool \<Rightarrow> nat \<Rightarrow> gateway_server \<Rightarrow> gateway_server \<times> bytes option" where
  "phone_pump done_first write_ok c s =
     (case writePump done_first write_ok (gw_phones s c) of
        None \<Rightarrow> (s, None) | Some (c', frame, _) \<Rightarrow> (set_phone c c' s, frame))"

section \<open>Shutdown and housekeeping\<close>

definition close_links :: "nat list \<Rightarrow> gateway_server \<Rightarrow> gateway_server" where
  "close_links ls s = foldl (\<lambda>t l. link_close l StatusGoingAway ''gateway_shutdown'' t) s ls"

definition gateway_Close :: "gateway_env \<Rightarrow> time \<Rightarrow> gateway_server \<Rightarrow> gateway_server" where
  "gateway_Close E now s =
     (if gw_stopped s then s
      else let links = map snd (gw_relays s);
               s1 = close_links links (s\<lparr>gw_stopped := True, gw_relays := []\<rparr>)
           in s1\<lparr>gw_quota := fst (save (ge_monthKey E) (gw_quota s1) now)\<rparr>)"

definition persist_tick :: "gateway_env \<Rightarrow> time \<Rightarrow> gateway_server \<Rightarrow> gateway_server" where
  "persist_tick E now s =
     s\<lparr>gw_quota := fst (save (ge_monthKey E) (prune (ge_monthKey E) (gw_quota s) now) now)\<rparr>"

definition counts :: "gateway_server \<Rightarrow> nat \<times> int" where
  "counts s = (length (gw_relays s), gw_clients s)"

definition shortID :: "string \<Rightarrow> string" where
  "shortID relayID = (if length relayID \<le> 6 then relayID else take 6 relayID)"

section \<open>Events\<close>

datatype gateway_event =
    GRelay string time "bytes option" bool "register_hello option"
  | GRegister string
  | GSwap string nat bool
  | GUnregister nat
  | GDetach nat string
  | GLinkClose nat nat string
  | GRelayFrame time nat bool bytes
  | GPing nat
  | GSweep time nat
  | GLookup string time "bytes option" bool "connect_hello option"
  | GAttach nat time
  | GAnnounce nat nat string string bool
  | GPhoneFrame time nat bool bytes
  | GPhoneEnd nat nat string
  | GPump bool bool nat
  | GClose time
  | GPersist time

text \<open>A phone attaches to a link that was allocated before: the guard of \<open>GAttach\<close>.\<close>

fun gateway_step :: "gateway_env \<Rightarrow> gateway_server \<Rightarrow> gateway_event \<Rightarrow> gateway_server" where
  "gateway_step E s (GRelay ip now random hello_ok h) = fst (relayHello s ip now random hello_ok h)"
| "gateway_step E s (GRegister relayID) = fst (register_begin relayID s)"
| "gateway_step E s (GSwap relayID previous alive) = fst (register_swap relayID previous alive s)"
| "gateway_step E s (GUnregister l) = unregisterRelay l s"
| "gateway_step E s (GDetach l reason) = detachClients l reason s"
| "gateway_step E s (GLinkClose l status reason) = link_close l status reason s"
| "gateway_step E s (GRelayFrame now l binary data) = fst (relay_frame E now l binary data s)"
| "gateway_step E s (GPing l) = fst (ping_tick E l s)"
| "gateway_step E s (GSweep now l) = sweepIdle E now l s"
| "gateway_step E s (GLookup ip now random hello_ok h) = fst (connect_lookup E ip now random hello_ok h s)"
| "gateway_step E s (GAttach l now) = (if l < gw_nlinks s then fst (connect_attach l now s) else s)"
| "gateway_step E s (GAnnounce l c nonce p ready_ok) = fst (announce E l c nonce p ready_ok s)"
| "gateway_step E s (GPhoneFrame now c binary data) = fst (phone_frame E now c binary data s)"
| "gateway_step E s (GPhoneEnd c status reason) = phone_end E c status reason s"
| "gateway_step E s (GPump done_first write_ok c) = fst (phone_pump done_first write_ok c s)"
| "gateway_step E s (GClose now) = gateway_Close E now s"
| "gateway_step E s (GPersist now) = persist_tick E now s"

definition gateway_run :: "gateway_env \<Rightarrow> gateway_server \<Rightarrow> gateway_event list \<Rightarrow> gateway_server" where
  "gateway_run E s es = foldl (gateway_step E) s es"

end
