(* ===== verification/Gateway_Props.thy ===== *)
theory Gateway_Props
  imports Gateway_Server
begin

text \<open>
  Invariants of the gateway under every sequence of events: the global client counter is the number of
  attached phones, every configured limit holds, the registration table is consistent, and no phone queue
  exceeds its bounds. Connection ids count upwards on a link and wrap at 32 bits, so the invariant is
  indexed by how many events have happened.
\<close>

section \<open>Invariant\<close>

definition conns_ok :: "nat \<Rightarrow> relay_link \<Rightarrow> bool" where
  "conns_ok k link \<longleftrightarrow> (lk_closeStatus link \<noteq> None \<longrightarrow> lk_closed link)
     \<and> distinct (map fst (lk_conns link)) \<and> unat (lk_nextID link) \<le> k
     \<and> (\<forall>x \<in> fst ` set (lk_conns link). unat x \<le> unat (lk_nextID link))"

definition phone_ok :: "client_conn \<Rightarrow> bool" where
  "phone_ok c \<longleftrightarrow> cc_queuedBytes c = sum_list (map (\<lambda>f. int (length f)) (cc_out c))
     \<and> cc_queuedBytes c \<le> maxQueuedBytes \<and> length (cc_out c) \<le> clientQueueDepth"

definition attached :: "gateway_server \<Rightarrow> int" where
  "attached s = (\<Sum>l<gw_nlinks s. int (length (lk_conns (gw_links s l))))"

definition table_ok :: "gateway_server \<Rightarrow> bool" where
  "table_ok s \<longleftrightarrow> distinct (map fst (gw_relays s))
     \<and> (0 \<le> go_MaxRelays (gw_opts s) \<longrightarrow> int (length (gw_relays s)) \<le> go_MaxRelays (gw_opts s))
     \<and> (\<forall>x \<in> set (gw_relays s). snd x < gw_nlinks s \<and> lk_relayID (gw_links s (snd x)) = fst x)"

definition gateway_inv :: "nat \<Rightarrow> gateway_server \<Rightarrow> bool" where
  "gateway_inv k s \<longleftrightarrow>
     gw_clients s = attached s \<and> (0 \<le> go_MaxClients (gw_opts s) \<longrightarrow> attached s \<le> go_MaxClients (gw_opts s))
   \<and> (\<forall>l. conns_ok k (gw_links s l))
   \<and> (\<forall>l. 0 \<le> go_MaxClientsPerRelay (gw_opts s) \<longrightarrow> int (length (lk_conns (gw_links s l))) \<le> go_MaxClientsPerRelay (gw_opts s))
   \<and> (\<forall>l \<ge> gw_nlinks s. lk_conns (gw_links s l) = [])
   \<and> table_ok s \<and> (\<forall>c. phone_ok (gw_phones s c))"

text \<open>The part of the state these clauses read, phones aside.\<close>

definition core_kept :: "gateway_server \<Rightarrow> gateway_server \<Rightarrow> bool" where
  "core_kept s s' \<longleftrightarrow> gw_opts s' = gw_opts s \<and> gw_clients s' = gw_clients s \<and> gw_relays s' = gw_relays s
     \<and> gw_nlinks s' = gw_nlinks s
     \<and> (\<forall>l. lk_relayID (gw_links s' l) = lk_relayID (gw_links s l) \<and> lk_conns (gw_links s' l) = lk_conns (gw_links s l)
           \<and> lk_nextID (gw_links s' l) = lk_nextID (gw_links s l)
           \<and> ((lk_closeStatus (gw_links s l) \<noteq> None \<longrightarrow> lk_closed (gw_links s l)) \<longrightarrow>
                lk_closeStatus (gw_links s' l) \<noteq> None \<longrightarrow> lk_closed (gw_links s' l)))
     \<and> ((\<forall>c. phone_ok (gw_phones s c)) \<longrightarrow> (\<forall>c. phone_ok (gw_phones s' c)))"

lemma core_kept_inv:
  assumes "core_kept s s'" "gateway_inv k s"
  shows "gateway_inv k s'"
proof -
  have "attached s' = attached s" "table_ok s' = table_ok s"
      "conns_ok k (gw_links s l) \<Longrightarrow> conns_ok k (gw_links s' l)" for l
    using assms(1) by (simp_all add: core_kept_def attached_def table_ok_def conns_ok_def)
  with assms show ?thesis by (simp add: core_kept_def gateway_inv_def)
qed

lemma core_kept_refl [simp]: "core_kept s s"
  by (simp add: core_kept_def)

lemma core_kept_trans: "core_kept s s' \<Longrightarrow> core_kept s' s'' \<Longrightarrow> core_kept s s''"
  by (simp add: core_kept_def)

lemma conns_ok_mono: "conns_ok k x \<Longrightarrow> k \<le> k' \<Longrightarrow> conns_ok k' x"
  by (simp add: conns_ok_def)

lemma gateway_inv_mono: "gateway_inv k s \<Longrightarrow> k \<le> k' \<Longrightarrow> gateway_inv k' s"
  unfolding gateway_inv_def using conns_ok_mono by blast

section \<open>Operations that leave the core alone\<close>

lemma phone_ok_ops:
  "phone_ok c \<Longrightarrow> phone_ok (fst (deliver c frame))" "phone_ok c \<Longrightarrow> phone_ok (finish status reason c)"
  "phone_ok c \<Longrightarrow> phone_ok (closeWith status reason c)" "phone_ok c \<Longrightarrow> phone_ok (kill c)"
  "phone_ok (new_client l)"
  by (auto simp: phone_ok_def deliver_def finish_def closeWith_def kill_def new_client_def maxQueuedBytes_def clientQueueDepth_def)

lemma phone_ok_fields: "phone_ok (x\<lparr>cc_connID := i\<rparr>) = phone_ok x" "phone_ok (x\<lparr>cc_lastActivity := t\<rparr>) = phone_ok x"
  by (simp_all add: phone_ok_def)

lemma phone_ok_pump:
  assumes "phone_ok c" "writePump d w c = Some (c', frame, b)"
  shows "phone_ok c'"
proof (cases "cc_out c")
  case Nil
  then have "c' = c \<or> (\<exists>st r. c' = closeWith st r c)"
    using assms(2) by (auto simp: writePump_def case_prod_beta split: if_splits)
  then show ?thesis using assms(1) phone_ok_ops(3) by blast
next
  case (Cons f fs)
  have "0 \<le> sum_list (map (\<lambda>f. int (length f)) fs)" by (rule sum_list_nonneg) auto
  then show ?thesis using assms Cons by (auto simp: writePump_def phone_ok_def Let_def split: if_splits)
qed

lemma core_kept_phone: "(phone_ok (gw_phones s c) \<Longrightarrow> phone_ok x) \<Longrightarrow> core_kept s (set_phone c x s)"
  by (simp add: core_kept_def set_phone_def)

lemma core_kept_write [simp]: "core_kept s (fst (writeRaw E l frame s))" "core_kept s (fst (writeFrame E l op i p s))"
  by (simp_all add: core_kept_def writeRaw_def writeFrame_def)

lemma core_kept_quota [simp]: "core_kept s (s\<lparr>gw_quota := q\<rparr>)" "core_kept s (s\<lparr>gw_limiter := lim\<rparr>)"
  by (simp_all add: core_kept_def)

lemma core_kept_notify [simp]: "core_kept s (notify_relay E l ns s)"
proof (induction ns arbitrary: s)
  case (Cons n ns)
  show ?case
  proof (cases "ge_notice E n")
    case (Some p)
    then show ?thesis
      using Cons.IH [of "fst (writeFrame E l OpNotice 0 p s)"] core_kept_trans [OF core_kept_write(2)]
      by (simp add: Let_def case_prod_beta)
  qed (use Cons.IH in simp)
qed simp

lemma core_kept_charged: "core_kept s (notify_relay E l ns (s\<lparr>gw_quota := q\<rparr>))"
  by (rule core_kept_trans [OF core_kept_quota(1) core_kept_notify])

lemma core_kept_link_fields:
  "core_kept s (link_close l status reason s)" "core_kept s (set_link l ((gw_links s l)\<lparr>lk_unansweredPings := n\<rparr>) s)"
  by (simp_all add: core_kept_def link_close_def set_link_def)

lemma core_kept_touch [simp]: "core_kept s (touch c now s)"
  unfolding touch_def by (rule core_kept_phone) (simp add: phone_ok_def)

lemma core_kept_finish_all [simp]: "core_kept s (finish_all status reason cs s)"
proof -
  have "core_kept s (foldl (\<lambda>t c. set_phone c (finish status reason (gw_phones t c)) t) s cs)"
  proof (induction cs arbitrary: s)
    case (Cons c cs)
    have "core_kept s (set_phone c (finish status reason (gw_phones s c)) s)" by (rule core_kept_phone) (rule phone_ok_ops)
    then show ?case using Cons core_kept_trans by simp
  qed simp
  then show ?thesis by (simp add: finish_all_def)
qed

lemma core_kept_close_stale [simp]: "core_kept s (close_stale E l cs s)"
proof (induction cs arbitrary: s)
  case (Cons c cs)
  let ?s1 = "set_phone c (finish StatusPolicyViolation ''idle_timeout'' (gw_phones s c)) s"
  let ?s2 = "fst (writeFrame E l OpClose (cc_connID (gw_phones ?s1 c)) (string_bytes ''idle_timeout'') ?s1)"
  have "core_kept s ?s1" by (rule core_kept_phone) (rule phone_ok_ops)
  moreover have "core_kept ?s1 ?s2" by (rule core_kept_write)
  moreover have "core_kept ?s2 (close_stale E l cs ?s2)" by (rule Cons.IH)
  ultimately have "core_kept s (close_stale E l cs ?s2)" using core_kept_trans by blast
  then show ?case by (simp only: close_stale.simps Let_def)
qed simp

section \<open>Detaching\<close>

lemma attached_set_link:
  assumes "l < gw_nlinks s"
  shows "attached (set_link l x s) = attached s - int (length (lk_conns (gw_links s l))) + int (length (lk_conns x))"
proof -
  let ?g = "\<lambda>t i. int (length (lk_conns (gw_links t i)))"
  have l: "l \<in> {..<gw_nlinks s}" using assms by simp
  have "attached t = ?g t l + sum (?g t) ({..<gw_nlinks s} - {l})" if "gw_nlinks t = gw_nlinks s" for t
    unfolding attached_def that using sum.remove [OF _ l, of "?g t"] by simp
  from this [of s] this [of "set_link l x s"] show ?thesis by (simp add: set_link_def)
qed

definition drop_conns :: "nat \<Rightarrow> (32 word \<times> nat \<Rightarrow> bool) \<Rightarrow> gateway_server \<Rightarrow> gateway_server" where
  "drop_conns l P s = releaseClients (length (filter (\<lambda>x. \<not> P x) (lk_conns (gw_links s l))))
     (set_link l ((gw_links s l)\<lparr>lk_conns := filter P (lk_conns (gw_links s l))\<rparr>) s)"

lemma drop_conns_fields:
  "gw_opts (drop_conns l P s) = gw_opts s" "gw_relays (drop_conns l P s) = gw_relays s" "gw_nlinks (drop_conns l P s) = gw_nlinks s"
  "gw_phones (drop_conns l P s) = gw_phones s"
  "gw_links (drop_conns l P s) = (gw_links s)(l := (gw_links s l)\<lparr>lk_conns := filter P (lk_conns (gw_links s l))\<rparr>)"
  "gw_clients (drop_conns l P s) = gw_clients s - int (length (filter (\<lambda>x. \<not> P x) (lk_conns (gw_links s l))))"
  by (auto simp: drop_conns_def releaseClients_def set_link_def)

lemma attached_links_cong:
  "gw_links s = gw_links t \<Longrightarrow> gw_nlinks s = gw_nlinks t \<Longrightarrow> attached s = attached t"
  by (simp add: attached_def)

lemma drop_conns_inv:
  assumes "gateway_inv k s"
  shows "gateway_inv k (drop_conns l P s)"
proof -
  let ?c = "lk_conns (gw_links s l)" and ?s' = "drop_conns l P s"
  have split: "length ?c = length (filter P ?c) + length (filter (\<lambda>x. \<not> P x) ?c)"
    by (rule sum_length_filter_compl [symmetric])
  have at: "attached ?s' = attached s - int (length (filter (\<lambda>x. \<not> P x) ?c))"
  proof (cases "l < gw_nlinks s")
    case True
    have "attached ?s' = attached (set_link l ((gw_links s l)\<lparr>lk_conns := filter P ?c\<rparr>) s)"
      by (rule attached_links_cong) (simp_all add: drop_conns_fields set_link_def)
    then show ?thesis using attached_set_link [OF True] split by simp
  next
    case False
    then have "?c = []" using assms by (simp add: gateway_inv_def)
    moreover from this have "gw_links ?s' = gw_links s" by (simp add: drop_conns_fields fun_eq_iff)
    ultimately show ?thesis using attached_links_cong [of ?s' s] by (simp add: drop_conns_fields)
  qed
  have co: "conns_ok k (gw_links ?s' l')" for l'
    using assms by (auto simp: gateway_inv_def conns_ok_def drop_conns_fields distinct_fst_filter)
  have per: "length (lk_conns (gw_links ?s' l')) \<le> length (lk_conns (gw_links s l'))" for l'
    by (simp add: drop_conns_fields)
  have tb: "table_ok ?s'" using assms by (auto simp: gateway_inv_def table_ok_def drop_conns_fields)
  show ?thesis
    unfolding gateway_inv_def
  proof (intro conjI allI impI)
    show "gw_clients ?s' = attached ?s'" using assms at by (simp add: drop_conns_fields gateway_inv_def)
    assume "0 \<le> go_MaxClients (gw_opts ?s')"
    then show "attached ?s' \<le> go_MaxClients (gw_opts ?s')" using assms at by (simp add: drop_conns_fields gateway_inv_def)
  next
    fix l' assume "0 \<le> go_MaxClientsPerRelay (gw_opts ?s')"
    then show "int (length (lk_conns (gw_links ?s' l'))) \<le> go_MaxClientsPerRelay (gw_opts ?s')"
      using assms per [of l'] unfolding gateway_inv_def drop_conns_fields(1) by (meson order_trans of_nat_mono)
  qed (use assms co tb in \<open>auto simp: gateway_inv_def drop_conns_fields\<close>)
qed

lemma one_key:
  assumes "distinct (map fst xs)" "map_of xs k = Some v"
  shows "length (filter (\<lambda>x. \<not> fst x \<noteq> k) xs) = 1"
  using assms
proof (induction xs)
  case (Cons x xs)
  show ?case
  proof (cases "fst x = k")
    case True
    then have "k \<notin> fst ` set xs" using Cons.prems(1) by simp
    then have "\<forall>y \<in> set xs. fst y \<noteq> k" by blast
    then have "filter (\<lambda>x. \<not> fst x \<noteq> k) xs = []" by (simp add: filter_empty_conv)
    then show ?thesis using True by simp
  qed (use Cons in simp)
qed simp

lemma link_remove_cases:
  assumes "gateway_inv k s"
  shows "link_remove l i s = (s, None) \<or> (\<exists>c. link_remove l i s = (drop_conns l (\<lambda>x. fst x \<noteq> i) s, Some c) \<and> link_client l i s = Some c)"
proof (cases "link_client l i s")
  case (Some c)
  have "length (filter (\<lambda>x. \<not> fst x \<noteq> i) (lk_conns (gw_links s l))) = 1"
    using Some assms by (intro one_key) (auto simp: link_client_def gateway_inv_def conns_ok_def)
  moreover have "AList.delete i xs = filter (\<lambda>x. fst x \<noteq> i) xs" for xs :: "(32 word \<times> nat) list"
    by (induction xs) auto
  ultimately show ?thesis using Some by (simp add: link_remove_def drop_conns_def)
qed (simp add: link_remove_def)

lemma link_remove_inv: "gateway_inv k s \<Longrightarrow> gateway_inv k (fst (link_remove l i s))"
  using link_remove_cases [of k s l i] drop_conns_inv [of k s l] by fastforce

lemma detachClients_drop:
  "detachClients l reason s = finish_all StatusGoingAway reason (map snd (lk_conns (gw_links s l))) (drop_conns l (\<lambda>_. False) s)"
  by (simp add: detachClients_def drop_conns_def Let_def)

lemma sweepIdle_drop:
  "sweepIdle E now l s =
     (let live = (\<lambda>x. cc_lastActivity (gw_phones s (snd x)) > unix_nano (now - go_IdleTimeout (gw_opts s)))
      in close_stale E l (map snd (filter (\<lambda>x. \<not> live x) (lk_conns (gw_links s l)))) (drop_conns l live s))"
  by (simp add: sweepIdle_def drop_conns_def Let_def)

lemma detachClients_inv: "gateway_inv k s \<Longrightarrow> gateway_inv k (detachClients l reason s)"
  unfolding detachClients_drop by (rule core_kept_inv [OF core_kept_finish_all drop_conns_inv])

lemma sweepIdle_inv: "gateway_inv k s \<Longrightarrow> gateway_inv k (sweepIdle E now l s)"
  unfolding sweepIdle_drop Let_def by (rule core_kept_inv [OF core_kept_close_stale drop_conns_inv])

section \<open>Attaching\<close>

lemma next_id:
  fixes n :: "32 word"
  assumes "unat n \<le> k" "k + 1 < 2 ^ 32"
  shows "unat (n + 1) = unat n + 1" "n + 1 \<noteq> 0"
proof -
  have "unat n + 1 < 2 ^ LENGTH(32)" using assms by simp
  then show *: "unat (n + 1) = unat n + 1" by (metis One_nat_def unat_1 unat_add_lem)
  then show "n + 1 \<noteq> 0" by (metis add_is_0 one_neq_zero unat_0)
qed

lemma attach_cases:
  assumes "gateway_inv k s" "attach l c s = (s', err)"
  shows "err \<noteq> None \<and> core_kept s s' \<or>
    err = None \<and> (0 \<le> go_MaxClients (gw_opts s) \<longrightarrow> gw_clients s < go_MaxClients (gw_opts s))
     \<and> (0 \<le> go_MaxClientsPerRelay (gw_opts s) \<longrightarrow> int (length (lk_conns (gw_links s l))) < go_MaxClientsPerRelay (gw_opts s))
     \<and> (let n = lk_nextID (gw_links s l) + 1; i = (if n = 0 then 1 else n)
        in s' = s\<lparr>gw_clients := gw_clients s + 1,
                  gw_phones := (gw_phones s)(c := (gw_phones s c)\<lparr>cc_connID := i\<rparr>),
                  gw_links := (gw_links s)(l := (gw_links s l)\<lparr>lk_nextID := i, lk_conns := AList.update i c (lk_conns (gw_links s l))\<rparr>)\<rparr>)"
  using assms(2)
  by (auto simp: attach_def reserveClient_def releaseClients_def set_link_def set_phone_def Let_def core_kept_def split: if_splits)

lemma attach_inv:
  assumes "gateway_inv k s" "attach l c s = (s', err)" "l < gw_nlinks s" "k + 1 < 2 ^ 32"
  shows "gateway_inv (k + 1) s'"
proof (cases err)
  case (Some e)
  then show ?thesis using attach_cases [OF assms(1,2)] core_kept_inv [OF _ assms(1)] gateway_inv_mono [of k s' "k + 1"] by auto
next
  case None
  let ?n = "lk_nextID (gw_links s l)" and ?cs = "lk_conns (gw_links s l)"
  have ok: "conns_ok k (gw_links s l')" for l' using assms(1) by (simp add: gateway_inv_def)
  have n: "unat (?n + 1) = unat ?n + 1" "?n + 1 \<noteq> 0"
    using next_id [of ?n k] ok [of l] assms(4) by (simp_all add: conns_ok_def)
  have fresh: "?n + 1 \<notin> fst ` set ?cs" using ok [of l] n(1) by (auto simp: conns_ok_def)
  have up: "AList.update (?n + 1) c ?cs = ?cs @ [(?n + 1, c)]"
    by (rule update_new_key [OF fresh])
  have s': "s' = s\<lparr>gw_clients := gw_clients s + 1, gw_phones := (gw_phones s)(c := (gw_phones s c)\<lparr>cc_connID := ?n + 1\<rparr>),
      gw_links := (gw_links s)(l := (gw_links s l)\<lparr>lk_nextID := ?n + 1, lk_conns := ?cs @ [(?n + 1, c)]\<rparr>)\<rparr>"
    and lim: "0 \<le> go_MaxClients (gw_opts s) \<longrightarrow> gw_clients s < go_MaxClients (gw_opts s)"
      "0 \<le> go_MaxClientsPerRelay (gw_opts s) \<longrightarrow> int (length ?cs) < go_MaxClientsPerRelay (gw_opts s)"
    using attach_cases [OF assms(1,2)] None n(2) up by (simp_all add: Let_def)
  let ?link = "(gw_links s l)\<lparr>lk_nextID := ?n + 1, lk_conns := ?cs @ [(?n + 1, c)]\<rparr>"
  have "attached s' = attached (set_link l ?link s)"
    by (rule attached_links_cong) (simp_all add: s' set_link_def)
  then have at: "attached s' = attached s + 1" using attached_set_link [OF assms(3), of ?link] by simp
  have co: "conns_ok (k + 1) (gw_links s' l')" for l'
  proof (cases "l' = l")
    case True
    have "unat ?n \<le> k" "\<forall>x \<in> fst ` set ?cs. unat x \<le> unat ?n" "distinct (map fst ?cs)"
        "lk_closeStatus (gw_links s l) \<noteq> None \<longrightarrow> lk_closed (gw_links s l)" using ok [of l] by (simp_all add: conns_ok_def)
    then show ?thesis using True n(1) fresh by (auto simp: conns_ok_def s')
  next
    case False
    then show ?thesis using conns_ok_mono [OF ok [of l']] by (simp add: s')
  qed
  have tb: "table_ok s'" using assms(1) by (auto simp: gateway_inv_def table_ok_def s')
  have ph: "phone_ok (gw_phones s' c')" for c'
    using assms(1) by (simp add: gateway_inv_def s' phone_ok_fields)
  have o: "gw_opts s' = gw_opts s" "gw_nlinks s' = gw_nlinks s" "gw_clients s' = gw_clients s + 1" by (simp_all add: s')
  have c0: "gw_clients s = attached s" using assms(1) by (simp add: gateway_inv_def)
  have per: "int (length (lk_conns (gw_links s' l'))) \<le> go_MaxClientsPerRelay (gw_opts s)"
    if "0 \<le> go_MaxClientsPerRelay (gw_opts s)" for l'
    using that assms(1) lim(2) by (simp add: gateway_inv_def s')
  have old: "lk_conns (gw_links s' l') = []" if "gw_nlinks s \<le> l'" for l'
    using that assms(1,3) by (simp add: gateway_inv_def s')
  show ?thesis
    unfolding gateway_inv_def o using at c0 lim(1) co tb ph per old by auto
qed

section \<open>The registration table\<close>

lemma install_link_inv:
  assumes "gateway_inv k s" "lookupRelay s rid = None \<Longrightarrow> \<not> relays_full s"
  shows "gateway_inv k (fst (install_link rid s))"
proof -
  let ?s' = "fst (install_link rid s)" and ?l = "gw_nlinks s"
  have f: "gw_opts ?s' = gw_opts s" "gw_clients ?s' = gw_clients s" "gw_nlinks ?s' = ?l + 1" "gw_phones ?s' = gw_phones s"
    "gw_links ?s' = (gw_links s)(?l := new_link rid)" "gw_relays ?s' = AList.update rid ?l (gw_relays s)"
    by (simp_all add: install_link_def Let_def set_link_def)
  have "attached ?s' = attached s" by (simp add: attached_def f new_link_def)
  moreover have "conns_ok k (gw_links ?s' l)" for l
    using assms(1) by (simp add: f gateway_inv_def) (simp add: conns_ok_def new_link_def)
  moreover have "table_ok ?s'"
  proof -
    have t: "table_ok s" using assms(1) by (simp add: gateway_inv_def)
    have "length (AList.update rid ?l (gw_relays s)) = length (gw_relays s) + (if rid \<in> fst ` set (gw_relays s) then 0 else 1)"
      by (rule length_update_keys)
    moreover have "rid \<notin> fst ` set (gw_relays s) \<Longrightarrow> \<not> relays_full s"
      using assms(2) by (simp add: lookupRelay_def map_of_eq_None_iff)
    ultimately have "0 \<le> go_MaxRelays (gw_opts s) \<longrightarrow> int (length (AList.update rid ?l (gw_relays s))) \<le> go_MaxRelays (gw_opts s)"
      using t by (auto simp: table_ok_def relays_full_def)
    moreover have "snd x < ?l + 1 \<and> lk_relayID (gw_links ?s' (snd x)) = fst x" if "x \<in> set (AList.update rid ?l (gw_relays s))" for x
    proof -
      have "x = (rid, ?l) \<or> x \<in> set (gw_relays s)" using set_update_subset [of rid ?l "gw_relays s"] that by blast
      then show ?thesis using t by (auto simp: table_ok_def f new_link_def)
    qed
    moreover have "distinct (map fst (AList.update rid ?l (gw_relays s)))"
      using t by (intro distinct_update) (simp add: table_ok_def)
    ultimately show ?thesis unfolding table_ok_def f by blast
  qed
  ultimately show ?thesis using assms(1) by (simp add: gateway_inv_def f new_link_def)
qed

lemma register_begin_inv: "gateway_inv k s \<Longrightarrow> gateway_inv k (fst (register_begin rid s))"
  using install_link_inv [of k s rid] by (auto simp: register_begin_def case_prod_beta split: option.splits)

lemma register_swap_inv:
  assumes "gateway_inv k s"
  shows "gateway_inv k (fst (register_swap rid previous alive s))"
  using assms install_link_inv [OF assms, of rid] by (auto simp: register_swap_def Let_def case_prod_beta)

lemma smaller_table_inv:
  assumes "gateway_inv k s"
  shows "gateway_inv k (s\<lparr>gw_relays := filter P (gw_relays s)\<rparr>)" "gateway_inv k (s\<lparr>gw_stopped := b, gw_relays := []\<rparr>)"
proof -
  have "int (length (filter P (gw_relays s))) \<le> int (length (gw_relays s))" by simp
  moreover have t: "table_ok s" using assms by (simp add: gateway_inv_def)
  ultimately have "0 \<le> go_MaxRelays (gw_opts s) \<longrightarrow> int (length (filter P (gw_relays s))) \<le> go_MaxRelays (gw_opts s)"
    unfolding table_ok_def by (meson order_trans)
  then have "table_ok (s\<lparr>gw_relays := filter P (gw_relays s)\<rparr>)"
    using t by (auto simp: table_ok_def distinct_fst_filter)
  moreover have "attached (s\<lparr>gw_relays := filter P (gw_relays s)\<rparr>) = attached s" "attached (s\<lparr>gw_stopped := b, gw_relays := []\<rparr>) = attached s"
    by (simp_all add: attached_def)
  moreover have "table_ok (s\<lparr>gw_stopped := b, gw_relays := []\<rparr>)" by (simp add: table_ok_def)
  ultimately show "gateway_inv k (s\<lparr>gw_relays := filter P (gw_relays s)\<rparr>)" "gateway_inv k (s\<lparr>gw_stopped := b, gw_relays := []\<rparr>)"
    using assms by (simp_all add: gateway_inv_def)
qed

lemma unregisterRelay_inv: "gateway_inv k s \<Longrightarrow> gateway_inv k (unregisterRelay l s)"
  using smaller_table_inv(1) [of k s] by (simp add: unregisterRelay_def AList.delete_eq Let_def)

lemma core_kept_close_links: "core_kept s (close_links ls s)"
proof -
  have "core_kept s (foldl (\<lambda>t l. link_close l StatusGoingAway ''gateway_shutdown'' t) s ls)"
  proof (induction ls arbitrary: s)
    case (Cons l ls)
    show ?case using core_kept_trans [OF core_kept_link_fields(1) Cons.IH] by simp
  qed simp
  then show ?thesis by (simp add: close_links_def)
qed

section \<open>Every event\<close>

lemma deliverData_inv:
  assumes "gateway_inv k s"
  shows "gateway_inv k (deliverData E now l i payload s)"
proof (cases "link_client l i s")
  case None
  then show ?thesis using core_kept_inv [OF core_kept_write(2) assms] by (simp add: deliverData_def)
next
  case (Some c)
  define s1 where "s1 = touch c now s"
  obtain q ns where q: "add_bytes (ge_monthKey E) (gw_quota s1) (lk_relayID (gw_links s1 l)) (word_of_nat (length payload)) now = (q, ns)"
    by fastforce
  define s2 where "s2 = notify_relay E l ns (s1\<lparr>gw_quota := q\<rparr>)"
  define s3 where "s3 = set_phone c (fst (deliver (gw_phones s2 c) payload)) s2"
  have "gateway_inv k s1" unfolding s1_def by (rule core_kept_inv [OF core_kept_touch assms])
  then have i2: "gateway_inv k s2"
    unfolding s2_def by (rule core_kept_inv [OF core_kept_charged])
  have i3: "gateway_inv k s3" unfolding s3_def by (rule core_kept_inv [OF core_kept_phone i2]) (rule phone_ok_ops)
  obtain s4 r where r: "link_remove l i s3 = (s4, r)" by fastforce
  have i4: "gateway_inv k s4" using link_remove_inv [OF i3, of l i] r by simp
  have "gateway_inv k (fst (writeFrame E l OpClose i (string_bytes ''slow_client'') (set_phone c (kill (gw_phones s4 c)) s4)))"
    by (rule core_kept_inv [OF core_kept_write(2) core_kept_inv [OF core_kept_phone i4]]) (rule phone_ok_ops)
  moreover have "deliverData E now l i payload s =
      (if snd (deliver (gw_phones s2 c) payload) then s3
       else case r of None \<Rightarrow> s4
         | Some _ \<Rightarrow> fst (writeFrame E l OpClose i (string_bytes ''slow_client'') (set_phone c (kill (gw_phones s4 c)) s4)))"
    using q r by (simp add: deliverData_def Some s1_def [symmetric] case_prod_beta Let_def) (simp add: s2_def s3_def split: option.splits)
  ultimately show ?thesis using i3 i4 by (simp split: option.splits)
qed

lemma relay_frame_inv:
  assumes "gateway_inv k s"
  shows "gateway_inv k (fst (relay_frame E now l binary data s))"
proof -
  have lc: "gateway_inv k (link_close l st r s)" for st r by (rule core_kept_inv [OF core_kept_link_fields(1) assms])
  have pong: "gateway_inv k (set_link l ((gw_links s l)\<lparr>lk_unansweredPings := 0\<rparr>) s)"
    by (rule core_kept_inv [OF core_kept_link_fields(2) assms])
  have wr: "gateway_inv k (fst (writeFrame E l OpPong 0 [] s))" by (rule core_kept_inv [OF core_kept_write(2) assms])
  have cl: "gateway_inv k (fst (case link_remove l i s of (s1, None) \<Rightarrow> (s1, True)
      | (s1, Some c) \<Rightarrow> (set_phone c (finish st r (gw_phones s1 c)) s1, True)))" for i st r
  proof -
    obtain s1 x where x: "link_remove l i s = (s1, x)" by fastforce
    have i1: "gateway_inv k s1" using link_remove_inv [OF assms, of l i] x by simp
    have "gateway_inv k (set_phone c (finish st r (gw_phones s1 c)) s1)" for c
      by (rule core_kept_inv [OF core_kept_phone i1]) (rule phone_ok_ops)
    then show ?thesis using x i1 by (simp split: option.splits)
  qed
  show ?thesis
    using lc pong wr cl deliverData_inv [OF assms] assms
    by (simp add: relay_frame_def case_prod_beta split: sum.splits)
qed

lemma ping_tick_core: "core_kept s (fst (ping_tick E l s))"
proof -
  define s1 where "s1 = set_link l ((gw_links s l)\<lparr>lk_unansweredPings := lk_unansweredPings (gw_links s l) + 1\<rparr>) s"
  have "core_kept s s1" unfolding s1_def by (rule core_kept_link_fields(2))
  then have w: "core_kept s (fst (writeFrame E l OpPing 0 [] s1))" by (rule core_kept_trans) (rule core_kept_write)
  show ?thesis
    using core_kept_link_fields(1) [of s l] w core_kept_trans [OF w core_kept_link_fields(1)]
    by (simp add: ping_tick_def s1_def [symmetric] Let_def case_prod_beta)
qed

lemma announce_inv:
  assumes "gateway_inv k s"
  shows "gateway_inv k (fst (announce E l c nonce p ready s))"
proof -
  have w: "gateway_inv k (fst (writeFrame E l op i x s))" for op i x by (rule core_kept_inv [OF core_kept_write(2) assms])
  show ?thesis
    using link_remove_inv [OF assms] w link_remove_inv [OF w]
    by (simp add: announce_def Let_def case_prod_beta split: option.splits)
qed

lemma alloc_client_core: "core_kept s (fst (alloc_client l now s))"
  using phone_ok_ops(5) [of l] by (simp add: alloc_client_def Let_def core_kept_def set_phone_def phone_ok_fields)

lemma connect_lookup_core: "core_kept s (fst (connect_lookup E ip now random hello_ok h s))"
proof -
  have "core_kept s (notify_relay E l ns (s\<lparr>gw_limiter := lim, gw_quota := q\<rparr>))" for l ns lim q
    using core_kept_trans [OF core_kept_quota(2) core_kept_charged] by simp
  then show ?thesis
    by (simp add: connect_lookup_def Let_def case_prod_beta split: option.splits sum.splits)
qed

lemma connect_attach_inv:
  assumes "gateway_inv k s" "k + 1 < 2 ^ 32" "l < gw_nlinks s"
  shows "gateway_inv (k + 1) (fst (connect_attach l now s))"
proof -
  obtain s1 c where ac: "alloc_client l now s = (s1, c)" by fastforce
  obtain s2 err where at: "attach l c s1 = (s2, err)" by fastforce
  have core: "core_kept s s1" using alloc_client_core [of s l now] ac by simp
  then have "gateway_inv k s1" by (rule core_kept_inv [OF _ assms(1)])
  moreover have "l < gw_nlinks s1" using core assms(3) by (simp add: core_kept_def)
  ultimately have "gateway_inv (k + 1) s2" using attach_inv [OF _ at _ assms(2)] by blast
  then show ?thesis using ac at by (simp add: connect_attach_def split: option.splits)
qed

lemma phone_frame_core: "core_kept s (fst (phone_frame E now c binary data s))"
proof -
  define s1 where "s1 = touch c now s"
  define s2 where "s2 = fst (writeRaw E (cc_link (gw_phones s c)) (AppendFrame [] OpData (cc_connID (gw_phones s1 c)) data) s1)"
  have "core_kept s s1" "core_kept s1 s2" by (simp_all add: s1_def s2_def)
  then have "core_kept s s2" by (rule core_kept_trans)
  moreover from this have "core_kept s (notify_relay E l ns (s2\<lparr>gw_quota := q\<rparr>))" for l ns q
    by (rule core_kept_trans [OF _ core_kept_charged])
  ultimately show ?thesis
    by (simp add: phone_frame_def Let_def case_prod_beta s1_def [symmetric] s2_def [symmetric])
qed

lemma phone_end_inv:
  assumes "gateway_inv k s"
  shows "gateway_inv k (phone_end E c status reason s)"
proof -
  obtain s1 x where x: "link_remove (cc_link (gw_phones s c)) (cc_connID (gw_phones s c)) s = (s1, x)" by fastforce
  have i1: "gateway_inv k s1" using link_remove_inv [OF assms, of "cc_link (gw_phones s c)" "cc_connID (gw_phones s c)"] x by simp
  have "gateway_inv k (set_phone c (closeWith status reason (gw_phones t c)) t)" if "gateway_inv k t" for t
    by (rule core_kept_inv [OF core_kept_phone that]) (rule phone_ok_ops)
  then show ?thesis
    using i1 core_kept_inv [OF core_kept_write(2) i1] x by (simp add: phone_end_def Let_def split: option.splits)
qed

lemma phone_pump_core: "core_kept s (fst (phone_pump d w c s))"
  using phone_ok_pump [of "gw_phones s c" d w] core_kept_phone [of s c]
  by (auto simp: phone_pump_def split: option.splits)

lemma relayHello_core: "core_kept s (fst (relayHello s ip now random hello_ok h))"
  by (simp add: relayHello_def Let_def case_prod_beta split: sum.splits)

lemma gateway_Close_inv:
  assumes "gateway_inv k s"
  shows "gateway_inv k (gateway_Close E now s)"
  using assms core_kept_inv [OF core_kept_close_links smaller_table_inv(2) [OF assms]] core_kept_inv [OF core_kept_quota(1)]
  by (simp add: gateway_Close_def Let_def)

lemma persist_tick_core: "core_kept s (persist_tick E now s)"
  unfolding persist_tick_def by (rule core_kept_quota)

lemma gateway_step_inv:
  assumes "gateway_inv k s" "k + 1 < 2 ^ 32"
  shows "gateway_inv (k + 1) (gateway_step E s e)"
proof -
  have mono: "gateway_inv k t \<Longrightarrow> gateway_inv (k + 1) t" for t using gateway_inv_mono [of k t "k + 1"] by simp
  note keep = core_kept_inv [OF relayHello_core] register_begin_inv register_swap_inv unregisterRelay_inv detachClients_inv core_kept_inv [OF core_kept_link_fields(1)]
    relay_frame_inv core_kept_inv [OF ping_tick_core] sweepIdle_inv core_kept_inv [OF connect_lookup_core] announce_inv
    core_kept_inv [OF phone_frame_core] phone_end_inv core_kept_inv [OF phone_pump_core] gateway_Close_inv core_kept_inv [OF persist_tick_core]
  show ?thesis
  proof (cases e)
    case (GAttach l now)
    then show ?thesis using connect_attach_inv [OF assms] mono [OF assms(1)] by simp
  qed (simp_all only: gateway_step.simps mono keep [OF assms(1)])
qed

text \<open>The machine that also counts its events, as an instance of the invariant interface.\<close>

definition counted_step :: "gateway_env \<Rightarrow> nat \<times> gateway_server \<Rightarrow> gateway_event \<Rightarrow> (nat \<times> gateway_server) \<times> unit" where
  "counted_step E ks e = ((fst ks + 1, gateway_step E (snd ks) e), ())"

definition counted_inv :: "nat \<times> gateway_server \<Rightarrow> bool" where
  "counted_inv ks \<longleftrightarrow> (fst ks < 2 ^ 32 \<longrightarrow> gateway_inv (fst ks) (snd ks))"

interpretation gateway: invariant_machine "counted_step E" "\<lambda>_. True" counted_inv
  by unfold_locales (simp add: counted_step_def counted_inv_def gateway_step_inv del: One_nat_def add_Suc_right Suc_eq_plus1)

lemma counted_run: "fst (run_machine (counted_step E) (k, s) es) = (k + length es, gateway_run E s es)"
  by (induction es arbitrary: k s) (simp_all add: counted_step_def gateway_run_def)

lemma gateway_run_inv:
  assumes "gateway_inv k s" "k + length es < 2 ^ 32"
  shows "gateway_inv (k + length es) (gateway_run E s es)"
  using gateway.run_inv [of "(k, s)" es E] assms by (simp add: counted_run counted_inv_def list_all_iff)

lemma New_inv:
  assumes "New E opts f now = Inr s"
  shows "gateway_inv 0 s"
  using assms
  by (auto simp: New_def Let_def gateway_inv_def attached_def conns_ok_def table_ok_def phone_ok_def new_link_def new_client_def
      maxQueuedBytes_def split: if_splits option.splits prod.splits)

section \<open>The registration table and connection ids\<close>

text \<open>What every event but the few that register, unregister, attach or shut down leaves as it was.\<close>

definition same_table :: "gateway_server \<Rightarrow> gateway_server \<Rightarrow> bool" where
  "same_table s s' \<longleftrightarrow> gw_opts s' = gw_opts s \<and> gw_relays s' = gw_relays s \<and> gw_nlinks s' = gw_nlinks s
     \<and> (\<forall>l. lk_relayID (gw_links s' l) = lk_relayID (gw_links s l) \<and> lk_nextID (gw_links s' l) = lk_nextID (gw_links s l))"

lemma same_table_refl: "same_table s s"
  by (simp add: same_table_def)

lemma same_table_trans: "same_table s s' \<Longrightarrow> same_table s' s'' \<Longrightarrow> same_table s s''"
  by (simp add: same_table_def)

lemma same_table_core: "core_kept s s' \<Longrightarrow> same_table s s'"
  by (simp add: core_kept_def same_table_def)

lemma same_table_then: "same_table s s' \<Longrightarrow> core_kept s' s'' \<Longrightarrow> same_table s s''"
  by (erule same_table_trans) (rule same_table_core)

lemma same_table_phone: "same_table s s' \<Longrightarrow> same_table s (set_phone c x s')"
  by (simp add: same_table_def set_phone_def)

lemma same_table_remove: "same_table s (fst (link_remove l i s))"
  by (simp add: link_remove_def same_table_def set_link_def releaseClients_def split: option.splits)

lemma same_table_drop: "same_table s (drop_conns l P s)"
  by (simp add: same_table_def drop_conns_fields)

lemma same_table_detach: "same_table s (detachClients l reason s)"
  unfolding detachClients_drop by (rule same_table_then [OF same_table_drop core_kept_finish_all])

lemma same_table_sweep: "same_table s (sweepIdle E now l s)"
  unfolding sweepIdle_drop Let_def by (rule same_table_then [OF same_table_drop core_kept_close_stale])

lemma same_table_deliverData: "same_table s (deliverData E now l i payload s)"
proof (cases "link_client l i s")
  case None
  then show ?thesis by (simp add: deliverData_def same_table_core)
next
  case (Some c)
  define s1 where "s1 = touch c now s"
  obtain q ns where q: "add_bytes (ge_monthKey E) (gw_quota s1) (lk_relayID (gw_links s1 l)) (word_of_nat (length payload)) now = (q, ns)"
    by fastforce
  define s2 where "s2 = notify_relay E l ns (s1\<lparr>gw_quota := q\<rparr>)"
  obtain c' ok where d: "deliver (gw_phones s2 c) payload = (c', ok)" by fastforce
  define s3 where "s3 = set_phone c c' s2"
  have "same_table s s1" unfolding s1_def by (rule same_table_core) simp
  then have "same_table s s2" unfolding s2_def by (rule same_table_then) (rule core_kept_charged)
  then have t3: "same_table s s3" unfolding s3_def by (rule same_table_phone)
  obtain s4 r where r: "link_remove l i s3 = (s4, r)" by fastforce
  have t4: "same_table s s4" using same_table_trans [OF t3 same_table_remove [of s3 l i]] r by simp
  have "same_table s (fst (writeFrame E l OpClose i x (set_phone c y s4)))" for x y
    by (rule same_table_then [OF same_table_phone [OF t4] core_kept_write(2)])
  with t3 t4 show ?thesis
    using q r d Some by (simp add: deliverData_def Let_def s1_def [symmetric] s2_def [symmetric] s3_def [symmetric] split: option.splits)
qed

lemma same_table_relay_frame: "same_table s (fst (relay_frame E now l binary data s))"
  using same_table_deliverData same_table_core [OF core_kept_link_fields(1)] same_table_core [OF core_kept_link_fields(2)]
    same_table_core [OF core_kept_write(2)] same_table_remove [of s l] same_table_phone [OF same_table_remove [of s l]]
  by (simp add: relay_frame_def case_prod_beta split: sum.splits option.splits)

lemma same_table_announce: "same_table s (fst (announce E l c nonce p ready s))"
  using same_table_remove same_table_core [OF core_kept_write(2)] same_table_trans [OF same_table_core [OF core_kept_write(2)] same_table_remove]
  by (simp add: announce_def Let_def case_prod_beta split: option.splits)

lemma same_table_phone_end: "same_table s (phone_end E c status reason s)"
proof -
  let ?l = "cc_link (gw_phones s c)" and ?i = "cc_connID (gw_phones s c)"
  obtain s1 x where x: "link_remove ?l ?i s = (s1, x)" by fastforce
  have t: "same_table s s1" using same_table_remove [of s ?l ?i] x by simp
  then have "same_table s (fst (writeFrame E ?l OpClose ?i p s1))" for p by (rule same_table_then) simp
  with t x show ?thesis by (simp add: phone_end_def Let_def same_table_phone split: option.splits)
qed

text \<open>Only these events change the table, allocate a link or an id.\<close>

fun moves_table :: "gateway_event \<Rightarrow> bool" where
  "moves_table (GRegister rid) = True"
| "moves_table (GSwap rid previous alive) = True"
| "moves_table (GUnregister l) = True"
| "moves_table (GAttach l now) = True"
| "moves_table (GClose now) = True"
| "moves_table _ = False"

lemmas same_table_steps = same_table_detach same_table_sweep same_table_relay_frame same_table_announce same_table_phone_end
  same_table_core [OF relayHello_core] same_table_core [OF core_kept_link_fields(1)] same_table_core [OF ping_tick_core] same_table_core [OF connect_lookup_core]
  same_table_core [OF phone_frame_core] same_table_core [OF phone_pump_core] same_table_core [OF persist_tick_core]

lemma same_table_step: "\<not> moves_table e \<Longrightarrow> same_table s (gateway_step E s e)"
  by (cases e) (simp_all only: gateway_step.simps moves_table.simps same_table_steps simp_thms)

definition ids_grow :: "gateway_server \<Rightarrow> gateway_server \<Rightarrow> bool" where
  "ids_grow s s' \<longleftrightarrow> gw_opts s' = gw_opts s \<and> gw_nlinks s \<le> gw_nlinks s'
     \<and> (\<forall>l < gw_nlinks s. unat (lk_nextID (gw_links s l)) \<le> unat (lk_nextID (gw_links s' l)))"

lemma ids_grow_trans: "ids_grow s s' \<Longrightarrow> ids_grow s' s'' \<Longrightarrow> ids_grow s s''"
  unfolding ids_grow_def by (metis order_trans order_less_le_trans)

lemma ids_grow_table: "same_table s s' \<Longrightarrow> ids_grow s s'"
  by (simp add: ids_grow_def same_table_def)

lemma install_link_grows: "ids_grow s (fst (install_link rid s))"
  by (simp add: ids_grow_def install_link_def Let_def set_link_def)

lemma connect_attach_ids:
  assumes "gateway_inv k s" "k + 1 < 2 ^ 32" "connect_attach l now s = (s', r)"
  shows "ids_grow s s'"
    and "r = Inr c \<Longrightarrow> cc_connID (gw_phones s' c) = lk_nextID (gw_links s' l)"
    and "r = Inr c \<Longrightarrow> unat (lk_nextID (gw_links s' l)) = unat (lk_nextID (gw_links s l)) + 1"
    and "r = Inr c \<Longrightarrow> link_client l (cc_connID (gw_phones s' c)) s' = Some c"
proof -
  obtain s1 d where ac: "alloc_client l now s = (s1, d)" by fastforce
  obtain err where at: "attach l d s1 = (s', err)" and r: "r = (case err of Some e \<Rightarrow> Inl (Rejected (attach_code e)) | None \<Rightarrow> Inr d)"
    using assms(3) ac by (auto simp: connect_attach_def split: prod.splits option.splits)
  have core: "core_kept s s1" using alloc_client_core [of s l now] ac by simp
  have inv: "gateway_inv k s1" by (rule core_kept_inv [OF core assms(1)])
  have nx: "lk_nextID (gw_links s1 l) = lk_nextID (gw_links s l)" using core by (simp add: core_kept_def)
  then have n: "unat (lk_nextID (gw_links s l) + 1) = unat (lk_nextID (gw_links s l)) + 1" "lk_nextID (gw_links s l) + 1 \<noteq> 0"
    using next_id [OF _ assms(2), of "lk_nextID (gw_links s l)"] assms(1) by (simp_all add: gateway_inv_def conns_ok_def)
  show "ids_grow s s'"
    using attach_cases [OF inv at] ids_grow_table [OF same_table_core [OF core_kept_trans [OF core]]] core n
    by (auto simp: ids_grow_def Let_def nx)
  assume "r = Inr c"
  with r have "err = None" "c = d" by (auto split: option.splits)
  then show "cc_connID (gw_phones s' c) = lk_nextID (gw_links s' l)"
      "unat (lk_nextID (gw_links s' l)) = unat (lk_nextID (gw_links s l)) + 1"
      "link_client l (cc_connID (gw_phones s' c)) s' = Some c"
    using attach_cases [OF inv at] n nx by (simp_all add: Let_def link_client_def update_conv)
qed

lemma ids_grow_step:
  assumes "gateway_inv k s" "k + 1 < 2 ^ 32"
  shows "ids_grow s (gateway_step E s e)"
proof (cases "moves_table e")
  case True
  have same: "ids_grow s s" by (simp add: ids_grow_def)
  have cl: "ids_grow s (close_links ls (s\<lparr>gw_stopped := True, gw_relays := []\<rparr>)\<lparr>gw_quota := q\<rparr>)" for ls q
    using core_kept_close_links [of "s\<lparr>gw_stopped := True, gw_relays := []\<rparr>" ls] by (simp add: ids_grow_def core_kept_def)
  show ?thesis
    using True
  proof (cases e)
    case (GAttach l now)
    then show ?thesis using connect_attach_ids(1) [OF assms, of l now] same by (simp add: prod_eq_iff [of "connect_attach l now s"])
  qed (use same cl install_link_grows in
      \<open>simp_all add: register_begin_def register_swap_def unregisterRelay_def gateway_Close_def Let_def case_prod_beta
        split: sum.splits option.splits\<close>, simp_all add: ids_grow_def)
next
  case False
  then show ?thesis by (rule ids_grow_table [OF same_table_step])
qed

lemma ids_grow_run:
  assumes "gateway_inv k s" "k + length es < 2 ^ 32"
  shows "ids_grow s (gateway_run E s es)"
  using assms
proof (induction es arbitrary: k s)
  case (Cons e es)
  have k: "k + 1 < 2 ^ 32" using Cons.prems(2) by simp
  have "ids_grow (gateway_step E s e) (gateway_run E (gateway_step E s e) es)"
    using Cons.prems(2) by (intro Cons.IH [OF gateway_step_inv [OF Cons.prems(1) k]]) simp
  then show ?case using ids_grow_trans [OF ids_grow_step [OF Cons.prems(1) k]] by (simp add: gateway_run_def)
qed (simp add: gateway_run_def ids_grow_def)

section \<open>Properties\<close>

text \<open>The handlers of the code are runs of the events above.\<close>

lemma handlers_are_runs:
  "snd (relayHello s ip now random hello_ok h) = Inr rid \<Longrightarrow>
     fst (handleRelay s ip now random hello_ok h) = gateway_run E s [GRelay ip now random hello_ok h, GRegister rid]"
  "link_teardown l s = gateway_run E s [GLinkClose l StatusNormalClosure [], GDetach l ''relay_disconnected'', GUnregister l]"
  "ready_failed l s = gateway_run E s [GLinkClose l StatusInternalError [], GUnregister l]"
  "snd (register_swap rid previous alive s) = Registered l \<Longrightarrow>
     fst (register_displace rid previous alive s) =
       gateway_run E s [GSwap rid previous alive, GDetach previous ''relay_replaced'', GLinkClose previous StatusPolicyViolation CodeRelayBusy]"
  by (simp_all add: gateway_run_def handleRelay_def link_teardown_def ready_failed_def register_displace_def case_prod_beta)

text \<open>C5. From a fresh gateway and for every interleaving of fewer than \<open>2^32\<close> events, the client counter is the
  number of attached phones, no configured ceiling (phones, phones per relay, registrations) is exceeded, and a
  phone's queue never holds more than 32 frames or 4 MiB, with its byte counter exact.\<close>

theorem gateway_limits:
  assumes "New E opts f t0 = Inr s0" "length es < 2 ^ 32"
  shows "let s = gateway_run E s0 es; o1 = apply_defaults opts in
      gw_clients s = attached s
    \<and> (0 \<le> go_MaxClients o1 \<longrightarrow> gw_clients s \<le> go_MaxClients o1)
    \<and> (0 \<le> go_MaxClientsPerRelay o1 \<longrightarrow> (\<forall>l. int (length (lk_conns (gw_links s l))) \<le> go_MaxClientsPerRelay o1))
    \<and> (0 \<le> go_MaxRelays o1 \<longrightarrow> int (length (gw_relays s)) \<le> go_MaxRelays o1)
    \<and> (\<forall>c. cc_queuedBytes (gw_phones s c) = sum_list (map (\<lambda>x. int (length x)) (cc_out (gw_phones s c)))
          \<and> cc_queuedBytes (gw_phones s c) \<le> 4194304 \<and> length (cc_out (gw_phones s c)) \<le> 32)"
proof -
  let ?s = "gateway_run E s0 es"
  have i0: "gateway_inv 0 s0" by (rule New_inv [OF assms(1)])
  have "gw_opts s0 = apply_defaults opts"
    using assms(1) by (auto simp: New_def Let_def split: if_splits option.splits prod.splits)
  then have o: "gw_opts ?s = apply_defaults opts" using ids_grow_run [OF i0, of es E] assms(2) by (simp add: ids_grow_def)
  have "gateway_inv (length es) ?s" using gateway_run_inv [OF i0, of es E] assms(2) by simp
  then have "gw_clients ?s = attached ?s" "0 \<le> go_MaxClients (gw_opts ?s) \<longrightarrow> attached ?s \<le> go_MaxClients (gw_opts ?s)"
      "0 \<le> go_MaxClientsPerRelay (gw_opts ?s) \<longrightarrow> (\<forall>l. int (length (lk_conns (gw_links ?s l))) \<le> go_MaxClientsPerRelay (gw_opts ?s))"
      "table_ok ?s" and ph: "\<forall>c. phone_ok (gw_phones ?s c)"
    by (simp_all add: gateway_inv_def)
  moreover have "maxQueuedBytes = 4194304" "clientQueueDepth = 32" by (simp_all add: maxQueuedBytes_def clientQueueDepth_def)
  note ph [unfolded phone_ok_def this]
  ultimately show ?thesis unfolding o Let_def table_ok_def by argo
qed

text \<open>Connection ids are never reused: whatever happens between two successful attachments to a link, and whether
  or not the first phone is gone, the second phone gets a strictly larger id (for fewer than \<open>2^32\<close> events).\<close>

theorem conn_ids_increase:
  assumes "New E opts f t0 = Inr s0" "length es + length es' + 2 < 2 ^ 32"
    and "l < gw_nlinks (gateway_run E s0 es)" "connect_attach l t1 (gateway_run E s0 es) = (s1, Inr c1)"
    and "connect_attach l t2 (gateway_run E s1 es') = (s2, Inr c2)"
  shows "unat (cc_connID (gw_phones s1 c1)) < unat (cc_connID (gw_phones s2 c2))
    \<and> link_client l (cc_connID (gw_phones s2 c2)) s2 = Some c2"
proof -
  let ?s = "gateway_run E s0 es" and ?n = "\<lambda>t. unat (lk_nextID (gw_links t l))"
  have a: "length es < 2 ^ 32" "length es + 1 < 2 ^ 32" "length es + 1 + length es' < 2 ^ 32" "length es + 1 + length es' + 1 < 2 ^ 32"
    using assms(2) by simp_all
  have "gateway_inv (0 + length es) ?s" by (rule gateway_run_inv [OF New_inv [OF assms(1)]]) (use a in simp)
  then have i: "gateway_inv (length es) ?s" by simp
  have i1: "gateway_inv (length es + 1) s1"
    using connect_attach_inv [OF i a(2) assms(3), of t1] assms(4) by simp
  have i2: "gateway_inv (length es + 1 + length es') (gateway_run E s1 es')" by (rule gateway_run_inv [OF i1 a(3)])
  have "l < gw_nlinks s1" using connect_attach_ids(1) [OF i a(2) assms(4)] assms(3) by (simp add: ids_grow_def)
  then have "?n s1 \<le> ?n (gateway_run E s1 es')" using ids_grow_run [OF i1 a(3), of E] by (simp add: ids_grow_def)
  moreover have "cc_connID (gw_phones s1 c1) = lk_nextID (gw_links s1 l)" using connect_attach_ids(2) [OF i a(2) assms(4)] by simp
  moreover have "cc_connID (gw_phones s2 c2) = lk_nextID (gw_links s2 l)" "?n s2 = ?n (gateway_run E s1 es') + 1"
    using connect_attach_ids(2,3) [OF i2 a(4) assms(5)] by simp_all
  moreover have "link_client l (cc_connID (gw_phones s2 c2)) s2 = Some c2" using connect_attach_ids(4) [OF i2 a(4) assms(5)] by simp
  ultimately show ?thesis by simp
qed


lemma delete_append_new: "k \<notin> fst ` set xs \<Longrightarrow> AList.delete k (xs @ [(k, v)]) = xs"
  by (induction xs) auto

text \<open>What one pairing does to the counter and to the link's connections.\<close>

definition same_conns :: "gateway_server \<Rightarrow> gateway_server \<Rightarrow> bool" where
  "same_conns s s' \<longleftrightarrow> gw_clients s' = gw_clients s \<and> (\<forall>l. lk_conns (gw_links s' l) = lk_conns (gw_links s l))"

lemma same_conns_core: "core_kept s s' \<Longrightarrow> same_conns s s'"
  by (simp add: core_kept_def same_conns_def)

lemma same_conns_trans: "same_conns s s' \<Longrightarrow> same_conns s' s'' \<Longrightarrow> same_conns s s''"
  by (simp add: same_conns_def)

lemma connect_attach_conns:
  assumes "gateway_inv k s" "k + 1 < 2 ^ 32" "connect_attach l now s = (s', r)"
  shows "r = Inl e \<Longrightarrow> same_conns s s'"
    and "r = Inr c \<Longrightarrow> gw_clients s' = gw_clients s + 1 \<and> same_conns s (fst (link_remove l (cc_connID (gw_phones s' c)) s'))"
proof -
  obtain s1 d where ac: "alloc_client l now s = (s1, d)" by fastforce
  obtain err where at: "attach l d s1 = (s', err)" and r: "r = (case err of Some e \<Rightarrow> Inl (Rejected (attach_code e)) | None \<Rightarrow> Inr d)"
    using assms(3) ac by (auto simp: connect_attach_def split: prod.splits option.splits)
  have core: "core_kept s s1" using alloc_client_core [of s l now] ac by simp
  have inv: "gateway_inv k s1" by (rule core_kept_inv [OF core assms(1)])
  show "same_conns s s'" if "r = Inl e"
    using that r attach_cases [OF inv at] same_conns_core [OF core_kept_trans [OF core]] by (auto split: option.splits)
  assume "r = Inr c"
  with r have *: "err = None" "c = d" by (auto split: option.splits)
  have ok: "conns_ok k (gw_links s1 l)" using inv by (simp add: gateway_inv_def)
  have n: "unat (lk_nextID (gw_links s1 l) + 1) = unat (lk_nextID (gw_links s1 l)) + 1" "lk_nextID (gw_links s1 l) + 1 \<noteq> 0"
    using next_id [OF _ assms(2), of "lk_nextID (gw_links s1 l)"] ok by (simp_all add: conns_ok_def)
  have fresh: "lk_nextID (gw_links s1 l) + 1 \<notin> fst ` set (lk_conns (gw_links s1 l))" using ok n(1) by (auto simp: conns_ok_def)
  have s': "s' = s1\<lparr>gw_clients := gw_clients s1 + 1,
      gw_phones := (gw_phones s1)(d := (gw_phones s1 d)\<lparr>cc_connID := lk_nextID (gw_links s1 l) + 1\<rparr>),
      gw_links := (gw_links s1)(l := (gw_links s1 l)\<lparr>lk_nextID := lk_nextID (gw_links s1 l) + 1,
        lk_conns := lk_conns (gw_links s1 l) @ [(lk_nextID (gw_links s1 l) + 1, d)]\<rparr>)\<rparr>"
    using attach_cases [OF inv at] * n(2) update_new_key [OF fresh] by (simp add: Let_def)
  have lc: "link_client l (cc_connID (gw_phones s' d)) s' = Some d"
    using connect_attach_ids(4) [OF assms \<open>r = Inr c\<close>] * by simp
  have "same_conns s1 (fst (link_remove l (cc_connID (gw_phones s' d)) s'))"
    unfolding link_remove_def lc using delete_append_new [OF fresh] by (simp add: s' same_conns_def releaseClients_def set_link_def)
  then show "gw_clients s' = gw_clients s + 1 \<and> same_conns s (fst (link_remove l (cc_connID (gw_phones s' c)) s'))"
    using same_conns_trans [OF same_conns_core [OF core]] * core by (simp add: s' core_kept_def)
qed

lemma connect_lookup_result:
  assumes "connect_lookup E ip now random hello_ok h s = (s', Inr (l, nonce, p))"
  shows "\<exists>hello raw. connectHello h = Inr hello \<and> random = Some raw \<and> lookupRelay s (ch_relay_id hello) = Some l
    \<and> nonce = b64_encode raw \<and> p = ch_proof hello"
  using assms
  by (auto simp: connect_lookup_def lookupRelay_def Let_def split: if_splits option.splits sum.splits prod.splits)

lemma announce_result:
  assumes "announce E l c nonce p ready s = (s', r)"
  shows "r = Paired d \<Longrightarrow> d = c \<and> (\<exists>payload. ge_open E nonce p = Some payload
      \<and> s' = s\<lparr>gw_sent := gw_sent s @ [(l, EncodeFrame OpOpen (cc_connID (gw_phones s c)) payload)]\<rparr>)"
    and "\<forall>d. r \<noteq> Paired d \<Longrightarrow> \<exists>t. core_kept s t \<and> gw_phones t = gw_phones s \<and> s' = fst (link_remove l (cc_connID (gw_phones s c)) t)"
proof -
  show "d = c \<and> (\<exists>payload. ge_open E nonce p = Some payload
      \<and> s' = s\<lparr>gw_sent := gw_sent s @ [(l, EncodeFrame OpOpen (cc_connID (gw_phones s c)) payload)]\<rparr>)" if "r = Paired d"
    using assms that by (auto simp: announce_def Let_def writeFrame_def writeRaw_def split: if_splits option.splits)
  assume "\<forall>d. r \<noteq> Paired d"
  then have "s' = fst (link_remove l (cc_connID (gw_phones s c)) s) \<or>
      (\<exists>payload. s' = fst (link_remove l (cc_connID (gw_phones s c)) (fst (writeFrame E l OpOpen (cc_connID (gw_phones s c)) payload s))))"
    using assms by (auto simp: announce_def Let_def case_prod_beta split: if_splits option.splits)
  moreover have "gw_phones (fst (writeFrame E l op i x s)) = gw_phones s" for op i x by (simp add: writeFrame_def writeRaw_def)
  ultimately show "\<exists>t. core_kept s t \<and> gw_phones t = gw_phones s \<and> s' = fst (link_remove l (cc_connID (gw_phones s c)) t)"
    using core_kept_refl [of s] core_kept_write(2) [of s E l] by blast
qed

lemma link_remove_cong:
  "core_kept s t \<Longrightarrow> same_conns (fst (link_remove l i s)) (fst (link_remove l i t))"
  by (auto simp: link_remove_def link_client_def core_kept_def same_conns_def releaseClients_def set_link_def split: option.splits)

definition pairing_ok :: "gateway_env \<Rightarrow> bytes option \<Rightarrow> connect_hello option \<Rightarrow> gateway_server \<Rightarrow> gateway_server \<Rightarrow> nat \<Rightarrow> bool" where
  "pairing_ok E random h s s' c \<longleftrightarrow> (\<exists>hello raw l payload. connectHello h = Inr hello \<and> random = Some raw
     \<and> lookupRelay s (ch_relay_id hello) = Some l \<and> ge_open E (b64_encode raw) (ch_proof hello) = Some payload
     \<and> gw_clients s' = gw_clients s + 1 \<and> link_client l (cc_connID (gw_phones s' c)) s' = Some c
     \<and> last (gw_sent s') = (l, EncodeFrame OpOpen (cc_connID (gw_phones s' c)) payload))"

lemma lookup_refusal: "connect_lookup E ip now random hello_ok h s = (s', Inl r) \<Longrightarrow> r \<noteq> Paired c"
  by (auto simp: connect_lookup_def Let_def split: if_splits option.splits sum.splits prod.splits)

lemma attach_refusal: "connect_attach l now s = (s', Inl r) \<Longrightarrow> r \<noteq> Paired c"
  by (auto simp: connect_attach_def split: prod.splits option.splits)

lemma announced:
  assumes "gateway_inv k s1" "k + 1 < 2 ^ 32" "connect_lookup E ip now random hello_ok h s = (s1, Inr (l, nonce, p))"
    and "connect_attach l now s1 = (s2, Inr c)" "announce E l c nonce p ready s2 = (s', r)"
  shows "r = Paired d \<Longrightarrow> pairing_ok E random h s s' d" "\<forall>d. r \<noteq> Paired d \<Longrightarrow> same_conns s s'"
proof -
  have core: "core_kept s s1" using connect_lookup_core [of s E ip now random hello_ok h] assms(3) by simp
  note att = connect_attach_conns(2) [OF assms(1,2,4) refl] connect_attach_ids(4) [OF assms(1,2,4) refl]
  show "pairing_ok E random h s s' d" if d: "r = Paired d"
  proof -
    obtain payload where pl: "d = c" "ge_open E nonce p = Some payload"
        "s' = s2\<lparr>gw_sent := gw_sent s2 @ [(l, EncodeFrame OpOpen (cc_connID (gw_phones s2 c)) payload)]\<rparr>"
      using announce_result(1) [OF assms(5) d] by blast
    obtain hello raw where "connectHello h = Inr hello" "random = Some raw" "lookupRelay s (ch_relay_id hello) = Some l"
        "nonce = b64_encode raw" "p = ch_proof hello" using connect_lookup_result [OF assms(3)] by blast
    moreover have "gw_clients s1 = gw_clients s" using core by (simp add: core_kept_def)
    ultimately show ?thesis using pl att by (simp add: pairing_ok_def link_client_def)
  qed
  assume "\<forall>d. r \<noteq> Paired d"
  then obtain t where t: "core_kept s2 t" "s' = fst (link_remove l (cc_connID (gw_phones s2 c)) t)"
    using announce_result(2) [OF assms(5)] by blast
  show "same_conns s s'"
    unfolding t(2) using same_conns_core [OF core] att(1) link_remove_cong [OF t(1)] same_conns_trans by blast
qed

text \<open>C9. The outcome of a connection attempt in any reachable state. A paired phone belongs to the link registered
  under the id it asked for, its hello passed every check, exactly one slot was taken, the id it holds leads to
  it, and the last thing the relay was sent is the announcement of that id with the challenge and the proof.
  Every refusal, also one after the phone was attached, leaves the counter and all attachments as they were.\<close>

theorem pairing_outcome:
  assumes "New E opts f t0 = Inr s0" "length es + 1 < 2 ^ 32"
    and "s = gateway_run E s0 es" "handleConnect E ip now random hello_ok h ready s = (s', r)"
  shows "case r of
      Paired c \<Rightarrow> \<exists>hello raw l payload. connectHello h = Inr hello \<and> random = Some raw
        \<and> lookupRelay s (ch_relay_id hello) = Some l \<and> ge_open E (b64_encode raw) (ch_proof hello) = Some payload
        \<and> gw_clients s' = gw_clients s + 1 \<and> link_client l (cc_connID (gw_phones s' c)) s' = Some c
        \<and> last (gw_sent s') = (l, EncodeFrame OpOpen (cc_connID (gw_phones s' c)) payload)
    | _ \<Rightarrow> gw_clients s' = gw_clients s \<and> (\<forall>l. lk_conns (gw_links s' l) = lk_conns (gw_links s l))"
proof -
  have "gateway_inv (0 + length es) s" unfolding assms(3) by (rule gateway_run_inv [OF New_inv [OF assms(1)]]) (use assms(2) in simp)
  then have inv: "gateway_inv (length es) s" by simp
  obtain s1 x where x: "connect_lookup E ip now random hello_ok h s = (s1, x)" by fastforce
  have core: "core_kept s s1" using connect_lookup_core [of s E ip now random hello_ok h] x by simp
  have i1: "gateway_inv (length es) s1" by (rule core_kept_inv [OF core inv])
  have "(\<exists>c. r = Paired c \<and> pairing_ok E random h s s' c) \<or> (\<forall>c. r \<noteq> Paired c) \<and> same_conns s s'"
  proof (cases x)
    case (Inl r')
    then show ?thesis using assms(4) x same_conns_core [OF core] lookup_refusal by (auto simp: handleConnect_def)
  next
    case (Inr y)
    obtain l nonce p where y: "y = (l, nonce, p)" by (metis prod.exhaust)
    obtain s2 z where z: "connect_attach l now s1 = (s2, z)" by fastforce
    show ?thesis
    proof (cases z)
      case (Inl r')
      then have "s' = s2" "r = r'" using assms(4) x z Inr y by (simp_all add: handleConnect_def)
      then show ?thesis
        using same_conns_trans [OF same_conns_core [OF core] connect_attach_conns(1) [OF i1 assms(2) z Inl]] attach_refusal z Inl by blast
    next
      case (Inr c)
      then have an: "announce E l c nonce p ready s2 = (s', r)" using assms(4) x z \<open>x = Inr y\<close> y by (simp add: handleConnect_def)
      note step = announced [OF i1 assms(2) x [unfolded \<open>x = Inr y\<close> y] z [unfolded Inr] an]
      show ?thesis using step by blast
    qed
  qed
  then show ?thesis by (auto simp: pairing_ok_def same_conns_def split: connect_result.splits)
qed

lemma finish_all_effect:
  "gw_links (finish_all st r cs s) = gw_links s \<and> gw_clients (finish_all st r cs s) = gw_clients s
   \<and> (c \<in> set cs \<or> cc_outClosed (gw_phones s c) \<longrightarrow> cc_outClosed (gw_phones (finish_all st r cs s) c))"
  unfolding finish_all_def
proof (induction cs arbitrary: s)
  case (Cons d cs)
  have "cc_outClosed (finish st r (gw_phones s d))" by (simp add: finish_def)
  then show ?case
    using Cons.IH [of "set_phone d (finish st r (gw_phones s d)) s"] by (auto simp: set_phone_def)
qed simp

lemma attach_closed: "lk_closed (gw_links s l) \<Longrightarrow> snd (attach l c s) \<noteq> None"
  by (simp add: attach_def reserveClient_def Let_def)

text \<open>When a link ends, nothing of it stays behind in any reachable state: its phones are all detached and their
  queues closed for flushing, their slots are given back, the registration is no longer this link, and no phone
  can attach to it any more.\<close>

theorem link_teardown_releases:
  assumes "New E opts f t0 = Inr s0" "length es < 2 ^ 32" "s = gateway_run E s0 es" "s' = link_teardown l s"
  shows "lk_conns (gw_links s' l) = [] \<and> gw_clients s' = gw_clients s - int (length (lk_conns (gw_links s l)))
    \<and> (\<forall>c \<in> snd ` set (lk_conns (gw_links s l)). cc_outClosed (gw_phones s' c))
    \<and> lookupRelay s' (lk_relayID (gw_links s l)) \<noteq> Some l \<and> snd (attach l c s') \<noteq> None"
proof -
  have "gateway_inv (0 + length es) s" unfolding assms(3) by (rule gateway_run_inv [OF New_inv [OF assms(1)]]) (use assms(2) in simp)
  then have "conns_ok (length es) (gw_links s l)" by (simp add: gateway_inv_def)
  define s1 where "s1 = link_close l StatusNormalClosure [] s"
  define s2 where "s2 = detachClients l ''relay_disconnected'' s1"
  have s': "s' = unregisterRelay l s2" unfolding assms(4) link_teardown_def s1_def s2_def ..
  have c1: "lk_closed (gw_links s1 l)" and f1: "lk_conns (gw_links s1 l) = lk_conns (gw_links s l)" "gw_clients s1 = gw_clients s"
      "lk_relayID (gw_links s1 l) = lk_relayID (gw_links s l)"
    using \<open>conns_ok _ _\<close> by (simp_all add: s1_def link_close_def set_link_def conns_ok_def)
  have f2: "gw_links s2 = gw_links (drop_conns l (\<lambda>_. False) s1)" "gw_clients s2 = gw_clients s - int (length (lk_conns (gw_links s l)))"
      "c' \<in> snd ` set (lk_conns (gw_links s l)) \<Longrightarrow> cc_outClosed (gw_phones s2 c')" for c'
    using finish_all_effect [of StatusGoingAway "''relay_disconnected''" "map snd (lk_conns (gw_links s1 l))" "drop_conns l (\<lambda>_. False) s1"]
    by (simp_all add: s2_def detachClients_drop drop_conns_fields f1)
  have f3: "gw_links s' = gw_links s2" "gw_clients s' = gw_clients s2" "gw_phones s' = gw_phones s2"
      "lookupRelay s' (lk_relayID (gw_links s2 l)) \<noteq> Some l"
    by (simp_all add: s' unregisterRelay_def Let_def lookupRelay_def delete_conv)
  have "snd (attach l c s') \<noteq> None" using c1 by (intro attach_closed) (simp add: f3 f2(1) drop_conns_fields)
  then show ?thesis using f2 f3 f1 by (simp add: drop_conns_fields)
qed

text \<open>A link whose ready message cannot be written is closed and unregistered, but the phones that attached while
  the message was on its way stay attached and counted: their connections are not told.\<close>

lemma ready_failed_keeps_phones:
  "lk_conns (gw_links (ready_failed l s) l) = lk_conns (gw_links s l)" "gw_clients (ready_failed l s) = gw_clients s"
  "gw_phones (ready_failed l s) = gw_phones s" "lookupRelay (ready_failed l s) (lk_relayID (gw_links s l)) \<noteq> Some l"
  by (auto simp: ready_failed_def unregisterRelay_def link_close_def set_link_def Let_def lookupRelay_def delete_conv)

text \<open>The id counter is a \<open>uint32\<close> that skips 0. When it wraps while the phone with id 1 is still attached, the next phone takes
  over that id: frames for the first phone go to the second, and one slot of the counter is never given back.\<close>

lemma conn_id_wraps:
  assumes "lk_nextID (gw_links s l) = - 1" "link_client l 1 s = Some c0" "attach l c s = (s', None)"
  shows "cc_connID (gw_phones s' c) = 1" "link_client l 1 s' = Some c"
    "gw_clients s' = gw_clients s + 1" "length (lk_conns (gw_links s' l)) = length (lk_conns (gw_links s l))"
proof -
  have "1 \<in> fst ` set (lk_conns (gw_links s l))" using assms(2) by (metis link_client_def map_of_eq_None_iff option.distinct(1))
  moreover have "s' = s\<lparr>gw_clients := gw_clients s + 1, gw_phones := (gw_phones s)(c := (gw_phones s c)\<lparr>cc_connID := 1\<rparr>),
      gw_links := (gw_links s)(l := (gw_links s l)\<lparr>lk_nextID := 1, lk_conns := AList.update 1 c (lk_conns (gw_links s l))\<rparr>)\<rparr>"
    using assms(1,3)
    by (auto simp: attach_def reserveClient_def releaseClients_def set_link_def set_phone_def Let_def split: if_splits)
  ultimately show "cc_connID (gw_phones s' c) = 1" "link_client l 1 s' = Some c"
      "gw_clients s' = gw_clients s + 1" "length (lk_conns (gw_links s' l)) = length (lk_conns (gw_links s l))"
    by (simp_all add: link_client_def update_conv length_update_keys)
qed

section \<open>Witnesses\<close>

definition sample_gateway_env :: gateway_env where
  "sample_gateway_env = \<lparr>ge_monthKey = (\<lambda>_. ''2025-01''), ge_notice = (\<lambda>_. None), ge_open = (\<lambda>n p. Some [1, 2]), ge_write = (\<lambda>_. True)\<rparr>"

definition sample_opts :: gateway_options where
  "sample_opts = \<lparr>go_MaxRelays = 1, go_MaxClients = 0, go_MaxClientsPerRelay = 2, go_ConnectRatePerMinute = - 1,
     go_MonthlyBytes = - 1, go_QuotaWarnPercent = 0, go_IdleTimeout = 0, go_StatePath = []\<rparr>"

definition sample_gateway :: gateway_server where
  "sample_gateway = projr (New sample_gateway_env sample_opts FileMissing 0)"

definition sample_relay :: string where
  "sample_relay = b64_encode (replicate 16 3)"

definition sample_register :: gateway_event where
  "sample_register = GRegister sample_relay"

lemma sample_New: "New sample_gateway_env sample_opts FileMissing 0 = Inr sample_gateway"
  by (simp add: sample_gateway_def New_def sample_opts_def Let_def load_def newQuotaStore_def apply_defaults_def or_default_def)

lemma sample_gateway_fields:
  "gw_relays sample_gateway = []" "gw_nlinks sample_gateway = 0" "gw_clients sample_gateway = 0" "gw_stopped sample_gateway = False"
  "rl_limit (gw_limiter sample_gateway) = - 1" "gw_opts sample_gateway = apply_defaults sample_opts" "gw_nphones sample_gateway = 0"
  by (simp_all add: sample_gateway_def New_def sample_opts_def Let_def load_def newQuotaStore_def apply_defaults_def or_default_def
      newRateLimiter_def)

lemma sample_opts_fields: "go_MaxRelays (apply_defaults sample_opts) = 1" "go_MaxClients (apply_defaults sample_opts) = 512"
  "go_MaxClientsPerRelay (apply_defaults sample_opts) = 2"
  by (simp_all add: sample_opts_def apply_defaults_def or_default_def DefaultMaxClients_def)

lemma sample_registered: "gateway_run sample_gateway_env sample_gateway [sample_register] = fst (install_link sample_relay sample_gateway)"
  by (simp add: gateway_run_def sample_register_def sample_gateway_fields register_begin_def lookupRelay_def relays_full_def
      sample_opts_fields case_prod_beta)

lemma sample_link_fields:
  "gw_nlinks (fst (install_link sample_relay sample_gateway)) = 1"
  "gw_links (fst (install_link sample_relay sample_gateway)) 0 = new_link sample_relay"
  "gw_clients (fst (install_link sample_relay sample_gateway)) = 0"
  "gw_opts (fst (install_link sample_relay sample_gateway)) = apply_defaults sample_opts"
  "gw_nphones (fst (install_link sample_relay sample_gateway)) = 0"
  "gw_relays (fst (install_link sample_relay sample_gateway)) = [(sample_relay, 0)]"
  by (simp_all add: install_link_def Let_def set_link_def sample_gateway_fields)

definition sample_attached :: gateway_server where
  "sample_attached = fst (connect_attach 0 9 (fst (install_link sample_relay sample_gateway)))"

lemma sample_attach: "connect_attach 0 9 (fst (install_link sample_relay sample_gateway)) = (sample_attached, Inr 0)"
  by (simp add: sample_attached_def connect_attach_def alloc_client_def attach_def reserveClient_def sample_link_fields sample_opts_fields
      new_link_def set_phone_def Let_def)

lemma sample_attached_fields:
  "gw_clients sample_attached = 1" "gw_opts sample_attached = apply_defaults sample_opts" "gw_nphones sample_attached = 1"
  "gw_links sample_attached 0 = (new_link sample_relay)\<lparr>lk_nextID := 1, lk_conns := [(1, 0)]\<rparr>"
  by (simp_all add: sample_attached_def connect_attach_def alloc_client_def attach_def reserveClient_def sample_link_fields
      sample_opts_fields new_link_def set_phone_def set_link_def Let_def)

definition sample_again :: gateway_server where
  "sample_again = fst (connect_attach 0 10 (gateway_run sample_gateway_env sample_attached [GDetach 0 ''x'']))"

lemma sample_attach_again:
  "connect_attach 0 10 (gateway_run sample_gateway_env sample_attached [GDetach 0 ''x'']) = (sample_again, Inr 1)"
  by (simp add: sample_again_def gateway_run_def detachClients_def finish_all_def releaseClients_def connect_attach_def alloc_client_def
      attach_def reserveClient_def sample_attached_fields sample_opts_fields new_link_def set_phone_def set_link_def Let_def)

theorem gateway_limits_witness:
  "let s = gateway_run sample_gateway_env sample_gateway [sample_register, GAttach 0 9] in gw_clients s = attached s \<and> gw_clients s \<le> 512
     \<and> int (length (gw_relays s)) \<le> 1 \<and> length (cc_out (gw_phones s 0)) \<le> 32"
  using gateway_limits [OF sample_New, of "[sample_register, GAttach 0 9]"] by (simp add: Let_def sample_opts_fields)

theorem conn_ids_increase_witness:
  "unat (cc_connID (gw_phones sample_attached 0)) < unat (cc_connID (gw_phones sample_again 1))
    \<and> link_client 0 (cc_connID (gw_phones sample_again 1)) sample_again = Some 1"
  by (rule conn_ids_increase [OF sample_New _ _ sample_attach [folded sample_registered] sample_attach_again])
    (simp_all add: sample_registered sample_link_fields)


definition sample_hello :: connect_hello where
  "sample_hello = \<lparr>ch_type = TypeConnect, ch_proto = Proto, ch_relay_id = sample_relay, ch_proof = b64_encode (replicate 32 9)\<rparr>"

lemma sample_hello_ok: "connectHello (Some sample_hello) = Inr sample_hello"
  by (simp add: sample_hello_def connectHello_def sample_relay_def ValidRelayID_def RelayIDLength_def RelayIDBytes_def validProof_def
      proofBytes_def length_b64_encode b64_decode_encode)

lemma sample_hello_id: "ch_relay_id sample_hello = sample_relay"
  by (simp add: sample_hello_def)

theorem pairing_outcome_witness:
  "\<exists>s' c payload. handleConnect sample_gateway_env ''192.0.2.9'' 9 (Some [5]) True (Some sample_hello) True
      (gateway_run sample_gateway_env sample_gateway [sample_register]) = (s', Paired c) \<and> gw_clients s' = 1
     \<and> last (gw_sent s') = (0, EncodeFrame OpOpen (cc_connID (gw_phones s' c)) payload)"
proof -
  let ?s = "gateway_run sample_gateway_env sample_gateway [sample_register]"
  obtain s' r where h: "handleConnect sample_gateway_env ''192.0.2.9'' 9 (Some [5]) True (Some sample_hello) True ?s = (s', r)" by fastforce
  have lim: "rl_limit (gw_limiter ?s) = - 1" "gw_stopped ?s = False" "q_limit (gw_quota ?s) = q_limit (gw_quota sample_gateway)"
      "lookupRelay ?s sample_relay = Some 0"
    unfolding sample_registered by (simp_all add: install_link_def Let_def set_link_def sample_gateway_fields lookupRelay_def)
  have q: "q_limit (gw_quota sample_gateway) = - 1"
    by (simp add: sample_gateway_def New_def sample_opts_def Let_def load_def newQuotaStore_def apply_defaults_def or_default_def)
  have "connect_lookup sample_gateway_env ''192.0.2.9'' 9 (Some [5]) True (Some sample_hello) ?s
      = (?s, Inr (0, b64_encode [5], ch_proof sample_hello))"
    using lim q sample_hello_ok
    by (simp add: connect_lookup_def allow_def exceeded_def quota_enabled_def Let_def sample_hello_id del: b64_encode.simps)
  moreover have "snd (announce sample_gateway_env 0 0 nonce p True sample_attached) = Paired 0" for nonce p
    by (simp add: announce_def sample_gateway_env_def writeFrame_def writeRaw_def)
  ultimately have "snd (handleConnect sample_gateway_env ''192.0.2.9'' 9 (Some [5]) True (Some sample_hello) True ?s) = Paired 0"
    using sample_attach [folded sample_registered] by (simp add: handleConnect_def del: b64_encode.simps)
  with h have r: "r = Paired 0" by simp
  from pairing_outcome [OF sample_New _ refl h] r
  have "\<exists>hello raw l payload. connectHello (Some sample_hello) = Inr hello \<and> lookupRelay ?s (ch_relay_id hello) = Some l
      \<and> gw_clients s' = gw_clients ?s + 1 \<and> last (gw_sent s') = (l, EncodeFrame OpOpen (cc_connID (gw_phones s' 0)) payload)"
    by auto
  then obtain payload where "gw_clients s' = 1" "last (gw_sent s') = (0, EncodeFrame OpOpen (cc_connID (gw_phones s' 0)) payload)"
    using sample_hello_ok by (auto simp: sample_registered sample_link_fields lookupRelay_def sample_hello_id)
  then show ?thesis using h r by blast
qed

theorem link_teardown_releases_witness:
  "gw_clients (link_teardown 0 (gateway_run sample_gateway_env sample_gateway [sample_register, GAttach 0 9])) = 0"
proof -
  have s: "gateway_run sample_gateway_env sample_gateway [sample_register, GAttach 0 9] = sample_attached"
    using sample_registered by (simp add: gateway_run_def sample_link_fields sample_attached_def)
  show ?thesis
    using link_teardown_releases [OF sample_New _ refl refl, of "[sample_register, GAttach 0 9]" 0 0]
    by (simp add: s sample_attached_fields)
qed

end
