(* ===== verification/Go_Text.thy ===== *)
theory Go_Text
  imports Go_Strings
begin

text \<open>
  Text helpers of Go's standard library: \<open>unicode.IsSpace\<close>, \<open>strings.Fields\<close>, \<open>strings.TrimSpace\<close>,
  \<open>strings.TrimPrefix\<close>, \<open>strconv.Atoi\<close>, and the lexical part of \<open>path/filepath\<close> on Unix (\<open>IsAbs\<close>, \<open>Clean\<close>, \<open>Join\<close>).
  Strings are byte strings; runes are decoded as UTF-8, an invalid byte being one rune of its own.
\<close>

section \<open>Spaces and fields\<close>

definition is_space :: "nat \<Rightarrow> bool" where
  "is_space r \<longleftrightarrow> 9 \<le> r \<and> r \<le> 13 \<or> r = 0x20 \<or> r = 0x85 \<or> r = 0xA0 \<or> r = 0x1680 \<or> 0x2000 \<le> r \<and> r \<le> 0x200A
     \<or> r = 0x2028 \<or> r = 0x2029 \<or> r = 0x202F \<or> r = 0x205F \<or> r = 0x3000"

function fields_from :: "string \<Rightarrow> string \<Rightarrow> string list" where
  "fields_from cur s =
     (if s = [] then (if cur = [] then [] else [cur])
      else let r = fst (decode_rune s); w = snd (decode_rune s)
           in if is_space r then (if cur = [] then [] else [cur]) @ fields_from [] (drop w s)
              else fields_from (cur @ take w s) (drop w s))"
  by pat_completeness auto
termination
proof (relation "measure (\<lambda>(cur, s). length s)", simp)
  fix cur s :: string and r w
  assume "s \<noteq> []" "w = snd (decode_rune s)"
  with decode_rune_width [of s] show "(([], drop w s), cur, s) \<in> measure (\<lambda>(cur, s). length s)"
    by (simp add: Suc_le_eq)
next
  fix cur s :: string and r w
  assume "s \<noteq> []" "w = snd (decode_rune s)"
  with decode_rune_width [of s] show "((cur @ take w s, drop w s), cur, s) \<in> measure (\<lambda>(cur, s). length s)"
    by (simp add: Suc_le_eq)
qed

declare fields_from.simps [simp del]

definition Fields :: "string \<Rightarrow> string list" where
  "Fields s = fields_from [] s"

text \<open>The runes of a string as byte segments, and \<open>strings.TrimSpace\<close>.\<close>

function rune_segments :: "string \<Rightarrow> string list" where
  "rune_segments s =
     (if s = [] then [] else take (snd (decode_rune s)) s # rune_segments (drop (snd (decode_rune s)) s))"
  by pat_completeness auto
termination
proof (relation "measure length", simp)
  fix s :: string
  assume "s \<noteq> []"
  with decode_rune_width [of s] show "(drop (snd (decode_rune s)) s, s) \<in> measure length"
    by (simp add: Suc_le_eq)
qed

declare rune_segments.simps [simp del]

definition space_segment :: "string \<Rightarrow> bool" where
  "space_segment seg \<longleftrightarrow> is_space (fst (decode_rune seg))"

definition trim_space :: "string \<Rightarrow> string" where
  "trim_space s = concat (rev (dropWhile space_segment (rev (dropWhile space_segment (rune_segments s)))))"

text \<open>A string of printable ASCII characters other than the space is its own trimming.\<close>

definition graphic :: "char \<Rightarrow> bool" where
  "graphic c \<longleftrightarrow> 33 \<le> byte_val c \<and> byte_val c \<le> 126"

lemma rune_segments_graphic: "list_all graphic s \<Longrightarrow> rune_segments s = map (\<lambda>c. [c]) s"
proof (induction s)
  case Nil
  then show ?case by (simp add: rune_segments.simps [of "[]"])
next
  case (Cons c s)
  then have "decode_rune (c # s) = (byte_val c, 1)"
    by (simp add: graphic_def)
  with Cons show ?case
    by (subst rune_segments.simps) simp
qed

lemma trim_space_graphic: "list_all graphic s \<Longrightarrow> trim_space s = s"
proof -
  assume s: "list_all graphic s"
  then have "\<not> space_segment [c]" if "c \<in> set s" for c
    using that by (auto simp: list_all_iff graphic_def space_segment_def is_space_def)
  then have no: "\<forall>g\<in>set (map (\<lambda>c. [c]) s). \<not> space_segment g"
    by auto
  have drop: "dropWhile space_segment gs = gs" if "\<forall>g\<in>set gs. \<not> space_segment g" for gs
    using that by (cases gs) auto
  have "dropWhile space_segment (map (\<lambda>c. [c]) s) = map (\<lambda>c. [c]) s"
    and "dropWhile space_segment (rev (map (\<lambda>c. [c]) s)) = rev (map (\<lambda>c. [c]) s)"
    using no by (auto intro!: drop)
  then show ?thesis
    using s by (simp add: trim_space_def rune_segments_graphic)
qed

definition trim_prefix :: "string \<Rightarrow> string \<Rightarrow> string" where
  "trim_prefix prefix s = (if has_prefix s prefix then drop (length prefix) s else s)"

section \<open>Numbers\<close>

definition is_digit :: "char \<Rightarrow> bool" where
  "is_digit c \<longleftrightarrow> byte_val CHR ''0'' \<le> byte_val c \<and> byte_val c \<le> byte_val CHR ''9''"

definition digits_val :: "string \<Rightarrow> int" where
  "digits_val ds = foldl (\<lambda>n c. 10 * n + (int (byte_val c) - int (byte_val CHR ''0''))) 0 ds"

text \<open>\<open>None\<close> for a syntax error and for a value outside 64 bits.\<close>

definition Atoi :: "string \<Rightarrow> int option" where
  "Atoi s =
     (let neg = (s \<noteq> [] \<and> hd s = CHR ''-'');
          ds = (if s \<noteq> [] \<and> (hd s = CHR ''-'' \<or> hd s = CHR ''+'') then tl s else s);
          n = (if neg then - digits_val ds else digits_val ds)
      in if ds = [] \<or> \<not> list_all is_digit ds then None
         else if n < - (2 ^ 63) \<or> n \<ge> 2 ^ 63 then None
         else Some n)"

section \<open>Lines of a file\<close>

text \<open>\<open>bufio.Scanner\<close> splitting lines: the last line may lack its newline, and a trailing
  carriage return is dropped (\<open>drop_cr\<close>). A line that fills the buffer stops the scan; the clients say what they do then.\<close>

definition drop_cr :: "string \<Rightarrow> string" where
  "drop_cr l = (if l \<noteq> [] \<and> last l = CHR 0x0D then butlast l else l)"

definition raw_lines :: "string \<Rightarrow> string list" where
  "raw_lines s = (let ls = split_lines s in if last ls = [] then butlast ls else ls)"

section \<open>Paths\<close>

fun split_char :: "char \<Rightarrow> string \<Rightarrow> string list" where
  "split_char c [] = [[]]"
| "split_char c (x # xs) =
     (if x = c then [] # split_char c xs
      else case split_char c xs of [] \<Rightarrow> [[x]] | y # ys \<Rightarrow> (x # y) # ys)"

definition is_abs :: "string \<Rightarrow> bool" where
  "is_abs p \<longleftrightarrow> p \<noteq> [] \<and> hd p = CHR ''/''"

definition clean_step :: "bool \<Rightarrow> string list \<Rightarrow> string \<Rightarrow> string list" where
  "clean_step rooted stack part =
     (if part = [] \<or> part = ''.'' then stack
      else if part = ''..''
      then (if stack \<noteq> [] \<and> last stack \<noteq> ''..'' then butlast stack else if rooted then stack else stack @ [part])
      else stack @ [part])"

definition path_clean :: "string \<Rightarrow> string" where
  "path_clean p =
     (let body = join_with ''/'' (foldl (clean_step (is_abs p)) [] (split_char CHR ''/'' p))
      in if is_abs p then CHR ''/'' # body else if body = [] then ''.'' else body)"

text \<open>\<open>Join\<close> of two elements; empty elements are dropped.\<close>

definition path_join :: "string \<Rightarrow> string \<Rightarrow> string" where
  "path_join a b =
     (if a = [] \<and> b = [] then []
      else if a = [] then path_clean b
      else if b = [] then path_clean a
      else path_clean (a @ ''/'' @ b))"

end
