(* ===== verification/Pane_Size.thy ===== *)
theory Pane_Size
  imports Relay_Prelude Go_Text "HOL-Library.AList"
begin

text \<open>
  Leases on the size of a terminal pane, \<^verbatim>\<open>internal/panesize/manager.go\<close>. A phone leases a width, and optionally a height,
  for a limited time; the pane gets the smallest size leased and its own size back when the last lease ends.

  \<^item> Operations run under the manager's lock and are functions on the manager. Loops over the pane map visit the
    panes in the order of insertion; an aggregated error is the list of the panes that failed.
  \<^item> What the outside world does is an environment of the operation: the clock, herdr's process information, the
    output of \<^verbatim>\<open>ps\<close> and \<^verbatim>\<open>stty size\<close>, and whether the n-th \<^verbatim>\<open>stty\<close> call that sets a size succeeds.
    These calls are logged in \<open>sm_calls\<close> with their outcome.
\<close>

section \<open>State\<close>

definition MinColumns :: int where "MinColumns = 40"
definition MaxColumns :: int where "MaxColumns = 240"
definition MinRows :: int where "MinRows = 10"
definition MaxRows :: int where "MaxRows = 120"
definition LeaseTTL :: duration where "LeaseTTL = 120 * second"
definition ReleaseGrace :: duration where "ReleaseGrace = 10 * second"
definition maxRestoreFailures :: nat where "maxRestoreFailures = 5"

datatype size_error = ErrClosed | ErrInvalidColumns | ErrInvalidRows | ErrInvalidLease | ErrLeaseOwnerGone | ErrProcessUnavailable
  | ErrTTYUnavailable | ErrSizeUnavailable | ErrResizeFailed | ErrUnsupportedOS

record lease =
  ls_Columns :: int
  ls_Rows :: int
  ls_ExpiresAt :: time

record terminal_size =
  tz_rows :: int
  tz_columns :: int

record pane_size =
  ps_tty :: string
  ps_baselineRows :: int
  ps_baselineColumns :: int
  ps_appliedRows :: int
  ps_appliedColumns :: int
  ps_resizedAt :: time
  ps_leases :: "(string \<times> lease) list"
  ps_restoreFailures :: nat

record set_call =
  sc_tty :: string
  sc_columns :: int
  sc_rows :: int

record size_manager =
  sm_goos :: string
  sm_ttl :: duration
  sm_grace :: duration
  sm_panes :: "(string \<times> pane_size) list"
  sm_closed :: bool
  sm_calls :: "(set_call \<times> bool) list"

record process_info =
  pi_PaneID :: string
  pi_ForegroundProcessGroupID :: int
  pi_ForegroundProcesses :: "int list"

record size_env =
  se_now :: time
  se_tick :: "nat \<Rightarrow> time"
  se_info :: "string \<Rightarrow> process_info option"
  se_ps :: "int \<Rightarrow> string option"
  se_stty :: "string \<Rightarrow> string option"
  se_set :: "nat \<Rightarrow> bool"

definition newManager :: "string \<Rightarrow> duration \<Rightarrow> duration \<Rightarrow> size_manager" where
  "newManager goos ttl grace =
     \<lparr>sm_goos = goos, sm_ttl = ttl, sm_grace = grace, sm_panes = [], sm_closed = False, sm_calls = []\<rparr>"

definition NewManager :: "string \<Rightarrow> size_manager" where
  "NewManager goos = newManager goos LeaseTTL ReleaseGrace"

section \<open>Terminals\<close>

definition sttyDeviceFlag :: "string \<Rightarrow> size_error + string" where
  "sttyDeviceFlag goos =
     (if goos = ''linux'' then Inr ''-F'' else if goos = ''darwin'' then Inr ''-f'' else Inl ErrUnsupportedOS)"

definition ttyPath :: "string \<Rightarrow> size_error + string" where
  "ttyPath output =
     (let fields = Fields output
      in if length fields \<noteq> 1 \<or> hd fields = ''?'' \<or> hd fields = ''??'' \<or> hd fields = ''-'' then Inl ErrTTYUnavailable
         else let tty = trim_prefix ''/dev/'' (hd fields)
              in if tty = [] \<or> is_abs tty then Inl ErrTTYUnavailable
                 else let clean = path_clean tty
                      in if clean = ''.'' \<or> clean = ''..'' \<or> has_prefix clean ''../'' then Inl ErrTTYUnavailable
                         else Inr (path_join ''/dev'' clean))"

definition foregroundPID :: "process_info option \<Rightarrow> string \<Rightarrow> size_error + int" where
  "foregroundPID info paneID =
     (case info of
        None \<Rightarrow> Inl ErrProcessUnavailable
      | Some i \<Rightarrow>
          if pi_PaneID i = [] \<or> pi_PaneID i \<noteq> paneID \<or> pi_ForegroundProcessGroupID i \<le> 0 \<or> pi_ForegroundProcesses i = []
          then Inl ErrProcessUnavailable
          else if pi_ForegroundProcessGroupID i \<in> set (pi_ForegroundProcesses i) then Inr (pi_ForegroundProcessGroupID i)
          else (case find (\<lambda>pid. pid > 0) (pi_ForegroundProcesses i) of
                  Some pid \<Rightarrow> Inr pid | None \<Rightarrow> Inl ErrProcessUnavailable))"

definition readSize :: "size_env \<Rightarrow> string \<Rightarrow> string \<Rightarrow> size_error + terminal_size" where
  "readSize E goos tty =
     (case sttyDeviceFlag goos of
        Inl e \<Rightarrow> Inl e
      | Inr _ \<Rightarrow>
          (case se_stty E tty of
             None \<Rightarrow> Inl ErrSizeUnavailable
           | Some output \<Rightarrow>
               let fields = Fields output
               in if length fields \<noteq> 2 then Inl ErrSizeUnavailable
                  else (case (Atoi (fields ! 0), Atoi (fields ! 1)) of
                          (Some rows, Some columns) \<Rightarrow>
                            if rows < 1 \<or> columns < 1 then Inl ErrSizeUnavailable
                            else Inr \<lparr>tz_rows = rows, tz_columns = columns\<rparr>
                        | _ \<Rightarrow> Inl ErrSizeUnavailable)))"

definition setSize :: "size_env \<Rightarrow> string \<Rightarrow> int \<Rightarrow> int \<Rightarrow> size_manager \<Rightarrow> size_manager \<times> size_error option" where
  "setSize E tty columns rows m =
     (case sttyDeviceFlag (sm_goos m) of
        Inl e \<Rightarrow> (m, Some e)
      | Inr _ \<Rightarrow>
          let ok = se_set E (length (sm_calls m));
              m1 = m\<lparr>sm_calls := sm_calls m @ [(\<lparr>sc_tty = tty, sc_columns = columns, sc_rows = (if rows > 0 then rows else 0)\<rparr>, ok)]\<rparr>
          in (m1, if ok then None else Some ErrResizeFailed))"

definition resolvePane :: "size_env \<Rightarrow> string \<Rightarrow> string \<Rightarrow> size_error + pane_size" where
  "resolvePane E goos paneID =
     (case foregroundPID (se_info E paneID) paneID of
        Inl e \<Rightarrow> Inl e
      | Inr pid \<Rightarrow>
          (case se_ps E pid of
             None \<Rightarrow> Inl ErrTTYUnavailable
           | Some output \<Rightarrow>
               (case ttyPath output of
                  Inl e \<Rightarrow> Inl e
                | Inr tty \<Rightarrow>
                    (case readSize E goos tty of
                       Inl e \<Rightarrow> Inl e
                     | Inr sz \<Rightarrow>
                         Inr \<lparr>ps_tty = tty, ps_baselineRows = tz_rows sz, ps_baselineColumns = tz_columns sz,
                           ps_appliedRows = tz_rows sz, ps_appliedColumns = tz_columns sz, ps_resizedAt = 0,
                           ps_leases = [], ps_restoreFailures = 0\<rparr>))))"

section \<open>Leases of one pane\<close>

definition minimumColumns :: "(string \<times> lease) list \<Rightarrow> int \<times> bool" where
  "minimumColumns leases =
     (let minimum = foldl (\<lambda>m x. if m = 0 \<or> ls_Columns (snd x) < m then ls_Columns (snd x) else m) 0 leases
      in (minimum, minimum \<noteq> 0))"

definition minimumRows :: "(string \<times> lease) list \<Rightarrow> int" where
  "minimumRows leases =
     foldl (\<lambda>m x. if ls_Rows (snd x) \<le> 0 then m
                  else if m = 0 \<or> ls_Rows (snd x) < m then ls_Rows (snd x) else m) 0 leases"

definition removeExpired :: "pane_size \<Rightarrow> time \<Rightarrow> pane_size \<times> bool" where
  "removeExpired st now =
     (st\<lparr>ps_leases := filter (\<lambda>x. ls_ExpiresAt (snd x) > now) (ps_leases st)\<rparr>,
      list_ex (\<lambda>x. \<not> ls_ExpiresAt (snd x) > now) (ps_leases st))"

text \<open>The rows a set of leases asks for, the baseline when none constrains them, and the rows handed to \<^verbatim>\<open>stty\<close>.\<close>

definition target_rows :: "pane_size \<Rightarrow> int" where
  "target_rows st = (if minimumRows (ps_leases st) > 0 then minimumRows (ps_leases st) else ps_baselineRows st)"

definition stty_rows :: "pane_size \<Rightarrow> int" where
  "stty_rows st =
     (if \<not> minimumRows (ps_leases st) > 0 \<and> target_rows st = ps_appliedRows st then 0 else target_rows st)"

definition set_pane :: "string \<Rightarrow> pane_size \<Rightarrow> size_manager \<Rightarrow> size_manager" where
  "set_pane p st m = m\<lparr>sm_panes := AList.update p st (sm_panes m)\<rparr>"

definition del_pane :: "string \<Rightarrow> size_manager \<Rightarrow> size_manager" where
  "del_pane p m = m\<lparr>sm_panes := AList.delete p (sm_panes m)\<rparr>"

definition restore :: "size_env \<Rightarrow> string \<Rightarrow> pane_size \<Rightarrow> size_manager \<Rightarrow> size_manager \<times> size_error option" where
  "restore E p st m =
     (let rows = (if ps_appliedRows st = ps_baselineRows st then 0 else ps_baselineRows st);
          (m1, err) = setSize E (ps_tty st) (ps_baselineColumns st) rows m
      in case err of
           Some e \<Rightarrow>
             let st1 = st\<lparr>ps_restoreFailures := ps_restoreFailures st + 1\<rparr>
             in (if ps_restoreFailures st1 \<ge> maxRestoreFailures then del_pane p m1 else set_pane p st1 m1, Some e)
         | None \<Rightarrow> (del_pane p m1, None))"

definition reconcile :: "size_env \<Rightarrow> string \<Rightarrow> pane_size \<Rightarrow> size_manager \<Rightarrow> size_manager \<times> size_error option" where
  "reconcile E p st m =
     (let (target, active) = minimumColumns (ps_leases st)
      in if \<not> active then restore E p st m
         else if target = ps_appliedColumns st \<and> target_rows st = ps_appliedRows st then (set_pane p st m, None)
         else let (m1, err) = setSize E (ps_tty st) target (stty_rows st) m
              in case err of
                   Some e \<Rightarrow> (set_pane p st m1, Some e)
                 | None \<Rightarrow>
                     (set_pane p (st\<lparr>ps_resizedAt := se_tick E (length (sm_calls m1)), ps_appliedColumns := target,
                        ps_appliedRows := target_rows st\<rparr>) m1, None))"

section \<open>Acquiring\<close>

text \<open>The pane's state and its current size, before the lease is entered.\<close>

definition acquire_state :: "size_env \<Rightarrow> string \<Rightarrow> size_manager \<Rightarrow> size_manager \<times> (size_error + pane_size \<times> terminal_size)" where
  "acquire_state E p m =
     (case map_of (sm_panes m) p of
        None \<Rightarrow>
          (case resolvePane E (sm_goos m) p of
             Inl e \<Rightarrow> (m, Inl e)
           | Inr st \<Rightarrow> (m, Inr (st, \<lparr>tz_rows = ps_appliedRows st, tz_columns = ps_appliedColumns st\<rparr>)))
      | Some st0 \<Rightarrow>
          let st = fst (removeExpired st0 (se_now E)); m1 = set_pane p st m
          in (case readSize E (sm_goos m) (ps_tty st) of
                Inl e \<Rightarrow> (m1, Inl e)
              | Inr current \<Rightarrow>
                  let st1 = (if tz_columns current \<noteq> ps_appliedColumns st then st\<lparr>ps_baselineColumns := tz_columns current\<rparr> else st);
                      st2 = (if tz_rows current \<noteq> ps_appliedRows st1 then st1\<lparr>ps_baselineRows := tz_rows current\<rparr> else st1)
                  in (set_pane p st2 m1, Inr (st2, current))))"

text \<open>Entering the lease and resizing where needed.\<close>

definition acquire_lease :: "size_env \<Rightarrow> string \<Rightarrow> string \<Rightarrow> int \<Rightarrow> int \<Rightarrow> pane_size \<Rightarrow> terminal_size \<Rightarrow> size_manager
    \<Rightarrow> size_manager \<times> (size_error + int \<times> int)" where
  "acquire_lease E client p columns rows st current m =
     (let st1 = st\<lparr>ps_leases := AList.update client \<lparr>ls_Columns = columns, ls_Rows = rows, ls_ExpiresAt = se_now E + sm_ttl m\<rparr> (ps_leases st)\<rparr>;
          target = fst (minimumColumns (ps_leases st1));
          needed = (target \<noteq> tz_columns current \<or> stty_rows st1 > 0 \<and> target_rows st1 \<noteq> tz_rows current);
          applied = (\<lambda>s. s\<lparr>ps_appliedColumns := target, ps_appliedRows := target_rows st1\<rparr>)
      in if \<not> needed then (set_pane p (applied st1) m, Inr (target, target_rows st1))
         else let (m1, err) = setSize E (ps_tty st1) target (stty_rows st1) m
              in case err of
                   Some e \<Rightarrow> (set_pane p st m1, Inl e)
                 | None \<Rightarrow> (set_pane p (applied (st1\<lparr>ps_resizedAt := se_now E\<rparr>)) m1, Inr (target, target_rows st1)))"

definition Acquire :: "size_env \<Rightarrow> bool \<Rightarrow> bool \<Rightarrow> string \<Rightarrow> string \<Rightarrow> int \<Rightarrow> int \<Rightarrow> size_manager
    \<Rightarrow> size_manager \<times> (size_error + int \<times> int)" where
  "Acquire E gone gone_later client p columns rows m =
     (if client = [] \<or> p = [] then (m, Inl ErrInvalidLease)
      else if columns < MinColumns \<or> columns > MaxColumns then (m, Inl ErrInvalidColumns)
      else if rows \<noteq> 0 \<and> (rows < MinRows \<or> rows > MaxRows) then (m, Inl ErrInvalidRows)
      else if sm_closed m then (m, Inl ErrClosed)
      else if gone then (m, Inl ErrLeaseOwnerGone)
      else case acquire_state E p m of
             (m1, Inl e) \<Rightarrow> (m1, Inl e)
           | (m1, Inr (st, current)) \<Rightarrow>
               if gone_later then (m1, Inl ErrLeaseOwnerGone)
               else acquire_lease E client p columns rows st current m1)"

section \<open>Reading\<close>

definition live_leases :: "pane_size \<Rightarrow> time \<Rightarrow> (string \<times> lease) list" where
  "live_leases st now = filter (\<lambda>x. ls_ExpiresAt (snd x) > now) (ps_leases st)"

definition ActiveColumns :: "size_manager \<Rightarrow> time \<Rightarrow> string \<Rightarrow> int \<times> bool" where
  "ActiveColumns m now p =
     (if sm_closed m then (0, False)
      else case map_of (sm_panes m) p of
             None \<Rightarrow> (0, False)
           | Some st \<Rightarrow> minimumColumns (live_leases st now))"

definition ActiveRows :: "size_manager \<Rightarrow> time \<Rightarrow> string \<Rightarrow> int \<times> bool" where
  "ActiveRows m now p =
     (if sm_closed m then (0, False)
      else case map_of (sm_panes m) p of
             None \<Rightarrow> (0, False)
           | Some st \<Rightarrow>
               let live = live_leases st now; minimum = minimumRows live
               in if live = [] then (0, False)
                  else if minimum = 0 then (ps_baselineRows st, True)
                  else (minimum, True))"

definition ResizedWithin :: "size_manager \<Rightarrow> time \<Rightarrow> string \<Rightarrow> duration \<Rightarrow> bool" where
  "ResizedWithin m now p window =
     (if sm_closed m then False
      else case map_of (sm_panes m) p of
             None \<Rightarrow> False
           | Some st \<Rightarrow> if is_zero_time (ps_resizedAt st) then False else time_sub now (ps_resizedAt st) < window)"

section \<open>Releasing\<close>

definition Release :: "size_env \<Rightarrow> string \<Rightarrow> string \<Rightarrow> size_manager \<Rightarrow> size_manager \<times> size_error option" where
  "Release E client p m =
     (if client = [] \<or> p = [] then (m, Some ErrInvalidLease)
      else if sm_closed m then (m, None)
      else case map_of (sm_panes m) p of
             None \<Rightarrow> (m, None)
           | Some st \<Rightarrow>
               (case map_of (ps_leases st) client of
                  None \<Rightarrow> (m, None)
                | Some l \<Rightarrow>
                    let lapse = se_now E + sm_grace m;
                        l1 = (if ls_ExpiresAt l > lapse then l\<lparr>ls_ExpiresAt := lapse\<rparr> else l);
                        st1 = (if ls_ExpiresAt l > lapse then st\<lparr>ps_leases := AList.update client l1 (ps_leases st)\<rparr> else st)
                    in if ls_ExpiresAt l1 > se_now E then (set_pane p st1 m, None)
                       else reconcile E p (st1\<lparr>ps_leases := AList.delete client (ps_leases st1)\<rparr>) m))"

text \<open>A loop over all panes, collecting the errors of the panes that failed.\<close>

definition each_pane :: "(string \<Rightarrow> pane_size \<Rightarrow> size_manager \<Rightarrow> size_manager \<times> size_error option) \<Rightarrow> size_manager
    \<Rightarrow> size_manager \<times> (string \<times> size_error) list" where
  "each_pane body m0 =
     foldl (\<lambda>(m, errs) p.
         case map_of (sm_panes m) p of
           None \<Rightarrow> (m, errs)
         | Some st \<Rightarrow> (case body p st m of (m1, None) \<Rightarrow> (m1, errs) | (m1, Some e) \<Rightarrow> (m1, errs @ [(p, e)])))
       (m0, []) (map fst (sm_panes m0))"

definition release_body :: "size_env \<Rightarrow> string \<Rightarrow> string \<Rightarrow> pane_size \<Rightarrow> size_manager \<Rightarrow> size_manager \<times> size_error option" where
  "release_body E client p st m =
     (let owned = (map_of (ps_leases st) client \<noteq> None);
          st1 = st\<lparr>ps_leases := AList.delete client (ps_leases st)\<rparr>
      in if \<not> owned \<and> snd (minimumColumns (ps_leases st1)) then (m, None)
         else reconcile E p st1 m)"

definition ReleaseClient :: "size_env \<Rightarrow> string \<Rightarrow> size_manager \<Rightarrow> size_manager \<times> (size_error + (string \<times> size_error) list)" where
  "ReleaseClient E client m =
     (if client = [] then (m, Inl ErrInvalidLease)
      else if sm_closed m then (m, Inr [])
      else let (m1, errs) = each_pane (release_body E client) m in (m1, Inr errs))"

definition sweep_body :: "size_env \<Rightarrow> string \<Rightarrow> pane_size \<Rightarrow> size_manager \<Rightarrow> size_manager \<times> size_error option" where
  "sweep_body E p st m =
     (let (st1, removed) = removeExpired st (se_now E);
          (target, active) = minimumColumns (ps_leases st1);
          rows = (if minimumRows (ps_leases st1) = 0 then ps_baselineRows st1 else minimumRows (ps_leases st1))
      in if \<not> removed \<and> active \<and> ps_appliedColumns st1 = target \<and> ps_appliedRows st1 = rows then (m, None)
         else reconcile E p st1 m)"

definition SweepExpired :: "size_env \<Rightarrow> size_manager \<Rightarrow> size_manager \<times> (string \<times> size_error) list" where
  "SweepExpired E m = (if sm_closed m then (m, []) else each_pane (sweep_body E) m)"

definition Shutdown :: "size_env \<Rightarrow> size_manager \<Rightarrow> size_manager \<times> (string \<times> size_error) list" where
  "Shutdown E m = each_pane (\<lambda>p st. restore E p (st\<lparr>ps_leases := []\<rparr>)) (m\<lparr>sm_closed := True\<rparr>)"

datatype size_event =
    SAcquire size_env bool bool string string int int
  | SRelease size_env string string
  | SReleaseClient size_env string
  | SSweep size_env
  | SShutdown size_env

fun size_step :: "size_manager \<Rightarrow> size_event \<Rightarrow> size_manager \<times> unit" where
  "size_step m (SAcquire E gone gone_later client p columns rows) = (fst (Acquire E gone gone_later client p columns rows m), ())"
| "size_step m (SRelease E client p) = (fst (Release E client p m), ())"
| "size_step m (SReleaseClient E client) = (fst (ReleaseClient E client m), ())"
| "size_step m (SSweep E) = (fst (SweepExpired E m), ())"
| "size_step m (SShutdown E) = (fst (Shutdown E m), ())"

end
