(* ===== verification/Pane_Size_Props.thy ===== *)
theory Pane_Size_Props
  imports Pane_Size
begin

text \<open>
  Correctness of pane size leases. What a terminal looks like is the effect of the successful \<^verbatim>\<open>stty\<close> calls on its
  original size; an environment is honest when \<^verbatim>\<open>stty size\<close> reports that and a pane always has the same terminal.
  Over every sequence of operations in honest environments a terminal without leases has its original size.
\<close>

section \<open>Minima\<close>

lemma min_fold:
  fixes f :: "'a \<Rightarrow> int"
  assumes "\<forall>x \<in> set xs. 0 < f x" "0 \<le> m"
  shows "foldl (\<lambda>m x. if m = 0 \<or> f x < m then f x else m) m xs =
    (if m = 0 then if xs = [] then 0 else Min (f ` set xs) else Min (insert m (f ` set xs)))"
  using assms
proof (induction xs arbitrary: m)
  case (Cons x xs)
  have "0 < f x" using Cons.prems(1) by simp
  show ?case
  proof (cases "xs = []")
    case False
    then have "Min (insert m (insert (f x) (f ` set xs))) = min m (min (f x) (Min (f ` set xs)))"
        "Min (insert (f x) (f ` set xs)) = min (f x) (Min (f ` set xs))"
        "Min (insert m (f ` set xs)) = min m (Min (f ` set xs))" for m by simp_all
    then show ?thesis using Cons \<open>0 < f x\<close> False by (auto simp: min_def)
  qed (use Cons.prems \<open>0 < f x\<close> in auto)
qed simp

lemma min_image_pos: "\<forall>x \<in> set xs. 0 < f x \<Longrightarrow> xs \<noteq> [] \<Longrightarrow> (0::int) < Min (f ` set xs)"
  by (subst Min_gr_iff) auto

definition lease_ok :: "lease \<Rightarrow> bool" where
  "lease_ok l \<longleftrightarrow> MinColumns \<le> ls_Columns l \<and> ls_Columns l \<le> MaxColumns
     \<and> (ls_Rows l = 0 \<or> MinRows \<le> ls_Rows l \<and> ls_Rows l \<le> MaxRows)"

definition leases_ok :: "(string \<times> lease) list \<Rightarrow> bool" where
  "leases_ok xs \<longleftrightarrow> (\<forall>x \<in> set xs. lease_ok (snd x)) \<and> distinct (map fst xs)"

definition row_leases :: "(string \<times> lease) list \<Rightarrow> (string \<times> lease) list" where
  "row_leases xs = filter (\<lambda>x. ls_Rows (snd x) > 0) xs"

lemma minimumColumns_spec:
  assumes "leases_ok xs"
  shows "minimumColumns xs = (if xs = [] then (0, False) else (Min (ls_Columns ` snd ` set xs), True))"
proof -
  have pos: "\<forall>x \<in> set xs. 0 < ls_Columns (snd x)" using assms by (auto simp: leases_ok_def lease_ok_def MinColumns_def)
  show ?thesis
  proof (cases "xs = []")
    case False
    have "Min ((\<lambda>x. ls_Columns (snd x)) ` set xs) \<noteq> 0" using min_image_pos [OF pos] False by fastforce
    then show ?thesis using min_fold [OF pos, of 0] False by (simp add: minimumColumns_def Let_def image_image)
  qed (simp add: minimumColumns_def)
qed

lemma minimumRows_spec:
  "minimumRows xs = (if row_leases xs = [] then 0 else Min (ls_Rows ` snd ` set (row_leases xs)))"
proof -
  have "foldl (\<lambda>m x. if ls_Rows (snd x) \<le> 0 then m else if m = 0 \<or> ls_Rows (snd x) < m then ls_Rows (snd x) else m) k xs
      = foldl (\<lambda>m x. if m = 0 \<or> ls_Rows (snd x) < m then ls_Rows (snd x) else m) k (row_leases xs)" for k
    by (induction xs arbitrary: k) (auto simp: row_leases_def)
  moreover have "\<forall>x \<in> set (row_leases xs). 0 < ls_Rows (snd x)" by (simp add: row_leases_def)
  ultimately show ?thesis using min_fold [of "row_leases xs" "\<lambda>x. ls_Rows (snd x)" 0] by (simp add: minimumRows_def image_image)
qed

lemma minimumRows_pos: "row_leases xs \<noteq> [] \<Longrightarrow> 0 < minimumRows xs"
  using min_image_pos [of "row_leases xs" "\<lambda>x. ls_Rows (snd x)"] by (simp add: minimumRows_spec image_image) (simp add: row_leases_def)

lemma minimumRows_nonneg: "0 \<le> minimumRows xs"
proof (cases "row_leases xs = []")
  case False
  then show ?thesis using minimumRows_pos [OF False] by simp
qed (simp add: minimumRows_spec)

lemma leases_ok_filter: "leases_ok xs \<Longrightarrow> leases_ok (filter P xs)"
  by (auto simp: leases_ok_def distinct_fst_filter)

lemma leases_ok_update: "leases_ok xs \<Longrightarrow> lease_ok l \<Longrightarrow> leases_ok (AList.update c l xs)"
proof -
  assume a: "leases_ok xs" "lease_ok l"
  with set_update_subset [of c l xs] show ?thesis by (auto simp: leases_ok_def distinct_update)
qed

lemma leases_ok_delete: "leases_ok xs \<Longrightarrow> leases_ok (AList.delete c xs)"
  unfolding AList.delete_eq by (rule leases_ok_filter)

section \<open>Terminals\<close>

definition terminal_set :: "string \<Rightarrow> terminal_size \<Rightarrow> set_call \<times> bool \<Rightarrow> terminal_size" where
  "terminal_set tty sz c =
     (if snd c \<and> sc_tty (fst c) = tty
      then sz\<lparr>tz_columns := sc_columns (fst c), tz_rows := (if sc_rows (fst c) > 0 then sc_rows (fst c) else tz_rows sz)\<rparr>
      else sz)"

definition terminal :: "(string \<Rightarrow> terminal_size) \<Rightarrow> (set_call \<times> bool) list \<Rightarrow> string \<Rightarrow> terminal_size" where
  "terminal init calls tty = foldl (terminal_set tty) (init tty) calls"

definition failed :: "(set_call \<times> bool) list \<Rightarrow> nat" where
  "failed calls = length (filter (\<lambda>c. \<not> snd c) calls)"

lemma terminal_snoc [simp]: "terminal init (calls @ [c]) tty = terminal_set tty (terminal init calls tty) c"
  by (simp add: terminal_def)

lemma failed_snoc [simp]: "failed (calls @ [c]) = failed calls + (if snd c then 0 else 1)"
  by (simp add: failed_def)

definition honest :: "(string \<Rightarrow> terminal_size) \<Rightarrow> (string \<Rightarrow> string) \<Rightarrow> size_env \<Rightarrow> size_manager \<Rightarrow> bool" where
  "honest init T E m \<longleftrightarrow>
     (\<forall>tty sz. readSize E (sm_goos m) tty = Inr sz \<longrightarrow> sz = terminal init (sm_calls m) tty)
   \<and> (\<forall>p st. resolvePane E (sm_goos m) p = Inr st \<longrightarrow> ps_tty st = T p)"

fun event_env :: "size_event \<Rightarrow> size_env" where
  "event_env (SAcquire E gone gone_later client p columns rows) = E"
| "event_env (SRelease E client p) = E"
| "event_env (SReleaseClient E client) = E"
| "event_env (SSweep E) = E"
| "event_env (SShutdown E) = E"

text \<open>The managers reachable from \<open>m0\<close> while every environment is honest.\<close>

inductive size_reach :: "(string \<Rightarrow> terminal_size) \<Rightarrow> (string \<Rightarrow> string) \<Rightarrow> size_manager \<Rightarrow> size_manager \<Rightarrow> bool"
  for init T m0 where
  start: "size_reach init T m0 m0"
| step: "size_reach init T m0 m \<Longrightarrow> honest init T (event_env e) m \<Longrightarrow> size_reach init T m0 (fst (size_step m e))"

section \<open>Invariant\<close>

definition pane_inv :: "(string \<Rightarrow> terminal_size) \<Rightarrow> (string \<Rightarrow> string) \<Rightarrow> (set_call \<times> bool) list \<Rightarrow> string \<Rightarrow> pane_size \<Rightarrow> bool" where
  "pane_inv init T calls p st \<longleftrightarrow> ps_tty st = T p
     \<and> terminal init calls (T p) = \<lparr>tz_rows = ps_appliedRows st, tz_columns = ps_appliedColumns st\<rparr>
     \<and> (init (T p) = \<lparr>tz_rows = ps_baselineRows st, tz_columns = ps_baselineColumns st\<rparr> \<or> maxRestoreFailures \<le> failed calls)
     \<and> 0 < ps_baselineRows st \<and> leases_ok (ps_leases st) \<and> ps_restoreFailures st \<le> failed calls"

text \<open>Everything but pane \<open>p\<close>.\<close>

definition others_ok :: "(string \<Rightarrow> terminal_size) \<Rightarrow> (string \<Rightarrow> string) \<Rightarrow> string \<Rightarrow> size_manager \<Rightarrow> bool" where
  "others_ok init T p m \<longleftrightarrow> distinct (map fst (sm_panes m)) \<and> sttyDeviceFlag (sm_goos m) \<noteq> Inl ErrUnsupportedOS
     \<and> (\<forall>q st. q \<noteq> p \<and> map_of (sm_panes m) q = Some st \<longrightarrow> pane_inv init T (sm_calls m) q st)
     \<and> (\<forall>q. q \<noteq> p \<and> map_of (sm_panes m) q = None \<longrightarrow>
           terminal init (sm_calls m) (T q) = init (T q) \<or> maxRestoreFailures \<le> failed (sm_calls m))"

definition size_inv :: "(string \<Rightarrow> terminal_size) \<Rightarrow> (string \<Rightarrow> string) \<Rightarrow> size_manager \<Rightarrow> bool" where
  "size_inv init T m \<longleftrightarrow> distinct (map fst (sm_panes m))
     \<and> (sm_panes m \<noteq> [] \<longrightarrow> sttyDeviceFlag (sm_goos m) \<noteq> Inl ErrUnsupportedOS)
     \<and> (\<forall>q st. map_of (sm_panes m) q = Some st \<longrightarrow> pane_inv init T (sm_calls m) q st)
     \<and> (\<forall>q. map_of (sm_panes m) q = None \<longrightarrow>
           terminal init (sm_calls m) (T q) = init (T q) \<or> maxRestoreFailures \<le> failed (sm_calls m))"

lemma size_inv_others:
  "size_inv init T m \<Longrightarrow> sttyDeviceFlag (sm_goos m) \<noteq> Inl ErrUnsupportedOS \<Longrightarrow> others_ok init T p m"
  by (simp add: size_inv_def others_ok_def)

lemma size_inv_pane:
  assumes "size_inv init T m" "map_of (sm_panes m) p = Some st"
  shows "pane_inv init T (sm_calls m) p st" "others_ok init T p m"
proof -
  have "sm_panes m \<noteq> []" using assms(2) by auto
  then show "pane_inv init T (sm_calls m) p st" "others_ok init T p m"
    using assms size_inv_others [OF assms(1), of p] by (simp_all add: size_inv_def)
qed

lemma set_pane_inv: "others_ok init T p m \<Longrightarrow> pane_inv init T (sm_calls m) p st \<Longrightarrow> size_inv init T (set_pane p st m)"
  by (simp add: others_ok_def size_inv_def set_pane_def update_conv distinct_update)

lemma del_pane_inv:
  assumes "others_ok init T p m" "terminal init (sm_calls m) (T p) = init (T p) \<or> maxRestoreFailures \<le> failed (sm_calls m)"
  shows "size_inv init T (del_pane p m)"
  using assms by (auto simp: others_ok_def size_inv_def del_pane_def delete_conv distinct_delete)

lemma set_pane_others [simp]: "others_ok init T p (set_pane p st m) = others_ok init T p m"
  if "distinct (map fst (sm_panes m))"
  using that by (auto simp: others_ok_def set_pane_def update_conv distinct_update)

text \<open>One \<^verbatim>\<open>stty\<close> call on the terminal of \<open>p\<close>.\<close>

lemma setSize_others:
  assumes "inj T" "others_ok init T p m" "setSize E (T p) columns rows m = (m', err)"
  shows "others_ok init T p m'" "sm_panes m' = sm_panes m" "sm_goos m' = sm_goos m"
    "err = None \<Longrightarrow> terminal init (sm_calls m') (T p) =
       (terminal init (sm_calls m) (T p))\<lparr>tz_columns := columns, tz_rows := (if rows > 0 then rows else tz_rows (terminal init (sm_calls m) (T p)))\<rparr>
       \<and> failed (sm_calls m') = failed (sm_calls m)"
    "err \<noteq> None \<Longrightarrow> terminal init (sm_calls m') (T p) = terminal init (sm_calls m) (T p) \<and> failed (sm_calls m') = failed (sm_calls m) + 1"
proof -
  obtain flag where flag: "sttyDeviceFlag (sm_goos m) = Inr flag"
    using assms(2) by (auto simp: others_ok_def sttyDeviceFlag_def split: if_splits)
  define ok where "ok = se_set E (length (sm_calls m))"
  define c where "c = (\<lparr>sc_tty = T p, sc_columns = columns, sc_rows = (if rows > 0 then rows else 0)\<rparr>, ok)"
  have m': "m' = m\<lparr>sm_calls := sm_calls m @ [c]\<rparr>" "err = (if ok then None else Some ErrResizeFailed)"
    using assms(3) flag by (auto simp: setSize_def Let_def ok_def c_def)
  have other: "terminal_set (T q) sz c = sz" if "q \<noteq> p" for q sz
    using that assms(1) by (auto simp: terminal_set_def c_def inj_eq)
  show "others_ok init T p m'"
    using assms(2) by (auto simp: others_ok_def m'(1) pane_inv_def other le_SucI)
  show "sm_panes m' = sm_panes m" "sm_goos m' = sm_goos m" by (simp_all add: m'(1))
  show "err = None \<Longrightarrow> terminal init (sm_calls m') (T p) =
       (terminal init (sm_calls m) (T p))\<lparr>tz_columns := columns, tz_rows := (if rows > 0 then rows else tz_rows (terminal init (sm_calls m) (T p)))\<rparr>
       \<and> failed (sm_calls m') = failed (sm_calls m)"
    "err \<noteq> None \<Longrightarrow> terminal init (sm_calls m') (T p) = terminal init (sm_calls m) (T p) \<and> failed (sm_calls m') = failed (sm_calls m) + 1"
    using m' by (auto simp: terminal_set_def c_def split: if_splits)
qed

lemma restore_inv:
  assumes "inj T" "others_ok init T p m" "pane_inv init T (sm_calls m) p st"
  shows "size_inv init T (fst (restore E p st m))"
proof -
  define rows where "rows = (if ps_appliedRows st = ps_baselineRows st then 0 else ps_baselineRows st)"
  obtain m1 err where s: "setSize E (T p) (ps_baselineColumns st) rows m = (m1, err)" by fastforce
  have tty: "ps_tty st = T p" using assms(3) by (simp add: pane_inv_def)
  note fx = setSize_others [OF assms(1,2) s]
  show ?thesis
  proof (cases err)
    case None
    then have "terminal init (sm_calls m1) (T p) = init (T p) \<or> maxRestoreFailures \<le> failed (sm_calls m1)"
      using fx(4) assms(3) by (auto simp: pane_inv_def rows_def)
    then show ?thesis using None s tty del_pane_inv [OF fx(1)] by (simp add: restore_def rows_def [symmetric] Let_def)
  next
    case (Some e)
    define st1 where "st1 = st\<lparr>ps_restoreFailures := ps_restoreFailures st + 1\<rparr>"
    have p1: "pane_inv init T (sm_calls m1) p st1" using fx(5) Some assms(3) by (auto simp: pane_inv_def st1_def)
    have "fst (restore E p st m) = (if ps_restoreFailures st1 \<ge> maxRestoreFailures then del_pane p m1 else set_pane p st1 m1)"
      using Some s tty by (simp add: restore_def rows_def [symmetric] st1_def)
    moreover have "size_inv init T (del_pane p m1)" if "ps_restoreFailures st1 \<ge> maxRestoreFailures"
      using that p1 by (intro del_pane_inv [OF fx(1)]) (auto simp: pane_inv_def)
    ultimately show ?thesis using set_pane_inv [OF fx(1) p1] by simp
  qed
qed

lemma target_rows_pos: "0 < ps_baselineRows st \<Longrightarrow> 0 < target_rows st"
  by (simp add: target_rows_def)

text \<open>Setting the size the leases ask for.\<close>

lemma apply_target_inv:
  assumes "inj T" "others_ok init T p m" "pane_inv init T (sm_calls m) p st" "setSize E (T p) target (stty_rows st) m = (m1, None)"
  shows "pane_inv init T (sm_calls m1) p (st\<lparr>ps_resizedAt := t, ps_appliedColumns := target, ps_appliedRows := target_rows st\<rparr>)"
  using setSize_others(4) [OF assms(1,2,4)] assms(3) target_rows_pos [of st] by (auto simp: pane_inv_def stty_rows_def)

lemma reconcile_inv:
  assumes "inj T" "others_ok init T p m" "pane_inv init T (sm_calls m) p st"
  shows "size_inv init T (fst (reconcile E p st m))"
proof -
  obtain target active where mc: "minimumColumns (ps_leases st) = (target, active)" by fastforce
  obtain m1 err where s: "setSize E (T p) target (stty_rows st) m = (m1, err)" by fastforce
  have tty: "ps_tty st = T p" using assms(3) by (simp add: pane_inv_def)
  note fx = setSize_others [OF assms(1,2) s]
  have "size_inv init T (set_pane p st m1)" if "err \<noteq> None"
    using fx(5) that assms(3) by (intro set_pane_inv [OF fx(1)]) (auto simp: pane_inv_def)
  moreover have "size_inv init T (set_pane p (st\<lparr>ps_resizedAt := t, ps_appliedColumns := target, ps_appliedRows := target_rows st\<rparr>) m1)"
    if "err = None" for t
    using that s by (intro set_pane_inv [OF fx(1)] apply_target_inv [OF assms]) simp
  moreover have "size_inv init T (set_pane p st m)" by (rule set_pane_inv [OF assms(2,3)])
  ultimately show ?thesis
    using restore_inv [OF assms, of E] mc s tty by (simp add: reconcile_def Let_def split: option.splits)
qed

lemma new_pane_inv:
  assumes "size_inv init T m" "honest init T E m" "map_of (sm_panes m) p = None" "resolvePane E (sm_goos m) p = Inr st"
  shows "pane_inv init T (sm_calls m) p st" "others_ok init T p m"
proof -
  obtain sz where sz: "readSize E (sm_goos m) (ps_tty st) = Inr sz"
      "ps_baselineRows st = tz_rows sz" "ps_baselineColumns st = tz_columns sz" "ps_appliedRows st = tz_rows sz"
      "ps_appliedColumns st = tz_columns sz" "ps_leases st = []" "ps_restoreFailures st = 0"
    using assms(4) by (auto simp: resolvePane_def split: sum.splits option.splits)
  have tty: "ps_tty st = T p" and tz: "terminal init (sm_calls m) (T p) = sz"
    using assms(2,4) sz(1) by (auto simp: honest_def)
  have flag: "0 < tz_rows sz" "sttyDeviceFlag (sm_goos m) \<noteq> Inl ErrUnsupportedOS"
    using sz(1) by (auto simp: readSize_def Let_def split: sum.splits option.splits if_splits)
  have "terminal init (sm_calls m) (T p) = init (T p) \<or> maxRestoreFailures \<le> failed (sm_calls m)"
    using assms(1,3) by (simp add: size_inv_def)
  then show "pane_inv init T (sm_calls m) p st" using tty tz flag(1) by (auto simp: pane_inv_def sz(2-) leases_ok_def)
  show "others_ok init T p m" by (rule size_inv_others [OF assms(1) flag(2)])
qed

lemma pane_inv_leases: "pane_inv init T calls p st \<Longrightarrow> leases_ok ls \<Longrightarrow> pane_inv init T calls p (st\<lparr>ps_leases := ls\<rparr>)"
  by (simp add: pane_inv_def)

lemma set_pane_calls [simp]: "sm_calls (set_pane p st m) = sm_calls m" "sm_goos (set_pane p st m) = sm_goos m"
  "sm_ttl (set_pane p st m) = sm_ttl m" "sm_closed (set_pane p st m) = sm_closed m"
  by (simp_all add: set_pane_def)

lemma acquire_state_inv:
  assumes "size_inv init T m" "honest init T E m" "acquire_state E p m = (m1, r)"
  shows "size_inv init T m1"
    and "r = Inr (st, current) \<Longrightarrow> pane_inv init T (sm_calls m1) p st \<and> others_ok init T p m1
      \<and> current = \<lparr>tz_rows = ps_appliedRows st, tz_columns = ps_appliedColumns st\<rparr>"
proof -
  have *: "size_inv init T m1 \<and> (r = Inr (st, current) \<longrightarrow> pane_inv init T (sm_calls m1) p st \<and> others_ok init T p m1
      \<and> current = \<lparr>tz_rows = ps_appliedRows st, tz_columns = ps_appliedColumns st\<rparr>)"
  proof (cases "map_of (sm_panes m) p")
    case None
    then show ?thesis
      using new_pane_inv [OF assms(1,2) None] assms(1,3) by (auto simp: acquire_state_def split: sum.splits)
  next
    case (Some st0)
    note old = size_inv_pane [OF assms(1) Some]
    define st' where "st' = fst (removeExpired st0 (se_now E))"
    have p': "pane_inv init T (sm_calls m) p st'"
      using pane_inv_leases [OF old(1) leases_ok_filter] old(1) by (simp add: st'_def removeExpired_def pane_inv_def)
    have d: "distinct (map fst (sm_panes m))" using old(2) by (simp add: others_ok_def)
    have cur: "cur = \<lparr>tz_rows = ps_appliedRows st', tz_columns = ps_appliedColumns st'\<rparr>" if "readSize E (sm_goos m) (ps_tty st') = Inr cur" for cur
      using that assms(2) p' by (auto simp: honest_def pane_inv_def)
    have "set_pane p st' (set_pane p st' m) = set_pane p st' m" by (simp add: set_pane_def update_Some_unfold)
    then show ?thesis
      using assms(3) Some cur set_pane_inv [OF old(2) p'] p' old(2) d
      by (auto simp: acquire_state_def st'_def [symmetric] Let_def split: sum.splits)
  qed
  then show "size_inv init T m1" "r = Inr (st, current) \<Longrightarrow> pane_inv init T (sm_calls m1) p st \<and> others_ok init T p m1
      \<and> current = \<lparr>tz_rows = ps_appliedRows st, tz_columns = ps_appliedColumns st\<rparr>" by simp_all
qed

lemma acquire_lease_inv:
  assumes "inj T" "others_ok init T p m" "pane_inv init T (sm_calls m) p st"
    and "current = \<lparr>tz_rows = ps_appliedRows st, tz_columns = ps_appliedColumns st\<rparr>"
    and "MinColumns \<le> columns" "columns \<le> MaxColumns" "rows = 0 \<or> MinRows \<le> rows \<and> rows \<le> MaxRows"
  shows "size_inv init T (fst (acquire_lease E client p columns rows st current m))"
proof -
  define l where "l = \<lparr>ls_Columns = columns, ls_Rows = rows, ls_ExpiresAt = se_now E + sm_ttl m\<rparr>"
  define st1 where "st1 = st\<lparr>ps_leases := AList.update client l (ps_leases st)\<rparr>"
  define target where "target = fst (minimumColumns (ps_leases st1))"
  have "leases_ok (AList.update client l (ps_leases st))"
    using assms(3,5-7) by (intro leases_ok_update) (auto simp: pane_inv_def lease_ok_def l_def)
  then have p1: "pane_inv init T (sm_calls m) p st1" unfolding st1_def by (rule pane_inv_leases [OF assms(3)])
  obtain m1 err where s: "setSize E (T p) target (stty_rows st1) m = (m1, err)" by fastforce
  have tty: "ps_tty st1 = T p" using p1 by (simp add: pane_inv_def)
  note fx = setSize_others [OF assms(1,2) s]
  have e: "size_inv init T (set_pane p st m1)" if "err \<noteq> None"
    using fx(5) that assms(3) by (intro set_pane_inv [OF fx(1)]) (auto simp: pane_inv_def)
  have ok: "size_inv init T (set_pane p (st1\<lparr>ps_resizedAt := t, ps_appliedColumns := target, ps_appliedRows := target_rows st1\<rparr>) m1)"
    if "err = None" for t
    using that s by (intro set_pane_inv [OF fx(1)] apply_target_inv [OF assms(1,2) p1]) simp
  have same: "size_inv init T (set_pane p (st1\<lparr>ps_appliedColumns := target, ps_appliedRows := target_rows st1\<rparr>) m)"
    if "target = tz_columns current" "\<not> (stty_rows st1 > 0 \<and> target_rows st1 \<noteq> tz_rows current)"
  proof (rule set_pane_inv [OF assms(2)])
    have f: "ps_appliedRows st1 = tz_rows current" "ps_appliedColumns st1 = tz_columns current" by (simp_all add: st1_def assms(4))
    have "0 < target_rows st1" using p1 by (intro target_rows_pos) (simp add: pane_inv_def)
    then have "target_rows st1 = tz_rows current" using that(2) f(1) unfolding stty_rows_def by (metis (full_types))
    with f show "pane_inv init T (sm_calls m) p (st1\<lparr>ps_appliedColumns := target, ps_appliedRows := target_rows st1\<rparr>)"
      using p1 that(1) by (simp add: pane_inv_def)
  qed
  show ?thesis
    unfolding acquire_lease_def Let_def l_def [symmetric] st1_def [symmetric] target_def [symmetric] tty s prod.case
    using e ok same by (simp only: fst_conv split: if_split option.split) blast
qed

lemma Acquire_inv:
  assumes "inj T" "size_inv init T m" "honest init T E m"
  shows "size_inv init T (fst (Acquire E gone gone_later client p columns rows m))"
proof -
  obtain m1 r where a: "acquire_state E p m = (m1, r)" by fastforce
  note fx = acquire_state_inv [OF assms(2,3) a]
  have "size_inv init T (fst (acquire_lease E client p columns rows st current m1))"
    if "r = Inr (st, current)" "MinColumns \<le> columns" "columns \<le> MaxColumns" "rows = 0 \<or> MinRows \<le> rows \<and> rows \<le> MaxRows" for st current
    using fx(2) [OF that(1)] that acquire_lease_inv [OF assms(1)] by blast
  then show ?thesis
    using assms(2) fx(1) a by (auto simp: Acquire_def split: sum.splits)
qed

lemma Release_inv:
  assumes "inj T" "size_inv init T m"
  shows "size_inv init T (fst (Release E client p m))"
proof -
  have "size_inv init T (set_pane p (st\<lparr>ps_leases := AList.update client l' (ps_leases st)\<rparr>) m)"
      "size_inv init T (fst (reconcile E p (st\<lparr>ps_leases := AList.delete client (AList.update client l' (ps_leases st))\<rparr>) m))"
      "size_inv init T (fst (reconcile E p (st\<lparr>ps_leases := AList.delete client (ps_leases st)\<rparr>) m))"
      "size_inv init T (set_pane p st m)"
    if "map_of (sm_panes m) p = Some st" "map_of (ps_leases st) client = Some l" "l' = l\<lparr>ls_ExpiresAt := t\<rparr>" for st l l' t
  proof -
    note old = size_inv_pane [OF assms(2) that(1)]
    have ok: "leases_ok (ps_leases st)" using old(1) by (simp add: pane_inv_def)
    then have "lease_ok l" using that(2) map_of_SomeD by (fastforce simp: leases_ok_def)
    then have u: "leases_ok (AList.update client l' (ps_leases st))" using that(3) ok by (intro leases_ok_update) (simp_all add: lease_ok_def)
    show "size_inv init T (set_pane p (st\<lparr>ps_leases := AList.update client l' (ps_leases st)\<rparr>) m)"
      by (rule set_pane_inv [OF old(2) pane_inv_leases [OF old(1) u]])
    show "size_inv init T (set_pane p st m)" by (rule set_pane_inv [OF old(2,1)])
    show "size_inv init T (fst (reconcile E p (st\<lparr>ps_leases := AList.delete client (AList.update client l' (ps_leases st))\<rparr>) m))"
        "size_inv init T (fst (reconcile E p (st\<lparr>ps_leases := AList.delete client (ps_leases st)\<rparr>) m))"
      by (rule reconcile_inv [OF assms(1) old(2) pane_inv_leases [OF old(1) leases_ok_delete [OF u]]],
          rule reconcile_inv [OF assms(1) old(2) pane_inv_leases [OF old(1) leases_ok_delete [OF ok]]])
  qed
  then show ?thesis using assms(2) by (simp add: Release_def Let_def split: option.splits)
qed

text \<open>A loop over the panes keeps what its body keeps.\<close>

lemma each_pane_inv:
  assumes "P m" "\<And>p st m. P m \<Longrightarrow> map_of (sm_panes m) p = Some st \<Longrightarrow> P (fst (body p st m))"
  shows "P (fst (each_pane body m))"
proof -
  let ?f = "\<lambda>(m, errs) p. case map_of (sm_panes m) p of None \<Rightarrow> (m, errs)
      | Some st \<Rightarrow> (case body p st m of (m1, None) \<Rightarrow> (m1, errs) | (m1, Some e) \<Rightarrow> (m1, errs @ [(p, e)]))"
  have "P (fst (foldl ?f (m, errs) ps))" if "P m" for m errs ps
    using that
  proof (induction ps arbitrary: m errs)
    case (Cons p ps)
    obtain m1 errs1 where f: "?f (m, errs) p = (m1, errs1)" by fastforce
    have "P m1" using f Cons.prems assms(2) [of m p] by (auto split: option.splits prod.splits)
    from Cons.IH [OF this, of errs1] show ?case by (simp only: foldl_Cons f)
  qed simp
  then show ?thesis using assms(1) by (simp add: each_pane_def)
qed

lemma bodies_inv:
  assumes "inj T" "size_inv init T m" "map_of (sm_panes m) p = Some st"
  shows "size_inv init T (fst (release_body E client p st m))" "size_inv init T (fst (sweep_body E p st m))"
    "size_inv init T (fst (restore E p (st\<lparr>ps_leases := []\<rparr>) m))"
proof -
  note old = size_inv_pane [OF assms(2,3)]
  have ok: "leases_ok (ps_leases st)" using old(1) by (simp add: pane_inv_def)
  note rec = reconcile_inv [OF assms(1) old(2) pane_inv_leases [OF old(1)]]
  show "size_inv init T (fst (release_body E client p st m))"
    using rec [OF leases_ok_delete [OF ok]] assms(2) by (simp add: release_body_def Let_def)
  show "size_inv init T (fst (sweep_body E p st m))"
    using rec [OF leases_ok_filter [OF ok]] assms(2) by (simp add: sweep_body_def removeExpired_def Let_def case_prod_beta)
  show "size_inv init T (fst (restore E p (st\<lparr>ps_leases := []\<rparr>) m))"
    by (rule restore_inv [OF assms(1) old(2) pane_inv_leases [OF old(1)]]) (simp add: leases_ok_def)
qed

lemma size_step_inv:
  assumes "inj T" "size_inv init T m" "honest init T (event_env e) m"
  shows "size_inv init T (fst (size_step m e))"
proof (cases e)
  case (SReleaseClient E client)
  have "size_inv init T (fst (each_pane (release_body E client) m))"
    using assms(2) by (rule each_pane_inv [where P = "size_inv init T"]) (rule bodies_inv(1) [OF assms(1)])
  then show ?thesis using SReleaseClient assms(2) by (simp add: ReleaseClient_def case_prod_beta)
next
  case (SSweep E)
  have "size_inv init T (fst (each_pane (sweep_body E) m))"
    using assms(2) by (rule each_pane_inv [where P = "size_inv init T"]) (rule bodies_inv(2) [OF assms(1)])
  then show ?thesis using SSweep assms(2) by (simp add: SweepExpired_def)
next
  case (SShutdown E)
  have "size_inv init T (m\<lparr>sm_closed := True\<rparr>)" using assms(2) by (simp add: size_inv_def)
  then have "size_inv init T (fst (Shutdown E m))"
    unfolding Shutdown_def by (rule each_pane_inv [where P = "size_inv init T"]) (rule bodies_inv(3) [OF assms(1)])
  then show ?thesis using SShutdown by simp
qed (use assms Acquire_inv [OF assms(1,2)] Release_inv [OF assms(1,2)] in simp_all)

lemma size_reach_inv:
  assumes "size_reach init T m0 m" "inj T" "size_inv init T m0"
  shows "size_inv init T m"
  using assms by (induction rule: size_reach.induct) (simp_all add: size_step_inv)

lemma newManager_inv: "size_inv init T (newManager goos ttl grace)"
  by (simp add: size_inv_def newManager_def terminal_def)

section \<open>Giving panes back\<close>

lemma each_pane_clears:
  assumes "\<And>p st m. map_of (sm_panes m) p = Some st \<Longrightarrow> (p, st) \<in> set (sm_panes m0) \<Longrightarrow> sm_goos m = sm_goos m0 \<Longrightarrow>
      \<exists>m1. body p st m = (del_pane p m1, None) \<and> sm_panes m1 = sm_panes m \<and> sm_goos m1 = sm_goos m0"
  shows "snd (each_pane body m0) = [] \<and> sm_panes (fst (each_pane body m0)) = []"
proof -
  let ?f = "\<lambda>(m, errs) p. case map_of (sm_panes m) p of None \<Rightarrow> (m, errs)
      | Some st \<Rightarrow> (case body p st m of (m1, None) \<Rightarrow> (m1, errs) | (m1, Some e) \<Rightarrow> (m1, errs @ [(p, e)]))"
  have "snd (foldl ?f (m, []) ps) = [] \<and> set (sm_panes (fst (foldl ?f (m, []) ps))) \<subseteq> {x \<in> set (sm_panes m). fst x \<notin> set ps}"
    if "set (sm_panes m) \<subseteq> set (sm_panes m0)" "sm_goos m = sm_goos m0" for m ps
    using that
  proof (induction ps arbitrary: m)
    case (Cons p ps)
    show ?case
    proof (cases "map_of (sm_panes m) p")
      case None
      then have "p \<notin> fst ` set (sm_panes m)" by (simp add: map_of_eq_None_iff)
      then have "{x \<in> set (sm_panes m). fst x \<notin> set ps} \<subseteq> {x \<in> set (sm_panes m). fst x \<notin> set (p # ps)}" by force
      then show ?thesis using Cons.IH [OF Cons.prems] None by auto
    next
      case (Some st)
      then obtain m1 where b: "body p st m = (del_pane p m1, None)" "sm_panes m1 = sm_panes m" "sm_goos m1 = sm_goos m0"
        using assms [OF Some] map_of_SomeD [OF Some] Cons.prems by blast
      have d: "set (sm_panes (del_pane p m1)) \<subseteq> {x \<in> set (sm_panes m). fst x \<noteq> p}" "sm_goos (del_pane p m1) = sm_goos m0"
        using b(2,3) by (auto simp: del_pane_def AList.delete_eq)
      then have "set (sm_panes (del_pane p m1)) \<subseteq> set (sm_panes m0)" using Cons.prems(1) by blast
      from Cons.IH [OF this d(2)] show ?thesis using Some b(1) d(1) by auto
    qed
  qed auto
  from this [of m0 "map fst (sm_panes m0)"]
  have "snd (each_pane body m0) = [] \<and> set (sm_panes (fst (each_pane body m0))) \<subseteq> {x \<in> set (sm_panes m0). fst x \<notin> fst ` set (sm_panes m0)}"
    by (simp add: each_pane_def)
  moreover have "{x \<in> set (sm_panes m0). fst x \<notin> fst ` set (sm_panes m0)} = {}" by blast
  ultimately show ?thesis by auto
qed

lemma restore_ok:
  assumes "\<forall>n. se_set E n" "sttyDeviceFlag (sm_goos m) = Inr flag"
  shows "\<exists>m1. restore E p st m = (del_pane p m1, None) \<and> sm_panes m1 = sm_panes m \<and> sm_goos m1 = sm_goos m"
proof -
  define rows where "rows = (if ps_appliedRows st = ps_baselineRows st then 0 else ps_baselineRows st)"
  obtain m1 where "setSize E (ps_tty st) (ps_baselineColumns st) rows m = (m1, None)" "sm_panes m1 = sm_panes m" "sm_goos m1 = sm_goos m"
    using assms by (simp add: setSize_def Let_def)
  then show ?thesis by (auto simp: restore_def rows_def [symmetric])
qed

section \<open>Properties\<close>


text \<open>Panes are given back: when \<^verbatim>\<open>stty\<close> works, a shutdown restores every pane, and one sweep after the last lease
  expired does too, with no error reported.\<close>

theorem panes_given_back:
  assumes "\<forall>n. se_set E n" "sttyDeviceFlag (sm_goos m) = Inr flag"
  shows "snd (Shutdown E m) = [] \<and> sm_panes (fst (Shutdown E m)) = []
    \<and> (\<not> sm_closed m \<and> (\<forall>x \<in> set (sm_panes m). \<forall>y \<in> set (ps_leases (snd x)). ls_ExpiresAt (snd y) \<le> se_now E) \<longrightarrow>
        snd (SweepExpired E m) = [] \<and> sm_panes (fst (SweepExpired E m)) = [])"
proof -
  have "snd (each_pane (\<lambda>p st. restore E p (st\<lparr>ps_leases := []\<rparr>)) (m\<lparr>sm_closed := True\<rparr>)) = []
      \<and> sm_panes (fst (each_pane (\<lambda>p st. restore E p (st\<lparr>ps_leases := []\<rparr>)) (m\<lparr>sm_closed := True\<rparr>))) = []"
  proof (rule each_pane_clears)
    fix p st and m1 :: size_manager
    assume "sm_goos m1 = sm_goos (m\<lparr>sm_closed := True\<rparr>)"
    then show "\<exists>m2. restore E p (st\<lparr>ps_leases := []\<rparr>) m1 = (del_pane p m2, None) \<and> sm_panes m2 = sm_panes m1
        \<and> sm_goos m2 = sm_goos (m\<lparr>sm_closed := True\<rparr>)"
      using restore_ok [OF assms(1), of m1 flag p] assms(2) by auto
  qed
  moreover have "snd (each_pane (sweep_body E) m) = [] \<and> sm_panes (fst (each_pane (sweep_body E) m)) = []"
    if "\<forall>x \<in> set (sm_panes m). \<forall>y \<in> set (ps_leases (snd x)). ls_ExpiresAt (snd y) \<le> se_now E"
  proof (rule each_pane_clears)
    fix p st and m1 :: size_manager
    assume a: "(p, st) \<in> set (sm_panes m)" "sm_goos m1 = sm_goos m"
    then have "\<forall>y \<in> set (ps_leases st). ls_ExpiresAt (snd y) \<le> se_now E" using that by force
    then have "filter (\<lambda>x. ls_ExpiresAt (snd x) > se_now E) (ps_leases st) = []" by (simp add: filter_empty_conv not_less)
    then have "fst (removeExpired st (se_now E)) = st\<lparr>ps_leases := []\<rparr>" by (simp add: removeExpired_def)
    then have "sweep_body E p st m1 = restore E p (st\<lparr>ps_leases := []\<rparr>) m1"
      by (simp add: sweep_body_def case_prod_beta Let_def reconcile_def minimumColumns_def)
    then show "\<exists>m2. sweep_body E p st m1 = (del_pane p m2, None) \<and> sm_panes m2 = sm_panes m1 \<and> sm_goos m2 = sm_goos m"
      using restore_ok [OF assms(1), of m1] assms(2) a(2) by simp
  qed
  ultimately show ?thesis by (simp add: Shutdown_def SweepExpired_def)
qed

text \<open>The pane after a successful acquisition.\<close>

lemma acquire_lease_result:
  assumes "acquire_lease E client p columns rows st current m = (m', Inr (c, r))"
  shows "\<exists>X. map_of (sm_panes m') p = Some X
    \<and> ps_leases X = AList.update client \<lparr>ls_Columns = columns, ls_Rows = rows, ls_ExpiresAt = se_now E + sm_ttl m\<rparr> (ps_leases st)
    \<and> c = fst (minimumColumns (ps_leases X)) \<and> r = target_rows X \<and> ps_appliedColumns X = c \<and> ps_appliedRows X = r
    \<and> sm_closed m' = sm_closed m"
proof -
  define l where "l = \<lparr>ls_Columns = columns, ls_Rows = rows, ls_ExpiresAt = se_now E + sm_ttl m\<rparr>"
  define st1 where "st1 = st\<lparr>ps_leases := AList.update client l (ps_leases st)\<rparr>"
  define target where "target = fst (minimumColumns (ps_leases st1))"
  obtain m1 err where s: "setSize E (ps_tty st1) target (stty_rows st1) m = (m1, err)" by fastforce
  have cl: "sm_closed m1 = sm_closed m" using s by (auto simp: setSize_def Let_def split: sum.splits)
  define X where "X = (\<lambda>t. st1\<lparr>ps_resizedAt := t, ps_appliedColumns := target, ps_appliedRows := target_rows st1\<rparr>)"
  have tr: "target_rows (X t) = target_rows st1" for t by (simp add: X_def target_rows_def)
  have xl: "ps_leases (X t) = AList.update client l (ps_leases st)" "ps_appliedColumns (X t) = target" "ps_appliedRows (X t) = target_rows st1" for t
    by (simp_all add: X_def st1_def)
  have "c = target \<and> r = target_rows st1 \<and> (\<exists>t. m' = set_pane p (X t) m \<or> m' = set_pane p (X t) m1)"
  proof -
    have "X (ps_resizedAt st1) = st1\<lparr>ps_appliedColumns := target, ps_appliedRows := target_rows st1\<rparr>" by (simp add: X_def)
    moreover have "X (se_now E) = st1\<lparr>ps_resizedAt := se_now E, ps_appliedColumns := target, ps_appliedRows := target_rows st1\<rparr>" by (simp add: X_def)
    ultimately show ?thesis
      using assms unfolding acquire_lease_def Let_def l_def [symmetric] st1_def [symmetric] target_def [symmetric] s prod.case
      by (cases err) (simp_all split: if_splits, metis+)
  qed
  then obtain t where t: "c = target" "r = target_rows st1" "m' = set_pane p (X t) m \<or> m' = set_pane p (X t) m1" by blast
  then have "map_of (sm_panes m') p = Some (X t)" "sm_closed m' = sm_closed m" using cl by (auto simp: set_pane_def update_conv)
  moreover have "target = fst (minimumColumns (ps_leases (X t)))" by (simp add: target_def xl(1)) (simp add: st1_def)
  ultimately show ?thesis using t(1,2) tr xl l_def by metis
qed

lemma acquire_state_live:
  assumes "acquire_state E p m = (m1, Inr (st, current))"
  shows "\<forall>x \<in> set (ps_leases st). ls_ExpiresAt (snd x) > se_now E" "sm_closed m1 = sm_closed m" "sm_ttl m1 = sm_ttl m"
  using assms
  by (auto simp: acquire_state_def resolvePane_def removeExpired_def Let_def split: option.splits sum.splits if_splits)

lemma Min_update:
  assumes "leases_ok (AList.update c l xs)"
  shows "Min (ls_Columns ` snd ` set (AList.update c l xs)) \<le> ls_Columns l" "AList.update c l xs \<noteq> []"
    "ls_Rows l > 0 \<Longrightarrow> 0 < minimumRows (AList.update c l xs) \<and> minimumRows (AList.update c l xs) \<le> ls_Rows l"
proof -
  have "map_of (AList.update c l xs) c = Some l" by (simp add: update_conv)
  then have m: "(c, l) \<in> set (AList.update c l xs)" by (rule map_of_SomeD)
  show "Min (ls_Columns ` snd ` set (AList.update c l xs)) \<le> ls_Columns l" using m by (intro Min_le) (auto simp: image_iff intro: bexI [of _ "(c, l)"])
  show "AList.update c l xs \<noteq> []" using m by auto
  assume "ls_Rows l > 0"
  then have r: "(c, l) \<in> set (row_leases (AList.update c l xs))" using m by (simp add: row_leases_def)
  then have ne: "row_leases (AList.update c l xs) \<noteq> []" by auto
  have "Min (ls_Rows ` snd ` set (row_leases (AList.update c l xs))) \<le> ls_Rows l"
    using r by (intro Min_le) (auto simp: image_iff intro: bexI [of _ "(c, l)"])
  then show "0 < minimumRows (AList.update c l xs) \<and> minimumRows (AList.update c l xs) \<le> ls_Rows l"
    using minimumRows_pos [OF ne] ne by (simp add: minimumRows_spec)
qed

text \<open>What a granted lease promises, in every reachable state: the size returned is exactly the size the
  terminal now has and the size the readers report, it is the minimum over the leases still alive, so at most what
  this client asked for in either dimension, and never narrower than 40 columns.\<close>

theorem lease_grants_minimum:
  assumes "size_reach init T (newManager goos ttl grace) m" "inj T" "honest init T E m" "0 < sm_ttl m"
    and "Acquire E gone gone_later client p columns rows m = (m', Inr (c, r))"
  shows "terminal init (sm_calls m') (T p) = \<lparr>tz_rows = r, tz_columns = c\<rparr>
    \<and> ActiveColumns m' (se_now E) p = (c, True) \<and> ActiveRows m' (se_now E) p = (r, True)
    \<and> MinColumns \<le> c \<and> c \<le> columns \<and> (rows \<noteq> 0 \<longrightarrow> r \<le> rows)"
proof -
  have valid: "MinColumns \<le> columns" "columns \<le> MaxColumns" "rows = 0 \<or> MinRows \<le> rows \<and> rows \<le> MaxRows" "\<not> sm_closed m"
    using assms(5) by (auto simp: Acquire_def split: if_splits)
  obtain m1 st current where a: "acquire_state E p m = (m1, Inr (st, current))" "acquire_lease E client p columns rows st current m1 = (m', Inr (c, r))"
    using assms(5) by (auto simp: Acquire_def split: if_splits prod.splits sum.splits)
  note live = acquire_state_live [OF a(1)]
  define l where "l = \<lparr>ls_Columns = columns, ls_Rows = rows, ls_ExpiresAt = se_now E + sm_ttl m1\<rparr>"
  obtain X where X: "map_of (sm_panes m') p = Some X" "ps_leases X = AList.update client l (ps_leases st)"
      "c = fst (minimumColumns (ps_leases X))" "r = target_rows X" "ps_appliedColumns X = c" "ps_appliedRows X = r" "\<not> sm_closed m'"
    using acquire_lease_result [OF a(2)] live(2) valid(4) unfolding l_def by auto
  have "size_inv init T m'"
    using Acquire_inv [OF assms(2) size_reach_inv [OF assms(1,2) newManager_inv] assms(3)] assms(5) by (metis fst_conv)
  then have px: "pane_inv init T (sm_calls m') p X" using X(1) by (simp add: size_inv_def)
  then have ok: "leases_ok (ps_leases X)" by (simp add: pane_inv_def)
  have "set (ps_leases X) \<subseteq> insert (client, l) (set (ps_leases st))" unfolding X(2) by (rule set_update_subset)
  then have "\<forall>x \<in> set (ps_leases X). ls_ExpiresAt (snd x) > se_now E" using live assms(4) by (auto simp: l_def)
  then have lv: "live_leases X (se_now E) = ps_leases X" by (simp add: live_leases_def)
  note mu = Min_update [OF ok [unfolded X(2)], folded X(2)]
  have mc: "minimumColumns (ps_leases X) = (c, True)" and cm: "c = Min (ls_Columns ` snd ` set (ps_leases X))"
    using minimumColumns_spec [OF ok] mu(2) X(3) by simp_all
  have "MinColumns \<le> c" unfolding cm using ok mu(2) by (subst Min_ge_iff) (auto simp: leases_ok_def lease_ok_def)
  moreover have "c \<le> columns" using mu(1) by (simp add: cm l_def)
  moreover have "rows \<noteq> 0 \<longrightarrow> r \<le> rows" using mu(3) valid(3) by (auto simp: X(4) target_rows_def l_def MinRows_def)
  moreover have "ActiveRows m' (se_now E) p = (r, True)"
    using X(1,4,7) lv mu(2) minimumRows_nonneg [of "ps_leases X"] by (auto simp: ActiveRows_def target_rows_def)
  moreover have "ActiveColumns m' (se_now E) p = (c, True)" using X(1,7) lv mc by (simp add: ActiveColumns_def)
  ultimately show ?thesis using px X(5,6) by (simp add: pane_inv_def)
qed

text \<open>Minima depend on the sizes leased only, so replacing a lease by one of the same size changes nothing.\<close>

lemma update_same_size:
  assumes "map_of xs c = Some l" "f l' = f l" "distinct (map fst xs)"
  shows "map (\<lambda>x. f (snd x)) (AList.update c l' xs) = map (\<lambda>x. f (snd x)) xs"
  using assms
proof (induction xs)
  case (Cons x xs)
  then show ?case by (cases "fst x = c") auto
qed simp

lemma minima_map:
  "minimumColumns xs = (let m = foldl (\<lambda>m k. if m = 0 \<or> k < m then k else m) 0 (map (\<lambda>x. ls_Columns (snd x)) xs) in (m, m \<noteq> 0))"
  "minimumRows xs = foldl (\<lambda>m k. if k \<le> 0 then m else if m = 0 \<or> k < m then k else m) 0 (map (\<lambda>x. ls_Rows (snd x)) xs)"
  by (simp_all add: minimumColumns_def minimumRows_def foldl_map)

lemma minima_update:
  assumes "map_of xs c = Some l" "distinct (map fst xs)" "ls_Columns l' = ls_Columns l" "ls_Rows l' = ls_Rows l"
  shows "minimumColumns (AList.update c l' xs) = minimumColumns xs" "minimumRows (AList.update c l' xs) = minimumRows xs"
  using update_same_size [OF assms(1) assms(3) assms(2)] update_same_size [OF assms(1) assms(4) assms(2)] by (simp_all add: minima_map)

text \<open>A pane whose terminal has the size its leases ask for.\<close>

definition settled :: "pane_size \<Rightarrow> bool" where
  "settled st \<longleftrightarrow> minimumColumns (ps_leases st) = (ps_appliedColumns st, True) \<and> ps_appliedRows st = target_rows st"

text \<open>Coming back to a settled pane: nothing is resized.\<close>

lemma reacquire_no_call:
  assumes "map_of (sm_panes m) p = Some st" "settled st" "distinct (map fst (ps_leases st))" "map_of (ps_leases st) client = Some l"
    and "\<forall>x \<in> set (ps_leases st). ls_ExpiresAt (snd x) > se_now E"
    and "readSize E (sm_goos m) (ps_tty st) = Inr \<lparr>tz_rows = ps_appliedRows st, tz_columns = ps_appliedColumns st\<rparr>"
    and "\<not> sm_closed m" "client \<noteq> []" "p \<noteq> []" "lease_ok l"
  shows "\<exists>m'. Acquire E False False client p (ls_Columns l) (ls_Rows l) m = (m', Inr (ps_appliedColumns st, ps_appliedRows st))
    \<and> sm_calls m' = sm_calls m"
proof -
  have live: "fst (removeExpired st (se_now E)) = st" using assms(5) by (simp add: removeExpired_def)
  have state: "acquire_state E p m = (set_pane p st (set_pane p st m), Inr (st, \<lparr>tz_rows = ps_appliedRows st, tz_columns = ps_appliedColumns st\<rparr>))"
    using assms(1,6) live by (simp add: acquire_state_def Let_def)
  let ?m = "set_pane p st (set_pane p st m)"
  define l' where "l' = \<lparr>ls_Columns = ls_Columns l, ls_Rows = ls_Rows l, ls_ExpiresAt = se_now E + sm_ttl ?m\<rparr>"
  define st1 where "st1 = st\<lparr>ps_leases := AList.update client l' (ps_leases st)\<rparr>"
  have mi: "minimumColumns (ps_leases st1) = minimumColumns (ps_leases st)" "minimumRows (ps_leases st1) = minimumRows (ps_leases st)"
    using minima_update [OF assms(4,3), of l'] by (simp_all add: st1_def l'_def)
  have "fst (minimumColumns (ps_leases st1)) = ps_appliedColumns st" using mi(1) assms(2) by (simp add: settled_def)
  moreover have "target_rows st1 = ps_appliedRows st"
    using assms(2) mi(2) by (simp add: settled_def target_rows_def) (simp add: st1_def)
  ultimately have "acquire_lease E client p (ls_Columns l) (ls_Rows l) st \<lparr>tz_rows = ps_appliedRows st, tz_columns = ps_appliedColumns st\<rparr> ?m
      = (set_pane p (st1\<lparr>ps_appliedColumns := ps_appliedColumns st, ps_appliedRows := ps_appliedRows st\<rparr>) ?m, Inr (ps_appliedColumns st, ps_appliedRows st))"
    unfolding acquire_lease_def Let_def l'_def [symmetric] st1_def [symmetric] by simp
  then show ?thesis using assms(7-10) state by (auto simp: Acquire_def lease_ok_def)
qed

text \<open>Stepping out of a terminal and back does not resize it. When a client with a live lease on a settled pane
  releases it, no \<^verbatim>\<open>stty\<close> call is made; while the release grace lasts and the other leases are alive no sweep touches the
  pane; and when the client asks for the same size again it gets it, still without a call.\<close>

theorem release_grace_no_resize:
  assumes "map_of (sm_panes m) p = Some st" "settled st" "leases_ok (ps_leases st)" "map_of (ps_leases st) client = Some l"
    and "\<not> sm_closed m" "client \<noteq> []" "p \<noteq> []" "0 < sm_grace m" "se_now E1 < ls_ExpiresAt l"
    and "Release E1 client p m = (m1, err)"
  shows "err = None \<and> sm_calls m1 = sm_calls m \<and> (\<exists>st1. map_of (sm_panes m1) p = Some st1 \<and>
    (\<forall>E. se_now E < ls_ExpiresAt l \<and> se_now E < se_now E1 + sm_grace m
        \<and> (\<forall>x \<in> set (ps_leases st). fst x \<noteq> client \<longrightarrow> se_now E < ls_ExpiresAt (snd x)) \<longrightarrow>
      sweep_body E p st1 m1 = (m1, None) \<and>
      (readSize E (sm_goos m) (ps_tty st) = Inr \<lparr>tz_rows = ps_appliedRows st, tz_columns = ps_appliedColumns st\<rparr> \<longrightarrow>
        (\<exists>m2. Acquire E False False client p (ls_Columns l) (ls_Rows l) m1 = (m2, Inr (ps_appliedColumns st, ps_appliedRows st))
          \<and> sm_calls m2 = sm_calls m))))"
proof -
  define l1 where "l1 = (if ls_ExpiresAt l > se_now E1 + sm_grace m then l\<lparr>ls_ExpiresAt := se_now E1 + sm_grace m\<rparr> else l)"
  define st1 where "st1 = (if ls_ExpiresAt l > se_now E1 + sm_grace m then st\<lparr>ps_leases := AList.update client l1 (ps_leases st)\<rparr> else st)"
  have r: "m1 = set_pane p st1 m" "err = None"
    using assms(1,4-10) by (auto simp: Release_def Let_def l1_def st1_def split: if_splits)
  have d: "distinct (map fst (ps_leases st))" using assms(3) by (simp add: leases_ok_def)
  have l1: "ls_Columns l1 = ls_Columns l" "ls_Rows l1 = ls_Rows l" by (simp_all add: l1_def)
  have f: "ps_appliedColumns st1 = ps_appliedColumns st" "ps_appliedRows st1 = ps_appliedRows st" "ps_baselineRows st1 = ps_baselineRows st"
      "ps_tty st1 = ps_tty st" "minimumColumns (ps_leases st1) = minimumColumns (ps_leases st)" "minimumRows (ps_leases st1) = minimumRows (ps_leases st)"
      "distinct (map fst (ps_leases st1))"
    using minima_update [OF assms(4) d l1] d by (simp_all add: st1_def distinct_update)
  have m1: "map_of (ps_leases st1) client = Some l1"
    using assms(4) by (cases "ls_ExpiresAt l > se_now E1 + sm_grace m") (simp_all add: st1_def l1_def update_conv)
  have s1: "settled st1" using assms(2) f by (simp add: settled_def target_rows_def)
  have "lease_ok l" using assms(3,4) map_of_SomeD by (fastforce simp: leases_ok_def)
  then have ok1: "lease_ok l1" by (simp add: lease_ok_def l1)
  have sub: "set (ps_leases st1) \<subseteq> {x \<in> set (ps_leases st). fst x \<noteq> client} \<union> {(client, l1)}"
  proof
    fix x assume x: "x \<in> set (ps_leases st1)"
    show "x \<in> {x \<in> set (ps_leases st). fst x \<noteq> client} \<union> {(client, l1)}"
    proof (cases "fst x = client")
      case True
      then have "map_of (ps_leases st1) client = Some (snd x)" using x f(7) map_of_is_SomeI [of "ps_leases st1" client "snd x"] by (cases x) simp
      then show ?thesis using True m1 by (cases x) simp
    next
      case False
      then show ?thesis using x set_update_subset [of client l1 "ps_leases st"] by (auto simp: st1_def split: if_splits)
    qed
  qed
  show ?thesis
  proof (intro conjI exI [of _ st1] allI impI)
    show "err = None" "sm_calls m1 = sm_calls m" "map_of (sm_panes m1) p = Some st1" using r by (simp_all add: set_pane_def update_conv)
    fix E :: size_env
    assume t: "se_now E < ls_ExpiresAt l \<and> se_now E < se_now E1 + sm_grace m
        \<and> (\<forall>x \<in> set (ps_leases st). fst x \<noteq> client \<longrightarrow> se_now E < ls_ExpiresAt (snd x))"
    then have live: "\<forall>x \<in> set (ps_leases st1). ls_ExpiresAt (snd x) > se_now E" using sub by (auto simp: l1_def)
    then have rm: "removeExpired st1 (se_now E) = (st1, False)" by (auto simp: removeExpired_def list_ex_iff)
    show "sweep_body E p st1 m1 = (m1, None)"
      using s1 minimumRows_nonneg [of "ps_leases st1"] by (auto simp: sweep_body_def rm settled_def target_rows_def)
    assume "readSize E (sm_goos m) (ps_tty st) = Inr \<lparr>tz_rows = ps_appliedRows st, tz_columns = ps_appliedColumns st\<rparr>"
    then show "\<exists>m2. Acquire E False False client p (ls_Columns l) (ls_Rows l) m1 = (m2, Inr (ps_appliedColumns st, ps_appliedRows st))
        \<and> sm_calls m2 = sm_calls m"
      using reacquire_no_call [of m1 p st1 client l1 E] s1 f m1 live ok1 l1 assms(5-7) r by (simp add: set_pane_def update_conv)
  qed
qed

section \<open>Witnesses\<close>

definition sample_world :: size_env where
  "sample_world = \<lparr>se_now = 5, se_tick = (\<lambda>_. 6),
     se_info = (\<lambda>p. if p = ''p1'' then Some \<lparr>pi_PaneID = ''p1'', pi_ForegroundProcessGroupID = 7, pi_ForegroundProcesses = [7]\<rparr> else None),
     se_ps = (\<lambda>_. Some ''pts/3''), se_stty = (\<lambda>_. Some ''24 80''), se_set = (\<lambda>_. True)\<rparr>"

definition quiet_world :: size_env where
  "quiet_world = \<lparr>se_now = 7, se_tick = (\<lambda>_. 8), se_info = (\<lambda>_. None), se_ps = (\<lambda>_. None), se_stty = (\<lambda>_. None), se_set = (\<lambda>_. True)\<rparr>"

definition sample_terminals :: "string \<Rightarrow> terminal_size" where
  "sample_terminals tty = \<lparr>tz_rows = 24, tz_columns = 80\<rparr>"

definition sample_ttys :: "string \<Rightarrow> string" where
  "sample_ttys p = (if p = ''p1'' then ''/dev/pts/3'' else CHR ''x'' # p)"

definition sample_pane_size :: pane_size where
  "sample_pane_size = \<lparr>ps_tty = ''/dev/pts/3'', ps_baselineRows = 24, ps_baselineColumns = 80, ps_appliedRows = 24, ps_appliedColumns = 80,
     ps_resizedAt = 0, ps_leases = [], ps_restoreFailures = 0\<rparr>"

definition sample_leased :: size_manager where
  "sample_leased = (NewManager ''linux'')
     \<lparr>sm_panes := [(''p1'', sample_pane_size\<lparr>ps_leases := [(''phone'', \<lparr>ls_Columns = 60, ls_Rows = 0, ls_ExpiresAt = 5 + LeaseTTL\<rparr>)],
        ps_resizedAt := 5, ps_appliedColumns := 60\<rparr>)],
      sm_calls := [(\<lparr>sc_tty = ''/dev/pts/3'', sc_columns = 60, sc_rows = 0\<rparr>, True)]\<rparr>"

lemma sample_parse: "Fields ''24 80'' = [''24'', ''80'']" "Atoi ''24'' = Some 24" "Atoi ''80'' = Some 80" "ttyPath ''pts/3'' = Inr ''/dev/pts/3''"
proof -
  show "Fields ''24 80'' = [''24'', ''80'']" by (simp add: Fields_def fields_from.simps is_space_def byte_val_def)
  show "Atoi ''24'' = Some 24" "Atoi ''80'' = Some 80" by (simp_all add: Atoi_def digits_val_def is_digit_def byte_val_def)
  have "Fields ''pts/3'' = [''pts/3'']" by (simp add: Fields_def fields_from.simps is_space_def byte_val_def)
  then show "ttyPath ''pts/3'' = Inr ''/dev/pts/3''"
    by (simp add: ttyPath_def trim_prefix_def has_prefix_def is_abs_def path_clean_def path_join_def clean_step_def)
qed

lemma sample_read: "readSize sample_world ''linux'' tty = Inr \<lparr>tz_rows = 24, tz_columns = 80\<rparr>"
  using sample_parse by (simp add: readSize_def sttyDeviceFlag_def sample_world_def)

lemma sample_resolve: "resolvePane sample_world ''linux'' p = (if p = ''p1'' then Inr sample_pane_size else Inl ErrProcessUnavailable)"
  using sample_parse(4) sample_read [of "''/dev/pts/3''"]
  by (simp add: resolvePane_def foregroundPID_def sample_pane_size_def) (simp add: sample_world_def)

lemma sample_ttys_inj: "inj sample_ttys"
  by (auto simp: inj_def sample_ttys_def)

lemma sample_honest:
  "honest sample_terminals sample_ttys sample_world (NewManager ''linux'')" "honest sample_terminals sample_ttys quiet_world m"
proof -
  show "honest sample_terminals sample_ttys sample_world (NewManager ''linux'')"
    by (auto simp: honest_def sample_read sample_resolve NewManager_def newManager_def terminal_def sample_terminals_def sample_pane_size_def
        sample_ttys_def split: if_splits)
  show "honest sample_terminals sample_ttys quiet_world m"
    by (auto simp: honest_def quiet_world_def readSize_def resolvePane_def foregroundPID_def split: sum.splits)
qed

lemma sample_acquire: "Acquire sample_world False False ''phone'' ''p1'' 60 0 (NewManager ''linux'') = (sample_leased, Inr (60, 24))"
proof -
  have st: "acquire_state sample_world ''p1'' (NewManager ''linux'') =
      (NewManager ''linux'', Inr (sample_pane_size, \<lparr>tz_rows = 24, tz_columns = 80\<rparr>))"
    using sample_resolve [of "''p1''"] by (simp add: acquire_state_def NewManager_def newManager_def) (simp add: sample_pane_size_def)
  have "acquire_lease sample_world ''phone'' ''p1'' 60 0 sample_pane_size \<lparr>tz_rows = 24, tz_columns = 80\<rparr> (NewManager ''linux'')
      = (sample_leased, Inr (60, 24))"
    by (simp add: acquire_lease_def sample_pane_size_def minimumColumns_def minimumRows_def target_rows_def stty_rows_def setSize_def
        sttyDeviceFlag_def NewManager_def newManager_def sample_world_def Let_def sample_leased_def set_pane_def)
  moreover have "\<not> sm_closed (NewManager ''linux'')" by (simp add: NewManager_def newManager_def)
  ultimately show ?thesis using st by (simp add: Acquire_def MinColumns_def MaxColumns_def)
qed

lemma sample_reached: "size_reach sample_terminals sample_ttys (NewManager ''linux'') (NewManager ''linux'')"
    "size_reach sample_terminals sample_ttys (NewManager ''linux'') sample_leased"
    "size_reach sample_terminals sample_ttys (NewManager ''linux'') (fst (Shutdown quiet_world sample_leased))"
proof -
  show 0: "size_reach sample_terminals sample_ttys (NewManager ''linux'') (NewManager ''linux'')" by (rule size_reach.start)
  show 1: "size_reach sample_terminals sample_ttys (NewManager ''linux'') sample_leased"
    using size_reach.step [OF 0, of "SAcquire sample_world False False ''phone'' ''p1'' 60 0"] sample_honest(1) sample_acquire by simp
  show "size_reach sample_terminals sample_ttys (NewManager ''linux'') (fst (Shutdown quiet_world sample_leased))"
    using size_reach.step [OF 1, of "SShutdown quiet_world"] sample_honest(2) by simp
qed

lemma sample_fields:
  "sm_goos sample_leased = ''linux''" "sm_closed sample_leased = False" "sm_grace sample_leased = ReleaseGrace"
  "sm_goos (NewManager ''linux'') = ''linux''" "sm_ttl (NewManager ''linux'') = LeaseTTL"
  by (simp_all add: sample_leased_def NewManager_def newManager_def)

theorem panes_given_back_witness:
  "sm_panes sample_leased \<noteq> [] \<and> snd (Shutdown quiet_world sample_leased) = [] \<and> sm_panes (fst (Shutdown quiet_world sample_leased)) = []"
  using panes_given_back [of quiet_world sample_leased "''-F''"]
  by (simp add: sample_fields sttyDeviceFlag_def quiet_world_def) (simp add: sample_leased_def)

lemma sample_shutdown: "failed (sm_calls (fst (Shutdown quiet_world sample_leased))) = 0"
    "map_of (sm_panes (fst (Shutdown quiet_world sample_leased))) ''p1'' = None"
  by (simp_all add: Shutdown_def each_pane_def sample_leased_def NewManager_def newManager_def restore_def setSize_def sttyDeviceFlag_def
      quiet_world_def sample_pane_size_def del_pane_def failed_def Let_def)


theorem lease_grants_minimum_witness:
  "terminal sample_terminals (sm_calls sample_leased) ''/dev/pts/3'' = \<lparr>tz_rows = 24, tz_columns = 60\<rparr>
    \<and> ActiveColumns sample_leased 5 ''p1'' = (60, True) \<and> ActiveRows sample_leased 5 ''p1'' = (24, True)"
proof -
  have "se_now sample_world = 5" by (simp add: sample_world_def)
  then show ?thesis
    using lease_grants_minimum [OF sample_reached(1) [unfolded NewManager_def] sample_ttys_inj sample_honest(1) [unfolded NewManager_def] _
        sample_acquire [unfolded NewManager_def]]
    by (simp add: sample_ttys_def newManager_def LeaseTTL_def second_def)
qed

definition sample_lease :: lease where
  "sample_lease = \<lparr>ls_Columns = 60, ls_Rows = 0, ls_ExpiresAt = 5 + LeaseTTL\<rparr>"

theorem release_grace_no_resize_witness:
  "snd (Release quiet_world ''phone'' ''p1'' sample_leased) = None
    \<and> sm_calls (fst (Release quiet_world ''phone'' ''p1'' sample_leased)) = sm_calls sample_leased"
proof -
  let ?st = "sample_pane_size\<lparr>ps_leases := [(''phone'', sample_lease)], ps_resizedAt := 5, ps_appliedColumns := 60\<rparr>"
  obtain m1 err where r: "Release quiet_world ''phone'' ''p1'' sample_leased = (m1, err)" by fastforce
  have "map_of (sm_panes sample_leased) ''p1'' = Some ?st" by (simp add: sample_leased_def sample_lease_def)
  moreover have "settled ?st" by (simp add: settled_def minimumColumns_def minimumRows_def target_rows_def sample_pane_size_def sample_lease_def)
  moreover have "leases_ok (ps_leases ?st)" by (simp add: leases_ok_def lease_ok_def sample_lease_def MinColumns_def MaxColumns_def)
  moreover have "map_of (ps_leases ?st) ''phone'' = Some sample_lease" "0 < sm_grace sample_leased" "\<not> sm_closed sample_leased"
      "se_now quiet_world < ls_ExpiresAt sample_lease"
    by (simp_all add: sample_fields ReleaseGrace_def second_def quiet_world_def sample_lease_def LeaseTTL_def)
  ultimately show ?thesis
    using release_grace_no_resize [OF _ _ _ _ _ _ _ _ _ r, of ?st sample_lease] r by (simp del: map_of_eq_Some_iff)
qed

end
