(* ===== verification/Gateway_Client.thy ===== *)
theory Gateway_Client
  imports Gateway_Wire Go_Text
begin

text \<open>
  The relay's registration with a gateway, first part of \<^verbatim>\<open>internal/transport/gateway.go\<close>: the candidate list, choosing
  and changing the entry, the hello exchange, status and the reconnect loop.

  \<^item> \<open>gateway_client\<close> is the part of \<open>GatewayClient\<close> guarded by its mutex together with its configuration. \<open>gc_conns\<close> maps a
    connection id to the number of the connection object in the store of \<open>Gateway_Link\<close>.
  \<^item> \<open>net/url\<close> and JSON are functions of the environment; the probes that answered in time are the list
    \<open>selectGateway\<close> reads from its channel, in the order of arrival.
  \<^item> \<open>run_round\<close> is one turn of \<open>Run\<close> around a session that is an argument.
\<close>

section \<open>Configuration\<close>

definition GatewaySelectionOrdered :: string where "GatewaySelectionOrdered = ''ordered''"
definition GatewaySelectionLatency :: string where "GatewaySelectionLatency = ''latency''"
definition gatewayHealthFailureLimit :: nat where "gatewayHealthFailureLimit = 2"
definition gatewayProbeTieWindow :: duration where "gatewayProbeTieWindow = 20 * millisecond"
definition gatewayWriteQueue :: nat where "gatewayWriteQueue = 64"
definition gatewayConnQueue :: nat where "gatewayConnQueue = 32"
definition gatewayDefaultMaxClients :: int where "gatewayDefaultMaxClients = 8"
definition gatewayHealthInterval :: duration where "gatewayHealthInterval = 15 * second"
definition gatewayBackoffBase :: duration where "gatewayBackoffBase = second"
definition gatewayBackoffMax :: duration where "gatewayBackoffMax = 60 * second"
definition TypeServerHello :: string where "TypeServerHello = ''gateway_hello''"
definition TypeReady :: string where "TypeReady = ''ready''"
definition TypeError :: string where "TypeError = ''error''"

datatype link_error =
    NoHub | URLRequired | URLNotFirst string string | InvalidURL string | RelayKeyRequired | DeriveFailed
  | DialFailed | HelloReadFailed | HelloNotText | HelloMalformed | HelloUnexpected string | UnsupportedProto int
  | RegisterWriteFailed | ReplyReadFailed | ReplyNotText | ReplyMalformed | ReplyUnexpected string | Rejected string string
  | ReadFailed | NotBinary | FrameMalformed wire_error | PongFailed | WriteFailed | HealthFailed nat
  | FrameConnClosed | WriteQueueFull | FrameTooLong nat

record link_options =
  go_URL :: string
  go_URLs :: "string list"
  go_Selection :: string
  go_RelayKey :: string
  go_MaxClients :: int

record gateway_client =
  gc_urls :: "string list"
  gc_selection :: string
  gc_relayID :: string
  gc_rendezvousKey :: bytes
  gc_maxClients :: int
  gc_backoffBase :: duration
  gc_backoffMax :: duration
  gc_healthInterval :: duration
  gc_active :: nat
  gc_conns :: "(32 word \<times> nat) list"
  gc_registered :: bool
  gc_lastError :: "link_error option"
  gc_lastNotice :: string
  gc_connectedSince :: time
  gc_version :: string
  gc_revision :: string
  gc_stunPort :: int

definition entry_of :: "string \<Rightarrow> string" where
  "entry_of raw = trim_right ''/'' (trim_space raw)"

definition url_ok :: "(string \<Rightarrow> (string \<times> string) option) \<Rightarrow> string \<Rightarrow> bool" where
  "url_ok parse entry =
     (case parse entry of
        None \<Rightarrow> False
      | Some (scheme, host) \<Rightarrow> host \<noteq> [] \<and> (scheme = ''ws'' \<or> scheme = ''wss''))"

definition gatewayURLs :: "(string \<Rightarrow> (string \<times> string) option) \<Rightarrow> link_options \<Rightarrow> link_error + string list" where
  "gatewayURLs parse opts =
     (let primary = entry_of (go_URL opts);
          entries = filter (\<lambda>e. e \<noteq> []) (map entry_of (go_URLs opts));
          checked = (\<lambda>l. case find (\<lambda>e. \<not> url_ok parse e) l of Some e \<Rightarrow> Inl (InvalidURL e) | None \<Rightarrow> Inr l)
      in if entries = [] then (if primary = [] then Inl URLRequired else checked [primary])
         else if primary \<noteq> [] \<and> hd entries \<noteq> primary then Inl (URLNotFirst primary (hd entries))
         else checked entries)"

definition NewGatewayClient :: "hkdf \<Rightarrow> (string \<Rightarrow> (string \<times> string) option) \<Rightarrow> bool \<Rightarrow> link_options \<Rightarrow> link_error + gateway_client" where
  "NewGatewayClient hkdf parse hub opts =
     (if \<not> hub then Inl NoHub
      else case gatewayURLs parse opts of
        Inl e \<Rightarrow> Inl e
      | Inr urls \<Rightarrow>
          if go_RelayKey opts = [] then Inl RelayKeyRequired
          else (case DeriveRelayID hkdf (go_RelayKey opts) of
            None \<Rightarrow> Inl DeriveFailed
          | Some relayID \<Rightarrow>
              (case DeriveRendezvousKey hkdf (go_RelayKey opts) of
                 None \<Rightarrow> Inl DeriveFailed
               | Some key \<Rightarrow>
                   Inr \<lparr>gc_urls = urls, gc_selection = go_Selection opts, gc_relayID = relayID, gc_rendezvousKey = key,
                     gc_maxClients = (if go_MaxClients opts \<le> 0 then gatewayDefaultMaxClients else go_MaxClients opts),
                     gc_backoffBase = gatewayBackoffBase, gc_backoffMax = gatewayBackoffMax, gc_healthInterval = gatewayHealthInterval,
                     gc_active = 0, gc_conns = [], gc_registered = False, gc_lastError = None, gc_lastNotice = [],
                     gc_connectedSince = 0, gc_version = [], gc_revision = [], gc_stunPort = 0\<rparr>)))"

section \<open>The active entry\<close>

definition CurrentURL :: "gateway_client \<Rightarrow> string" where
  "CurrentURL c = gc_urls c ! gc_active c"

definition advance :: "gateway_client \<Rightarrow> gateway_client" where
  "advance c = c\<lparr>gc_active := (gc_active c + 1) mod length (gc_urls c)\<rparr>"

definition activeFirstLocked :: "gateway_client \<Rightarrow> string list" where
  "activeFirstLocked c =
     gc_urls c ! gc_active c # map snd (filter (\<lambda>x. fst x \<noteq> gc_active c) (zip [0..<length (gc_urls c)] (gc_urls c)))"

definition setActive :: "nat \<Rightarrow> gateway_client \<Rightarrow> gateway_client" where
  "setActive index c = c\<lparr>gc_active := index\<rparr>"

definition latencyRanked :: "gateway_client \<Rightarrow> bool" where
  "latencyRanked c \<longleftrightarrow> gc_selection c = GatewaySelectionLatency"

definition Selection :: "gateway_client \<Rightarrow> string" where
  "Selection c = (if latencyRanked c then GatewaySelectionLatency else GatewaySelectionOrdered)"

text \<open>A probe result; \<open>None\<close> stands for an error.\<close>

record probe_result =
  pr_index :: nat
  pr_rtt :: "duration option"

record healthy_probe =
  hp_index :: nat
  hp_rtt :: duration

definition applyConfiguredOrder :: "healthy_probe list \<Rightarrow> gateway_client \<Rightarrow> gateway_client \<times> bool" where
  "applyConfiguredOrder results c =
     (let best = foldl (\<lambda>b r. if hp_index r < hp_index b then r else b) (hd results) (tl results)
      in (setActive (hp_index best) c, True))"

definition applyProbeResults :: "healthy_probe list \<Rightarrow> gateway_client \<Rightarrow> gateway_client \<times> bool" where
  "applyProbeResults results c =
     (if results = [] then (c, False)
      else if \<not> latencyRanked c then applyConfiguredOrder results c
      else let minRTT = foldl (\<lambda>m r. if hp_rtt r < m then hp_rtt r else m) (hp_rtt (hd results)) (tl results);
               bestIndex = foldl (\<lambda>b r. if hp_rtt r - minRTT \<le> gatewayProbeTieWindow \<and> hp_index r < b then hp_index r else b)
                 (length (gc_urls c)) results
           in (setActive bestIndex c, True))"

definition successful :: "probe_result list \<Rightarrow> healthy_probe list" where
  "successful arrivals =
     concat (map (\<lambda>r. case pr_rtt r of None \<Rightarrow> [] | Some rtt \<Rightarrow> [\<lparr>hp_index = pr_index r, hp_rtt = rtt\<rparr>]) arrivals)"

definition candidates :: "int \<Rightarrow> gateway_client \<Rightarrow> nat list" where
  "candidates excluded c = filter (\<lambda>index. int index \<noteq> excluded) [0..<length (gc_urls c)]"

definition selectGateway :: "probe_result list \<Rightarrow> int \<Rightarrow> gateway_client \<Rightarrow> gateway_client \<times> bool" where
  "selectGateway arrivals excluded c =
     (let cs = candidates excluded c
      in if cs = [] then (c, False)
         else if length cs = 1 then (setActive (hd cs) c, True)
         else applyProbeResults (successful (take (length cs) arrivals)) c)"

section \<open>Registration\<close>

datatype ws_read = WsFailed | WsClosed nat string | WsText bytes | WsBinary bytes

record register_env =
  re_hello :: ws_read
  re_parse_hello :: "bytes \<Rightarrow> server_hello option"
  re_write :: "register_hello \<Rightarrow> bool"
  re_reply :: ws_read
  re_parse_type :: "bytes \<Rightarrow> string option"
  re_parse_ready :: "bytes \<Rightarrow> int option"
  re_parse_error :: "bytes \<Rightarrow> (string \<times> string) option"

definition setGatewayBuild :: "string \<Rightarrow> string \<Rightarrow> gateway_client \<Rightarrow> gateway_client" where
  "setGatewayBuild version revision c = c\<lparr>gc_version := version, gc_revision := revision\<rparr>"

definition setSTUNPort :: "int \<Rightarrow> gateway_client \<Rightarrow> gateway_client" where
  "setSTUNPort port c = c\<lparr>gc_stunPort := (if port < 1 \<or> port > 65535 then 0 else port)\<rparr>"

definition register_reply :: "register_env \<Rightarrow> bytes \<Rightarrow> link_error option" where
  "register_reply E raw =
     (case re_parse_type E raw of
        None \<Rightarrow> Some ReplyMalformed
      | Some kind \<Rightarrow>
          if kind = TypeReady
          then (case re_parse_ready E raw of
                  None \<Rightarrow> Some ReplyMalformed
                | Some proto \<Rightarrow> if proto \<noteq> Proto then Some (UnsupportedProto proto) else None)
          else if kind = TypeError
          then (case re_parse_error E raw of
                  None \<Rightarrow> Some ReplyMalformed
                | Some (code, message) \<Rightarrow> Some (Rejected code message))
          else Some (ReplyUnexpected kind))"

definition registerLink :: "register_env \<Rightarrow> gateway_client \<Rightarrow> gateway_client \<times> link_error option" where
  "registerLink E c =
     (case re_hello E of
        WsText rawHello \<Rightarrow>
          (case re_parse_hello E rawHello of
             None \<Rightarrow> (c, Some HelloMalformed)
           | Some hello \<Rightarrow>
               if sh_type hello \<noteq> TypeServerHello then (c, Some (HelloUnexpected (sh_type hello)))
               else if sh_proto hello \<noteq> Proto then (c, Some (UnsupportedProto (sh_proto hello)))
               else let c1 = setSTUNPort (sh_stun_port hello) (setGatewayBuild (sh_version hello) (sh_revision hello) c)
                    in if \<not> re_write E \<lparr>rh_type = TypeRegister, rh_proto = Proto, rh_relay_id = gc_relayID c\<rparr>
                       then (c1, Some RegisterWriteFailed)
                       else (case re_reply E of
                               WsText rawReply \<Rightarrow> (c1, register_reply E rawReply)
                             | WsBinary _ \<Rightarrow> (c1, Some ReplyNotText)
                             | _ \<Rightarrow> (c1, Some ReplyReadFailed)))
      | WsBinary _ \<Rightarrow> (c, Some HelloNotText)
      | _ \<Rightarrow> (c, Some HelloReadFailed))"

definition markRegistered :: "time \<Rightarrow> gateway_client \<Rightarrow> gateway_client" where
  "markRegistered now c = c\<lparr>gc_registered := True, gc_lastError := None, gc_connectedSince := now\<rparr>"

definition markUnregistered :: "gateway_client \<Rightarrow> gateway_client" where
  "markUnregistered c = c\<lparr>gc_registered := False, gc_connectedSince := 0\<rparr>"

definition recordError :: "link_error \<Rightarrow> gateway_client \<Rightarrow> gateway_client" where
  "recordError e c = c\<lparr>gc_lastError := Some e\<rparr>"

definition recordNotice :: "string \<Rightarrow> gateway_client \<Rightarrow> gateway_client" where
  "recordNotice message c = c\<lparr>gc_lastNotice := message\<rparr>"

record gateway_status =
  gt_Enabled :: bool
  gt_Registered :: bool
  gt_RelayID :: string
  gt_URL :: string
  gt_URLs :: "string list"
  gt_Version :: string
  gt_Revision :: string
  gt_Clients :: nat
  gt_LastError :: "link_error option"
  gt_LastNotice :: string
  gt_ConnectedSince :: time

definition Status :: "gateway_client option \<Rightarrow> gateway_status" where
  "Status client =
     (case client of
        None \<Rightarrow> \<lparr>gt_Enabled = False, gt_Registered = False, gt_RelayID = [], gt_URL = [], gt_URLs = [], gt_Version = [],
          gt_Revision = [], gt_Clients = 0, gt_LastError = None, gt_LastNotice = [], gt_ConnectedSince = 0\<rparr>
      | Some c \<Rightarrow>
          let ordered = activeFirstLocked c
          in \<lparr>gt_Enabled = True, gt_Registered = gc_registered c, gt_RelayID = gc_relayID c, gt_URL = hd ordered, gt_URLs = ordered,
               gt_Version = gc_version c, gt_Revision = gc_revision c, gt_Clients = length (gc_conns c),
               gt_LastError = gc_lastError c, gt_LastNotice = gc_lastNotice c, gt_ConnectedSince = gc_connectedSince c\<rparr>)"

definition STUNPort :: "gateway_client option \<Rightarrow> int" where
  "STUNPort client = (case client of None \<Rightarrow> 0 | Some c \<Rightarrow> gc_stunPort c)"

section \<open>The reconnect loop\<close>

definition nextBackoff :: "duration \<Rightarrow> gateway_client \<Rightarrow> duration" where
  "nextBackoff delay c = min (delay * 2) (gc_backoffMax c)"

text \<open>What one turn of \<open>Run\<close> meets: how the session ended, whether the context ended before, during or while waiting, and
  the probes that arrived when another entry is chosen.\<close>

record run_env =
  rn_done :: bool
  rn_session :: "gateway_client \<Rightarrow> gateway_client \<times> bool \<times> link_error option"
  rn_done_after :: bool
  rn_arrivals :: "probe_result list"
  rn_slept :: bool

definition run_start :: "probe_result list \<Rightarrow> gateway_client \<Rightarrow> gateway_client \<times> duration" where
  "run_start arrivals c =
     ((if length (gc_urls c) > 1 then fst (selectGateway arrivals (-1) c) else c), gc_backoffBase c)"

definition failover :: "probe_result list \<Rightarrow> nat \<Rightarrow> gateway_client \<Rightarrow> gateway_client" where
  "failover arrivals failedIndex c =
     (let (c1, ok) = selectGateway arrivals (int failedIndex) c in if ok then c1 else advance c1)"

text \<open>\<open>None\<close> as the new delay: the loop returned.\<close>

definition run_round :: "gateway_client \<times> duration \<Rightarrow> run_env \<Rightarrow> gateway_client \<times> duration option" where
  "run_round cd E =
     (let (c, delay) = cd
      in if rn_done E then (c, None)
         else let failedIndex = gc_active c; (c1, registered, err) = rn_session E c
              in if rn_done_after E then (c1, None)
                 else let c2 = (case err of None \<Rightarrow> c1 | Some e \<Rightarrow> failover (rn_arrivals E) failedIndex (recordError e c1));
                          delay1 = (if registered then gc_backoffBase c2 else delay)
                      in if rn_slept E then (c2, Some (nextBackoff delay1 c2)) else (c2, None))"

text \<open>The loop, over the turns it takes; its result is the delay the next turn would wait.\<close>

fun run_loop :: "gateway_client \<times> duration \<Rightarrow> run_env list \<Rightarrow> gateway_client \<times> duration option" where
  "run_loop cd [] = (fst cd, Some (snd cd))"
| "run_loop cd (E # Es) =
     (case run_round cd E of
        (c, None) \<Rightarrow> (c, None)
      | (c, Some delay) \<Rightarrow> run_loop (c, delay) Es)"

section \<open>Selection\<close>

lemma foldl_smallest:
  fixes f :: "'a \<Rightarrow> 'b::linorder"
  shows "foldl (\<lambda>m r. if f r < m then f r else m) a xs = Min (insert a (f ` set xs))"
proof (induction xs arbitrary: a)
  case (Cons x xs)
  have "Min (insert (if f x < a then f x else a) (f ` set xs)) = Min (insert a (insert (f x) (f ` set xs)))"
    by (cases "xs = []") (auto simp: min_def)
  then show ?case using Cons by simp
qed simp

lemma foldl_smallest_filtered:
  fixes f :: "'a \<Rightarrow> 'b::linorder"
  shows "foldl (\<lambda>m r. if P r \<and> f r < m then f r else m) a xs = Min (insert a (f ` {r \<in> set xs. P r}))"
proof -
  have "foldl (\<lambda>m r. if P r \<and> f r < m then f r else m) a xs = foldl (\<lambda>m r. if f r < m then f r else m) a (filter P xs)"
    by (induction xs arbitrary: a) auto
  then show ?thesis by (simp add: foldl_smallest)
qed

lemma foldl_best_index: "hp_index (foldl (\<lambda>b r. if hp_index r < hp_index b then r else b) x xs) = Min (insert (hp_index x) (hp_index ` set xs))"
proof -
  have "hp_index (foldl (\<lambda>b r. if hp_index r < hp_index b then r else b) x xs)
      = foldl (\<lambda>m r. if hp_index r < m then hp_index r else m) (hp_index x) xs"
    by (induction xs arbitrary: x) auto
  then show ?thesis by (simp add: foldl_smallest)
qed

text \<open>The entries a set of healthy probes leaves to choose from: all of them, or those within the tie window of
  the fastest when the list is ranked by latency.\<close>

definition eligible :: "gateway_client \<Rightarrow> healthy_probe set \<Rightarrow> nat set" where
  "eligible c R = {hp_index r |r. r \<in> R \<and> (latencyRanked c \<longrightarrow> hp_rtt r \<le> Min (hp_rtt ` R) + gatewayProbeTieWindow)}"

lemma apply_probes_reference:
  assumes "results \<noteq> []" "\<forall>r \<in> set results. hp_index r < length (gc_urls c)"
  shows "applyProbeResults results c = (setActive (Min (eligible c (set results))) c, True)"
proof (cases "latencyRanked c")
  case False
  have "insert (hp_index (hd results)) (hp_index ` set (tl results)) = hp_index ` set results"
    using assms(1) by (cases results) auto
  moreover have "eligible c (set results) = hp_index ` set results" using False by (auto simp: eligible_def)
  ultimately show ?thesis using False assms(1)
    by (simp add: applyProbeResults_def applyConfiguredOrder_def foldl_best_index)
next
  case True
  define m where "m = Min (hp_rtt ` set results)"
  have m: "foldl (\<lambda>m r. if hp_rtt r < m then hp_rtt r else m) (hp_rtt (hd results)) (tl results) = m"
    using assms(1) by (cases results) (simp_all add: m_def foldl_smallest)
  define S where "S = hp_index ` {r \<in> set results. hp_rtt r - m \<le> gatewayProbeTieWindow}"
  have S: "S = eligible c (set results)" using True by (auto simp: S_def eligible_def m_def algebra_simps)
  have "m \<in> hp_rtt ` set results" unfolding m_def using assms(1) by (intro Min_in) auto
  then obtain r where "r \<in> set results" "hp_rtt r = m" by auto
  then have "hp_index r \<in> S" by (auto simp: S_def gatewayProbeTieWindow_def millisecond_def)
  moreover have "\<forall>i \<in> S. i < length (gc_urls c)" "finite S" using assms(2) by (auto simp: S_def)
  ultimately have ne: "finite S" "S \<noteq> {}" and less: "Min S < length (gc_urls c)" using Min_in [of S] by blast+
  then have "Min (insert (length (gc_urls c)) S) = Min S" by (subst Min_insert) (simp_all add: min_absorb2)
  then have "foldl (\<lambda>b r. if hp_rtt r - m \<le> gatewayProbeTieWindow \<and> hp_index r < b then hp_index r else b) (length (gc_urls c)) results
      = Min S"
    by (simp add: foldl_smallest_filtered S_def)
  then show ?thesis using True assms(1) by (simp add: applyProbeResults_def m S)
qed

lemma set_successful: "r \<in> set (successful arrivals) \<longleftrightarrow> (\<exists>a \<in> set arrivals. pr_index a = hp_index r \<and> pr_rtt a = Some (hp_rtt r))"
  by (force simp: successful_def split: option.splits)

lemma candidates_range: "i \<in> set (candidates excluded c) \<longleftrightarrow> i < length (gc_urls c) \<and> int i \<noteq> excluded"
  by (auto simp: candidates_def)

lemma eligible_in:
  assumes "finite R" "R \<noteq> {}"
  shows "Min (eligible c R) \<in> hp_index ` R"
proof -
  have "Min (hp_rtt ` R) \<in> hp_rtt ` R" using assms by (intro Min_in) auto
  then obtain r where "r \<in> R" "hp_rtt r = Min (hp_rtt ` R)" by (metis imageE)
  then have "hp_index r \<in> eligible c R" by (auto simp: eligible_def gatewayProbeTieWindow_def millisecond_def)
  moreover have sub: "eligible c R \<subseteq> hp_index ` R" by (auto simp: eligible_def)
  moreover have "finite (eligible c R)" using sub assms(1) by (meson finite_imageI finite_subset)
  ultimately show ?thesis using Min_in [of "eligible c R"] by blast
qed

lemma select_reference:
  assumes "pr_index ` set arrivals \<subseteq> set (candidates excluded c)"
  shows "selectGateway arrivals excluded c =
    (let cs = candidates excluded c; R = set (successful (take (length cs) arrivals))
     in if length cs = 1 then (setActive (hd cs) c, True)
        else if R = {} then (c, False)
        else (setActive (Min (eligible c R)) c, True))"
proof -
  define rs where "rs = successful (take (length (candidates excluded c)) arrivals)"
  have "\<forall>r \<in> set rs. hp_index r < length (gc_urls c)"
    using assms by (force simp: rs_def set_successful candidates_range dest!: in_set_takeD)
  then have "rs \<noteq> [] \<Longrightarrow> applyProbeResults rs c = (setActive (Min (eligible c (set rs))) c, True)"
    using apply_probes_reference by blast
  then have "candidates excluded c \<noteq> [] \<Longrightarrow> ?thesis"
    unfolding selectGateway_def Let_def rs_def [symmetric] by (simp add: applyProbeResults_def)
  moreover have "candidates excluded c = [] \<Longrightarrow> ?thesis" by (simp add: selectGateway_def successful_def)
  ultimately show ?thesis by blast
qed

text \<open>C21. Choosing a gateway is choosing, among the healthy candidates, the first in configured order, and with
  latency ranking the first within 20 ms of the fastest. The order in which the probes answer does not
  matter; with one candidate it is taken unprobed; when none answers nothing changes and the caller is told.\<close>

theorem gateway_selection:
  assumes "pr_index ` set arrivals \<subseteq> set (candidates excluded c)"
  shows "selectGateway arrivals excluded c =
    (let cs = candidates excluded c; R = set (successful (take (length cs) arrivals))
     in if length cs = 1 then (setActive (hd cs) c, True)
        else if R = {} then (c, False)
        else (setActive (Min (eligible c R)) c, True))"
  using assms by (rule select_reference)

section \<open>Failing over\<close>

lemma select_index:
  assumes "pr_index ` set arrivals \<subseteq> set (candidates excluded c)" "selectGateway arrivals excluded c = (c', True)"
  shows "\<exists>i. c' = setActive i c \<and> i < length (gc_urls c) \<and> int i \<noteq> excluded"
proof -
  define cs where "cs = candidates excluded c"
  define R where "R = set (successful (take (length cs) arrivals))"
  have R: "hp_index ` R \<subseteq> set cs"
    using assms(1) by (force simp: R_def cs_def set_successful dest!: in_set_takeD)
  have "\<exists>i \<in> set cs. c' = setActive i c"
  proof (cases "length cs = 1")
    case True
    then have "hd cs \<in> set cs" by (cases cs) auto
    then show ?thesis using True assms(2) select_reference [OF assms(1)] by (auto simp: cs_def)
  next
    case False
    then have "R \<noteq> {}" "c' = setActive (Min (eligible c R)) c"
      using assms(2) select_reference [OF assms(1)] by (auto simp: cs_def R_def Let_def split: if_splits)
    then show ?thesis using R eligible_in [of R c] by (auto simp: R_def)
  qed
  then show ?thesis by (auto simp: cs_def candidates_range)
qed

text \<open>What a client keeps of its configuration while sessions come and go.\<close>

definition same_config :: "gateway_client \<Rightarrow> gateway_client \<Rightarrow> bool" where
  "same_config c c' \<longleftrightarrow> gc_urls c' = gc_urls c \<and> gc_selection c' = gc_selection c \<and> gc_relayID c' = gc_relayID c
     \<and> gc_rendezvousKey c' = gc_rendezvousKey c \<and> gc_maxClients c' = gc_maxClients c
     \<and> gc_backoffBase c' = gc_backoffBase c \<and> gc_backoffMax c' = gc_backoffMax c"

lemma same_config_refl [simp]: "same_config c c"
  by (simp add: same_config_def)

lemma same_config_trans: "same_config a b \<Longrightarrow> same_config b c \<Longrightarrow> same_config a c"
  by (simp add: same_config_def)

lemma same_config_setters [simp]:
  "same_config c (setActive i c')  \<longleftrightarrow> same_config c c'" "same_config c (recordError e c') \<longleftrightarrow> same_config c c'"
  "same_config c (advance c') \<longleftrightarrow> same_config c c'"
  by (simp_all add: same_config_def setActive_def recordError_def advance_def)

lemma failover_moves:
  assumes "pr_index ` set arrivals \<subseteq> set (candidates (int (gc_active c)) c)" "gc_active c < length (gc_urls c)"
  shows "same_config c (failover arrivals (gc_active c) c)
    \<and> gc_active (failover arrivals (gc_active c) c) < length (gc_urls c)
    \<and> (1 < length (gc_urls c) \<longrightarrow> gc_active (failover arrivals (gc_active c) c) \<noteq> gc_active c)"
proof (cases "snd (selectGateway arrivals (int (gc_active c)) c)")
  case True
  then obtain c' where c': "selectGateway arrivals (int (gc_active c)) c = (c', True)" by (cases "selectGateway arrivals (int (gc_active c)) c") auto
  from select_index [OF assms(1) this] show ?thesis by (auto simp: failover_def c' setActive_def same_config_def)
next
  case False
  then have "selectGateway arrivals (int (gc_active c)) c = (c, False)"
    using select_reference [OF assms(1)] by (auto simp: Let_def split: if_splits)
  moreover have "(gc_active c + 1) mod length (gc_urls c) \<noteq> gc_active c" if "1 < length (gc_urls c)"
    using that assms(2) by (cases "gc_active c + 1 = length (gc_urls c)") auto
  moreover have "(gc_active c + 1) mod length (gc_urls c) < length (gc_urls c)" using assms(2) by (intro mod_less_divisor) (cases "gc_urls c", auto)
  ultimately show ?thesis by (simp add: failover_def advance_def same_config_def)
qed

lemma candidates_without:
  assumes "a < length (gc_urls c)"
  shows "length (candidates (int a) c) = length (gc_urls c) - 1"
proof -
  have "set (candidates (int a) c) = {..<length (gc_urls c)} - {a}" by (auto simp: candidates_range)
  moreover have "distinct (candidates (int a) c)" by (simp add: candidates_def)
  ultimately show ?thesis using assms distinct_card [of "candidates (int a) c"] by simp
qed

text \<open>With no probe answering the entries are taken in turn.\<close>

lemma failover_rotates:
  assumes "successful arrivals = []" "gc_active c < length (gc_urls c)"
  shows "gc_active (failover arrivals (gc_active c) c) = (gc_active c + 1) mod length (gc_urls c)"
proof (cases "length (candidates (int (gc_active c)) c) = 1")
  case True
  then have n: "length (gc_urls c) = 2" using candidates_without [OF assms(2)] by simp
  have "hd (candidates (int (gc_active c)) c) \<in> set (candidates (int (gc_active c)) c)" using True by (intro hd_in_set) auto
  then have "hd (candidates (int (gc_active c)) c) < 2" "hd (candidates (int (gc_active c)) c) \<noteq> gc_active c" using n by (auto simp: candidates_range)
  moreover have "selectGateway arrivals (int (gc_active c)) c = (setActive (hd (candidates (int (gc_active c)) c)) c, True)"
    using True by (auto simp: selectGateway_def Let_def)
  moreover have "gc_active c = 0 \<or> gc_active c = 1" using assms(2) n by auto
  ultimately show ?thesis using n by (auto simp: failover_def setActive_def less_2_cases_iff)
next
  case False
  have "successful (take k arrivals) = []" for k
    using assms(1) set_take_subset [of k arrivals] by (force simp: successful_def)
  then show ?thesis using False by (simp add: failover_def selectGateway_def applyProbeResults_def advance_def Let_def)
qed

lemma failover_sets: "\<exists>i. failover arrivals n c = setActive i c"
proof -
  have "\<exists>i. fst (selectGateway arrivals (int n) c) = setActive i c"
    by (auto simp: selectGateway_def applyProbeResults_def applyConfiguredOrder_def Let_def setActive_def intro: exI [of _ "gc_active c"])
  then show ?thesis by (auto simp: failover_def advance_def setActive_def split: prod.splits)
qed

section \<open>A concrete selection\<close>

definition two_slow_one_fast :: "probe_result list" where
  "two_slow_one_fast = [\<lparr>pr_index = 2, pr_rtt = Some (5 * millisecond)\<rparr>, \<lparr>pr_index = 0, pr_rtt = Some (90 * millisecond)\<rparr>, \<lparr>pr_index = 1, pr_rtt = Some (20 * millisecond)\<rparr>]"

definition ranked_client :: gateway_client where
  "ranked_client = \<lparr>gc_urls = [''wss://a'', ''wss://b'', ''wss://c''], gc_selection = GatewaySelectionLatency, gc_relayID = [], gc_rendezvousKey = [],
     gc_maxClients = 8, gc_backoffBase = second, gc_backoffMax = 60 * second, gc_healthInterval = 15 * second, gc_active = 0, gc_conns = [],
     gc_registered = False, gc_lastError = None, gc_lastNotice = [], gc_connectedSince = 0, gc_version = [], gc_revision = [], gc_stunPort = 0\<rparr>"

theorem gateway_selection_witness:
  "selectGateway two_slow_one_fast (-1) ranked_client = (setActive 1 ranked_client, True)"
proof -
  let ?R = "{\<lparr>hp_index = 2, hp_rtt = 5 * millisecond\<rparr>, \<lparr>hp_index = 0, hp_rtt = 90 * millisecond\<rparr>, \<lparr>hp_index = 1, hp_rtt = 20 * millisecond\<rparr>}"
  have c: "candidates (-1) ranked_client = [0, 1, 2]" by (simp add: candidates_def ranked_client_def upt_rec)
  then have l: "length (candidates (-1) ranked_client) = 3" by simp
  have s: "set (successful (take 3 two_slow_one_fast)) = ?R" by (simp add: successful_def two_slow_one_fast_def)
  have "latencyRanked ranked_client" by (simp add: latencyRanked_def ranked_client_def)
  moreover have "Min (hp_rtt ` ?R) = 5 * millisecond" by (simp add: millisecond_def)
  moreover have "eligible c R = hp_index ` {r \<in> R. latencyRanked c \<longrightarrow> hp_rtt r \<le> Min (hp_rtt ` R) + gatewayProbeTieWindow}" for c R
    by (auto simp: eligible_def)
  moreover have "{r \<in> ?R. hp_rtt r \<le> 5 * millisecond + gatewayProbeTieWindow} =
      {\<lparr>hp_index = 2, hp_rtt = 5 * millisecond\<rparr>, \<lparr>hp_index = 1, hp_rtt = 20 * millisecond\<rparr>}"
    by (auto simp: gatewayProbeTieWindow_def millisecond_def)
  ultimately have "eligible ranked_client ?R = {1, 2}" by auto
  then have m: "Min (eligible ranked_client ?R) = 1" by simp
  have "pr_index ` set two_slow_one_fast \<subseteq> set (candidates (-1) ranked_client)" by (simp add: c two_slow_one_fast_def)
  then have "selectGateway two_slow_one_fast (-1) ranked_client =
      (if ?R = {} then (ranked_client, False) else (setActive (Min (eligible ranked_client ?R)) ranked_client, True))"
    unfolding s [symmetric] by (subst gateway_selection) (simp_all add: l Let_def)
  then show ?thesis unfolding m by simp
qed

end
