(* ===== verification/Gateway_Link.thy ===== *)
theory Gateway_Link
  imports Gateway_Client Framing
begin

text \<open>
  One registered link to a gateway, second part of \<^verbatim>\<open>internal/transport/gateway.go\<close>, and the in-process connection \<open>pipeConn\<close> of
  \<^verbatim>\<open>internal/transport/conn.go\<close> that hands a phone's frames to the hub.

  \<^item> Connection objects live in the store \<open>gs_conns\<close>, indexed by allocation number; a connection and its pipe are one
    record. The hub's side of the pipe (\<open>ReadFrame\<close>, \<open>WriteFrame\<close>, \<open>Close\<close>, the end of \<open>Serve\<close>) is made of events.
  \<^item> The events are what the goroutines do between two waits: one turn of the read loop, one turn of the writer, one
    sweep, one health probe, and for a send its entry, the moment it gets \<open>sendMu\<close> and the queueing of one chunk, so that
    chunks of different connections, and everything else, interleave. Writers that wait for \<open>sendMu\<close> are in \<open>gn_waiting\<close> and
    get it in any order.
  \<^item> \<open>gs_wire\<close> is what was written to the socket. \<open>gs_enqueued\<close>, \<open>gn_started\<close>, \<open>gn_parts\<close>, \<open>gn_read\<close> and \<open>gn_proof\<close> are histories no code
    reads: all frames ever queued, the frames of the sends that started with the number of chunks queued, the
    chunks received, the frames the hub took, and the challenge and proof a connection was accepted with.
\<close>

section \<open>State\<close>

definition gatewayReasonUnauthorized :: string where "gatewayReasonUnauthorized = ''unauthorized''"
definition gatewayReasonBusy :: string where "gatewayReasonBusy = ''busy''"
definition gatewayReasonSlow :: string where "gatewayReasonSlow = ''slow''"
definition gatewayReasonUnknownConn :: string where "gatewayReasonUnknownConn = ''unknown''"
definition gatewayReasonFraming :: string where "gatewayReasonFraming = ''framing''"
definition StatusPolicyViolation :: nat where "StatusPolicyViolation = 1008"

record gateway_conn =
  gn_id :: "32 word"
  gn_inbound :: "bytes list"
  gn_closed :: bool
  gn_recv :: reassembler
  gn_served :: bool
  gn_waiting :: "bytes list"
  gn_sending :: "bytes list option"
  gn_started :: "(bytes \<times> nat) list"
  gn_parts :: "(time \<times> bytes) list"
  gn_read :: "bytes list"
  gn_proof :: "bytes \<times> bytes"

record gateway_session =
  gs_client :: gateway_client
  gs_conns :: "gateway_conn list"
  gs_writes :: "bytes list"
  gs_done :: bool
  gs_failErr :: "link_error option"
  gs_readErr :: "link_error option"
  gs_healthFailures :: nat
  gs_healthRunning :: bool
  gs_wire :: "bytes list"
  gs_enqueued :: "bytes list"

record link_env =
  le_hmac :: hmac
  le_open :: "bytes \<Rightarrow> (string \<times> string) option"
  le_notice :: "bytes \<Rightarrow> (string \<times> string) option"

abbreviation conn_at :: "gateway_session \<Rightarrow> nat \<Rightarrow> gateway_conn" where
  "conn_at s i \<equiv> gs_conns s ! i"

definition upd_conn :: "nat \<Rightarrow> (gateway_conn \<Rightarrow> gateway_conn) \<Rightarrow> gateway_session \<Rightarrow> gateway_session" where
  "upd_conn i f s = s\<lparr>gs_conns := (gs_conns s)[i := f (gs_conns s ! i)]\<rparr>"

definition upd_client :: "(gateway_client \<Rightarrow> gateway_client) \<Rightarrow> gateway_session \<Rightarrow> gateway_session" where
  "upd_client f s = s\<lparr>gs_client := f (gs_client s)\<rparr>"

section \<open>The table of connections\<close>

text \<open>\<open>pipe.Shutdown\<close>: the pipe ends without a word to the peer.\<close>

definition pipe_Shutdown :: "nat \<Rightarrow> gateway_session \<Rightarrow> gateway_session" where
  "pipe_Shutdown i s = upd_conn i (\<lambda>n. n\<lparr>gn_closed := True\<rparr>) s"

definition addConn :: "32 word \<Rightarrow> nat \<Rightarrow> gateway_session \<Rightarrow> gateway_session \<times> bool" where
  "addConn connID i s =
     (let s1 = (case map_of (gc_conns (gs_client s)) connID of
                  None \<Rightarrow> s
                | Some stale \<Rightarrow> pipe_Shutdown stale (upd_client (\<lambda>c. c\<lparr>gc_conns := AList.delete connID (gc_conns c)\<rparr>) s))
      in if int (length (gc_conns (gs_client s1))) \<ge> gc_maxClients (gs_client s1) then (s1, False)
         else (upd_client (\<lambda>c. c\<lparr>gc_conns := AList.update connID i (gc_conns c)\<rparr>) s1, True))"

definition lookupConn :: "32 word \<Rightarrow> gateway_session \<Rightarrow> nat option" where
  "lookupConn connID s = map_of (gc_conns (gs_client s)) connID"

definition liveConns :: "gateway_session \<Rightarrow> (32 word \<times> nat) list" where
  "liveConns s = gc_conns (gs_client s)"

definition removeConn :: "32 word \<Rightarrow> nat \<Rightarrow> gateway_session \<Rightarrow> gateway_session" where
  "removeConn connID i s =
     (if lookupConn connID s = Some i then upd_client (\<lambda>c. c\<lparr>gc_conns := AList.delete connID (gc_conns c)\<rparr>) s else s)"

definition takeConn :: "32 word \<Rightarrow> gateway_session \<Rightarrow> gateway_session \<times> nat option" where
  "takeConn connID s =
     (case lookupConn connID s of
        None \<Rightarrow> (s, None)
      | Some i \<Rightarrow> (upd_client (\<lambda>c. c\<lparr>gc_conns := AList.delete connID (gc_conns c)\<rparr>) s, Some i))"

definition evictAll :: "gateway_session \<Rightarrow> gateway_session" where
  "evictAll s =
     foldl (\<lambda>s x. pipe_Shutdown (snd x) s) (upd_client (\<lambda>c. c\<lparr>gc_conns := []\<rparr>) s) (gc_conns (gs_client s))"

section \<open>The writer\<close>

definition stop :: "gateway_session \<Rightarrow> gateway_session" where
  "stop s = s\<lparr>gs_done := True\<rparr>"

definition fail :: "link_error \<Rightarrow> gateway_session \<Rightarrow> gateway_session" where
  "fail e s = stop (if gs_failErr s = None then s\<lparr>gs_failErr := Some e\<rparr> else s)"

definition enqueue :: "bytes \<Rightarrow> gateway_session \<Rightarrow> gateway_session \<times> link_error option" where
  "enqueue frame s =
     (if gs_done s then (s, Some FrameConnClosed)
      else if length (gs_writes s) < gatewayWriteQueue
      then (s\<lparr>gs_writes := gs_writes s @ [frame], gs_enqueued := gs_enqueued s @ [frame]\<rparr>, None)
      else (s, Some WriteQueueFull))"

definition write_turn :: "bool \<Rightarrow> gateway_session \<Rightarrow> gateway_session" where
  "write_turn ok s =
     (if gs_done s then s
      else case gs_writes s of
             [] \<Rightarrow> s
           | frame # rest \<Rightarrow>
               if ok then s\<lparr>gs_writes := rest, gs_wire := gs_wire s @ [frame]\<rparr>
               else fail WriteFailed (s\<lparr>gs_writes := rest\<rparr>))"

text \<open>The longest valid prefix, one byte shorter at a time.\<close>

function trim_rune :: "string \<Rightarrow> string" where
  "trim_rune s = (if s \<noteq> [] \<and> \<not> utf8_valid s then trim_rune (butlast s) else s)"
  by pat_completeness auto
termination by (relation "measure length") auto

declare trim_rune.simps [simp del]

definition closeReasonBytes :: "string \<Rightarrow> bytes" where
  "closeReasonBytes reason =
     (if length reason > MaxCloseReason then string_bytes (trim_rune (take MaxCloseReason reason)) else string_bytes reason)"

definition reject :: "32 word \<Rightarrow> string \<Rightarrow> gateway_session \<Rightarrow> gateway_session" where
  "reject connID reason s = fst (enqueue (EncodeFrame OpClose connID (closeReasonBytes reason)) s)"

section \<open>Pipes\<close>

text \<open>The \<open>closeConn\<close> closure of \<open>handleOpen\<close> and \<open>pipeConn.Close\<close>.\<close>

definition closeConn :: "nat \<Rightarrow> string \<Rightarrow> gateway_session \<Rightarrow> gateway_session" where
  "closeConn i reason s =
     reject (gn_id (conn_at s i)) reason (removeConn (gn_id (conn_at s i)) i s)"

definition pipe_Close :: "nat \<Rightarrow> string \<Rightarrow> gateway_session \<Rightarrow> gateway_session" where
  "pipe_Close i reason s =
     (if gn_closed (conn_at s i) then s else closeConn i reason (pipe_Shutdown i s))"

definition Deliver :: "bytes \<Rightarrow> gateway_conn \<Rightarrow> gateway_conn \<times> bool" where
  "Deliver frame n =
     (if gn_closed n then (n, False)
      else if length (gn_inbound n) < gatewayConnQueue then (n\<lparr>gn_inbound := gn_inbound n @ [frame]\<rparr>, True)
      else (n, False))"

text \<open>\<open>ReadFrame\<close> when a frame is taken; the other outcomes change nothing.\<close>

definition ReadFrame :: "gateway_conn \<Rightarrow> gateway_conn" where
  "ReadFrame n =
     (case gn_inbound n of [] \<Rightarrow> n | frame # rest \<Rightarrow> n\<lparr>gn_inbound := rest, gn_read := gn_read n @ [frame]\<rparr>)"

definition newPipeConn :: "32 word \<Rightarrow> bytes \<times> bytes \<Rightarrow> gateway_conn" where
  "newPipeConn connID pf =
     \<lparr>gn_id = connID, gn_inbound = [], gn_closed = False, gn_recv = NewReassembler GatewayChunkSize, gn_served = False,
      gn_waiting = [], gn_sending = None, gn_started = [], gn_parts = [], gn_read = [], gn_proof = pf\<rparr>"

section \<open>Sending\<close>

text \<open>\<open>WriteFrame\<close> and the \<open>send\<close> closure of \<open>handleOpen\<close>, up to the lock.\<close>

definition WriteFrame :: "nat \<Rightarrow> bytes \<Rightarrow> gateway_session \<Rightarrow> gateway_session \<times> link_error option" where
  "WriteFrame i frame s =
     (if gn_closed (conn_at s i) then (s, Some FrameConnClosed)
      else if int (length frame) > MaxLogicalBytes then (s, Some (FrameTooLong (length frame)))
      else (upd_conn i (\<lambda>n. n\<lparr>gn_waiting := gn_waiting n @ [frame]\<rparr>) s, None))"

text \<open>The \<open>k\<close>-th waiting writer gets \<open>sendMu\<close> and splits its frame.\<close>

definition send_lock :: "nat \<Rightarrow> nat \<Rightarrow> gateway_session \<Rightarrow> gateway_session" where
  "send_lock i k s =
     (if gn_sending (conn_at s i) \<noteq> None \<or> k \<ge> length (gn_waiting (conn_at s i)) then s
      else let frame = gn_waiting (conn_at s i) ! k
           in upd_conn i (\<lambda>n. n\<lparr>gn_waiting := take k (gn_waiting n) @ drop (Suc k) (gn_waiting n),
                 gn_sending := Chunk [] frame GatewayChunkSize, gn_started := gn_started n @ [(frame, 0)]\<rparr>) s)"

definition bump_last :: "(bytes \<times> nat) list \<Rightarrow> (bytes \<times> nat) list" where
  "bump_last xs = butlast xs @ [(fst (last xs), Suc (snd (last xs)))]"

definition send_chunk :: "nat \<Rightarrow> gateway_session \<Rightarrow> gateway_session \<times> link_error option" where
  "send_chunk i s =
     (case gn_sending (conn_at s i) of
        None \<Rightarrow> (s, None)
      | Some [] \<Rightarrow> (upd_conn i (\<lambda>n. n\<lparr>gn_sending := None\<rparr>) s, None)
      | Some (part # rest) \<Rightarrow>
          (case enqueue (EncodeFrame OpData (gn_id (conn_at s i)) part) s of
             (s1, None) \<Rightarrow>
               (upd_conn i (\<lambda>n. n\<lparr>gn_sending := (if rest = [] then None else Some rest), gn_started := bump_last (gn_started n)\<rparr>) s1, None)
           | (s1, Some e) \<Rightarrow>
               let s2 = upd_conn i (\<lambda>n. n\<lparr>gn_sending := None\<rparr>) s1
               in (if e = WriteQueueFull then pipe_Shutdown i (removeConn (gn_id (conn_at s i)) i s2) else s2, Some e)))"

section \<open>Receiving\<close>

definition push :: "time \<Rightarrow> bytes \<Rightarrow> gateway_conn \<Rightarrow> gateway_conn \<times> (framing_error + bytes option)" where
  "push now part n =
     (case Push (gn_recv n) now part of
        (r, Inl e) \<Rightarrow> (n\<lparr>gn_recv := Reset r, gn_parts := gn_parts n @ [(now, part)]\<rparr>, Inl e)
      | (r, Inr frame) \<Rightarrow> (n\<lparr>gn_recv := r, gn_parts := gn_parts n @ [(now, part)]\<rparr>, Inr frame))"

definition stalled :: "time \<Rightarrow> gateway_conn \<Rightarrow> bool" where
  "stalled now n = Expired (gn_recv n) now"

definition sweepStalled :: "time \<Rightarrow> gateway_session \<Rightarrow> gateway_session" where
  "sweepStalled now s =
     foldl (\<lambda>s x. if stalled now (conn_at s (snd x)) then pipe_Close (snd x) gatewayReasonSlow s else s) s (liveConns s)"

definition open_authorized :: "link_env \<Rightarrow> bytes \<Rightarrow> gateway_client \<Rightarrow> (bytes \<times> bytes) option" where
  "open_authorized E payload c =
     (case le_open E payload of
        None \<Rightarrow> None
      | Some (nonce64, proof64) \<Rightarrow>
          (case (b64_decode nonce64, b64_decode proof64) of
             (Some nonce, Some pf) \<Rightarrow>
               if VerifyConnectProof (le_hmac E) (gc_rendezvousKey c) (gc_relayID c) nonce pf then Some (nonce, pf) else None
           | _ \<Rightarrow> None))"

definition handleOpen :: "link_env \<Rightarrow> 32 word \<Rightarrow> bytes \<Rightarrow> gateway_session \<Rightarrow> gateway_session" where
  "handleOpen E connID payload s =
     (case open_authorized E payload (gs_client s) of
        None \<Rightarrow> reject connID gatewayReasonUnauthorized s
      | Some pf \<Rightarrow>
          let i = length (gs_conns s);
              (s1, ok) = addConn connID i (s\<lparr>gs_conns := gs_conns s @ [newPipeConn connID pf]\<rparr>)
          in if \<not> ok then reject connID gatewayReasonBusy s1
             else upd_conn i (\<lambda>n. n\<lparr>gn_served := True\<rparr>) s1)"

definition handleData :: "time \<Rightarrow> 32 word \<Rightarrow> bytes \<Rightarrow> gateway_session \<Rightarrow> gateway_session" where
  "handleData now connID payload s =
     (case lookupConn connID s of
        None \<Rightarrow> reject connID gatewayReasonUnknownConn s
      | Some i \<Rightarrow>
          let (n, result) = push now payload (conn_at s i); s1 = upd_conn i (\<lambda>_. n) s
          in (case result of
                Inl _ \<Rightarrow> pipe_Close i gatewayReasonFraming s1
              | Inr None \<Rightarrow> s1
              | Inr (Some frame) \<Rightarrow>
                  let (n', ok) = Deliver frame n; s2 = upd_conn i (\<lambda>_. n') s1
                  in if ok then s2 else pipe_Close i gatewayReasonSlow s2))"

definition handleClose :: "32 word \<Rightarrow> gateway_session \<Rightarrow> gateway_session" where
  "handleClose connID s =
     (case takeConn connID s of (s1, None) \<Rightarrow> s1 | (s1, Some i) \<Rightarrow> pipe_Shutdown i s1)"

definition handleNotice :: "link_env \<Rightarrow> bytes \<Rightarrow> gateway_session \<Rightarrow> gateway_session" where
  "handleNotice E payload s =
     (case le_notice E payload of None \<Rightarrow> s | Some (kind, message) \<Rightarrow> upd_client (recordNotice message) s)"

definition handle_frame :: "link_env \<Rightarrow> time \<Rightarrow> byte \<Rightarrow> 32 word \<Rightarrow> bytes \<Rightarrow> gateway_session \<Rightarrow> gateway_session \<times> link_error option" where
  "handle_frame E now op connID payload s =
     (if op = OpData then (handleData now connID payload s, None)
      else if op = OpOpen then (handleOpen E connID payload s, None)
      else if op = OpClose then (handleClose connID s, None)
      else if op = OpPing then
        (case enqueue (EncodeFrame OpPong connID payload) s of (s1, None) \<Rightarrow> (s1, None) | (s1, Some _) \<Rightarrow> (s1, Some PongFailed))
      else if op = OpNotice then (handleNotice E payload s, None)
      else (s, None))"

text \<open>One turn of \<open>readLoop\<close>; an error is what the loop returns.\<close>

definition read_turn :: "link_env \<Rightarrow> time \<Rightarrow> ws_read \<Rightarrow> gateway_session \<Rightarrow> gateway_session \<times> link_error option" where
  "read_turn E now msg s =
     (case msg of
        WsFailed \<Rightarrow> (s, Some ReadFailed)
      | WsClosed code reason \<Rightarrow> (s, Some (if code = StatusPolicyViolation then Rejected CodeRelayBusy reason else ReadFailed))
      | WsText _ \<Rightarrow> (s, Some NotBinary)
      | WsBinary data \<Rightarrow>
          (case DecodeFrame data of
             Inl e \<Rightarrow> (s, Some (FrameMalformed e))
           | Inr (op, connID, payload) \<Rightarrow> handle_frame E now op connID payload s))"

section \<open>The session\<close>

definition health_turn :: "bool \<Rightarrow> gateway_session \<Rightarrow> gateway_session" where
  "health_turn ok s =
     (if gs_done s \<or> \<not> gs_healthRunning s then s
      else if ok then s\<lparr>gs_healthFailures := 0\<rparr>
      else let failures = gs_healthFailures s + 1
           in if failures < gatewayHealthFailureLimit then s\<lparr>gs_healthFailures := failures\<rparr>
              else fail (HealthFailed failures) (s\<lparr>gs_healthFailures := failures, gs_healthRunning := False\<rparr>))"

definition new_session :: "gateway_client \<Rightarrow> gateway_session" where
  "new_session c =
     \<lparr>gs_client = c, gs_conns = [], gs_writes = [], gs_done = False, gs_failErr = None, gs_readErr = None,
      gs_healthFailures = 0, gs_healthRunning = (gc_healthInterval c > 0), gs_wire = [], gs_enqueued = []\<rparr>"

datatype link_event =
    LRead time ws_read
  | LWriter bool
  | LWrite nat bytes
  | LLock nat nat
  | LChunk nat
  | LReadFrame nat
  | LClose nat string
  | LServeEnd nat
  | LSweep time
  | LHealth bool

text \<open>The hub acts on connections it was given; \<open>Serve\<close> closes the connection before it returns, and the read loop
  runs until it returned an error, which stops the session.\<close>

definition served :: "nat \<Rightarrow> gateway_session \<Rightarrow> bool" where
  "served i s \<longleftrightarrow> i < length (gs_conns s) \<and> gn_served (conn_at s i)"

fun link_step :: "link_env \<Rightarrow> gateway_session \<Rightarrow> link_event \<Rightarrow> gateway_session \<times> link_error option" where
  "link_step E s (LRead now msg) =
     (if gs_readErr s \<noteq> None then (s, None)
      else case read_turn E now msg s of
             (s1, None) \<Rightarrow> (s1, None)
           | (s1, Some e) \<Rightarrow> (stop (s1\<lparr>gs_readErr := Some e\<rparr>), Some e))"
| "link_step E s (LWriter ok) = (write_turn ok s, None)"
| "link_step E s (LWrite i frame) = (if served i s then WriteFrame i frame s else (s, None))"
| "link_step E s (LLock i k) = (if served i s then (send_lock i k s, None) else (s, None))"
| "link_step E s (LChunk i) = (if served i s then send_chunk i s else (s, None))"
| "link_step E s (LReadFrame i) = (if served i s then (upd_conn i ReadFrame s, None) else (s, None))"
| "link_step E s (LClose i reason) = (if served i s then (pipe_Close i reason s, None) else (s, None))"
| "link_step E s (LServeEnd i) =
     (if served i s \<and> gn_closed (conn_at s i) then (removeConn (gn_id (conn_at s i)) i s, None) else (s, None))"
| "link_step E s (LSweep now) = ((if gs_done s then s else sweepStalled now s), None)"
| "link_step E s (LHealth ok) = (health_turn ok s, None)"

text \<open>\<open>runSession\<close>: dial, register, run until the read loop returned, tear down.\<close>

record session_env =
  se_dialed :: bool
  se_register :: register_env
  se_registered_at :: time
  se_events :: "link_event list"
  se_ctx_done :: bool

definition session_end :: "bool \<Rightarrow> gateway_session \<Rightarrow> gateway_client \<times> bool \<times> link_error option" where
  "session_end ctx_done s =
     (let s1 = evictAll (stop s)
      in (markUnregistered (gs_client s1), True,
          if ctx_done then None else if gs_failErr s1 \<noteq> None then gs_failErr s1 else gs_readErr s1))"

definition runSession :: "link_env \<Rightarrow> session_env \<Rightarrow> gateway_client \<Rightarrow> gateway_client \<times> bool \<times> link_error option" where
  "runSession E X c =
     (if \<not> se_dialed X then (c, False, Some DialFailed)
      else case registerLink (se_register X) c of
             (c1, Some e) \<Rightarrow> (c1, False, Some e)
           | (c1, None) \<Rightarrow>
               session_end (se_ctx_done X)
                 (fst (run_machine (link_step E) (new_session (markRegistered (se_registered_at X) c1)) (se_events X))))"

end
