(* ===== verification/Gateway_Link_Props.thy ===== *)
theory Gateway_Link_Props
  imports Gateway_Link "HOL-Library.Sublist"
begin

text \<open>
  Properties of the gateway link: what a phone reassembles from the bytes on the wire, what the hub reads, which
  connections are in the table, and the reconnect loop around whole sessions. The invariant \<open>link_inv\<close> is kept by
  every event; the locale \<open>invariant_machine\<close> carries it over every interleaving.
\<close>

section \<open>Receivers of truncated sequences\<close>

lemma branch_active:
  "push_start r now p = (r', None) \<Longrightarrow> ra_active r' \<and> ra_maxChunk r' = ra_maxChunk r"
  "push_continue r now p = (r', None) \<Longrightarrow> ra_active r' \<and> ra_maxChunk r' = ra_maxChunk r"
  by (auto simp: push_start_def push_continue_def Let_def split: if_splits)

lemma push_silent_active:
  assumes "push_event r e = (r', Inr None)"
  shows "ra_active r' \<and> ra_maxChunk r' = ra_maxChunk r"
proof (cases rule: Push_cases [of r "fst e" "snd e"])
  case (branch_ok r1 p fin)
  then have "r' = r1" using assms by (simp add: push_event_def push_end_def split: if_splits)
  then show ?thesis using branch_ok(2) branch_active by blast
qed (use assms in \<open>simp_all add: push_event_def\<close>)

text \<open>The chunk that opens a frame on an idle receiver is refused while a frame is open.\<close>

lemma accepted_header:
  assumes "Push r now part = (r', Inr x)"
  shows "6 < ra_maxChunk r" "2 \<le> length part" "int (length part) \<le> ra_maxChunk r" "part ! 0 = Version" "part ! 1 AND NOT flagKnown = 0"
proof -
  let ?a = "ra_maxChunk r \<le> HeaderSize + LengthPrefixSize"
  let ?b = "int (length part) < HeaderSize \<or> int (length part) > ra_maxChunk r \<or> part ! 0 \<noteq> Version"
  let ?c = "part ! 1 AND NOT flagKnown \<noteq> 0"
  have "?a \<or> ?b \<or> ?c \<Longrightarrow> \<exists>e. Push r now part = (r, Inl e)" unfolding Push_def by (cases ?a; cases ?b; cases ?c) simp_all
  then have "\<not> ?a" "\<not> ?b" "\<not> ?c" using assms by auto
  then show "6 < ra_maxChunk r" "2 \<le> length part" "int (length part) \<le> ra_maxChunk r" "part ! 0 = Version" "part ! 1 AND NOT flagKnown = 0"
    by (simp_all add: HeaderSize_def LengthPrefixSize_def)
qed

lemma first_chunk_refused:
  assumes "\<not> ra_active r" "push_event r e = (r', Inr x)" "ra_active r2" "ra_maxChunk r2 = ra_maxChunk r"
  shows "isl (snd (push_event r2 e))"
proof -
  obtain now part where e: "e = (now, part)" by fastforce
  have ok: "Push r now part = (r', Inr x)" using assms(2) e by (simp add: push_event_def)
  note h = accepted_header [OF ok]
  have "part ! 1 AND FlagStart \<noteq> 0"
  proof (rule ccontr)
    assume "\<not> part ! 1 AND FlagStart \<noteq> 0"
    then have "Push r now part = (r, Inl ErrChunkSequence)"
      using Push_wellformed [OF h, of now] push_continue_def [of r now "drop 2 part"] assms(1) by simp
    then show False using ok by simp
  qed
  then have "Push r2 now part = (r2, Inl ErrChunkSequence)"
    using Push_wellformed [of r2 part now] h assms(3,4) push_start_def [of r2 now "drop 2 part"] by simp
  then show ?thesis by (simp add: e push_event_def)
qed

definition chunks :: "bytes \<Rightarrow> bytes list" where
  "chunks f = the (Chunk [] f GatewayChunkSize)"

definition fits :: "bytes \<Rightarrow> bool" where
  "fits f \<longleftrightarrow> int (length f) \<le> MaxLogicalBytes"

lemma chunks_spec:
  assumes "fits f"
  shows "Chunk [] f GatewayChunkSize = Some (chunks f)" "chunks f \<noteq> []" "\<forall>c \<in> set (chunks f). length c \<le> MaxFramePayload"
    "ra_maxChunk r = GatewayChunkSize \<Longrightarrow> \<not> ra_active r \<Longrightarrow> length ts = length (chunks f) \<Longrightarrow> delivers r ts (chunks f) f"
proof -
  obtain cs where cs: "Chunk [] f GatewayChunkSize = Some cs" "Count (int (length f)) GatewayChunkSize = Some (int (length cs))"
      "list_all (\<lambda>c. int (length c) \<le> GatewayChunkSize) cs"
      "\<And>r ts. ra_maxChunk r = GatewayChunkSize \<Longrightarrow> \<not> ra_active r \<Longrightarrow> length ts = length cs \<Longrightarrow> delivers r ts cs f"
    using chunk_spec [of GatewayChunkSize f "[]"] assms by (auto simp: fits_def GatewayChunkSize_def)
  have c: "chunks f = cs" using cs(1) by (simp add: chunks_def)
  show "Chunk [] f GatewayChunkSize = Some (chunks f)" using cs(1) c by simp
  show "ra_maxChunk r = GatewayChunkSize \<Longrightarrow> \<not> ra_active r \<Longrightarrow> length ts = length (chunks f) \<Longrightarrow> delivers r ts (chunks f) f"
    using cs(4) c by simp
  show "\<forall>c \<in> set (chunks f). length c \<le> MaxFramePayload"
    using cs(3) c by (auto simp: list_all_iff GatewayChunkSize_def MaxFramePayload_def)
  have "delivers (NewReassembler GatewayChunkSize) (replicate (length cs) 0) cs f" by (rule cs(4)) (simp_all add: NewReassembler_def)
  then show "chunks f \<noteq> []" using c by (auto simp: delivers_def)
qed

text \<open>A list of sends, each with the number of chunks that got through.\<close>

definition sent_stream :: "(bytes \<times> nat) list \<Rightarrow> bytes list" where
  "sent_stream es = concat (map (\<lambda>(f, k). take k (chunks f)) es)"

lemma sent_stream_simps [simp]:
  "sent_stream [] = []" "sent_stream ((f, k) # es) = take k (chunks f) @ sent_stream es" "sent_stream (xs @ ys) = sent_stream xs @ sent_stream ys"
  by (simp_all add: sent_stream_def)

definition up_to_error :: "(framing_error + bytes option) list \<Rightarrow> bytes list" where
  "up_to_error outs = delivered (takeWhile (\<lambda>x. \<not> isl x) outs)"

lemma run_silent:
  assumes "run_machine push_event r es = (r', outs)" "set outs \<subseteq> {Inr None}"
  shows "(es \<noteq> [] \<longrightarrow> ra_active r') \<and> ra_maxChunk r' = ra_maxChunk r"
  using assms
proof (induction es arbitrary: r outs)
  case (Cons e es)
  obtain r1 o1 where r1: "push_event r e = (r1, o1)" by fastforce
  obtain r2 o2 where r2: "run_machine push_event r1 es = (r2, o2)" by fastforce
  have e: "r2 = r'" "o1 = Inr None" "set o2 \<subseteq> {Inr None}" using Cons.prems r1 r2 by (auto simp: run_machine.simps(2))
  then have "ra_active r1" "ra_maxChunk r1 = ra_maxChunk r" using push_silent_active r1 by blast+
  then show ?case using Cons.IH [of r1 o2] r2 e by (cases es) auto
qed simp

lemma run_take_chunks:
  assumes "fits f" "ra_maxChunk r = GatewayChunkSize" "\<not> ra_active r" "length ts = k" "k < length (chunks f)"
    and "run_machine push_event r (zip ts (take k (chunks f))) = (r', outs)"
  shows "outs = replicate k (Inr None) \<and> (0 < k \<longrightarrow> ra_active r') \<and> ra_maxChunk r' = GatewayChunkSize \<and> (k = 0 \<longrightarrow> r' = r)"
proof -
  define ts2 where "ts2 = ts @ replicate (length (chunks f) - k) 0"
  have len: "length ts2 = length (chunks f)" using assms(4,5) by (simp add: ts2_def)
  have "zip ts2 (chunks f) = zip ts (take k (chunks f)) @ zip (replicate (length (chunks f) - k) 0) (drop k (chunks f))"
    using assms(4,5) unfolding ts2_def by (subst append_take_drop_id [symmetric, of "chunks f" k], subst zip_append) (simp_all add: min_absorb2)
  then have "\<exists>r2 o2. run_machine push_event r (zip ts2 (chunks f)) = (r2, outs @ o2)"
    using assms(6) by (simp add: run_machine_append case_prod_beta)
  then obtain r2 o2 where full: "run_machine push_event r (zip ts2 (chunks f)) = (r2, outs @ o2)" by blast
  then have d: "outs @ o2 = replicate (length (chunks f) - 1) (Inr None) @ [Inr (Some f)]"
    using chunks_spec(4) [OF assms(1-3) len] by (simp add: delivers_def)
  have l: "length outs = k" using assms(4,5,6) length_run_machine [of push_event r "zip ts (take k (chunks f))"] by (simp add: min_absorb2)
  have "outs = take k (replicate (length (chunks f) - 1) (Inr None) @ [Inr (Some f)])" using d l by (metis append_eq_conv_conj)
  then have outs: "outs = replicate k (Inr None)" using assms(5) by (simp add: min_absorb1)
  then have "(zip ts (take k (chunks f)) \<noteq> [] \<longrightarrow> ra_active r') \<and> ra_maxChunk r' = ra_maxChunk r"
    by (intro run_silent [OF assms(6)]) auto
  then show ?thesis using outs assms(2,4,5,6) by (cases k) (auto simp: zip_eq_Nil_iff)
qed

lemma up_to_error_simps [simp]:
  "up_to_error [] = []" "isl x \<Longrightarrow> up_to_error (x # xs) = []" "up_to_error (Inr None # xs) = up_to_error xs"
  "up_to_error (Inr (Some f) # xs) = f # up_to_error xs" "up_to_error (replicate n (Inr None) @ xs) = up_to_error xs"
proof -
  show "up_to_error (replicate n (Inr None) @ xs) = up_to_error xs" by (induction n) (simp_all add: up_to_error_def)
qed (simp_all add: up_to_error_def)

lemma opening_chunk:
  assumes "\<forall>(f, k) \<in> set es. fits f \<and> k \<le> length (chunks f)" "sent_stream es \<noteq> []" "ra_active r" "ra_maxChunk r = GatewayChunkSize"
  shows "isl (snd (push_event r (t, hd (sent_stream es))))"
proof -
  have "\<exists>f. fits f \<and> hd (sent_stream es) = hd (chunks f)"
    using assms(1,2)
  proof (induction es)
    case (Cons e es)
    then show ?case by (cases e) (force simp: hd_append hd_take)
  qed simp
  then obtain f where f: "fits f" "hd (sent_stream es) = hd (chunks f)" by blast
  define r0 where "r0 = NewReassembler GatewayChunkSize"
  have r0: "ra_maxChunk r0 = GatewayChunkSize" "\<not> ra_active r0" by (simp_all add: r0_def NewReassembler_def)
  obtain c cs where c: "chunks f = c # cs" using chunks_spec(2) [OF f(1)] by (cases "chunks f") auto
  have "delivers r0 (t # replicate (length cs) 0) (c # cs) f" using chunks_spec(4) [OF f(1) r0] c by simp
  then have "snd (push_event r0 (t, c)) = hd (replicate (length cs) (Inr None) @ [Inr (Some f)])"
    by (cases "push_event r0 (t, c)") (auto simp: delivers_def run_machine.simps(2) Let_def split: prod.splits dest: arg_cong [where f = hd])
  then have "\<exists>x. snd (push_event r0 (t, c)) = Inr x" by (cases cs) auto
  then obtain r' x where "push_event r0 (t, c) = (r', Inr x)" by (cases "push_event r0 (t, c)") auto
  then show ?thesis using first_chunk_refused [OF r0(2)] assms(3,4) r0(1) f(2) c by simp
qed

text \<open>What a receiver makes of such a list before it reports an error: frames that were sent, in order. When every
  send was complete it is all of them.\<close>

lemma sent_stream_delivered:
  assumes "\<forall>(f, k) \<in> set es. fits f \<and> k \<le> length (chunks f)" "ra_maxChunk r = GatewayChunkSize" "\<not> ra_active r"
    "length ts = length (sent_stream es)" "run_machine push_event r (zip ts (sent_stream es)) = (r', outs)"
  shows "subseq (up_to_error outs) (map fst es)
    \<and> ((\<forall>(f, k) \<in> set es. k = length (chunks f)) \<longrightarrow> delivered outs = map fst es \<and> list_all (\<lambda>x. \<not> isl x) outs)"
  using assms
proof (induction es arbitrary: r ts outs)
  case Nil
  then show ?case by (simp add: up_to_error_def)
next
  case (Cons e es)
  obtain f k where e: "e = (f, k)" by fastforce
  have f: "fits f" "k \<le> length (chunks f)" using Cons.prems(1) e by auto
  define t1 where "t1 = take k ts"
  define t2 where "t2 = drop k ts"
  have len: "length t1 = k" "length t2 = length (sent_stream es)" using Cons.prems(4) f(2) by (simp_all add: e t1_def t2_def)
  have "zip ts (sent_stream (e # es)) = zip t1 (take k (chunks f)) @ zip t2 (sent_stream es)"
    using len f(2) unfolding e sent_stream_simps t1_def t2_def by (subst append_take_drop_id [symmetric, of ts k], subst zip_append) simp_all
  then obtain r1 o1 o2 where r1: "run_machine push_event r (zip t1 (take k (chunks f))) = (r1, o1)"
      and r2: "run_machine push_event r1 (zip t2 (sent_stream es)) = (r', o2)" and outs: "outs = o1 @ o2"
    using Cons.prems(5) by (auto simp: run_machine_append Let_def split: prod.splits)
  show ?case
  proof (cases "k = length (chunks f)")
    case True
    then have "delivers r t1 (chunks f) f" using chunks_spec(4) f(1) Cons.prems(2,3) len(1) by blast
    then have d: "\<not> ra_active r1" "ra_maxChunk r1 = GatewayChunkSize" "o1 = replicate (length (chunks f) - 1) (Inr None) @ [Inr (Some f)]"
      using r1 True Cons.prems(2) by (auto simp: delivers_def)
    have "up_to_error outs = f # up_to_error o2"
      by (simp add: outs d(3))
    then show ?thesis using Cons.IH [OF _ d(2,1) len(2) r2] Cons.prems(1) d(3) by (auto simp: outs e list_all_iff)
  next
    case False
    then have t: "o1 = replicate k (Inr None)" "0 < k \<longrightarrow> ra_active r1" "ra_maxChunk r1 = GatewayChunkSize" "k = 0 \<longrightarrow> r1 = r"
      using run_take_chunks [OF f(1) Cons.prems(2,3) len(1) _ r1] f(2) by auto
    have u: "up_to_error outs = up_to_error o2" by (simp add: outs t(1))
    have "subseq (up_to_error o2) (map fst es)"
    proof (cases "k = 0")
      case True
      then show ?thesis using Cons.IH [OF _ _ _ len(2) r2] Cons.prems(1-3) t by auto
    next
      case False
      then have a: "ra_active r1" using t(2) by simp
      have "up_to_error o2 = []"
      proof (cases "zip t2 (sent_stream es)")
        case Nil
        then show ?thesis using r2 by (auto simp: up_to_error_def)
      next
        case z: (Cons c cs)
        then have "snd c = hd (sent_stream es)" "sent_stream es \<noteq> []" by (cases t2; cases "sent_stream es"; auto)+
        then have "isl (snd (push_event r1 c))"
          using opening_chunk [of es r1 "fst c"] Cons.prems(1) a t(3) by (cases c) auto
        then show ?thesis using r2 z by (auto simp: run_machine.simps(2) case_prod_beta Let_def)
      qed
      then show ?thesis by simp
    qed
    then show ?thesis using u False by (auto simp: e intro: subseq_Cons')
  qed
qed

section \<open>Payloads on the wire\<close>

definition data_of :: "32 word \<Rightarrow> bytes list \<Rightarrow> bytes list" where
  "data_of cid frames =
     concat (map (\<lambda>f. case DecodeFrame f of Inr (op, c, p) \<Rightarrow> if op = OpData \<and> c = cid then [p] else [] | Inl _ \<Rightarrow> []) frames)"

lemma data_of_append [simp]: "data_of cid (xs @ ys) = data_of cid xs @ data_of cid ys"
  by (simp add: data_of_def)

lemma data_of_Nil [simp]: "data_of cid [] = []"
  by (simp add: data_of_def)

lemma data_of_chunk [simp]:
  "length p \<le> MaxFramePayload \<Longrightarrow> data_of cid [EncodeFrame OpData c p] = (if c = cid then [p] else [])"
  by (simp add: data_of_def DecodeFrame_EncodeFrame OpData_def OpNotice_def)

lemma decode_op: "DecodeFrame (EncodeFrame op c p) = Inr (op', c', p') \<Longrightarrow> op' = op"
  by (auto simp: DecodeFrame_def EncodeFrame_eq Let_def split: if_splits)

lemma data_of_other [simp]: "op \<noteq> OpData \<Longrightarrow> data_of cid [EncodeFrame op c p] = []"
  by (auto simp: data_of_def split: sum.splits dest: decode_op)

lemma ops_distinct [simp]: "OpClose \<noteq> OpData" "OpPong \<noteq> OpData"
  by (simp_all add: OpClose_def OpPong_def OpData_def)

lemma data_of_prefix: "prefix xs ys \<Longrightarrow> prefix (data_of cid xs) (data_of cid ys)"
  by (auto simp: prefix_def)

text \<open>A prefix of a stream of sends is itself one, of the same frames.\<close>

lemma sent_stream_prefix:
  assumes "prefix xs (sent_stream es)"
  shows "\<exists>es'. xs = sent_stream es' \<and> map fst es' = map fst es \<and> list_all2 (\<lambda>a b. snd a \<le> snd b) es' es"
  using assms
proof (induction es arbitrary: xs)
  case (Cons e es)
  obtain f k where e: "e = (f, k)" by fastforce
  show ?case
  proof (cases "prefix xs (take k (chunks f))")
    case True
    then have "xs = take (min k (length xs)) (chunks f)" by (metis append_eq_conv_conj prefix_def take_take min.commute)
    moreover have "\<exists>es'. [] = sent_stream es' \<and> map fst es' = map fst es \<and> list_all2 (\<lambda>a b. snd a \<le> snd b) es' es"
      using Cons.IH [of "[]"] by simp
    then obtain es' where "[] = sent_stream es'" "map fst es' = map fst es" "list_all2 (\<lambda>a b. snd a \<le> snd b) es' es" by blast
    ultimately show ?thesis by (intro exI [of _ "(f, min k (length xs)) # es'"]) (simp add: e)
  next
    case False
    then obtain ys where ys: "xs = take k (chunks f) @ ys" "prefix ys (sent_stream es)"
      using Cons.prems e by (auto simp: prefix_append)
    then obtain es' where "ys = sent_stream es'" "map fst es' = map fst es" "list_all2 (\<lambda>a b. snd a \<le> snd b) es' es" using Cons.IH by blast
    then show ?thesis by (intro exI [of _ "(f, k) # es'"]) (simp add: e ys(1))
  qed
qed simp

section \<open>The invariant\<close>

text \<open>Sends of one connection: what is still to be queued belongs to the last one started, and while the connection
  and the link are up every earlier one is complete.\<close>

definition complete :: "bytes \<times> nat \<Rightarrow> bool" where
  "complete e \<longleftrightarrow> snd e = length (chunks (fst e))"

definition finished :: "gateway_conn \<Rightarrow> (bytes \<times> nat) list" where
  "finished n = (if gn_sending n = None then gn_started n else butlast (gn_started n))"

definition send_inv :: "bool \<Rightarrow> gateway_conn \<Rightarrow> bool" where
  "send_inv up n \<longleftrightarrow>
     (\<forall>e \<in> set (gn_started n). fits (fst e) \<and> snd e \<le> length (chunks (fst e))) \<and> (\<forall>f \<in> set (gn_waiting n). fits f)
     \<and> (case gn_sending n of
          None \<Rightarrow> True
        | Some ps \<Rightarrow> gn_started n \<noteq> [] \<and> ps \<noteq> [] \<and> ps = drop (snd (last (gn_started n))) (chunks (fst (last (gn_started n)))))
     \<and> (up \<and> \<not> gn_closed n \<longrightarrow> (\<forall>e \<in> set (finished n). complete e))"

text \<open>What the hub took and can take is what the chunks received reassemble to.\<close>

definition received :: "gateway_conn \<Rightarrow> reassembler \<times> (framing_error + bytes option) list" where
  "received n = run_machine push_event (NewReassembler GatewayChunkSize) (gn_parts n)"

definition recv_inv :: "gateway_conn \<Rightarrow> bool" where
  "recv_inv n \<longleftrightarrow> length (gn_inbound n) \<le> gatewayConnQueue \<and> prefix (gn_read n @ gn_inbound n) (delivered (snd (received n)))
     \<and> (\<not> gn_closed n \<longrightarrow> gn_recv n = fst (received n) \<and> gn_read n @ gn_inbound n = delivered (snd (received n))
          \<and> list_all (\<lambda>x. \<not> isl x) (snd (received n)))"

definition table_inv :: "gateway_session \<Rightarrow> bool" where
  "table_inv s \<longleftrightarrow> distinct (map fst (gc_conns (gs_client s))) \<and> int (length (gc_conns (gs_client s))) \<le> gc_maxClients (gs_client s)
     \<and> (\<forall>x \<in> set (gc_conns (gs_client s)). snd x < length (gs_conns s) \<and> gn_id (conn_at s (snd x)) = fst x
          \<and> gn_served (conn_at s (snd x)) \<and> \<not> gn_closed (conn_at s (snd x)))
     \<and> (\<forall>i < length (gs_conns s). gn_served (conn_at s i) \<and> \<not> gn_closed (conn_at s i) \<longrightarrow>
          (gn_id (conn_at s i), i) \<in> set (gc_conns (gs_client s)))"

definition only_user :: "gateway_session \<Rightarrow> nat \<Rightarrow> bool" where
  "only_user s i \<longleftrightarrow> (\<forall>j < length (gs_conns s). gn_id (conn_at s j) = gn_id (conn_at s i) \<longrightarrow> j = i)"

definition queue_inv :: "gateway_session \<Rightarrow> bool" where
  "queue_inv s \<longleftrightarrow> length (gs_writes s) \<le> gatewayWriteQueue
     \<and> (\<exists>lost. gs_enqueued s = gs_wire s @ lost @ gs_writes s \<and> (lost \<noteq> [] \<longrightarrow> gs_done s))"

definition stream_inv :: "gateway_session \<Rightarrow> bool" where
  "stream_inv s \<longleftrightarrow>
     (\<forall>i < length (gs_conns s). only_user s i \<longrightarrow> data_of (gn_id (conn_at s i)) (gs_enqueued s) = sent_stream (gn_started (conn_at s i)))
     \<and> (\<forall>cid. (\<forall>i < length (gs_conns s). gn_id (conn_at s i) \<noteq> cid) \<longrightarrow> data_of cid (gs_enqueued s) = [])"

definition proof_inv :: "link_env \<Rightarrow> gateway_session \<Rightarrow> bool" where
  "proof_inv E s \<longleftrightarrow> (\<forall>i < length (gs_conns s).
     VerifyConnectProof (le_hmac E) (gc_rendezvousKey (gs_client s)) (gc_relayID (gs_client s)) (fst (gn_proof (conn_at s i))) (snd (gn_proof (conn_at s i))))"

definition link_inv :: "link_env \<Rightarrow> gateway_session \<Rightarrow> bool" where
  "link_inv E s \<longleftrightarrow> table_inv s \<and> queue_inv s \<and> stream_inv s \<and> proof_inv E s
     \<and> (\<forall>i < length (gs_conns s). send_inv (\<not> gs_done s) (conn_at s i) \<and> recv_inv (conn_at s i))"

lemma upd_conn_fields [simp]:
  "gs_client (upd_conn i f s) = gs_client s" "gs_writes (upd_conn i f s) = gs_writes s" "gs_done (upd_conn i f s) = gs_done s"
  "gs_wire (upd_conn i f s) = gs_wire s" "gs_enqueued (upd_conn i f s) = gs_enqueued s" "length (gs_conns (upd_conn i f s)) = length (gs_conns s)"
  "gs_failErr (upd_conn i f s) = gs_failErr s" "gs_readErr (upd_conn i f s) = gs_readErr s"
  by (simp_all add: upd_conn_def)

lemma upd_conn_at [simp]: "j < length (gs_conns s) \<Longrightarrow> conn_at (upd_conn i f s) j = (if j = i then f (conn_at s i) else conn_at s j)"
  by (simp add: upd_conn_def nth_list_update)

lemma upd_client_fields [simp]:
  "gs_client (upd_client f s) = f (gs_client s)" "gs_writes (upd_client f s) = gs_writes s" "gs_done (upd_client f s) = gs_done s"
  "gs_wire (upd_client f s) = gs_wire s" "gs_enqueued (upd_client f s) = gs_enqueued s" "gs_conns (upd_client f s) = gs_conns s"
  by (simp_all add: upd_client_def)

text \<open>A connection changes, but not what the table and the streams depend on.\<close>

lemma upd_conn_inv:
  assumes "link_inv E s" "i < length (gs_conns s)"
    and "gn_id (f (conn_at s i)) = gn_id (conn_at s i)" "gn_served (f (conn_at s i)) = gn_served (conn_at s i)"
      "gn_closed (f (conn_at s i)) = gn_closed (conn_at s i)" "sent_stream (gn_started (f (conn_at s i))) = sent_stream (gn_started (conn_at s i))"
      "gn_proof (f (conn_at s i)) = gn_proof (conn_at s i)"
    and "send_inv (\<not> gs_done s) (f (conn_at s i))" "recv_inv (f (conn_at s i))"
  shows "link_inv E (upd_conn i f s)"
proof -
  have same: "gn_id (conn_at (upd_conn i f s) j) = gn_id (conn_at s j)" "gn_served (conn_at (upd_conn i f s) j) = gn_served (conn_at s j)"
      "gn_closed (conn_at (upd_conn i f s) j) = gn_closed (conn_at s j)" "gn_proof (conn_at (upd_conn i f s) j) = gn_proof (conn_at s j)"
      "sent_stream (gn_started (conn_at (upd_conn i f s) j)) = sent_stream (gn_started (conn_at s j))" if "j < length (gs_conns s)" for j
    using that assms(3-7) by simp_all
  have "table_inv (upd_conn i f s)" using assms(1) same by (simp add: link_inv_def table_inv_def del: upd_conn_at)
  moreover have "only_user (upd_conn i f s) j = only_user s j" if "j < length (gs_conns s)" for j
    using that same by (simp add: only_user_def del: upd_conn_at)
  then have "stream_inv (upd_conn i f s)" using assms(1) same by (simp add: link_inv_def stream_inv_def del: upd_conn_at)
  moreover have "proof_inv E (upd_conn i f s)" using assms(1) same by (simp add: link_inv_def proof_inv_def del: upd_conn_at)
  moreover have "queue_inv (upd_conn i f s)" using assms(1) by (simp add: link_inv_def queue_inv_def)
  ultimately show ?thesis using assms(1,8,9) by (simp add: link_inv_def)
qed

lemma conn_close_inv:
  "send_inv up n \<Longrightarrow> send_inv up (n\<lparr>gn_closed := True\<rparr>)" "recv_inv n \<Longrightarrow> recv_inv (n\<lparr>gn_closed := True\<rparr>)"
  by (simp_all add: send_inv_def recv_inv_def finished_def received_def split: option.splits)

text \<open>A connection leaves the table and its pipe is shut down.\<close>

definition drop_conn :: "nat \<Rightarrow> gateway_session \<Rightarrow> gateway_session" where
  "drop_conn i s = pipe_Shutdown i (removeConn (gn_id (conn_at s i)) i s)"

lemma removeConn_fields [simp]:
  "gs_writes (removeConn c i s) = gs_writes s" "gs_done (removeConn c i s) = gs_done s" "gs_wire (removeConn c i s) = gs_wire s"
  "gs_enqueued (removeConn c i s) = gs_enqueued s" "gs_conns (removeConn c i s) = gs_conns s"
  "same_config (gs_client s) (gs_client (removeConn c i s))"
  by (simp_all add: removeConn_def same_config_def)

lemma removeConn_set:
  assumes "distinct (map fst (gc_conns (gs_client s)))"
  shows "set (gc_conns (gs_client (removeConn c i s))) = set (gc_conns (gs_client s)) - {(c, i)}"
proof -
  have "(c, j) \<in> set (gc_conns (gs_client s)) \<Longrightarrow> map_of (gc_conns (gs_client s)) c = Some j" for j using assms by simp
  then show ?thesis by (auto simp: removeConn_def lookupConn_def AList.delete_eq dest: map_of_SomeD)
qed

lemma removeConn_distinct: "distinct (map fst (gc_conns (gs_client s))) \<Longrightarrow> distinct (map fst (gc_conns (gs_client (removeConn c i s))))"
  by (simp add: removeConn_def distinct_delete)

lemma removeConn_length: "length (gc_conns (gs_client (removeConn c i s))) \<le> length (gc_conns (gs_client s))"
  by (simp add: removeConn_def length_delete_le)

lemma drop_conn_inv:
  assumes "link_inv E s" "i < length (gs_conns s)"
  shows "link_inv E (drop_conn i s)"
proof -
  let ?t = "drop_conn i s"
  have d: "distinct (map fst (gc_conns (gs_client s)))" using assms(1) by (simp add: link_inv_def table_inv_def)
  have c: "gs_client ?t = gs_client (removeConn (gn_id (conn_at s i)) i s)" "length (gs_conns ?t) = length (gs_conns s)"
      "gs_enqueued ?t = gs_enqueued s" "gs_done ?t = gs_done s" by (simp_all add: drop_conn_def pipe_Shutdown_def)
  have conn: "conn_at ?t j = (if j = i then (conn_at s i)\<lparr>gn_closed := True\<rparr> else conn_at s j)" if "j < length (gs_conns s)" for j
    using that by (simp add: drop_conn_def pipe_Shutdown_def)
  have cfg: "same_config (gs_client s) (gs_client ?t)" by (simp add: c)
  have inv: "table_inv s" using assms(1) by (simp add: link_inv_def)
  have "table_inv ?t"
    unfolding table_inv_def
  proof (intro conjI ballI allI impI)
    show "distinct (map fst (gc_conns (gs_client ?t)))" using d by (simp add: c removeConn_distinct)
    show "int (length (gc_conns (gs_client ?t))) \<le> gc_maxClients (gs_client ?t)"
      using inv removeConn_length [of "gn_id (conn_at s i)" i s] cfg by (simp add: c table_inv_def same_config_def)
  next
    fix x assume "x \<in> set (gc_conns (gs_client ?t))"
    then have x: "x \<in> set (gc_conns (gs_client s))" "x \<noteq> (gn_id (conn_at s i), i)" using removeConn_set [OF d] by (auto simp: c)
    then have "snd x \<noteq> i" using inv by (cases x) (auto simp: table_inv_def)
    then show "snd x < length (gs_conns ?t)" "gn_id (conn_at ?t (snd x)) = fst x" "gn_served (conn_at ?t (snd x))" "\<not> gn_closed (conn_at ?t (snd x))"
      using x(1) inv by (auto simp: c conn table_inv_def)
  next
    fix j assume "j < length (gs_conns ?t)" "gn_served (conn_at ?t j) \<and> \<not> gn_closed (conn_at ?t j)"
    then have "j \<noteq> i" "(gn_id (conn_at s j), j) \<in> set (gc_conns (gs_client s))"
      using inv by (auto simp: c conn table_inv_def split: if_splits)
    then show "(gn_id (conn_at ?t j), j) \<in> set (gc_conns (gs_client ?t))"
      using removeConn_set [OF d] inv by (auto simp: c conn table_inv_def)
  qed
  moreover have "only_user ?t j = only_user s j" if "j < length (gs_conns s)" for j
    using that by (auto simp: only_user_def c conn)
  then have "stream_inv ?t" using assms(1) by (auto simp: link_inv_def stream_inv_def c conn)
  moreover have "proof_inv E ?t" using assms(1) cfg by (auto simp: link_inv_def proof_inv_def c(2) conn same_config_def)
  moreover have "queue_inv ?t" using assms(1) by (simp add: link_inv_def queue_inv_def drop_conn_def pipe_Shutdown_def)
  ultimately show ?thesis using assms(1) conn_close_inv by (auto simp: link_inv_def c(2,4) conn)
qed

text \<open>Frames that carry no data.\<close>

lemma enqueue_fields [simp]:
  "gs_client (fst (enqueue f s)) = gs_client s" "gs_conns (fst (enqueue f s)) = gs_conns s" "gs_done (fst (enqueue f s)) = gs_done s"
  "gs_wire (fst (enqueue f s)) = gs_wire s" "gs_failErr (fst (enqueue f s)) = gs_failErr s" "gs_readErr (fst (enqueue f s)) = gs_readErr s"
  by (simp_all add: enqueue_def)

lemma enqueue_inv:
  assumes "link_inv E s" "op \<noteq> OpData"
  shows "link_inv E (fst (enqueue (EncodeFrame op c p) s))"
proof -
  let ?t = "fst (enqueue (EncodeFrame op c p) s)"
  have e: "data_of cid (gs_enqueued ?t) = data_of cid (gs_enqueued s)" for cid using assms(2) by (simp add: enqueue_def)
  have "queue_inv ?t" using assms(1) by (auto simp: link_inv_def queue_inv_def enqueue_def)
  moreover have "only_user ?t i = only_user s i" for i by (simp add: only_user_def)
  then have "stream_inv ?t" using assms(1) e by (simp add: link_inv_def stream_inv_def)
  ultimately show ?thesis using assms(1) by (simp add: link_inv_def table_inv_def proof_inv_def)
qed

lemma reject_inv: "link_inv E s \<Longrightarrow> link_inv E (reject c r s)"
  by (simp add: reject_def enqueue_inv)

lemma reject_fields [simp]: "gs_client (reject c r s) = gs_client s" "gs_conns (reject c r s) = gs_conns s"
  by (simp_all add: reject_def)

lemma pipe_Close_drop:
  assumes "i < length (gs_conns s)"
  shows "pipe_Close i reason s = (if gn_closed (conn_at s i) then s else reject (gn_id (conn_at s i)) reason (drop_conn i s))"
proof -
  have "removeConn c i (pipe_Shutdown i s) = pipe_Shutdown i (removeConn c i s)" for c
    by (simp add: removeConn_def pipe_Shutdown_def upd_conn_def upd_client_def lookupConn_def)
  moreover have "gn_id (conn_at (pipe_Shutdown i s) i) = gn_id (conn_at s i)" using assms by (simp add: pipe_Shutdown_def)
  ultimately show ?thesis by (simp add: pipe_Close_def closeConn_def drop_conn_def)
qed

lemma pipe_Close_inv: "link_inv E s \<Longrightarrow> i < length (gs_conns s) \<Longrightarrow> link_inv E (pipe_Close i reason s)"
  by (simp add: pipe_Close_drop reject_inv drop_conn_inv)

lemma drop_conn_fields [simp]:
  "length (gs_conns (drop_conn i s)) = length (gs_conns s)" "same_config (gs_client s) (gs_client (drop_conn i s))"
  by (simp_all add: drop_conn_def pipe_Shutdown_def)

lemma pipe_Close_fields:
  "i < length (gs_conns s) \<Longrightarrow> length (gs_conns (pipe_Close i reason s)) = length (gs_conns s)"
  "i < length (gs_conns s) \<Longrightarrow> same_config (gs_client s) (gs_client (pipe_Close i reason s))"
  by (simp_all add: pipe_Close_drop)

lemma stale_drop:
  assumes "link_inv E s" "map_of (gc_conns (gs_client s)) connID = Some i"
  shows "i < length (gs_conns s)"
    "pipe_Shutdown i (upd_client (\<lambda>c. c\<lparr>gc_conns := AList.delete connID (gc_conns c)\<rparr>) s) = drop_conn i s"
proof -
  have "(connID, i) \<in> set (gc_conns (gs_client s))" using assms(2) by (rule map_of_SomeD)
  then have "i < length (gs_conns s) \<and> gn_id (conn_at s i) = connID" using assms(1) by (force simp: link_inv_def table_inv_def)
  then show "i < length (gs_conns s)" "pipe_Shutdown i (upd_client (\<lambda>c. c\<lparr>gc_conns := AList.delete connID (gc_conns c)\<rparr>) s) = drop_conn i s"
    using assms(2) by (simp_all add: drop_conn_def removeConn_def lookupConn_def)
qed

lemma handleClose_inv: "link_inv E s \<Longrightarrow> link_inv E (handleClose connID s)"
  using stale_drop drop_conn_inv
  by (fastforce simp: handleClose_def takeConn_def lookupConn_def split: option.splits)

lemma stop_inv:
  assumes "link_inv E s"
  shows "link_inv E (stop s)" "link_inv E (fail e s)" "link_inv E (stop (s\<lparr>gs_readErr := r\<rparr>))"
    "link_inv E (stop (s\<lparr>gs_healthFailures := h, gs_healthRunning := b\<rparr>))"
  using assms
  by (auto simp: link_inv_def stop_def fail_def table_inv_def queue_inv_def stream_inv_def only_user_def proof_inv_def send_inv_def split: option.splits)

lemma write_turn_inv:
  assumes "link_inv E s"
  shows "link_inv E (write_turn ok s)"
proof (cases "gs_done s \<or> gs_writes s = []")
  case True
  then show ?thesis using assms by (auto simp: write_turn_def)
next
  case False
  then obtain f rest where q: "\<not> gs_done s" "gs_writes s = f # rest" by (cases "gs_writes s") auto
  have inv: "gs_enqueued s = gs_wire s @ f # rest" "length (f # rest) \<le> gatewayWriteQueue" using assms q by (auto simp: link_inv_def queue_inv_def)
  have same: "table_inv t \<and> stream_inv t \<and> proof_inv E t"
    if "gs_client t = gs_client s" "gs_conns t = gs_conns s" "gs_enqueued t = gs_enqueued s" for t
    using assms that by (simp add: link_inv_def table_inv_def stream_inv_def only_user_def proof_inv_def)
  show ?thesis
  proof (cases ok)
    case True
    define t where "t = s\<lparr>gs_writes := rest, gs_wire := gs_wire s @ [f]\<rparr>"
    have "queue_inv t" using inv by (simp add: queue_inv_def t_def)
    then have "link_inv E t" using assms same [of t] by (simp add: link_inv_def t_def)
    then show ?thesis using q True by (simp add: write_turn_def t_def)
  next
    case False
    define t where "t = fail WriteFailed (s\<lparr>gs_writes := rest\<rparr>)"
    have f: "gs_client t = gs_client s" "gs_conns t = gs_conns s" "gs_enqueued t = gs_enqueued s" "gs_done t" "gs_wire t = gs_wire s" "gs_writes t = rest"
      by (simp_all add: t_def fail_def stop_def)
    have "queue_inv t" using inv by (auto simp: queue_inv_def f intro: exI [of _ "[f]"])
    moreover have "send_inv False n" if "send_inv True n" for n using that by (simp add: send_inv_def)
    ultimately have "link_inv E t" using assms same [of t] q by (simp add: link_inv_def f)
    then show ?thesis using q False by (simp add: write_turn_def t_def)
  qed
qed

section \<open>Sends\<close>

lemma WriteFrame_inv:
  assumes "link_inv E s" "i < length (gs_conns s)"
  shows "link_inv E (fst (WriteFrame i frame s))"
proof -
  have "link_inv E (upd_conn i (\<lambda>n. n\<lparr>gn_waiting := gn_waiting n @ [frame]\<rparr>) s)" if "fits frame"
    using that assms
    by (intro upd_conn_inv) (auto simp: link_inv_def send_inv_def recv_inv_def received_def finished_def split: option.splits)
  then show ?thesis using assms(1) by (simp add: WriteFrame_def fits_def)
qed

lemma send_lock_inv:
  assumes "link_inv E s" "i < length (gs_conns s)"
  shows "link_inv E (send_lock i k s)"
proof (cases "gn_sending (conn_at s i) \<noteq> None \<or> k \<ge> length (gn_waiting (conn_at s i))")
  case True
  then show ?thesis using assms by (auto simp: send_lock_def)
next
  case False
  define n where "n = conn_at s i"
  define frame where "frame = gn_waiting n ! k"
  have n: "send_inv (\<not> gs_done s) n" "recv_inv n" using assms by (simp_all add: n_def link_inv_def)
  have frame: "fits frame" using n(1) False by (auto simp: frame_def n_def send_inv_def)
  have sub: "set (take k (gn_waiting n) @ drop (Suc k) (gn_waiting n)) \<subseteq> set (gn_waiting n)"
    by (auto dest: in_set_takeD in_set_dropD)
  have "link_inv E (upd_conn i (\<lambda>n. n\<lparr>gn_waiting := take k (gn_waiting n) @ drop (Suc k) (gn_waiting n),
      gn_sending := Chunk [] frame GatewayChunkSize, gn_started := gn_started n @ [(frame, 0)]\<rparr>) s)"
  proof (rule upd_conn_inv [OF assms])
    show "send_inv (\<not> gs_done s) ((conn_at s i)\<lparr>gn_waiting := take k (gn_waiting (conn_at s i)) @ drop (Suc k) (gn_waiting (conn_at s i)),
        gn_sending := Chunk [] frame GatewayChunkSize, gn_started := gn_started (conn_at s i) @ [(frame, 0)]\<rparr>)"
      using n(1) frame chunks_spec(1,2) [OF frame] False sub unfolding n_def [symmetric]
      by (auto simp: send_inv_def finished_def n_def [symmetric])
  qed (use n(2) in \<open>simp_all add: n_def recv_inv_def received_def\<close>)
  then show ?thesis using False by (simp add: send_lock_def frame_def n_def Let_def)
qed

lemma bump_last_snoc [simp]: "bump_last (xs @ [(f, k)]) = xs @ [(f, Suc k)]"
  by (simp add: bump_last_def)

lemma chunk_queued_inv:
  assumes inv: "link_inv E s" and i: "i < length (gs_conns s)" and ps: "gn_sending (conn_at s i) = Some (part # rest)"
    and up: "\<not> gs_done s" "length (gs_writes s) < gatewayWriteQueue"
  shows "link_inv E (upd_conn i (\<lambda>n. n\<lparr>gn_sending := (if rest = [] then None else Some rest), gn_started := bump_last (gn_started n)\<rparr>)
    (fst (enqueue (EncodeFrame OpData (gn_id (conn_at s i)) part) s)))" (is "link_inv E (upd_conn i ?f ?t)")
proof -
  define n where "n = conn_at s i"
  have n: "send_inv True n" "recv_inv n" using inv i up by (simp_all add: n_def link_inv_def)
  obtain xs f k where st: "gn_started n = xs @ [(f, k)]" using n(1) ps
    by (cases "gn_started n" rule: rev_cases) (auto simp: send_inv_def n_def)
  have d: "part # rest = drop k (chunks f)" using n(1) ps st by (simp add: send_inv_def n_def)
  have k: "k < length (chunks f)" using d by (metis drop_eq_Nil leI list.distinct(1))
  have part: "part = chunks f ! k" "rest = drop (Suc k) (chunks f)" using d k by (metis Cons_nth_drop_Suc list.inject)+
  have f: "fits f" using n(1) st by (auto simp: send_inv_def)
  have full: "rest = [] \<Longrightarrow> Suc k = length (chunks f)" using part(2) k by simp
  have len: "length part \<le> MaxFramePayload" using chunks_spec(3) [OF f] k part(1) by simp
  have stream: "sent_stream (gn_started (?f n)) = sent_stream (gn_started n) @ [part]"
    using k by (simp add: st part(1) take_Suc_conv_app_nth)
  have t: "gs_enqueued ?t = gs_enqueued s @ [EncodeFrame OpData (gn_id n) part]" "gs_writes ?t = gs_writes s @ [EncodeFrame OpData (gn_id n) part]"
    using up by (simp_all add: enqueue_def n_def)
  have conn: "conn_at (upd_conn i ?f ?t) j = (if j = i then ?f n else conn_at s j)" if "j < length (gs_conns s)" for j
    using that by (simp add: n_def)
  have same: "gn_id (?f n) = gn_id n" "gn_served (?f n) = gn_served n" "gn_closed (?f n) = gn_closed n" "gn_proof (?f n) = gn_proof n" by simp_all
  have "table_inv (upd_conn i ?f ?t)" using inv same by (auto simp: link_inv_def table_inv_def conn n_def)
  moreover have "queue_inv (upd_conn i ?f ?t)" using inv up t by (auto simp: link_inv_def queue_inv_def)
  moreover have "proof_inv E (upd_conn i ?f ?t)" using inv same by (auto simp: link_inv_def proof_inv_def conn n_def)
  moreover have "stream_inv (upd_conn i ?f ?t)"
    unfolding stream_inv_def
  proof (intro conjI allI impI)
    fix j assume j: "j < length (gs_conns (upd_conn i ?f ?t))" "only_user (upd_conn i ?f ?t) j"
    then have "only_user s j" by (auto simp: only_user_def conn n_def split: if_splits)
    then have old: "data_of (gn_id (conn_at s j)) (gs_enqueued s) = sent_stream (gn_started (conn_at s j))"
      using inv j(1) by (simp add: link_inv_def stream_inv_def)
    have "gn_id n \<noteq> gn_id (conn_at s j)" if "j \<noteq> i" using that \<open>only_user s j\<close> i by (auto simp: only_user_def n_def)
    then show "data_of (gn_id (conn_at (upd_conn i ?f ?t) j)) (gs_enqueued (upd_conn i ?f ?t)) = sent_stream (gn_started (conn_at (upd_conn i ?f ?t) j))"
      using j(1) old stream len by (auto simp: conn t(1) n_def)
  next
    fix cid assume "\<forall>j < length (gs_conns (upd_conn i ?f ?t)). gn_id (conn_at (upd_conn i ?f ?t) j) \<noteq> cid"
    then have "\<forall>j < length (gs_conns s). gn_id (conn_at s j) \<noteq> cid" by (auto simp: conn n_def split: if_splits)
    then show "data_of cid (gs_enqueued (upd_conn i ?f ?t)) = []"
      using inv i len by (auto simp: link_inv_def stream_inv_def t(1) n_def)
  qed
  moreover have "send_inv True (?f n)"
  proof (cases "rest = []")
    case True
    then show ?thesis using n(1) st ps f full by (auto simp: send_inv_def finished_def complete_def n_def [symmetric])
  next
    case False
    then show ?thesis using n(1) st ps f k part(2) by (auto simp: send_inv_def finished_def complete_def n_def [symmetric])
  qed
  moreover have "recv_inv (?f n)" using n(2) by (simp add: recv_inv_def received_def)
  ultimately show ?thesis using inv up by (auto simp: link_inv_def n_def)
qed

lemma send_failed_inv:
  assumes inv: "link_inv E s" and i: "i < length (gs_conns s)"
  shows "gs_done s \<Longrightarrow> link_inv E (upd_conn i (\<lambda>n. n\<lparr>gn_sending := None\<rparr>) s)"
    "link_inv E (pipe_Shutdown i (removeConn (gn_id (conn_at s i)) i (upd_conn i (\<lambda>n. n\<lparr>gn_sending := None\<rparr>) s)))"
proof -
  have n: "send_inv (\<not> gs_done s) (conn_at s i)" "recv_inv (conn_at s i)" using inv i by (simp_all add: link_inv_def)
  show "gs_done s \<Longrightarrow> link_inv E (upd_conn i (\<lambda>n. n\<lparr>gn_sending := None\<rparr>) s)"
    using n by (intro upd_conn_inv [OF inv i]) (simp_all add: send_inv_def recv_inv_def received_def)
  have "pipe_Shutdown i (removeConn (gn_id (conn_at s i)) i (upd_conn i (\<lambda>n. n\<lparr>gn_sending := None\<rparr>) s))
      = upd_conn i (\<lambda>n. n\<lparr>gn_sending := None\<rparr>) (drop_conn i s)"
    using i by (cases "conn_at s i") (simp add: drop_conn_def pipe_Shutdown_def removeConn_def lookupConn_def upd_conn_def upd_client_def)
  moreover have "link_inv E (upd_conn i (\<lambda>n. n\<lparr>gn_sending := None\<rparr>) (drop_conn i s))"
    using n i
    by (intro upd_conn_inv drop_conn_inv [OF inv i])
      (simp_all add: send_inv_def recv_inv_def received_def drop_conn_def pipe_Shutdown_def)
  ultimately show "link_inv E (pipe_Shutdown i (removeConn (gn_id (conn_at s i)) i (upd_conn i (\<lambda>n. n\<lparr>gn_sending := None\<rparr>) s)))" by simp
qed

lemma send_chunk_inv:
  assumes inv: "link_inv E s" and i: "i < length (gs_conns s)"
  shows "link_inv E (fst (send_chunk i s))"
proof (cases "gn_sending (conn_at s i)")
  case None
  then show ?thesis using inv by (simp add: send_chunk_def)
next
  case (Some ps)
  have "ps \<noteq> []" using inv i Some by (auto simp: link_inv_def send_inv_def)
  then obtain part rest where ps: "gn_sending (conn_at s i) = Some (part # rest)" using Some by (cases ps) auto
  consider "gs_done s" | "\<not> gs_done s" "length (gs_writes s) < gatewayWriteQueue" | "\<not> gs_done s" "\<not> length (gs_writes s) < gatewayWriteQueue" by blast
  then show ?thesis
  proof cases
    case 1
    then show ?thesis using ps send_failed_inv(1) [OF inv i] by (simp add: send_chunk_def enqueue_def)
  next
    case 2
    then show ?thesis using ps chunk_queued_inv [OF inv i ps] by (simp add: send_chunk_def enqueue_def)
  next
    case 3
    then show ?thesis using ps send_failed_inv(2) [OF inv i] by (simp add: send_chunk_def enqueue_def)
  qed
qed

section \<open>Opening and receiving\<close>

lemma new_conn_inv:
  assumes inv: "link_inv E s"
    and pf: "VerifyConnectProof (le_hmac E) (gc_rendezvousKey (gs_client s)) (gc_relayID (gs_client s)) (fst pf) (snd pf)"
  shows "link_inv E (s\<lparr>gs_conns := gs_conns s @ [newPipeConn cid pf]\<rparr>)" (is "link_inv E ?t")
proof -
  have conn: "conn_at ?t j = (if j < length (gs_conns s) then conn_at s j else newPipeConn cid pf)" if "j < Suc (length (gs_conns s))" for j
    using that by (auto simp: nth_append)
  have "table_inv ?t" using inv by (auto simp: link_inv_def table_inv_def nth_append newPipeConn_def)
  moreover have "queue_inv ?t" using inv by (simp add: link_inv_def queue_inv_def)
  moreover have "proof_inv E ?t" using inv pf by (auto simp: link_inv_def proof_inv_def nth_append newPipeConn_def)
  moreover have "stream_inv ?t"
    unfolding stream_inv_def
  proof (intro conjI allI impI)
    fix j assume j: "j < length (gs_conns ?t)" "only_user ?t j"
    show "data_of (gn_id (conn_at ?t j)) (gs_enqueued ?t) = sent_stream (gn_started (conn_at ?t j))"
    proof (cases "j < length (gs_conns s)")
      case True
      then have "only_user s j" using j(2) unfolding only_user_def by (auto simp: nth_append split: if_splits)
      then show ?thesis using True inv by (simp add: conn link_inv_def stream_inv_def nth_append)
    next
      case False
      then have last: "j = length (gs_conns s)" using j(1) by simp
      have "\<forall>i < length (gs_conns s). gn_id (conn_at s i) \<noteq> cid"
      proof (intro allI impI notI)
        fix i assume i: "i < length (gs_conns s)" "gn_id (conn_at s i) = cid"
        then have "gn_id (conn_at ?t i) = gn_id (conn_at ?t j)" by (simp add: nth_append last newPipeConn_def)
        then have "i = j" using j(2) i(1) by (simp add: only_user_def)
        then show False using i(1) last by simp
      qed
      then show ?thesis using last inv by (simp add: newPipeConn_def link_inv_def stream_inv_def)
    qed
  next
    fix c assume "\<forall>i < length (gs_conns ?t). gn_id (conn_at ?t i) \<noteq> c"
    then have "\<forall>i < length (gs_conns s). gn_id (conn_at s i) \<noteq> c" by (auto simp: nth_append split: if_splits)
    then show "data_of c (gs_enqueued ?t) = []" using inv by (simp add: link_inv_def stream_inv_def)
  qed
  moreover have "send_inv up (newPipeConn cid pf)" "recv_inv (newPipeConn cid pf)" for up
    by (simp_all add: newPipeConn_def send_inv_def recv_inv_def received_def finished_def)
  ultimately show ?thesis using inv by (auto simp: link_inv_def nth_append)
qed

lemma addConn_cases:
  assumes inv: "link_inv E s" and r: "addConn cid i s = (t, ok)"
  obtains s1 where "link_inv E s1" "length (gs_conns s1) = length (gs_conns s)" "same_config (gs_client s) (gs_client s1)"
    "cid \<notin> fst ` set (gc_conns (gs_client s1))" "\<forall>j < length (gs_conns s). \<not> gn_served (conn_at s j) \<longrightarrow> conn_at s1 j = conn_at s j"
    "if ok then t = upd_client (\<lambda>c. c\<lparr>gc_conns := AList.update cid i (gc_conns c)\<rparr>) s1 \<and> int (length (gc_conns (gs_client s1))) < gc_maxClients (gs_client s1)
     else t = s1"
proof -
  define s1 where "s1 = (case map_of (gc_conns (gs_client s)) cid of
      None \<Rightarrow> s | Some stale \<Rightarrow> pipe_Shutdown stale (upd_client (\<lambda>c. c\<lparr>gc_conns := AList.delete cid (gc_conns c)\<rparr>) s))"
  have t: "if ok then t = upd_client (\<lambda>c. c\<lparr>gc_conns := AList.update cid i (gc_conns c)\<rparr>) s1 \<and> int (length (gc_conns (gs_client s1))) < gc_maxClients (gs_client s1)
     else t = s1"
    using r unfolding addConn_def s1_def [symmetric] Let_def by (auto split: if_splits)
  show thesis
  proof (cases "map_of (gc_conns (gs_client s)) cid")
    case None
    then have "s1 = s" by (simp add: s1_def)
    then show thesis using t None inv by (intro that [of s1]) (simp_all add: map_of_eq_None_iff)
  next
    case (Some stale)
    then have s1: "s1 = drop_conn stale s" "stale < length (gs_conns s)" using stale_drop [OF inv] by (simp_all add: s1_def)
    have d: "cid \<notin> fst ` set (gc_conns (gs_client s1))" using Some by (auto simp: s1_def pipe_Shutdown_def AList.delete_eq)
    have "(cid, stale) \<in> set (gc_conns (gs_client s))" using Some by (rule map_of_SomeD)
    then have "gn_served (conn_at s stale)" using inv by (force simp: link_inv_def table_inv_def)
    then have "\<forall>j < length (gs_conns s). \<not> gn_served (conn_at s j) \<longrightarrow> conn_at s1 j = conn_at s j"
      by (auto simp: s1(1) drop_conn_def pipe_Shutdown_def)
    then show thesis using t d s1 inv by (intro that [of s1]) (simp_all add: drop_conn_inv)
  qed
qed

lemma activate_inv:
  assumes inv: "link_inv E s" and i: "i < length (gs_conns s)" "\<not> gn_served (conn_at s i)" "gn_id (conn_at s i) = cid" "\<not> gn_closed (conn_at s i)"
    and free: "cid \<notin> fst ` set (gc_conns (gs_client s))" "int (length (gc_conns (gs_client s))) < gc_maxClients (gs_client s)"
  shows "link_inv E (upd_conn i (\<lambda>n. n\<lparr>gn_served := True\<rparr>) (upd_client (\<lambda>c. c\<lparr>gc_conns := AList.update cid i (gc_conns c)\<rparr>) s))" (is "link_inv E ?t")
proof -
  have u: "AList.update cid i (gc_conns (gs_client s)) = gc_conns (gs_client s) @ [(cid, i)]" using free(1) by (rule update_new_key)
  have conn: "conn_at ?t j = (if j = i then (conn_at s i)\<lparr>gn_served := True\<rparr> else conn_at s j)" if "j < length (gs_conns s)" for j
    using that by simp
  have n: "\<forall>j < length (gs_conns s). send_inv (\<not> gs_done s) (conn_at s j) \<and> recv_inv (conn_at s j)" using inv by (simp add: link_inv_def)
  have inv': "table_inv s" using inv by (simp add: link_inv_def)
  have "\<forall>x \<in> set (gc_conns (gs_client s)). snd x \<noteq> i" using inv' i(2) by (force simp: table_inv_def)
  then have "table_inv ?t"
    using inv' i free unfolding table_inv_def upd_conn_fields upd_client_fields by (auto simp: conn u)
  moreover have "only_user ?t j = only_user s j" if "j < length (gs_conns s)" for j using that i(1) by (auto simp: only_user_def conn)
  then have "stream_inv ?t" using inv i(1) by (auto simp: link_inv_def stream_inv_def conn)
  moreover have "proof_inv E ?t" using inv by (auto simp: link_inv_def proof_inv_def conn)
  moreover have "queue_inv ?t" using inv by (simp add: link_inv_def queue_inv_def)
  moreover have "send_inv (\<not> gs_done s) ((conn_at s i)\<lparr>gn_served := True\<rparr>)" "recv_inv ((conn_at s i)\<lparr>gn_served := True\<rparr>)"
    using n i(1) by (auto simp: send_inv_def recv_inv_def received_def finished_def split: option.splits)
  ultimately show ?thesis using n by (auto simp: link_inv_def conn)
qed

lemma handleOpen_inv:
  assumes inv: "link_inv E s"
  shows "link_inv E (handleOpen E cid payload s)"
proof (cases "open_authorized E payload (gs_client s)")
  case None
  then show ?thesis using inv by (simp add: handleOpen_def reject_inv)
next
  case (Some pf)
  let ?i = "length (gs_conns s)"
  define s0 where "s0 = s\<lparr>gs_conns := gs_conns s @ [newPipeConn cid pf]\<rparr>"
  have "VerifyConnectProof (le_hmac E) (gc_rendezvousKey (gs_client s)) (gc_relayID (gs_client s)) (fst pf) (snd pf)"
    using Some by (auto simp: open_authorized_def split: option.splits if_splits)
  then have s0: "link_inv E s0" unfolding s0_def by (rule new_conn_inv [OF inv])
  have c0: "conn_at s0 ?i = newPipeConn cid pf" "length (gs_conns s0) = Suc ?i" by (simp_all add: s0_def)
  obtain t ok where r: "addConn cid ?i s0 = (t, ok)" by fastforce
  obtain s1 where s1: "link_inv E s1" "length (gs_conns s1) = length (gs_conns s0)" "cid \<notin> fst ` set (gc_conns (gs_client s1))"
      "\<forall>j < length (gs_conns s0). \<not> gn_served (conn_at s0 j) \<longrightarrow> conn_at s1 j = conn_at s0 j"
      "if ok then t = upd_client (\<lambda>c. c\<lparr>gc_conns := AList.update cid ?i (gc_conns c)\<rparr>) s1 \<and> int (length (gc_conns (gs_client s1))) < gc_maxClients (gs_client s1)
       else t = s1"
    by (rule addConn_cases [OF s0 r])
  have "conn_at s1 ?i = newPipeConn cid pf" using s1(4) c0 by (simp add: newPipeConn_def)
  then have "ok \<Longrightarrow> link_inv E (upd_conn ?i (\<lambda>n. n\<lparr>gn_served := True\<rparr>) t)"
    using activate_inv [OF s1(1), of ?i cid] s1(2,3,5) c0(2) by (simp add: newPipeConn_def)
  moreover have "\<not> ok \<Longrightarrow> link_inv E (reject cid gatewayReasonBusy t)" using s1(1,5) by (simp add: reject_inv)
  ultimately show ?thesis using Some r by (simp add: handleOpen_def s0_def [symmetric])
qed

lemma drop_replace:
  assumes "i < length (gs_conns s)" "gn_id n = gn_id (conn_at s i)"
  shows "drop_conn i (upd_conn i (\<lambda>_. n) s) = upd_conn i (\<lambda>_. n\<lparr>gn_closed := True\<rparr>) (drop_conn i s)"
  using assms by (simp add: drop_conn_def pipe_Shutdown_def removeConn_def lookupConn_def upd_conn_def upd_client_def)

text \<open>Replacing a connection by one that is closed in the same step.\<close>

lemma replace_close_inv:
  assumes inv: "link_inv E s" and i: "i < length (gs_conns s)"
    and n: "gn_id n = gn_id (conn_at s i)" "gn_served n = gn_served (conn_at s i)" "gn_started n = gn_started (conn_at s i)"
      "gn_proof n = gn_proof (conn_at s i)" "\<not> gn_closed n"
    and "send_inv (\<not> gs_done s) (n\<lparr>gn_closed := True\<rparr>)" "recv_inv (n\<lparr>gn_closed := True\<rparr>)"
  shows "link_inv E (pipe_Close i reason (upd_conn i (\<lambda>_. n) s))"
proof -
  have c: "conn_at (drop_conn i s) i = (conn_at s i)\<lparr>gn_closed := True\<rparr>" "gs_done (drop_conn i s) = gs_done s"
    using i by (simp_all add: drop_conn_def pipe_Shutdown_def)
  have "link_inv E (upd_conn i (\<lambda>_. n\<lparr>gn_closed := True\<rparr>) (drop_conn i s))"
    using assms by (intro upd_conn_inv drop_conn_inv) (simp_all add: c)
  then show ?thesis using i n by (simp add: pipe_Close_drop drop_replace reject_inv)
qed

lemma received_push:
  assumes "push now part n = (n', res)" "gn_recv n = fst (received n)"
  shows "received n' = (fst (Push (gn_recv n) now part), snd (received n) @ [res])"
    "gn_recv n' = (if isl res then Reset (fst (Push (gn_recv n) now part)) else fst (Push (gn_recv n) now part))"
    "n' = n\<lparr>gn_recv := gn_recv n', gn_parts := gn_parts n @ [(now, part)]\<rparr>"
  using assms
  by (auto simp: push_def received_def run_machine_append run_machine.simps(2) push_event_def Let_def split: prod.splits sum.splits)

lemma handleData_inv:
  assumes inv: "link_inv E s"
  shows "link_inv E (handleData now cid payload s)"
proof (cases "lookupConn cid s")
  case None
  then show ?thesis using inv by (simp add: handleData_def reject_inv)
next
  case (Some i)
  define n where "n = conn_at s i"
  have "(cid, i) \<in> set (gc_conns (gs_client s))" using Some by (simp add: lookupConn_def map_of_SomeD)
  then have i: "i < length (gs_conns s)" "\<not> gn_closed n" "gn_served n" using inv by (force simp: link_inv_def table_inv_def n_def)+
  have ni: "send_inv (\<not> gs_done s) n" "recv_inv n" using inv i(1) by (simp_all add: link_inv_def n_def)
  obtain n' res where p: "push now payload n = (n', res)" by fastforce
  have r: "gn_recv n = fst (received n)" "gn_read n @ gn_inbound n = delivered (snd (received n))" "list_all (\<lambda>x. \<not> isl x) (snd (received n))"
      "length (gn_inbound n) \<le> gatewayConnQueue"
    using ni(2) i(2) by (simp_all add: recv_inv_def)
  note rp = received_push [OF p r(1)]
  have same: "gn_id n' = gn_id n" "gn_served n' = gn_served n" "gn_started n' = gn_started n" "gn_proof n' = gn_proof n" "\<not> gn_closed n'"
      "gn_read n' = gn_read n" "gn_inbound n' = gn_inbound n"
    using i(2) by (subst rp(3), simp)+
  have si: "send_inv (\<not> gs_done s) n'" using ni(1) by (subst rp(3)) (simp add: send_inv_def finished_def split: option.splits)
  show ?thesis
  proof (cases res)
    case (Inl e)
    have "recv_inv (n'\<lparr>gn_closed := True\<rparr>)" using r rp(1) same Inl by (simp add: recv_inv_def received_def)
    then have "link_inv E (pipe_Close i gatewayReasonFraming (upd_conn i (\<lambda>_. n') s))"
      using same si by (intro replace_close_inv [OF inv i(1)]) (simp_all add: n_def [symmetric] conn_close_inv)
    then show ?thesis using Some p Inl by (simp add: handleData_def n_def)
  next
    case (Inr fo)
    show ?thesis
    proof (cases fo)
      case None
      have "recv_inv n'" using r rp(1,2) same Inr None by (simp add: recv_inv_def)
      then have "link_inv E (upd_conn i (\<lambda>_. n') s)"
        using same si i(2) by (intro upd_conn_inv [OF inv i(1)]) (simp_all add: n_def [symmetric])
      then show ?thesis using Some p Inr None by (simp add: handleData_def n_def)
    next
      case f: (Some frame)
      have twice: "upd_conn i (\<lambda>_. m) (upd_conn i (\<lambda>_. n') s) = upd_conn i (\<lambda>_. m) s" for m by (simp add: upd_conn_def)
      show ?thesis
      proof (cases "length (gn_inbound n') < gatewayConnQueue")
        case True
        define m where "m = n'\<lparr>gn_inbound := gn_inbound n' @ [frame]\<rparr>"
        have "recv_inv m" using r rp(1,2) same Inr f True by (simp add: recv_inv_def received_def m_def)
        moreover have "send_inv (\<not> gs_done s) m" using si by (simp add: m_def send_inv_def finished_def split: option.splits)
        ultimately have "link_inv E (upd_conn i (\<lambda>_. m) s)"
          using same i(2) by (intro upd_conn_inv [OF inv i(1)]) (simp_all add: n_def [symmetric] m_def)
        then show ?thesis using Some p Inr f True same twice by (simp add: handleData_def n_def Deliver_def m_def)
      next
        case False
        have "recv_inv (n'\<lparr>gn_closed := True\<rparr>)" using r rp(1) same Inr f by (simp add: recv_inv_def received_def)
        then have "link_inv E (pipe_Close i gatewayReasonSlow (upd_conn i (\<lambda>_. n') s))"
          using same si by (intro replace_close_inv [OF inv i(1)]) (simp_all add: n_def [symmetric] conn_close_inv)
        then show ?thesis using Some p Inr f False same twice by (simp add: handleData_def n_def Deliver_def)
      qed
    qed
  qed
qed

lemma ReadFrame_inv:
  assumes inv: "link_inv E s" and i: "i < length (gs_conns s)"
  shows "link_inv E (upd_conn i ReadFrame s)"
proof -
  have n: "send_inv (\<not> gs_done s) (conn_at s i)" "recv_inv (conn_at s i)" using inv i by (simp_all add: link_inv_def)
  then show ?thesis
    by (intro upd_conn_inv [OF inv i])
      (auto simp: ReadFrame_def send_inv_def recv_inv_def received_def finished_def split: list.splits option.splits)
qed

lemma sweep_inv:
  assumes "link_inv E s" "\<forall>x \<in> set xs. snd x < length (gs_conns s)"
  shows "link_inv E (foldl (\<lambda>s x. if stalled now (conn_at s (snd x)) then pipe_Close (snd x) gatewayReasonSlow s else s) s xs)"
  using assms by (induction xs arbitrary: s) (simp_all add: pipe_Close_inv pipe_Close_fields)

lemma sweepStalled_inv: "link_inv E s \<Longrightarrow> link_inv E (sweepStalled now s)"
  unfolding sweepStalled_def by (rule sweep_inv) (auto simp: liveConns_def link_inv_def table_inv_def)

lemma handleNotice_inv: "link_inv E s \<Longrightarrow> link_inv E (handleNotice E p s)"
  by (auto simp: handleNotice_def link_inv_def table_inv_def queue_inv_def stream_inv_def only_user_def proof_inv_def recordNotice_def split: option.splits)

lemma health_turn_inv:
  assumes "link_inv E s"
  shows "link_inv E (health_turn ok s)"
proof -
  have same: "link_inv E (s\<lparr>gs_healthFailures := h, gs_healthRunning := b\<rparr>)" for h b
    using assms by (simp add: link_inv_def table_inv_def queue_inv_def stream_inv_def only_user_def proof_inv_def)
  moreover have "link_inv E (s\<lparr>gs_healthFailures := h\<rparr>)" for h
    using assms by (simp add: link_inv_def table_inv_def queue_inv_def stream_inv_def only_user_def proof_inv_def)
  ultimately show ?thesis using assms by (simp add: health_turn_def Let_def stop_inv(2))
qed

section \<open>All events\<close>

lemma handle_frame_inv:
  assumes "link_inv E s"
  shows "link_inv E (fst (handle_frame E now op cid payload s))"
  using assms enqueue_inv [OF assms, of OpPong cid payload]
  by (auto simp: handle_frame_def handleData_inv handleOpen_inv handleClose_inv handleNotice_inv split: prod.splits option.splits)

lemma read_turn_inv: "link_inv E s \<Longrightarrow> link_inv E (fst (read_turn E now msg s))"
  by (auto simp: read_turn_def handle_frame_inv split: ws_read.splits sum.splits)

lemma serve_end_inv:
  assumes inv: "link_inv E s" and "i < length (gs_conns s)" "gn_closed (conn_at s i)"
  shows "removeConn (gn_id (conn_at s i)) i s = s"
proof -
  have "lookupConn (gn_id (conn_at s i)) s \<noteq> Some i"
    using assms by (force simp: lookupConn_def link_inv_def table_inv_def dest: map_of_SomeD)
  then show ?thesis by (simp add: removeConn_def)
qed

lemma link_step_inv:
  assumes "link_inv E s"
  shows "link_inv E (fst (link_step E s e))"
proof (cases e)
  case (LRead now msg)
  then show ?thesis using assms read_turn_inv [OF assms, of now msg]
    by (cases "read_turn E now msg s") (auto simp: stop_inv split: option.splits)
qed (use assms in \<open>auto simp: served_def write_turn_inv WriteFrame_inv send_lock_inv send_chunk_inv ReadFrame_inv pipe_Close_inv
  serve_end_inv sweepStalled_inv health_turn_inv\<close>)

lemma new_session_inv: "gc_conns c = [] \<Longrightarrow> 0 \<le> gc_maxClients c \<Longrightarrow> link_inv E (new_session c)"
  by (simp add: new_session_def link_inv_def table_inv_def queue_inv_def stream_inv_def proof_inv_def)

interpretation gateway_link: invariant_machine "link_step E" "\<lambda>_. True" "link_inv E"
  by unfold_locales (rule link_step_inv)

text \<open>The configuration and the active entry stay as they are while a session runs.\<close>

definition client_config :: "gateway_client \<Rightarrow> gateway_client" where
  "client_config c = c\<lparr>gc_conns := [], gc_lastNotice := []\<rparr>"

definition config_of :: "gateway_session \<Rightarrow> gateway_client" where
  "config_of s = client_config (gs_client s)"

lemma config_basic [simp]:
  "config_of (upd_conn i f s) = config_of s" "config_of (pipe_Shutdown i s) = config_of s" "config_of (removeConn c i s) = config_of s"
  "config_of (fst (enqueue fr s)) = config_of s" "config_of (reject c rs s) = config_of s" "config_of (stop s) = config_of s"
  "config_of (fail e s) = config_of s" "config_of (write_turn ok s) = config_of s" "config_of (fst (addConn c i s)) = config_of s"
  "config_of (health_turn ok s) = config_of s" "config_of (handleNotice E p s) = config_of s" "config_of (s\<lparr>gs_readErr := re\<rparr>) = config_of s"
  "config_of (s\<lparr>gs_conns := cs\<rparr>) = config_of s"
  by (auto simp: config_of_def client_config_def pipe_Shutdown_def removeConn_def stop_def fail_def write_turn_def addConn_def
      health_turn_def handleNotice_def recordNotice_def Let_def split: option.splits list.splits)

lemma config_enqueue: "enqueue fr s = (t, x) \<Longrightarrow> config_of t = config_of s"
  using config_basic(4) [of fr s] by simp

lemma config_addConn: "addConn c i s = (t, ok) \<Longrightarrow> config_of t = config_of s"
  using config_basic(9) [of c i s] by simp

lemma config_handlers [simp]:
  "config_of (pipe_Close i rs s) = config_of s" "config_of (fst (WriteFrame i fr s)) = config_of s" "config_of (send_lock i n s) = config_of s"
  "config_of (fst (send_chunk i s)) = config_of s" "config_of (handleClose c s) = config_of s" "config_of (handleOpen E c p s) = config_of s"
  "config_of (handleData now c p s) = config_of s"
  subgoal by (simp add: pipe_Close_def closeConn_def)
  subgoal by (simp add: WriteFrame_def)
  subgoal by (simp add: send_lock_def Let_def)
  subgoal by (auto simp: send_chunk_def Let_def dest: config_enqueue split: option.splits list.splits prod.splits)
  subgoal by (auto simp: handleClose_def takeConn_def config_of_def client_config_def pipe_Shutdown_def split: option.splits)
  subgoal by (auto simp: handleOpen_def Let_def dest: config_addConn split: option.splits prod.splits)
  subgoal by (auto simp: handleData_def Let_def pipe_Close_def closeConn_def split: option.splits prod.splits sum.splits)
  done

lemma config_sweep [simp]: "config_of (sweepStalled now s) = config_of s"
proof -
  have "config_of (foldl (\<lambda>s x. if stalled now (conn_at s (snd x)) then pipe_Close (snd x) gatewayReasonSlow s else s) t xs) = config_of t" for t xs
    by (induction xs arbitrary: t) auto
  then show ?thesis by (simp add: sweepStalled_def)
qed

lemma config_frame: "handle_frame E now op c p s = (t, x) \<Longrightarrow> config_of t = config_of s"
  by (auto simp: handle_frame_def dest: config_enqueue split: if_splits prod.splits option.splits)

lemma config_read: "read_turn E now msg s = (t, x) \<Longrightarrow> config_of t = config_of s"
  by (auto simp: read_turn_def dest: config_frame split: ws_read.splits sum.splits)

lemma link_step_config [simp]: "config_of (fst (link_step E s e)) = config_of s"
proof (cases e)
  case (LRead now msg)
  then show ?thesis by (cases "read_turn E now msg s") (auto dest: config_read split: option.splits)
qed auto

lemma run_config: "config_of (fst (run_machine (link_step E) s es)) = config_of s"
  by (induction es arbitrary: s) auto

section \<open>Whole sessions\<close>

definition link_reach :: "link_env \<Rightarrow> gateway_client \<Rightarrow> link_event list \<Rightarrow> gateway_session" where
  "link_reach E c es = fst (run_machine (link_step E) (new_session c) es)"

lemma link_reach_inv:
  assumes "gc_conns c = []" "0 \<le> gc_maxClients c"
  shows "link_inv E (link_reach E c es)"
  unfolding link_reach_def by (rule gateway_link.run_inv) (simp_all add: new_session_inv assms list_all_iff)

lemma link_reach_config: "client_config (gs_client (link_reach E c es)) = client_config c"
  using run_config [of E "new_session c" es] by (simp add: link_reach_def config_of_def new_session_def)

text \<open>What a client looks like between sessions.\<close>

definition idle :: "gateway_client \<Rightarrow> bool" where
  "idle c \<longleftrightarrow> gc_conns c = [] \<and> \<not> gc_registered c"

lemma evictAll_client: "gs_client (evictAll s) = (gs_client s)\<lparr>gc_conns := []\<rparr>"
proof -
  have "gs_client (foldl (\<lambda>s x. pipe_Shutdown (snd x) s) t xs) = gs_client t" for t and xs :: "(32 word \<times> nat) list"
    by (induction xs arbitrary: t) (simp_all add: pipe_Shutdown_def)
  then show ?thesis by (simp add: evictAll_def)
qed

lemma registerLink_keeps:
  assumes "registerLink E c = (c', x)"
  shows "same_config c c' \<and> gc_active c' = gc_active c \<and> gc_conns c' = gc_conns c \<and> gc_registered c' = gc_registered c"
proof -
  have u: "same_config c (setSTUNPort p (setGatewayBuild v r c)) \<and> gc_active (setSTUNPort p (setGatewayBuild v r c)) = gc_active c
      \<and> gc_conns (setSTUNPort p (setGatewayBuild v r c)) = gc_conns c \<and> gc_registered (setSTUNPort p (setGatewayBuild v r c)) = gc_registered c" for p v r
    by (simp add: setSTUNPort_def setGatewayBuild_def same_config_def)
  show ?thesis using assms u
    by (auto simp: registerLink_def Let_def split: ws_read.splits option.splits if_splits)
qed

lemma runSession_keeps:
  assumes "idle c" "runSession E X c = (c', registered, err)"
  shows "same_config c c' \<and> gc_active c' = gc_active c \<and> idle c'"
proof (cases "se_dialed X")
  case False
  then show ?thesis using assms by (simp add: runSession_def)
next
  case True
  obtain c1 x where r: "registerLink (se_register X) c = (c1, x)" by fastforce
  note k = registerLink_keeps [OF r]
  show ?thesis
  proof (cases x)
    case (Some e)
    then show ?thesis using assms True r k by (simp add: runSession_def idle_def)
  next
    case None
    define c2 where "c2 = markRegistered (se_registered_at X) c1"
    define s where "s = link_reach E c2 (se_events X)"
    have c': "c' = markUnregistered ((gs_client s)\<lparr>gc_conns := []\<rparr>)"
      using assms(2) True r None by (auto simp: runSession_def session_end_def Let_def s_def c2_def link_reach_def evictAll_client stop_def)
    have "client_config (gs_client s) = client_config c2" unfolding s_def by (rule link_reach_config)
    then have "same_config c2 (gs_client s) \<and> gc_active (gs_client s) = gc_active c2"
      by (cases "gs_client s"; cases c2) (simp add: client_config_def same_config_def)
    then show ?thesis using k by (simp add: c' c2_def markRegistered_def markUnregistered_def idle_def same_config_def)
  qed
qed

section \<open>Properties\<close>


text \<open>What the hub reads from a phone. When a phone chunks the frames \<open>fs\<close> and the relay has received some of these
  chunks for a connection, the frames the hub has taken and those waiting for it are the first of \<open>fs\<close>; never more than
  32 wait. On an open connection that has received all chunks they are exactly \<open>fs\<close>.\<close>

theorem gateway_stream_to_hub:
  assumes "gc_conns c = []" "0 \<le> gc_maxClients c" "s = link_reach E c es" "i < length (gs_conns s)"
    and "list_all (\<lambda>f. int (length f) \<le> MaxLogicalBytes) fs" "chunk_stream fs GatewayChunkSize = Some css"
    and "prefix (map snd (gn_parts (conn_at s i))) css"
  shows "prefix (gn_read (conn_at s i) @ gn_inbound (conn_at s i)) fs \<and> length (gn_inbound (conn_at s i)) \<le> gatewayConnQueue
    \<and> (\<not> gn_closed (conn_at s i) \<and> map snd (gn_parts (conn_at s i)) = css \<longrightarrow> gn_read (conn_at s i) @ gn_inbound (conn_at s i) = fs)"
proof -
  let ?n = "conn_at s i"
  have "link_inv E s" using assms(1-3) by (simp add: link_reach_inv)
  then have ri: "recv_inv ?n" using assms(4) by (simp add: link_inv_def)
  obtain rest where css: "css = map snd (gn_parts ?n) @ rest" using assms(7) by (auto simp: prefix_def)
  define ts where "ts = map fst (gn_parts ?n) @ replicate (length rest) 0"
  have z: "zip ts css = gn_parts ?n @ zip (replicate (length rest) 0) rest" unfolding ts_def css by (simp add: zip_map_fst_snd)
  have "length ts = length css" by (simp add: ts_def css)
  then have "delivered (snd (run_machine push_event (NewReassembler GatewayChunkSize) (zip ts css))) = fs"
    using chunk_stream_delivered [of GatewayChunkSize fs "NewReassembler GatewayChunkSize"] assms(5,6)
    by (force simp: GatewayChunkSize_def NewReassembler_def)
  then have d: "delivered (snd (received ?n)) @ delivered (snd (run_machine push_event (fst (received ?n)) (zip (replicate (length rest) 0) rest))) = fs"
    by (simp add: z run_machine_append received_def case_prod_beta Let_def)
  then have "prefix (delivered (snd (received ?n))) fs" by (auto simp: prefix_def)
  moreover have "rest = [] \<Longrightarrow> delivered (snd (received ?n)) = fs" using d by simp
  ultimately show ?thesis using ri css by (auto simp: recv_inv_def intro: prefix_order.trans)
qed

text \<open>C20. The table of connections. Over every interleaving of a session: there are never more connections than allowed;
  each one presented a proof that verifies under the relay's own rendezvous key; and a connection handed to the hub is
  open exactly as long as its id leads to it, so that a close the relay sends for an open connection never concerns
  another one that reuses the id.\<close>

theorem gateway_connections:
  assumes "gc_conns c = []" "0 \<le> gc_maxClients c" "s = link_reach E c es"
  shows "int (length (gc_conns (gs_client s))) \<le> gc_maxClients c
    \<and> (\<forall>i < length (gs_conns s).
         VerifyConnectProof (le_hmac E) (gc_rendezvousKey c) (gc_relayID c) (fst (gn_proof (conn_at s i))) (snd (gn_proof (conn_at s i)))
         \<and> (gn_served (conn_at s i) \<longrightarrow> (gn_closed (conn_at s i) \<longleftrightarrow> lookupConn (gn_id (conn_at s i)) s \<noteq> Some i)))"
proof -
  have inv: "link_inv E s" using assms by (simp add: link_reach_inv)
  have "client_config (gs_client s) = client_config c" using assms(3) by (simp add: link_reach_config)
  then have cfg: "gc_maxClients (gs_client s) = gc_maxClients c" "gc_rendezvousKey (gs_client s) = gc_rendezvousKey c" "gc_relayID (gs_client s) = gc_relayID c"
    by (cases "gs_client s"; cases c; simp add: client_config_def)+
  have d: "distinct (map fst (gc_conns (gs_client s)))" using inv by (simp add: link_inv_def table_inv_def)
  have "gn_served (conn_at s i) \<longrightarrow> (gn_closed (conn_at s i) \<longleftrightarrow> lookupConn (gn_id (conn_at s i)) s \<noteq> Some i)" if "i < length (gs_conns s)" for i
  proof -
    have "(gn_id (conn_at s i), i) \<in> set (gc_conns (gs_client s)) \<longleftrightarrow> lookupConn (gn_id (conn_at s i)) s = Some i"
      using d by (simp add: lookupConn_def)
    then show ?thesis using inv that by (fastforce simp: link_inv_def table_inv_def)
  qed
  then show ?thesis using inv cfg by (simp add: link_inv_def table_inv_def proof_inv_def)
qed

section \<open>The reconnect loop\<close>

lemma run_round_failed:
  assumes "idle c" "rn_session R = runSession E X" "\<not> rn_done R" "\<not> rn_done_after R" "runSession E X c = (c1, registered, Some e)"
  shows "run_round (c, delay) R =
    (failover (rn_arrivals R) (gc_active c1) (recordError e c1),
     if rn_slept R then Some (nextBackoff (if registered then gc_backoffBase c else delay) c) else None)"
proof -
  have k: "same_config c c1" "gc_active c1 = gc_active c" using runSession_keeps [OF assms(1,5)] by auto
  let ?f = "failover (rn_arrivals R) (gc_active c1) (recordError e c1)"
  have "same_config c ?f"
    using failover_sets [of "rn_arrivals R" "gc_active c1" "recordError e c1"] k(1) by auto
  then have "gc_backoffBase ?f = gc_backoffBase c" "gc_backoffMax ?f = gc_backoffMax c" by (simp_all add: same_config_def)
  then show ?thesis using assms(2-5) k(2) by (simp add: run_round_def Let_def nextBackoff_def)
qed

text \<open>A session that failed is not repeated on the same entry. Whatever the session did and whichever probes answered:
  with several entries the next attempt goes to another one, the error is recorded, the client is idle and unregistered,
  and the wait is doubled up to the ceiling, starting again from the base when the session had registered.\<close>

theorem failed_session_moves_on:
  assumes "idle c" "gc_active c < length (gc_urls c)" "rn_session R = runSession E X" "\<not> rn_done R" "\<not> rn_done_after R" "rn_slept R"
    and "runSession E X c = (c1, registered, Some e)" "pr_index ` set (rn_arrivals R) \<subseteq> set (candidates (int (gc_active c)) c)"
  shows "\<exists>c'. run_round (c, delay) R = (c', Some (min ((if registered then gc_backoffBase c else delay) * 2) (gc_backoffMax c)))
    \<and> gc_active c' < length (gc_urls c) \<and> (1 < length (gc_urls c) \<longrightarrow> gc_active c' \<noteq> gc_active c)
    \<and> same_config c c' \<and> gc_lastError c' = Some e \<and> idle c'"
proof -
  have k: "same_config c c1" "gc_active c1 = gc_active c" "idle c1" using runSession_keeps [OF assms(1,7)] by auto
  define c2 where "c2 = recordError e c1"
  have c2: "same_config c c2" "gc_active c2 = gc_active c" "gc_urls c2 = gc_urls c" "gc_lastError c2 = Some e" "idle c2"
    using k by (simp_all add: c2_def recordError_def idle_def same_config_def)
  have "candidates (int (gc_active c)) c2 = candidates (int (gc_active c)) c" by (simp add: candidates_def c2(3))
  then have f: "same_config c2 (failover (rn_arrivals R) (gc_active c2) c2)" "gc_active (failover (rn_arrivals R) (gc_active c2) c2) < length (gc_urls c)"
      "1 < length (gc_urls c) \<longrightarrow> gc_active (failover (rn_arrivals R) (gc_active c2) c2) \<noteq> gc_active c"
    using failover_moves [of "rn_arrivals R" c2] assms(2,8) c2 by auto
  have "gc_lastError (failover (rn_arrivals R) (gc_active c2) c2) = Some e \<and> idle (failover (rn_arrivals R) (gc_active c2) c2)"
    using failover_sets [of "rn_arrivals R" "gc_active c2" c2] c2(4,5) by (auto simp: setActive_def idle_def)
  then show ?thesis
    using run_round_failed [OF assms(1,3,4,5,7), of delay] f c2(1,2) k(2) assms(6) same_config_trans [OF c2(1) f(1)]
    by (simp add: c2_def recordError_def nextBackoff_def)
qed

text \<open>During an outage every entry gets its turn. While no gateway can be dialed and no probe answers, after \<open>k\<close> rounds the
  client stands at the \<open>k\<close>-th entry after the one it started with, counting round, and the wait is the first one doubled \<open>k\<close>
  times, capped by the ceiling.\<close>

theorem outage_visits_all:
  assumes "idle c" "gc_active c < length (gc_urls c)" "0 \<le> delay" "delay \<le> gc_backoffMax c"
    and "\<forall>R \<in> set Rs. \<not> rn_done R \<and> \<not> rn_done_after R \<and> rn_slept R \<and> successful (rn_arrivals R) = []
      \<and> (\<exists>X. rn_session R = runSession E X \<and> \<not> se_dialed X)"
  shows "\<exists>c'. run_loop (c, delay) Rs = (c', Some (min (delay * 2 ^ length Rs) (gc_backoffMax c)))
    \<and> gc_active c' = (gc_active c + length Rs) mod length (gc_urls c) \<and> idle c'"
  using assms
proof (induction Rs arbitrary: c delay)
  case Nil
  then show ?case by simp
next
  case (Cons R Rs)
  obtain X where X: "rn_session R = runSession E X" "\<not> se_dialed X" using Cons.prems(5) by auto
  have s: "runSession E X c = (c, False, Some DialFailed)" using X(2) by (simp add: runSession_def)
  define c1 where "c1 = recordError DialFailed c"
  have c1: "gc_active c1 = gc_active c" "gc_urls c1 = gc_urls c" "gc_backoffMax c1 = gc_backoffMax c" "idle c1"
    using Cons.prems(1) by (simp_all add: c1_def recordError_def idle_def)
  define c2 where "c2 = failover (rn_arrivals R) (gc_active c) c1"
  have a: "gc_active c2 = (gc_active c + 1) mod length (gc_urls c)"
    using failover_rotates [of "rn_arrivals R" c1] Cons.prems(2,5) c1 by (simp add: c2_def)
  have "\<exists>i. c2 = setActive i c1" unfolding c2_def by (rule failover_sets)
  then have c2: "gc_urls c2 = gc_urls c" "gc_backoffMax c2 = gc_backoffMax c" "idle c2" using c1 by (auto simp: setActive_def idle_def)
  have n: "0 < length (gc_urls c)" using Cons.prems(2) by linarith
  define d where "d = min (delay * 2) (gc_backoffMax c)"
  have r: "run_round (c, delay) R = (c2, Some d)"
    using run_round_failed [OF Cons.prems(1) X(1) _ _ s, of delay] Cons.prems(5) by (simp add: c2_def c1_def d_def nextBackoff_def)
  have "gc_active c2 < length (gc_urls c2)" using a c2(1) n by simp
  then obtain c' where c': "run_loop (c2, d) Rs = (c', Some (min (d * 2 ^ length Rs) (gc_backoffMax c)))"
      "gc_active c' = (gc_active c2 + length Rs) mod length (gc_urls c)" "idle c'"
    using Cons.IH [of c2 d] Cons.prems(3-5) c2 by (auto simp: d_def)
  have "min (d * 2 ^ length Rs) (gc_backoffMax c) = min (delay * 2 ^ length (R # Rs)) (gc_backoffMax c)"
  proof (cases "delay * 2 \<le> gc_backoffMax c")
    case True
    then show ?thesis by (simp add: d_def algebra_simps)
  next
    case False
    have p: "(1::int) \<le> 2 ^ length Rs" by simp
    have a: "gc_backoffMax c \<le> gc_backoffMax c * 2 ^ length Rs" using p Cons.prems(3,4) by (simp add: mult_le_cancel_left1)
    have b: "gc_backoffMax c * 2 ^ length Rs \<le> delay * 2 * 2 ^ length Rs" using False by (intro mult_right_mono) auto
    have "gc_backoffMax c \<le> delay * 2 ^ length (R # Rs)" using order_trans [OF a b] by (simp add: mult.assoc)
    moreover have "d = gc_backoffMax c" using False by (simp add: d_def)
    ultimately show ?thesis using a by (simp only: min_absorb2)
  qed
  moreover have "(gc_active c2 + length Rs) mod length (gc_urls c) = (gc_active c + length (R # Rs)) mod length (gc_urls c)"
    unfolding a by (simp add: mod_add_left_eq)
  ultimately show ?case using c' r by simp
qed

section \<open>A concrete session\<close>

definition sample_client :: gateway_client where
  "sample_client = \<lparr>gc_urls = [''wss://a'', ''wss://b'', ''wss://c''], gc_selection = ''ordered'', gc_relayID = ''relay'', gc_rendezvousKey = [],
     gc_maxClients = 8, gc_backoffBase = second, gc_backoffMax = 60 * second, gc_healthInterval = 15 * second, gc_active = 0, gc_conns = [],
     gc_registered = False, gc_lastError = None, gc_lastNotice = [], gc_connectedSince = 0, gc_version = [], gc_revision = [], gc_stunPort = 0\<rparr>"

definition sample_link_env :: link_env where
  "sample_link_env = \<lparr>le_hmac = (\<lambda>_ _. replicate 32 0), le_open = (\<lambda>_. Some (b64_encode (replicate 32 0), b64_encode (replicate 32 0))), le_notice = (\<lambda>_. None)\<rparr>"

definition sample_part :: "byte \<Rightarrow> bytes" where
  "sample_part b = [1, 3, 0, 0, 0, 1, b]"

lemma sample_chunk: "Chunk [] [b] GatewayChunkSize = Some [sample_part b]"
  by (simp add: Chunk_def Count_def sample_part_def GatewayChunkSize_def framing_consts be_encode_4 Let_def)

definition sample_opened :: gateway_session where
  "sample_opened = (new_session sample_client)\<lparr>gs_client := sample_client\<lparr>gc_conns := [(1, 0)]\<rparr>,
     gs_conns := [(newPipeConn 1 (replicate 32 0, replicate 32 0))\<lparr>gn_served := True\<rparr>]\<rparr>"

lemma link_sample_open: "link_step sample_link_env (new_session sample_client) (LRead 0 (WsBinary (EncodeFrame OpOpen 1 []))) = (sample_opened, None)"
proof -
  have v: "VerifyConnectProof (\<lambda>_ _. replicate 32 0) [] ''relay'' (replicate 32 0) (replicate 32 0)"
    by (simp add: VerifyConnectProof_def ConnectProof_def NonceBytes_def sha256_size_def)
  have d: "DecodeFrame (EncodeFrame OpOpen 1 []) = Inr (OpOpen, 1, [])" by (rule DecodeFrame_EncodeFrame) (simp_all add: OpOpen_def OpNotice_def)
  have o: "open_authorized sample_link_env [] (gs_client (new_session sample_client)) = Some (replicate 32 0, replicate 32 0)"
    using v by (simp add: open_authorized_def sample_link_env_def b64_decode_encode new_session_def sample_client_def)
  have "OpOpen \<noteq> OpData" by (simp add: OpOpen_def OpData_def)
  then show ?thesis using o
    by (simp add: read_turn_def d handle_frame_def handleOpen_def addConn_def new_session_def sample_opened_def upd_client_def upd_conn_def sample_client_def)
qed

definition sample_events :: "link_event list" where
  "sample_events = [LRead 0 (WsBinary (EncodeFrame OpOpen 1 [])), LWrite 0 [7], LLock 0 0, LChunk 0, LWriter True,
     LRead 1 (WsBinary (EncodeFrame OpData 1 (sample_part 5)))]"

definition sample_sent :: gateway_session where
  "sample_sent = sample_opened\<lparr>gs_conns := [(newPipeConn 1 (replicate 32 0, replicate 32 0))\<lparr>gn_served := True, gn_started := [([7], 1)]\<rparr>],
     gs_wire := [EncodeFrame OpData 1 (sample_part 7)], gs_enqueued := [EncodeFrame OpData 1 (sample_part 7)]\<rparr>"

lemma sample_send: "fst (run_machine (link_step sample_link_env) sample_opened [LWrite 0 [7], LLock 0 0, LChunk 0, LWriter True]) = sample_sent"
  by (simp add: sample_opened_def sample_sent_def new_session_def newPipeConn_def served_def WriteFrame_def MaxLogicalBytes_def upd_conn_def
      send_lock_def send_chunk_def sample_chunk enqueue_def gatewayWriteQueue_def write_turn_def bump_last_def Let_def)

lemma sample_push: "push 1 (sample_part 5) (newPipeConn 1 pf) = ((newPipeConn 1 pf)\<lparr>gn_recv := (NewReassembler GatewayChunkSize)\<lparr>ra_updated := 1\<rparr>, gn_parts := [(1, sample_part 5)]\<rparr>, Inr (Some [5]))"
proof -
  have p: "sample_part 5 = [Version, FlagStart OR FlagEnd] @ be_encode 4 (unat (word_of_int 1 :: 32 word)) @ [5]"
    by (simp add: sample_part_def framing_consts be_encode_4)
  have "push_event (NewReassembler GatewayChunkSize) (1, sample_part 5) =
      push_end ((NewReassembler GatewayChunkSize)\<lparr>ra_want := 1, ra_buf := [5], ra_active := True, ra_updated := 1\<rparr>) (FlagEnd = FlagEnd)"
    by (rule push_start_chunk [where body = "[5]" and tot = 1 and t = FlagEnd])
      (simp_all add: NewReassembler_def GatewayChunkSize_def MaxLogicalBytes_def p)
  then show ?thesis by (simp add: push_event_def push_def newPipeConn_def push_end_def NewReassembler_def)
qed

definition sample_final_conn :: gateway_conn where
  "sample_final_conn = (newPipeConn 1 (replicate 32 0, replicate 32 0))\<lparr>gn_served := True, gn_started := [([7], 1)],
     gn_recv := (NewReassembler GatewayChunkSize)\<lparr>ra_updated := 1\<rparr>, gn_parts := [(1, sample_part 5)], gn_inbound := [[5]]\<rparr>"

lemma sample_data: "link_step sample_link_env sample_sent (LRead 1 (WsBinary (EncodeFrame OpData 1 (sample_part 5))))
    = (sample_sent\<lparr>gs_conns := [sample_final_conn]\<rparr>, None)"
proof -
  have d: "DecodeFrame (EncodeFrame OpData 1 (sample_part 5)) = Inr (OpData, 1, sample_part 5)"
    by (rule DecodeFrame_EncodeFrame) (simp_all add: OpData_def OpNotice_def sample_part_def MaxFramePayload_def)
  define n where "n = (newPipeConn 1 (replicate 32 0, replicate 32 0))\<lparr>gn_served := True, gn_started := [([7], 1)]\<rparr>"
  have "fst (push 1 (sample_part 5) n) = n\<lparr>gn_recv := (NewReassembler GatewayChunkSize)\<lparr>ra_updated := 1\<rparr>, gn_parts := [(1, sample_part 5)]\<rparr>"
      "snd (push 1 (sample_part 5) n) = Inr (Some [5])"
    using sample_push [of "(replicate 32 0, replicate 32 0)"]
    by (auto simp: push_def n_def newPipeConn_def split: prod.splits sum.splits)
  then have p: "push 1 (sample_part 5) n = (n\<lparr>gn_recv := (NewReassembler GatewayChunkSize)\<lparr>ra_updated := 1\<rparr>, gn_parts := [(1, sample_part 5)]\<rparr>, Inr (Some [5]))"
    by (metis prod.collapse)
  have s: "gs_readErr sample_sent = None" "gs_conns sample_sent = [n]" "lookupConn 1 sample_sent = Some 0"
    by (simp_all add: sample_sent_def sample_opened_def new_session_def n_def lookupConn_def)
  show ?thesis using p
    by (simp add: s read_turn_def d handle_frame_def handleData_def upd_conn_def Deliver_def)
      (simp add: n_def newPipeConn_def gatewayConnQueue_def sample_final_conn_def)
qed

lemma sample_reach: "link_reach sample_link_env sample_client sample_events = sample_sent\<lparr>gs_conns := [sample_final_conn]\<rparr>"
proof -
  have e: "sample_events = LRead 0 (WsBinary (EncodeFrame OpOpen 1 [])) # [LWrite 0 [7], LLock 0 0, LChunk 0, LWriter True]
      @ [LRead 1 (WsBinary (EncodeFrame OpData 1 (sample_part 5)))]" by (simp add: sample_events_def)
  have "fst (run_machine (link_step sample_link_env) sample_opened ([LWrite 0 [7], LLock 0 0, LChunk 0, LWriter True]
      @ [LRead 1 (WsBinary (EncodeFrame OpData 1 (sample_part 5)))])) = sample_sent\<lparr>gs_conns := [sample_final_conn]\<rparr>"
    using sample_send sample_data by (simp add: run_machine_append case_prod_beta Let_def del: append.simps link_step.simps)
  then show ?thesis using link_sample_open by (simp add: link_reach_def e del: append.simps link_step.simps)
qed

lemma sample_client_fields [simp]:
  "gc_conns sample_client = []" "gc_maxClients sample_client = 8" "gc_active sample_client = 0" "length (gc_urls sample_client) = 3"
  "idle sample_client" "gc_backoffMax sample_client = 60 * second"
  by (simp_all add: sample_client_def idle_def)


theorem gateway_stream_to_hub_witness:
  "prefix (gn_inbound (conn_at (link_reach sample_link_env sample_client sample_events) 0)) [[5], [6]]"
proof -
  let ?s = "link_reach sample_link_env sample_client sample_events"
  have s: "gs_conns ?s = [sample_final_conn]" by (simp add: sample_reach)
  have n: "map snd (gn_parts sample_final_conn) = [sample_part 5]" "gn_read sample_final_conn = []" by (simp_all add: sample_final_conn_def newPipeConn_def)
  have "chunk_stream [[5], [6]] GatewayChunkSize = Some [sample_part 5, sample_part 6]" by (simp add: sample_chunk)
  then show ?thesis
    using gateway_stream_to_hub [of sample_client ?s sample_link_env sample_events 0 "[[5], [6]]" "[sample_part 5, sample_part 6]"] s n
    by (simp add: MaxLogicalBytes_def)
qed

theorem gateway_connections_witness:
  "lookupConn 1 (link_reach sample_link_env sample_client sample_events) = Some 0
   \<and> int (length (gc_conns (gs_client (link_reach sample_link_env sample_client sample_events)))) \<le> 8"
proof -
  let ?s = "link_reach sample_link_env sample_client sample_events"
  have s: "gs_conns ?s = [sample_final_conn]" by (simp add: sample_reach)
  have n: "gn_id sample_final_conn = 1" "gn_served sample_final_conn" "\<not> gn_closed sample_final_conn"
    by (simp_all add: sample_final_conn_def newPipeConn_def)
  show ?thesis using gateway_connections [of sample_client ?s sample_link_env sample_events] s n by simp
qed

definition sample_round :: run_env where
  "sample_round = \<lparr>rn_done = False, rn_session = runSession sample_link_env
     \<lparr>se_dialed = False, se_register = undefined, se_registered_at = 0, se_events = [], se_ctx_done = False\<rparr>,
     rn_done_after = False, rn_arrivals = [\<lparr>pr_index = 1, pr_rtt = None\<rparr>], rn_slept = True\<rparr>"

theorem failed_session_moves_on_witness:
  "\<exists>c'. run_round (sample_client, second) sample_round = (c', Some (2 * second)) \<and> gc_active c' \<noteq> 0"
proof -
  let ?X = "\<lparr>se_dialed = False, se_register = undefined, se_registered_at = 0, se_events = [], se_ctx_done = False\<rparr>"
  have "runSession sample_link_env ?X sample_client = (sample_client, False, Some DialFailed)" by (simp add: runSession_def)
  moreover have "pr_index ` set (rn_arrivals sample_round) \<subseteq> set (candidates (int (gc_active sample_client)) sample_client)"
    by (simp add: sample_round_def candidates_range)
  ultimately show ?thesis
    using failed_session_moves_on [of sample_client sample_round sample_link_env ?X sample_client False DialFailed second]
    by (auto simp: sample_round_def second_def)
qed

theorem outage_visits_all_witness:
  "\<exists>c'. run_loop (sample_client, second) [sample_round, sample_round] = (c', Some (4 * second)) \<and> gc_active c' = 2"
proof -
  have "\<forall>R \<in> set [sample_round, sample_round]. \<not> rn_done R \<and> \<not> rn_done_after R \<and> rn_slept R \<and> successful (rn_arrivals R) = []
      \<and> (\<exists>X. rn_session R = runSession sample_link_env X \<and> \<not> se_dialed X)"
    by (auto simp: sample_round_def successful_def intro!: exI [of _ "\<lparr>se_dialed = False, se_register = undefined, se_registered_at = 0, se_events = [], se_ctx_done = False\<rparr>"])
  then show ?thesis
    using outage_visits_all [of sample_client second "[sample_round, sample_round]" sample_link_env]
    by (auto simp: second_def)
qed

end
