(* ===== verification/Hub.thy ===== *)
theory Hub
  imports Send_Buffer Go_Text "HOL-Library.AList"
begin

text \<open>
  The hub every phone connection ends in, \<^verbatim>\<open>internal/transport/ws.go\<close>, and the check of an upgrade request, \<^verbatim>\<open>internal/transport/auth.go\<close>.

  \<^item> A call of \<open>Serve\<close> with its connection and its \<open>ClientConn\<close> is one record of the store \<open>hb_store\<close>; the maps of the code hold
    numbers of the store. The client's name \<^verbatim>\<open>client-%d\<close> is its number.
  \<^item> \<open>hc_phase\<close> is how far \<open>Serve\<close> has come, with one phase per stretch between two points where other goroutines can run;
    the \<open>register\<close> mutex is held from \<open>Connecting\<close> to the entry into the table, and \<open>hb_register\<close> is its holder. Events that need
    the mutex while another goroutine holds it change nothing.
  \<^item> The state of the application that \<open>prepare\<close> updates and that \<open>onConnect\<close> sends to a new client is \<open>hb_app\<close>; \<open>onConnect\<close> is
    the function \<open>he_snapshot\<close> from it to the messages sent. \<open>hb_log\<close>, \<open>hc_from\<close>, \<open>hc_snap\<close>, \<open>hc_deltas\<close> and \<open>hb_started\<close> are histories
    no code reads: the prepared broadcasts, what a client was sent of them, and the messages handed to a handler.
  \<^item> JSON, the handshake, encryption and the outcome of reads and writes are arguments. \<open>onDisconnect\<close> is a callback into the
    application and is left out.
\<close>

section \<open>Upgrade requests\<close>

record hub_config =
  hf_Token :: string
  hf_AllowedOrigins :: "string list"

record upgrade_request =
  ur_Origin :: string
  ur_Authorization :: string
  ur_has_token :: bool
  ur_protocols :: string

definition e2eeSubprotocol :: string where "e2eeSubprotocol = ''herdr-e2ee-v1''"

definition originAllowed :: "hub_config \<Rightarrow> upgrade_request \<Rightarrow> bool" where
  "originAllowed cfg r \<longleftrightarrow>
     ur_Origin r = [] \<or> hf_Token cfg \<noteq> [] \<or> list_ex (\<lambda>allowed. allowed = ''*'' \<or> allowed = ur_Origin r) (hf_AllowedOrigins cfg)"

definition webSocketUpgradeAllowed :: "hub_config \<Rightarrow> upgrade_request \<Rightarrow> bool" where
  "webSocketUpgradeAllowed cfg r =
     (if \<not> originAllowed cfg r then False
      else if hf_Token cfg = [] then True
      else if ur_Authorization r \<noteq> [] \<or> ur_has_token r then False
      else list_ex (\<lambda>requested. trim_space requested = e2eeSubprotocol) (split_char CHR '','' (ur_protocols r)))"

section \<open>State\<close>

definition handlerCapacity :: nat where "handlerCapacity = 32"
definition orderedIngressCapacity :: nat where "orderedIngressCapacity = 128"

datatype serve_phase = Handshake | Registering | Connecting | Announced | Checked | Serving | Ended

record hub_message =
  hm_data :: bytes
  hm_kind :: string
  hm_replaceable :: bool

record 'a hub_client =
  hc_phase :: serve_phase
  hc_id :: nat
  hc_transport :: string
  hc_buf :: send_buffer
  hc_cancelled :: bool
  hc_removed :: bool
  hc_connClosed :: bool
  hc_writing :: bool
  hc_written :: "bytes list"
  hc_from :: nat
  hc_snap :: 'a
  hc_deltas :: "hub_message list"

record inbound_json =
  ij_request_id :: string
  ij_type :: string
  ij_body :: bytes

record inbound_message =
  im_client :: nat
  im_sequence :: nat
  im_message :: inbound_json

datatype ingress_state = IngressIdle | IngressSlot inbound_message | IngressAdmit inbound_message

record 'a hub =
  hb_store :: "'a hub_client list"
  hb_pending :: "nat list"
  hb_clients :: "(nat \<times> nat) list"
  hb_nextID :: nat
  hb_closing :: bool
  hb_register :: "nat option"
  hb_stopping :: "nat list"
  hb_app :: 'a
  hb_log :: "(hub_message \<times> ('a \<Rightarrow> 'a)) list"
  hb_receiptSequence :: nat
  hb_orderedIngress :: "inbound_message list"
  hb_ingress :: ingress_state
  hb_running :: "inbound_message list"
  hb_started :: "inbound_message list"
  hb_ingressHighWater :: nat
  hb_ingressRejected :: nat
  hb_outboundHighWaterItem :: nat
  hb_outboundHighWaterByte :: int
  hb_coalesced :: nat
  hb_slowClientEvictions :: nat

record 'a hub_env =
  he_snapshot :: "'a \<Rightarrow> hub_message list"
  he_messageType :: "bytes \<Rightarrow> string"
  he_busy :: "string \<Rightarrow> string \<Rightarrow> bytes"
  he_utf8 :: "bytes \<Rightarrow> bool"
  he_parse :: "bytes \<Rightarrow> inbound_json option option"

definition NewHub :: "'a \<Rightarrow> 'a hub" where
  "NewHub app =
     \<lparr>hb_store = [], hb_pending = [], hb_clients = [], hb_nextID = 0, hb_closing = False, hb_register = None, hb_stopping = [],
      hb_app = app, hb_log = [], hb_receiptSequence = 0, hb_orderedIngress = [], hb_ingress = IngressIdle, hb_running = [], hb_started = [],
      hb_ingressHighWater = 0, hb_ingressRejected = 0, hb_outboundHighWaterItem = 0, hb_outboundHighWaterByte = 0, hb_coalesced = 0,
      hb_slowClientEvictions = 0\<rparr>"

abbreviation client_at :: "'a hub \<Rightarrow> nat \<Rightarrow> 'a hub_client" where
  "client_at h i \<equiv> hb_store h ! i"

definition upd_hub_client :: "nat \<Rightarrow> ('a hub_client \<Rightarrow> 'a hub_client) \<Rightarrow> 'a hub \<Rightarrow> 'a hub" where
  "upd_hub_client i f h = h\<lparr>hb_store := (hb_store h)[i := f (hb_store h ! i)]\<rparr>"

section \<open>Sending\<close>

definition observeAtomicMax :: "'b::linorder \<Rightarrow> 'b \<Rightarrow> 'b" where
  "observeAtomicMax current value = (if value \<le> current then current else value)"

definition encodeMessage :: "'a hub_env \<Rightarrow> bytes option \<Rightarrow> hub_message option" where
  "encodeMessage E marshalled =
     (case marshalled of
        None \<Rightarrow> None
      | Some data \<Rightarrow>
          let kind = he_messageType E data
          in Some \<lparr>hm_data = data, hm_kind = kind,
               hm_replaceable = (kind = ''agents'' \<or> kind = ''inventory_status'' \<or> kind = ''update_status'' \<or> kind = ''app_deploy_status'')\<rparr>)"

definition removeClient :: "nat \<Rightarrow> 'a hub \<Rightarrow> 'a hub" where
  "removeClient i h =
     (if hc_removed (client_at h i) then h
      else upd_hub_client i (\<lambda>c. c\<lparr>hc_removed := True, hc_cancelled := True, hc_buf := Close (hc_buf c)\<rparr>)
             (h\<lparr>hb_clients := AList.delete (hc_id (client_at h i)) (hb_clients h)\<rparr>))"

definition hub_push :: "nat \<Rightarrow> hub_message \<Rightarrow> 'a hub \<Rightarrow> 'a hub \<times> bool" where
  "hub_push i m h =
     (let (b, r) = pushTyped (hc_buf (client_at h i)) (hm_data m) (hm_kind m) (hm_replaceable m);
          h1 = upd_hub_client i (\<lambda>c. c\<lparr>hc_buf := b\<rparr>) h
      in if r = PushRejected then (h1, False)
         else (h1\<lparr>hb_coalesced := hb_coalesced h1 + (if r = PushCoalesced then 1 else 0),
                  hb_outboundHighWaterItem := observeAtomicMax (hb_outboundHighWaterItem h1) (Len b),
                  hb_outboundHighWaterByte := observeAtomicMax (hb_outboundHighWaterByte h1) (Bytes b)\<rparr>, True))"

definition evict_slow :: "nat \<Rightarrow> 'a hub \<Rightarrow> 'a hub" where
  "evict_slow i h = removeClient i (h\<lparr>hb_slowClientEvictions := hb_slowClientEvictions h + 1\<rparr>)"

definition Send :: "nat \<Rightarrow> hub_message option \<Rightarrow> 'a hub \<Rightarrow> 'a hub \<times> bool" where
  "Send i message h =
     (case message of
        None \<Rightarrow> (h, False)
      | Some m \<Rightarrow> (case hub_push i m h of (h1, True) \<Rightarrow> (h1, True) | (h1, False) \<Rightarrow> (evict_slow i h1, False)))"

definition SendByID :: "nat \<Rightarrow> hub_message option \<Rightarrow> 'a hub \<Rightarrow> 'a hub \<times> bool" where
  "SendByID cid message h =
     (case map_of (hb_clients h) cid of None \<Rightarrow> (h, False) | Some i \<Rightarrow> Send i message h)"

definition broadcast_one :: "hub_message \<Rightarrow> 'a hub \<Rightarrow> nat \<Rightarrow> 'a hub" where
  "broadcast_one m h i = (case hub_push i m h of (h1, True) \<Rightarrow> h1 | (h1, False) \<Rightarrow> evict_slow i h1)"

definition Broadcast :: "hub_message option \<Rightarrow> 'a hub \<Rightarrow> 'a hub" where
  "Broadcast message h =
     (case message of
        None \<Rightarrow> h
      | Some m \<Rightarrow> if hb_register h \<noteq> None then h else foldl (broadcast_one m) h (map snd (hb_clients h)))"

text \<open>The delta is noted with the client when it was pushed.\<close>

definition note_delta :: "hub_message \<Rightarrow> 'a hub \<Rightarrow> nat \<Rightarrow> 'a hub" where
  "note_delta m h i =
     (case hub_push i m h of
        (h1, True) \<Rightarrow> upd_hub_client i (\<lambda>c. c\<lparr>hc_deltas := hc_deltas c @ [m]\<rparr>) h1
      | (h1, False) \<Rightarrow> evict_slow i h1)"

definition BroadcastPrepared :: "hub_message option \<Rightarrow> ('a \<Rightarrow> 'a) \<Rightarrow> 'a hub \<Rightarrow> 'a hub" where
  "BroadcastPrepared message prepare h =
     (case message of
        None \<Rightarrow> h
      | Some m \<Rightarrow>
          if hb_register h \<noteq> None then h
          else foldl (note_delta m) (h\<lparr>hb_app := prepare (hb_app h), hb_log := hb_log h @ [(m, prepare)]\<rparr>) (map snd (hb_clients h)))"

definition write_pump :: "nat \<Rightarrow> bool \<Rightarrow> 'a hub \<Rightarrow> 'a hub" where
  "write_pump i ok h =
     (if \<not> hc_writing (client_at h i) then h
      else case Pop (hc_buf (client_at h i)) of
             (b, PopWait) \<Rightarrow> h
           | (b, PopClosed) \<Rightarrow> upd_hub_client i (\<lambda>c. c\<lparr>hc_writing := False\<rparr>) h
           | (b, PopItem data) \<Rightarrow>
               let h1 = upd_hub_client i (\<lambda>c. c\<lparr>hc_buf := b\<rparr>) h
               in if ok then upd_hub_client i (\<lambda>c. c\<lparr>hc_written := hc_written c @ [data]\<rparr>) h1
                  else upd_hub_client i (\<lambda>c. c\<lparr>hc_writing := False\<rparr>) (removeClient i h1))"

section \<open>Serving\<close>

definition new_hub_client :: "string \<Rightarrow> serve_phase \<Rightarrow> bool \<Rightarrow> 'a \<Rightarrow> 'a hub_client" where
  "new_hub_client name phase closed app =
     \<lparr>hc_phase = phase, hc_id = 0, hc_transport = name, hc_buf = newSendBuffer clientOutboundMaxItems clientOutboundMaxBytes,
      hc_cancelled = False, hc_removed = False, hc_connClosed = closed, hc_writing = False, hc_written = [], hc_from = 0, hc_snap = app, hc_deltas = []\<rparr>"

definition serve_begin :: "string \<Rightarrow> 'a hub \<Rightarrow> 'a hub" where
  "serve_begin name h =
     (if hb_closing h then h\<lparr>hb_store := hb_store h @ [new_hub_client name Ended True (hb_app h)]\<rparr>
      else h\<lparr>hb_store := hb_store h @ [new_hub_client name Handshake False (hb_app h)], hb_pending := hb_pending h @ [length (hb_store h)]\<rparr>)"

definition serve_handshake :: "nat \<Rightarrow> bool \<Rightarrow> 'a hub \<Rightarrow> 'a hub" where
  "serve_handshake i ok h =
     (if hc_phase (client_at h i) \<noteq> Handshake then h
      else if ok then upd_hub_client i (\<lambda>c. c\<lparr>hc_phase := Registering\<rparr>) h
      else upd_hub_client i (\<lambda>c. c\<lparr>hc_phase := Ended, hc_connClosed := True\<rparr>) (h\<lparr>hb_pending := removeAll i (hb_pending h)\<rparr>))"

definition serve_register :: "nat \<Rightarrow> 'a hub \<Rightarrow> 'a hub" where
  "serve_register i h =
     (if hc_phase (client_at h i) \<noteq> Registering \<or> hb_register h \<noteq> None then h
      else let h1 = h\<lparr>hb_pending := removeAll i (hb_pending h)\<rparr>
           in if hb_closing h then upd_hub_client i (\<lambda>c. c\<lparr>hc_phase := Ended, hc_cancelled := True, hc_connClosed := True\<rparr>) h1
              else upd_hub_client i (\<lambda>c. c\<lparr>hc_phase := Connecting, hc_id := hb_nextID h + 1, hc_writing := True,
                       hc_buf := newSendBuffer clientOutboundMaxItems clientOutboundMaxBytes\<rparr>)
                     (h1\<lparr>hb_nextID := hb_nextID h + 1, hb_register := Some i\<rparr>))"

definition serve_connect :: "'a hub_env \<Rightarrow> nat \<Rightarrow> 'a hub \<Rightarrow> 'a hub" where
  "serve_connect E i h =
     (if hc_phase (client_at h i) \<noteq> Connecting then h
      else upd_hub_client i (\<lambda>c. c\<lparr>hc_phase := Announced, hc_from := length (hb_log h), hc_snap := hb_app h, hc_deltas := []\<rparr>)
             (foldl (\<lambda>g m. fst (Send i (Some m) g)) h (he_snapshot E (hb_app h))))"

definition serve_check :: "nat \<Rightarrow> 'a hub \<Rightarrow> 'a hub" where
  "serve_check i h =
     (if hc_phase (client_at h i) \<noteq> Announced then h
      else if hc_cancelled (client_at h i)
      then upd_hub_client i (\<lambda>c. c\<lparr>hc_phase := Ended, hc_connClosed := True\<rparr>) (h\<lparr>hb_register := None\<rparr>)
      else upd_hub_client i (\<lambda>c. c\<lparr>hc_phase := Checked\<rparr>) h)"

definition serve_insert :: "nat \<Rightarrow> 'a hub \<Rightarrow> 'a hub" where
  "serve_insert i h =
     (if hc_phase (client_at h i) \<noteq> Checked then h
      else upd_hub_client i (\<lambda>c. c\<lparr>hc_phase := Serving\<rparr>)
             (h\<lparr>hb_clients := AList.update (hc_id (client_at h i)) i (hb_clients h), hb_register := None\<rparr>))"

definition serve_end :: "nat \<Rightarrow> 'a hub \<Rightarrow> 'a hub" where
  "serve_end i h =
     (if hc_phase (client_at h i) \<noteq> Serving then h
      else upd_hub_client i (\<lambda>c. c\<lparr>hc_phase := Ended, hc_connClosed := True\<rparr>) (removeClient i h))"

section \<open>Receiving\<close>

definition decodeWebSocketMessage :: "'a hub_env \<Rightarrow> bytes \<Rightarrow> inbound_json option" where
  "decodeWebSocketMessage E data =
     (if \<not> he_utf8 E data then None else case he_parse E data of None \<Rightarrow> None | Some parsed \<Rightarrow> parsed)"

definition submitMessage :: "'a hub_env \<Rightarrow> nat \<Rightarrow> inbound_message \<Rightarrow> 'a hub \<Rightarrow> 'a hub" where
  "submitMessage E i m h =
     (if length (hb_orderedIngress h) < orderedIngressCapacity
      then h\<lparr>hb_orderedIngress := hb_orderedIngress h @ [m],
             hb_ingressHighWater := observeAtomicMax (hb_ingressHighWater h) (length (hb_orderedIngress h) + 1)\<rparr>
      else fst (Send i (encodeMessage E (Some (he_busy E (ij_request_id (im_message m)) (ij_type (im_message m)))))
             (h\<lparr>hb_ingressRejected := hb_ingressRejected h + 1\<rparr>)))"

text \<open>One turn of \<open>readPump\<close> on bytes that were read and, on an encrypted connection, opened; \<open>secure\<close> says which one it is.\<close>

definition read_pump :: "'a hub_env \<Rightarrow> bool \<Rightarrow> nat \<Rightarrow> bytes \<Rightarrow> 'a hub \<Rightarrow> 'a hub" where
  "read_pump E secure i data h =
     (if hc_phase (client_at h i) \<noteq> Serving then h
      else case decodeWebSocketMessage E data of
             None \<Rightarrow> if secure then serve_end i h else h
           | Some message \<Rightarrow>
               let n = hb_receiptSequence h + 1
               in submitMessage E i \<lparr>im_client = i, im_sequence = n, im_message = message\<rparr> (h\<lparr>hb_receiptSequence := n\<rparr>))"

text \<open>\<open>runOrderedIngress\<close>: a message is taken, waits for a handler slot, and its handler is waited for until it signals or
  the client is gone; the handler goes on and gives its slot back when it returns, signalling at the latest then.\<close>

definition ingress_take :: "'a hub \<Rightarrow> 'a hub" where
  "ingress_take h =
     (if hb_ingress h \<noteq> IngressIdle then h
      else case hb_orderedIngress h of
             [] \<Rightarrow> h
           | m # rest \<Rightarrow>
               let h1 = h\<lparr>hb_orderedIngress := rest\<rparr>
               in if hc_cancelled (client_at h (im_client m)) then h1 else h1\<lparr>hb_ingress := IngressSlot m\<rparr>)"

definition ingress_start :: "'a hub \<Rightarrow> 'a hub" where
  "ingress_start h =
     (case hb_ingress h of
        IngressSlot m \<Rightarrow>
          if length (hb_running h) < handlerCapacity
          then h\<lparr>hb_running := hb_running h @ [m], hb_started := hb_started h @ [m], hb_ingress := IngressAdmit m\<rparr>
          else h
      | _ \<Rightarrow> h)"

definition ingress_admitted :: "inbound_message \<Rightarrow> 'a hub \<Rightarrow> 'a hub" where
  "ingress_admitted m h = (if hb_ingress h = IngressAdmit m \<and> m \<in> set (hb_running h) then h\<lparr>hb_ingress := IngressIdle\<rparr> else h)"

definition ingress_gone :: "'a hub \<Rightarrow> 'a hub" where
  "ingress_gone h =
     (case hb_ingress h of
        IngressAdmit m \<Rightarrow> if hc_cancelled (client_at h (im_client m)) then h\<lparr>hb_ingress := IngressIdle\<rparr> else h
      | _ \<Rightarrow> h)"

definition handler_done :: "inbound_message \<Rightarrow> 'a hub \<Rightarrow> 'a hub" where
  "handler_done m h =
     (if m \<in> set (hb_running h) then (ingress_admitted m h)\<lparr>hb_running := remove1 m (hb_running h)\<rparr> else h)"

section \<open>Shutdown and status\<close>

definition close_pending :: "'a hub \<Rightarrow> nat \<Rightarrow> 'a hub" where
  "close_pending h i = upd_hub_client i (\<lambda>c. c\<lparr>hc_connClosed := True\<rparr>) h"

definition hub_Shutdown :: "'a hub \<Rightarrow> 'a hub" where
  "hub_Shutdown h =
     (if hb_register h \<noteq> None then h
      else foldl close_pending
             (h\<lparr>hb_closing := True, hb_stopping := hb_stopping h @ map snd (hb_clients h), hb_clients := [], hb_pending := []\<rparr>) (hb_pending h))"

text \<open>The goroutine \<open>Shutdown\<close> starts for each client.\<close>

definition shutdown_client :: "nat \<Rightarrow> 'a hub \<Rightarrow> 'a hub" where
  "shutdown_client i h =
     (if i \<in> set (hb_stopping h)
      then removeClient i (upd_hub_client i (\<lambda>c. c\<lparr>hc_connClosed := True\<rparr>) (h\<lparr>hb_stopping := removeAll i (hb_stopping h)\<rparr>)) else h)"

definition ClientCount :: "'a hub \<Rightarrow> nat" where
  "ClientCount h = length (hb_clients h)"

record hub_metrics =
  mt_IngressHighWater :: nat
  mt_IngressRejected :: nat
  mt_OutboundHighWaterItem :: nat
  mt_OutboundHighWaterByte :: int
  mt_Coalesced :: nat
  mt_SlowClientEvictions :: nat
  mt_ConnectedClients :: nat
  mt_ConnectedByTransport :: "string \<Rightarrow> nat"

definition Metrics :: "'a hub \<Rightarrow> hub_metrics" where
  "Metrics h =
     \<lparr>mt_IngressHighWater = hb_ingressHighWater h, mt_IngressRejected = hb_ingressRejected h,
      mt_OutboundHighWaterItem = hb_outboundHighWaterItem h, mt_OutboundHighWaterByte = hb_outboundHighWaterByte h,
      mt_Coalesced = hb_coalesced h, mt_SlowClientEvictions = hb_slowClientEvictions h, mt_ConnectedClients = length (hb_clients h),
      mt_ConnectedByTransport = (\<lambda>t. length (filter (\<lambda>x. hc_transport (client_at h (snd x)) = t) (hb_clients h)))\<rparr>"

section \<open>Events\<close>

datatype 'a hub_event =
    HBegin string
  | HHandshake nat bool
  | HRegister nat
  | HConnect nat
  | HCheck nat
  | HInsert nat
  | HEnd nat
  | HWrite nat bool
  | HCancel nat
  | HRead bool nat bytes
  | HSend nat hub_message
  | HBroadcast hub_message
  | HPrepared hub_message "'a \<Rightarrow> 'a"
  | HTake
  | HStart
  | HAdmitted inbound_message
  | HGone
  | HDone inbound_message
  | HShutdown
  | HStopClient nat

definition at_client :: "nat \<Rightarrow> ('a hub \<Rightarrow> 'a hub) \<Rightarrow> 'a hub \<Rightarrow> 'a hub" where
  "at_client i f h = (if i < length (hb_store h) then f h else h)"

fun hub_step :: "'a hub_env \<Rightarrow> 'a hub \<Rightarrow> 'a hub_event \<Rightarrow> 'a hub \<times> unit" where
  "hub_step E h (HBegin name) = (serve_begin name h, ())"
| "hub_step E h (HHandshake i ok) = (at_client i (serve_handshake i ok) h, ())"
| "hub_step E h (HRegister i) = (at_client i (serve_register i) h, ())"
| "hub_step E h (HConnect i) = (at_client i (serve_connect E i) h, ())"
| "hub_step E h (HCheck i) = (at_client i (serve_check i) h, ())"
| "hub_step E h (HInsert i) = (at_client i (serve_insert i) h, ())"
| "hub_step E h (HEnd i) = (at_client i (serve_end i) h, ())"
| "hub_step E h (HWrite i ok) = (at_client i (write_pump i ok) h, ())"
| "hub_step E h (HCancel i) = (at_client i (upd_hub_client i (\<lambda>c. c\<lparr>hc_cancelled := True\<rparr>)) h, ())"
| "hub_step E h (HRead secure i data) = (at_client i (read_pump E secure i data) h, ())"
| "hub_step E h (HSend i m) = (at_client i (\<lambda>g. fst (Send i (Some m) g)) h, ())"
| "hub_step E h (HBroadcast m) = (Broadcast (Some m) h, ())"
| "hub_step E h (HPrepared m prepare) = (BroadcastPrepared (Some m) prepare h, ())"
| "hub_step E h HTake = (ingress_take h, ())"
| "hub_step E h HStart = (ingress_start h, ())"
| "hub_step E h (HAdmitted m) = (ingress_admitted m h, ())"
| "hub_step E h HGone = (ingress_gone h, ())"
| "hub_step E h (HDone m) = (handler_done m h, ())"
| "hub_step E h HShutdown = (hub_Shutdown h, ())"
| "hub_step E h (HStopClient i) = (at_client i (shutdown_client i) h, ())"

end
