(* ===== verification/Hub_Props.thy ===== *)
theory Hub_Props
  imports Hub
begin

text \<open>
  Properties of the hub: what a client observes of the prepared updates, what shutdown guarantees, the order in which messages
  reach the handlers, and the one way a dead client stays in the table. Operations that only push to or remove
  clients satisfy \<open>calm\<close>, and everything else is stated relative to it.
\<close>

section \<open>Pushing and removing\<close>

definition calm :: "'a hub \<Rightarrow> 'a hub \<Rightarrow> bool" where
  "calm h h' \<longleftrightarrow>
     length (hb_store h') = length (hb_store h)
     \<and> (\<forall>j < length (hb_store h). hc_phase (client_at h' j) = hc_phase (client_at h j) \<and> hc_id (client_at h' j) = hc_id (client_at h j)
          \<and> hc_from (client_at h' j) = hc_from (client_at h j) \<and> hc_snap (client_at h' j) = hc_snap (client_at h j)
          \<and> hc_deltas (client_at h' j) = hc_deltas (client_at h j) \<and> (hc_removed (client_at h j) \<longrightarrow> hc_removed (client_at h' j)))
     \<and> set (hb_clients h') \<subseteq> set (hb_clients h) \<and> (distinct (map fst (hb_clients h)) \<longrightarrow> distinct (map fst (hb_clients h')))
     \<and> hb_pending h' = hb_pending h \<and> hb_closing h' = hb_closing h \<and> hb_register h' = hb_register h \<and> hb_app h' = hb_app h \<and> hb_log h' = hb_log h
     \<and> hb_receiptSequence h' = hb_receiptSequence h \<and> hb_orderedIngress h' = hb_orderedIngress h \<and> hb_ingress h' = hb_ingress h
     \<and> hb_running h' = hb_running h \<and> hb_started h' = hb_started h"

lemma calm_refl [simp]: "calm h h"
  by (simp add: calm_def)

lemma calm_trans: "calm a b \<Longrightarrow> calm b c \<Longrightarrow> calm a c"
  by (simp add: calm_def) blast

lemma upd_hub_client_at:
  "j < length (hb_store h) \<Longrightarrow> client_at (upd_hub_client i f h) j = (if j = i then f (client_at h i) else client_at h j)"
  by (simp add: upd_hub_client_def nth_list_update)

lemma upd_hub_client_fields [simp]:
  "length (hb_store (upd_hub_client i f h)) = length (hb_store h)" "hb_clients (upd_hub_client i f h) = hb_clients h"
  "hb_pending (upd_hub_client i f h) = hb_pending h" "hb_closing (upd_hub_client i f h) = hb_closing h" "hb_register (upd_hub_client i f h) = hb_register h"
  "hb_app (upd_hub_client i f h) = hb_app h" "hb_log (upd_hub_client i f h) = hb_log h" "hb_receiptSequence (upd_hub_client i f h) = hb_receiptSequence h"
  "hb_orderedIngress (upd_hub_client i f h) = hb_orderedIngress h" "hb_ingress (upd_hub_client i f h) = hb_ingress h"
  "hb_running (upd_hub_client i f h) = hb_running h" "hb_started (upd_hub_client i f h) = hb_started h"
  by (simp_all add: upd_hub_client_def)

text \<open>Changing fields of one client that the relation does not look at.\<close>

lemma calm_upd:
  assumes "\<And>c. hc_phase (f c) = hc_phase c \<and> hc_id (f c) = hc_id c \<and> hc_from (f c) = hc_from c \<and> hc_snap (f c) = hc_snap c
      \<and> hc_deltas (f c) = hc_deltas c \<and> (hc_removed c \<longrightarrow> hc_removed (f c))"
  shows "calm h (upd_hub_client i f h)"
  using assms by (auto simp: calm_def upd_hub_client_at)

lemma calm_counters [simp]:
  "calm h (h\<lparr>hb_slowClientEvictions := n\<rparr>)" "calm h (h\<lparr>hb_ingressRejected := n\<rparr>)" "calm h (h\<lparr>hb_stopping := ns\<rparr>)"
  "calm h (h\<lparr>hb_coalesced := n, hb_outboundHighWaterItem := n2, hb_outboundHighWaterByte := n3\<rparr>)"
  "calm h (h\<lparr>hb_outboundHighWaterItem := n2, hb_outboundHighWaterByte := n3\<rparr>)"
  by (simp_all add: calm_def)

lemma calm_remove [simp]: "calm h (removeClient i h)"
proof -
  have d: "calm h (h\<lparr>hb_clients := AList.delete k (hb_clients h)\<rparr>)" for k
    by (auto simp: calm_def AList.delete_eq distinct_fst_filter)
  have u: "calm g (upd_hub_client i (\<lambda>c. c\<lparr>hc_removed := True, hc_cancelled := True, hc_buf := Close (hc_buf c)\<rparr>) g)" for g :: "'a hub"
    by (rule calm_upd) simp
  show ?thesis unfolding removeClient_def using calm_trans [OF d u] by simp
qed

lemma calm_push: "hub_push i m h = (h', ok) \<Longrightarrow> calm h h'"
proof -
  have u: "calm h (upd_hub_client i (\<lambda>c. c\<lparr>hc_buf := b\<rparr>) h)" for b by (rule calm_upd) simp
  assume "hub_push i m h = (h', ok)"
  then show ?thesis using u calm_trans [OF u calm_counters(4)] calm_trans [OF u calm_counters(5)] by (auto simp: hub_push_def Let_def split: prod.splits if_splits)
qed

lemma calm_evict [simp]: "calm h (evict_slow i h)"
  unfolding evict_slow_def by (rule calm_trans [OF calm_counters(1) calm_remove])

lemma calm_send [simp]: "calm h (fst (Send i m h))"
  unfolding Send_def by (auto split: option.splits prod.splits bool.splits dest: calm_push intro: calm_trans [OF calm_push calm_evict])

lemma calm_foldl: "(\<And>h x. calm h (f h x)) \<Longrightarrow> calm h (foldl f h xs)"
  by (induction xs arbitrary: h) (auto intro: calm_trans)

lemma calm_broadcast [simp]: "calm h (Broadcast m h)"
proof -
  have "calm g (broadcast_one k g i)" for g :: "'a hub" and k i
    unfolding broadcast_one_def by (auto split: prod.splits bool.splits dest: calm_push intro: calm_trans [OF calm_push calm_evict])
  then show ?thesis unfolding Broadcast_def by (auto split: option.splits intro: calm_foldl)
qed

lemma calm_write [simp]: "calm h (write_pump i ok h)"
proof -
  have u: "calm g (upd_hub_client i (\<lambda>c. c\<lparr>hc_writing := x\<rparr>) g)" "calm g (upd_hub_client i (\<lambda>c. c\<lparr>hc_buf := b\<rparr>) g)"
      "calm g (upd_hub_client i (\<lambda>c. c\<lparr>hc_written := hc_written c @ [d]\<rparr>) g)" for g :: "'a hub" and x b d by (rule calm_upd, simp)+
  show ?thesis unfolding write_pump_def
    by (auto simp: Let_def u split: prod.splits pop_result.splits intro: calm_trans [OF u(2) u(3)] calm_trans [OF calm_trans [OF u(2) calm_remove] u(1)])
qed

lemma calm_cancel [simp]: "calm h (upd_hub_client i (\<lambda>c. c\<lparr>hc_cancelled := True\<rparr>) h)" "calm h (upd_hub_client i (\<lambda>c. c\<lparr>hc_connClosed := True\<rparr>) h)"
  by (rule calm_upd, simp)+

lemma calm_stop_client [simp]: "calm h (shutdown_client i h)"
  unfolding shutdown_client_def by (auto intro: calm_trans [OF calm_trans [OF calm_counters(3) calm_cancel(2)] calm_remove])

section \<open>Prepared broadcasts\<close>

text \<open>The prepared update reaches every client of \<open>J\<close> that is not removed on the way.\<close>

definition noted :: "hub_message \<Rightarrow> nat set \<Rightarrow> 'a hub \<Rightarrow> 'a hub \<Rightarrow> bool" where
  "noted m J h h' \<longleftrightarrow> (\<exists>g. calm h g \<and> hb_clients h' = hb_clients g \<and> length (hb_store h') = length (hb_store g)
     \<and> (\<forall>j < length (hb_store g). hc_phase (client_at h' j) = hc_phase (client_at g j) \<and> hc_id (client_at h' j) = hc_id (client_at g j)
          \<and> hc_from (client_at h' j) = hc_from (client_at g j) \<and> hc_snap (client_at h' j) = hc_snap (client_at g j)
          \<and> hc_removed (client_at h' j) = hc_removed (client_at g j)
          \<and> (j \<notin> J \<longrightarrow> hc_deltas (client_at h' j) = hc_deltas (client_at g j))
          \<and> (j \<in> J \<and> \<not> hc_removed (client_at g j) \<longrightarrow> hc_deltas (client_at h' j) = hc_deltas (client_at g j) @ [m]))
     \<and> hb_pending h' = hb_pending g \<and> hb_closing h' = hb_closing g \<and> hb_register h' = hb_register g \<and> hb_app h' = hb_app g \<and> hb_log h' = hb_log g
     \<and> hb_receiptSequence h' = hb_receiptSequence g \<and> hb_orderedIngress h' = hb_orderedIngress g \<and> hb_ingress h' = hb_ingress g
     \<and> hb_running h' = hb_running g \<and> hb_started h' = hb_started g)"

lemma removeClient_removed: "i < length (hb_store h) \<Longrightarrow> hc_removed (client_at (removeClient i h) i)"
  by (simp add: removeClient_def upd_hub_client_at)

lemma noted_one:
  assumes "i < length (hb_store h)"
  shows "noted m {i} h (note_delta m h i)"
proof (cases "hub_push i m h")
  case (Pair h1 ok)
  then have c: "calm h h1" by (rule calm_push)
  then have i: "i < length (hb_store h1)" using assms by (simp add: calm_def)
  show ?thesis
  proof (cases ok)
    case True
    then have n: "note_delta m h i = upd_hub_client i (\<lambda>c. c\<lparr>hc_deltas := hc_deltas c @ [m]\<rparr>) h1" using Pair by (simp add: note_delta_def)
    show ?thesis unfolding noted_def n using c i by (intro exI [of _ h1]) (simp add: upd_hub_client_at)
  next
    case False
    then have n: "note_delta m h i = evict_slow i h1" using Pair by (simp add: note_delta_def)
    have "hc_removed (client_at (evict_slow i h1) i)" using i by (simp add: evict_slow_def removeClient_removed)
    then show ?thesis unfolding noted_def n using calm_trans [OF c calm_evict] by (intro exI [of _ "evict_slow i h1"]) auto
  qed
qed

lemma noted_fields:
  assumes "noted m J h h'"
  shows "length (hb_store h') = length (hb_store h)" "set (hb_clients h') \<subseteq> set (hb_clients h)"
    "distinct (map fst (hb_clients h)) \<Longrightarrow> distinct (map fst (hb_clients h'))"
    "\<And>j. j < length (hb_store h) \<Longrightarrow> hc_phase (client_at h' j) = hc_phase (client_at h j) \<and> hc_id (client_at h' j) = hc_id (client_at h j)
       \<and> hc_from (client_at h' j) = hc_from (client_at h j) \<and> hc_snap (client_at h' j) = hc_snap (client_at h j)
       \<and> (hc_removed (client_at h j) \<longrightarrow> hc_removed (client_at h' j))"
    "\<And>j. j < length (hb_store h) \<Longrightarrow> j \<notin> J \<Longrightarrow> hc_deltas (client_at h' j) = hc_deltas (client_at h j)"
    "\<And>j. j < length (hb_store h) \<Longrightarrow> j \<in> J \<Longrightarrow> \<not> hc_removed (client_at h' j) \<Longrightarrow> hc_deltas (client_at h' j) = hc_deltas (client_at h j) @ [m]"
    "hb_pending h' = hb_pending h" "hb_closing h' = hb_closing h" "hb_register h' = hb_register h" "hb_app h' = hb_app h" "hb_log h' = hb_log h"
    "hb_receiptSequence h' = hb_receiptSequence h" "hb_orderedIngress h' = hb_orderedIngress h" "hb_ingress h' = hb_ingress h"
    "hb_running h' = hb_running h" "hb_started h' = hb_started h"
  using assms by (auto simp: noted_def calm_def)

lemma noted_fold:
  assumes "distinct js" "\<forall>j \<in> set js. j < length (hb_store h)" "h' = foldl (note_delta m) h js"
  shows "length (hb_store h') = length (hb_store h) \<and> set (hb_clients h') \<subseteq> set (hb_clients h)
    \<and> (distinct (map fst (hb_clients h)) \<longrightarrow> distinct (map fst (hb_clients h')))
    \<and> (\<forall>j < length (hb_store h). hc_phase (client_at h' j) = hc_phase (client_at h j) \<and> hc_id (client_at h' j) = hc_id (client_at h j)
       \<and> hc_from (client_at h' j) = hc_from (client_at h j) \<and> hc_snap (client_at h' j) = hc_snap (client_at h j)
       \<and> (hc_removed (client_at h j) \<longrightarrow> hc_removed (client_at h' j))
       \<and> (j \<notin> set js \<longrightarrow> hc_deltas (client_at h' j) = hc_deltas (client_at h j))
       \<and> (j \<in> set js \<and> \<not> hc_removed (client_at h' j) \<longrightarrow> hc_deltas (client_at h' j) = hc_deltas (client_at h j) @ [m]))
    \<and> hb_pending h' = hb_pending h \<and> hb_closing h' = hb_closing h \<and> hb_register h' = hb_register h \<and> hb_app h' = hb_app h \<and> hb_log h' = hb_log h
    \<and> hb_receiptSequence h' = hb_receiptSequence h \<and> hb_orderedIngress h' = hb_orderedIngress h \<and> hb_ingress h' = hb_ingress h
    \<and> hb_running h' = hb_running h \<and> hb_started h' = hb_started h"
  using assms
proof (induction js arbitrary: h)
  case Nil
  then show ?case by simp
next
  case (Cons i js)
  define g where "g = note_delta m h i"
  have n: "noted m {i} h g" unfolding g_def by (rule noted_one) (use Cons.prems(2) in simp)
  note nf = noted_fields [OF n]
  have ih: "distinct js" "\<forall>j \<in> set js. j < length (hb_store g)" "h' = foldl (note_delta m) g js" "i \<notin> set js"
    using Cons.prems nf(1) by (auto simp: g_def)
  note I = Cons.IH [OF ih(1-3)]
  have deltas: "(j \<notin> set (i # js) \<longrightarrow> hc_deltas (client_at h' j) = hc_deltas (client_at h j))
      \<and> (j \<in> set (i # js) \<and> \<not> hc_removed (client_at h' j) \<longrightarrow> hc_deltas (client_at h' j) = hc_deltas (client_at h j) @ [m])"
    if j: "j < length (hb_store h)" for j
  proof (cases "j = i")
    case True
    then have "j \<notin> set js" using ih(4) by simp
    moreover have "hc_removed (client_at g j) \<longrightarrow> hc_removed (client_at h' j)" using I j nf(1) by auto
    ultimately show ?thesis using I j nf(1) nf(6) [OF j] True by auto
  next
    case False
    then show ?thesis using I j nf(1) nf(5) [OF j] by auto
  qed
  show ?case using I nf(1-4) nf(7-16) deltas by (intro conjI allI impI) (auto dest: subsetD)
qed

section \<open>The invariant of connections\<close>

definition locked_phases :: "serve_phase set" where
  "locked_phases = {Connecting, Announced, Checked}"

abbreviation replay :: "'a \<Rightarrow> (hub_message \<times> ('a \<Rightarrow> 'a)) list \<Rightarrow> 'a" where
  "replay app xs \<equiv> foldl (\<lambda>a x. snd x a) app xs"

text \<open>A client that is sent every update once: those before \<open>hc_from\<close> in its snapshot, the others as deltas.\<close>

definition observes :: "'a \<Rightarrow> (hub_message \<times> ('a \<Rightarrow> 'a)) list \<Rightarrow> 'a hub_client \<Rightarrow> bool" where
  "observes app0 log c \<longleftrightarrow> hc_from c \<le> length log \<and> hc_deltas c = map fst (drop (hc_from c) log) \<and> hc_snap c = replay app0 (take (hc_from c) log)"

definition entry_ok :: "'a \<Rightarrow> 'a hub \<Rightarrow> nat \<times> nat \<Rightarrow> bool" where
  "entry_ok app0 h x \<longleftrightarrow> snd x < length (hb_store h) \<and> hc_id (client_at h (snd x)) = fst x \<and> hc_phase (client_at h (snd x)) \<in> {Serving, Ended}
     \<and> (\<not> hc_removed (client_at h (snd x)) \<longrightarrow> hc_phase (client_at h (snd x)) = Serving \<and> observes app0 (hb_log h) (client_at h (snd x)))"

definition client_ok :: "'a hub \<Rightarrow> nat \<Rightarrow> bool" where
  "client_ok h i \<longleftrightarrow> (hc_phase (client_at h i) \<in> locked_phases \<longrightarrow> hb_register h = Some i)
     \<and> (hc_phase (client_at h i) \<in> {Announced, Checked} \<longrightarrow>
          hc_from (client_at h i) = length (hb_log h) \<and> hc_snap (client_at h i) = hb_app h \<and> hc_deltas (client_at h i) = [])"

definition hub_inv :: "'a \<Rightarrow> 'a hub \<Rightarrow> bool" where
  "hub_inv app0 h \<longleftrightarrow> distinct (map fst (hb_clients h)) \<and> (\<forall>x \<in> set (hb_clients h). entry_ok app0 h x)
     \<and> (\<forall>i < length (hb_store h). client_ok h i) \<and> hb_app h = replay app0 (hb_log h)
     \<and> (hb_closing h \<longrightarrow> hb_clients h = [] \<and> hb_pending h = [] \<and> hb_register h = None)"

lemma calm_inv:
  assumes inv: "hub_inv app0 h" and c: "calm h h'"
  shows "hub_inv app0 h'"
proof -
  have "entry_ok app0 h' x" if "x \<in> set (hb_clients h')" for x
  proof -
    have "entry_ok app0 h x" using that inv c by (auto simp: hub_inv_def calm_def)
    then show ?thesis using c by (auto simp: entry_ok_def observes_def calm_def)
  qed
  moreover have "client_ok h' i" if "i < length (hb_store h')" for i
  proof -
    have "client_ok h i" using that inv c by (simp add: hub_inv_def calm_def)
    then show ?thesis using c that by (simp add: client_ok_def calm_def)
  qed
  moreover have "hb_clients h = [] \<Longrightarrow> hb_clients h' = []" using c by (auto simp: calm_def)
  ultimately show ?thesis using inv c by (simp add: hub_inv_def calm_def)
qed

text \<open>One call of \<open>Serve\<close> moves on; the table stays.\<close>

lemma upd_inv:
  assumes inv: "hub_inv app0 h" and i: "i < length (hb_store h)"
    and entry: "\<And>k. (k, i) \<in> set (hb_clients h) \<Longrightarrow> entry_ok app0 (upd_hub_client i f h) (k, i)"
    and ok: "client_ok (upd_hub_client i f h) i"
  shows "hub_inv app0 (upd_hub_client i f h)"
proof -
  have "entry_ok app0 (upd_hub_client i f h) x" if "x \<in> set (hb_clients h)" for x
  proof (cases "snd x = i")
    case True
    then show ?thesis using entry [of "fst x"] that by (cases x) auto
  next
    case False
    then show ?thesis using inv that by (auto simp: hub_inv_def entry_ok_def upd_hub_client_at)
  qed
  moreover have "client_ok (upd_hub_client i f h) j" if "j < length (hb_store h)" for j
    using that inv ok by (cases "j = i") (auto simp: hub_inv_def client_ok_def upd_hub_client_at)
  ultimately show ?thesis using inv by (simp add: hub_inv_def)
qed

text \<open>A connection that is still being set up is not in the table.\<close>

lemma outside_table:
  assumes "hub_inv app0 h" "hc_phase (client_at h i) \<notin> {Serving, Ended}"
  shows "(k, i) \<notin> set (hb_clients h)"
  using assms by (force simp: hub_inv_def entry_ok_def)

lemma lock_holder:
  assumes "hub_inv app0 h" "i < length (hb_store h)" "hc_phase (client_at h i) \<in> locked_phases"
  shows "hb_register h = Some i" "\<And>j. j < length (hb_store h) \<Longrightarrow> j \<noteq> i \<Longrightarrow> hc_phase (client_at h j) \<notin> locked_phases" "\<not> hb_closing h"
proof -
  have r: "\<forall>j < length (hb_store h). hc_phase (client_at h j) \<in> locked_phases \<longrightarrow> hb_register h = Some j"
    using assms(1) by (simp add: hub_inv_def client_ok_def)
  then show "hb_register h = Some i" using assms(2,3) by blast
  then show "\<And>j. j < length (hb_store h) \<Longrightarrow> j \<noteq> i \<Longrightarrow> hc_phase (client_at h j) \<notin> locked_phases" "\<not> hb_closing h"
    using r assms(1) by (auto simp: hub_inv_def)
qed

lemma hub_inv_cong:
  assumes "hub_inv app0 h" "hb_store h' = hb_store h" "hb_clients h' = hb_clients h" "hb_register h' = hb_register h" "hb_app h' = hb_app h"
    "hb_log h' = hb_log h" "hb_closing h' = hb_closing h" "hb_closing h \<Longrightarrow> hb_pending h' = []"
  shows "hub_inv app0 h'"
  using assms by (auto simp: hub_inv_def entry_ok_def client_ok_def)

text \<open>The lock is given back or taken while no other connection is in a phase that needs it.\<close>

lemma register_inv:
  assumes inv: "hub_inv app0 h" and "\<forall>j < length (hb_store h). j \<noteq> i \<longrightarrow> hc_phase (client_at h j) \<notin> locked_phases"
    and "i < length (hb_store h)" "hc_phase (f (client_at h i)) \<in> locked_phases \<longrightarrow> r = Some i"
      "hc_phase (f (client_at h i)) \<notin> {Announced, Checked}" "hb_closing h \<longrightarrow> r = None"
      "\<And>k. (k, i) \<notin> set (hb_clients h)" "\<not> hb_closing h \<or> p = []"
  shows "hub_inv app0 (upd_hub_client i f (h\<lparr>hb_pending := p, hb_nextID := n, hb_register := r\<rparr>))" (is "hub_inv app0 ?h")
proof -
  have "entry_ok app0 ?h x" if "x \<in> set (hb_clients h)" for x
  proof -
    have "snd x \<noteq> i" using that assms(7) by (metis prod.collapse)
    then show ?thesis using inv that by (auto simp: hub_inv_def entry_ok_def upd_hub_client_at)
  qed
  moreover have "client_ok ?h j" if "j < length (hb_store h)" for j
  proof (cases "j = i")
    case True
    then show ?thesis using assms(3,4,5) by (auto simp: client_ok_def upd_hub_client_at)
  next
    case False
    then have "hc_phase (client_at h j) \<notin> locked_phases" using assms(2) that by blast
    then show ?thesis using False that by (auto simp: client_ok_def upd_hub_client_at locked_phases_def)
  qed
  ultimately show ?thesis using inv assms(6,8) by (auto simp: hub_inv_def)
qed

lemma serve_begin_inv:
  assumes "hub_inv app0 h"
  shows "hub_inv app0 (serve_begin name h)"
proof -
  have "hub_inv app0 (h\<lparr>hb_store := hb_store h @ [new_hub_client name ph cl (hb_app h)], hb_pending := p\<rparr>)"
    if "ph \<notin> locked_phases" "hb_closing h \<longrightarrow> p = []" for ph cl p
    using assms that unfolding hub_inv_def entry_ok_def client_ok_def
    by (auto simp: nth_append new_hub_client_def locked_phases_def less_Suc_eq)
  from this [of Ended "hb_pending h" True] this [of Handshake "hb_pending h @ [length (hb_store h)]" False] show ?thesis
    using assms by (auto simp: serve_begin_def locked_phases_def hub_inv_def)
qed

lemma serve_handshake_inv:
  assumes inv: "hub_inv app0 h" and i: "i < length (hb_store h)"
  shows "hub_inv app0 (serve_handshake i ok h)"
proof (cases "hc_phase (client_at h i) = Handshake")
  case True
  define g where "g = h\<lparr>hb_pending := removeAll i (hb_pending h)\<rparr>"
  have g: "hub_inv app0 g" "i < length (hb_store g)" "hc_phase (client_at g i) = Handshake"
    using inv i True by (simp_all add: g_def hub_inv_cong [OF inv]) (rule hub_inv_cong [OF inv], auto simp: hub_inv_def)
  have out: "(k, i) \<notin> set (hb_clients h)" "(k, i) \<notin> set (hb_clients g)" for k
    using outside_table [OF inv, of i k] outside_table [OF g(1), of i k] True g(3) by auto
  have "hub_inv app0 (upd_hub_client i (\<lambda>c. c\<lparr>hc_phase := Registering\<rparr>) h)"
    using out i by (intro upd_inv [OF inv i]) (auto simp: client_ok_def upd_hub_client_at locked_phases_def)
  moreover have "hub_inv app0 (upd_hub_client i (\<lambda>c. c\<lparr>hc_phase := Ended, hc_connClosed := True\<rparr>) g)"
    using out g(2) by (intro upd_inv [OF g(1,2)]) (auto simp: client_ok_def upd_hub_client_at locked_phases_def)
  ultimately show ?thesis using True by (simp add: serve_handshake_def g_def)
qed (use inv in \<open>simp add: serve_handshake_def\<close>)

lemma serve_register_inv:
  assumes inv: "hub_inv app0 h" and i: "i < length (hb_store h)"
  shows "hub_inv app0 (serve_register i h)"
proof (cases "hc_phase (client_at h i) = Registering \<and> hb_register h = None")
  case True
  have free: "\<forall>j < length (hb_store h). j \<noteq> i \<longrightarrow> hc_phase (client_at h j) \<notin> locked_phases"
    using inv True by (auto simp: hub_inv_def client_ok_def)
  have out: "(k, i) \<notin> set (hb_clients h)" for k using outside_table [OF inv, of i k] True by auto
  have p: "hb_closing h \<longrightarrow> hb_pending h = []" using inv by (simp add: hub_inv_def)
  have closed: "h\<lparr>hb_pending := q\<rparr> = h\<lparr>hb_pending := q, hb_nextID := hb_nextID h, hb_register := None\<rparr>" for q using True by simp
  show ?thesis
  proof (cases "hb_closing h")
    case c: True
    have "hub_inv app0 (upd_hub_client i (\<lambda>c. c\<lparr>hc_phase := Ended, hc_cancelled := True, hc_connClosed := True\<rparr>)
        (h\<lparr>hb_pending := removeAll i (hb_pending h), hb_nextID := hb_nextID h, hb_register := None\<rparr>))"
      using c p out by (intro register_inv [OF inv free i]) (auto simp: locked_phases_def)
    then have "hub_inv app0 (upd_hub_client i (\<lambda>c. c\<lparr>hc_phase := Ended, hc_cancelled := True, hc_connClosed := True\<rparr>)
        (h\<lparr>hb_pending := removeAll i (hb_pending h)\<rparr>))" by (simp only: closed [symmetric])
    then show ?thesis using True c by (simp add: serve_register_def)
  next
    case c: False
    have "hub_inv app0 (upd_hub_client i (\<lambda>c. c\<lparr>hc_phase := Connecting, hc_id := hb_nextID h + 1, hc_writing := True,
          hc_buf := newSendBuffer clientOutboundMaxItems clientOutboundMaxBytes\<rparr>)
        (h\<lparr>hb_pending := removeAll i (hb_pending h), hb_nextID := hb_nextID h + 1, hb_register := Some i\<rparr>))"
      using c out by (intro register_inv [OF inv free i]) (auto simp: locked_phases_def)
    then show ?thesis using True c by (simp add: serve_register_def)
  qed
qed (use inv in \<open>auto simp: serve_register_def\<close>)

lemma serve_connect_inv:
  assumes inv: "hub_inv app0 h" and i: "i < length (hb_store h)"
  shows "hub_inv app0 (serve_connect E i h)"
proof (cases "hc_phase (client_at h i) = Connecting")
  case True
  define g where "g = foldl (\<lambda>g m. fst (Send i (Some m) g)) h (he_snapshot E (hb_app h))"
  have c: "calm h g" unfolding g_def by (rule calm_foldl) simp
  have g: "hub_inv app0 g" "i < length (hb_store g)" "hc_phase (client_at g i) = Connecting" "hb_log g = hb_log h" "hb_app g = hb_app h"
    using calm_inv [OF inv c] c i True by (auto simp: calm_def)
  have out: "(k, i) \<notin> set (hb_clients g)" for k using outside_table [OF g(1), of i k] g(3) by auto
  have "hb_register g = Some i" using lock_holder(1) [OF g(1,2)] g(3) by (simp add: locked_phases_def)
  then have "hub_inv app0 (upd_hub_client i (\<lambda>c. c\<lparr>hc_phase := Announced, hc_from := length (hb_log h), hc_snap := hb_app h, hc_deltas := []\<rparr>) g)"
    using out g by (intro upd_inv [OF g(1,2)]) (auto simp: client_ok_def upd_hub_client_at)
  then show ?thesis using True by (simp add: serve_connect_def g_def)
qed (use inv in \<open>simp add: serve_connect_def\<close>)

lemma serve_check_inv:
  assumes inv: "hub_inv app0 h" and i: "i < length (hb_store h)"
  shows "hub_inv app0 (serve_check i h)"
proof (cases "hc_phase (client_at h i) = Announced")
  case True
  then have lp: "hc_phase (client_at h i) \<in> locked_phases" by (simp add: locked_phases_def)
  note l = lock_holder [OF inv i lp]
  have out: "(k, i) \<notin> set (hb_clients h)" for k using outside_table [OF inv, of i k] True by auto
  have "hub_inv app0 (upd_hub_client i (\<lambda>c. c\<lparr>hc_phase := Ended, hc_connClosed := True\<rparr>)
      (h\<lparr>hb_pending := hb_pending h, hb_nextID := hb_nextID h, hb_register := None\<rparr>))"
    using l(2,3) out by (intro register_inv [OF inv _ i]) (auto simp: locked_phases_def)
  moreover have "client_ok h i" using inv i by (simp add: hub_inv_def)
  then have "hub_inv app0 (upd_hub_client i (\<lambda>c. c\<lparr>hc_phase := Checked\<rparr>) h)"
    using out True l(1) i by (intro upd_inv [OF inv i]) (auto simp: client_ok_def upd_hub_client_at)
  ultimately show ?thesis using True by (simp add: serve_check_def)
qed (use inv in \<open>simp add: serve_check_def\<close>)

lemma serve_insert_inv:
  assumes inv: "hub_inv app0 h" and i: "i < length (hb_store h)"
  shows "hub_inv app0 (serve_insert i h)"
proof (cases "hc_phase (client_at h i) = Checked")
  case True
  then have lp: "hc_phase (client_at h i) \<in> locked_phases" by (simp add: locked_phases_def)
  note l = lock_holder [OF inv i lp]
  let ?h = "upd_hub_client i (\<lambda>c. c\<lparr>hc_phase := Serving\<rparr>) (h\<lparr>hb_clients := AList.update (hc_id (client_at h i)) i (hb_clients h), hb_register := None\<rparr>)"
  have c: "client_ok h i" using inv i by (simp add: hub_inv_def)
  have "entry_ok app0 ?h (hc_id (client_at h i), i)"
    using c i True inv by (auto simp: entry_ok_def upd_hub_client_at observes_def client_ok_def hub_inv_def)
  moreover have "entry_ok app0 ?h x" if x: "x \<in> set (hb_clients h)" for x
  proof -
    have "snd x \<noteq> i" using outside_table [OF inv, of i "fst x"] x True by auto
    then show ?thesis using inv x by (auto simp: hub_inv_def entry_ok_def upd_hub_client_at)
  qed
  ultimately have "\<forall>x \<in> set (AList.update (hc_id (client_at h i)) i (hb_clients h)). entry_ok app0 ?h x"
    using set_update_subset [of "hc_id (client_at h i)" i "hb_clients h"] by blast
  moreover have "client_ok ?h j" if j: "j < length (hb_store h)" for j
    using l(2) [OF j] j by (cases "j = i") (auto simp: client_ok_def upd_hub_client_at locked_phases_def)
  ultimately have "hub_inv app0 ?h" using inv l(3) by (simp add: hub_inv_def distinct_update)
  then show ?thesis using True by (simp add: serve_insert_def)
qed (use inv in \<open>simp add: serve_insert_def\<close>)

lemma hub_serve_end_inv:
  assumes inv: "hub_inv app0 h" and i: "i < length (hb_store h)"
  shows "hub_inv app0 (serve_end i h)"
proof (cases "hc_phase (client_at h i) = Serving")
  case True
  define g where "g = removeClient i h"
  have c: "calm h g" by (simp add: g_def)
  have g: "hub_inv app0 g" "i < length (hb_store g)" "hc_removed (client_at g i)"
    using calm_inv [OF inv c] c i by (auto simp: calm_def g_def removeClient_removed)
  have "hub_inv app0 (upd_hub_client i (\<lambda>c. c\<lparr>hc_phase := Ended, hc_connClosed := True\<rparr>) g)"
    using g by (intro upd_inv [OF g(1,2)]) (auto simp: client_ok_def entry_ok_def upd_hub_client_at locked_phases_def hub_inv_def)
  then show ?thesis using True by (simp add: serve_end_def g_def)
qed (use inv in \<open>simp add: serve_end_def\<close>)

lemma prepared_inv:
  assumes inv: "hub_inv app0 h"
  shows "hub_inv app0 (BroadcastPrepared (Some m) prepare h)"
proof (cases "hb_register h = None")
  case True
  define g where "g = h\<lparr>hb_app := prepare (hb_app h), hb_log := hb_log h @ [(m, prepare)]\<rparr>"
  define js where "js = map snd (hb_clients h)"
  define h' where "h' = foldl (note_delta m) g js"
  have e: "\<forall>x \<in> set (hb_clients h). entry_ok app0 h x" "distinct (map fst (hb_clients h))" using inv by (simp_all add: hub_inv_def)
  have "map fst (hb_clients h) = map (\<lambda>j. hc_id (client_at h j)) js" using e(1) by (auto simp: js_def entry_ok_def)
  then have d: "distinct js" using e(2) by (metis distinct_map)
  have js: "\<forall>j \<in> set js. j < length (hb_store g)" using e(1) by (auto simp: js_def g_def entry_ok_def)
  note n = noted_fold [OF d js h'_def]
  have free: "\<forall>j < length (hb_store h). hc_phase (client_at h j) \<notin> locked_phases" using inv True by (auto simp: hub_inv_def client_ok_def)
  have "entry_ok app0 h' x" if x: "x \<in> set (hb_clients h')" for x
  proof -
    have x': "x \<in> set (hb_clients h)" "snd x \<in> set js" using x n by (auto simp: g_def js_def)
    then have o: "entry_ok app0 h x" using e(1) by blast
    then have j: "snd x < length (hb_store g)" by (simp add: entry_ok_def g_def)
    have "observes app0 (hb_log h') (client_at h' (snd x))" if "\<not> hc_removed (client_at h' (snd x))"
    proof -
      have "\<not> hc_removed (client_at h (snd x))" using that n j by (auto simp: g_def)
      then have "observes app0 (hb_log h) (client_at h (snd x))" using o by (simp add: entry_ok_def)
      then show ?thesis using that n j x'(2) by (auto simp: observes_def g_def)
    qed
    then show ?thesis using o n j by (auto simp: entry_ok_def g_def)
  qed
  moreover have "client_ok h' j" if "j < length (hb_store h')" for j
    using that n free by (auto simp: client_ok_def g_def locked_phases_def)
  moreover have "hb_app h' = replay app0 (hb_log h')" using n inv by (simp add: g_def hub_inv_def)
  moreover have "hb_clients h = [] \<Longrightarrow> hb_clients h' = []" using n by (auto simp: g_def)
  ultimately have "hub_inv app0 h'" using n inv by (simp add: hub_inv_def g_def)
  then show ?thesis using True by (simp add: BroadcastPrepared_def h'_def g_def js_def)
qed (use inv in \<open>simp add: BroadcastPrepared_def\<close>)

lemma hub_inv_ingress [simp]:
  "hub_inv app0 (h\<lparr>hb_ingress := x\<rparr>) = hub_inv app0 h" "hub_inv app0 (h\<lparr>hb_orderedIngress := ms\<rparr>) = hub_inv app0 h"
  "hub_inv app0 (h\<lparr>hb_running := ms\<rparr>) = hub_inv app0 h" "hub_inv app0 (h\<lparr>hb_started := ms\<rparr>) = hub_inv app0 h"
  "hub_inv app0 (h\<lparr>hb_receiptSequence := n\<rparr>) = hub_inv app0 h" "hub_inv app0 (h\<lparr>hb_ingressHighWater := n\<rparr>) = hub_inv app0 h"
  by (simp_all add: hub_inv_def entry_ok_def client_ok_def)

lemma submit_inv: "hub_inv app0 h \<Longrightarrow> hub_inv app0 (submitMessage E i m h)"
  unfolding submitMessage_def by (simp add: calm_inv [OF _ calm_trans [OF calm_counters(2) calm_send]])

lemma read_pump_inv:
  assumes "hub_inv app0 h" "i < length (hb_store h)"
  shows "hub_inv app0 (read_pump E secure i data h)"
  using assms by (auto simp: read_pump_def Let_def submit_inv hub_serve_end_inv split: option.splits)

lemma shutdown_inv:
  assumes inv: "hub_inv app0 h"
  shows "hub_inv app0 (hub_Shutdown h)"
proof (cases "hb_register h = None")
  case True
  define g where "g = h\<lparr>hb_closing := True, hb_stopping := hb_stopping h @ map snd (hb_clients h), hb_clients := [], hb_pending := []\<rparr>"
  have "hub_inv app0 g" using inv True by (auto simp: g_def hub_inv_def client_ok_def)
  moreover have "calm g (foldl close_pending g (hb_pending h))" by (rule calm_foldl) (simp add: close_pending_def)
  ultimately show ?thesis using True calm_inv by (auto simp: hub_Shutdown_def g_def)
qed (use inv in \<open>simp add: hub_Shutdown_def\<close>)

lemma ingress_hub_inv:
  assumes "hub_inv app0 h"
  shows "hub_inv app0 (ingress_take h)" "hub_inv app0 (ingress_start h)" "hub_inv app0 (ingress_admitted m h)" "hub_inv app0 (ingress_gone h)"
    "hub_inv app0 (handler_done m h)"
  using assms
  by (auto simp: ingress_take_def ingress_start_def ingress_admitted_def ingress_gone_def handler_done_def Let_def
      split: list.splits ingress_state.splits)

lemma hub_step_inv:
  assumes "hub_inv app0 h"
  shows "hub_inv app0 (fst (hub_step E h e))"
  using assms
  by (cases e) (auto simp: at_client_def serve_begin_inv serve_handshake_inv serve_register_inv serve_connect_inv serve_check_inv serve_insert_inv hub_serve_end_inv
      read_pump_inv prepared_inv shutdown_inv ingress_hub_inv intro: calm_inv)

lemma NewHub_inv: "hub_inv app (NewHub app)"
  by (simp add: NewHub_def hub_inv_def)

interpretation hub: invariant_machine "hub_step E" "\<lambda>_. True" "hub_inv app0"
  by unfold_locales (rule hub_step_inv)

section \<open>The order of messages\<close>

definition in_line :: "'a hub \<Rightarrow> inbound_message list" where
  "in_line h = hb_started h @ (case hb_ingress h of IngressSlot m \<Rightarrow> [m] | _ \<Rightarrow> []) @ hb_orderedIngress h"

definition ingress_inv :: "'a hub \<Rightarrow> bool" where
  "ingress_inv h \<longleftrightarrow> sorted_wrt (<) (map im_sequence (in_line h)) \<and> (\<forall>m \<in> set (in_line h). im_sequence m \<le> hb_receiptSequence h)
     \<and> length (hb_orderedIngress h) \<le> orderedIngressCapacity \<and> length (hb_running h) \<le> handlerCapacity \<and> set (hb_running h) \<subseteq> set (hb_started h)"

lemma ingress_inv_cong:
  assumes "ingress_inv h" "hb_receiptSequence h' = hb_receiptSequence h" "hb_orderedIngress h' = hb_orderedIngress h" "hb_ingress h' = hb_ingress h"
    "hb_running h' = hb_running h" "hb_started h' = hb_started h"
  shows "ingress_inv h'"
  using assms by (simp add: ingress_inv_def in_line_def)

lemma calm_ingress: "ingress_inv h \<Longrightarrow> calm h h' \<Longrightarrow> ingress_inv h'"
  by (erule ingress_inv_cong) (simp_all add: calm_def)

lemma read_pump_ingress:
  assumes inv: "ingress_inv h"
  shows "ingress_inv (read_pump E secure i data h)"
proof -
  have e: "ingress_inv (serve_end i h)"
    by (rule ingress_inv_cong [OF calm_ingress [OF inv calm_remove [of h i]]]) (auto simp: serve_end_def removeClient_def)
  have "ingress_inv (submitMessage E i \<lparr>im_client = i, im_sequence = hb_receiptSequence h + 1, im_message = msg\<rparr> (h\<lparr>hb_receiptSequence := hb_receiptSequence h + 1\<rparr>))" for msg
  proof (cases "length (hb_orderedIngress h) < orderedIngressCapacity")
    case True
    then show ?thesis using inv by (auto simp: submitMessage_def ingress_inv_def in_line_def sorted_wrt_append le_imp_less_Suc le_SucI split: ingress_state.splits)
  next
    case False
    have "ingress_inv (h\<lparr>hb_receiptSequence := hb_receiptSequence h + 1\<rparr>)" using inv by (auto simp: ingress_inv_def in_line_def le_SucI)
    then show ?thesis using False by (simp add: submitMessage_def calm_ingress [OF _ calm_trans [OF calm_counters(2) calm_send]])
  qed
  then show ?thesis using inv e by (auto simp: read_pump_def Let_def split: option.splits)
qed

lemma ingress_steps_inv:
  assumes inv: "ingress_inv h"
  shows "ingress_inv (ingress_take h)" "ingress_inv (ingress_start h)" "ingress_inv (ingress_admitted m h)" "ingress_inv (ingress_gone h)"
    "ingress_inv (handler_done m h)"
proof -
  show "ingress_inv (ingress_take h)"
    using inv by (auto simp: ingress_take_def ingress_inv_def in_line_def Let_def sorted_wrt_append split: list.splits)
  show "ingress_inv (ingress_start h)"
    using inv by (auto simp: ingress_start_def ingress_inv_def in_line_def split: ingress_state.splits)
  show a: "ingress_inv (ingress_admitted m h)"
    using inv by (auto simp: ingress_admitted_def ingress_inv_def in_line_def)
  show "ingress_inv (ingress_gone h)"
    using inv by (auto simp: ingress_gone_def ingress_inv_def in_line_def split: ingress_state.splits)
  have r: "hb_running (ingress_admitted m h) = hb_running h" "hb_started (ingress_admitted m h) = hb_started h" by (simp_all add: ingress_admitted_def)
  have "ingress_inv ((ingress_admitted m h)\<lparr>hb_running := remove1 m (hb_running h)\<rparr>)"
    using a inv set_remove1_subset [of m "hb_running h"] by (auto simp: ingress_inv_def in_line_def length_remove1 r)
  then show "ingress_inv (handler_done m h)" using inv by (simp add: handler_done_def)
qed

lemma note_fold_ingress:
  "hb_receiptSequence (foldl (note_delta m) g js) = hb_receiptSequence g \<and> hb_orderedIngress (foldl (note_delta m) g js) = hb_orderedIngress g
      \<and> hb_ingress (foldl (note_delta m) g js) = hb_ingress g \<and> hb_running (foldl (note_delta m) g js) = hb_running g
      \<and> hb_started (foldl (note_delta m) g js) = hb_started g"
proof (induction js arbitrary: g)
  case (Cons j js)
  have "hb_receiptSequence (note_delta m g j) = hb_receiptSequence g \<and> hb_orderedIngress (note_delta m g j) = hb_orderedIngress g
      \<and> hb_ingress (note_delta m g j) = hb_ingress g \<and> hb_running (note_delta m g j) = hb_running g \<and> hb_started (note_delta m g j) = hb_started g"
    using calm_push [of j m g] calm_trans [OF calm_push calm_evict, of j m g]
    by (cases "hub_push j m g"; cases "snd (hub_push j m g)") (auto simp: note_delta_def calm_def)
  then show ?case using Cons by simp
qed simp

lemma serve_ingress:
  assumes inv: "ingress_inv h"
  shows "ingress_inv (serve_begin name h)" "ingress_inv (serve_handshake i ok h)" "ingress_inv (serve_register i h)" "ingress_inv (serve_connect E i h)"
    "ingress_inv (serve_check i h)" "ingress_inv (serve_insert i h)" "ingress_inv (serve_end i h)" "ingress_inv (hub_Shutdown h)"
    "ingress_inv (BroadcastPrepared (Some m) prepare h)"
proof -
  have "calm h (foldl (\<lambda>g m. fst (Send i (Some m) g)) h xs)" for xs by (rule calm_foldl) simp
  then show "ingress_inv (serve_connect E i h)"
    using inv by (auto simp: serve_connect_def calm_def intro!: ingress_inv_cong [OF inv])
  show "ingress_inv (serve_end i h)"
    by (rule ingress_inv_cong [OF calm_ingress [OF inv calm_remove [of h i]]]) (auto simp: serve_end_def removeClient_def)
  have "calm g (foldl close_pending g xs)" for g :: "'a hub" and xs by (rule calm_foldl) (simp add: close_pending_def)
  then show "ingress_inv (hub_Shutdown h)" using inv by (auto simp: hub_Shutdown_def calm_def intro!: ingress_inv_cong [OF inv])
  show "ingress_inv (BroadcastPrepared (Some m) prepare h)"
    using inv by (auto simp: BroadcastPrepared_def note_fold_ingress intro!: ingress_inv_cong [OF inv])
qed (auto simp: serve_begin_def serve_handshake_def serve_register_def serve_check_def serve_insert_def Let_def intro: ingress_inv_cong [OF inv])

lemma hub_step_ingress:
  assumes "ingress_inv h"
  shows "ingress_inv (fst (hub_step E h e))"
  using assms by (cases e) (auto simp: at_client_def serve_ingress read_pump_ingress ingress_steps_inv intro: calm_ingress)

interpretation hub_ingress: invariant_machine "hub_step E" "\<lambda>_. True" ingress_inv
  by unfold_locales (rule hub_step_ingress)

section \<open>Properties\<close>

definition hub_reach :: "'a hub_env \<Rightarrow> 'a \<Rightarrow> 'a hub_event list \<Rightarrow> 'a hub" where
  "hub_reach E app0 es = fst (run_machine (hub_step E) (NewHub app0) es)"

lemma hub_reach_inv: "hub_inv app0 (hub_reach E app0 es)"
  unfolding hub_reach_def by (rule hub.run_inv) (simp_all add: NewHub_inv list_all_iff)


lemma calm_closing: "calm h h' \<Longrightarrow> hb_closing h' = hb_closing h"
  by (simp add: calm_def)

lemma closing_basic [simp]:
  "hb_closing (removeClient i h) = hb_closing h" "hb_closing (fst (Send i m h)) = hb_closing h" "hb_closing (Broadcast mo h) = hb_closing h"
  "hb_closing (write_pump i ok h) = hb_closing h" "hb_closing (shutdown_client i h) = hb_closing h" "hb_closing (evict_slow i h) = hb_closing h"
  "hb_closing (foldl close_pending h js) = hb_closing h" "hb_closing (foldl (\<lambda>g m. fst (Send i (Some m) g)) h ms) = hb_closing h"
  by (rule calm_closing, (simp | rule calm_foldl, simp add: close_pending_def))+

lemma closing_note [simp]: "hb_closing (foldl (note_delta m) h js) = hb_closing h"
proof -
  have "hb_closing (note_delta m g j) = hb_closing g" for g :: "'a hub" and j
    using calm_closing [OF calm_push, of j m g] by (cases "hub_push j m g"; cases "snd (hub_push j m g)") (auto simp: note_delta_def)
  then show ?thesis by (induction js arbitrary: h) auto
qed

lemma closing_read [simp]: "hb_closing (read_pump E secure i d h) = hb_closing h"
  by (simp add: read_pump_def submitMessage_def serve_end_def Let_def split: option.split)

lemma closing_stays: "hb_closing h \<Longrightarrow> hb_closing (fst (hub_step E h e))"
  by (cases e) (auto simp: at_client_def serve_begin_def serve_handshake_def serve_register_def serve_connect_def serve_check_def serve_insert_def
      serve_end_def hub_Shutdown_def BroadcastPrepared_def Let_def ingress_take_def ingress_start_def ingress_admitted_def ingress_gone_def handler_done_def
      split: list.splits ingress_state.splits)

lemma closing_run: "hb_closing h \<Longrightarrow> hb_closing (fst (run_machine (hub_step E) h es))"
  by (induction es arbitrary: h) (simp_all add: closing_stays)

text \<open>C16. Shutdown is final. Once \<open>Shutdown\<close> got the registration lock, the table is empty, no connection is pending and none is on its
  way into the table, whatever happens afterwards: a broadcast finds no one, and connections that finish their handshake
  later are closed.\<close>

theorem hub_shutdown_final:
  assumes "hb_register (hub_reach E app0 es) = None" "h = hub_reach E app0 (es @ HShutdown # es')"
  shows "hb_closing h \<and> hb_clients h = [] \<and> hb_pending h = [] \<and> (\<forall>i < length (hb_store h). hc_phase (client_at h i) \<notin> locked_phases)"
proof -
  have "hb_closing (hub_Shutdown (hub_reach E app0 es))" using assms(1) by (simp add: hub_Shutdown_def)
  then have c: "hb_closing h" using assms(2) closing_run [of "hub_Shutdown (hub_reach E app0 es)" E es']
    by (simp add: hub_reach_def run_machine_append case_prod_beta Let_def)
  have inv: "hub_inv app0 h" using assms(2) by (simp add: hub_reach_inv)
  then have "hb_clients h = []" "hb_pending h = []" "hb_register h = None" using c by (simp_all add: hub_inv_def)
  moreover have "\<forall>i < length (hb_store h). hc_phase (client_at h i) \<notin> locked_phases"
    using inv calculation(3) by (auto simp: hub_inv_def client_ok_def)
  ultimately show ?thesis using c by simp
qed

text \<open>Messages reach the handlers in the order of receipt. Over every interleaving: the sequence numbers given to messages grow
  strictly from those handed to a handler, over the one waiting for a slot, to those still queued, across all clients; at
  most 128 wait and at most 32 handlers run.\<close>

theorem hub_ingress_order:
  "sorted_wrt (<) (map im_sequence (in_line (hub_reach E app0 es)))
   \<and> length (hb_orderedIngress (hub_reach E app0 es)) \<le> orderedIngressCapacity
   \<and> length (hb_running (hub_reach E app0 es)) \<le> handlerCapacity \<and> set (hb_running (hub_reach E app0 es)) \<subseteq> set (hb_started (hub_reach E app0 es))"
proof -
  have "ingress_inv (NewHub app0)" by (simp add: NewHub_def ingress_inv_def in_line_def)
  then have "ingress_inv (hub_reach E app0 es)" unfolding hub_reach_def by (rule hub_ingress.run_inv) (simp add: list_all_iff)
  then show ?thesis by (simp add: ingress_inv_def)
qed

text \<open>A dead client stays in the table: when its writer fails after \<open>Serve\<close> looked at the context and before it entered the client,
  \<open>removeClient\<close> has already run by the time the client is entered and never runs again, so that the end of the connection does not
  take it out.\<close>

lemma dead_client_stays:
  assumes "i < length (hb_store h)" "hc_phase (client_at h i) = Checked" "hc_writing (client_at h i)" "\<not> hc_removed (client_at h i)"
    and "sb_items (hc_buf (client_at h i)) \<noteq> []"
    and "h' = fst (run_machine (hub_step E) h [HWrite i False, HInsert i, HEnd i])"
  shows "(hc_id (client_at h i), i) \<in> set (hb_clients h') \<and> hc_phase (client_at h' i) = Ended \<and> hc_removed (client_at h' i) \<and> removeClient i h' = h'"
proof -
  define h1 where "h1 = write_pump i False h"
  obtain x xs where x: "sb_items (hc_buf (client_at h i)) = x # xs" using assms(5) by (cases "sb_items (hc_buf (client_at h i))") auto
  have h1: "length (hb_store h1) = length (hb_store h)" "hc_phase (client_at h1 i) = Checked" "hc_removed (client_at h1 i)" "hc_id (client_at h1 i) = hc_id (client_at h i)"
    using assms(1-4) x by (simp_all add: h1_def write_pump_def Pop_def Let_def removeClient_def upd_hub_client_at)
  define h2 where "h2 = serve_insert i h1"
  have h2: "length (hb_store h2) = length (hb_store h)" "hc_phase (client_at h2 i) = Serving" "hc_removed (client_at h2 i)"
      "hb_clients h2 = AList.update (hc_id (client_at h i)) i (hb_clients h1)"
    using h1 assms(1) by (simp_all add: h2_def serve_insert_def upd_hub_client_at)
  have "(hc_id (client_at h i), i) \<in> set (hb_clients h2)"
    unfolding h2(4) by (rule map_of_SomeD) (simp add: update_conv)
  moreover have "h' = upd_hub_client i (\<lambda>c. c\<lparr>hc_phase := Ended, hc_connClosed := True\<rparr>) h2"
    using assms(1,6) h1(1) h2 by (simp add: h1_def [symmetric] h2_def [symmetric] at_client_def serve_end_def removeClient_def)
  ultimately show ?thesis using h2 assms(1) by (simp add: upd_hub_client_at removeClient_def)
qed

section \<open>A concrete hub\<close>

definition sample_hub_env :: "nat hub_env" where
  "sample_hub_env = \<lparr>he_snapshot = (\<lambda>_. []), he_messageType = (\<lambda>_. []), he_busy = (\<lambda>_ _. []), he_utf8 = (\<lambda>_. True), he_parse = (\<lambda>_. None)\<rparr>"

definition sample_update :: "nat hub_event" where
  "sample_update = HPrepared \<lparr>hm_data = [1], hm_kind = ''agents'', hm_replaceable = True\<rparr> Suc"

definition sample_connect :: "nat hub_event list" where
  "sample_connect = [sample_update, HBegin ''websocket'', HHandshake 0 True, HRegister 0, HConnect 0, HCheck 0, HInsert 0, sample_update]"

definition sample_hub :: "nat hub" where
  "sample_hub = hub_reach sample_hub_env 0 sample_connect"

lemma sample_hub_state:
  "hb_clients sample_hub = [(1, 0)]" "hc_removed (client_at sample_hub 0) = False" "hc_from (client_at sample_hub 0) = 1"
  "length (hb_log sample_hub) = 2" "hb_register sample_hub = None"
  by (code_simp)+


theorem hub_shutdown_final_witness:
  "hb_clients (hub_reach sample_hub_env 0 (sample_connect @ HShutdown # [HBegin ''websocket''])) = []"
  using hub_shutdown_final [of sample_hub_env 0 sample_connect _ "[HBegin ''websocket'']"] sample_hub_state(5) by (simp add: sample_hub_def)

end
