(* ===== verification/Journal.thy ===== *)
theory Journal
  imports Go_Text "HOL-Library.List_Lexorder" "HOL-Library.Char_ord"
begin

text \<open>
  The activity journal, \<^verbatim>\<open>internal/activity/journal.go\<close>: a list of entries kept in memory and in a file of JSON
  lines, limited to 500 entries and 2 MiB, with a second file of tombstones written before entries are removed.

  \<^item> The disk is the contents of both files; \<open>None\<close> is a file that does not exist. Every change of the disk is
    also appended to \<open>jn_trace\<close>, so that a crash at any moment of an operation is a disk of its trace. A file replaced by
    rename changes in one step; an append passes through every prefix of what it writes.
  \<^item> \<open>io_result\<close> is the outcome of replacing or removing a file: done, failed before the file changed, or failed
    after it changed (the directory could not be synced). \<open>append_result\<close> adds a write that stopped early.
  \<^item> JSON is the parameter \<open>journal_env\<close>, the \<open>Details\<close> of an entry are of an arbitrary type. A set of tombstones is a
    list without repetitions.
\<close>

section \<open>Constants, entries, disk\<close>

definition maxItems :: nat where "maxItems = 500"
definition maxBytes :: nat where "maxBytes = 2 * 1024 * 1024"
definition maxExtractChars :: nat where "maxExtractChars = 100000"

record 'd entry =
  en_ID :: string
  en_Timestamp :: int
  en_Kind :: string
  en_Status :: string
  en_Summary :: string
  en_Host :: string
  en_PaneID :: string
  en_Agent :: string
  en_Project :: string
  en_RequestID :: string
  en_Extract :: string
  en_Session :: string
  en_Details :: "'d option"

record 'd journal_env =
  je_marshal :: "'d entry \<Rightarrow> string option"
  je_unmarshal :: "string \<Rightarrow> 'd entry option"

record journal_disk =
  jd_journal :: "string option"
  jd_tombstones :: "string option"

record 'd Journal =
  jn_entries :: "'d entry list"
  jn_bytes :: int
  jn_disk :: journal_disk
  jn_trace :: "journal_disk list"

datatype journal_error =
    Err_directory | Err_read | Err_tombstones_read | Err_tombstones_oversized | Err_tombstones_scan | Err_oversized
  | Err_scan | Err_marshal | Err_entry_too_large | Err_append | Err_replace | Err_restore journal_error

datatype io_result = Io_ok | Io_fail | Io_late

datatype append_result = Append_ok | Append_fail | Append_short nat

text \<open>The outcomes of the I/O of one operation: creating and opening, reading the tombstones, appending, replacing the
  journal, writing the tombstones before and after.\<close>

record journal_io =
  io_open :: bool
  io_tombs :: bool
  io_append :: append_result
  io_compact :: io_result
  io_prepare :: io_result
  io_restore :: io_result

definition io_good :: journal_io where
  "io_good = \<lparr>io_open = True, io_tombs = True, io_append = Append_ok, io_compact = Io_ok, io_prepare = Io_ok, io_restore = Io_ok\<rparr>"

definition set_disk :: "journal_disk \<Rightarrow> 'd Journal \<Rightarrow> 'd Journal" where
  "set_disk d j = j\<lparr>jn_disk := d, jn_trace := jn_trace j @ [d]\<rparr>"

section \<open>Lines of a file\<close>

definition scan_tokens :: "nat \<Rightarrow> string \<Rightarrow> string list option" where
  "scan_tokens limit s =
     (if list_all (\<lambda>l. length l < limit) (raw_lines s) then Some (map drop_cr (raw_lines s)) else None)"

section \<open>Entries\<close>

text \<open>A conversion to runes and back replaces each invalid byte by \<open>U+FFFD\<close> and keeps valid runes.\<close>

definition segment_text :: "string \<Rightarrow> string" where
  "segment_text seg = (if decode_rune seg = (rune_error, 1) then [CHR 0xEF, CHR 0xBF, CHR 0xBD] else seg)"

definition NormalizeEntry :: "'d entry \<Rightarrow> 'd entry" where
  "NormalizeEntry e =
     (let runes = rune_segments (en_Extract e)
      in if length runes > maxExtractChars
         then e\<lparr>en_Extract := concat (map segment_text (take maxExtractChars runes))\<rparr>
         else e)"

definition encodeEntry :: "'d journal_env \<Rightarrow> 'd entry \<Rightarrow> journal_error + string" where
  "encodeEntry E e = (case je_marshal E e of None \<Rightarrow> Inl Err_marshal | Some data \<Rightarrow> Inr (data @ [newline]))"

fun encode_all :: "'d journal_env \<Rightarrow> 'd entry list \<Rightarrow> journal_error + string list" where
  "encode_all E [] = Inr []"
| "encode_all E (e # es) =
     (case encodeEntry E e of
        Inl err \<Rightarrow> Inl err
      | Inr data \<Rightarrow> (case encode_all E es of Inl err \<Rightarrow> Inl err | Inr datas \<Rightarrow> Inr (data # datas)))"

text \<open>The loop that drops the oldest entries: how many, and the bytes left.\<close>

fun drop_oldest :: "nat list \<Rightarrow> int \<Rightarrow> nat \<times> int" where
  "drop_oldest (x # y # sizes) tot =
     (if tot > int maxBytes
      then (let (first, rest) = drop_oldest (y # sizes) (tot - int x) in (Suc first, rest))
      else (0, tot))"
| "drop_oldest sizes tot = (0, tot)"

definition retainWithinLimits :: "'d journal_env \<Rightarrow> 'd entry list \<Rightarrow> journal_error + 'd entry list \<times> int" where
  "retainWithinLimits E entries0 =
     (let entries = (if length entries0 > maxItems then drop (length entries0 - maxItems) entries0 else entries0)
      in case encode_all E entries of
           Inl err \<Rightarrow> Inl err
         | Inr datas \<Rightarrow>
             (let (first, tot) = drop_oldest (map length datas) (int (sum_list (map length datas)))
              in if tot > int maxBytes then Inl Err_entry_too_large else Inr (drop first entries, tot)))"

section \<open>The two files\<close>

definition compactEntriesLocked ::
    "'d journal_env \<Rightarrow> io_result \<Rightarrow> 'd entry list \<Rightarrow> 'd Journal \<Rightarrow> 'd Journal \<times> journal_error option" where
  "compactEntriesLocked E io entries j =
     (case encode_all E entries of
        Inl err \<Rightarrow> (j, Some err)
      | Inr datas \<Rightarrow>
          (let j' = set_disk ((jn_disk j)\<lparr>jd_journal := Some (concat datas)\<rparr>) j
           in case io of
                Io_fail \<Rightarrow> (j, Some Err_replace)
              | Io_late \<Rightarrow> (j', Some Err_replace)
              | Io_ok \<Rightarrow> (j'\<lparr>jn_entries := entries, jn_bytes := int (sum_list (map length datas))\<rparr>, None)))"

definition compactLocked :: "'d journal_env \<Rightarrow> io_result \<Rightarrow> 'd Journal \<Rightarrow> 'd Journal \<times> journal_error option" where
  "compactLocked E io j = compactEntriesLocked E io (jn_entries j) j"

definition loadTombstones :: "bool \<Rightarrow> journal_disk \<Rightarrow> journal_error + string list" where
  "loadTombstones readable d =
     (case jd_tombstones d of
        None \<Rightarrow> if readable then Inr [] else Inl Err_tombstones_read
      | Some content \<Rightarrow>
          if \<not> readable then Inl Err_tombstones_read
          else if length content > maxBytes then Inl Err_tombstones_oversized
          else case scan_tokens maxBytes content of
                 None \<Rightarrow> Inl Err_tombstones_scan
               | Some tokens \<Rightarrow> Inr (foldl (\<lambda>ts t. if trim_space t = [] then ts else List.insert (trim_space t) ts) [] tokens))"

definition tombstone_file :: "string list \<Rightarrow> string option" where
  "tombstone_file ts = (if ts = [] then None else Some (concat (map (\<lambda>i. i @ [newline]) (sort (filter (\<lambda>i. trim_space i \<noteq> []) ts)))))"

definition writeTombstonesLocked :: "io_result \<Rightarrow> string list \<Rightarrow> 'd Journal \<Rightarrow> 'd Journal \<times> journal_error option" where
  "writeTombstonesLocked io ts j =
     (let j' = set_disk ((jn_disk j)\<lparr>jd_tombstones := tombstone_file ts\<rparr>) j
      in case io of
           Io_fail \<Rightarrow> (j, Some Err_replace)
         | Io_late \<Rightarrow> (j', Some Err_replace)
         | Io_ok \<Rightarrow> (j', None))"

section \<open>Opening\<close>

text \<open>The entries of the lines, and whether one of them was shortened.\<close>

fun load_lines :: "'d journal_env \<Rightarrow> string list \<Rightarrow> string list \<Rightarrow> 'd entry list \<times> bool" where
  "load_lines E ts [] = ([], False)"
| "load_lines E ts (line # lines) =
     (let (entries, changed) = load_lines E ts lines
      in if line = [] then (entries, changed)
         else case je_unmarshal E line of
                None \<Rightarrow> (entries, changed)
              | Some e \<Rightarrow>
                  if en_ID e \<in> set ts then (entries, changed)
                  else (NormalizeEntry e # entries, changed \<or> en_Extract (NormalizeEntry e) \<noteq> en_Extract e))"

definition load :: "'d journal_env \<Rightarrow> journal_io \<Rightarrow> 'd Journal \<Rightarrow> journal_error + 'd Journal" where
  "load E io j =
     (case loadTombstones (io_tombs io) (jn_disk j) of
        Inl err \<Rightarrow> Inl err
      | Inr tombstones \<Rightarrow>
          if \<not> io_open io then Inl Err_read
          else case jd_journal (jn_disk j) of
            None \<Rightarrow>
              if tombstones = [] then Inr j
              else (case writeTombstonesLocked (io_restore io) [] j of (j', None) \<Rightarrow> Inr j' | (_, Some err) \<Rightarrow> Inl err)
          | Some content \<Rightarrow>
              if length content > maxBytes * 4 then Inl Err_oversized
              else case scan_tokens maxBytes content of
                None \<Rightarrow> Inl Err_scan
              | Some lines \<Rightarrow>
                  (let (entries, changed) = load_lines E tombstones lines
                   in case retainWithinLimits E entries of
                        Inl err \<Rightarrow> Inl err
                      | Inr (retained, retainedBytes) \<Rightarrow>
                          (let needsCompact = tombstones \<noteq> [] \<or> length content > maxBytes \<or> changed
                                 \<or> length retained \<noteq> length entries \<or> retainedBytes \<noteq> int (length content);
                               j1 = j\<lparr>jn_entries := retained, jn_bytes := retainedBytes\<rparr>
                           in case (if needsCompact then compactLocked E (io_compact io) j1 else (j1, None)) of
                                (_, Some err) \<Rightarrow> Inl err
                              | (j2, None) \<Rightarrow>
                                  if tombstones = [] then Inr j2
                                  else (case writeTombstonesLocked (io_restore io) [] j2 of
                                          (j3, None) \<Rightarrow> Inr j3
                                        | (_, Some err) \<Rightarrow> Inl err))))"

definition OpenJournal :: "'d journal_env \<Rightarrow> bool \<Rightarrow> journal_io \<Rightarrow> journal_disk \<Rightarrow> journal_error + 'd Journal" where
  "OpenJournal E directory io d =
     (if \<not> directory then Inl Err_directory
      else load E io \<lparr>jn_entries = [], jn_bytes = 0, jn_disk = d, jn_trace = []\<rparr>)"

section \<open>Changing\<close>

text \<open>The file while \<open>data\<close> is appended: every prefix may be on the disk.\<close>

definition appended :: "journal_disk \<Rightarrow> string \<Rightarrow> journal_disk" where
  "appended d t = d\<lparr>jd_journal := Some ((case jd_journal d of None \<Rightarrow> [] | Some c \<Rightarrow> c) @ t)\<rparr>"

definition append_file :: "nat \<Rightarrow> string \<Rightarrow> 'd Journal \<Rightarrow> 'd Journal" where
  "append_file n data j = foldl (\<lambda>k i. set_disk (appended (jn_disk j) (take i data)) k) j [0..<Suc n]"

definition Append :: "'d journal_env \<Rightarrow> journal_io \<Rightarrow> 'd entry \<Rightarrow> 'd Journal \<Rightarrow> 'd Journal \<times> journal_error option" where
  "Append E io entry0 j =
     (let entry = NormalizeEntry entry0
      in case encodeEntry E entry of
           Inl err \<Rightarrow> (j, Some err)
         | Inr data \<Rightarrow>
             if length data > maxBytes then (j, Some Err_entry_too_large)
             else (let candidate = jn_entries j @ [entry]
                   in case retainWithinLimits E candidate of
                        Inl err \<Rightarrow> (j, Some err)
                      | Inr (retained, retainedBytes) \<Rightarrow>
                          if length retained \<noteq> length candidate \<or> retainedBytes > int maxBytes \<or> length candidate > maxItems
                          then compactEntriesLocked E (io_compact io) retained j
                          else (case io_append io of
                                  Append_fail \<Rightarrow> (j, Some Err_append)
                                | Append_short n \<Rightarrow> (append_file (min n (length data)) data j, Some Err_append)
                                | Append_ok \<Rightarrow>
                                    ((append_file (length data) data j)\<lparr>jn_entries := jn_entries j @ [entry],
                                       jn_bytes := jn_bytes j + int (length data)\<rparr>, None))))"

text \<open>\<open>Clear\<close> and \<open>Discard\<close> share their three writes: tombstones, journal, tombstones.\<close>

definition remove_entries ::
    "'d journal_env \<Rightarrow> journal_io \<Rightarrow> string list \<Rightarrow> string list \<Rightarrow> 'd entry list \<Rightarrow> 'd Journal \<Rightarrow> 'd Journal \<times> journal_error option" where
  "remove_entries E io previous tombstones retained j =
     (case writeTombstonesLocked (io_prepare io) tombstones j of
        (j1, Some err) \<Rightarrow> (j1, Some err)
      | (j1, None) \<Rightarrow>
          (case compactEntriesLocked E (io_compact io) retained j1 of
             (j2, Some err) \<Rightarrow>
               (case writeTombstonesLocked (io_restore io) previous j2 of
                  (j3, Some _) \<Rightarrow> (j3, Some (Err_restore err))
                | (j3, None) \<Rightarrow> (j3, Some err))
           | (j2, None) \<Rightarrow> (fst (writeTombstonesLocked (io_restore io) previous j2), None)))"

definition Clear :: "'d journal_env \<Rightarrow> journal_io \<Rightarrow> 'd Journal \<Rightarrow> 'd Journal \<times> journal_error option" where
  "Clear E io j =
     (case loadTombstones (io_tombs io) (jn_disk j) of
        Inl err \<Rightarrow> (j, Some err)
      | Inr previous \<Rightarrow>
          remove_entries E io previous
            (foldl (\<lambda>ts e. if en_ID e \<noteq> [] then List.insert (en_ID e) ts else ts) previous (jn_entries j)) [] j)"

definition Discard :: "'d journal_env \<Rightarrow> journal_io \<Rightarrow> string \<Rightarrow> 'd Journal \<Rightarrow> 'd Journal \<times> journal_error option" where
  "Discard E io i j =
     (if i = [] then (j, None)
      else let retained = filter (\<lambda>e. en_ID e \<noteq> i) (jn_entries j)
           in if \<not> list_ex (\<lambda>e. en_ID e = i) (jn_entries j) then (j, None)
              else case loadTombstones (io_tombs io) (jn_disk j) of
                     Inl err \<Rightarrow> (j, Some err)
                   | Inr previous \<Rightarrow> remove_entries E io previous (List.insert i previous) retained j)"

definition Recent :: "int \<Rightarrow> 'd Journal \<Rightarrow> 'd entry list" where
  "Recent limit j =
     (let limit = (if limit \<le> 0 \<or> limit > int (length (jn_entries j)) then int (length (jn_entries j)) else limit)
      in drop (length (jn_entries j) - nat limit) (jn_entries j))"

section \<open>The journal as a machine with crashes\<close>

text \<open>A crash during an operation leaves one of the disks the operation passes through; the relay then starts again and opens
  the journal.\<close>

datatype 'd journal_op = J_Append "'d entry" | J_Discard string | J_Clear

fun run_op :: "'d journal_env \<Rightarrow> journal_io \<Rightarrow> 'd journal_op \<Rightarrow> 'd Journal \<Rightarrow> 'd Journal \<times> journal_error option" where
  "run_op E io (J_Append e) j = Append E io e j"
| "run_op E io (J_Discard i) j = Discard E io i j"
| "run_op E io J_Clear j = Clear E io j"

definition crash_points :: "'d journal_env \<Rightarrow> journal_io \<Rightarrow> 'd journal_op \<Rightarrow> 'd Journal \<Rightarrow> journal_disk list" where
  "crash_points E io p j = jn_disk j # jn_trace (fst (run_op E io p (j\<lparr>jn_trace := []\<rparr>)))"

datatype 'd journal_event = J_Op journal_io "'d journal_op" | J_Crash journal_io "'d journal_op" nat

fun journal_step :: "'d journal_env \<Rightarrow> 'd Journal \<Rightarrow> 'd journal_event \<Rightarrow> 'd Journal \<times> journal_error option" where
  "journal_step E j (J_Op io p) = run_op E io p j"
| "journal_step E j (J_Crash io p k) =
     (case OpenJournal E True io_good (let ds = crash_points E io p j in ds ! (min k (length ds - 1))) of
        Inl err \<Rightarrow> (j, Some err)
      | Inr j' \<Rightarrow> (j', None))"

end
