(* ===== verification/Journal_Props.thy ===== *)
theory Journal_Props
  imports Journal "HOL-Library.Multiset"
begin

text \<open>
  Correctness of the activity journal. In memory the limits hold whatever the disk does. On disk, as long as a
  failed write leaves the file as it was, the files always reopen to the entries in memory, and a crash in the middle of an
  operation reopens to the entries before or after it.
\<close>

section \<open>Lines\<close>

lemma raw_lines_concat:
  "\<forall>l \<in> set ls. newline \<notin> set l \<Longrightarrow> newline \<notin> set t \<Longrightarrow>
   raw_lines (concat (map (\<lambda>l. l @ [newline]) ls) @ t) = ls @ (if t = [] then [] else [t])"
proof (induction ls)
  case Nil
  then show ?case by (simp add: raw_lines_def split_lines_id)
next
  case (Cons l ls)
  let ?s = "concat (map (\<lambda>l. l @ [newline]) ls) @ t"
  have "split_lines (concat (map (\<lambda>l. l @ [newline]) (l # ls)) @ t) = l # split_lines ?s"
    using Cons.prems by (simp add: split_lines_line_rest)
  then show ?case using Cons by (simp add: raw_lines_def Let_def split: if_splits)
qed

lemma drop_cr_id [simp]: "CHR 0x0D \<notin> set l \<Longrightarrow> drop_cr l = l"
  unfolding drop_cr_def by (metis last_in_set)

lemma scan_tokens_concat:
  assumes "\<forall>l \<in> set ls. newline \<notin> set l \<and> CHR 0x0D \<notin> set l \<and> length l < n"
    and "newline \<notin> set t" "CHR 0x0D \<notin> set t" "length t < n"
  shows "scan_tokens n (concat (map (\<lambda>l. l @ [newline]) ls) @ t) = Some (ls @ (if t = [] then [] else [t]))"
proof -
  have "raw_lines (concat (map (\<lambda>l. l @ [newline]) ls) @ t) = ls @ (if t = [] then [] else [t])"
    using assms by (intro raw_lines_concat) auto
  moreover have "map drop_cr ls = ls" using assms(1) by (simp add: map_idI)
  ultimately show ?thesis using assms by (simp add: scan_tokens_def list_all_iff)
qed

section \<open>Runes\<close>

text \<open>A decoded rune is decoded again in front of any text, so shortening an extract is idempotent.\<close>

lemma decode_rune_take:
  "s \<noteq> [] \<Longrightarrow> decode_rune s \<noteq> (rune_error, 1) \<Longrightarrow> decode_rune (take (snd (decode_rune s)) s @ t) = decode_rune s"
proof (cases s)
  case (Cons c0 s1)
  let ?b = "byte_val c0"
  assume ok: "decode_rune s \<noteq> (rune_error, 1)"
  consider "?b < 0x80" | "\<not> ?b < 0x80" "?b < 0xC2 \<or> ?b > 0xF4" | "\<not> ?b < 0x80" "\<not> (?b < 0xC2 \<or> ?b > 0xF4)" "?b < 0xE0"
    | "\<not> ?b < 0x80" "\<not> (?b < 0xC2 \<or> ?b > 0xF4)" "\<not> ?b < 0xE0" "?b < 0xF0"
    | "\<not> ?b < 0x80" "\<not> (?b < 0xC2 \<or> ?b > 0xF4)" "\<not> ?b < 0xE0" "\<not> ?b < 0xF0"
    by blast
  then show ?thesis
  proof cases
    case 3
    then obtain c1 s2 where "s1 = c1 # s2" "is_cont 0x80 0xBF c1"
      using ok unfolding Cons decode_rune.simps Let_def by (cases s1) (auto split: if_split_asm)
    then show ?thesis using 3 by (simp add: Cons Let_def)
  next
    case 4
    then obtain c1 c2 s3 where "s1 = c1 # c2 # s3" "is_cont 0x80 0xBF c2"
        "is_cont (if ?b = 0xE0 then 0xA0 else 0x80) (if ?b = 0xED then 0x9F else 0xBF) c1"
      using ok unfolding Cons decode_rune.simps Let_def by (cases s1; cases "tl s1") (auto split: if_split_asm)
    then show ?thesis using 4 by (simp add: Cons Let_def)
  next
    case 5
    then obtain c1 c2 c3 s4 where "s1 = c1 # c2 # c3 # s4" "is_cont 0x80 0xBF c2" "is_cont 0x80 0xBF c3"
        "is_cont (if ?b = 0xF0 then 0x90 else 0x80) (if ?b = 0xF4 then 0x8F else 0xBF) c1"
      using ok unfolding Cons decode_rune.simps Let_def by (cases s1; cases "tl s1"; cases "tl (tl s1)") (auto split: if_split_asm)
    then show ?thesis using 5 by (simp add: Cons Let_def)
  qed (use ok Cons in \<open>simp_all add: Let_def\<close>)
qed simp

lemma decode_replacement: "decode_rune (CHR 0xEF # CHR 0xBF # CHR 0xBD # t) = (rune_error, 3)"
  by (simp add: Let_def byte_val_def is_cont_def rune_error_def)

definition whole_rune :: "string \<Rightarrow> bool" where
  "whole_rune x \<longleftrightarrow> x \<noteq> [] \<and> (\<forall>t. snd (decode_rune (x @ t)) = length x)"

lemma whole_rune_segment: "s \<noteq> [] \<Longrightarrow> whole_rune (segment_text (take (snd (decode_rune s)) s))"
proof (cases "decode_rune s = (rune_error, 1)")
  case True
  assume "s \<noteq> []"
  with True have "decode_rune (take 1 s) = (rune_error, 1)"
    by (cases s) (auto simp: Let_def split: list.splits if_splits)
  with True have "segment_text (take (snd (decode_rune s)) s) = [CHR 0xEF, CHR 0xBF, CHR 0xBD]" by (simp add: segment_text_def)
  moreover have "whole_rune [CHR 0xEF, CHR 0xBF, CHR 0xBD]"
    unfolding whole_rune_def append_Cons append_Nil decode_replacement by simp
  ultimately show ?thesis by simp
next
  case False
  assume s: "s \<noteq> []"
  let ?x = "take (snd (decode_rune s)) s"
  have d: "decode_rune (?x @ t) = decode_rune s" for t using s False by (rule decode_rune_take)
  have "segment_text ?x = ?x" using d [of "[]"] False by (simp add: segment_text_def)
  then show ?thesis using decode_rune_width [OF s] d by (auto simp: whole_rune_def)
qed

lemma segments_whole: "x \<in> set (rune_segments s) \<Longrightarrow> whole_rune (segment_text x)"
proof (induction s rule: rune_segments.induct)
  case (1 s)
  show ?case
  proof (cases "s = []")
    case True
    then show ?thesis using 1 by (simp add: rune_segments.simps)
  next
    case False
    then have "x = take (snd (decode_rune s)) s \<or> x \<in> set (rune_segments (drop (snd (decode_rune s)) s))"
      using 1(2) by (simp add: rune_segments.simps [of s])
    then show ?thesis using 1(1) False whole_rune_segment [of s] by blast
  qed
qed

lemma rune_segments_concat: "\<forall>x \<in> set xs. whole_rune x \<Longrightarrow> rune_segments (concat xs) = xs"
proof (induction xs)
  case Nil
  then show ?case by (simp add: rune_segments.simps)
next
  case (Cons x xs)
  then have "snd (decode_rune (x @ concat xs)) = length x" "x \<noteq> []" by (auto simp: whole_rune_def)
  then show ?case using Cons by (simp add: rune_segments.simps [of "x @ concat xs"])
qed

lemma NormalizeEntry_idem [simp]: "NormalizeEntry (NormalizeEntry e) = NormalizeEntry e"
proof (cases "length (rune_segments (en_Extract e)) > maxExtractChars")
  case True
  let ?xs = "map segment_text (take maxExtractChars (rune_segments (en_Extract e)))"
  have "rune_segments (concat ?xs) = ?xs"
    by (rule rune_segments_concat) (auto dest: in_set_takeD intro: segments_whole)
  then show ?thesis using True by (simp add: NormalizeEntry_def)
qed (simp add: NormalizeEntry_def)

section \<open>Limits\<close>

definition line :: "'d journal_env \<Rightarrow> 'd entry \<Rightarrow> string" where
  "line E e = (case je_marshal E e of None \<Rightarrow> [] | Some s \<Rightarrow> s @ [newline])"

definition total_bytes :: "'d journal_env \<Rightarrow> 'd entry list \<Rightarrow> nat" where
  "total_bytes E es = sum_list (map (\<lambda>e. length (line E e)) es)"

definition fits :: "'d journal_env \<Rightarrow> 'd entry list \<Rightarrow> bool" where
  "fits E es \<longleftrightarrow> length es \<le> maxItems \<and> total_bytes E es \<le> maxBytes"

text \<open>The reference for what is kept: the longest suffix that fits.\<close>

fun keep_newest :: "'d journal_env \<Rightarrow> 'd entry list \<Rightarrow> 'd entry list" where
  "keep_newest E [] = []"
| "keep_newest E (e # es) = (if fits E (e # es) then e # es else keep_newest E es)"

definition encodable :: "'d journal_env \<Rightarrow> 'd entry \<Rightarrow> bool" where
  "encodable E e \<longleftrightarrow> je_marshal E e \<noteq> None"

lemma total_bytes_simps [simp]:
  "total_bytes E [] = 0" "total_bytes E (e # es) = length (line E e) + total_bytes E es"
  "total_bytes E (es @ fs) = total_bytes E es + total_bytes E fs"
  by (simp_all add: total_bytes_def)

lemma fits_Nil [simp]: "fits E []"
  by (simp add: fits_def)

lemma total_bytes_filter: "total_bytes E (filter P es) \<le> total_bytes E es"
  by (induction es) auto

lemma fits_filter: "fits E es \<Longrightarrow> fits E (filter P es)"
  using total_bytes_filter [of E P es] le_trans [OF length_filter_le [of P es]] by (simp add: fits_def)

lemma encodeEntry_Inr: "encodeEntry E e = Inr data \<longleftrightarrow> encodable E e \<and> data = line E e"
  by (auto simp: encodeEntry_def encodable_def line_def split: option.splits)

lemma encode_all_Inr: "encode_all E es = Inr datas \<longleftrightarrow> list_all (encodable E) es \<and> datas = map (line E) es"
proof (induction es arbitrary: datas)
  case (Cons e es)
  show ?case
  proof (cases "je_marshal E e")
    case None
    then show ?thesis by (simp add: encodeEntry_def encodable_def)
  next
    case (Some data)
    then have "encodeEntry E e = Inr (line E e)" "encodable E e" by (simp_all add: encodeEntry_def encodable_def line_def)
    then show ?thesis using Cons.IH by (cases "encode_all E es") auto
  qed
qed auto

lemma encode_all_encodable: "list_all (encodable E) es \<Longrightarrow> encode_all E es = Inr (map (line E) es)"
  by (simp add: encode_all_Inr)

lemma total_bytes_lines: "sum_list (map length (map (line E) es)) = total_bytes E es"
  by (simp add: total_bytes_def comp_def)

lemma drop_oldest_spec:
  "drop_oldest sizes (int (sum_list sizes)) = (k, t) \<Longrightarrow>
   t = int (sum_list (drop k sizes)) \<and> (\<forall>k' < k. sum_list (drop k' sizes) > maxBytes) \<and> k \<le> length sizes
   \<and> (t > int maxBytes \<longrightarrow> k = length sizes - 1)"
proof (induction sizes arbitrary: k t rule: induct_list012)
  case (3 x y sizes)
  show ?case
  proof (cases "int (sum_list (x # y # sizes)) > int maxBytes")
    case True
    obtain k0 where d: "drop_oldest (y # sizes) (int (sum_list (y # sizes))) = (k0, t)" "k = Suc k0"
      using 3(3) True by (cases "drop_oldest (y # sizes) (int (sum_list (y # sizes)))") (simp add: Let_def)
    have ih: "t = int (sum_list (drop k0 (y # sizes)))" "\<forall>k' < k0. sum_list (drop k' (y # sizes)) > maxBytes"
        "k0 \<le> length (y # sizes)" "t > int maxBytes \<longrightarrow> k0 = length (y # sizes) - 1"
      using 3(2) [OF d(1)] by blast+
    have "sum_list (drop k' (x # y # sizes)) > maxBytes" if "k' < k" for k'
    proof (cases k')
      case 0
      then show ?thesis using True by simp
    next
      case (Suc i)
      then show ?thesis using ih(2) that d(2) by (simp del: sum_list.Cons)
    qed
    moreover have "t = int (sum_list (drop k (x # y # sizes)))" unfolding d(2) by (simp add: ih(1))
    moreover have "k \<le> length (x # y # sizes)" using ih(3) by (simp add: d(2))
    moreover have "t > int maxBytes \<longrightarrow> k = length (x # y # sizes) - 1" using ih(4) by (simp add: d(2))
    ultimately show ?thesis by blast
  next
    case False
    then have "k = 0" "t = int (sum_list (x # y # sizes))" using 3(3) by (simp_all only: drop_oldest.simps if_False prod.inject)
    then show ?thesis using False by simp
  qed
qed auto

lemma keep_newest_eq:
  "k \<le> length es \<Longrightarrow> \<forall>k' < k. \<not> fits E (drop k' es) \<Longrightarrow> fits E (drop k es) \<Longrightarrow> keep_newest E es = drop k es"
proof (induction es arbitrary: k)
  case (Cons e es)
  show ?case
  proof (cases k)
    case (Suc k0)
    have "\<not> fits E (e # es)" using Cons.prems(2) Suc by auto
    moreover have "\<forall>k' < k0. \<not> fits E (drop k' es)" using Cons.prems(2) Suc by force
    ultimately show ?thesis using Cons Suc by simp
  qed (use Cons.prems in simp)
qed simp

lemma retain_drop:
  assumes "list_all (encodable E) (drop (length es - maxItems) es)"
  shows "\<exists>k. length es - maxItems \<le> k \<and> k \<le> length es \<and> (\<forall>k' < k. \<not> fits E (drop k' es))
     \<and> (total_bytes E (drop k es) > maxBytes \<longrightarrow> k \<ge> length es - 1)
     \<and> retainWithinLimits E es
         = (if total_bytes E (drop k es) > maxBytes then Inl Err_entry_too_large
            else Inr (drop k es, int (total_bytes E (drop k es))))"
proof -
  let ?m = "length es - maxItems" and ?es = "drop (length es - maxItems) es"
  let ?sizes = "map length (map (line E) ?es)"
  have cut: "(if length es > maxItems then drop ?m es else es) = ?es" by simp
  obtain k t where d: "drop_oldest ?sizes (int (sum_list ?sizes)) = (k, t)" by (rule prod.exhaust)
  note spec = drop_oldest_spec [OF d]
  have sum: "sum_list (drop k' ?sizes) = total_bytes E (drop (?m + k') es)" for k'
    by (simp add: total_bytes_def drop_map comp_def add.commute)
  have t: "t = int (total_bytes E (drop (?m + k) es))" using conjunct1 [OF spec] unfolding sum .
  have nofit: "\<not> fits E (drop k' es)" if "k' < ?m + k" for k'
  proof (cases "k' < ?m")
    case False
    then obtain c where c: "k' = ?m + c" using le_Suc_ex [of ?m k'] by (auto simp: not_less)
    with that have "c < k" by simp
    with spec have "sum_list (drop c ?sizes) > maxBytes" by blast
    then show ?thesis unfolding sum c by (simp add: fits_def)
  qed (auto simp: fits_def)
  have "retainWithinLimits E es
      = (if total_bytes E (drop (?m + k) es) > maxBytes then Inl Err_entry_too_large
         else Inr (drop (?m + k) es, int (total_bytes E (drop (?m + k) es))))"
    unfolding retainWithinLimits_def Let_def cut encode_all_encodable [OF assms] sum.case d prod.case t drop_drop
    by (simp only: add.commute of_nat_less_iff)
  moreover have "total_bytes E (drop (?m + k) es) > maxBytes \<longrightarrow> ?m + k \<ge> length es - 1"
  proof
    assume "total_bytes E (drop (?m + k) es) > maxBytes"
    then have "k = length ?sizes - 1" using spec t by (metis of_nat_less_iff)
    then show "?m + k \<ge> length es - 1" by simp
  qed
  moreover have "?m + k \<le> length es"
  proof -
    have "k \<le> length ?sizes" using spec by blast
    then show ?thesis by simp
  qed
  ultimately show ?thesis using nofit by (intro exI [of _ "?m + k"]) simp
qed

lemma retain_spec:
  assumes "retainWithinLimits E es = Inr (r, n)"
  shows "r = keep_newest E es" "fits E r" "n = int (total_bytes E r)" "list_all (encodable E) r"
proof -
  let ?es = "drop (length es - maxItems) es"
  have "(if length es > maxItems then drop (length es - maxItems) es else es) = ?es" by simp
  then have enc: "list_all (encodable E) ?es"
    using assms by (auto simp: retainWithinLimits_def Let_def encode_all_Inr split: sum.splits)
  obtain k where k: "length es - maxItems \<le> k" "k \<le> length es" "\<forall>k' < k. \<not> fits E (drop k' es)"
    "retainWithinLimits E es = (if total_bytes E (drop k es) > maxBytes then Inl Err_entry_too_large
       else Inr (drop k es, int (total_bytes E (drop k es))))"
    using retain_drop [OF enc] by blast
  then have r: "r = drop k es" "n = int (total_bytes E r)" "total_bytes E r \<le> maxBytes"
    using assms by (auto split: if_splits)
  show "fits E r" using r k(1) by (simp add: fits_def)
  then show "r = keep_newest E es" using keep_newest_eq [OF k(2,3)] r by simp
  show "n = int (total_bytes E r)" by (rule r)
  have "set r \<subseteq> set ?es" unfolding r(1) using k(1) by (rule set_drop_subset_set_drop)
  then show "list_all (encodable E) r" using enc by (auto simp: list_all_iff)
qed

lemma retain_fits:
  assumes "list_all (encodable E) es" "fits E es"
  shows "retainWithinLimits E es = Inr (es, int (total_bytes E es))"
proof -
  obtain k where "\<forall>k' < k. \<not> fits E (drop k' es)"
    and r: "retainWithinLimits E es = (if total_bytes E (drop k es) > maxBytes then Inl Err_entry_too_large
       else Inr (drop k es, int (total_bytes E (drop k es))))"
    using retain_drop [of E es] assms by (auto simp: list_all_iff dest: in_set_dropD)
  then have "k = 0" using assms(2) by (metis drop0 gr0I)
  then show ?thesis using r assms(2) by (simp add: fits_def)
qed

lemma retain_succeeds:
  assumes "list_all (encodable E) (es @ [e])" "length (line E e) \<le> maxBytes"
  shows "retainWithinLimits E (es @ [e]) = Inr (keep_newest E (es @ [e]), int (total_bytes E (keep_newest E (es @ [e]))))"
proof -
  have enc: "list_all (encodable E) (drop (length (es @ [e]) - maxItems) (es @ [e]))"
    using assms(1) by (auto simp: list_all_iff dest: in_set_dropD)
  obtain k where k: "k \<le> length (es @ [e])" "total_bytes E (drop k (es @ [e])) > maxBytes \<longrightarrow> k \<ge> length (es @ [e]) - 1"
    and r: "retainWithinLimits E (es @ [e]) = (if total_bytes E (drop k (es @ [e])) > maxBytes then Inl Err_entry_too_large
       else Inr (drop k (es @ [e]), int (total_bytes E (drop k (es @ [e])))))"
    using retain_drop [OF enc] by blast
  have "\<not> total_bytes E (drop k (es @ [e])) > maxBytes"
  proof
    assume big: "total_bytes E (drop k (es @ [e])) > maxBytes"
    then have "k = length es \<or> k = Suc (length es)" using k by auto
    then show False using big assms(2) by auto
  qed
  then have ok: "retainWithinLimits E (es @ [e]) = Inr (drop k (es @ [e]), int (total_bytes E (drop k (es @ [e]))))" using r by simp
  show ?thesis using ok unfolding retain_spec(1) [OF ok] .
qed

section \<open>What the disk holds\<close>

text \<open>Identifiers that survive the tombstone file, and entries that survive the journal file: JSON text without line
  breaks that decodes to the entry and none of whose proper prefixes decodes.\<close>

definition id_ok :: "string \<Rightarrow> bool" where
  "id_ok i \<longleftrightarrow> i \<noteq> [] \<and> trim_space i = i \<and> newline \<notin> set i \<and> CHR 0x0D \<notin> set i"

definition storable :: "'d journal_env \<Rightarrow> 'd entry \<Rightarrow> bool" where
  "storable E e \<longleftrightarrow> id_ok (en_ID e) \<and> NormalizeEntry e = e
     \<and> (case je_marshal E e of
          None \<Rightarrow> False
        | Some s \<Rightarrow> newline \<notin> set s \<and> CHR 0x0D \<notin> set s \<and> length (en_ID e) < length s \<and> je_unmarshal E s = Some e
            \<and> list_all (\<lambda>k. je_unmarshal E (take k s) = None) [0..<length s])"

definition id_bytes :: "string list \<Rightarrow> nat" where
  "id_bytes ids = sum_list (map (\<lambda>i. Suc (length i)) ids)"

text \<open>The disk \<open>d\<close> reopens to \<open>es\<close>: complete lines, then possibly the beginning of one more, and tombstones.\<close>

definition tail_of :: "'d journal_env \<Rightarrow> 'd entry list \<Rightarrow> string \<Rightarrow> 'd entry list \<Rightarrow> bool" where
  "tail_of E es0 t es1 \<longleftrightarrow> t = [] \<and> es1 = es0
     \<or> t \<noteq> [] \<and> length t < maxBytes \<and> newline \<notin> set t \<and> CHR 0x0D \<notin> set t
        \<and> (es1 = es0 \<and> je_unmarshal E t = None \<or> (\<exists>e. es1 = es0 @ [e] \<and> je_marshal E e = Some t))"

definition recovers :: "'d journal_env \<Rightarrow> journal_disk \<Rightarrow> 'd entry list \<Rightarrow> bool" where
  "recovers E d es \<longleftrightarrow> (\<exists>ts es0 t es1. loadTombstones True d = Inr ts \<and> list_all (storable E) es0 \<and> list_all (storable E) es1
     \<and> fits E es0 \<and> fits E es1 \<and> tail_of E es0 t es1
     \<and> (jd_journal d = Some (concat (map (line E) es0) @ t) \<or> jd_journal d = None \<and> es0 = [] \<and> t = [])
     \<and> es = filter (\<lambda>e. en_ID e \<notin> set ts) es1)"

definition synced :: "'d journal_env \<Rightarrow> 'd Journal \<Rightarrow> bool" where
  "synced E j \<longleftrightarrow> list_all (storable E) (jn_entries j) \<and> fits E (jn_entries j) \<and> jn_bytes j = int (total_bytes E (jn_entries j))
     \<and> (jd_journal (jn_disk j) = Some (concat (map (line E) (jn_entries j))) \<or> jn_entries j = [] \<and> jd_journal (jn_disk j) = None)
     \<and> (\<exists>ts. loadTombstones True (jn_disk j) = Inr ts \<and> list_all id_ok ts \<and> (\<forall>e \<in> set (jn_entries j). en_ID e \<notin> set ts))"

abbreviation text_of :: "'d journal_env \<Rightarrow> 'd entry \<Rightarrow> string" where
  "text_of E e \<equiv> the (je_marshal E e)"

lemma storable_facts:
  assumes "storable E e"
  shows "je_marshal E e = Some (text_of E e)" "line E e = text_of E e @ [newline]" "encodable E e" "id_ok (en_ID e)"
    "newline \<notin> set (text_of E e)" "CHR 0x0D \<notin> set (text_of E e)" "length (en_ID e) < length (text_of E e)"
    "je_unmarshal E (text_of E e) = Some e" "NormalizeEntry e = e"
    "k < length (text_of E e) \<Longrightarrow> je_unmarshal E (take k (text_of E e)) = None"
  using assms by (auto simp: storable_def line_def encodable_def list_all_iff split: option.splits)

lemmas storable_simps = storable_facts(2-9)

lemma storable_encodable: "list_all (storable E) es \<Longrightarrow> list_all (encodable E) es"
  by (auto simp: list_all_iff storable_simps)

lemma lines_texts: "list_all (storable E) es \<Longrightarrow> map (line E) es = map (\<lambda>l. l @ [newline]) (map (text_of E) es)"
  by (induction es) (auto simp: storable_facts(2))

lemma text_shorter: "e \<in> set es \<Longrightarrow> storable E e \<Longrightarrow> fits E es \<Longrightarrow> length (text_of E e) < maxBytes"
proof -
  assume e: "e \<in> set es" "storable E e" "fits E es"
  then have "length (line E e) \<le> total_bytes E es" unfolding total_bytes_def by (intro member_le_sum_list) auto
  then show ?thesis using e by (simp add: fits_def storable_facts(2))
qed

section \<open>Tombstones\<close>

lemma loadTombstones_journal [simp]: "loadTombstones r (d\<lparr>jd_journal := x\<rparr>) = loadTombstones r d"
  by (simp add: loadTombstones_def)

lemma insert_ids:
  "list_all id_ok toks \<Longrightarrow>
   set (foldl (\<lambda>ts t. if trim_space t = [] then ts else List.insert (trim_space t) ts) acc toks) = set acc \<union> set toks"
  by (induction toks arbitrary: acc) (auto simp: id_ok_def)

lemma id_bytes_sort: "id_bytes (sort ids) = id_bytes ids"
proof -
  have "sum_mset (mset (map (\<lambda>i. Suc (length i)) (sort ids))) = sum_mset (mset (map (\<lambda>i. Suc (length i)) ids))" by simp
  then show ?thesis unfolding id_bytes_def sum_mset_sum_list .
qed

lemma id_bytes_length: "length (concat (map (\<lambda>i. i @ [newline]) ids)) = id_bytes ids"
  by (induction ids) (auto simp: id_bytes_def)

lemma id_bytes_member: "i \<in> set ids \<Longrightarrow> length i < id_bytes ids"
  using member_le_sum_list [of "Suc (length i)" "map (\<lambda>i. Suc (length i)) ids"] by (auto simp: id_bytes_def)

lemma load_tombstone_file:
  assumes "list_all id_ok ts" "id_bytes ts \<le> maxBytes" "jd_tombstones d = tombstone_file ts"
  shows "\<exists>ts'. loadTombstones True d = Inr ts' \<and> set ts' = set ts"
proof (cases "ts = []")
  case True
  then show ?thesis using assms by (simp add: loadTombstones_def tombstone_file_def)
next
  case False
  have "filter (\<lambda>i. trim_space i \<noteq> []) ts = ts" using assms(1) by (auto simp: list_all_iff id_ok_def filter_id_conv)
  then have f: "jd_tombstones d = Some (concat (map (\<lambda>i. i @ [newline]) (sort ts)) @ [])"
    using assms(3) False by (simp add: tombstone_file_def)
  have len: "length (concat (map (\<lambda>i. i @ [newline]) (sort ts)) @ []) \<le> maxBytes"
    using assms(2) id_bytes_length [of "sort ts"] by (simp add: id_bytes_sort)
  have "scan_tokens maxBytes (concat (map (\<lambda>i. i @ [newline]) (sort ts)) @ []) = Some (sort ts @ (if ([]::string) = [] then [] else [[]]))"
  proof (rule scan_tokens_concat)
    show "\<forall>l \<in> set (sort ts). newline \<notin> set l \<and> CHR 0x0D \<notin> set l \<and> length l < maxBytes"
      using assms(1,2) id_bytes_member [of _ ts] by (fastforce simp: list_all_iff id_ok_def)
  qed (simp_all add: maxBytes_def)
  moreover have "list_all id_ok (sort ts)" using assms(1) by (simp add: list_all_iff)
  ultimately show ?thesis using len insert_ids [of "sort ts" "[]"] by (simp add: loadTombstones_def f)
qed

lemma load_no_tombstones: "jd_tombstones d = None \<Longrightarrow> loadTombstones True d = Inr []"
  by (simp add: loadTombstones_def)

section \<open>Opening what the disk holds\<close>

lemma load_lines_texts:
  "list_all (storable E) es \<Longrightarrow>
   load_lines E ts (map (text_of E) es @ rest)
     = (filter (\<lambda>e. en_ID e \<notin> set ts) es @ fst (load_lines E ts rest), snd (load_lines E ts rest))"
proof (induction es)
  case (Cons e es)
  then have "text_of E e \<noteq> []" using storable_facts(7) [of E e] by force
  moreover have "NormalizeEntry e = e" using Cons.prems storable_facts(9) [of E e] by simp
  ultimately show ?case using Cons by (simp add: storable_simps Let_def)
qed simp

lemma scan_content:
  assumes "list_all (storable E) es0" "fits E es0" "tail_of E es0 t es1"
  shows "scan_tokens maxBytes (concat (map (line E) es0) @ t) = Some (map (text_of E) es0 @ (if t = [] then [] else [t]))"
  unfolding lines_texts [OF assms(1)]
proof (rule scan_tokens_concat)
  show "\<forall>l \<in> set (map (text_of E) es0). newline \<notin> set l \<and> CHR 0x0D \<notin> set l \<and> length l < maxBytes"
    using assms(1,2) by (auto simp: list_all_iff storable_simps text_shorter)
qed (use assms(3) in \<open>auto simp: tail_of_def maxBytes_def\<close>)

lemma load_content:
  assumes "list_all (storable E) es0" "list_all (storable E) es1" "tail_of E es0 t es1"
  shows "load_lines E ts (map (text_of E) es0 @ (if t = [] then [] else [t])) = (filter (\<lambda>e. en_ID e \<notin> set ts) es1, False)"
proof -
  consider "t = []" "es1 = es0" | "t \<noteq> []" "es1 = es0" "je_unmarshal E t = None"
    | e where "t \<noteq> []" "es1 = es0 @ [e]" "je_marshal E e = Some t"
    using assms(3) by (auto simp: tail_of_def)
  then show ?thesis
  proof cases
    case 3
    then have "je_unmarshal E t = Some e" "NormalizeEntry e = e"
      using assms(2) storable_facts(8,9) [of E e] by (simp_all add: list_all_iff)
    with 3 show ?thesis unfolding load_lines_texts [OF assms(1)] by simp
  qed (use load_lines_texts [OF assms(1), of ts "[]"] load_lines_texts [OF assms(1), of ts "[t]"] in simp_all)
qed

lemma tail_size:
  assumes "tail_of E es0 t es1" "int (total_bytes E (filter P es1)) = int (length (concat (map (line E) es0) @ t))"
    and "filter P es1 = es1"
  shows "t = []"
proof (rule ccontr)
  assume "t \<noteq> []"
  then have "total_bytes E es1 = total_bytes E es0 \<or> total_bytes E es1 = total_bytes E es0 + Suc (length t)"
    using assms(1) by (auto simp: tail_of_def line_def)
  moreover have "total_bytes E es1 = total_bytes E es0 + length t"
    using assms(2,3) by (simp add: total_bytes_def length_concat comp_def flip: of_nat_add)
  ultimately show False using \<open>t \<noteq> []\<close> by auto
qed

lemma recovers_clean:
  assumes "list_all (storable E) es" "fits E es" "loadTombstones True d = Inr ts"
    and "jd_journal d = Some (concat (map (line E) es)) \<or> jd_journal d = None \<and> es = []"
  shows "recovers E d (filter (\<lambda>e. en_ID e \<notin> set ts) es)"
  unfolding recovers_def using assms by (intro exI [of _ ts] exI [of _ es] exI [of _ "[]"]) (auto simp: tail_of_def)

lemma synced_recovers:
  assumes "synced E j"
  shows "recovers E (jn_disk j) (jn_entries j)"
proof -
  obtain ts where ts: "loadTombstones True (jn_disk j) = Inr ts" "\<forall>e \<in> set (jn_entries j). en_ID e \<notin> set ts"
    using assms by (auto simp: synced_def)
  have "filter (\<lambda>e. en_ID e \<notin> set ts) (jn_entries j) = jn_entries j" using ts(2) by (auto simp: filter_id_conv)
  then show ?thesis using recovers_clean [of E "jn_entries j" "jn_disk j" ts] ts(1) assms by (auto simp: synced_def)
qed

lemma set_disk_fields [simp]:
  "jn_disk (set_disk d j) = d" "jn_trace (set_disk d j) = jn_trace j @ [d]"
  "jn_entries (set_disk d j) = jn_entries j" "jn_bytes (set_disk d j) = jn_bytes j"
  by (simp_all add: set_disk_def)

lemma io_good_fields [simp]:
  "io_open io_good" "io_tombs io_good" "io_append io_good = Append_ok" "io_compact io_good = Io_ok"
  "io_prepare io_good = Io_ok" "io_restore io_good = Io_ok"
  by (simp_all add: io_good_def)

lemma filter_filter_id: "filter P es = fs \<Longrightarrow> filter P fs = fs"
  by auto

lemma content_length: "length (concat (map (line E) es)) = total_bytes E es"
  by (simp add: total_bytes_def length_concat comp_def)

text \<open>Opening a disk that holds \<open>es\<close> succeeds, and a second crash while the journal is being repaired changes nothing.\<close>

lemma open_recovers:
  assumes "recovers E d es"
  shows "\<exists>j. OpenJournal E True io_good d = Inr j \<and> jn_entries j = es \<and> synced E j \<and> (\<forall>d' \<in> set (jn_trace j). recovers E d' es)"
proof -
  obtain ts es0 t es1 where ts: "loadTombstones True d = Inr ts"
    and st: "list_all (storable E) es0" "list_all (storable E) es1" and fit: "fits E es0" "fits E es1"
    and tail: "tail_of E es0 t es1"
    and fl: "jd_journal d = Some (concat (map (line E) es0) @ t) \<or> jd_journal d = None \<and> es0 = [] \<and> t = []"
    and es: "es = filter (\<lambda>e. en_ID e \<notin> set ts) es1"
    using assms unfolding recovers_def by blast
  have stes: "list_all (storable E) es" using st(2) by (auto simp: es list_all_iff)
  have fites: "fits E es" using fit(2) by (simp add: es fits_filter)
  have idem: "filter (\<lambda>e. en_ID e \<notin> set ts) es = es" unfolding es by (rule filter_filter_id) simp
  note retain = retain_fits [OF storable_encodable [OF stes] fites]
  note none = load_no_tombstones [of "d\<lparr>jd_journal := _, jd_tombstones := None\<rparr>", simplified]
  define d1 where "d1 = d\<lparr>jd_journal := Some (concat (map (line E) es))\<rparr>"
  define d2 where "d2 = d1\<lparr>jd_tombstones := None\<rparr>"
  have r1: "recovers E d1 es" using recovers_clean [OF stes fites, of d1 ts] ts idem by (simp add: d1_def)
  have r2: "recovers E d2 es"
    using recovers_clean [OF stes fites, of d2 "[]"] load_no_tombstones [of d2] by (simp add: d2_def d1_def)
  have sync: "synced E j" if "jn_entries j = es" "jn_bytes j = int (total_bytes E es)" "jn_disk j = d1 \<and> ts = [] \<or> jn_disk j = d2" for j
    using that stes fites ts load_no_tombstones [of d2] by (auto simp: synced_def d1_def d2_def)
  show ?thesis
  proof (cases "jd_journal d")
    case None
    then have [simp]: "es = []" using tail fl es by (auto simp: tail_of_def)
    have "synced E j" if "jn_entries j = []" "jn_bytes j = 0" "jd_journal (jn_disk j) = None" "loadTombstones True (jn_disk j) = Inr []"
      for j using that by (simp add: synced_def)
    moreover have "recovers E (d\<lparr>jd_tombstones := None\<rparr>) []"
      using recovers_clean [of E "[]" "d\<lparr>jd_tombstones := None\<rparr>" "[]"] None by (simp add: load_no_tombstones)
    ultimately show ?thesis using None ts
      by (auto simp: OpenJournal_def load_def writeTombstonesLocked_def tombstone_file_def load_no_tombstones)
  next
    case (Some c)
    then have c: "c = concat (map (line E) es0) @ t" using fl by simp
    have "length c \<le> maxBytes * 4" using fit(1) tail by (auto simp: c content_length fits_def tail_of_def)
    moreover note scan = scan_content [OF st(1) fit(1) tail]
    have ld: "load_lines E ts (map (text_of E) es0 @ (if t = [] then [] else [t])) = (es, False)"
      using load_content [OF st tail, of ts] by (simp only: es)
    let ?j1 = "\<lparr>jn_entries = es, jn_bytes = int (total_bytes E es), jn_disk = d, jn_trace = []\<rparr>"
    have keep: "d = d1" if "ts = []" "int (total_bytes E es) = int (length c)"
    proof -
      have "es = es1" using that(1) by (simp add: es)
      then have "t = []" using tail_size [OF tail, of "\<lambda>_. True"] that(2) by (simp add: c)
      moreover from this have "es = es0" using tail \<open>es = es1\<close> by (simp add: tail_of_def)
      ultimately show ?thesis using Some c by (cases d) (simp add: d1_def)
    qed
    moreover have "compactLocked E Io_ok ?j1 = (?j1\<lparr>jn_disk := d1, jn_trace := [d1]\<rparr>, None)"
      by (simp add: compactLocked_def compactEntriesLocked_def encode_all_encodable [OF storable_encodable [OF stes]]
          set_disk_def d1_def total_bytes_def comp_def)
    moreover have "writeTombstonesLocked Io_ok [] (?j1\<lparr>jn_disk := d1, jn_trace := [d1]\<rparr>)
        = (?j1\<lparr>jn_disk := d2, jn_trace := [d1, d2]\<rparr>, None)"
      by (simp add: writeTombstonesLocked_def tombstone_file_def set_disk_def d2_def)
    ultimately have "OpenJournal E True io_good d
        = (if ts \<noteq> [] then Inr (?j1\<lparr>jn_disk := d2, jn_trace := [d1, d2]\<rparr>)
           else if d = d1 \<and> int (total_bytes E es) = int (length c) then Inr ?j1 else Inr (?j1\<lparr>jn_disk := d1, jn_trace := [d1]\<rparr>))"
      using Some ts scan ld retain fites
      by (cases "ts = []"; cases "int (total_bytes E es) = int (length c)")
        (simp_all add: OpenJournal_def load_def Let_def fits_def flip: c)
    then show ?thesis
      using r1 r2 sync [of ?j1] sync [of "?j1\<lparr>jn_disk := d1, jn_trace := [d1]\<rparr>"]
        sync [of "?j1\<lparr>jn_disk := d2, jn_trace := [d1, d2]\<rparr>"]
      by (cases "ts = []"; cases "d = d1"; cases "total_bytes E es = length c") simp_all
  qed
qed

section \<open>Operations\<close>

definition tomb_ids :: "journal_disk \<Rightarrow> string list" where
  "tomb_ids d = (case loadTombstones True d of Inl _ \<Rightarrow> [] | Inr ts \<Rightarrow> ts)"

text \<open>What an operation is called with: an entry that can be stored, under an identifier that no left-over tombstone
  names; and left-over tombstones that leave room in their file for the entries.\<close>

fun op_ok :: "'d journal_env \<Rightarrow> 'd Journal \<Rightarrow> 'd journal_op \<Rightarrow> bool" where
  "op_ok E j (J_Append e) = (storable E (NormalizeEntry e) \<and> en_ID (NormalizeEntry e) \<notin> set (tomb_ids (jn_disk j)))"
| "op_ok E j p = (id_bytes (tomb_ids (jn_disk j)) + id_bytes (map en_ID (jn_entries j)) \<le> maxBytes)"

text \<open>The failures considered: a write that fails leaves the file as it was. Cleaning up the tombstones after a
  removal may fail in any way.\<close>

fun clean_io :: "journal_io \<Rightarrow> 'd journal_op \<Rightarrow> bool" where
  "clean_io io (J_Append e) = (io_append io \<in> {Append_ok, Append_fail} \<and> io_compact io \<noteq> Io_late)"
| "clean_io io p = (io_prepare io \<noteq> Io_late \<and> io_compact io \<noteq> Io_late \<and> (io_compact io = Io_fail \<longrightarrow> io_restore io \<noteq> Io_fail))"

fun op_spec :: "'d journal_env \<Rightarrow> 'd journal_op \<Rightarrow> 'd entry list \<Rightarrow> 'd entry list" where
  "op_spec E (J_Append e) es = keep_newest E (es @ [NormalizeEntry e])"
| "op_spec E (J_Discard i) es = filter (\<lambda>e. en_ID e \<noteq> i) es"
| "op_spec E J_Clear es = []"

text \<open>The effect of an operation: new entries exactly without an error, a disk in step with memory, and only disks on the way
  that hold the old or the new entries.\<close>

definition atomic :: "'d journal_env \<Rightarrow> 'd journal_op \<Rightarrow> 'd Journal \<Rightarrow> 'd Journal \<times> journal_error option \<Rightarrow> bool" where
  "atomic E p j r \<longleftrightarrow> synced E (fst r) \<and> jn_entries (fst r) = (if snd r = None then op_spec E p (jn_entries j) else jn_entries j)
     \<and> (\<exists>ds. jn_trace (fst r) = jn_trace j @ ds
          \<and> (\<forall>d \<in> set ds. recovers E d (jn_entries j) \<or> recovers E d (op_spec E p (jn_entries j))))"

lemma atomic_same: "synced E j \<Longrightarrow> snd r \<noteq> None \<or> op_spec E p (jn_entries j) = jn_entries j \<Longrightarrow> fst r = j \<Longrightarrow> atomic E p j r"
  by (auto simp: atomic_def)

lemma keep_newest_suffix: "set (keep_newest E es) \<subseteq> set es"
  by (induction es) auto

lemma keep_newest_shorter: "keep_newest E es \<noteq> es \<Longrightarrow> length (keep_newest E es) \<noteq> length es"
proof -
  have "length (keep_newest E es) \<le> length es" for es by (induction es) auto
  then have "length (keep_newest E (tl es)) < length es" if "es \<noteq> []" using that by (cases es) (auto simp: less_Suc_eq_le)
  then show "keep_newest E es \<noteq> es \<Longrightarrow> length (keep_newest E es) \<noteq> length es" by (cases es) (auto split: if_splits)
qed

lemma keep_newest_fits: "fits E es \<Longrightarrow> keep_newest E es = es"
  by (cases es) auto

lemma foldl_set_disk:
  "jn_trace (foldl (\<lambda>k i. set_disk (g i) k) j xs) = jn_trace j @ map g xs"
  "jn_entries (foldl (\<lambda>k i. set_disk (g i) k) j xs) = jn_entries j"
  "jn_bytes (foldl (\<lambda>k i. set_disk (g i) k) j xs) = jn_bytes j"
  by (induction xs arbitrary: j) auto

lemma append_file_fields [simp]:
  "jn_trace (append_file n data j) = jn_trace j @ map (\<lambda>i. appended (jn_disk j) (take i data)) [0..<Suc n]"
  "jn_disk (append_file n data j) = appended (jn_disk j) (take n data)"
  "jn_entries (append_file n data j) = jn_entries j" "jn_bytes (append_file n data j) = jn_bytes j"
  by (simp_all only: append_file_def foldl_set_disk) (simp add: append_file_def)

text \<open>Every prefix of an appended line.\<close>

lemma torn_recovers:
  assumes "synced E j" "storable E e" "en_ID e \<notin> set (tomb_ids (jn_disk j))" "fits E (jn_entries j @ [e])" "i \<le> length (line E e)"
  defines "d \<equiv> appended (jn_disk j) (take i (line E e))"
  shows "recovers E d (jn_entries j) \<or> recovers E d (jn_entries j @ [e])"
proof -
  let ?es = "jn_entries j" and ?s = "text_of E e"
  obtain ts where ts: "loadTombstones True (jn_disk j) = Inr ts" "\<forall>e \<in> set ?es. en_ID e \<notin> set ts"
    and st: "list_all (storable E) ?es" and fit: "fits E ?es"
    using assms(1) by (auto simp: synced_def)
  have c: "case_option [] (\<lambda>c. c) (jd_journal (jn_disk j)) = concat (map (line E) ?es)" using assms(1) by (auto simp: synced_def)
  have keep: "filter (\<lambda>e. en_ID e \<notin> set ts) (?es @ [e]) = ?es @ [e]" "filter (\<lambda>e. en_ID e \<notin> set ts) ?es = ?es"
    using ts assms(3) by (auto simp: filter_id_conv tomb_ids_def)
  have line: "line E e = ?s @ [newline]" "?s \<noteq> []" using assms(2) storable_facts(7) [of E e] by (force simp: storable_simps)+
  have short: "length ?s < maxBytes" using text_shorter [of e "?es @ [e]" E] assms by simp
  have tomb: "loadTombstones True d = Inr ts" using ts(1) by (simp add: d_def appended_def)
  consider "i = 0" | "0 < i" "i \<le> length ?s" | "i = Suc (length ?s)" using assms(5) by (cases i) (auto simp: line le_Suc_eq)
  then show ?thesis
  proof cases
    case 1
    then show ?thesis using recovers_clean [OF st fit tomb] keep c by (simp add: d_def appended_def)
  next
    case 2
    then have f: "jd_journal d = Some (concat (map (line E) ?es) @ take i ?s)" using c by (simp add: d_def appended_def line)
    have "newline \<notin> set (take i ?s)" "CHR 0x0D \<notin> set (take i ?s)"
      using storable_facts(5,6) [OF assms(2)] by (auto dest: in_set_takeD)
    then have "tail_of E ?es (take i ?s) (if i < length ?s then ?es else ?es @ [e])"
      using 2 line(2) short storable_facts(1,10) [OF assms(2)] by (auto simp: tail_of_def)
    then have "recovers E d (filter (\<lambda>e. en_ID e \<notin> set ts) (if i < length ?s then ?es else ?es @ [e]))"
      unfolding recovers_def using tomb st fit f assms(2,4) by (intro exI conjI) (auto split: if_splits)
    then show ?thesis using keep by (auto split: if_splits)
  next
    case 3
    then have "jd_journal d = Some (concat (map (line E) (?es @ [e])))" using c by (simp add: d_def appended_def line)
    then show ?thesis using recovers_clean [OF _ assms(4) tomb] st assms(2) keep by simp
  qed
qed

lemma compact_storable:
  assumes "list_all (storable E) es"
  shows "compactEntriesLocked E io es j
    = (let j' = set_disk ((jn_disk j)\<lparr>jd_journal := Some (concat (map (line E) es))\<rparr>) j
       in case io of Io_fail \<Rightarrow> (j, Some Err_replace) | Io_late \<Rightarrow> (j', Some Err_replace)
          | Io_ok \<Rightarrow> (j'\<lparr>jn_entries := es, jn_bytes := int (total_bytes E es)\<rparr>, None))"
  by (simp add: compactEntriesLocked_def encode_all_encodable [OF storable_encodable [OF assms]] total_bytes_def comp_def Let_def
      split: io_result.split)

lemma synced_disk:
  assumes "list_all (storable E) (jn_entries j)" "fits E (jn_entries j)" "jn_bytes j = int (total_bytes E (jn_entries j))"
    and "jd_journal (jn_disk j) = Some (concat (map (line E) (jn_entries j)))"
    and "loadTombstones True (jn_disk j) = Inr ts" "list_all id_ok ts" "\<forall>e \<in> set (jn_entries j). en_ID e \<notin> set ts"
  shows "synced E j"
  using assms by (simp add: synced_def)

lemma append_atomic:
  assumes "synced E j" "op_ok E j (J_Append e0)" "clean_io io (J_Append e0)"
  shows "atomic E (J_Append e0) j (Append E io e0 j)"
proof -
  let ?e = "NormalizeEntry e0" and ?es = "jn_entries j" and ?d = "jn_disk j"
  let ?new = "keep_newest E (?es @ [?e])"
  have st: "list_all (storable E) (?es @ [?e])" using assms by (simp add: synced_def)
  obtain ts where ts: "loadTombstones True ?d = Inr ts" "list_all id_ok ts" "\<forall>e \<in> set (?es @ [?e]). en_ID e \<notin> set ts"
    using assms by (auto simp: synced_def tomb_ids_def)
  have stn: "list_all (storable E) ?new" using st keep_newest_suffix [of E "?es @ [?e]"] by (auto simp: list_all_iff)
  have enc: "encodeEntry E ?e = Inr (line E ?e)" using st storable_facts(3) [of E ?e] by (simp add: encodeEntry_Inr)
  show ?thesis
  proof (cases "length (line E ?e) > maxBytes")
    case True
    then show ?thesis using enc assms(1) by (intro atomic_same) (simp_all add: Append_def Let_def)
  next
    case False
    then have retain: "retainWithinLimits E (?es @ [?e]) = Inr (?new, int (total_bytes E ?new))"
      using retain_succeeds [OF storable_encodable [OF st]] by simp
    have fit: "fits E ?new" using retain_spec(2) [OF retain] .
    show ?thesis
    proof (cases "fits E (?es @ [?e])")
      case True
      then have new: "?new = ?es @ [?e]" by (rule keep_newest_fits)
      let ?j = "(append_file (length (line E ?e)) (line E ?e) j)\<lparr>jn_entries := ?es @ [?e], jn_bytes := jn_bytes j + int (length (line E ?e))\<rparr>"
      have A: "Append E io e0 j = (if io_append io = Append_fail then (j, Some Err_append) else (?j, None))"
        using enc retain False True assms(3) unfolding new by (auto simp: Append_def Let_def fits_def)
      have "synced E ?j"
        using st True assms(1) ts by (intro synced_disk [of _ _ ts]) (auto simp: appended_def synced_def)
      moreover have "\<forall>d \<in> set (map (\<lambda>i. appended ?d (take i (line E ?e))) [0..<Suc (length (line E ?e))]).
          recovers E d ?es \<or> recovers E d (?es @ [?e])"
        using torn_recovers [OF assms(1) _ _ True] assms(2) by (auto simp del: upt_Suc)
      ultimately have "atomic E (J_Append e0) j (?j, None)" unfolding atomic_def by (simp add: new del: upt_Suc)
      then show ?thesis using A assms(1) atomic_same [of E j "(j, Some Err_append)" "J_Append e0"] by simp
    next
      case False
      have "?new \<noteq> ?es @ [?e]" using False fit by metis
      then have "length ?new \<noteq> length (?es @ [?e]) \<or> length (?es @ [?e]) > maxItems \<or> int (total_bytes E ?new) > int maxBytes"
        using keep_newest_shorter by blast
      then have A: "Append E io e0 j = compactEntriesLocked E (io_compact io) ?new j"
        using enc retain \<open>\<not> length (line E ?e) > maxBytes\<close> by (auto simp: Append_def Let_def)
      let ?d' = "?d\<lparr>jd_journal := Some (concat (map (line E) ?new))\<rparr>"
      let ?j = "(set_disk ?d' j)\<lparr>jn_entries := ?new, jn_bytes := int (total_bytes E ?new)\<rparr>"
      have dis: "\<forall>e \<in> set ?new. en_ID e \<notin> set ts" using ts(3) keep_newest_suffix [of E "?es @ [?e]"] by auto
      have "synced E ?j" using stn fit ts dis by (intro synced_disk [of _ _ ts]) auto
      moreover have "recovers E ?d' ?new"
        using recovers_clean [OF stn fit, of ?d' ts] ts dis by (simp add: filter_id_conv)
      ultimately have "atomic E (J_Append e0) j (?j, None)" by (simp add: atomic_def)
      then show ?thesis
        using A compact_storable [OF stn, of "io_compact io" j] assms(1,3) atomic_same [of E j "(j, Some Err_replace)" "J_Append e0"]
        by (cases "io_compact io") (auto simp: Let_def)
    qed
  qed
qed

text \<open>The three writes of a removal.\<close>

lemma remove_atomic:
  assumes "synced E j" and prev: "loadTombstones True (jn_disk j) = Inr prev" "id_bytes prev \<le> maxBytes"
    and ts: "list_all id_ok ts" "id_bytes ts \<le> maxBytes"
    and new: "op_spec E p (jn_entries j) = filter (\<lambda>e. en_ID e \<notin> set ts) (jn_entries j)"
    and io: "io_prepare io \<noteq> Io_late" "io_compact io \<noteq> Io_late" "io_compact io = Io_fail \<longrightarrow> io_restore io \<noteq> Io_fail"
  shows "atomic E p j (remove_entries E io prev ts (op_spec E p (jn_entries j)) j)"
proof -
  let ?es = "jn_entries j" and ?d = "jn_disk j"
  let ?new = "filter (\<lambda>e. en_ID e \<notin> set ts) ?es"
  have st: "list_all (storable E) ?es" "list_all (storable E) ?new" and fit: "fits E ?es" "fits E ?new"
    and okp: "list_all id_ok prev" and dis: "\<forall>e \<in> set ?es. en_ID e \<notin> set prev"
    and fl: "jd_journal ?d = Some (concat (map (line E) ?es)) \<or> ?es = [] \<and> jd_journal ?d = None"
    using assms(1) prev(1) by (auto simp: synced_def fits_filter list_all_iff)
  define d1 where "d1 = ?d\<lparr>jd_tombstones := tombstone_file ts\<rparr>"
  define d2 where "d2 = d1\<lparr>jd_journal := Some (concat (map (line E) ?new))\<rparr>"
  define d3 where "d3 = d2\<lparr>jd_tombstones := tombstone_file prev\<rparr>"
  define d4 where "d4 = d1\<lparr>jd_tombstones := tombstone_file prev\<rparr>"
  obtain ts1 where l1: "loadTombstones True d1 = Inr ts1" "set ts1 = set ts"
    using load_tombstone_file [OF ts, of d1] by (auto simp: d1_def)
  then have l2: "loadTombstones True d2 = Inr ts1" by (simp add: d2_def)
  obtain ts3 where l3: "loadTombstones True d3 = Inr ts3" "set ts3 = set prev"
    using load_tombstone_file [OF okp prev(2), of d3] by (auto simp: d3_def)
  obtain ts4 where l4: "loadTombstones True d4 = Inr ts4" "set ts4 = set prev"
    using load_tombstone_file [OF okp prev(2), of d4] by (auto simp: d4_def)
  have keep: "filter (\<lambda>e. en_ID e \<notin> set prev) ?new = ?new" using dis by (auto simp: filter_id_conv simp del: filter_filter)
  have r1: "recovers E d1 ?new" using recovers_clean [OF st(1) fit(1) l1(1)] fl l1(2) by (auto simp: d1_def)
  have r2: "recovers E d2 ?new" using recovers_clean [OF st(2) fit(2) l2] l1(2) by (simp add: d2_def)
  have r3: "recovers E d3 ?new"
    using recovers_clean [OF st(2) fit(2) l3(1)] l3(2) keep by (simp add: d3_def d2_def del: filter_filter)
  have r4: "recovers E d4 ?es"
    using recovers_clean [OF st(1) fit(1) l4(1)] l4(2) dis fl by (auto simp: d4_def d1_def filter_id_conv)
  have s2: "synced E k" if "jn_entries k = ?new" "jn_bytes k = int (total_bytes E ?new)" "jn_disk k = d2 \<or> jn_disk k = d3" for k
    using that st(2) fit(2) l2 l1(2) l3 dis ts(1) okp by (auto simp: synced_def d2_def d3_def list_all_iff)
  have s4: "synced E k" if "jn_entries k = ?es" "jn_bytes k = jn_bytes j" "jn_disk k = d4" for k
    using that assms(1) l4 dis okp fl by (auto simp: synced_def d4_def d1_def list_all_iff)
  have fst: "fst (writeTombstonesLocked r tt k)
      = (if r = Io_fail then k else set_disk ((jn_disk k)\<lparr>jd_tombstones := tombstone_file tt\<rparr>) k)" for r tt and k :: "'a Journal"
    by (cases r) (simp_all add: writeTombstonesLocked_def)
  show ?thesis unfolding new
  proof (cases "io_prepare io")
    case Io_ok
    let ?j1 = "set_disk d1 j"
    have w1: "writeTombstonesLocked Io_ok ts j = (?j1, None)" by (simp add: writeTombstonesLocked_def d1_def)
    show "atomic E p j (remove_entries E io prev ts ?new j)"
    proof (cases "io_compact io")
      case Io_ok
      let ?j2 = "(set_disk d2 ?j1)\<lparr>jn_entries := ?new, jn_bytes := int (total_bytes E ?new)\<rparr>"
      have "compactEntriesLocked E (io_compact io) ?new ?j1 = (?j2, None)"
        by (simp add: compact_storable [OF st(2)] Io_ok Let_def d2_def)
      then have "remove_entries E io prev ts ?new j = ((if io_restore io = Io_fail then ?j2 else set_disk d3 ?j2), None)"
        using w1 \<open>io_prepare io = Io_ok\<close> by (simp add: remove_entries_def fst d3_def)
      then show ?thesis using s2 r1 r2 r3 by (simp add: atomic_def new)
    next
      case Io_fail
      then have "compactEntriesLocked E (io_compact io) ?new ?j1 = (?j1, Some Err_replace)"
        by (simp add: compact_storable [OF st(2)] Let_def)
      then have "\<exists>err. remove_entries E io prev ts ?new j = (set_disk d4 ?j1, Some err)"
        using w1 io(3) Io_fail \<open>io_prepare io = Io_ok\<close>
        by (cases "io_restore io") (auto simp: remove_entries_def writeTombstonesLocked_def d4_def)
      then show ?thesis using s4 r1 r4 by (auto simp: atomic_def new)
    qed (use io in simp)
  next
    case Io_fail
    then show "atomic E p j (remove_entries E io prev ts ?new j)"
      using assms(1) by (intro atomic_same) (simp_all add: remove_entries_def writeTombstonesLocked_def)
  qed (use io in simp)
qed

lemma id_bytes_simps [simp]: "id_bytes [] = 0" "id_bytes (i # ids) = Suc (length i) + id_bytes ids"
  by (simp_all add: id_bytes_def)

lemma clear_tombstones:
  "\<forall>e \<in> set es. en_ID e \<noteq> [] \<Longrightarrow>
   set (foldl (\<lambda>ts e. if en_ID e \<noteq> [] then List.insert (en_ID e) ts else ts) acc es) = set acc \<union> en_ID ` set es
   \<and> id_bytes (foldl (\<lambda>ts e. if en_ID e \<noteq> [] then List.insert (en_ID e) ts else ts) acc es) \<le> id_bytes acc + id_bytes (map en_ID es)"
proof (induction es arbitrary: acc)
  case (Cons e es)
  have "id_bytes (List.insert (en_ID e) acc) \<le> Suc (length (en_ID e)) + id_bytes acc" by (simp add: List.insert_def)
  then show ?case using Cons.IH [of "List.insert (en_ID e) acc"] Cons.prems by (simp del: set_insert add: set_insert Un_commute)
qed simp

lemma op_atomic:
  assumes "synced E j" "op_ok E j p" "clean_io io p"
  shows "atomic E p j (run_op E io p j)"
proof -
  obtain prev where prev: "loadTombstones True (jn_disk j) = Inr prev" "list_all id_ok prev"
      "\<forall>e \<in> set (jn_entries j). en_ID e \<notin> set prev"
    and st: "\<forall>e \<in> set (jn_entries j). id_ok (en_ID e)"
    using assms(1) by (auto simp: synced_def list_all_iff storable_facts(4) [of E])
  have off: "loadTombstones False (jn_disk j) = Inl Err_tombstones_read" by (simp add: loadTombstones_def split: option.splits)
  show ?thesis
  proof (cases p)
    case (J_Append e)
    then show ?thesis using append_atomic assms by simp
  next
    case (J_Discard i)
    let ?ts = "List.insert i prev"
    show ?thesis
    proof (cases "list_ex (\<lambda>e. en_ID e = i) (jn_entries j)")
      case True
      then obtain e where e: "e \<in> set (jn_entries j)" "en_ID e = i" by (auto simp: list_ex_iff)
      have room: "id_bytes prev + id_bytes (map en_ID (jn_entries j)) \<le> maxBytes"
        using assms(2) J_Discard prev(1) by (simp add: tomb_ids_def)
      have "Suc (length i) \<le> id_bytes (map en_ID (jn_entries j))" using e id_bytes_member [of i "map en_ID (jn_entries j)"] by force
      then have "id_bytes ?ts \<le> maxBytes" using room by (simp add: List.insert_def)
      moreover have "list_all id_ok ?ts" using prev(2) st e by (auto simp: list_all_iff)
      moreover have "op_spec E p (jn_entries j) = filter (\<lambda>e. en_ID e \<notin> set ?ts) (jn_entries j)"
        using prev(3) by (auto simp: J_Discard intro: filter_cong)
      ultimately have "atomic E p j (remove_entries E io prev ?ts (op_spec E p (jn_entries j)) j)"
        using assms room J_Discard prev(1) by (intro remove_atomic) auto
      moreover have "i \<noteq> []" using st e by (auto simp: id_ok_def)
      ultimately show ?thesis
        using True prev(1) J_Discard off assms(1) atomic_same [of E j "(j, Some Err_tombstones_read)" p]
        by (cases "io_tombs io") (simp_all add: Discard_def)
    next
      case False
      then have "op_spec E p (jn_entries j) = jn_entries j" by (auto simp: J_Discard list_ex_iff filter_id_conv)
      then show ?thesis using False assms(1) by (intro atomic_same) (simp_all add: J_Discard Discard_def)
    qed
  next
    case J_Clear
    let ?ts = "foldl (\<lambda>ts e. if en_ID e \<noteq> [] then List.insert (en_ID e) ts else ts) prev (jn_entries j)"
    have room: "id_bytes prev + id_bytes (map en_ID (jn_entries j)) \<le> maxBytes"
      using assms(2) J_Clear prev(1) by (simp add: tomb_ids_def)
    have ts: "set ?ts = set prev \<union> en_ID ` set (jn_entries j)" "id_bytes ?ts \<le> maxBytes"
      using clear_tombstones [of "jn_entries j" prev] st room by (auto simp: id_ok_def)
    have "atomic E p j (remove_entries E io prev ?ts (op_spec E p (jn_entries j)) j)"
      using assms room J_Clear prev(1,2) ts st by (intro remove_atomic) (auto simp: list_all_iff)
    then show ?thesis
      using prev(1) J_Clear off assms(1) atomic_same [of E j "(j, Some Err_tombstones_read)" p]
      by (cases "io_tombs io") (simp_all add: Clear_def)
  qed
qed

section \<open>Runs\<close>

fun event_ok :: "'d journal_env \<Rightarrow> 'd Journal \<Rightarrow> 'd journal_event \<Rightarrow> bool" where
  "event_ok E j (J_Op io p) = (op_ok E j p \<and> clean_io io p)"
| "event_ok E j (J_Crash io p k) = (op_ok E j p \<and> clean_io io p)"

fun run_ok :: "'d journal_env \<Rightarrow> 'd Journal \<Rightarrow> 'd journal_event list \<Rightarrow> bool" where
  "run_ok E j [] = True"
| "run_ok E j (e # es) = (event_ok E j e \<and> run_ok E (fst (journal_step E j e)) es)"

lemma synced_trace [simp]: "synced E (j\<lparr>jn_trace := tr\<rparr>) = synced E j"
  by (simp add: synced_def)

lemma op_ok_trace [simp]: "op_ok E (j\<lparr>jn_trace := tr\<rparr>) p = op_ok E j p"
  by (cases p) simp_all

lemma crash_recovers:
  assumes "synced E j" "op_ok E j p" "clean_io io p" "d \<in> set (crash_points E io p j)"
  shows "recovers E d (jn_entries j) \<or> recovers E d (op_spec E p (jn_entries j))"
  using assms(4) op_atomic [of E "j\<lparr>jn_trace := []\<rparr>" p io] assms(1-3) synced_recovers [OF assms(1)]
  by (auto simp: crash_points_def atomic_def)

lemma step_synced:
  assumes "synced E j" "event_ok E j e"
  shows "synced E (fst (journal_step E j e))"
proof (cases e)
  case (J_Op io p)
  then show ?thesis using op_atomic [of E j p io] assms by (simp add: atomic_def)
next
  case (J_Crash io p k)
  let ?d = "let ds = crash_points E io p j in ds ! min k (length ds - 1)"
  have "crash_points E io p j \<noteq> []" by (simp add: crash_points_def)
  then have "?d \<in> set (crash_points E io p j)" unfolding Let_def by (intro nth_mem) (simp add: min_less_iff_disj)
  then obtain es where "recovers E ?d es" using crash_recovers [of E j p io ?d] assms J_Crash by auto
  then show ?thesis using open_recovers [of E ?d es] by (auto simp: J_Crash)
qed

lemma run_synced: "synced E j \<Longrightarrow> run_ok E j es \<Longrightarrow> synced E (fst (run_machine (journal_step E) j es))"
  by (induction es arbitrary: j) (auto simp: step_synced)

definition empty_disk :: journal_disk where
  "empty_disk = \<lparr>jd_journal = None, jd_tombstones = None\<rparr>"

lemma open_empty:
  assumes "OpenJournal E True io empty_disk = Inr j"
  shows "synced E j"
  using assms by (auto simp: OpenJournal_def load_def empty_disk_def loadTombstones_def synced_def split: if_splits)


text \<open>The disk is in step with memory. In the same runs each operation that returns no error has the effect of its
  specification and one that returns an error has none; and opening the files again gives exactly the entries in memory, left-over
  tombstones or not.\<close>

theorem journal_reopens:
  assumes "OpenJournal E True io0 empty_disk = Inr j0" "run_ok E j0 evs"
    and j: "j = fst (run_machine (journal_step E) j0 evs)"
  shows "(\<exists>j'. OpenJournal E True io_good (jn_disk j) = Inr j' \<and> jn_entries j' = jn_entries j \<and> jn_bytes j' = jn_bytes j)
    \<and> (\<forall>p io. op_ok E j p \<and> clean_io io p \<longrightarrow>
         jn_entries (fst (run_op E io p j)) = (if snd (run_op E io p j) = None then op_spec E p (jn_entries j) else jn_entries j))"
proof -
  have s: "synced E j" unfolding j using run_synced [OF open_empty [OF assms(1)] assms(2)] .
  obtain j' where "OpenJournal E True io_good (jn_disk j) = Inr j'" "jn_entries j' = jn_entries j" "synced E j'"
    using open_recovers [OF synced_recovers [OF s]] by blast
  then have "\<exists>j'. OpenJournal E True io_good (jn_disk j) = Inr j' \<and> jn_entries j' = jn_entries j \<and> jn_bytes j' = jn_bytes j"
    using s by (auto simp: synced_def)
  moreover have "jn_entries (fst (run_op E io p j)) = (if snd (run_op E io p j) = None then op_spec E p (jn_entries j) else jn_entries j)"
    if "op_ok E j p" "clean_io io p" for p io
    using op_atomic [OF s that] by (simp add: atomic_def)
  ultimately show ?thesis by blast
qed

section \<open>Limits whatever the disk does\<close>

definition mem_ok :: "'d journal_env \<Rightarrow> 'd Journal \<Rightarrow> bool" where
  "mem_ok E j \<longleftrightarrow> list_all (encodable E) (jn_entries j) \<and> fits E (jn_entries j) \<and> jn_bytes j = int (total_bytes E (jn_entries j))"

lemma mem_ok_compact:
  "mem_ok E j \<Longrightarrow> fits E es \<Longrightarrow> mem_ok E (fst (compactEntriesLocked E io es j))"
  by (cases io) (auto simp: compactEntriesLocked_def encode_all_Inr mem_ok_def total_bytes_def comp_def Let_def split: sum.splits)

lemma mem_ok_tombs: "mem_ok E j \<Longrightarrow> mem_ok E (fst (writeTombstonesLocked io ts j))"
  by (cases io) (auto simp: writeTombstonesLocked_def mem_ok_def)

lemma mem_ok_remove:
  assumes "mem_ok E j" "fits E es"
  shows "mem_ok E (fst (remove_entries E io prev ts es j))"
proof -
  obtain j1 e1 where 1: "writeTombstonesLocked (io_prepare io) ts j = (j1, e1)" by fastforce
  obtain j2 e2 where 2: "compactEntriesLocked E (io_compact io) es j1 = (j2, e2)" by fastforce
  obtain j3 e3 where 3: "writeTombstonesLocked (io_restore io) prev j2 = (j3, e3)" by fastforce
  have "mem_ok E j1" using mem_ok_tombs [OF assms(1), of "io_prepare io" ts] 1 by simp
  moreover from this have "mem_ok E j2" using mem_ok_compact [OF _ assms(2), of j1 "io_compact io"] 2 by simp
  moreover from this have "mem_ok E j3" using mem_ok_tombs [of E j2 "io_restore io" prev] 3 by simp
  ultimately show ?thesis by (simp add: remove_entries_def 1 2 3 split: option.splits)
qed

lemma mem_ok_append:
  assumes "mem_ok E j"
  shows "mem_ok E (fst (Append E io e0 j))"
proof (cases "retainWithinLimits E (jn_entries j @ [NormalizeEntry e0])")
  case (Inr rn)
  obtain r n where rn: "rn = (r, n)" by fastforce
  note spec = retain_spec [OF Inr [unfolded rn]]
  show ?thesis
  proof (cases "length r = length (jn_entries j @ [NormalizeEntry e0])")
    case True
    then have "r = jn_entries j @ [NormalizeEntry e0]" using keep_newest_shorter [of E] spec(1) by metis
    then show ?thesis using assms spec Inr mem_ok_compact [OF assms spec(2)]
      by (auto simp: Append_def Let_def rn mem_ok_def encodeEntry_Inr split: sum.splits append_result.splits)
  next
    case False
    then show ?thesis using assms Inr mem_ok_compact [OF assms spec(2)]
      by (auto simp: Append_def Let_def rn split: sum.splits)
  qed
qed (use assms in \<open>auto simp: Append_def Let_def split: sum.splits\<close>)

lemma mem_ok_op: "mem_ok E j \<Longrightarrow> mem_ok E (fst (run_op E io p j))"
proof (cases p)
  case (J_Discard i)
  assume m: "mem_ok E j"
  then have "fits E (filter (\<lambda>e. en_ID e \<noteq> i) (jn_entries j))" by (simp add: mem_ok_def fits_filter)
  then show ?thesis using m mem_ok_remove [of E j] by (auto simp: J_Discard Discard_def Let_def split: sum.splits)
next
  case J_Clear
  assume m: "mem_ok E j"
  then show ?thesis using mem_ok_remove [of E j "[]"] by (auto simp: J_Clear Clear_def split: sum.splits)
qed (simp add: mem_ok_append)

lemma mem_ok_open:
  assumes "OpenJournal E dir io d = Inr j"
  shows "mem_ok E j"
proof -
  let ?j0 = "\<lparr>jn_entries = [], jn_bytes = 0, jn_disk = d, jn_trace = []\<rparr> :: 'a Journal"
  have base: "mem_ok E ?j0" by (simp add: mem_ok_def)
  have tomb: "mem_ok E k'" if "writeTombstonesLocked r ts k = (k', e)" "mem_ok E k" for r ts e and k k' :: "'a Journal"
    using mem_ok_tombs [OF that(2), of r ts] that(1) by simp
  have comp: "mem_ok E k'" if "compactLocked E r k = (k', e)" "mem_ok E k" for r e and k k' :: "'a Journal"
    using mem_ok_compact [of E k "jn_entries k" r] that by (simp add: compactLocked_def mem_ok_def)
  have ret: "mem_ok E (?j0\<lparr>jn_entries := r, jn_bytes := n\<rparr>)" if "retainWithinLimits E es = Inr (r, n)" for es r n
    using retain_spec [OF that] by (simp add: mem_ok_def)
  have ld: "load E io ?j0 = Inr j" using assms by (simp add: OpenJournal_def split: if_splits)
  show ?thesis
    using ld base unfolding load_def Let_def
    by (auto split: sum.splits option.splits if_splits prod.splits dest!: ret elim!: tomb comp)
qed

lemma mem_ok_step: "mem_ok E j \<Longrightarrow> mem_ok E (fst (journal_step E j e))"
  by (cases e) (auto simp: mem_ok_op Let_def split: sum.splits dest: mem_ok_open)

interpretation journal_memory: invariant_machine "journal_step E" "\<lambda>_. True" "mem_ok E"
  by unfold_locales (rule mem_ok_step)

text \<open>The limits hold. Whatever the files contained when the journal was opened and whatever fails on the disk afterwards, crashes included,
  there are at most 500 entries, their encoded lines together take at most 2 MiB, and the byte counter is exactly their
  length.\<close>

theorem journal_bounded:
  assumes "OpenJournal E dir io d = Inr j0" "j = fst (run_machine (journal_step E) j0 evs)"
  shows "length (jn_entries j) \<le> 500 \<and> jn_bytes j = int (sum_list (map (\<lambda>e. length (line E e)) (jn_entries j)))
    \<and> jn_bytes j \<le> 2097152 \<and> (\<forall>e \<in> set (jn_entries j). je_marshal E e \<noteq> None)"
  using journal_memory.run_inv [OF mem_ok_open [OF assms(1)], of evs] assms(2)
  by (auto simp: mem_ok_def fits_def total_bytes_def maxItems_def maxBytes_def list_all_iff encodable_def)


section \<open>Samples\<close>

text \<open>A JSON stand-in for entries that carry only an identifier.\<close>

definition sample_entry :: "string \<Rightarrow> nat entry" where
  "sample_entry i = \<lparr>en_ID = i, en_Timestamp = 0, en_Kind = [], en_Status = [], en_Summary = [], en_Host = [], en_PaneID = [],
     en_Agent = [], en_Project = [], en_RequestID = [], en_Extract = [], en_Session = [], en_Details = None\<rparr>"

definition sample_json :: "nat journal_env" where
  "sample_json = \<lparr>je_marshal = (\<lambda>e. Some (''{'' @ en_ID e @ ''}'')),
     je_unmarshal = (\<lambda>s. if length s \<ge> 2 \<and> hd s = CHR ''{'' \<and> last s = CHR ''}'' \<and> CHR ''{'' \<notin> set (tl s) \<and> CHR ''}'' \<notin> set (butlast s)
        then Some (sample_entry (butlast (tl s))) else None)\<rparr>"

definition sample_start :: "nat Journal" where
  "sample_start = \<lparr>jn_entries = [], jn_bytes = 0, jn_disk = empty_disk, jn_trace = []\<rparr>"

lemma sample_normal [simp]: "NormalizeEntry (sample_entry i) = sample_entry i"
  by (simp add: NormalizeEntry_def sample_entry_def rune_segments.simps [of "[]"])

lemma sample_ids: "id_ok ''a''" "id_ok ''b''"
  by (simp_all add: id_ok_def newline_def trim_space_def space_segment_def is_space_def rune_segments.simps Let_def byte_val_def)

lemma sample_storable: "storable sample_json (sample_entry ''a'')" "storable sample_json (sample_entry ''b'')"
  unfolding storable_def sample_normal
  by (simp_all add: sample_entry_def sample_ids, simp_all add: sample_json_def sample_entry_def newline_def)

definition sample_one :: "nat Journal" where
  "sample_one = \<lparr>jn_entries = [sample_entry ''a''], jn_bytes = 4,
     jn_disk = \<lparr>jd_journal = Some (''{a}'' @ [newline]), jd_tombstones = None\<rparr>,
     jn_trace = map (\<lambda>n. \<lparr>jd_journal = Some (take n (''{a}'' @ [newline])), jd_tombstones = None\<rparr>) [0, 1, 2, 3, 4]\<rparr>"

definition sample_torn :: journal_disk where
  "sample_torn = \<lparr>jd_journal = Some (''{a}'' @ [newline] @ ''{b''), jd_tombstones = None\<rparr>"

lemmas sample_eval = encodeEntry_def sample_json_def sample_entry_def retainWithinLimits_def maxItems_def maxBytes_def newline_def
  append_file_def appended_def set_disk_def Let_def upt_rec

lemma sample_run: "fst (journal_step sample_json sample_start (J_Op io_good (J_Append (sample_entry ''a'')))) = sample_one"
  unfolding journal_step.simps run_op.simps Append_def sample_normal
  by (simp add: sample_eval sample_start_def sample_one_def empty_disk_def)

lemma sample_crash: "sample_torn \<in> set (crash_points sample_json io_good (J_Append (sample_entry ''b'')) sample_one)"
  unfolding crash_points_def run_op.simps Append_def sample_normal
  by (simp add: sample_eval sample_one_def sample_torn_def)

lemma journal_sample_open: "OpenJournal sample_json True io_good empty_disk = Inr sample_start"
  by (simp add: OpenJournal_def load_def empty_disk_def sample_start_def load_no_tombstones)

lemma sample_ok:
  "run_ok sample_json sample_start [J_Op io_good (J_Append (sample_entry ''a''))]"
  "op_ok sample_json sample_one (J_Append (sample_entry ''b''))"
  by (simp_all add: sample_storable tomb_ids_def sample_start_def sample_one_def empty_disk_def load_no_tombstones)


theorem journal_reopens_witness:
  "OpenJournal sample_json True io_good empty_disk = Inr sample_start
   \<and> run_ok sample_json sample_start [J_Op io_good (J_Append (sample_entry ''a''))]
   \<and> (\<exists>j'. OpenJournal sample_json True io_good (jn_disk sample_one) = Inr j' \<and> jn_entries j' = jn_entries sample_one)"
  using journal_reopens [OF journal_sample_open sample_ok(1), of sample_one] journal_sample_open sample_ok sample_run by auto

theorem journal_bounded_witness:
  "OpenJournal sample_json True io_good empty_disk = Inr sample_start
   \<and> jn_bytes sample_one = int (sum_list (map (\<lambda>e. length (line sample_json e)) (jn_entries sample_one)))"
  using journal_bounded [OF journal_sample_open, of sample_one "[J_Op io_good (J_Append (sample_entry ''a''))]"] journal_sample_open sample_run by simp

text \<open>What happens without the restriction on failures. A write that stops early leaves its beginning in the file; the next append
  succeeds on the same line, and that entry is gone when the journal is opened again.\<close>

lemma torn_append_loses_next:
  "let j1 = fst (Append sample_json (io_good\<lparr>io_append := Append_short 2\<rparr>) (sample_entry ''a'') sample_start);
       (j2, err) = Append sample_json io_good (sample_entry ''b'') j1
   in err = None \<and> jn_entries j2 = [sample_entry ''b'']
      \<and> map_sum (\<lambda>_. ()) jn_entries (OpenJournal sample_json True io_good (jn_disk j2)) = Inr []"
  unfolding Append_def sample_normal
  by (simp add: sample_eval sample_start_def empty_disk_def OpenJournal_def load_def loadTombstones_def scan_tokens_def raw_lines_def
      compactLocked_def compactEntriesLocked_def)

text \<open>When the directory cannot be synced after the journal was replaced, the operation reports an error and keeps its entries in
  memory, but the file no longer has them.\<close>

lemma late_failure_diverges:
  "let (j, err) = Discard sample_json (io_good\<lparr>io_compact := Io_late\<rparr>) ''a'' sample_one
   in err = Some Err_replace \<and> jn_entries j = [sample_entry ''a''] \<and> jn_disk j = \<lparr>jd_journal = Some [], jd_tombstones = None\<rparr>"
  by (simp add: Discard_def remove_entries_def writeTombstonesLocked_def compactEntriesLocked_def sample_one_def loadTombstones_def
      tombstone_file_def set_disk_def sample_entry_def)

end
