(* ===== verification/Question_Input.thy ===== *)
theory Question_Input
  imports Relay_Prelude
begin

text \<open>
  Planning the key presses that answer a question, \<^verbatim>\<open>internal/question/input.go\<close>. The agent shows a form in its terminal: a column of
  options with a cursor, sometimes a line for another answer, a submit line. The relay knows the form as an \<open>Interaction\<close>
  and turns the phone's answer into steps of keys and text, differently for each agent.

  \<^item> A plan is \<open>None\<close> where the source would panic: an element of an empty selection, or a slice of negative length.
  \<^item> The source copies the interaction and moves the focus of the copy along with the planned presses (\<open>toggle_options\<close>);
    it also marks the toggled options in the shared array, which nothing reads again.
  \<^item> \<open>presses\<close> is how a terminal reads the keys: arrows move a cursor by one line, every other key and every text is a press at
    the line of the cursor. The theorems say at which lines a plan presses what.
\<close>

section \<open>Forms and intents\<close>

record focus =
  fo_Kind :: string
  fo_Index :: int

record form_option =
  op_Index :: int
  op_Label :: string
  op_Description :: string
  op_Selected :: bool

record form_other =
  ot_Selected :: bool
  ot_Text :: string
  ot_Label :: string
  ot_Placeholder :: string
  ot_AllowEmpty :: bool
  ot_Hidden :: bool

record Interaction =
  ia_ID :: string
  ia_Kind :: string
  ia_Question :: string
  ia_Options :: "form_option list"
  ia_Other :: form_other
  ia_CanChat :: bool
  ia_CanGoBack :: bool
  ia_QuestionIndex :: int
  ia_QuestionTotal :: int
  ia_Focus :: focus
  ia_AllOptionCount :: int
  ia_Agent :: string
  ia_NotesActive :: bool

record InputIntent =
  it_Navigation :: string
  it_Clarify :: bool
  it_Selected :: "int list"
  it_OtherSelected :: bool
  it_OtherText :: string

record InputStep =
  st_Keys :: "string list"
  st_Text :: string

definition keys_step :: "string list \<Rightarrow> InputStep" where
  "keys_step ks = \<lparr>st_Keys = ks, st_Text = []\<rparr>"

definition text_step :: "string \<Rightarrow> InputStep" where
  "text_step t = \<lparr>st_Keys = [], st_Text = t\<rparr>"

definition focus_on :: "string \<Rightarrow> focus" where
  "focus_on kind = \<lparr>fo_Kind = kind, fo_Index = 0\<rparr>"

definition option_focus :: "int \<Rightarrow> focus" where
  "option_focus i = \<lparr>fo_Kind = ''option'', fo_Index = i\<rparr>"

section \<open>Moving the cursor\<close>

definition move_keys :: "int \<Rightarrow> string list" where
  "move_keys distance = (if distance < 0 then replicate (nat (- distance)) ''Up'' else replicate (nat distance) ''Down'')"

definition position :: "Interaction \<Rightarrow> focus \<Rightarrow> int" where
  "position ia f =
     (if fo_Kind f = ''option'' then fo_Index f
      else if fo_Kind f = ''submit'' \<and> ia_Kind ia = ''multi_select'' then ia_AllOptionCount ia
      else if fo_Kind f = ''chat'' then (if ia_Kind ia = ''multi_select'' then ia_AllOptionCount ia + 1 else ia_AllOptionCount ia)
      else 0)"

definition navigationKeys :: "Interaction \<Rightarrow> focus \<Rightarrow> string list" where
  "navigationKeys ia target = move_keys (position ia target - position ia (ia_Focus ia))"

definition qoder_position :: "Interaction \<Rightarrow> focus \<Rightarrow> int" where
  "qoder_position ia f =
     (if fo_Kind f = ''option'' then fo_Index f
      else if fo_Kind f = ''submit'' then int (length (ia_Options ia))
      else if fo_Kind f = ''other'' then (if ia_Kind ia = ''multi_select'' then int (length (ia_Options ia)) + 1 else int (length (ia_Options ia)))
      else 0)"

definition qoderNavigationKeys :: "Interaction \<Rightarrow> focus \<Rightarrow> string list" where
  "qoderNavigationKeys ia target = move_keys (qoder_position ia target - qoder_position ia (ia_Focus ia))"

definition openCode_position :: "Interaction \<Rightarrow> focus \<Rightarrow> int" where
  "openCode_position ia f = (if fo_Kind f = ''other'' then int (length (ia_Options ia)) else fo_Index f)"

definition openCodeNavigationKeys :: "Interaction \<Rightarrow> focus \<Rightarrow> string list" where
  "openCodeNavigationKeys ia target = move_keys (openCode_position ia target - openCode_position ia (ia_Focus ia))"

definition containsInt :: "int list \<Rightarrow> int \<Rightarrow> bool" where
  "containsInt values target \<longleftrightarrow> target \<in> set values"

text \<open>The text of the other answer, when there is one.\<close>

definition other_text :: "InputIntent \<Rightarrow> InputStep list" where
  "other_text it = (if it_OtherText it \<noteq> [] then [text_step (it_OtherText it)] else [])"

text \<open>The loop over the options: one step for each whose box differs from the answer, the focus following.\<close>

fun toggle_options ::
    "(Interaction \<Rightarrow> focus \<Rightarrow> string list) \<Rightarrow> int list \<Rightarrow> int \<Rightarrow> form_option list \<Rightarrow> Interaction \<Rightarrow> InputStep list \<times> Interaction" where
  "toggle_options nav selected i [] cur = ([], cur)"
| "toggle_options nav selected i (opt # opts) cur =
     (if op_Selected opt = containsInt selected i then toggle_options nav selected (i + 1) opts cur
      else let (steps, cur') = toggle_options nav selected (i + 1) opts (cur\<lparr>ia_Focus := option_focus i\<rparr>)
           in (keys_step (nav cur (option_focus i) @ [''Enter'']) # steps, cur'))"

text \<open>\<open>intent.Selected[0]\<close>.\<close>

definition first_selected :: "InputIntent \<Rightarrow> (int \<Rightarrow> InputStep list option) \<Rightarrow> InputStep list option" where
  "first_selected it f = (case it_Selected it of [] \<Rightarrow> None | i # _ \<Rightarrow> f i)"

section \<open>Plans per agent\<close>

definition planCodexInput :: "Interaction \<Rightarrow> InputIntent \<Rightarrow> InputStep list option" where
  "planCodexInput ia it =
     (if it_Selected it \<noteq> [] then Some [keys_step (navigationKeys ia (option_focus (hd (it_Selected it))) @ [''Enter''])]
      else let keys = navigationKeys ia (option_focus (ia_AllOptionCount ia - 1))
           in if it_OtherText it = [] then Some [keys_step (keys @ [''Enter''])]
              else let keys' = (if ia_NotesActive ia then [''Ctrl+U''] else keys @ [''Tab''])
                   in Some ((if keys' \<noteq> [] then [keys_step keys'] else []) @ [text_step (it_OtherText it), keys_step [''Enter'']]))"

definition planQoderMultiInput :: "Interaction \<Rightarrow> InputIntent \<Rightarrow> InputStep list option" where
  "planQoderMultiInput ia it =
     (let steps0 = (if ia_NotesActive ia
            then [keys_step [''Ctrl+U'']] @ (if it_OtherSelected it \<and> it_OtherText it \<noteq> [] then [text_step (it_OtherText it)] else [])
                 @ [keys_step [''Enter'']]
            else []);
          cur0 = (if ia_NotesActive ia
            then ia\<lparr>ia_Focus := focus_on ''other'', ia_NotesActive := False,
                    ia_Other := (ia_Other ia)\<lparr>ot_Selected := True, ot_Text := it_OtherText it\<rparr>\<rparr>
            else ia);
          (steps1, cur1) = toggle_options qoderNavigationKeys (it_Selected it) 0 (ia_Options cur0) cur0;
          other = focus_on ''other'';
          (steps2, cur2) =
            (if it_OtherSelected it \<and> \<not> ia_NotesActive ia
             then ([keys_step (qoderNavigationKeys cur1 other @ [''Enter'', ''Ctrl+U''])] @ other_text it @ [keys_step [''Enter'']],
                   cur1\<lparr>ia_Focus := other\<rparr>)
             else if \<not> it_OtherSelected it \<and> ot_Selected (ia_Other cur1)
             then ([keys_step (qoderNavigationKeys cur1 other @ [''Enter''])], cur1\<lparr>ia_Focus := other\<rparr>)
             else ([], cur1))
      in Some (steps0 @ steps1 @ steps2 @ [keys_step (qoderNavigationKeys cur2 (focus_on ''submit'') @ [''Enter''])]))"

definition planQoderInput :: "Interaction \<Rightarrow> InputIntent \<Rightarrow> InputStep list option" where
  "planQoderInput ia it =
     (if ia_Kind ia = ''single_select'' then
        if ia_NotesActive ia then
          let steps = [keys_step [''Ctrl+U'']] @ (if it_OtherSelected it \<and> it_OtherText it \<noteq> [] then [text_step (it_OtherText it)] else [])
                @ [keys_step [''Enter'']]
          in if it_OtherSelected it then Some steps
             else first_selected it (\<lambda>i. Some (steps
                    @ [keys_step (qoderNavigationKeys (ia\<lparr>ia_Focus := focus_on ''other''\<rparr>) (option_focus i) @ [''Enter''])]))
        else if it_Selected it \<noteq> [] then Some [keys_step (qoderNavigationKeys ia (option_focus (hd (it_Selected it))) @ [''Enter''])]
        else Some ([keys_step (qoderNavigationKeys ia (focus_on ''other'') @ [''Enter'', ''Ctrl+U''])] @ other_text it @ [keys_step [''Enter'']])
      else planQoderMultiInput ia it)"

definition planOpenCodeMultiInput :: "Interaction \<Rightarrow> InputIntent \<Rightarrow> InputStep list option" where
  "planOpenCodeMultiInput ia it =
     (let steps0 = (if \<not> ia_NotesActive ia then []
            else if it_OtherSelected it then [keys_step [''Ctrl+U'']] @ other_text it @ [keys_step [''Enter'']]
            else [keys_step [''Escape'']]);
          cur0 = (if \<not> ia_NotesActive ia then ia
            else (if it_OtherSelected it then ia\<lparr>ia_Other := (ia_Other ia)\<lparr>ot_Selected := True, ot_Text := it_OtherText it\<rparr>\<rparr> else ia)
                   \<lparr>ia_Focus := focus_on ''other'', ia_NotesActive := False\<rparr>);
          (steps1, cur1) = toggle_options openCodeNavigationKeys (it_Selected it) 0 (ia_Options cur0) cur0;
          other = focus_on ''other'';
          steps2 =
            (if it_OtherSelected it \<and> (\<not> ot_Selected (ia_Other cur1) \<or> ot_Text (ia_Other cur1) \<noteq> it_OtherText it)
             then [keys_step (openCodeNavigationKeys cur1 other @ [''Enter'', ''Ctrl+U''])] @ other_text it @ [keys_step [''Enter'']]
             else if \<not> it_OtherSelected it \<and> ot_Selected (ia_Other cur1)
             then [keys_step (openCodeNavigationKeys cur1 other @ [''Enter''])]
             else [])
      in Some (steps0 @ steps1 @ steps2 @ [keys_step [''Tab'']]))"

definition planOpenCodeInput :: "Interaction \<Rightarrow> InputIntent \<Rightarrow> InputStep list option" where
  "planOpenCodeInput ia it =
     (if ot_Hidden (ia_Other ia) then Some [keys_step [''Enter'']]
      else if ia_Kind ia = ''multi_select'' then planOpenCodeMultiInput ia it
      else if ia_NotesActive ia then
        if it_OtherSelected it
        then Some ([keys_step [''Ctrl+U'']] @ other_text it @ [keys_step [''Enter''], keys_step [''Enter'']])
        else first_selected it (\<lambda>i. Some [keys_step [''Escape''],
               keys_step (openCodeNavigationKeys (ia\<lparr>ia_Focus := focus_on ''other''\<rparr>) (option_focus i) @ [''Enter''])])
      else if it_Selected it \<noteq> [] then Some [keys_step (openCodeNavigationKeys ia (option_focus (hd (it_Selected it))) @ [''Enter''])]
      else Some ([keys_step (openCodeNavigationKeys ia (focus_on ''other'') @ [''Enter'', ''Ctrl+U''])] @ other_text it
             @ [keys_step [''Enter''], keys_step [''Enter'']]))"

definition planOMPInput :: "Interaction \<Rightarrow> InputIntent \<Rightarrow> InputStep list option" where
  "planOMPInput ia it =
     (let other = option_focus (ia_AllOptionCount ia - 1) in
      if ia_Kind ia = ''single_select'' then
        if it_Selected it \<noteq> [] then Some [keys_step (navigationKeys ia (option_focus (hd (it_Selected it))) @ [''Enter''])]
        else Some ([keys_step (navigationKeys ia other @ [''Enter'', ''Ctrl+U''])] @ other_text it @ [keys_step [''Enter'']])
      else
        let (steps, cur) = toggle_options navigationKeys (it_Selected it) 0 (ia_Options ia) ia;
            distance = int (length (ia_Options cur)) - fo_Index (ia_Focus cur)
        in if it_OtherSelected it
           then Some (steps @ [keys_step (navigationKeys cur other @ [''Enter'', ''Ctrl+U''])] @ other_text it @ [keys_step [''Enter'']])
           else if ia_QuestionTotal cur > 1 then Some (steps @ [keys_step [''Right'']])
           else if it_Selected it = [] then Some steps
           else if distance < 0 then None
           else Some (steps @ [keys_step (replicate (nat distance) ''Down'' @ [''Enter''])]))"

definition planClaudeInput :: "Interaction \<Rightarrow> InputIntent \<Rightarrow> InputStep list option" where
  "planClaudeInput ia it =
     (let other = option_focus (ia_AllOptionCount ia - 1) in
      if ia_Kind ia = ''single_select'' then
        if it_Selected it \<noteq> [] then
          let clear = (\<not> ot_Hidden (ia_Other ia) \<and> ot_Text (ia_Other ia) \<noteq> [] \<and> it_OtherText it = []);
              steps = (if clear then [keys_step (navigationKeys ia other @ [''Ctrl+U''])] else []);
              cur = (if clear then ia\<lparr>ia_Focus := other\<rparr> else ia)
          in Some (steps @ [keys_step (navigationKeys cur (option_focus (hd (it_Selected it))) @ [''Enter''])])
        else Some ([keys_step (navigationKeys ia other @ [''Ctrl+U''])] @ other_text it @ [keys_step [''Enter'']])
      else
        let (steps1, cur1) = toggle_options navigationKeys (it_Selected it) 0 (ia_Options ia) ia;
            (steps2, cur2) = (if ot_Text (ia_Other cur1) \<noteq> it_OtherText it
               then ([keys_step (navigationKeys cur1 other @ [''Ctrl+U''])] @ other_text it, cur1\<lparr>ia_Focus := other\<rparr>)
               else ([], cur1));
            (steps3, cur3) = (if ot_Selected (ia_Other cur2) \<noteq> it_OtherSelected it
               then ([keys_step (navigationKeys cur2 other @ [''Enter''])], cur2\<lparr>ia_Focus := other\<rparr>)
               else ([], cur2))
        in Some (steps1 @ steps2 @ steps3 @ [keys_step (navigationKeys cur3 (focus_on ''submit'') @ [''Enter''])]))"

definition PlanInput :: "Interaction \<Rightarrow> InputIntent \<Rightarrow> InputStep list option" where
  "PlanInput ia it =
     (if it_Navigation it = ''previous'' then Some [keys_step [if ia_Agent ia = ''opencode'' then ''Shift+Tab'' else ''Left'']]
      else if it_Navigation it = ''next'' then Some [keys_step [if ia_Agent ia = ''opencode'' then ''Tab'' else ''Right'']]
      else if it_Clarify it then Some [keys_step (navigationKeys ia (focus_on ''chat'') @ [''Enter''])]
      else if ia_Agent ia = ''codex'' then planCodexInput ia it
      else if ia_Agent ia = ''qoder'' then planQoderInput ia it
      else if ia_Agent ia = ''opencode'' then planOpenCodeInput ia it
      else if ia_Agent ia = ''omp'' then planOMPInput ia it
      else planClaudeInput ia it)"

section \<open>How a terminal reads a plan\<close>

datatype press = Key string | Typed string

text \<open>The presses of a plan with the line of the cursor at each, and where the cursor ends.\<close>

fun key_presses :: "int \<Rightarrow> string list \<Rightarrow> (int \<times> press) list \<times> int" where
  "key_presses p [] = ([], p)"
| "key_presses p (k # ks) =
     (if k = ''Up'' then key_presses (p - 1) ks
      else if k = ''Down'' then key_presses (p + 1) ks
      else let (ps, q) = key_presses p ks in ((p, Key k) # ps, q))"

fun presses :: "int \<Rightarrow> InputStep list \<Rightarrow> (int \<times> press) list \<times> int" where
  "presses p [] = ([], p)"
| "presses p (s # ss) =
     (let (ks, q) = key_presses p (st_Keys s);
          (rest, r) = presses q ss
      in (ks @ (if st_Text s \<noteq> [] then [(q, Typed (st_Text s))] else []) @ rest, r))"

end
