(* ===== verification/Answering.thy ===== *)
theory Answering
  imports Complex_Main Question_Input Scheduler Attention_State Go_Text
begin

text \<open>
  Answering an agent, \<^verbatim>\<open>internal/coordinator/approval.go\<close> and the parts of \<^verbatim>\<open>dispatch.go\<close> it uses: approvals, answers to questions, prompts and
  keys, each checked when the phone's command arrives, run later by the scheduler, and watched until the agent has moved on.

  \<^item> A command runs beside everything else, so the pane store and the outcome of each call may be different at each step:
    \<open>answer_env\<close> gives them by the number of the step. What reached the terminal is in \<open>an_sent\<close>, each key with the step at which it was
    sent.
  \<^item> An error is the list of what \<open>errors.Is\<close> and \<open>errors.As\<close> find in its chain (\<open>err_tag\<close>).
  \<^item> Reading the screen is I/O; \<open>question.Classify\<close> and \<open>question.Parse\<close>, which turn it into a classification with the focused row and into a
    form, are arguments, and so is the key of a question's custom answers. The phone's message is given as its fields.
  \<^item> A handler is split where it waits: what it decides on arrival (\<open>approval_admit\<close>, \<open>question_admit\<close>), what the scheduler runs
    (\<open>approval_effect\<close>, \<open>question_effect\<close>), one tick of the watcher.
\<close>

section \<open>Errors and results\<close>

datatype err_tag =
    PartiallyApplied | Refused | CreatedTargetUnknown | DispatchedUnknown | NotStarted | DeadlineExceeded | PaneReplaced | OtherFailure

type_synonym herdr_error = "err_tag list"

definition partiallyApplied :: "herdr_error \<Rightarrow> herdr_error" where
  "partiallyApplied e = DispatchedUnknown # PartiallyApplied # e"

definition ErrPaneReplaced_text :: string where "ErrPaneReplaced_text = ''pane session was replaced''"

definition result :: "string \<Rightarrow> string \<Rightarrow> string \<Rightarrow> bool \<Rightarrow> string \<Rightarrow> string \<Rightarrow> cmd_result" where
  "result requestID action paneID okay phase message =
     \<lparr>cr_RequestID = requestID, cr_Action = action, cr_OK = okay, cr_Phase = phase, cr_Error = message, cr_PaneID = paneID,
      cr_Data = [], cr_replayed = False\<rparr>"

definition fail :: "string \<Rightarrow> string \<Rightarrow> string \<Rightarrow> string \<Rightarrow> cmd_result" where
  "fail requestID action paneID message = result requestID action paneID False ''failed'' message"

definition failErr :: "string \<Rightarrow> string \<Rightarrow> string \<Rightarrow> herdr_error \<Rightarrow> cmd_result" where
  "failErr requestID action paneID err =
     (if PartiallyApplied \<in> set err
      then (result requestID action paneID False ''dispatched_unknown'' ''Part of the command already reached the agent; review it before retrying'')
             \<lparr>cr_Data := ''dispatched_unknown''\<rparr>
      else if Refused \<in> set err then result requestID action paneID False ''not_started'' ''Command was not sent; retry is safe''
      else if CreatedTargetUnknown \<in> set err
      then (result requestID action paneID False ''dispatched_unknown'' ''Herdr may have created an empty target; review Herdr before retrying'')
             \<lparr>cr_Data := ''dispatched_unknown''\<rparr>
      else if DispatchedUnknown \<in> set err
      then (result requestID action paneID False ''dispatched_unknown'' ''Command may have executed; review the agent before retrying'')
             \<lparr>cr_Data := ''dispatched_unknown''\<rparr>
      else if NotStarted \<in> set err \<or> DeadlineExceeded \<in> set err
      then result requestID action paneID False ''not_started'' ''Command was not sent; retry is safe''
      else result requestID action paneID False ''failed'' ''Command failed'')"

definition completed :: "string \<Rightarrow> string \<Rightarrow> string \<Rightarrow> cmd_result" where
  "completed requestID action paneID = result requestID action paneID True ''completed'' []"

definition accepted :: "string \<Rightarrow> string \<Rightarrow> string \<Rightarrow> cmd_result" where
  "accepted requestID action paneID = (completed requestID action paneID)\<lparr>cr_Phase := ''accepted''\<rparr>"

section \<open>Sending\<close>

record answer_env =
  ae_store :: "nat \<Rightarrow> pane_store"
  ae_send :: "nat \<Rightarrow> herdr_error option"
  ae_wait :: "nat \<Rightarrow> herdr_error option"
  ae_read :: "herdr_error + string"
  ae_classify :: "string \<Rightarrow> string \<Rightarrow> classification \<times> int"
  ae_parse :: "string \<Rightarrow> string \<Rightarrow> Interaction option"

record answer_run =
  an_tick :: nat
  an_sent :: "(nat \<times> press) list"
  an_custom :: "(string \<times> string \<times> string) list"

definition new_run :: answer_run where
  "new_run = \<lparr>an_tick = 0, an_sent = [], an_custom = []\<rparr>"

definition paneSessionError :: "worker_token \<Rightarrow> pane_store \<Rightarrow> herdr_error option" where
  "paneSessionError token s =
     (let (generation, active) = PaneSession s (wt_PaneID token)
      in if generation mod 2 ^ 64 \<noteq> int (wt_Generation token) \<or> \<not> active \<and> \<not> wt_AllowAbsent token then Some [PaneReplaced] else None)"

definition paneSessionCurrent :: "worker_token \<Rightarrow> string \<Rightarrow> string \<Rightarrow> pane_store \<Rightarrow> cmd_result option" where
  "paneSessionCurrent token requestID action s =
     (if paneSessionError token s = None then None else Some (fail requestID action (wt_PaneID token) ErrPaneReplaced_text))"

text \<open>One call of \<open>SendKeys\<close> or \<open>SendText\<close>.\<close>

definition send :: "answer_env \<Rightarrow> press list \<Rightarrow> answer_run \<Rightarrow> answer_run \<times> herdr_error option" where
  "send E ps r =
     (case ae_send E (an_tick r) of
        None \<Rightarrow> (r\<lparr>an_sent := an_sent r @ map (\<lambda>p. (an_tick r, p)) ps, an_tick := Suc (an_tick r)\<rparr>, None)
      | Some e \<Rightarrow> (r\<lparr>an_tick := Suc (an_tick r)\<rparr>, Some e))"

fun send_keys :: "answer_env \<Rightarrow> worker_token \<Rightarrow> bool \<Rightarrow> string list \<Rightarrow> answer_run \<Rightarrow> answer_run \<times> herdr_error option" where
  "send_keys E token later [] r = (r, None)"
| "send_keys E token later (k # ks) r =
     (case paneSessionError token (ae_store E (an_tick r)) of
        Some e \<Rightarrow> (r, Some (if later then partiallyApplied e else e))
      | None \<Rightarrow>
          (case send E [Key k] r of
             (r1, Some e) \<Rightarrow> (r1, Some (if later then partiallyApplied e else e))
           | (r1, None) \<Rightarrow>
               (case (if ks \<noteq> [] then ae_wait E (an_tick r1) else None) of
                  Some e \<Rightarrow> (r1, Some (partiallyApplied e))
                | None \<Rightarrow> send_keys E token True ks r1)))"

definition sendQuestionKeysForSession ::
    "answer_env \<Rightarrow> worker_token \<Rightarrow> string list \<Rightarrow> answer_run \<Rightarrow> answer_run \<times> herdr_error option" where
  "sendQuestionKeysForSession E token keys r = send_keys E token False keys r"

text \<open>The two closures of \<open>executeQuestion\<close> and its loop; the flag is \<open>dispatched\<close>.\<close>

definition execute_keys ::
    "answer_env \<Rightarrow> worker_token \<Rightarrow> string list \<Rightarrow> bool \<times> answer_run \<Rightarrow> (bool \<times> answer_run) \<times> herdr_error option" where
  "execute_keys E token ks dr =
     (case sendQuestionKeysForSession E token ks (snd dr) of
        (r1, None) \<Rightarrow> ((True, r1), None)
      | (r1, Some e) \<Rightarrow> ((fst dr, r1), Some (if fst dr then partiallyApplied e else e)))"

definition execute_text ::
    "answer_env \<Rightarrow> worker_token \<Rightarrow> string \<Rightarrow> bool \<times> answer_run \<Rightarrow> (bool \<times> answer_run) \<times> herdr_error option" where
  "execute_text E token t dr =
     (case paneSessionError token (ae_store E (an_tick (snd dr))) of
        Some e \<Rightarrow> (dr, Some e)
      | None \<Rightarrow>
          (case send E [Typed t] (snd dr) of
             (r1, None) \<Rightarrow> ((True, r1), None)
           | (r1, Some e) \<Rightarrow> ((fst dr, r1), Some (if fst dr then partiallyApplied e else e))))"

definition execute_step ::
    "answer_env \<Rightarrow> worker_token \<Rightarrow> InputStep \<Rightarrow> bool \<times> answer_run \<Rightarrow> (bool \<times> answer_run) \<times> herdr_error option" where
  "execute_step E token s dr =
     (case (if st_Keys s \<noteq> [] then execute_keys E token (st_Keys s) dr else (dr, None)) of
        (dr1, Some e) \<Rightarrow> (dr1, Some e)
      | (dr1, None) \<Rightarrow> if st_Text s \<noteq> [] then execute_text E token (st_Text s) dr1 else (dr1, None))"

fun execute_steps ::
    "answer_env \<Rightarrow> worker_token \<Rightarrow> InputStep list \<Rightarrow> bool \<times> answer_run \<Rightarrow> answer_run \<times> herdr_error option" where
  "execute_steps E token [] dr = (snd dr, None)"
| "execute_steps E token (s # ss) dr =
     (case execute_step E token s dr of
        (dr1, Some e) \<Rightarrow> (snd dr1, Some e)
      | (dr1, None) \<Rightarrow>
          (case (if ss \<noteq> [] then ae_wait E (an_tick (snd dr1)) else None) of
             Some e \<Rightarrow> (snd dr1, Some (partiallyApplied e))
           | None \<Rightarrow> execute_steps E token ss dr1))"

section \<open>Approvals\<close>

record approvalPayload =
  ap_EventID :: string
  ap_Index :: int
  ap_Total :: int

definition approvalKeys :: "int \<Rightarrow> int \<Rightarrow> string list" where
  "approvalKeys target current =
     (let distance = target - current
      in if distance < 0 then replicate (nat (- distance)) ''Up'' @ [''Enter''] else replicate (nat distance) ''Down'' @ [''Enter''])"

definition nul :: char where "nul = CHR 0x00"

definition approvalLedgerKey :: "string \<Rightarrow> string \<Rightarrow> string" where
  "approvalLedgerKey paneID eventID = ''approval'' @ nul # paneID @ nul # eventID"

text \<open>The answer of \<open>ReplayLedger\<close> with the result of an earlier run of the same operation, if there is one.\<close>

type_synonym replay = "cmd_result option \<times> bool \<times> sched_error option"

definition replay_answer :: "replay \<Rightarrow> string \<Rightarrow> string \<Rightarrow> string \<Rightarrow> string \<Rightarrow> cmd_result option" where
  "replay_answer rp requestID action paneID gone =
     (case rp of (res, found, err) \<Rightarrow>
        if err = None \<and> res \<noteq> None then map_option (\<lambda>x. x\<lparr>cr_RequestID := requestID\<rparr>) res
        else if err = None \<and> found then None
        else Some (fail requestID action paneID gone))"

text \<open>What is answered at once; \<open>None\<close> goes on to the scheduler.\<close>

definition approval_admit :: "pane_store \<Rightarrow> replay \<Rightarrow> string \<Rightarrow> string \<Rightarrow> approvalPayload \<Rightarrow> cmd_result option" where
  "approval_admit s rp requestID paneID payload =
     (let waiting = (case Agent s paneID of Some agent \<Rightarrow> if as_Status agent = ''blocked'' then Some (as_blocked agent) else None | None \<Rightarrow> None)
      in if paneID = [] \<or> ap_EventID payload = [] then Some (fail requestID ''approval'' paneID ''Agent and approval event are required'')
         else if ap_Total payload < 2 \<or> ap_Total payload > 20 \<or> ap_Index payload < 0 \<or> ap_Index payload \<ge> ap_Total payload
         then Some (fail requestID ''approval'' paneID ''Approval choice is no longer available'')
         else case waiting of
           Some d \<Rightarrow>
             if bd_BlockedEventID d = [] \<or> bd_BlockedEventID d \<noteq> ap_EventID payload
             then Some (fail requestID ''approval'' paneID ''This approval request is no longer current'')
             else if bd_AttentionKind d \<noteq> AttentionApproval \<or> int (length (bd_Options d)) \<noteq> ap_Total payload
             then Some (fail requestID ''approval'' paneID ''Approval choices are no longer available'')
             else None
         | None \<Rightarrow>
             if snd (snd rp) = Some ErrConflict then Some (fail requestID ''approval'' paneID ''A different response was already submitted'')
             else replay_answer rp requestID ''approval'' paneID ''Agent is no longer waiting for approval'')"

definition approval_current :: "pane_store \<Rightarrow> string \<Rightarrow> approvalPayload \<Rightarrow> bool" where
  "approval_current s paneID payload \<longleftrightarrow>
     (case Agent s paneID of
        None \<Rightarrow> False
      | Some agent \<Rightarrow> as_Status agent = ''blocked'' \<and> bd_BlockedEventID (as_blocked agent) \<noteq> []
          \<and> bd_BlockedEventID (as_blocked agent) = ap_EventID payload
          \<and> bd_AttentionKind (as_blocked agent) = AttentionApproval \<and> int (length (bd_Options (as_blocked agent))) = ap_Total payload)"

text \<open>What the scheduler runs. The store is read at step 0, the session checked again at step 1.\<close>

definition approval_effect ::
    "answer_env \<Rightarrow> worker_token \<Rightarrow> string \<Rightarrow> string \<Rightarrow> approvalPayload \<Rightarrow> answer_run \<times> cmd_result" where
  "approval_effect E token requestID paneID payload =
     (let r = new_run; s = ae_store E 0 in
      if \<not> approval_current s paneID payload then (r, fail requestID ''approval'' paneID ''This approval request is no longer current'')
      else case ae_read E of
        Inl err \<Rightarrow> (r, failErr requestID ''approval'' paneID err)
      | Inr content \<Rightarrow>
          (let (c, focus) = ae_classify E content (case Agent s paneID of Some agent \<Rightarrow> as_Agent agent | None \<Rightarrow> [])
           in if cl_Kind c \<noteq> AttentionApproval \<or> int (length (cl_Options c)) \<noteq> ap_Total payload \<or> ap_Index payload \<ge> int (length (cl_Options c))
              then (r, fail requestID ''approval'' paneID ''Approval choices are no longer available'')
              else case paneSessionCurrent token requestID ''approval'' (ae_store E 1) of
                Some stale \<Rightarrow> (r, stale)
              | None \<Rightarrow>
                  (case sendQuestionKeysForSession E token (approvalKeys (ap_Index payload) focus) (r\<lparr>an_tick := 1\<rparr>) of
                     (r1, Some err) \<Rightarrow> (r1, failErr requestID ''approval'' paneID err)
                   | (r1, None) \<Rightarrow> (r1, accepted requestID ''approval'' paneID))))"

datatype watch = Watch_stop | Watch_on | Watch_result cmd_result

definition phase_result :: "string \<Rightarrow> string \<Rightarrow> string \<Rightarrow> string \<Rightarrow> cmd_result" where
  "phase_result requestID action paneID phase = result requestID action paneID (phase = ''confirmed'') phase []"

text \<open>One tick of the watcher; \<open>expired\<close> when its time is over.\<close>

definition watchApproval :: "bool \<Rightarrow> pane_store \<Rightarrow> nat \<Rightarrow> string \<Rightarrow> string \<Rightarrow> string \<Rightarrow> watch" where
  "watchApproval expired s generation requestID paneID eventID =
     (if expired then Watch_result (phase_result requestID ''approval'' paneID ''unconfirmed'')
      else if st_generation s paneID mod 2 ^ 64 \<noteq> int generation then Watch_stop
      else case Agent s paneID of
        None \<Rightarrow> Watch_result (phase_result requestID ''approval'' paneID ''confirmed'')
      | Some agent \<Rightarrow>
          if as_Status agent \<noteq> ''blocked'' \<or> bd_BlockedEventID (as_blocked agent) = [] \<or> bd_BlockedEventID (as_blocked agent) \<noteq> eventID
             \<or> bd_AttentionKind (as_blocked agent) \<noteq> AttentionApproval
          then Watch_result (phase_result requestID ''approval'' paneID ''confirmed'')
          else Watch_on)"

section \<open>Questions\<close>

record questionPayload =
  qp_InteractionID :: string
  qp_Selected :: "int list"
  qp_OtherSelected :: bool
  qp_OtherText :: string
  qp_Clarify :: bool
  qp_Navigation :: string

text \<open>\<open>selected_indices\<close> of the message: numbers as JSON decodes them (\<open>None\<close> for anything else), integers, or no array.\<close>

datatype raw_selection = Raw_values "rat option list" | Raw_ints "int list" | Raw_other

record question_message =
  qm_interaction_id :: string
  qm_other_text :: string
  qm_other_selected :: bool
  qm_selected_indices :: raw_selection
  qm_direction :: string

definition promptMaxChars :: nat where "promptMaxChars = 100000"

fun uniqueInts :: "int list \<Rightarrow> int list" where
  "uniqueInts (x # y # xs) = (if x = y then uniqueInts (x # xs) else x # uniqueInts (y # xs))"
| "uniqueInts xs = xs"

text \<open>A float is an index when it is integral, not negative and within 64 bits.\<close>

definition index_of :: "rat option \<Rightarrow> int option" where
  "index_of v = (case v of None \<Rightarrow> None | Some q \<Rightarrow> if q < 0 \<or> q \<noteq> of_int \<lfloor>q\<rfloor> \<or> q \<ge> 2 ^ 63 then None else Some \<lfloor>q\<rfloor>)"

definition raw_indices :: "raw_selection \<Rightarrow> int list option" where
  "raw_indices raw =
     (case raw of
        Raw_values vs \<Rightarrow> if list_all (\<lambda>v. index_of v \<noteq> None) vs then Some (map (\<lambda>v. the (index_of v)) vs) else None
      | Raw_ints xs \<Rightarrow> Some xs
      | Raw_other \<Rightarrow> None)"

definition decodeQuestionPayload :: "question_message \<Rightarrow> string + questionPayload" where
  "decodeQuestionPayload m =
     (if qm_interaction_id m = [] then Inl ''agent and question are required''
      else if length (utf8_runes (qm_other_text m)) > promptMaxChars then Inl ''other answer is longer than 100,000 characters''
      else case raw_indices (qm_selected_indices m) of
        None \<Rightarrow> Inl ''invalid question selection''
      | Some xs \<Rightarrow>
          (let selected = uniqueInts (sort xs) in
           if selected = [] \<and> qm_other_text m = [] \<and> \<not> qm_other_selected m then Inl ''choose an answer or enter an Other answer''
           else if qm_other_text m \<noteq> [] \<and> \<not> qm_other_selected m then Inl ''other text must be selected''
           else Inr \<lparr>qp_InteractionID = qm_interaction_id m, qp_Selected = selected, qp_OtherSelected = qm_other_selected m,
                     qp_OtherText = qm_other_text m, qp_Clarify = False, qp_Navigation = []\<rparr>))"

definition handleClarifyQuestion :: "question_message \<Rightarrow> string + questionPayload" where
  "handleClarifyQuestion m =
     (if qm_interaction_id m = [] then Inl ''Agent and question are required''
      else Inr \<lparr>qp_InteractionID = qm_interaction_id m, qp_Selected = [], qp_OtherSelected = False, qp_OtherText = [],
                qp_Clarify = True, qp_Navigation = []\<rparr>)"

definition handleNavigateQuestion :: "question_message \<Rightarrow> string + questionPayload" where
  "handleNavigateQuestion m =
     (if qm_direction m \<noteq> ''previous'' \<and> qm_direction m \<noteq> ''next'' then Inl ''Question navigation is no longer available''
      else if qm_interaction_id m = [] then Inl ''Question is required''
      else Inr \<lparr>qp_InteractionID = qm_interaction_id m, qp_Selected = [], qp_OtherSelected = False, qp_OtherText = [],
                qp_Clarify = False, qp_Navigation = qm_direction m\<rparr>)"

definition questionOperationLedgerKey :: "string \<Rightarrow> string \<Rightarrow> string \<Rightarrow> string \<Rightarrow> string" where
  "questionOperationLedgerKey action paneID interactionID requestID =
     (let kind = (if action = ''navigate_question'' then ''question-navigation''
                  else if action = ''clarify_question'' then ''question-clarification'' else ''question-answer'')
      in kind @ nul # paneID @ nul # interactionID @ nul # requestID)"

definition boolInt :: "bool \<Rightarrow> int" where
  "boolInt b = (if b then 1 else 0)"

definition validateQuestionPayload :: "questionPayload \<Rightarrow> Interaction \<Rightarrow> string option" where
  "validateQuestionPayload p ia =
     (if qp_Navigation p = ''previous'' \<and> \<not> ia_CanGoBack ia then Some ''there is no previous question to open''
      else if qp_Navigation p = ''next'' \<and> (ia_QuestionIndex ia = 0 \<or> ia_QuestionIndex ia \<ge> ia_QuestionTotal ia)
      then Some ''there is no next question to open''
      else if qp_Clarify p \<and> (\<not> ia_CanChat ia \<or> ia_Agent ia \<noteq> ''claude'') then Some ''this question can no longer be discussed''
      else if qp_Navigation p \<noteq> [] \<or> qp_Clarify p then None
      else if list_ex (\<lambda>i. i < 0 \<or> i \<ge> int (length (ia_Options ia))) (qp_Selected p) then Some ''question selection is no longer available''
      else let otherIsChoice = (qp_OtherSelected p \<and> (trim_space (qp_OtherText p) \<noteq> [] \<or> ot_AllowEmpty (ia_Other ia)))
           in if ot_Hidden (ia_Other ia) \<and> qp_OtherSelected p then Some ''this question does not accept a custom answer''
              else if ia_Kind ia = ''single_select'' \<and> int (length (qp_Selected p)) + boolInt otherIsChoice \<noteq> 1
              then Some ''choose one answer or enter an Other answer''
              else None)"

definition intent_of :: "questionPayload \<Rightarrow> InputIntent" where
  "intent_of p = \<lparr>it_Navigation = qp_Navigation p, it_Clarify = qp_Clarify p, it_Selected = qp_Selected p,
     it_OtherSelected = qp_OtherSelected p, it_OtherText = qp_OtherText p\<rparr>"

definition question_action :: "questionPayload \<Rightarrow> string" where
  "question_action p = (if qp_Navigation p \<noteq> [] then ''navigate_question'' else if qp_Clarify p then ''clarify_question'' else ''answer_question'')"

definition awaits_answer :: "pane_store \<Rightarrow> string \<Rightarrow> bool" where
  "awaits_answer s paneID \<longleftrightarrow> (case Agent s paneID of Some agent \<Rightarrow> as_Status agent = ''blocked'' \<or> as_Status agent = ''done'' | None \<Rightarrow> False)"

definition question_admit :: "pane_store \<Rightarrow> replay \<Rightarrow> string \<Rightarrow> string \<Rightarrow> questionPayload \<Rightarrow> cmd_result option" where
  "question_admit s rp requestID paneID p =
     (let action = question_action p in
      if paneID = [] then Some (fail requestID ''answer_question'' paneID ''Agent is required'')
      else if snd (snd rp) = Some ErrConflict then Some (fail requestID action paneID ''A different response was already submitted'')
      else if \<not> awaits_answer s paneID then replay_answer rp requestID action paneID ''Agent is no longer waiting for a question''
      else map_option (\<lambda>x. x\<lparr>cr_RequestID := requestID\<rparr>) (fst rp))"

text \<open>\<open>None\<close> where the plan panics.\<close>

definition executeQuestion ::
    "answer_env \<Rightarrow> worker_token \<Rightarrow> questionPayload \<Rightarrow> Interaction \<Rightarrow> answer_run \<Rightarrow> (answer_run \<times> herdr_error option) option" where
  "executeQuestion E token p ia r =
     (case PlanInput ia (intent_of p) of None \<Rightarrow> None | Some steps \<Rightarrow> Some (execute_steps E token steps (False, r)))"

definition question_effect ::
    "answer_env \<Rightarrow> worker_token \<Rightarrow> string \<Rightarrow> string \<Rightarrow> questionPayload \<Rightarrow> (answer_run \<times> cmd_result) option" where
  "question_effect E token requestID paneID p =
     (let r0 = new_run; s = ae_store E 0; action = question_action p;
          changed = fail requestID action paneID ''The question changed before the answer was applied'' in
      if \<not> awaits_answer s paneID then Some (r0, changed)
      else case ae_read E of
        Inl err \<Rightarrow> Some (r0, failErr requestID action paneID err)
      | Inr content \<Rightarrow>
          (case ae_parse E content (case Agent s paneID of Some agent \<Rightarrow> as_Agent agent | None \<Rightarrow> []) of
             None \<Rightarrow> Some (r0, changed)
           | Some ia \<Rightarrow>
               (let r = (if qp_OtherSelected p then r0\<lparr>an_custom := [(paneID, ia_Question ia, qp_OtherText p)]\<rparr> else r0) in
                if ia_ID ia \<noteq> qp_InteractionID p then Some (r, changed)
                else case validateQuestionPayload p ia of
                  Some err \<Rightarrow> Some (r, fail requestID action paneID err)
                | None \<Rightarrow>
                    (case paneSessionCurrent token requestID action (ae_store E 1) of
                       Some stale \<Rightarrow> Some (r, stale)
                     | None \<Rightarrow>
                         (case executeQuestion E token p ia (r\<lparr>an_tick := 1\<rparr>) of
                            None \<Rightarrow> None
                          | Some (r1, Some err) \<Rightarrow>
                              Some (r1, if PaneReplaced \<in> set err then fail requestID action paneID ErrPaneReplaced_text
                                        else failErr requestID action paneID err)
                          | Some (r1, None) \<Rightarrow> Some (r1, accepted requestID action paneID))))))"

definition interactionSnapshot :: "Interaction \<Rightarrow> string \<Rightarrow> Interaction option \<Rightarrow> Interaction" where
  "interactionSnapshot zero interactionID submitted =
     (case submitted of
        Some ia \<Rightarrow> if ia_ID ia = interactionID then ia else zero\<lparr>ia_ID := interactionID\<rparr>
      | None \<Rightarrow> zero\<lparr>ia_ID := interactionID\<rparr>)"

definition finish_result :: "string \<Rightarrow> string \<Rightarrow> string \<Rightarrow> Interaction \<Rightarrow> string \<Rightarrow> Interaction option \<Rightarrow> cmd_result" where
  "finish_result requestID action paneID original navigation current =
     (let unexpected = result requestID action paneID False ''failed'' ''The agent opened an unexpected question; the screen was refreshed'';
          expected = (if navigation = ''previous'' then ia_QuestionIndex original - 1 else ia_QuestionIndex original + 1)
      in if navigation \<noteq> [] then
           (case current of
              Some c \<Rightarrow> if expected > 0 \<and> ia_QuestionIndex c = expected then result requestID action paneID True ''navigated'' [] else unexpected
            | None \<Rightarrow> unexpected)
         else if action = ''answer_question'' then
           (case current of
              Some c \<Rightarrow> if ia_QuestionIndex original > 0 \<and> ia_QuestionIndex c = ia_QuestionIndex original + 1
                        then result requestID action paneID True ''advanced'' [] else unexpected
            | None \<Rightarrow> result requestID action paneID True ''confirmed'' [])
         else result requestID action paneID True ''confirmed'' [])"

text \<open>One tick of the watcher: the screen as it is read now (\<open>None\<close> when it cannot be read) and the form on it. Filling in the custom answers
  changes neither the id nor the index.\<close>

definition watchQuestion ::
    "bool \<Rightarrow> pane_store \<Rightarrow> Interaction option option \<Rightarrow> nat \<Rightarrow> string \<Rightarrow> string \<Rightarrow> string \<Rightarrow> Interaction \<Rightarrow> string \<Rightarrow> watch" where
  "watchQuestion expired s screen generation requestID action paneID original navigation =
     (if expired
      then Watch_result (result requestID action paneID False ''unconfirmed'' ''The agent still shows the same question; try again'')
      else if st_generation s paneID mod 2 ^ 64 \<noteq> int generation then Watch_stop
      else case Agent s paneID of
        None \<Rightarrow> Watch_result (finish_result requestID action paneID original navigation None)
      | Some agent \<Rightarrow>
          (case screen of
             None \<Rightarrow> Watch_on
           | Some current \<Rightarrow>
               (let expectsQuestion = (navigation \<noteq> [] \<or> action = ''answer_question'' \<and> ia_QuestionIndex original > 0
                        \<and> ia_QuestionIndex original < ia_QuestionTotal original);
                    kind = bd_AttentionKind (as_blocked agent)
                in if current = None \<and> expectsQuestion \<and> as_Status agent = ''blocked''
                      \<and> (kind = [] \<or> kind = AttentionUnknown \<or> kind = AttentionQuestion)
                   then Watch_on
                   else case current of
                     None \<Rightarrow> Watch_result (finish_result requestID action paneID original navigation None)
                   | Some c \<Rightarrow> if ia_ID c = ia_ID original then Watch_on
                               else Watch_result (finish_result requestID action paneID original navigation (Some c)))))"

section \<open>Prompts, keys and text\<close>

text \<open>\<open>isQoderAgent\<close> on names in lower case without surrounding space; \<open>Typed\<close> stands for \<open>Prompt\<close> and \<open>SendText\<close>.\<close>

definition isQoderAgent :: "(string \<Rightarrow> string) \<Rightarrow> string \<Rightarrow> bool" where
  "isQoderAgent ToLower agent \<longleftrightarrow> ToLower (trim_space agent) \<in> {''qoder'', ''qodercli''}"

definition prompt_admit :: "string \<Rightarrow> string \<Rightarrow> string \<Rightarrow> cmd_result option" where
  "prompt_admit requestID paneID txt =
     (if paneID = [] \<or> txt = [] then Some (fail requestID ''prompt'' paneID ''Text and agent are required'')
      else if length (utf8_runes txt) > promptMaxChars then Some (fail requestID ''prompt'' paneID ''Prompt is longer than 100,000 characters'')
      else None)"

definition prompt_effect :: "answer_env \<Rightarrow> worker_token \<Rightarrow> string \<Rightarrow> string \<Rightarrow> bool \<Rightarrow> string \<Rightarrow> answer_run \<times> cmd_result" where
  "prompt_effect E token requestID paneID requiresEnter txt =
     (case paneSessionCurrent token requestID ''prompt'' (ae_store E 0) of
        Some stale \<Rightarrow> (new_run, stale)
      | None \<Rightarrow>
          (case send E [Typed txt] new_run of
             (r1, Some e) \<Rightarrow> (r1, failErr requestID ''prompt'' paneID e)
           | (r1, None) \<Rightarrow>
               if \<not> requiresEnter then (r1, completed requestID ''prompt'' paneID)
               else (case paneSessionError token (ae_store E (an_tick r1)) of
                       Some e \<Rightarrow> (r1, failErr requestID ''prompt'' paneID (partiallyApplied e))
                     | None \<Rightarrow>
                         (case send E [Key ''Enter''] r1 of
                            (r2, Some e) \<Rightarrow> (r2, failErr requestID ''prompt'' paneID (partiallyApplied e))
                          | (r2, None) \<Rightarrow> (r2, completed requestID ''prompt'' paneID)))))"

text \<open>\<open>handleKeys\<close> and \<open>handleText\<close> send everything in one call.\<close>

definition single_effect :: "answer_env \<Rightarrow> worker_token \<Rightarrow> string \<Rightarrow> string \<Rightarrow> string \<Rightarrow> press list \<Rightarrow> answer_run \<times> cmd_result" where
  "single_effect E token requestID action paneID ps =
     (case paneSessionCurrent token requestID action (ae_store E 0) of
        Some stale \<Rightarrow> (new_run, stale)
      | None \<Rightarrow>
          (case send E ps new_run of
             (r1, Some e) \<Rightarrow> (r1, failErr requestID action paneID e)
           | (r1, None) \<Rightarrow> (r1, completed requestID action paneID)))"

end
