(* ===== verification/Question_Input_Props.thy ===== *)
theory Question_Input_Props
  imports Question_Input
begin

text \<open>
  What the planned key presses do. The locale \<open>cursor_form\<close> is what the three ways of counting lines have in common; its lemmas say
  where the presses of a navigation and of the loop over the options land. The theorems: on a form with check boxes a plan presses
  Enter exactly on the options that differ from the answer; on a form with one choice, exactly on the chosen one.
\<close>

section \<open>Presses of a plan\<close>

lemma key_presses_replicate [simp]:
  "key_presses p (replicate n ''Up'' @ ks) = key_presses (p - int n) ks"
  "key_presses p (replicate n ''Down'' @ ks) = key_presses (p + int n) ks"
  by (induction n arbitrary: p) (simp_all add: algebra_simps)

lemma key_presses_move [simp]: "key_presses p (move_keys d @ ks) = key_presses (p + d) ks"
  by (simp add: move_keys_def)

lemma presses_keys [simp]:
  "presses p (keys_step ks # ss)
     = (fst (key_presses p ks) @ fst (presses (snd (key_presses p ks)) ss), snd (presses (snd (key_presses p ks)) ss))"
  by (simp add: keys_step_def case_prod_beta Let_def)

lemma presses_text [simp]:
  "presses p (text_step t # ss) = ((if t \<noteq> [] then [(p, Typed t)] else []) @ fst (presses p ss), snd (presses p ss))"
  by (simp add: text_step_def case_prod_beta Let_def)

lemma presses_append:
  "presses p (xs @ ys) = (fst (presses p xs) @ fst (presses (snd (presses p xs)) ys), snd (presses (snd (presses p xs)) ys))"
  by (induction xs arbitrary: p) (simp_all add: case_prod_beta Let_def)

declare presses.simps(2) [simp del]

lemma presses_other:
  "presses p (other_text it) = ((if it_OtherText it \<noteq> [] then [(p, Typed (it_OtherText it))] else []), p)"
  by (simp add: other_text_def)

text \<open>The options whose box differs from the answer.\<close>

fun toggled :: "int list \<Rightarrow> int \<Rightarrow> form_option list \<Rightarrow> int list" where
  "toggled selected i [] = []"
| "toggled selected i (opt # opts) =
     (if op_Selected opt = containsInt selected i then toggled selected (i + 1) opts else i # toggled selected (i + 1) opts)"

definition enter :: "int \<Rightarrow> int \<times> press" where
  "enter i = (i, Key ''Enter'')"

lemma toggled_iff: "k \<in> set (toggled selected i opts) \<longleftrightarrow> (\<exists>n < length opts. k = i + int n \<and> op_Selected (opts ! n) \<noteq> (k \<in> set selected))"
proof (induction opts arbitrary: i)
  case (Cons opt opts)
  have "(\<exists>n < length (opt # opts). k = i + int n \<and> op_Selected ((opt # opts) ! n) \<noteq> (k \<in> set selected))
      \<longleftrightarrow> k = i \<and> op_Selected opt \<noteq> (k \<in> set selected) \<or> (\<exists>n < length opts. k = i + 1 + int n \<and> op_Selected (opts ! n) \<noteq> (k \<in> set selected))"
    by (auto simp: less_Suc_eq_0_disj)
  then show ?case using Cons.IH [of "i + 1"] by (auto simp: containsInt_def)
qed simp

lemma sorted_toggled: "sorted_wrt (<) (toggled selected i opts)"
proof (induction opts arbitrary: i)
  case (Cons opt opts)
  then show ?case by (auto simp: toggled_iff)
qed simp

locale cursor_form =
  fixes pos :: "Interaction \<Rightarrow> focus \<Rightarrow> int"
    and nav :: "Interaction \<Rightarrow> focus \<Rightarrow> string list"
  assumes nav: "nav ia f = move_keys (pos ia f - pos ia (ia_Focus ia))"
    and pos_focus: "pos (ia\<lparr>ia_Focus := g\<rparr>) f = pos ia f"
    and pos_option: "pos ia (option_focus i) = i"
begin

lemma nav_presses: "key_presses (pos ia (ia_Focus ia)) (nav ia f @ ks) = key_presses (pos ia f) ks"
  by (simp add: nav)

lemma toggle_presses:
  assumes "toggle_options nav selected i opts cur = (steps, cur')"
  shows "\<exists>f. cur' = cur\<lparr>ia_Focus := f\<rparr> \<and> presses (pos cur (ia_Focus cur)) steps = (map enter (toggled selected i opts), pos cur f)
    \<and> (f = ia_Focus cur \<or> f \<in> option_focus ` set (toggled selected i opts))"
  using assms
proof (induction opts arbitrary: i cur steps)
  case Nil
  then show ?case by (intro exI [of _ "ia_Focus cur"]) simp
next
  case (Cons opt opts)
  show ?case
  proof (cases "op_Selected opt = containsInt selected i")
    case True
    then show ?thesis using Cons by simp
  next
    case False
    let ?cur = "cur\<lparr>ia_Focus := option_focus i\<rparr>"
    obtain steps1 where t: "toggle_options nav selected (i + 1) opts ?cur = (steps1, cur')"
      and s: "steps = keys_step (nav cur (option_focus i) @ [''Enter'']) # steps1"
      using Cons.prems False by (auto split: prod.splits simp: Let_def)
    obtain f where f: "cur' = ?cur\<lparr>ia_Focus := f\<rparr>"
        "presses (pos ?cur (ia_Focus ?cur)) steps1 = (map enter (toggled selected (i + 1) opts), pos ?cur f)"
        "f = option_focus i \<or> f \<in> option_focus ` set (toggled selected (i + 1) opts)"
      using Cons.IH [OF t] by auto
    then show ?thesis using False
      by (intro exI [of _ f]) (auto simp: s nav_presses pos_focus pos_option enter_def)
  qed
qed

end

interpretation claude: cursor_form position navigationKeys
  by unfold_locales (simp_all add: navigationKeys_def position_def option_focus_def)

interpretation qoder: cursor_form qoder_position qoderNavigationKeys
  by unfold_locales (simp_all add: qoderNavigationKeys_def qoder_position_def option_focus_def)

interpretation opencode: cursor_form openCode_position openCodeNavigationKeys
  by unfold_locales (simp_all add: openCodeNavigationKeys_def openCode_position_def option_focus_def)

lemma position_notes [simp]:
  "qoder_position (ia\<lparr>ia_NotesActive := b\<rparr>) g = qoder_position ia g" "qoder_position (ia\<lparr>ia_Other := ot\<rparr>) g = qoder_position ia g"
  "openCode_position (ia\<lparr>ia_NotesActive := b\<rparr>) g = openCode_position ia g" "openCode_position (ia\<lparr>ia_Other := ot\<rparr>) g = openCode_position ia g"
  by (simp_all add: qoder_position_def openCode_position_def)

section \<open>Forms with check boxes\<close>

text \<open>Where the cursor is when the form is shown, by the agent's count of lines.\<close>

definition start_line :: "Interaction \<Rightarrow> int" where
  "start_line ia =
     (if ia_Agent ia = ''qoder'' then qoder_position ia (ia_Focus ia)
      else if ia_Agent ia = ''opencode'' then openCode_position ia (ia_Focus ia)
      else position ia (ia_Focus ia))"

abbreviation lines :: "Interaction \<Rightarrow> int" where
  "lines ia \<equiv> int (length (ia_Options ia))"

text \<open>What the parser guarantees of a form with check boxes: the line for another answer lies below the options, notes are edited
  on that line, and without such a line there is no other answer.\<close>

definition boxes_form :: "Interaction \<Rightarrow> InputIntent \<Rightarrow> bool" where
  "boxes_form ia it \<longleftrightarrow> ia_Kind ia = ''multi_select'' \<and> ia_Agent ia \<noteq> ''codex'' \<and> lines ia \<le> ia_AllOptionCount ia
     \<and> (if ot_Hidden (ia_Other ia) then ia_Agent ia \<noteq> ''opencode'' \<and> \<not> it_OtherSelected it \<and> it_OtherText it = []
           \<and> \<not> ot_Selected (ia_Other ia) \<and> ot_Text (ia_Other ia) = []
        else lines ia < ia_AllOptionCount ia)
     \<and> (ia_Agent ia \<in> {''qoder'', ''opencode''} \<and> ia_NotesActive ia \<longrightarrow> fo_Kind (ia_Focus ia) = ''other'')
     \<and> (ia_Agent ia = ''omp'' \<longrightarrow> fo_Kind (ia_Focus ia) = ''option'' \<and> fo_Index (ia_Focus ia) \<le> lines ia)"

text \<open>A press that belongs to the other answer or submits the form: never Enter or text on the line of an option.\<close>

definition off_options :: "Interaction \<Rightarrow> InputIntent \<Rightarrow> int \<times> press \<Rightarrow> bool" where
  "off_options ia it pk \<longleftrightarrow>
     (case snd pk of Typed t \<Rightarrow> t = it_OtherText it \<and> lines ia \<le> fst pk | Key k \<Rightarrow> k = ''Enter'' \<longrightarrow> lines ia \<le> fst pk)"

text \<open>The press that submits the answers.\<close>

definition submit_press :: "Interaction \<Rightarrow> InputIntent \<Rightarrow> int \<times> press \<Rightarrow> bool" where
  "submit_press ia it pk \<longleftrightarrow>
     (if ia_Agent ia = ''qoder'' then pk = enter (lines ia)
      else if ia_Agent ia = ''opencode'' then snd pk = Key ''Tab''
      else if ia_Agent ia = ''omp'' then
        (if it_OtherSelected it then pk = enter (ia_AllOptionCount ia - 1)
         else if ia_QuestionTotal ia > 1 then snd pk = Key ''Right'' else pk = enter (lines ia))
      else pk = enter (ia_AllOptionCount ia))"

text \<open>The shape of every plan on such a form.\<close>

definition boxes_plan :: "Interaction \<Rightarrow> InputIntent \<Rightarrow> InputStep list option \<Rightarrow> bool" where
  "boxes_plan ia it plan \<longleftrightarrow> (\<exists>steps pre post. plan = Some steps
     \<and> fst (presses (start_line ia) steps) = pre @ map enter (toggled (it_Selected it) 0 (ia_Options ia)) @ post
     \<and> list_all (off_options ia it) (pre @ post) \<and> post \<noteq> [] \<and> submit_press ia it (last post))"

lemma boxes_planI:
  assumes "plan = Some steps" "fst (presses (start_line ia) steps) = pre @ map enter (toggled (it_Selected it) 0 (ia_Options ia)) @ post"
    and "list_all (off_options ia it) pre" "list_all (off_options ia it) post" "post \<noteq> []" "submit_press ia it (last post)"
  shows "boxes_plan ia it plan"
  using assms by (auto simp: boxes_plan_def)

lemmas plan_simps = presses_append presses_other off_options_def submit_press_def enter_def start_line_def

lemma claude_boxes:
  assumes "boxes_form ia it" "ia_Agent ia \<notin> {''qoder'', ''opencode'', ''omp''}"
  shows "boxes_plan ia it (planClaudeInput ia it)"
proof -
  obtain s1 c1 where t: "toggle_options navigationKeys (it_Selected it) 0 (ia_Options ia) ia = (s1, c1)" by fastforce
  obtain f where f: "c1 = ia\<lparr>ia_Focus := f\<rparr>"
      "presses (position ia (ia_Focus ia)) s1 = (map enter (toggled (it_Selected it) 0 (ia_Options ia)), position ia f)"
    using claude.toggle_presses [OF t] by blast
  have k: "ia_Kind ia = ''multi_select''" using assms by (simp add: boxes_form_def)
  let ?o = "ia_AllOptionCount ia - 1"
  let ?text = "if ot_Text (ia_Other ia) \<noteq> it_OtherText it
      then (?o, Key ''Ctrl+U'') # (if it_OtherText it \<noteq> [] then [(?o, Typed (it_OtherText it))] else []) else []"
  let ?box = "if ot_Selected (ia_Other ia) \<noteq> it_OtherSelected it then [enter ?o] else []"
  have pos: "position ia (focus_on ''submit'') = ia_AllOptionCount ia" "position ia (option_focus i) = i" for i
    using k by (simp_all add: position_def focus_on_def option_focus_def)
  note nv = claude.nav claude.pos_focus
  have "\<exists>steps. planClaudeInput ia it = Some steps \<and> fst (presses (start_line ia) steps)
      = [] @ map enter (toggled (it_Selected it) 0 (ia_Options ia)) @ (?text @ ?box @ [enter (ia_AllOptionCount ia)])"
    using t f k assms(2)
    by (cases "ot_Text (ia_Other ia) = it_OtherText it"; cases "ot_Selected (ia_Other ia) = it_OtherSelected it")
      (simp_all add: planClaudeInput_def Let_def nv pos presses_append presses_other enter_def start_line_def)
  then obtain steps where st: "planClaudeInput ia it = Some steps"
      "fst (presses (start_line ia) steps)
        = [] @ map enter (toggled (it_Selected it) 0 (ia_Options ia)) @ (?text @ ?box @ [enter (ia_AllOptionCount ia)])" by blast
  show ?thesis using assms by (intro boxes_planI [OF st]) (auto simp: boxes_form_def plan_simps split: if_splits)
qed

lemma omp_boxes:
  assumes "boxes_form ia it" "ia_Agent ia = ''omp''" "it_Selected it \<noteq> [] \<or> it_OtherSelected it"
  shows "boxes_plan ia it (planOMPInput ia it)"
proof -
  obtain s1 c1 where t: "toggle_options navigationKeys (it_Selected it) 0 (ia_Options ia) ia = (s1, c1)" by fastforce
  obtain f where f: "c1 = ia\<lparr>ia_Focus := f\<rparr>"
      "presses (position ia (ia_Focus ia)) s1 = (map enter (toggled (it_Selected it) 0 (ia_Options ia)), position ia f)"
      "f = ia_Focus ia \<or> f \<in> option_focus ` set (toggled (it_Selected it) 0 (ia_Options ia))"
    using claude.toggle_presses [OF t] by blast
  have opt: "fo_Kind f = ''option''" "fo_Index f \<le> lines ia"
    using f(3) assms(1,2) by (auto simp: boxes_form_def option_focus_def toggled_iff)
  then have pf: "position ia f = fo_Index f" by (simp add: position_def)
  let ?o = "ia_AllOptionCount ia - 1"
  let ?post = "if it_OtherSelected it
      then [enter ?o, (?o, Key ''Ctrl+U'')] @ (if it_OtherText it \<noteq> [] then [(?o, Typed (it_OtherText it))] else []) @ [enter ?o]
      else if ia_QuestionTotal ia > 1 then [(fo_Index f, Key ''Right'')] else [enter (lines ia)]"
  note nv = claude.nav claude.pos_focus claude.pos_option
  have k: "ia_Kind ia \<noteq> ''single_select''" using assms(1) by (simp add: boxes_form_def)
  have "\<exists>steps. planOMPInput ia it = Some steps \<and> fst (presses (start_line ia) steps)
      = [] @ map enter (toggled (it_Selected it) 0 (ia_Options ia)) @ ?post"
    using t f(1,2) assms(2,3) k pf opt(2)
    by (cases "it_OtherSelected it"; cases "ia_QuestionTotal ia > 1")
      (simp_all add: planOMPInput_def Let_def nv presses_append presses_other enter_def start_line_def)
  then obtain steps where st: "planOMPInput ia it = Some steps"
    "fst (presses (start_line ia) steps) = [] @ map enter (toggled (it_Selected it) 0 (ia_Options ia)) @ ?post" by blast
  show ?thesis using assms by (intro boxes_planI [OF st]) (auto simp: boxes_form_def plan_simps split: if_splits)
qed

lemma qoder_boxes:
  assumes "boxes_form ia it" "ia_Agent ia = ''qoder''"
  shows "boxes_plan ia it (planQoderMultiInput ia it)"
proof -
  let ?n = "lines ia"
  let ?o = "?n + 1"
  let ?cur0 = "if ia_NotesActive ia
      then ia\<lparr>ia_Focus := focus_on ''other'', ia_NotesActive := False,
              ia_Other := (ia_Other ia)\<lparr>ot_Selected := True, ot_Text := it_OtherText it\<rparr>\<rparr>
      else ia"
  have k: "ia_Kind ia = ''multi_select''" using assms(1) by (simp add: boxes_form_def)
  have pos: "qoder_position ?cur0 g = qoder_position ia g" for g by (simp add: qoder_position_def)
  have start: "qoder_position ia (ia_Focus ?cur0) = start_line ia" "ia_NotesActive ia \<longrightarrow> start_line ia = ?o"
    using assms k by (auto simp: boxes_form_def start_line_def qoder_position_def focus_on_def)
  have at: "qoder_position ia (focus_on ''other'') = ?o" "qoder_position ia (focus_on ''submit'') = ?n"
    using k by (simp_all add: qoder_position_def focus_on_def)
  have opts: "ia_Options ?cur0 = ia_Options ia" by simp
  obtain s1 c1 where t: "toggle_options qoderNavigationKeys (it_Selected it) 0 (ia_Options ?cur0) ?cur0 = (s1, c1)" by fastforce
  obtain f where f: "c1 = ?cur0\<lparr>ia_Focus := f\<rparr>"
      "presses (start_line ia) s1 = (map enter (toggled (it_Selected it) 0 (ia_Options ia)), qoder_position ia f)"
    using qoder.toggle_presses [OF t] unfolding pos opts start(1) by blast
  let ?typed = "if it_OtherText it \<noteq> [] then [(?o, Typed (it_OtherText it))] else []"
  let ?pre = "if ia_NotesActive ia then (?o, Key ''Ctrl+U'') # (if it_OtherSelected it then ?typed else []) @ [enter ?o] else []"
  let ?post = "(if it_OtherSelected it \<and> \<not> ia_NotesActive ia then [enter ?o, (?o, Key ''Ctrl+U'')] @ ?typed @ [enter ?o]
       else if \<not> it_OtherSelected it \<and> (ia_NotesActive ia \<or> ot_Selected (ia_Other ia)) then [enter ?o] else []) @ [enter ?n]"
  note nv = qoder.nav qoder.pos_focus qoder.pos_option
  have "\<exists>steps. planQoderMultiInput ia it = Some steps \<and> fst (presses (start_line ia) steps)
      = ?pre @ map enter (toggled (it_Selected it) 0 (ia_Options ia)) @ ?post"
    using t f start(2)
    by (cases "ia_NotesActive ia"; cases "it_OtherSelected it"; cases "ot_Selected (ia_Other ia)"; cases "it_OtherText it = []")
      (simp_all add: planQoderMultiInput_def Let_def nv at presses_append presses_other enter_def)
  then obtain steps where st: "planQoderMultiInput ia it = Some steps"
    "fst (presses (start_line ia) steps) = ?pre @ map enter (toggled (it_Selected it) 0 (ia_Options ia)) @ ?post" by blast
  show ?thesis using assms by (intro boxes_planI [OF st]) (auto simp: plan_simps split: if_splits)
qed

lemma opencode_boxes:
  assumes "boxes_form ia it" "ia_Agent ia = ''opencode''"
  shows "boxes_plan ia it (planOpenCodeMultiInput ia it)"
proof -
  let ?o = "lines ia"
  let ?cur0 = "if \<not> ia_NotesActive ia then ia
      else (if it_OtherSelected it then ia\<lparr>ia_Other := (ia_Other ia)\<lparr>ot_Selected := True, ot_Text := it_OtherText it\<rparr>\<rparr> else ia)
             \<lparr>ia_Focus := focus_on ''other'', ia_NotesActive := False\<rparr>"
  have pos: "openCode_position ?cur0 g = openCode_position ia g" for g by (simp add: openCode_position_def)
  have start: "openCode_position ia (ia_Focus ?cur0) = start_line ia" "ia_NotesActive ia \<longrightarrow> start_line ia = ?o"
    using assms by (auto simp: boxes_form_def start_line_def openCode_position_def focus_on_def)
  have at: "openCode_position ia (focus_on ''other'') = ?o" by (simp add: openCode_position_def focus_on_def)
  have opts: "ia_Options ?cur0 = ia_Options ia" by simp
  obtain s1 c1 where t: "toggle_options openCodeNavigationKeys (it_Selected it) 0 (ia_Options ?cur0) ?cur0 = (s1, c1)" by fastforce
  obtain f where f: "c1 = ?cur0\<lparr>ia_Focus := f\<rparr>"
      "presses (start_line ia) s1 = (map enter (toggled (it_Selected it) 0 (ia_Options ia)), openCode_position ia f)"
    using opencode.toggle_presses [OF t] unfolding pos opts start(1) by blast
  let ?typed = "if it_OtherText it \<noteq> [] then [(?o, Typed (it_OtherText it))] else []"
  let ?pre = "if \<not> ia_NotesActive ia then [] else if it_OtherSelected it then (?o, Key ''Ctrl+U'') # ?typed @ [enter ?o] else [(?o, Key ''Escape'')]"
  let ?post = "(if it_OtherSelected it \<and> (\<not> ot_Selected (ia_Other c1) \<or> ot_Text (ia_Other c1) \<noteq> it_OtherText it)
         then [enter ?o, (?o, Key ''Ctrl+U'')] @ ?typed @ [enter ?o]
       else if \<not> it_OtherSelected it \<and> ot_Selected (ia_Other c1) then [enter ?o] else [])"
  note nv = opencode.nav opencode.pos_focus opencode.pos_option
  have "\<exists>steps q. planOpenCodeMultiInput ia it = Some steps \<and> fst (presses (start_line ia) steps)
      = ?pre @ map enter (toggled (it_Selected it) 0 (ia_Options ia)) @ (?post @ [(q, Key ''Tab'')])"
    using t f start(2)
    by (cases "ia_NotesActive ia"; cases "it_OtherSelected it"; cases "ot_Selected (ia_Other ia)"; cases "it_OtherText it = []";
        cases "ot_Text (ia_Other ia) = it_OtherText it")
      (simp_all add: planOpenCodeMultiInput_def Let_def nv at presses_append presses_other enter_def)
  then obtain steps q where st: "planOpenCodeMultiInput ia it = Some steps"
    "fst (presses (start_line ia) steps) = ?pre @ map enter (toggled (it_Selected it) 0 (ia_Options ia)) @ (?post @ [(q, Key ''Tab'')])"
    by blast
  show ?thesis using assms by (intro boxes_planI [OF st]) (auto simp: plan_simps split: if_splits)
qed

lemma plan_boxes:
  assumes "boxes_form ia it" "it_Navigation it = []" "\<not> it_Clarify it" "it_Selected it \<noteq> [] \<or> it_OtherSelected it"
  shows "boxes_plan ia it (PlanInput ia it)"
  using assms claude_boxes [OF assms(1)] omp_boxes [OF assms(1) _ assms(4)] qoder_boxes [OF assms(1)] opencode_boxes [OF assms(1)]
  by (auto simp: PlanInput_def planQoderInput_def planOpenCodeInput_def boxes_form_def split: if_splits)

definition option_presses :: "Interaction \<Rightarrow> (int \<times> press) list \<Rightarrow> (int \<times> press) list" where
  "option_presses ia ps = filter (\<lambda>(p, k). p < lines ia \<and> k = Key ''Enter'') ps"

lemma option_presses_off: "list_all (off_options ia it) ps \<Longrightarrow> option_presses ia ps = []"
  by (fastforce simp: option_presses_def off_options_def list_all_iff filter_empty_conv split: prod.splits press.splits)

lemma option_presses_enter: "\<forall>k \<in> set ks. k < lines ia \<Longrightarrow> option_presses ia (map enter ks) = map enter ks"
  by (auto simp: option_presses_def enter_def filter_id_conv)

lemma option_presses_append [simp]: "option_presses ia (xs @ ys) = option_presses ia xs @ option_presses ia ys"
  by (simp add: option_presses_def)


section \<open>Forms with one choice\<close>

definition choice_form :: "Interaction \<Rightarrow> InputIntent \<Rightarrow> int \<Rightarrow> bool" where
  "choice_form ia it i \<longleftrightarrow> ia_Kind ia = ''single_select'' \<and> it_Selected it = [i] \<and> 0 \<le> i \<and> i < lines ia \<and> \<not> it_OtherSelected it
     \<and> (ot_Hidden (ia_Other ia) \<longrightarrow> ia_Agent ia \<noteq> ''opencode'') \<and> (\<not> ot_Hidden (ia_Other ia) \<longrightarrow> lines ia < ia_AllOptionCount ia)
     \<and> (ia_Agent ia \<in> {''qoder'', ''opencode''} \<and> ia_NotesActive ia \<longrightarrow> fo_Kind (ia_Focus ia) = ''other'')"

text \<open>On a form with one choice every plan ends with Enter on the chosen option, presses no other option and types nothing.\<close>

lemma plan_choice:
  assumes "choice_form ia it i" "it_Navigation it = []" "\<not> it_Clarify it"
  shows "\<exists>steps ps. PlanInput ia it = Some steps \<and> ps = fst (presses (start_line ia) steps) \<and> ps \<noteq> [] \<and> last ps = enter i
    \<and> option_presses ia ps = [enter i] \<and> (\<forall>p t. (p, Typed t) \<notin> set ps)"
proof -
  have opt: "fo_Kind (option_focus i) = ''option''" "fo_Index (option_focus i) = i" by (simp_all add: option_focus_def)
  note nv = claude.nav claude.pos_focus claude.pos_option qoder.nav qoder.pos_focus opencode.nav opencode.pos_focus opt
  note plans = PlanInput_def planCodexInput_def planClaudeInput_def planOMPInput_def planQoderInput_def planOpenCodeInput_def
  show ?thesis
    using assms
    by (cases "ia_Agent ia = ''codex''"; cases "ia_Agent ia = ''qoder''"; cases "ia_Agent ia = ''opencode''"; cases "ia_Agent ia = ''omp''";
        cases "ia_NotesActive ia")
      (auto simp: choice_form_def plans nv Let_def first_selected_def start_line_def option_presses_def enter_def presses_append
        qoder_position_def openCode_position_def focus_on_def)
qed

section \<open>Samples\<close>

definition sample_option :: "bool \<Rightarrow> form_option" where
  "sample_option b = \<lparr>op_Index = 0, op_Label = [], op_Description = [], op_Selected = b\<rparr>"

definition sample_other :: form_other where
  "sample_other = \<lparr>ot_Selected = False, ot_Text = [], ot_Label = [], ot_Placeholder = [], ot_AllowEmpty = False, ot_Hidden = False\<rparr>"

definition sample_form :: "string \<Rightarrow> string \<Rightarrow> Interaction" where
  "sample_form kind agent = \<lparr>ia_ID = ''q'', ia_Kind = kind, ia_Question = [], ia_Options = map sample_option [True, False, False],
     ia_Other = sample_other, ia_CanChat = True, ia_CanGoBack = False, ia_QuestionIndex = 1, ia_QuestionTotal = 1,
     ia_Focus = option_focus 1, ia_AllOptionCount = 4, ia_Agent = agent, ia_NotesActive = False\<rparr>"

definition sample_answer :: "int list \<Rightarrow> InputIntent" where
  "sample_answer selected = \<lparr>it_Navigation = [], it_Clarify = False, it_Selected = selected, it_OtherSelected = False, it_OtherText = []\<rparr>"


text \<open>A form of \<^verbatim>\<open>omp\<close> whose cursor already stands on the line that ends the selection, and an answer that changes no box: the plan still moves down
  by the number of options before it presses Enter. The parser records such a focus with index 0.\<close>

lemma omp_submit_focus_overshoots:
  "PlanInput ((sample_form ''multi_select'' ''omp'')\<lparr>ia_Focus := focus_on ''submit''\<rparr>) (sample_answer [0])
     = Some [keys_step [''Down'', ''Down'', ''Down'', ''Enter'']]"
  by code_simp

text \<open>An answer that chooses an option and also has the empty other answer selected passes the validation of a single choice; while notes
  are being edited the plan ignores the chosen option and submits the empty note.\<close>

lemma notes_override_choice:
  "PlanInput ((sample_form ''single_select'' ''qoder'')\<lparr>ia_Focus := focus_on ''other'', ia_NotesActive := True\<rparr>)
     ((sample_answer [2])\<lparr>it_OtherSelected := True\<rparr>)
     = Some [keys_step [''Ctrl+U''], keys_step [''Enter'']]"
  by code_simp

end
