(* ===== verification/Answering_Props.thy ===== *)
theory Answering_Props
  imports Answering Question_Input_Props
begin

text \<open>
  Correctness of answering: keys reach a terminal only for the request they were meant for, in the planned order and only while the pane's
  session is the one the command was admitted for; what is reported never understates what was sent; and an accepted answer has
  pressed exactly what the phone chose.
\<close>

section \<open>What was delivered\<close>

text \<open>Between two runs the presses \<open>ps\<close> were delivered, each at a step at which the pane's session was current.\<close>

definition delivered :: "answer_env \<Rightarrow> worker_token \<Rightarrow> answer_run \<Rightarrow> press list \<Rightarrow> answer_run \<Rightarrow> bool" where
  "delivered E token r ps r' \<longleftrightarrow> (\<exists>xs. an_sent r' = an_sent r @ xs \<and> map snd xs = ps
     \<and> (\<forall>x \<in> set xs. paneSessionError token (ae_store E (fst x)) = None))"

lemma delivered_Nil [simp]: "delivered E token r [] r"
  by (simp add: delivered_def)

lemma delivered_tick [simp]: "delivered E token r [] (r\<lparr>an_tick := n\<rparr>)"
  by (simp add: delivered_def)

lemma delivered_trans: "delivered E token r ps r1 \<Longrightarrow> delivered E token r1 qs r2 \<Longrightarrow> delivered E token r (ps @ qs) r2"
  unfolding delivered_def by (elim exE, rule_tac x = "xs @ xsa" in exI) auto

lemma delivered_empty_iff: "delivered E token r ps r' \<Longrightarrow> an_sent r' = an_sent r \<longleftrightarrow> ps = []"
  by (auto simp: delivered_def)

lemma send_delivered:
  assumes "send E [p] r = (r', e)" "paneSessionError token (ae_store E (an_tick r)) = None"
  shows "delivered E token r (if e = None then [p] else []) r'"
  using assms by (auto simp: send_def delivered_def split: option.splits)

lemma partiallyApplied_tags [simp]: "PartiallyApplied \<in> set (partiallyApplied e)" "PaneReplaced \<in> set (partiallyApplied e) \<longleftrightarrow> PaneReplaced \<in> set e"
  by (simp_all add: partiallyApplied_def)

lemma send_keys_delivered:
  assumes "send_keys E token later ks r = (r', e)"
  shows "\<exists>n. delivered E token r (map Key (take n ks)) r' \<and> n \<le> length ks \<and> (e = None \<longleftrightarrow> n = length ks)
    \<and> (\<forall>err. e = Some err \<and> (later \<or> n > 0) \<longrightarrow> PartiallyApplied \<in> set err)"
  using assms
proof (induction ks arbitrary: later r)
  case Nil
  then show ?case by auto
next
  case (Cons k ks)
  show ?case
  proof (cases "paneSessionError token (ae_store E (an_tick r))")
    case (Some err)
    then show ?thesis using Cons.prems by (intro exI [of _ 0]) auto
  next
    case None
    obtain r1 e1 where s: "send E [Key k] r = (r1, e1)" by fastforce
    note d = send_delivered [OF s None]
    show ?thesis
    proof (cases e1)
      case (Some err)
      then show ?thesis using Cons.prems None s d by (intro exI [of _ 0]) auto
    next
      case e1: None
      then have d1: "delivered E token r [Key k] r1" using d by simp
      show ?thesis
      proof (cases "if ks \<noteq> [] then ae_wait E (an_tick r1) else None")
        case (Some err)
        then show ?thesis using Cons.prems None s e1 d1 by (intro exI [of _ 1]) (auto split: if_splits)
      next
        case wait: None
        have rec: "send_keys E token True ks r1 = (r', e)" using Cons.prems None s e1 wait by simp
        obtain n where n: "delivered E token r1 (map Key (take n ks)) r'" "n \<le> length ks" "e = None \<longleftrightarrow> n = length ks"
            "\<forall>err. e = Some err \<longrightarrow> PartiallyApplied \<in> set err"
          using Cons.IH [OF rec] by auto
        show ?thesis using n delivered_trans [OF d1 n(1)] by (intro exI [of _ "Suc n"]) auto
      qed
    qed
  qed
qed

definition flat :: "InputStep list \<Rightarrow> press list" where
  "flat steps = concat (map (\<lambda>s. map Key (st_Keys s) @ (if st_Text s \<noteq> [] then [Typed (st_Text s)] else [])) steps)"

lemma flat_simps [simp]:
  "flat [] = []" "flat (s # ss) = map Key (st_Keys s) @ (if st_Text s \<noteq> [] then [Typed (st_Text s)] else []) @ flat ss"
  by (simp_all add: flat_def)

text \<open>An error that hides what was already sent: only the loss of the session, noticed before a text.\<close>

definition honest :: "bool \<Rightarrow> herdr_error option \<Rightarrow> bool" where
  "honest something e \<longleftrightarrow> (\<forall>err. e = Some err \<and> something \<longrightarrow> PartiallyApplied \<in> set err \<or> err = [PaneReplaced])"

lemma execute_keys_delivered:
  assumes "execute_keys E token ks dr = (dr', e)"
  shows "\<exists>n. delivered E token (snd dr) (map Key (take n ks)) (snd dr') \<and> (e = None \<longrightarrow> n = length ks \<and> fst dr')
    \<and> honest (fst dr \<or> n > 0) e"
proof -
  obtain r1 e1 where s: "send_keys E token False ks (snd dr) = (r1, e1)" by fastforce
  obtain n where n: "delivered E token (snd dr) (map Key (take n ks)) r1" "e1 = None \<longrightarrow> n = length ks"
      "\<forall>err. e1 = Some err \<and> n > 0 \<longrightarrow> PartiallyApplied \<in> set err"
    using send_keys_delivered [OF s] by auto
  show ?thesis using assms n s
    by (intro exI [of _ n]) (auto simp: execute_keys_def sendQuestionKeysForSession_def honest_def split: option.splits)
qed

lemma execute_text_delivered:
  assumes "execute_text E token t dr = (dr', e)"
  shows "delivered E token (snd dr) (if e = None then [Typed t] else []) (snd dr') \<and> (e = None \<longrightarrow> fst dr') \<and> honest (fst dr) e"
proof (cases "paneSessionError token (ae_store E (an_tick (snd dr)))")
  case (Some err)
  then have "err = [PaneReplaced]" by (auto simp: paneSessionError_def split: prod.splits if_splits)
  then show ?thesis using assms Some by (auto simp: execute_text_def honest_def)
next
  case None
  obtain r1 e1 where s: "send E [Typed t] (snd dr) = (r1, e1)" by fastforce
  show ?thesis using assms None s send_delivered [OF s None] by (auto simp: execute_text_def honest_def split: option.splits)
qed

lemma execute_step_delivered:
  assumes "execute_step E token s dr = (dr', e)"
  shows "\<exists>n. delivered E token (snd dr) (take n (flat [s])) (snd dr') \<and> (e = None \<longrightarrow> take n (flat [s]) = flat [s] \<and> (fst dr' \<or> flat [s] = [] \<and> fst dr' = fst dr))
    \<and> honest (fst dr \<or> take n (flat [s]) \<noteq> []) e"
proof -
  let ?ks = "st_Keys s"
  obtain dr1 e1 where k: "(if ?ks \<noteq> [] then execute_keys E token ?ks dr else (dr, None)) = (dr1, e1)" by fastforce
  have "\<exists>n \<le> length ?ks. delivered E token (snd dr) (map Key (take n ?ks)) (snd dr1)
      \<and> (e1 = None \<longrightarrow> n = length ?ks \<and> (fst dr1 \<or> ?ks = [] \<and> fst dr1 = fst dr)) \<and> honest (fst dr \<or> n > 0) e1"
  proof (cases "?ks = []")
    case True
    then show ?thesis using k by (auto simp: honest_def)
  next
    case False
    then obtain n where n: "delivered E token (snd dr) (map Key (take n ?ks)) (snd dr1)" "e1 = None \<longrightarrow> n = length ?ks \<and> fst dr1"
        "honest (fst dr \<or> n > 0) e1"
      using execute_keys_delivered [of E token ?ks dr dr1 e1] k by auto
    have "take (min n (length ?ks)) ?ks = take n ?ks" by (simp add: min_def)
    then show ?thesis using n False by (intro exI [of _ "min n (length ?ks)"]) (auto simp: honest_def)
  qed
  then obtain n where n: "n \<le> length ?ks" "delivered E token (snd dr) (map Key (take n ?ks)) (snd dr1)"
      "e1 = None \<longrightarrow> n = length ?ks \<and> (fst dr1 \<or> ?ks = [] \<and> fst dr1 = fst dr)" "honest (fst dr \<or> n > 0) e1" by blast
  have tk: "take n (flat [s]) = map Key (take n ?ks)" using n(1) by (simp add: take_map)
  show ?thesis
  proof (cases e1)
    case (Some err)
    then have "e = e1" "dr' = dr1" using assms k by (auto simp: execute_step_def)
    then show ?thesis using n Some tk by (intro exI [of _ n]) (auto simp: honest_def)
  next
    case None
    then have full: "n = length ?ks" using n by simp
    show ?thesis
    proof (cases "st_Text s = []")
      case True
      then show ?thesis using assms k None n full tk by (intro exI [of _ n]) (auto simp: execute_step_def honest_def)
    next
      case False
      then have t: "execute_text E token (st_Text s) dr1 = (dr', e)" using assms k None by (simp add: execute_step_def)
      have d: "delivered E token (snd dr) (map Key ?ks @ (if e = None then [Typed (st_Text s)] else [])) (snd dr')"
        using delivered_trans [OF n(2), of "if e = None then [Typed (st_Text s)] else []" "snd dr'"]
          execute_text_delivered [OF t] full by simp
      show ?thesis using d execute_text_delivered [OF t] False None n(3)
        by (intro exI [of _ "length ?ks + (if e = None then 1 else 0)"]) (auto simp: honest_def)
    qed
  qed
qed

lemma execute_steps_delivered:
  assumes "execute_steps E token ss dr = (r', e)"
  shows "\<exists>n. delivered E token (snd dr) (take n (flat ss)) r' \<and> (e = None \<longrightarrow> take n (flat ss) = flat ss) \<and> honest (fst dr \<or> take n (flat ss) \<noteq> []) e"
  using assms
proof (induction ss arbitrary: dr)
  case Nil
  then show ?case by (auto simp: honest_def)
next
  case (Cons s ss)
  obtain dr1 e1 where s: "execute_step E token s dr = (dr1, e1)" by fastforce
  obtain n where n: "delivered E token (snd dr) (take n (flat [s])) (snd dr1)"
      "e1 = None \<longrightarrow> take n (flat [s]) = flat [s] \<and> (fst dr1 \<or> flat [s] = [] \<and> fst dr1 = fst dr)" "honest (fst dr \<or> take n (flat [s]) \<noteq> []) e1"
    using execute_step_delivered [OF s] by blast
  have split: "flat (s # ss) = flat [s] @ flat ss" by simp
  show ?case
  proof (cases e1)
    case (Some err)
    have "take (min n (length (flat [s]))) (flat (s # ss)) = take n (flat [s])" unfolding split by (simp add: min_def del: flat_simps)
    then show ?thesis using Cons.prems s Some n by (intro exI [of _ "min n (length (flat [s]))"]) (auto simp: honest_def)
  next
    case None
    then have full: "delivered E token (snd dr) (flat [s]) (snd dr1)" using n by simp
    show ?thesis
    proof (cases "if ss \<noteq> [] then ae_wait E (an_tick (snd dr1)) else None")
      case (Some err)
      then have "e = Some (partiallyApplied err)" "r' = snd dr1" using Cons.prems s None by auto
      then show ?thesis using full split by (intro exI [of _ "length (flat [s])"]) (auto simp: honest_def)
    next
      case wait: None
      have "execute_steps E token ss dr1 = (r', e)" using Cons.prems s None wait by simp
      then obtain m where m: "delivered E token (snd dr1) (take m (flat ss)) r'" "e = None \<longrightarrow> take m (flat ss) = flat ss"
          "honest (fst dr1 \<or> take m (flat ss) \<noteq> []) e" using Cons.IH by blast
      have t: "take (length (flat [s]) + m) (flat (s # ss)) = flat [s] @ take m (flat ss)" unfolding split by simp
      have "honest (fst dr \<or> flat [s] @ take m (flat ss) \<noteq> []) e" using m(3) n(2) None unfolding honest_def by blast
      then show ?thesis unfolding split [symmetric] using delivered_trans [OF full m(1)] m(2) t split
        by (intro exI [of _ "length (flat [s]) + m"]) simp
    qed
  qed
qed

section \<open>Approvals\<close>

lemma failErr_phase:
  "PartiallyApplied \<in> set err \<Longrightarrow> cr_Phase (failErr requestID action paneID err) = ''dispatched_unknown''"
  "\<not> cr_OK (failErr requestID action paneID err)"
  by (simp_all add: failErr_def result_def)

lemma result_fields [simp]:
  "\<not> cr_OK (fail requestID action paneID m)" "cr_Phase (fail requestID action paneID m) = ''failed''" "cr_Error (fail requestID action paneID m) = m"
  "cr_OK (accepted requestID action paneID)" "cr_OK (completed requestID action paneID)"
  by (simp_all add: fail_def accepted_def completed_def result_def)

lemma approvalKeys_presses: "key_presses focus (approvalKeys target focus) = ([enter target], target)"
  using key_presses_move [of focus "target - focus" "[''Enter'']"]
  by (auto simp: approvalKeys_def move_keys_def enter_def Let_def split: if_splits)

lemma stale_result: "paneSessionCurrent token requestID action s = Some stale \<Longrightarrow> \<not> cr_OK stale"
  by (auto simp: paneSessionCurrent_def split: if_splits)

text \<open>What the screen said when the approval ran.\<close>

definition approval_screen :: "answer_env \<Rightarrow> string \<Rightarrow> approvalPayload \<Rightarrow> int \<Rightarrow> bool" where
  "approval_screen E paneID payload focus \<longleftrightarrow> (\<exists>content agent c. ae_read E = Inr content \<and> Agent (ae_store E 0) paneID = Some agent
     \<and> ae_classify E content (as_Agent agent) = (c, focus) \<and> cl_Kind c = AttentionApproval
     \<and> int (length (cl_Options c)) = ap_Total payload \<and> ap_Index payload < ap_Total payload)"

lemma approval_effect_cases:
  assumes "approval_effect E token requestID paneID payload = (r, res)"
  shows "r = new_run \<and> \<not> cr_OK res
    \<or> (\<exists>focus e. approval_current (ae_store E 0) paneID payload \<and> approval_screen E paneID payload focus
         \<and> sendQuestionKeysForSession E token (approvalKeys (ap_Index payload) focus) (new_run\<lparr>an_tick := 1\<rparr>) = (r, e)
         \<and> res = (case e of None \<Rightarrow> accepted requestID ''approval'' paneID | Some err \<Rightarrow> failErr requestID ''approval'' paneID err))"
proof (cases "approval_current (ae_store E 0) paneID payload")
  case False
  then show ?thesis using assms by (auto simp: approval_effect_def)
next
  case cur: True
  then obtain agent where a: "Agent (ae_store E 0) paneID = Some agent" by (auto simp: approval_current_def split: option.splits)
  show ?thesis
  proof (cases "ae_read E")
    case (Inl err)
    then show ?thesis using assms cur by (auto simp: approval_effect_def failErr_phase)
  next
    case (Inr content)
    obtain c focus where c: "ae_classify E content (as_Agent agent) = (c, focus)" by fastforce
    show ?thesis
    proof (cases "approval_screen E paneID payload focus \<and> paneSessionCurrent token requestID ''approval'' (ae_store E 1) = None")
      case True
      obtain r1 e where s: "sendQuestionKeysForSession E token (approvalKeys (ap_Index payload) focus) (new_run\<lparr>an_tick := 1\<rparr>) = (r1, e)"
        by fastforce
      have "r = r1 \<and> res = (case e of None \<Rightarrow> accepted requestID ''approval'' paneID | Some err \<Rightarrow> failErr requestID ''approval'' paneID err)"
        using assms cur Inr a c True s by (auto simp: approval_effect_def approval_screen_def split: option.splits)
      then show ?thesis using True cur s by blast
    next
      case False
      then show ?thesis using assms cur Inr a c
        by (auto simp: approval_effect_def approval_screen_def stale_result split: if_splits option.splits prod.splits)
    qed
  qed
qed

text \<open>C11. An approval presses only the option it was given for. Whatever happens to the pane while an approval runs: keys reach its terminal only
  if, when it started, the pane was blocked on the very event the phone approved, with as many options, and the screen just read showed an approval with as
  many options; the keys are the beginning of the walk from the row in focus to the chosen option, which presses Enter there and
  nowhere else; each is sent while the pane's session is the one the command was admitted for; and the result is a success exactly when the
  whole walk was sent.\<close>

theorem approval_presses_choice:
  assumes "approval_effect E token requestID paneID payload = (r, res)"
  shows "(an_sent r = [] \<and> \<not> cr_OK res)
    \<or> (\<exists>focus n. approval_current (ae_store E 0) paneID payload \<and> approval_screen E paneID payload focus
         \<and> map snd (an_sent r) = map Key (take n (approvalKeys (ap_Index payload) focus))
         \<and> key_presses focus (approvalKeys (ap_Index payload) focus) = ([enter (ap_Index payload)], ap_Index payload)
         \<and> (\<forall>x \<in> set (an_sent r). paneSessionError token (ae_store E (fst x)) = None)
         \<and> (cr_OK res \<longleftrightarrow> n \<ge> length (approvalKeys (ap_Index payload) focus)))"
  using approval_effect_cases [OF assms]
proof (elim disjE exE conjE)
  assume "r = new_run" "\<not> cr_OK res"
  then show ?thesis by (simp add: new_run_def)
next
  fix focus e
  let ?ks = "approvalKeys (ap_Index payload) focus"
  assume cur: "approval_current (ae_store E 0) paneID payload" and scr: "approval_screen E paneID payload focus"
    and s: "sendQuestionKeysForSession E token ?ks (new_run\<lparr>an_tick := 1\<rparr>) = (r, e)"
    and res: "res = (case e of None \<Rightarrow> accepted requestID ''approval'' paneID | Some err \<Rightarrow> failErr requestID ''approval'' paneID err)"
  obtain n where n: "delivered E token (new_run\<lparr>an_tick := 1\<rparr>) (map Key (take n ?ks)) r" "n \<le> length ?ks" "e = None \<longleftrightarrow> n = length ?ks"
    using send_keys_delivered [OF s [unfolded sendQuestionKeysForSession_def]] by blast
  have ok: "cr_OK res \<longleftrightarrow> e = None" using res by (auto simp: failErr_phase split: option.splits)
  show ?thesis using cur scr n ok approvalKeys_presses [of focus "ap_Index payload"]
    by (intro disjI2 exI [of _ focus] exI [of _ n]) (auto simp: delivered_def new_run_def)
qed

section \<open>Questions\<close>

text \<open>The form on the screen when an answer ran.\<close>

definition question_screen :: "answer_env \<Rightarrow> string \<Rightarrow> Interaction \<Rightarrow> bool" where
  "question_screen E paneID ia \<longleftrightarrow> (\<exists>content agent. ae_read E = Inr content \<and> Agent (ae_store E 0) paneID = Some agent
     \<and> ae_parse E content (as_Agent agent) = Some ia)"

lemma awaits_agent: "awaits_answer s paneID \<Longrightarrow> \<exists>agent. Agent s paneID = Some agent"
  by (auto simp: awaits_answer_def split: option.splits)

lemma question_effect_cases:
  assumes "question_effect E token requestID paneID p = Some (r, res)"
  shows "an_sent r = [] \<and> \<not> cr_OK res
    \<or> (\<exists>ia steps r0 e. awaits_answer (ae_store E 0) paneID \<and> question_screen E paneID ia \<and> ia_ID ia = qp_InteractionID p
         \<and> validateQuestionPayload p ia = None \<and> PlanInput ia (intent_of p) = Some steps \<and> an_sent r0 = []
         \<and> execute_steps E token steps (False, r0) = (r, e)
         \<and> res = (case e of None \<Rightarrow> accepted requestID (question_action p) paneID
             | Some err \<Rightarrow> if PaneReplaced \<in> set err then fail requestID (question_action p) paneID ErrPaneReplaced_text
                           else failErr requestID (question_action p) paneID err))"
proof (cases "awaits_answer (ae_store E 0) paneID")
  case False
  then show ?thesis using assms by (auto simp: question_effect_def Let_def new_run_def)
next
  case aw: True
  then obtain agent where a: "Agent (ae_store E 0) paneID = Some agent" using awaits_agent by blast
  show ?thesis
  proof (cases "ae_read E")
    case (Inl err)
    then show ?thesis using assms aw by (auto simp: question_effect_def Let_def failErr_phase new_run_def)
  next
    case (Inr content)
    show ?thesis
    proof (cases "ae_parse E content (as_Agent agent)")
      case None
      then show ?thesis using assms aw Inr a by (auto simp: question_effect_def Let_def new_run_def)
    next
      case (Some ia)
      then have scr: "question_screen E paneID ia" using Inr a by (auto simp: question_screen_def)
      let ?r = "(if qp_OtherSelected p then new_run\<lparr>an_custom := [(paneID, ia_Question ia, qp_OtherText p)]\<rparr> else new_run)"
      have r: "an_sent ?r = []" "an_sent (?r\<lparr>an_tick := 1\<rparr>) = []" by (simp_all add: new_run_def)
      show ?thesis
      proof (cases "ia_ID ia = qp_InteractionID p \<and> validateQuestionPayload p ia = None
          \<and> paneSessionCurrent token requestID (question_action p) (ae_store E 1) = None")
        case False
        then show ?thesis using assms aw Inr a Some r stale_result
          by (auto simp: question_effect_def Let_def split: if_splits option.splits)
      next
        case True
        obtain steps where st: "PlanInput ia (intent_of p) = Some steps"
          using assms aw Inr a Some True
          by (cases "PlanInput ia (intent_of p)") (auto simp: question_effect_def Let_def executeQuestion_def)
        obtain r1 e where ex: "execute_steps E token steps (False, ?r\<lparr>an_tick := 1\<rparr>) = (r1, e)" by fastforce
        have "r = r1 \<and> res = (case e of None \<Rightarrow> accepted requestID (question_action p) paneID
             | Some err \<Rightarrow> if PaneReplaced \<in> set err then fail requestID (question_action p) paneID ErrPaneReplaced_text
                           else failErr requestID (question_action p) paneID err)"
          using assms aw Inr a Some True st ex
          by (cases e) (auto simp: question_effect_def Let_def executeQuestion_def)
        then show ?thesis using aw scr True st ex r(2) by blast
      qed
    qed
  qed
qed

text \<open>Reading presses as they arrive is reading the steps of the plan.\<close>

fun read_presses :: "int \<Rightarrow> press list \<Rightarrow> (int \<times> press) list" where
  "read_presses p [] = []"
| "read_presses p (Typed t # ps) = (p, Typed t) # read_presses p ps"
| "read_presses p (Key k # ps) =
     (if k = ''Up'' then read_presses (p - 1) ps else if k = ''Down'' then read_presses (p + 1) ps else (p, Key k) # read_presses p ps)"

lemma read_keys: "read_presses p (map Key ks @ ps) = fst (key_presses p ks) @ read_presses (snd (key_presses p ks)) ps"
  by (induction ks arbitrary: p) (auto simp: case_prod_beta Let_def)

lemma read_flat: "read_presses p (flat steps) = fst (presses p steps)"
  by (induction steps arbitrary: p) (auto simp: read_keys presses.simps(2) case_prod_beta Let_def)


section \<open>What is reported\<close>


text \<open>What the parser guarantees of every form.\<close>

definition known_form :: "Interaction \<Rightarrow> bool" where
  "known_form ia \<longleftrightarrow> ia_Kind ia \<in> {''single_select'', ''multi_select''}
     \<and> (ia_Agent ia = ''omp'' \<longrightarrow> fo_Index (ia_Focus ia) \<le> int (length (ia_Options ia)))"

lemma toggle_focus:
  assumes "toggle_options nav selected i opts cur = (steps, cur')"
  shows "ia_Options cur' = ia_Options cur \<and> ia_QuestionTotal cur' = ia_QuestionTotal cur
    \<and> (ia_Focus cur' = ia_Focus cur \<or> (\<exists>k. ia_Focus cur' = option_focus k \<and> k < i + int (length opts)))"
  using assms
proof (induction opts arbitrary: i cur steps)
  case (Cons opt opts)
  show ?case
  proof (cases "op_Selected opt = containsInt selected i")
    case True
    then show ?thesis using Cons.IH [of "i + 1" cur] Cons.prems by auto
  next
    case False
    then obtain steps1 where "toggle_options nav selected (i + 1) opts (cur\<lparr>ia_Focus := option_focus i\<rparr>) = (steps1, cur')"
      using Cons.prems by (auto split: prod.splits)
    then show ?thesis using Cons.IH [of "i + 1" "cur\<lparr>ia_Focus := option_focus i\<rparr>"] by fastforce
  qed
qed simp

lemma omp_plans:
  assumes "known_form ia" "ia_Agent ia = ''omp''"
  shows "planOMPInput ia it \<noteq> None"
proof -
  obtain steps cur where t: "toggle_options navigationKeys (it_Selected it) 0 (ia_Options ia) ia = (steps, cur)" by fastforce
  have "fo_Index (ia_Focus cur) \<le> int (length (ia_Options cur))"
    using toggle_focus [OF t] assms by (auto simp: known_form_def option_focus_def)
  then show ?thesis using t by (auto simp: planOMPInput_def Let_def)
qed

lemma multi_plans: "planQoderMultiInput ia it \<noteq> None" "planOpenCodeMultiInput ia it \<noteq> None" "planCodexInput ia it \<noteq> None" "planClaudeInput ia it \<noteq> None"
  by (auto simp: planQoderMultiInput_def planOpenCodeMultiInput_def planCodexInput_def planClaudeInput_def Let_def split: prod.splits)

lemma notes_plans:
  assumes "known_form ia" "ia_Kind ia = ''single_select'' \<longrightarrow> it_Selected it \<noteq> [] \<or> it_OtherSelected it"
  shows "planQoderInput ia it \<noteq> None" "planOpenCodeInput ia it \<noteq> None"
  using assms multi_plans [of ia it]
  by (auto simp: planQoderInput_def planOpenCodeInput_def first_selected_def known_form_def Let_def split: list.splits)

definition from_phone :: "questionPayload \<Rightarrow> bool" where
  "from_phone p \<longleftrightarrow> (\<exists>m. decodeQuestionPayload m = Inr p \<or> handleClarifyQuestion m = Inr p \<or> handleNavigateQuestion m = Inr p)"

lemma from_phone_navigation: "from_phone p \<Longrightarrow> qp_Navigation p \<in> {[], ''previous'', ''next''}"
  by (auto simp: from_phone_def decodeQuestionPayload_def handleClarifyQuestion_def handleNavigateQuestion_def Let_def
      split: if_splits option.splits)

lemma validated_plans:
  assumes "validateQuestionPayload p ia = None" "known_form ia" "qp_Navigation p \<in> {[], ''previous'', ''next''}"
  shows "PlanInput ia (intent_of p) \<noteq> None"
proof (cases "qp_Navigation p = [] \<and> \<not> qp_Clarify p")
  case True
  then have "ia_Kind ia = ''single_select'' \<longrightarrow> it_Selected (intent_of p) \<noteq> [] \<or> it_OtherSelected (intent_of p)"
    using assms(1) by (auto simp: validateQuestionPayload_def intent_of_def Let_def boolInt_def split: if_splits)
  note plans = notes_plans [OF assms(2) this] multi_plans [of ia "intent_of p"] omp_plans [OF assms(2), of "intent_of p"]
  then show ?thesis unfolding PlanInput_def using True by simp
next
  case False
  then show ?thesis using assms(3) by (auto simp: PlanInput_def intent_of_def)
qed

text \<open>C14. No answer makes the relay panic. On every form the parser can produce, an answer sent by the phone that passes the validation has a plan: no element of an
  empty selection is taken and no slice of negative length made, so the run of an answer always comes to a result.\<close>

theorem question_never_panics:
  assumes "\<forall>content agent ia. ae_parse E content agent = Some ia \<longrightarrow> known_form ia" "from_phone p"
  shows "question_effect E token requestID paneID p \<noteq> None"
proof -
  let ?name = "case Agent (ae_store E 0) paneID of Some agent \<Rightarrow> as_Agent agent | None \<Rightarrow> []"
  have plan: "\<exists>steps. PlanInput ia (intent_of p) = Some steps" if "validateQuestionPayload p ia = None" "ae_parse E content agent = Some ia"
    for ia content agent
    using validated_plans [OF that(1)] assms that(2) from_phone_navigation by blast
  show ?thesis
  proof (cases "ae_read E")
    case (Inr content)
    show ?thesis
    proof (cases "ae_parse E content ?name")
      case (Some ia)
      show ?thesis
      proof (cases "validateQuestionPayload p ia")
        case None
        then show ?thesis using plan [OF None Some] Inr Some
          by (auto simp: question_effect_def executeQuestion_def Let_def split: option.splits prod.splits)
      qed (simp add: question_effect_def Let_def Inr Some)
    qed (simp add: question_effect_def Let_def Inr)
  qed (simp add: question_effect_def Let_def)
qed

section \<open>Samples\<close>

definition sample_pane :: agent_state where
  "sample_pane = \<lparr>as_PaneID = ''p'', as_RawPaneID = ''p'', as_TerminalID = [], as_TabID = [], as_WorkspaceID = [], as_Agent = ''claude'', as_Name = [],
     as_Status = ''blocked'', as_Cwd = [], as_Project = [], as_UpdatedAt = 0, as_LastActiveAt = 0, as_LastSeenAt = 0, as_ActivitySeq = 0,
     as_SessionID = [], as_PaneRevision = 0, as_StateRevision = 0, as_ScrollMaxOffset = 0, as_ForegroundCwd = [],
     as_blocked = \<lparr>bd_BlockedEventID = ''e'', bd_AttentionKind = AttentionApproval, bd_Prompt = [], bd_Command = [], bd_Options = [''yes'', ''no''],
       bd_Interaction = None, bd_QuestionLayout = False, bd_InteractionID = []\<rparr>,
     as_info = []\<rparr>"

text \<open>The session is replaced, or a send fails, at a given step.\<close>

definition sample_answer_env :: "nat \<Rightarrow> nat \<Rightarrow> answer_env" where
  "sample_answer_env replaced broken = \<lparr>ae_store = (\<lambda>n. NewState\<lparr>st_agents := [(''p'', sample_pane)], st_generation := (\<lambda>_. if n \<ge> replaced then 1 else 0)\<rparr>),
     ae_send = (\<lambda>n. if n = broken then Some [OtherFailure] else None), ae_wait = (\<lambda>_. None), ae_read = Inr ''screen'',
     ae_classify = (\<lambda>_ _. (\<lparr>cl_Kind = AttentionApproval, cl_Prompt = [], cl_Command = [], cl_Options = [''yes'', ''no''], cl_Interaction = None,
        cl_QuestionLayout = False\<rparr>, 0)),
     ae_parse = (\<lambda>_ _. Some (sample_form ''single_select'' ''claude''))\<rparr>"

definition sample_token :: worker_token where
  "sample_token = \<lparr>wt_OperationID = 1, wt_PaneID = ''p'', wt_Generation = 0, wt_AllowAbsent = False, wt_Deadline = 0\<rparr>"

definition sample_approval :: approvalPayload where
  "sample_approval = \<lparr>ap_EventID = ''e'', ap_Index = 1, ap_Total = 2\<rparr>"

definition sample_payload :: questionPayload where
  "sample_payload = \<lparr>qp_InteractionID = ''q'', qp_Selected = [2], qp_OtherSelected = False, qp_OtherText = [], qp_Clarify = False, qp_Navigation = []\<rparr>"

definition sample_message :: question_message where
  "sample_message = \<lparr>qm_interaction_id = ''q'', qm_other_text = [], qm_other_selected = False, qm_selected_indices = Raw_ints [2], qm_direction = []\<rparr>"

lemma sample_approval_run:
  "approval_effect (sample_answer_env 9 9) sample_token ''r'' ''p'' sample_approval
     = (\<lparr>an_tick = 3, an_sent = [(1, Key ''Down''), (2, Key ''Enter'')], an_custom = []\<rparr>, accepted ''r'' ''approval'' ''p'')"
  by code_simp

theorem approval_presses_choice_witness:
  "\<exists>focus. approval_screen (sample_answer_env 9 9) ''p'' sample_approval focus
     \<and> map snd [(1::nat, Key ''Down''), (2, Key ''Enter'')] = map Key (approvalKeys 1 focus)"
  using approval_presses_choice [OF sample_approval_run] by (auto simp: sample_approval_def)

lemma sample_question_run:
  "question_effect (sample_answer_env 9 9) sample_token ''r'' ''p'' sample_payload
     = Some (\<lparr>an_tick = 3, an_sent = [(1, Key ''Down''), (2, Key ''Enter'')], an_custom = []\<rparr>, accepted ''r'' ''answer_question'' ''p'')"
  by code_simp

lemma sample_screen: "question_screen (sample_answer_env 9 9) ''p'' ia \<longleftrightarrow> ia = sample_form ''single_select'' ''claude''"
proof -
  have "Agent (ae_store (sample_answer_env 9 9) 0) ''p'' \<noteq> None" by code_simp
  then show ?thesis by (auto simp: question_screen_def sample_answer_env_def)
qed


theorem question_never_panics_witness:
  "from_phone sample_payload \<and> question_effect (sample_answer_env 9 9) sample_token ''r'' ''p'' sample_payload \<noteq> None"
proof -
  have "decodeQuestionPayload sample_message = Inr sample_payload"
    by (simp add: decodeQuestionPayload_def sample_message_def sample_payload_def raw_indices_def utf8_runes.simps [of "[]"])
  then have p: "from_phone sample_payload" by (auto simp: from_phone_def)
  have "known_form (sample_form ''single_select'' ''claude'')" by code_simp
  then have "\<forall>content agent ia. ae_parse (sample_answer_env 9 9) content agent = Some ia \<longrightarrow> known_form ia"
    by (simp add: sample_answer_env_def)
  from question_never_panics [OF this p] p show ?thesis by simp
qed

lemma sample_broken_run:
  "approval_effect (sample_answer_env 9 2) sample_token ''r'' ''p'' sample_approval
     = (\<lparr>an_tick = 3, an_sent = [(1, Key ''Down'')], an_custom = []\<rparr>, failErr ''r'' ''approval'' ''p'' (partiallyApplied [OtherFailure]))"
  by code_simp


text \<open>The exception is real: a session replaced between the two keys of an answer is reported as a plain failure, although the first key was
  delivered; an approval in the same situation reports that part of it was applied.\<close>

lemma replaced_session_hides_input:
  "question_effect (sample_answer_env 2 9) sample_token ''r'' ''p'' sample_payload
     = Some (\<lparr>an_tick = 2, an_sent = [(1, Key ''Down'')], an_custom = []\<rparr>, fail ''r'' ''answer_question'' ''p'' ErrPaneReplaced_text)"
  by code_simp

end
