(* ===== verification/Worker.thy ===== *)
theory Worker
  imports Journal_Props
begin

text \<open>
  The activity worker of \<open>src/internal/activity/worker.go\<close>: one goroutine owns the journal and serves the requests of a
  channel of 64 places; \<open>Commit\<close>, \<open>Clear\<close>, \<open>Discard\<close> and \<open>Close\<close> put a request there and wait for the answer.

  \<^item> \<open>worker\<close> is the shared state: the journal, the channel, whether \<open>done\<close> is closed, and the answers put into the reply
    channels, by the number of the call. \<open>wk_sent\<close> records the calls in the order their requests entered the channel.
  \<^item> \<open>worker_step\<close> interleaves callers and goroutine. A caller's \<open>select\<close> may take the channel whenever it has a free
    place, also when \<open>done\<close> is closed. The outcome of the I/O of each journal operation is arbitrary.
  \<^item> \<open>commit_result\<close>, \<open>clear_result\<close> and \<open>discard_result\<close> are the second halves of the three calls.
\<close>

section \<open>Requests and answers\<close>

datatype 'd worker_request =
    CommitRequested "64 word" "'d entry"
  | ClearRequested "64 word"
  | DiscardRequested "64 word" string
  | StopRequested

datatype 'd worker_event =
    Committed "64 word" "'d entry" | CommitFailed "64 word" journal_error
  | Cleared "64 word" | ClearFailed "64 word" journal_error
  | Discarded "64 word" string | DiscardFailed "64 word" string journal_error

datatype ('d, 'a) call_result = Returned 'a | Failed journal_error | Invalid_response

fun commit_result :: "'d worker_event \<Rightarrow> ('d, 64 word \<times> 'd entry) call_result" where
  "commit_result (Committed n e) = Returned (n, e)"
| "commit_result (CommitFailed n err) = Failed err"
| "commit_result _ = Invalid_response"

fun clear_result :: "'d worker_event \<Rightarrow> ('d, 64 word) call_result" where
  "clear_result (Cleared n) = Returned n"
| "clear_result (ClearFailed n err) = Failed err"
| "clear_result _ = Invalid_response"

fun discard_result :: "'d worker_event \<Rightarrow> ('d, 64 word \<times> string) call_result" where
  "discard_result (Discarded n i) = Returned (n, i)"
| "discard_result (DiscardFailed n i err) = Failed err"
| "discard_result _ = Invalid_response"

section \<open>The goroutine\<close>

text \<open>One turn of the loop of \<open>run\<close>; \<open>None\<close> is the return.\<close>

fun serve :: "'d journal_env \<Rightarrow> journal_io \<Rightarrow> 'd worker_request \<Rightarrow> 'd Journal \<Rightarrow> ('d Journal \<times> 'd worker_event) option" where
  "serve E io StopRequested j = None"
| "serve E io (CommitRequested n e) j =
     (let entry = NormalizeEntry e; (j', err) = Append E io entry j
      in Some (j', case err of Some x \<Rightarrow> CommitFailed n x | None \<Rightarrow> Committed n entry))"
| "serve E io (DiscardRequested n i) j =
     (let (j', err) = Discard E io i j
      in Some (j', case err of Some x \<Rightarrow> DiscardFailed n i x | None \<Rightarrow> Discarded n i))"
| "serve E io (ClearRequested n) j =
     (let (j', err) = Clear E io j
      in Some (j', case err of Some x \<Rightarrow> ClearFailed n x | None \<Rightarrow> Cleared n))"

record 'd worker =
  wk_journal :: "'d Journal"
  wk_queue :: "(nat \<times> 'd worker_request) list"
  wk_done :: bool
  wk_replies :: "(nat \<times> 'd worker_event) list"
  wk_sent :: "(nat \<times> 'd worker_request) list"

definition worker_capacity :: nat where "worker_capacity = 64"

definition NewWorker :: "'d Journal \<Rightarrow> 'd worker" where
  "NewWorker j = \<lparr>wk_journal = j, wk_queue = [], wk_done = False, wk_replies = [], wk_sent = []\<rparr>"

definition send_request :: "nat \<Rightarrow> 'd worker_request \<Rightarrow> 'd worker \<Rightarrow> 'd worker" where
  "send_request c r s = s\<lparr>wk_queue := wk_queue s @ [(c, r)], wk_sent := wk_sent s @ [(c, r)]\<rparr>"

definition run_turn :: "'d journal_env \<Rightarrow> journal_io \<Rightarrow> 'd worker \<Rightarrow> 'd worker" where
  "run_turn E io s =
     (case wk_queue s of
        [] \<Rightarrow> s
      | (c, r) # rest \<Rightarrow>
          (case serve E io r (wk_journal s) of
             None \<Rightarrow> s\<lparr>wk_queue := rest, wk_done := True\<rparr>
           | Some (j, ev) \<Rightarrow> s\<lparr>wk_queue := rest, wk_journal := j, wk_replies := wk_replies s @ [(c, ev)]\<rparr>))"

inductive worker_step :: "'d journal_env \<Rightarrow> 'd worker \<Rightarrow> 'd worker \<Rightarrow> bool" for E :: "'d journal_env" where
  send: "length (wk_queue s) < worker_capacity \<Longrightarrow> c \<notin> fst ` set (wk_sent s) \<Longrightarrow> worker_step E s (send_request c r s)"
| turn: "\<not> wk_done s \<Longrightarrow> wk_queue s \<noteq> [] \<Longrightarrow> worker_step E s (run_turn E io s)"

inductive_cases worker_stepE: "worker_step E s s'"

section \<open>Refinement of the sequential journal\<close>

text \<open>The specification: the requests one after the other on the journal, each with its answer, up to the first request to
  stop.\<close>

inductive served :: "'d journal_env \<Rightarrow> 'd Journal \<Rightarrow> (nat \<times> 'd worker_request) list \<Rightarrow> 'd Journal \<Rightarrow> (nat \<times> 'd worker_event) list \<Rightarrow> bool"
  for E :: "'d journal_env" and j0 :: "'d Journal" where
  served_none: "served E j0 [] j0 []"
| served_one: "served E j0 rs j evs \<Longrightarrow> serve E io r j = Some (j', ev) \<Longrightarrow> served E j0 (rs @ [(c, r)]) j' (evs @ [(c, ev)])"

definition worker_inv :: "'d journal_env \<Rightarrow> 'd Journal \<Rightarrow> 'd worker \<Rightarrow> bool" where
  "worker_inv E j0 s \<longleftrightarrow>
     (\<exists>rs. served E j0 rs (wk_journal s) (wk_replies s)
        \<and> (if wk_done s then \<exists>c. wk_sent s = rs @ [(c, StopRequested)] @ wk_queue s else wk_sent s = rs @ wk_queue s))
     \<and> length (wk_queue s) \<le> worker_capacity \<and> distinct (map fst (wk_sent s))"

lemma serve_None: "serve E io r j = None \<longleftrightarrow> r = StopRequested"
  by (cases r) (auto simp: Let_def case_prod_beta)

lemma NewWorker_inv: "worker_inv E j (NewWorker j)"
  by (auto simp: worker_inv_def NewWorker_def intro: served_none)

lemma send_inv:
  "worker_inv E j0 s \<Longrightarrow> length (wk_queue s) < worker_capacity \<Longrightarrow> c \<notin> fst ` set (wk_sent s)
     \<Longrightarrow> worker_inv E j0 (send_request c r s)"
  by (auto simp: worker_inv_def send_request_def)

lemma turn_inv:
  assumes "worker_inv E j0 s" "\<not> wk_done s" "wk_queue s \<noteq> []"
  shows "worker_inv E j0 (run_turn E io s)"
proof -
  obtain c r rest where q: "wk_queue s = (c, r) # rest"
    using assms(3) by (cases "wk_queue s") auto
  obtain rs where rs: "served E j0 rs (wk_journal s) (wk_replies s)" "wk_sent s = rs @ (c, r) # rest"
    using assms(1,2) q by (auto simp: worker_inv_def)
  show ?thesis
  proof (cases "serve E io r (wk_journal s)")
    case None
    with rs q assms(1) show ?thesis
      by (auto simp: worker_inv_def run_turn_def serve_None)
  next
    case (Some x)
    then obtain j ev where "serve E io r (wk_journal s) = Some (j, ev)"
      by (cases x) auto
    with served_one [OF rs(1) this, of c] rs(2) q assms(1,2) show ?thesis
      by (auto simp: worker_inv_def run_turn_def intro!: exI [of _ "rs @ [(c, r)]"])
  qed
qed

lemma worker_steps_inv: "(worker_step E)\<^sup>*\<^sup>* s s' \<Longrightarrow> worker_inv E j0 s \<Longrightarrow> worker_inv E j0 s'"
  by (induction rule: rtranclp_induct) (auto elim!: worker_stepE intro: send_inv turn_inv)

lemma served_ids: "served E j0 rs j evs \<Longrightarrow> map fst evs = map fst rs"
  by (induction rule: served.induct) auto

text \<open>The answer that fits a request: the call that made it returns its result or the error of the journal.\<close>

fun answers :: "'d worker_request \<Rightarrow> 'd worker_event \<Rightarrow> bool" where
  "answers (CommitRequested n e) ev \<longleftrightarrow>
     commit_result ev = Returned (n, NormalizeEntry e) \<or> (\<exists>err. commit_result ev = Failed err)"
| "answers (ClearRequested n) ev \<longleftrightarrow> clear_result ev = Returned n \<or> (\<exists>err. clear_result ev = Failed err)"
| "answers (DiscardRequested n i) ev \<longleftrightarrow> discard_result ev = Returned (n, i) \<or> (\<exists>err. discard_result ev = Failed err)"
| "answers StopRequested ev \<longleftrightarrow> False"

lemma serve_answers: "serve E io r j = Some (j', ev) \<Longrightarrow> answers r ev"
  by (cases r) (auto simp: Let_def case_prod_beta split: option.splits)

lemma served_answers: "served E j0 rs j evs \<Longrightarrow> list_all2 (\<lambda>(c, r) (c', ev). c = c' \<and> answers r ev) rs evs"
  by (induction rule: served.induct) (auto intro: list_all2_appendI dest: serve_answers)

text \<open>The journal of the worker is one that the operations of the requests lead to.\<close>

fun request_op :: "'d worker_request \<Rightarrow> 'd journal_op option" where
  "request_op (CommitRequested n e) = Some (J_Append e)"
| "request_op (ClearRequested n) = Some J_Clear"
| "request_op (DiscardRequested n i) = Some (J_Discard i)"
| "request_op StopRequested = None"

lemma Append_normalized: "Append E io (NormalizeEntry e) j = Append E io e j"
  by (simp add: Append_def)

lemma serve_op:
  "serve E io r j = Some (j', ev) \<Longrightarrow> \<exists>p. request_op r = Some p \<and> j' = fst (run_op E io p j)"
  by (cases r) (auto simp: Let_def case_prod_beta Append_normalized)

lemma served_run:
  "served E j0 rs j evs \<Longrightarrow>
     \<exists>ops. list_all2 (\<lambda>(c, r) e. \<exists>io p. e = J_Op io p \<and> request_op r = Some p) rs ops
        \<and> j = fst (run_machine (journal_step E) j0 ops)"
proof (induction rule: served.induct)
  case served_none
  then show ?case by (intro exI [of _ "[]"]) simp
next
  case (served_one rs j evs io r j' ev c)
  then obtain ops p where ops: "list_all2 (\<lambda>(c, r) e. \<exists>io p. e = J_Op io p \<and> request_op r = Some p) rs ops"
    "j = fst (run_machine (journal_step E) j0 ops)" and p: "request_op r = Some p" "j' = fst (run_op E io p j)"
    using serve_op by blast
  then have "j' = fst (run_machine (journal_step E) j0 (ops @ [J_Op io p]))"
    by (simp add: run_machine_append case_prod_beta Let_def)
  with ops(1) p(1) show ?case
    by (intro exI [of _ "ops @ [J_Op io p]"] conjI) (auto intro!: list_all2_appendI)
qed

section \<open>Progress\<close>

lemma worker_drains:
  assumes "\<not> wk_done s" "\<forall>(c, r) \<in> set (wk_queue s). r \<noteq> StopRequested"
  shows "\<exists>s'. (worker_step E)\<^sup>*\<^sup>* s s' \<and> wk_queue s' = [] \<and> \<not> wk_done s' \<and> wk_sent s' = wk_sent s"
  using assms
proof (induction "wk_queue s" arbitrary: s)
  case Nil
  then show ?case by (intro exI [of _ s]) simp
next
  case (Cons x rest)
  note q = Cons.hyps(2) [symmetric]
  obtain c r where x: "x = (c, r)" by fastforce
  let ?t = "run_turn E io_good s"
  have "r \<noteq> StopRequested"
    using Cons.prems(2) by (simp add: q x)
  then have "serve E io_good r (wk_journal s) \<noteq> None"
    by (simp add: serve_None)
  then obtain j ev where "serve E io_good r (wk_journal s) = Some (j, ev)"
    by auto
  then have t: "wk_queue ?t = rest" "\<not> wk_done ?t" "wk_sent ?t = wk_sent s"
    using Cons.prems(1) by (simp_all add: run_turn_def q x)
  have "worker_step E s ?t"
    using Cons.prems(1) by (intro turn) (simp_all add: q)
  moreover have "\<forall>(c, r) \<in> set (wk_queue ?t). r \<noteq> StopRequested"
    using Cons.prems(2) by (simp add: t(1) q)
  then obtain s' where "(worker_step E)\<^sup>*\<^sup>* ?t s'" "wk_queue s' = []" "\<not> wk_done s'" "wk_sent s' = wk_sent ?t"
    using Cons.hyps(1) [of ?t] t by auto
  ultimately show ?case
    using t(3) by (metis converse_rtranclp_into_rtranclp)
qed

section \<open>Properties\<close>


definition worker_sample :: "nat worker" where
  "worker_sample = run_turn sample_json io_good (send_request 0 (CommitRequested 1 (sample_entry ''a'')) (NewWorker sample_start))"

lemma worker_sample_steps: "(worker_step sample_json)\<^sup>*\<^sup>* (NewWorker sample_start) worker_sample"
proof -
  let ?t = "send_request 0 (CommitRequested 1 (sample_entry ''a'')) (NewWorker sample_start)"
  have "worker_step sample_json (NewWorker sample_start) ?t"
    by (rule send) (simp_all add: NewWorker_def worker_capacity_def)
  moreover have "worker_step sample_json ?t worker_sample"
    unfolding worker_sample_def by (rule turn) (simp_all add: send_request_def NewWorker_def)
  ultimately show ?thesis
    by (rule converse_rtranclp_into_rtranclp [OF _ r_into_rtranclp])
qed


section \<open>Requests after the stop\<close>

text \<open>A stopped worker answers nothing any more, yet its channel still takes requests: a call whose \<open>select\<close> chooses the
  channel then waits for an answer that never comes.\<close>

lemma stopped_worker_silent:
  "(worker_step E)\<^sup>*\<^sup>* s s' \<Longrightarrow> wk_done s \<Longrightarrow> wk_done s' \<and> wk_replies s' = wk_replies s"
  by (induction rule: rtranclp_induct) (auto elim!: worker_stepE simp: send_request_def)

lemma stopped_worker_accepts:
  "\<exists>s s'. (worker_step E)\<^sup>*\<^sup>* (NewWorker j0) s \<and> wk_done s \<and> worker_step E s s'
     \<and> (1, DiscardRequested 7 ''a'') \<in> set (wk_queue s')"
proof -
  let ?a = "send_request 0 StopRequested (NewWorker j0)"
  let ?b = "run_turn E io_good ?a"
  let ?c = "send_request 1 (DiscardRequested 7 ''a'') ?b"
  have "worker_step E (NewWorker j0) ?a"
    by (rule send) (simp_all add: NewWorker_def worker_capacity_def)
  moreover have "worker_step E ?a ?b"
    by (rule turn) (simp_all add: send_request_def NewWorker_def)
  ultimately have "(worker_step E)\<^sup>*\<^sup>* (NewWorker j0) ?b"
    by (rule converse_rtranclp_into_rtranclp [OF _ r_into_rtranclp])
  moreover have "worker_step E ?b ?c"
    by (rule send) (simp_all add: run_turn_def send_request_def NewWorker_def worker_capacity_def)
  moreover have "wk_done ?b" "(1, DiscardRequested 7 ''a'') \<in> set (wk_queue ?c)"
    by (simp_all add: run_turn_def send_request_def NewWorker_def)
  ultimately show ?thesis
    by (intro exI conjI)
qed

end
