(* ===== verification/Portmap.thy ===== *)
theory Portmap
  imports Stun Go_Text
begin

text \<open>
  Asking the router for a UDP port mapping: \<open>src/internal/portmap/natpmp.go\<close>, \<open>pcp.go\<close>, \<open>gateway.go\<close> and the lifetime
  and record part of \<open>portmap.go\<close>.

  \<^item> A parser of router bytes returns \<open>Good\<close>, \<open>Bad\<close> (an error value) or \<open>Panic\<close>: indexing and slicing go through
    \<open>byte_at\<close> and \<open>slice_of\<close>, which panic out of range as Go does.
  \<^item> The network, the clock, the contexts and the random source are the record \<open>portmap_env\<close> of functions over a world
    \<open>'w\<close> that every operation threads; the definitions say in which order the code consults them.
  \<^item> An \<open>addr\<close> is a valid \<open>netip.Addr\<close> without a zone; the zero \<open>netip.Addr\<close> is \<open>None\<close> of \<open>addr option\<close>.
  \<^item> Logging, and the text of an error beyond the values it carries, are left out.
\<close>

section \<open>Results\<close>

datatype pm_error =
    Err_truncated nat nat | Err_oversized nat | Err_version byte | Err_opcode byte | Err_length nat
  | Err_natpmp "16 word" | Err_pcp byte | Err_nonce | Err_protocol byte | Err_external
  | Err_gateway | Err_dial | Err_route | Err_ctx | Err_write | Err_deadline | Err_read | Err_no_response
  | Err_rand | Err_port_zero | Err_internal_port
  | Err_discovery | Err_no_ssdp | Err_no_endpoint | Err_no_accept | Err_http | Err_soap_read | Err_upnp int int
  | Err_no_address | Err_bad_address | Err_url | Err_off_gateway | Err_method string
  | Err_join "pm_error list"

datatype 'a outcome = Good 'a | Bad pm_error | Panic

fun and_then :: "'a outcome \<Rightarrow> ('a \<Rightarrow> 'b outcome) \<Rightarrow> 'b outcome" where
  "and_then (Good x) f = f x"
| "and_then (Bad e) f = Bad e"
| "and_then Panic f = Panic"

lemma and_then_eq_Good: "and_then r f = Good y \<longleftrightarrow> (\<exists>x. r = Good x \<and> f x = Good y)"
  by (cases r) auto

lemma and_then_not_Panic: "r \<noteq> Panic \<Longrightarrow> (\<And>x. r = Good x \<Longrightarrow> f x \<noteq> Panic) \<Longrightarrow> and_then r f \<noteq> Panic"
  by (cases r) auto

text \<open>\<open>resp[i]\<close> and \<open>resp[lo:hi]\<close>.\<close>

definition byte_at :: "bytes \<Rightarrow> nat \<Rightarrow> byte outcome" where
  "byte_at bs i = (if i < length bs then Good (bs ! i) else Panic)"

definition slice_of :: "bytes \<Rightarrow> nat \<Rightarrow> nat \<Rightarrow> bytes outcome" where
  "slice_of bs lo hi = (if lo \<le> hi \<and> hi \<le> length bs then Good (take (hi - lo) (drop lo bs)) else Panic)"

lemma byte_at_Good [simp]: "i < length bs \<Longrightarrow> byte_at bs i = Good (bs ! i)"
  by (simp add: byte_at_def)

lemma slice_of_Good [simp]: "lo \<le> hi \<Longrightarrow> hi \<le> length bs \<Longrightarrow> slice_of bs lo hi = Good (take (hi - lo) (drop lo bs))"
  by (simp add: slice_of_def)

text \<open>\<open>binary.BigEndian.Uint16\<close> and \<open>Uint32\<close> of a slice.\<close>

definition uint16 :: "bytes \<Rightarrow> 16 word" where
  "uint16 bs = word_of_nat (be_decode bs)"

definition uint32 :: "bytes \<Rightarrow> 32 word" where
  "uint32 bs = word_of_nat (be_decode bs)"

definition put16 :: "16 word \<Rightarrow> bytes" where
  "put16 w = be_encode 2 (unat w)"

definition put32 :: "32 word \<Rightarrow> bytes" where
  "put32 w = be_encode 4 (unat w)"

lemma length_put [simp]: "length (put16 p) = 2" "length (put32 l) = 4"
  by (simp_all add: put16_def put32_def)

lemma uint16_put16 [simp]: "uint16 (put16 w) = w"
proof -
  have "unat w < 256 ^ 2"
    using unsigned_less [of w] by simp
  then show ?thesis
    by (simp add: uint16_def put16_def)
qed

lemma uint32_put32 [simp]: "uint32 (put32 w) = w"
proof -
  have "unat w < 256 ^ 4"
    using unsigned_less [of w] by simp
  then show ?thesis
    by (simp add: uint32_def put32_def)
qed

lemma put16_uint16: "length bs = 2 \<Longrightarrow> put16 (uint16 bs) = bs"
  using be_decode_less [of bs] be_encode_decode [of bs 2]
  by (simp add: uint16_def put16_def unat_of_nat)

lemma put32_uint32: "length bs = 4 \<Longrightarrow> put32 (uint32 bs) = bs"
  using be_decode_less [of bs] be_encode_decode [of bs 4]
  by (simp add: uint32_def put32_def unat_of_nat)

text \<open>A number of seconds of the wire as a \<open>time.Duration\<close>, and back: \<open>uint32(d / time.Second)\<close>.\<close>

definition seconds_of :: "32 word \<Rightarrow> duration" where
  "seconds_of n = int64 (uint n * second)"

definition whole_seconds :: "duration \<Rightarrow> 32 word" where
  "whole_seconds d = word_of_int (d sdiv second)"

lemma seconds_of_exact: "seconds_of n = uint n * second"
proof -
  have "uint n < 4294967296"
    using uint_range_size [of n] by (simp add: word_size)
  then have "uint n * 1000000000 < 2 ^ 63"
    by simp
  moreover have "- (2 ^ 63) \<le> uint n * 1000000000"
    by (rule order_trans [of _ 0]) simp_all
  ultimately show ?thesis
    unfolding seconds_of_def second_def by (intro int64_exact)
qed

section \<open>NAT-PMP\<close>

definition natpmpVersion :: byte where "natpmpVersion = 0"
definition natpmpOpExternal :: byte where "natpmpOpExternal = 0"
definition natpmpOpMapUDP :: byte where "natpmpOpMapUDP = 1"
definition natpmpResponseBit :: byte where "natpmpResponseBit = 0x80"
definition natpmpMapRespLen :: nat where "natpmpMapRespLen = 16"
definition natpmpExtRespLen :: nat where "natpmpExtRespLen = 12"
definition natpmpMaxRespBytes :: nat where "natpmpMaxRespBytes = 64"

lemmas natpmp_consts = natpmpVersion_def natpmpOpExternal_def natpmpOpMapUDP_def natpmpResponseBit_def
  natpmpMapRespLen_def natpmpExtRespLen_def natpmpMaxRespBytes_def

definition encodeNATPMPMap :: "16 word \<Rightarrow> 16 word \<Rightarrow> 32 word \<Rightarrow> bytes" where
  "encodeNATPMPMap internalPort externalPort lifetime =
     [natpmpVersion, natpmpOpMapUDP, 0, 0] @ put16 internalPort @ put16 externalPort @ put32 lifetime"

definition encodeNATPMPExternal :: bytes where
  "encodeNATPMPExternal = [natpmpVersion, natpmpOpExternal]"

definition checkNATPMPHeader :: "bytes \<Rightarrow> byte \<Rightarrow> nat \<Rightarrow> 16 word outcome" where
  "checkNATPMPHeader resp opcode want =
     (if length resp < want then Bad (Err_truncated (length resp) want)
      else if length resp > natpmpMaxRespBytes then Bad (Err_oversized (length resp))
      else and_then (byte_at resp 0) (\<lambda>version.
        if version \<noteq> natpmpVersion then Bad (Err_version version)
        else and_then (byte_at resp 1) (\<lambda>op.
          if op \<noteq> or opcode natpmpResponseBit then Bad (Err_opcode op)
          else and_then (slice_of resp 2 4) (\<lambda>c.
            if uint16 c \<noteq> 0 then Bad (Err_natpmp (uint16 c)) else Good (uint16 c)))))"

record natpmp_result =
  nr_internal :: "16 word"
  nr_external :: "16 word"
  nr_lifetime :: duration

definition parseNATPMPMap :: "bytes \<Rightarrow> natpmp_result outcome" where
  "parseNATPMPMap resp =
     and_then (checkNATPMPHeader resp natpmpOpMapUDP natpmpMapRespLen) (\<lambda>_.
       and_then (slice_of resp 8 10) (\<lambda>i.
         and_then (slice_of resp 10 12) (\<lambda>e.
           and_then (slice_of resp 12 16) (\<lambda>l.
             Good \<lparr>nr_internal = uint16 i, nr_external = uint16 e, nr_lifetime = seconds_of (uint32 l)\<rparr>))))"

definition parseNATPMPExternal :: "bytes \<Rightarrow> addr outcome" where
  "parseNATPMPExternal resp =
     and_then (checkNATPMPHeader resp natpmpOpExternal natpmpExtRespLen) (\<lambda>_.
       and_then (slice_of resp 8 12) (\<lambda>a. Good (IPv4 a)))"

section \<open>PCP\<close>

definition pcpVersion :: byte where "pcpVersion = 2"
definition pcpOpMap :: byte where "pcpOpMap = 1"
definition pcpResponseBit :: byte where "pcpResponseBit = 0x80"
definition pcpNonceLen :: nat where "pcpNonceLen = 12"
definition pcpProtoUDP :: byte where "pcpProtoUDP = 17"
definition pcpMinRespBytes :: nat where "pcpMinRespBytes = 24 + 36"
definition pcpMaxRespBytes :: nat where "pcpMaxRespBytes = 1100"
definition pcpAddrLen :: nat where "pcpAddrLen = 16"
definition pcpLengthQuantum :: nat where "pcpLengthQuantum = 4"

lemmas pcp_consts = pcpVersion_def pcpOpMap_def pcpResponseBit_def pcpNonceLen_def pcpProtoUDP_def pcpMinRespBytes_def
  pcpMaxRespBytes_def pcpAddrLen_def pcpLengthQuantum_def

definition addr16 :: "addr option \<Rightarrow> bytes" where
  "addr16 a = (case a of None \<Rightarrow> replicate pcpAddrLen 0 | Some x \<Rightarrow> As16 x)"

definition encodePCPMap :: "bytes \<Rightarrow> addr option \<Rightarrow> 16 word \<Rightarrow> 16 word \<Rightarrow> addr option \<Rightarrow> 32 word \<Rightarrow> bytes" where
  "encodePCPMap nonce local internalPort suggestedPort suggestedExternal lifetime =
     [pcpVersion, pcpOpMap, 0, 0] @ put32 lifetime @ addr16 local
     @ nonce @ [pcpProtoUDP, 0, 0, 0] @ put16 internalPort @ put16 suggestedPort @ addr16 suggestedExternal"

record pcp_result =
  pr_internal :: "16 word"
  pr_external :: addr
  pr_port :: "16 word"
  pr_lifetime :: duration

text \<open>\<open>netip.AddrFromSlice\<close>.\<close>

definition addr_from_slice :: "bytes \<Rightarrow> addr option" where
  "addr_from_slice b = (if length b = 4 then Some (IPv4 b) else if length b = 16 then Some (IPv6 b) else None)"

definition parsePCPMapResponse :: "bytes \<Rightarrow> bytes \<Rightarrow> pcp_result outcome" where
  "parsePCPMapResponse resp nonce =
     (if length resp < pcpMinRespBytes then Bad (Err_truncated (length resp) pcpMinRespBytes)
      else if length resp > pcpMaxRespBytes then Bad (Err_oversized (length resp))
      else if length resp mod pcpLengthQuantum \<noteq> 0 then Bad (Err_length (length resp))
      else and_then (byte_at resp 0) (\<lambda>version.
        if version \<noteq> pcpVersion then Bad (Err_version version)
        else and_then (byte_at resp 1) (\<lambda>op.
          if op \<noteq> or pcpOpMap pcpResponseBit then Bad (Err_opcode op)
          else and_then (byte_at resp 3) (\<lambda>code.
            if code \<noteq> 0 then Bad (Err_pcp code)
            else and_then (slice_of resp 24 36) (\<lambda>echo.
              if echo \<noteq> nonce then Bad Err_nonce
              else and_then (byte_at resp 36) (\<lambda>proto.
                if proto \<noteq> pcpProtoUDP then Bad (Err_protocol proto)
                else and_then (slice_of resp 44 60) (\<lambda>ext.
                  case addr_from_slice ext of
                    None \<Rightarrow> Bad Err_external
                  | Some external \<Rightarrow>
                      and_then (slice_of resp 40 42) (\<lambda>i.
                        and_then (slice_of resp 42 44) (\<lambda>e.
                          and_then (slice_of resp 4 8) (\<lambda>l.
                            Good \<lparr>pr_internal = uint16 i, pr_external = Unmap external, pr_port = uint16 e,
                                  pr_lifetime = seconds_of (uint32 l)\<rparr>))))))))))"

section \<open>Default gateways\<close>

text \<open>\<open>strconv.ParseUint(s, 16, 32)\<close>: hexadecimal digits only, no sign, at most 32 bits.\<close>

definition hex_val :: "char \<Rightarrow> nat option" where
  "hex_val c =
     (let b = byte_val c
      in if 48 \<le> b \<and> b \<le> 57 then Some (b - 48)
         else if 97 \<le> b \<and> b \<le> 102 then Some (b - 87)
         else if 65 \<le> b \<and> b \<le> 70 then Some (b - 55)
         else None)"

fun hex_digits :: "string \<Rightarrow> nat \<Rightarrow> nat option" where
  "hex_digits [] acc = Some acc"
| "hex_digits (c # cs) acc = (case hex_val c of None \<Rightarrow> None | Some d \<Rightarrow> hex_digits cs (16 * acc + d))"

definition parse_hex32 :: "string \<Rightarrow> 32 word option" where
  "parse_hex32 s =
     (if s = [] then None
      else case hex_digits s 0 of None \<Rightarrow> None | Some n \<Rightarrow> if n < 2 ^ 32 then Some (word_of_nat n) else None)"

definition rtfGateway :: "32 word" where "rtfGateway = 2"
definition maxRouteBytes :: nat where "maxRouteBytes = 256 * 1024"
definition maxRouteLines :: nat where "maxRouteLines = 4096"
definition max_scan_token :: nat where "max_scan_token = 64 * 1024"

definition is_unspecified :: "addr \<Rightarrow> bool" where
  "is_unspecified a = (case a of IPv4 b \<Rightarrow> b = replicate 4 0 | IPv6 b \<Rightarrow> b = replicate 16 0)"

text \<open>The octets of a little-endian word.\<close>

definition parseHexIPv4 :: "string \<Rightarrow> addr option" where
  "parseHexIPv4 field =
     (if length field \<noteq> 8 then None
      else case parse_hex32 field of None \<Rightarrow> None | Some v \<Rightarrow> Some (IPv4 (rev (put32 v))))"

definition route_gateway :: "string \<Rightarrow> addr option" where
  "route_gateway line =
     (let fields = Fields line
      in if length fields < 4 \<or> fields ! 1 \<noteq> ''00000000'' then None
         else case parse_hex32 (fields ! 3) of
                None \<Rightarrow> None
              | Some flags \<Rightarrow>
                  if and flags rtfGateway = 0 then None
                  else case parseHexIPv4 (fields ! 2) of
                         None \<Rightarrow> None
                       | Some a \<Rightarrow> if is_unspecified a then None else Some a)"

fun route_loop :: "string list \<Rightarrow> addr list \<Rightarrow> addr list" where
  "route_loop [] out = out"
| "route_loop (l # ls) out =
     (case route_gateway l of
        None \<Rightarrow> route_loop ls out
      | Some a \<Rightarrow> if a \<in> set out then route_loop ls out else route_loop ls (out @ [a]))"

definition parseProcNetRoute :: "string \<Rightarrow> addr list" where
  "parseProcNetRoute content =
     (let tokens = map drop_cr (takeWhile (\<lambda>l. length l < max_scan_token) (raw_lines (take maxRouteBytes content)))
      in route_loop (take maxRouteLines tokens) [])"

text \<open>\<open>strings.Cut\<close> at the first colon, and the gateway line of \<open>route -n get default\<close>; \<open>netip.ParseAddr\<close> is an argument.\<close>

fun cut_char :: "char \<Rightarrow> string \<Rightarrow> (string \<times> string) option" where
  "cut_char c [] = None"
| "cut_char c (x # xs) =
     (if x = c then Some ([], xs) else case cut_char c xs of None \<Rightarrow> None | Some (a, b) \<Rightarrow> Some (x # a, b))"

fun route_get_loop :: "(string \<Rightarrow> addr option) \<Rightarrow> string list \<Rightarrow> addr list" where
  "route_get_loop parse_addr [] = []"
| "route_get_loop parse_addr (l # ls) =
     (case cut_char CHR '':'' l of
        None \<Rightarrow> route_get_loop parse_addr ls
      | Some (key, v) \<Rightarrow>
          if trim_space key \<noteq> ''gateway'' then route_get_loop parse_addr ls
          else case parse_addr (trim_space v) of
                 None \<Rightarrow> route_get_loop parse_addr ls
               | Some a \<Rightarrow> if is_unspecified a then route_get_loop parse_addr ls else [Unmap a])"

definition parseRouteGet :: "(string \<Rightarrow> addr option) \<Rightarrow> string \<Rightarrow> addr list" where
  "parseRouteGet parse_addr out = route_get_loop parse_addr (split_char newline (take maxRouteBytes out))"

section \<open>The router\<close>

datatype dial_result = Dial_failed | Dialed "bytes option"

datatype read_result = Datagram bytes | Read_timeout | Read_failed

record 'w portmap_env =
  pe_now :: "'w \<Rightarrow> time"
  pe_ctx_err :: "'w \<Rightarrow> bool"
  pe_step_err :: "'w \<Rightarrow> bool"
  pe_ctx_deadline :: "'w \<Rightarrow> time option"
  pe_dial :: "addr \<Rightarrow> 'w \<Rightarrow> dial_result \<times> 'w"
  pe_write :: "bytes \<Rightarrow> 'w \<Rightarrow> bool \<times> 'w"
  pe_set_deadline :: "time \<Rightarrow> 'w \<Rightarrow> bool \<times> 'w"
  pe_read :: "'w \<Rightarrow> read_result \<times> 'w"
  pe_rand :: "nat \<Rightarrow> 'w \<Rightarrow> bytes option \<times> 'w"

definition stepTimeout :: duration where "stepTimeout = 3 * second"
definition udpInitialTimeout :: duration where "udpInitialTimeout = 250 * millisecond"
definition udpMaxAttempts :: nat where "udpMaxAttempts = 3"

text \<open>The buffer holds one byte more than \<open>maxResponse\<close>; a longer datagram is cut there, as UDP reads are.\<close>

primrec exchange_loop ::
  "('w, 'z) portmap_env_scheme \<Rightarrow> bytes \<Rightarrow> nat \<Rightarrow> time \<Rightarrow> nat \<Rightarrow> duration \<Rightarrow> 'w \<Rightarrow> bytes outcome \<times> 'w" where
  "exchange_loop E request maxResponse hardDeadline 0 timeout w = (Bad Err_no_response, w)"
| "exchange_loop E request maxResponse hardDeadline (Suc k) timeout w =
     (if pe_step_err E w then (Bad Err_ctx, w)
      else case pe_write E request w of
        (False, w1) \<Rightarrow> (Bad Err_write, w1)
      | (True, w1) \<Rightarrow>
          (case pe_set_deadline E (min (pe_now E w1 + timeout) hardDeadline) w1 of
             (False, w2) \<Rightarrow> (Bad Err_deadline, w2)
           | (True, w2) \<Rightarrow>
               (case pe_read E w2 of
                  (Datagram d, w3) \<Rightarrow>
                    let buf = take (maxResponse + 1) d
                    in if length buf > maxResponse then (Bad (Err_oversized maxResponse), w3) else (Good buf, w3)
                | (Read_timeout, w3) \<Rightarrow> exchange_loop E request maxResponse hardDeadline k (timeout * 2) w3
                | (Read_failed, w3) \<Rightarrow> (Bad Err_read, w3))))"

definition exchange ::
  "('w, 'z) portmap_env_scheme \<Rightarrow> addr option \<Rightarrow> bytes \<Rightarrow> nat \<Rightarrow> 'w \<Rightarrow> bytes outcome \<times> 'w" where
  "exchange E gateway request maxResponse w =
     (case gateway of
        None \<Rightarrow> (Bad Err_gateway, w)
      | Some a \<Rightarrow>
          let own = pe_now E w + stepTimeout;
              hardDeadline = (case pe_ctx_deadline E w of None \<Rightarrow> own | Some d \<Rightarrow> min d own)
          in case pe_dial E a w of
               (Dial_failed, w1) \<Rightarrow> (Bad Err_dial, w1)
             | (Dialed l, w1) \<Rightarrow>
                 exchange_loop E request maxResponse hardDeadline udpMaxAttempts udpInitialTimeout w1)"

definition localAddrFor :: "('w, 'z) portmap_env_scheme \<Rightarrow> addr \<Rightarrow> 'w \<Rightarrow> addr outcome \<times> 'w" where
  "localAddrFor E gateway w =
     (case pe_dial E gateway w of
        (Dial_failed, w1) \<Rightarrow> (Bad Err_route, w1)
      | (Dialed None, w1) \<Rightarrow> (Bad Err_route, w1)
      | (Dialed (Some ip), w1) \<Rightarrow>
          (case addr_from_slice ip of None \<Rightarrow> (Bad Err_route, w1) | Some a \<Rightarrow> (Good (Unmap a), w1)))"

section \<open>Mappings\<close>

definition MethodPCP :: string where "MethodPCP = ''pcp''"
definition MethodNATPMP :: string where "MethodNATPMP = ''nat-pmp''"
definition MethodUPnP :: string where "MethodUPnP = ''upnp''"

definition DefaultLifetime :: duration where "DefaultLifetime = 3600 * second"
definition minLifetime :: duration where "minLifetime = 120 * second"
definition maxLifetime :: duration where "maxLifetime = 24 * (3600 * second)"

record mapping =
  mg_addr :: addr
  mg_port :: "16 word"
  mg_internal :: "16 word"
  mg_method :: string
  mg_lifetime :: duration
  mg_expires :: time
  mg_owned :: bool
  mg_gateway :: "addr option"
  mg_local :: "addr option"
  mg_nonce :: bytes
  mg_control :: string
  mg_service :: string

definition clampLifetime :: "duration \<Rightarrow> duration" where
  "clampLifetime lifetime =
     (if lifetime < minLifetime then minLifetime else if lifetime > maxLifetime then maxLifetime else lifetime)"

definition ipv4_unspecified :: addr where
  "ipv4_unspecified = IPv4 [0, 0, 0, 0]"

definition zero_nonce :: bytes where
  "zero_nonce = replicate pcpNonceLen 0"

definition natpmpExternalAddr :: "('w, 'z) portmap_env_scheme \<Rightarrow> addr option \<Rightarrow> 'w \<Rightarrow> addr outcome \<times> 'w" where
  "natpmpExternalAddr E gateway w =
     (let (r, w1) = exchange E gateway encodeNATPMPExternal natpmpMaxRespBytes w
      in (and_then r parseNATPMPExternal, w1))"

text \<open>The lifetime of the mapping: what the router granted, or what was asked when it reports none.\<close>

definition granted_lifetime :: "duration \<Rightarrow> duration \<Rightarrow> duration" where
  "granted_lifetime reported lifetime = (if reported \<le> 0 then lifetime else reported)"

definition mapNATPMP ::
  "('w, 'z) portmap_env_scheme \<Rightarrow> addr \<Rightarrow> 16 word \<Rightarrow> duration \<Rightarrow> 'w \<Rightarrow> mapping outcome \<times> 'w" where
  "mapNATPMP E gateway internalPort lifetime w =
     (let (r, w1) = exchange E (Some gateway) (encodeNATPMPMap internalPort internalPort (whole_seconds lifetime))
                      natpmpMaxRespBytes w
      in case and_then r parseNATPMPMap of
           Panic \<Rightarrow> (Panic, w1)
         | Bad e \<Rightarrow> (Bad e, w1)
         | Good result \<Rightarrow>
             if nr_external result = 0 then (Bad Err_port_zero, w1)
             else let lease = granted_lifetime (nr_lifetime result) lifetime;
                      (x, w2) = natpmpExternalAddr E (Some gateway) w1
                  in case x of
                       Panic \<Rightarrow> (Panic, w2)
                     | _ \<Rightarrow>
                       (Good \<lparr>mg_addr = (case x of Good a \<Rightarrow> a | _ \<Rightarrow> ipv4_unspecified), mg_port = nr_external result,
                              mg_internal = internalPort, mg_method = MethodNATPMP, mg_lifetime = lease,
                              mg_expires = pe_now E w2 + lease, mg_owned = True, mg_gateway = Some gateway,
                              mg_local = None, mg_nonce = zero_nonce, mg_control = [], mg_service = []\<rparr>, w2))"

text \<open>\<open>rand.Read(nonce[:])\<close> fills an array of twelve bytes.\<close>

definition fill_array :: "nat \<Rightarrow> bytes \<Rightarrow> bytes" where
  "fill_array n bs = take n (bs @ replicate n 0)"

lemma length_fill_array [simp]: "length (fill_array n bs) = n"
  by (simp add: fill_array_def)

definition mapPCP ::
  "('w, 'z) portmap_env_scheme \<Rightarrow> addr \<Rightarrow> 16 word \<Rightarrow> duration \<Rightarrow> 'w \<Rightarrow> mapping outcome \<times> 'w" where
  "mapPCP E gateway internalPort lifetime w =
     (case localAddrFor E gateway w of
        (Panic, w1) \<Rightarrow> (Panic, w1)
      | (Bad e, w1) \<Rightarrow> (Bad e, w1)
      | (Good local, w1) \<Rightarrow>
          (case pe_rand E pcpNonceLen w1 of
             (None, w2) \<Rightarrow> (Bad Err_rand, w2)
           | (Some raw, w2) \<Rightarrow>
               let nonce = fill_array pcpNonceLen raw;
                   (r, w3) = exchange E (Some gateway)
                     (encodePCPMap nonce (Some local) internalPort internalPort None (whole_seconds lifetime))
                     pcpMaxRespBytes w2
               in case and_then r (\<lambda>resp. parsePCPMapResponse resp nonce) of
                    Panic \<Rightarrow> (Panic, w3)
                  | Bad e \<Rightarrow> (Bad e, w3)
                  | Good result \<Rightarrow>
                      if pr_port result = 0 then (Bad Err_port_zero, w3)
                      else let lease = granted_lifetime (pr_lifetime result) lifetime
                           in (Good \<lparr>mg_addr = pr_external result, mg_port = pr_port result, mg_internal = internalPort,
                                     mg_method = MethodPCP, mg_lifetime = lease,
                                     mg_expires = pe_now E w3 + lease, mg_owned = True, mg_gateway = Some gateway,
                                     mg_local = Some local, mg_nonce = nonce, mg_control = [], mg_service = []\<rparr>, w3)))"

definition releaseNATPMP :: "('w, 'z) portmap_env_scheme \<Rightarrow> mapping \<Rightarrow> 'w \<Rightarrow> unit outcome \<times> 'w" where
  "releaseNATPMP E m w =
     (let (r, w1) = exchange E (mg_gateway m) (encodeNATPMPMap (mg_internal m) 0 0) natpmpMaxRespBytes w
      in (and_then (and_then r parseNATPMPMap) (\<lambda>_. Good ()), w1))"

definition releasePCP :: "('w, 'z) portmap_env_scheme \<Rightarrow> mapping \<Rightarrow> 'w \<Rightarrow> unit outcome \<times> 'w" where
  "releasePCP E m w =
     (let (r, w1) = exchange E (mg_gateway m) (encodePCPMap (mg_nonce m) (mg_local m) (mg_internal m) 0 None 0)
                      pcpMaxRespBytes w
      in (and_then (and_then r (\<lambda>resp. parsePCPMapResponse resp (mg_nonce m))) (\<lambda>_. Good ()), w1))"

end
