(* ===== verification/Upnp.thy ===== *)
theory Upnp
  imports Portmap
begin

text \<open>
  UPnP port mappings and the choice of a protocol: \<open>src/internal/portmap/upnp.go\<close> and \<open>mapUDP\<close>, \<open>Release\<close> of
  \<open>portmap.go\<close>.

  A URL is the record of its parts. What the code takes from \<open>net/url\<close>, \<open>net/netip\<close>, \<open>net/textproto\<close> and
  \<open>encoding/xml\<close> (parsing, printing, resolving a reference, decoding a description) is the record \<open>upnp_lib\<close> of
  functions; nothing is assumed of them, so a theorem about them holds for a router that answers with any bytes.
  \<open>http_do\<close> is \<open>http.Client.Do\<close> with Go's default redirect policy, which \<open>newUPnPHTTPClient\<close> leaves in place.
\<close>

section \<open>URLs and addresses\<close>

record url =
  u_scheme :: string
  u_user :: "string option"
  u_host :: string
  u_rest :: string

datatype upnp_device = Device "(string \<times> string) list" "upnp_device list"

record upnp_root =
  ur_base :: string
  ur_device :: upnp_device

record upnp_lib =
  ul_parse :: "string \<Rightarrow> url option"
  ul_string :: "url \<Rightarrow> string"
  ul_resolve :: "url \<Rightarrow> url \<Rightarrow> url"
  ul_parse_addr :: "string \<Rightarrow> addr option"
  ul_addr_string :: "addr \<Rightarrow> string"
  ul_status_line :: "bytes \<Rightarrow> string option"
  ul_location :: "bytes \<Rightarrow> string option"
  ul_root :: "bytes \<Rightarrow> upnp_root option"
  ul_value :: "bytes \<Rightarrow> string \<Rightarrow> string option"

text \<open>\<open>URL.Hostname\<close>: the host without a port and without the brackets of an IPv6 literal.\<close>

definition strip_port :: "string \<Rightarrow> string" where
  "strip_port h =
     (let tail = takeWhile (\<lambda>c. c \<noteq> CHR '':'') (rev h)
      in if CHR '':'' \<in> set h \<and> list_all is_digit tail then take (length h - length tail - 1) h else h)"

definition Hostname :: "url \<Rightarrow> string" where
  "Hostname u =
     (let h = strip_port (u_host u)
      in if has_prefix h ''['' \<and> has_suffix h '']'' then take (length h - 2) (drop 1 h) else h)"

text \<open>\<open>IsLoopback\<close>, \<open>IsPrivate\<close> and \<open>IsLinkLocalUnicast\<close> look through IPv4-mapped addresses.\<close>

fun IsLoopback :: "addr \<Rightarrow> bool" where
  "IsLoopback (IPv4 b) \<longleftrightarrow> b ! 0 = 127"
| "IsLoopback (IPv6 b) \<longleftrightarrow> b = replicate 15 0 @ [1]"

fun IsPrivate :: "addr \<Rightarrow> bool" where
  "IsPrivate (IPv4 b) \<longleftrightarrow> b ! 0 = 10 \<or> b ! 0 = 172 \<and> and (b ! 1) 0xF0 = 16 \<or> b ! 0 = 192 \<and> b ! 1 = 168"
| "IsPrivate (IPv6 b) \<longleftrightarrow> and (b ! 0) 0xFE = 0xFC"

fun IsLinkLocalUnicast :: "addr \<Rightarrow> bool" where
  "IsLinkLocalUnicast (IPv4 b) \<longleftrightarrow> b ! 0 = 169 \<and> b ! 1 = 254"
| "IsLinkLocalUnicast (IPv6 b) \<longleftrightarrow> b ! 0 = 0xFE \<and> and (b ! 1) 0xC0 = 0x80"

definition routerAddrAllowed :: "addr option \<Rightarrow> bool" where
  "routerAddrAllowed a =
     (case a of None \<Rightarrow> False
      | Some x \<Rightarrow> IsLoopback (Unmap x) \<or> IsPrivate (Unmap x) \<or> IsLinkLocalUnicast (Unmap x))"

definition hostAddr :: "upnp_lib \<Rightarrow> url \<Rightarrow> addr option" where
  "hostAddr L u = map_option Unmap (ul_parse_addr L (Hostname u))"

section \<open>The network\<close>

record http_request =
  hq_url :: url
  hq_post :: bool
  hq_action :: string
  hq_body :: string

datatype http_result = Http_failed | Http_reply int bytes bool string

record 'w upnp_env = "'w portmap_env" +
  ue_gateways :: "'w \<Rightarrow> (bool \<times> addr list) \<times> 'w"
  ue_ssdp_open :: "'w \<Rightarrow> bool \<times> 'w"
  ue_ssdp_datagrams :: "'w \<Rightarrow> (bytes \<times> bytes) list \<times> 'w"
  ue_map_order :: "addr list \<Rightarrow> 'w \<Rightarrow> addr list"
  ue_roundtrip :: "http_request \<Rightarrow> 'w \<Rightarrow> http_result \<times> 'w"

text \<open>\<open>http.Client.Do\<close>: a redirect with a \<open>Location\<close> is followed, at most ten requests are made, and a \<open>POST\<close> that is
  redirected by 301, 302 or 303 becomes a \<open>GET\<close> without a body.\<close>

definition redirect_status :: "int \<Rightarrow> bool" where
  "redirect_status s \<longleftrightarrow> s \<in> {301, 302, 303, 307, 308}"

definition redirected :: "http_request \<Rightarrow> int \<Rightarrow> url \<Rightarrow> http_request" where
  "redirected q status u =
     (if status \<in> {307, 308} then q\<lparr>hq_url := u\<rparr> else q\<lparr>hq_url := u, hq_post := False, hq_body := []\<rparr>)"

primrec http_do :: "upnp_lib \<Rightarrow> ('w, 'z) upnp_env_scheme \<Rightarrow> nat \<Rightarrow> http_request \<Rightarrow> 'w \<Rightarrow> http_result \<times> 'w" where
  "http_do L E 0 q w = (Http_failed, w)"
| "http_do L E (Suc n) q w =
     (case ue_roundtrip E q w of
        (Http_failed, w1) \<Rightarrow> (Http_failed, w1)
      | (Http_reply status body complete location, w1) \<Rightarrow>
          if redirect_status status \<and> location \<noteq> []
          then (case ul_parse L location of
                  None \<Rightarrow> (Http_failed, w1)
                | Some ref \<Rightarrow> http_do L E n (redirected q status (ul_resolve L (hq_url q) ref)) w1)
          else (Http_reply status body complete location, w1))"

definition max_requests :: nat where "max_requests = 10"

section \<open>Discovery\<close>

definition ssdpMaxDatagram :: nat where "ssdpMaxDatagram = 2048"
definition ssdpMaxResponses :: nat where "ssdpMaxResponses = 8"
definition maxDescriptionBytes :: nat where "maxDescriptionBytes = 256 * 1024"
definition maxSOAPBytes :: nat where "maxSOAPBytes = 64 * 1024"
definition maxDeviceDepth :: nat where "maxDeviceDepth = 8"

definition upnpServiceTypes :: "string list" where
  "upnpServiceTypes =
     [''urn:schemas-upnp-org:service:WANIPConnection:2'',
      ''urn:schemas-upnp-org:service:WANIPConnection:1'',
      ''urn:schemas-upnp-org:service:WANPPPConnection:1'']"

text \<open>The letters of \<open>HTTP\<close> are the upper case of no rune but themselves and their ASCII lower case.\<close>

definition ascii_upper :: "char \<Rightarrow> char" where
  "ascii_upper c = (if 97 \<le> byte_val c \<and> byte_val c \<le> 122 then char_of (byte_val c - 32) else c)"

definition parseSSDPLocation :: "upnp_lib \<Rightarrow> bytes \<Rightarrow> url option" where
  "parseSSDPLocation L datagram =
     (case ul_status_line L datagram of
        None \<Rightarrow> None
      | Some status \<Rightarrow>
          if \<not> has_prefix (map ascii_upper status) ''HTTP/1.1 200'' then None
          else case ul_location L datagram of
                 None \<Rightarrow> None
               | Some raw \<Rightarrow>
                   if trim_space raw = [] then None
                   else case ul_parse L (trim_space raw) of
                          None \<Rightarrow> None
                        | Some u \<Rightarrow> if u_scheme u \<noteq> ''http'' \<or> u_host u = [] then None else Some u)"

text \<open>The search loop over the datagrams that arrive before the deadline, each with its source; \<open>found\<close> is the Go map in
  insertion order.\<close>

fun ssdp_loop :: "upnp_lib \<Rightarrow> (bytes \<times> bytes) list \<Rightarrow> (addr \<times> url) list \<Rightarrow> (addr \<times> url) list" where
  "ssdp_loop L [] found = found"
| "ssdp_loop L ((d, ip) # ds) found =
     (if length found \<ge> ssdpMaxResponses then found
      else case addr_from_slice ip of
        None \<Rightarrow> ssdp_loop L ds found
      | Some raw \<Rightarrow>
          (let source = Unmap raw
           in if \<not> routerAddrAllowed (Some source) then ssdp_loop L ds found
              else if source \<in> fst ` set found then ssdp_loop L ds found
              else case parseSSDPLocation L (take ssdpMaxDatagram d) of
                     None \<Rightarrow> ssdp_loop L ds found
                   | Some location \<Rightarrow>
                       if hostAddr L location \<noteq> Some source then ssdp_loop L ds found
                       else ssdp_loop L ds (found @ [(source, location)])))"

definition ssdpSearch :: "upnp_lib \<Rightarrow> ('w, 'z) upnp_env_scheme \<Rightarrow> 'w \<Rightarrow> (addr \<times> url) list outcome \<times> 'w" where
  "ssdpSearch L E w =
     (case ue_ssdp_open E w of
        (False, w1) \<Rightarrow> (Bad Err_discovery, w1)
      | (True, w1) \<Rightarrow>
          (let (ds, w2) = ue_ssdp_datagrams E w1; found = ssdp_loop L ds []
           in if found = [] then (Bad Err_no_ssdp, w2) else (Good found, w2)))"

fun collectServices :: "upnp_device \<Rightarrow> nat \<Rightarrow> (string \<times> string) list"
  and collect_devices :: "upnp_device list \<Rightarrow> nat \<Rightarrow> (string \<times> string) list" where
  "collectServices (Device services devices) depth =
     (if depth > maxDeviceDepth then [] else services @ collect_devices devices (Suc depth))"
| "collect_devices [] depth = []"
| "collect_devices (d # ds) depth = collectServices d depth @ collect_devices ds depth"

record upnp_target =
  ut_gateway :: addr
  ut_control :: url
  ut_service :: string

definition resolveControlURL :: "upnp_lib \<Rightarrow> url \<Rightarrow> string \<Rightarrow> addr \<Rightarrow> url option" where
  "resolveControlURL L b raw gateway =
     (if trim_space raw = [] then None
      else case ul_parse L (trim_space raw) of
             None \<Rightarrow> None
           | Some ref \<Rightarrow>
               (let resolved = ul_resolve L b ref
                in if u_scheme resolved \<noteq> ''http'' then None
                   else if hostAddr L resolved \<noteq> Some gateway then None
                   else Some (resolved\<lparr>u_user := None\<rparr>)))"

text \<open>\<open>slices.Index\<close>, with the length of the list for \<open>-1\<close>.\<close>

definition service_rank :: "string \<Rightarrow> nat" where
  "service_rank s = length (takeWhile (\<lambda>t. t \<noteq> s) upnpServiceTypes)"

definition service_target :: "upnp_lib \<Rightarrow> url \<Rightarrow> addr \<Rightarrow> string \<times> string \<Rightarrow> upnp_target option" where
  "service_target L b gateway s =
     (if trim_space (fst s) \<notin> set upnpServiceTypes then None
      else case resolveControlURL L b (snd s) gateway of
             None \<Rightarrow> None
           | Some control \<Rightarrow> Some \<lparr>ut_gateway = gateway, ut_control = control, ut_service = trim_space (fst s)\<rparr>)"

definition description_base :: "upnp_lib \<Rightarrow> url \<Rightarrow> string \<Rightarrow> url" where
  "description_base L location raw =
     (if trim_space raw = [] then location
      else case ul_parse L (trim_space raw) of
             None \<Rightarrow> location
           | Some parsed \<Rightarrow> if u_scheme parsed \<noteq> [] then parsed else location)"

definition controlTargets :: "upnp_lib \<Rightarrow> bytes \<Rightarrow> url \<Rightarrow> addr \<Rightarrow> upnp_target list" where
  "controlTargets L body location gateway =
     (case ul_root L body of
        None \<Rightarrow> []
      | Some root \<Rightarrow>
          (let b = description_base L location (ur_base root)
           in if hostAddr L b \<noteq> Some gateway then []
              else sort_key (\<lambda>t. service_rank (ut_service t))
                     (List.map_filter (service_target L b gateway) (collectServices (ur_device root) 0))))"

definition fetchDescription :: "upnp_lib \<Rightarrow> ('w, 'z) upnp_env_scheme \<Rightarrow> url \<Rightarrow> 'w \<Rightarrow> bytes outcome \<times> 'w" where
  "fetchDescription L E location w =
     (case ul_parse L (ul_string L location) of
        None \<Rightarrow> (Bad Err_url, w)
      | Some u \<Rightarrow>
          (case http_do L E max_requests \<lparr>hq_url = u, hq_post = False, hq_action = [], hq_body = []\<rparr> w of
             (Http_failed, w1) \<Rightarrow> (Bad Err_http, w1)
           | (Http_reply status body complete _, w1) \<Rightarrow>
               if status \<noteq> 200 then (Bad Err_http, w1)
               else if \<not> complete then (Bad Err_http, w1)
               else (Good (take maxDescriptionBytes body), w1)))"

definition preferenceRank :: "addr list \<Rightarrow> addr \<Rightarrow> nat" where
  "preferenceRank preferred a = (if a \<in> set preferred then 0 else 1)"

fun describe_loop ::
  "upnp_lib \<Rightarrow> ('w, 'z) upnp_env_scheme \<Rightarrow> (addr \<times> url) list \<Rightarrow> addr list \<Rightarrow> upnp_target list \<Rightarrow> 'w
   \<Rightarrow> upnp_target list outcome \<times> 'w" where
  "describe_loop L E locations [] targets w = (Good targets, w)"
| "describe_loop L E locations (g # gs) targets w =
     (if pe_ctx_err E w then (Good targets, w)
      else case map_of locations g of
        None \<Rightarrow> (Panic, w)
      | Some location \<Rightarrow>
          (case fetchDescription L E location w of
             (Good body, w1) \<Rightarrow> describe_loop L E locations gs (targets @ controlTargets L body location g) w1
           | (Bad e, w1) \<Rightarrow> describe_loop L E locations gs targets w1
           | (Panic, w1) \<Rightarrow> (Panic, w1)))"

definition discoverUPnP ::
  "upnp_lib \<Rightarrow> ('w, 'z) upnp_env_scheme \<Rightarrow> addr list \<Rightarrow> 'w \<Rightarrow> upnp_target list outcome \<times> 'w" where
  "discoverUPnP L E preferred w =
     (case ssdpSearch L E w of
        (Panic, w1) \<Rightarrow> (Panic, w1)
      | (Bad e, w1) \<Rightarrow> (Bad e, w1)
      | (Good locations, w1) \<Rightarrow>
          (let gateways = sort_key (preferenceRank preferred) (ue_map_order E (map fst locations) w1)
           in case describe_loop L E locations gateways [] w1 of
                (Good targets, w2) \<Rightarrow> if targets = [] then (Bad Err_no_endpoint, w2) else (Good targets, w2)
              | r \<Rightarrow> r))"

section \<open>SOAP calls\<close>

text \<open>\<open>xml.EscapeText\<close>.\<close>

definition xml_char :: "nat \<Rightarrow> bool" where
  "xml_char r \<longleftrightarrow> r = 0x09 \<or> r = 0x0A \<or> r = 0x0D \<or> 0x20 \<le> r \<and> r \<le> 0xD7FF \<or> 0xE000 \<le> r \<and> r \<le> 0xFFFD
     \<or> 0x10000 \<le> r \<and> r \<le> 0x10FFFF"

definition escape_segment :: "string \<Rightarrow> string" where
  "escape_segment seg =
     (if seg = [CHR 0x22] then ''&#34;'' else if seg = [CHR 0x27] then ''&#39;''
      else if seg = ''&'' then ''&amp;'' else if seg = ''<'' then ''&lt;'' else if seg = ''>'' then ''&gt;''
      else if seg = [CHR 0x09] then ''&#x9;'' else if seg = [CHR 0x0A] then ''&#xA;''
      else if seg = [CHR 0x0D] then ''&#xD;''
      else if \<not> xml_char (fst (decode_rune seg)) \<or> decode_rune seg = (rune_error, 1) then [CHR 0xEF, CHR 0xBF, CHR 0xBD]
      else seg)"

definition EscapeText :: "string \<Rightarrow> string" where
  "EscapeText s = concat (map escape_segment (rune_segments s))"

definition soap_quote :: string where "soap_quote = [CHR 0x22]"

definition soapBody :: "string \<Rightarrow> string \<Rightarrow> (string \<times> string) list \<Rightarrow> string" where
  "soapBody service action args =
     ''<?xml version='' @ soap_quote @ ''1.0'' @ soap_quote @ ''?>'' @ [newline]
     @ ''<s:Envelope xmlns:s='' @ soap_quote @ ''http://schemas.xmlsoap.org/soap/envelope/'' @ soap_quote
     @ '' s:encodingStyle='' @ soap_quote @ ''http://schemas.xmlsoap.org/soap/encoding/'' @ soap_quote @ ''>''
     @ ''<s:Body>''
     @ ''<u:'' @ action @ '' xmlns:u='' @ soap_quote @ service @ soap_quote @ ''>''
     @ concat (map (\<lambda>(n, v). ''<'' @ n @ ''>'' @ EscapeText v @ ''</'' @ n @ ''>'') args)
     @ ''</u:'' @ action @ ''>''
     @ ''</s:Body></s:Envelope>''"

definition soapValue :: "upnp_lib \<Rightarrow> bytes \<Rightarrow> string \<Rightarrow> string option" where
  "soapValue L body name = map_option trim_space (ul_value L body name)"

definition soapFault :: "upnp_lib \<Rightarrow> int \<Rightarrow> bytes \<Rightarrow> pm_error" where
  "soapFault L status body =
     Err_upnp status (case soapValue L body ''errorCode'' of
                        None \<Rightarrow> 0
                      | Some raw \<Rightarrow> (case Atoi raw of None \<Rightarrow> 0 | Some code \<Rightarrow> code))"

definition soapCall ::
  "upnp_lib \<Rightarrow> ('w, 'z) upnp_env_scheme \<Rightarrow> upnp_target \<Rightarrow> string \<Rightarrow> (string \<times> string) list \<Rightarrow> 'w
   \<Rightarrow> bytes outcome \<times> 'w" where
  "soapCall L E target action args w =
     (case ul_parse L (ul_string L (ut_control target)) of
        None \<Rightarrow> (Bad Err_url, w)
      | Some u \<Rightarrow>
          (case http_do L E max_requests
                  \<lparr>hq_url = u, hq_post = True,
                   hq_action = soap_quote @ ut_service target @ ''#'' @ action @ soap_quote,
                   hq_body = soapBody (ut_service target) action args\<rparr> w of
             (Http_failed, w1) \<Rightarrow> (Bad Err_http, w1)
           | (Http_reply status body complete _, w1) \<Rightarrow>
               (let data = take maxSOAPBytes body
                in if status \<noteq> 200 then (Bad (soapFault L status data), w1)
                   else if \<not> complete then (Bad Err_soap_read, w1)
                   else (Good data, w1))))"

section \<open>Mappings\<close>

definition upnpErrConflictingMapping :: int where "upnpErrConflictingMapping = 718"
definition upnpErrOnlyPermanentLeases :: int where "upnpErrOnlyPermanentLeases = 725"
definition upnpEphemeralPortBase :: nat where "upnpEphemeralPortBase = 49152"
definition upnpEphemeralPortCount :: nat where "upnpEphemeralPortCount = 65536 - upnpEphemeralPortBase"
definition upnpConflictRetryPortAttempt :: nat where "upnpConflictRetryPortAttempt = 1"
definition upnpDescription :: string where "upnpDescription = ''herdr-mobile-relay''"

definition addPortMappingArgs :: "upnp_lib \<Rightarrow> 16 word \<Rightarrow> 16 word \<Rightarrow> addr \<Rightarrow> 32 word \<Rightarrow> (string \<times> string) list" where
  "addPortMappingArgs L externalPort internalPort client lease =
     [(''NewRemoteHost'', []), (''NewExternalPort'', decimal (unat externalPort)), (''NewProtocol'', ''UDP''),
      (''NewInternalPort'', decimal (unat internalPort)), (''NewInternalClient'', ul_addr_string L client),
      (''NewEnabled'', ''1''), (''NewPortMappingDescription'', upnpDescription),
      (''NewLeaseDuration'', decimal (unat lease))]"

definition randomEphemeralPort :: "('w, 'z) portmap_env_scheme \<Rightarrow> 'w \<Rightarrow> 16 word \<times> 'w" where
  "randomEphemeralPort E w =
     (case pe_rand E 2 w of
        (None, w1) \<Rightarrow> (word_of_nat upnpEphemeralPortBase, w1)
      | (Some raw, w1) \<Rightarrow>
          (word_of_nat (upnpEphemeralPortBase + unat (uint16 (fill_array 2 raw)) mod upnpEphemeralPortCount), w1))"

text \<open>The retry loop of \<open>addUPnPMapping\<close>: the port and the lease of the call the router accepted.\<close>

function add_mapping_loop ::
  "upnp_lib \<Rightarrow> ('w, 'z) upnp_env_scheme \<Rightarrow> upnp_target \<Rightarrow> 16 word \<Rightarrow> addr \<Rightarrow> 16 word \<Rightarrow> 32 word \<Rightarrow> nat \<Rightarrow> 'w
   \<Rightarrow> (16 word \<times> 32 word) outcome \<times> 'w" where
  "add_mapping_loop L E target internalPort local externalPort lease attempt w =
     (case soapCall L E target ''AddPortMapping'' (addPortMappingArgs L externalPort internalPort local lease) w of
        (Panic, w1) \<Rightarrow> (Panic, w1)
      | (Good _, w1) \<Rightarrow> (Good (externalPort, lease), w1)
      | (Bad e, w1) \<Rightarrow>
          if attempt > upnpConflictRetryPortAttempt then (Bad e, w1)
          else (case e of
                  Err_upnp status code \<Rightarrow>
                    if code = upnpErrOnlyPermanentLeases
                    then add_mapping_loop L E target internalPort local externalPort 0 (Suc attempt) w1
                    else if code = upnpErrConflictingMapping
                    then let (p, w2) = randomEphemeralPort E w1
                         in add_mapping_loop L E target internalPort local p lease (Suc attempt) w2
                    else (Bad e, w1)
                | _ \<Rightarrow> (Bad e, w1)))"
  by pat_completeness auto
termination
  by (relation "measure (\<lambda>(L, E, target, i, l, p, lease, attempt, w). 2 - attempt)")
     (auto simp: upnpConflictRetryPortAttempt_def)

declare add_mapping_loop.simps [simp del]

definition upnpExternalAddr :: "upnp_lib \<Rightarrow> ('w, 'z) upnp_env_scheme \<Rightarrow> upnp_target \<Rightarrow> 'w \<Rightarrow> addr outcome \<times> 'w" where
  "upnpExternalAddr L E target w =
     (case soapCall L E target ''GetExternalIPAddress'' [] w of
        (Panic, w1) \<Rightarrow> (Panic, w1)
      | (Bad e, w1) \<Rightarrow> (Bad e, w1)
      | (Good body, w1) \<Rightarrow>
          (case soapValue L body ''NewExternalIPAddress'' of
             None \<Rightarrow> (Bad Err_no_address, w1)
           | Some raw \<Rightarrow>
               (case ul_parse_addr L raw of None \<Rightarrow> (Bad Err_bad_address, w1) | Some a \<Rightarrow> (Good (Unmap a), w1))))"

definition addUPnPMapping ::
  "upnp_lib \<Rightarrow> ('w, 'z) upnp_env_scheme \<Rightarrow> upnp_target \<Rightarrow> 16 word \<Rightarrow> duration \<Rightarrow> 'w \<Rightarrow> mapping outcome \<times> 'w" where
  "addUPnPMapping L E target internalPort lifetime w =
     (case localAddrFor E (ut_gateway target) w of
        (Panic, w1) \<Rightarrow> (Panic, w1)
      | (Bad e, w1) \<Rightarrow> (Bad e, w1)
      | (Good local, w1) \<Rightarrow>
          (case add_mapping_loop L E target internalPort local internalPort (whole_seconds lifetime) 0 w1 of
             (Panic, w2) \<Rightarrow> (Panic, w2)
           | (Bad e, w2) \<Rightarrow> (Bad e, w2)
           | (Good (externalPort, lease), w2) \<Rightarrow>
               (case upnpExternalAddr L E target w2 of
                  (Panic, w3) \<Rightarrow> (Panic, w3)
                | (x, w3) \<Rightarrow>
                    (Good \<lparr>mg_addr = (case x of Good a \<Rightarrow> a | _ \<Rightarrow> ipv4_unspecified), mg_port = externalPort,
                           mg_internal = internalPort, mg_method = MethodUPnP, mg_lifetime = lifetime,
                           mg_expires = pe_now E w3 + lifetime, mg_owned = True, mg_gateway = Some (ut_gateway target),
                           mg_local = Some local, mg_nonce = zero_nonce,
                           mg_control = ul_string L (ut_control target), mg_service = ut_service target\<rparr>, w3))))"

fun upnp_loop ::
  "upnp_lib \<Rightarrow> ('w, 'z) upnp_env_scheme \<Rightarrow> 16 word \<Rightarrow> duration \<Rightarrow> upnp_target list \<Rightarrow> pm_error list \<Rightarrow> 'w
   \<Rightarrow> mapping outcome \<times> 'w" where
  "upnp_loop L E internalPort lifetime [] failures w =
     (Bad (if failures = [] then Err_no_accept else Err_join failures), w)"
| "upnp_loop L E internalPort lifetime (t # ts) failures w =
     (if pe_ctx_err E w then (Bad (if failures = [] then Err_no_accept else Err_join failures), w)
      else case addUPnPMapping L E t internalPort lifetime w of
        (Good m, w1) \<Rightarrow> (Good m, w1)
      | (Bad e, w1) \<Rightarrow> upnp_loop L E internalPort lifetime ts (failures @ [e]) w1
      | (Panic, w1) \<Rightarrow> (Panic, w1))"

definition mapUPnP ::
  "upnp_lib \<Rightarrow> ('w, 'z) upnp_env_scheme \<Rightarrow> addr list \<Rightarrow> 16 word \<Rightarrow> duration \<Rightarrow> 'w \<Rightarrow> mapping outcome \<times> 'w" where
  "mapUPnP L E preferred internalPort lifetime w =
     (case discoverUPnP L E preferred w of
        (Panic, w1) \<Rightarrow> (Panic, w1)
      | (Bad e, w1) \<Rightarrow> (Bad e, w1)
      | (Good targets, w1) \<Rightarrow> upnp_loop L E internalPort lifetime targets [] w1)"

definition releaseUPnP :: "upnp_lib \<Rightarrow> ('w, 'z) upnp_env_scheme \<Rightarrow> mapping \<Rightarrow> 'w \<Rightarrow> unit outcome \<times> 'w" where
  "releaseUPnP L E m w =
     (case ul_parse L (mg_control m) of
        None \<Rightarrow> (Bad Err_url, w)
      | Some control \<Rightarrow>
          if hostAddr L control \<noteq> mg_gateway m \<or> hostAddr L control = None then (Bad Err_off_gateway, w)
          else (let (r, w1) = soapCall L E
                      \<lparr>ut_gateway = the (mg_gateway m), ut_control = control, ut_service = mg_service m\<rparr>
                      ''DeletePortMapping''
                      [(''NewRemoteHost'', []), (''NewExternalPort'', decimal (unat (mg_port m))),
                       (''NewProtocol'', ''UDP'')] w
                in (and_then r (\<lambda>_. Good ()), w1)))"

definition Release :: "upnp_lib \<Rightarrow> ('w, 'z) upnp_env_scheme \<Rightarrow> mapping option \<Rightarrow> 'w \<Rightarrow> unit outcome \<times> 'w" where
  "Release L E mo w =
     (case mo of
        None \<Rightarrow> (Good (), w)
      | Some m \<Rightarrow>
          if \<not> mg_owned m then (Good (), w)
          else if mg_method m = MethodPCP then releasePCP E m w
          else if mg_method m = MethodNATPMP then releaseNATPMP E m w
          else if mg_method m = MethodUPnP then releaseUPnP L E m w
          else (Bad (Err_method (mg_method m)), w))"

section \<open>The first protocol that answers\<close>

text \<open>The loop over the gateways: a mapping, the error of a context that ended, or the failures.\<close>

fun gateway_loop ::
  "('w, 'z) portmap_env_scheme \<Rightarrow> 16 word \<Rightarrow> duration \<Rightarrow> addr list \<Rightarrow> pm_error list \<Rightarrow> 'w
   \<Rightarrow> (mapping outcome + pm_error list) \<times> 'w" where
  "gateway_loop E internalPort lifetime [] failures w = (Inr failures, w)"
| "gateway_loop E internalPort lifetime (gw # gws) failures w =
     (if pe_ctx_err E w then (Inl (Bad Err_ctx), w)
      else case mapPCP E gw internalPort lifetime w of
        (Good m, w1) \<Rightarrow> (Inl (Good m), w1)
      | (Panic, w1) \<Rightarrow> (Inl Panic, w1)
      | (Bad e1, w1) \<Rightarrow>
          if pe_ctx_err E w1 then (Inl (Bad Err_ctx), w1)
          else (case mapNATPMP E gw internalPort lifetime w1 of
                  (Good m, w2) \<Rightarrow> (Inl (Good m), w2)
                | (Panic, w2) \<Rightarrow> (Inl Panic, w2)
                | (Bad e2, w2) \<Rightarrow> gateway_loop E internalPort lifetime gws (failures @ [e1, e2]) w2))"

definition mapUDP ::
  "upnp_lib \<Rightarrow> ('w, 'z) upnp_env_scheme \<Rightarrow> bool \<Rightarrow> 16 word \<Rightarrow> duration \<Rightarrow> 'w \<Rightarrow> mapping outcome \<times> 'w" where
  "mapUDP L E allowUPnP internalPort lifetime0 w =
     (if internalPort = 0 then (Bad Err_internal_port, w)
      else
        let lifetime = clampLifetime lifetime0;
            ((failed, gateways), w1) = ue_gateways E w
        in case gateway_loop E internalPort lifetime gateways (if failed then [Err_discovery] else []) w1 of
             (Inl r, w2) \<Rightarrow> (r, w2)
           | (Inr failures, w2) \<Rightarrow>
               if allowUPnP \<and> \<not> pe_ctx_err E w2
               then (case mapUPnP L E gateways internalPort lifetime w2 of
                       (Good m, w3) \<Rightarrow> (Good m, w3)
                     | (Panic, w3) \<Rightarrow> (Panic, w3)
                     | (Bad e, w3) \<Rightarrow> (Bad (Err_join (failures @ [e])), w3))
               else (Bad (Err_join failures), w2))"

definition MapUDP :: "upnp_lib \<Rightarrow> ('w, 'z) upnp_env_scheme \<Rightarrow> 16 word \<Rightarrow> duration \<Rightarrow> 'w \<Rightarrow> mapping outcome \<times> 'w" where
  "MapUDP L E internalPort lifetime w = mapUDP L E True internalPort lifetime w"

end
