(* ===== verification/Portmap_Props.thy ===== *)
theory Portmap_Props
  imports Upnp
begin

text \<open>
  What the port-mapping component guarantees: the router's answers are read exactly as RFC 6886 and RFC 6887 lay them
  out and nothing else is accepted, no bytes of a router make the code panic, a mapping that is returned can be used and
  released, and a UPnP endpoint is on the host that answered the search.
\<close>

section \<open>Reading answers\<close>

lemma take4: "4 \<le> length xs \<Longrightarrow> take 4 xs = [xs ! 0, xs ! 1, xs ! 2, xs ! 3]"
  by (rule nth_equalityI) (auto simp: less_Suc_eq numeral_eq_Suc)

lemma join_at: "m = i + n \<Longrightarrow> take n (drop i xs) @ drop m xs = drop i xs"
  by (metis add.commute append_take_drop_id drop_drop)

lemma uint16_zero: "length bs = 2 \<Longrightarrow> uint16 bs = 0 \<longleftrightarrow> bs = [0, 0]"
  using put16_uint16 [of bs] uint16_put16 [of 0] by (auto simp: put16_def numeral_2_eq_2 uint16_def)

text \<open>The header check on an answer that is long enough.\<close>

lemma natpmp_header_long:
  assumes "4 \<le> want" "want \<le> length resp"
  shows "checkNATPMPHeader resp opcode want =
     (if length resp > natpmpMaxRespBytes then Bad (Err_oversized (length resp))
      else if resp ! 0 \<noteq> natpmpVersion then Bad (Err_version (resp ! 0))
      else if resp ! 1 \<noteq> or opcode natpmpResponseBit then Bad (Err_opcode (resp ! 1))
      else if take 2 (drop 2 resp) \<noteq> [0, 0] then Bad (Err_natpmp (uint16 (take 2 (drop 2 resp))))
      else Good 0)"
proof -
  have "byte_at resp 0 = Good (resp ! 0)" "byte_at resp 1 = Good (resp ! 1)"
    and "slice_of resp 2 4 = Good (take 2 (drop 2 resp))" "length (take 2 (drop 2 resp)) = 2"
    using assms by (auto simp: byte_at_def)
  then show ?thesis
    using assms uint16_zero [of "take 2 (drop 2 resp)"] uint16_zero [of "[0, 0]"] by (simp add: checkNATPMPHeader_def)
qed

lemma natpmp_header:
  assumes "4 \<le> want"
  shows "checkNATPMPHeader resp opcode want = Good c \<longleftrightarrow>
           want \<le> length resp \<and> length resp \<le> natpmpMaxRespBytes \<and> resp ! 0 = natpmpVersion
           \<and> resp ! 1 = or opcode natpmpResponseBit \<and> take 2 (drop 2 resp) = [0, 0] \<and> c = 0"
proof (cases "length resp < want")
  case True
  then show ?thesis by (simp add: checkNATPMPHeader_def)
next
  case False
  with assms natpmp_header_long [of want resp opcode] show ?thesis by auto
qed

lemma natpmp_header_not_Panic: "4 \<le> want \<Longrightarrow> checkNATPMPHeader resp opcode want \<noteq> Panic"
  using natpmp_header_long [of want resp opcode] by (cases "length resp < want") (auto simp: checkNATPMPHeader_def)

lemma natpmp_opcode: "or natpmpOpMapUDP natpmpResponseBit = 0x81"
  by (simp add: natpmp_consts)

lemma pcp_opcode: "or pcpOpMap pcpResponseBit = 0x81"
  by (simp add: pcp_consts)

lemma parseNATPMPMap_Good:
  "parseNATPMPMap resp = Good r \<longleftrightarrow>
     16 \<le> length resp \<and> length resp \<le> 64 \<and> resp ! 0 = 0 \<and> resp ! 1 = 0x81 \<and> take 2 (drop 2 resp) = [0, 0]
     \<and> r = \<lparr>nr_internal = uint16 (take 2 (drop 8 resp)), nr_external = uint16 (take 2 (drop 10 resp)),
            nr_lifetime = seconds_of (uint32 (take 4 (drop 12 resp)))\<rparr>"
proof (cases "16 \<le> length resp")
  case True
  then have "slice_of resp 8 10 = Good (take 2 (drop 8 resp))" "slice_of resp 10 12 = Good (take 2 (drop 10 resp))"
    "slice_of resp 12 16 = Good (take 4 (drop 12 resp))"
    by simp_all
  then show ?thesis
    using True natpmp_header [of 16 resp natpmpOpMapUDP]
    by (auto simp: parseNATPMPMap_def and_then_eq_Good natpmp_opcode natpmpMapRespLen_def natpmpMaxRespBytes_def
      natpmpVersion_def)
next
  case False
  then show ?thesis
    by (simp add: parseNATPMPMap_def checkNATPMPHeader_def natpmpMapRespLen_def)
qed

lemma parsePCPMapResponse_long:
  assumes "60 \<le> length resp"
  shows "parsePCPMapResponse resp nonce =
     (if length resp > pcpMaxRespBytes then Bad (Err_oversized (length resp))
      else if length resp mod pcpLengthQuantum \<noteq> 0 then Bad (Err_length (length resp))
      else if resp ! 0 \<noteq> pcpVersion then Bad (Err_version (resp ! 0))
      else if resp ! 1 \<noteq> or pcpOpMap pcpResponseBit then Bad (Err_opcode (resp ! 1))
      else if resp ! 3 \<noteq> 0 then Bad (Err_pcp (resp ! 3))
      else if take 12 (drop 24 resp) \<noteq> nonce then Bad Err_nonce
      else if resp ! 36 \<noteq> pcpProtoUDP then Bad (Err_protocol (resp ! 36))
      else Good \<lparr>pr_internal = uint16 (take 2 (drop 40 resp)), pr_external = Unmap (IPv6 (take 16 (drop 44 resp))),
                 pr_port = uint16 (take 2 (drop 42 resp)), pr_lifetime = seconds_of (uint32 (take 4 (drop 4 resp)))\<rparr>)"
proof -
  have "byte_at resp 0 = Good (resp ! 0)" "byte_at resp 1 = Good (resp ! 1)" "byte_at resp 3 = Good (resp ! 3)"
    "byte_at resp 36 = Good (resp ! 36)"
    and "slice_of resp 24 36 = Good (take 12 (drop 24 resp))" "slice_of resp 44 60 = Good (take 16 (drop 44 resp))"
    "slice_of resp 40 42 = Good (take 2 (drop 40 resp))" "slice_of resp 42 44 = Good (take 2 (drop 42 resp))"
    "slice_of resp 4 8 = Good (take 4 (drop 4 resp))"
    and "addr_from_slice (take 16 (drop 44 resp)) = Some (IPv6 (take 16 (drop 44 resp)))"
    and "\<not> length resp < pcpMinRespBytes"
    using assms by (auto simp: byte_at_def addr_from_slice_def pcpMinRespBytes_def)
  then show ?thesis
    by (simp add: parsePCPMapResponse_def)
qed

lemma parsePCPMapResponse_Good:
  "parsePCPMapResponse resp nonce = Good r \<longleftrightarrow>
     60 \<le> length resp \<and> length resp \<le> 1100 \<and> 4 dvd length resp \<and> resp ! 0 = 2 \<and> resp ! 1 = 0x81 \<and> resp ! 3 = 0
     \<and> take 12 (drop 24 resp) = nonce \<and> resp ! 36 = 17
     \<and> r = \<lparr>pr_internal = uint16 (take 2 (drop 40 resp)), pr_external = Unmap (IPv6 (take 16 (drop 44 resp))),
            pr_port = uint16 (take 2 (drop 42 resp)), pr_lifetime = seconds_of (uint32 (take 4 (drop 4 resp)))\<rparr>"
proof (cases "60 \<le> length resp")
  case True
  then show ?thesis
    by (simp only: parsePCPMapResponse_long pcp_opcode) (auto simp: pcpMaxRespBytes_def pcpLengthQuantum_def pcpVersion_def
      pcpProtoUDP_def mod_eq_0_iff_dvd)
next
  case False
  then show ?thesis by (simp add: parsePCPMapResponse_def pcpMinRespBytes_def)
qed


text \<open>The layout of the answers in RFC 6886 (section 3.3) and RFC 6887 (sections 7.2 and 11.1).\<close>

definition natpmp_answer :: "bytes \<Rightarrow> 16 word \<Rightarrow> 16 word \<Rightarrow> 32 word \<Rightarrow> bytes \<Rightarrow> bytes" where
  "natpmp_answer epoch internal external life rest =
     [0, 0x81, 0, 0] @ epoch @ put16 internal @ put16 external @ put32 life @ rest"

definition pcp_answer ::
  "byte \<Rightarrow> 32 word \<Rightarrow> bytes \<Rightarrow> bytes \<Rightarrow> bytes \<Rightarrow> 16 word \<Rightarrow> 16 word \<Rightarrow> bytes \<Rightarrow> bytes \<Rightarrow> bytes" where
  "pcp_answer reserved life epoch nonce pad internal external ext options =
     [2, 0x81, reserved, 0] @ put32 life @ epoch @ nonce @ [17] @ pad @ put16 internal @ put16 external @ ext @ options"

lemma natpmp_answer_read:
  assumes "length epoch = 4" "length rest \<le> 48"
  shows "parseNATPMPMap (natpmp_answer epoch internal external life rest) =
           Good \<lparr>nr_internal = internal, nr_external = external, nr_lifetime = seconds_of life\<rparr>"
  using assms by (simp add: parseNATPMPMap_Good natpmp_answer_def)

lemma pcp_answer_read:
  assumes "length epoch = 16" "length nonce = 12" "length pad = 3" "length ext = 16" "length options \<le> 1040"
    "4 dvd length options"
  shows "parsePCPMapResponse (pcp_answer reserved life epoch nonce pad internal external ext options) nonce =
           Good \<lparr>pr_internal = internal, pr_external = Unmap (IPv6 ext), pr_port = external,
                 pr_lifetime = seconds_of life\<rparr>"
  using assms by (simp add: parsePCPMapResponse_Good pcp_answer_def nth_append)

lemma natpmp_answer_inv:
  assumes "parseNATPMPMap resp = Good r"
  shows "\<exists>epoch life rest. length epoch = 4 \<and> length rest \<le> 48 \<and> nr_lifetime r = seconds_of life
           \<and> resp = natpmp_answer epoch (nr_internal r) (nr_external r) life rest"
proof (intro exI conjI)
  let ?life = "uint32 (take 4 (drop 12 resp))"
  from assms have r: "16 \<le> length resp" "length resp \<le> 64" "resp ! 0 = 0" "resp ! 1 = 0x81"
    "take 2 (drop 2 resp) = [0, 0]" "nr_internal r = uint16 (take 2 (drop 8 resp))"
    "nr_external r = uint16 (take 2 (drop 10 resp))" "nr_lifetime r = seconds_of ?life"
    by (simp_all add: parseNATPMPMap_Good)
  then show "length (take 4 (drop 4 resp)) = 4" "length (drop 16 resp) \<le> 48" "nr_lifetime r = seconds_of ?life"
    by simp_all
  have "[0, 0x81, 0, 0] = take 2 resp @ take 2 (drop 2 resp)"
    using r(1,3,4,5) by (cases resp; cases "tl resp") (auto simp: numeral_2_eq_2)
  also have "\<dots> = take 4 resp"
    by (metis (mono_tags, lifting) add.commute numeral_plus_numeral semiring_norm(2,6) take_add)
  finally have "[0, 0x81, 0, 0] = take 4 resp" .
  then show "resp = natpmp_answer (take 4 (drop 4 resp)) (nr_internal r) (nr_external r) ?life (drop 16 resp)"
    unfolding natpmp_answer_def using r by (simp add: put16_uint16 put32_uint32 join_at)
qed

lemma pcp_answer_inv:
  assumes "parsePCPMapResponse resp nonce = Good r"
  shows "\<exists>reserved life epoch pad ext options. length epoch = 16 \<and> length nonce = 12 \<and> length pad = 3 \<and> length ext = 16
           \<and> length options \<le> 1040 \<and> 4 dvd length options \<and> pr_external r = Unmap (IPv6 ext)
           \<and> pr_lifetime r = seconds_of life
           \<and> resp = pcp_answer reserved life epoch nonce pad (pr_internal r) (pr_port r) ext options"
proof (intro exI conjI)
  let ?life = "uint32 (take 4 (drop 4 resp))"
  from assms have r: "60 \<le> length resp" "length resp \<le> 1100" "4 dvd length resp" "resp ! 0 = 2" "resp ! 1 = 0x81"
    "resp ! 3 = 0" "nonce = take 12 (drop 24 resp)" "resp ! 36 = 17" "pr_internal r = uint16 (take 2 (drop 40 resp))"
    "pr_port r = uint16 (take 2 (drop 42 resp))" "pr_lifetime r = seconds_of ?life"
    "pr_external r = Unmap (IPv6 (take 16 (drop 44 resp)))"
    by (auto simp: parsePCPMapResponse_Good)
  then show "length (take 16 (drop 8 resp)) = 16" "length nonce = 12" "length (take 3 (drop 37 resp)) = 3"
    "length (take 16 (drop 44 resp)) = 16" "length (drop 60 resp) \<le> 1040" "pr_lifetime r = seconds_of ?life"
    "pr_external r = Unmap (IPv6 (take 16 (drop 44 resp)))"
    by simp_all
  have "(60 :: nat) = 4 * 15"
    by simp
  then have "4 dvd (60 :: nat)"
    by (rule dvdI)
  with r(3) show "4 dvd length (drop 60 resp)"
    by (simp add: dvd_diff_nat)
  have "[2, 0x81, resp ! 2, 0] = take 4 resp"
    using r(1,4,5,6) take4 [of resp] by simp
  moreover have "[17] = take 1 (drop 36 resp)"
    using r(1,8) by (simp add: take_Suc_conv_app_nth)
  ultimately show "resp = pcp_answer (resp ! 2) ?life (take 16 (drop 8 resp)) nonce (take 3 (drop 37 resp))
      (pr_internal r) (pr_port r) (take 16 (drop 44 resp)) (drop 60 resp)"
    unfolding pcp_answer_def using r by (simp add: put16_uint16 put32_uint32 join_at del: drop_drop)
qed


section \<open>No bytes of a router panic\<close>

lemma pair_Panic: "x = (Panic, w) \<Longrightarrow> fst x = Panic"
  by simp

named_theorems not_panic \<open>operations that never panic\<close>

lemma parseNATPMPMap_not_Panic [not_panic]: "parseNATPMPMap resp \<noteq> Panic"
proof (cases "16 \<le> length resp")
  case True
  then have "slice_of resp 8 10 = Good (take 2 (drop 8 resp))" "slice_of resp 10 12 = Good (take 2 (drop 10 resp))"
    "slice_of resp 12 16 = Good (take 4 (drop 12 resp))"
    by simp_all
  then show ?thesis
    unfolding parseNATPMPMap_def
    by (intro and_then_not_Panic natpmp_header_not_Panic) (simp_all add: natpmpMapRespLen_def)
next
  case False
  then show ?thesis
    by (simp add: parseNATPMPMap_def checkNATPMPHeader_def natpmpMapRespLen_def)
qed

lemma parseNATPMPExternal_not_Panic [not_panic]: "parseNATPMPExternal resp \<noteq> Panic"
proof (cases "12 \<le> length resp")
  case True
  then show ?thesis
    unfolding parseNATPMPExternal_def
    by (intro and_then_not_Panic natpmp_header_not_Panic) (simp_all add: natpmpExtRespLen_def)
next
  case False
  then show ?thesis
    by (simp add: parseNATPMPExternal_def checkNATPMPHeader_def natpmpExtRespLen_def)
qed

lemma parsePCPMapResponse_not_Panic [not_panic]: "parsePCPMapResponse resp nonce \<noteq> Panic"
proof (cases "60 \<le> length resp")
  case True
  then show ?thesis by (simp add: parsePCPMapResponse_long)
next
  case False
  then show ?thesis by (simp add: parsePCPMapResponse_def pcpMinRespBytes_def)
qed

lemma exchange_loop_not_Panic: "fst (exchange_loop E request n hard k timeout w) \<noteq> Panic"
  by (induction k arbitrary: timeout w)
    (auto simp: Let_def split: prod.splits bool.splits read_result.splits)

lemma exchange_not_Panic [not_panic]: "fst (exchange E gateway request n w) \<noteq> Panic"
  by (auto simp: exchange_def Let_def exchange_loop_not_Panic split: option.splits prod.splits dial_result.splits)

lemma localAddrFor_not_Panic [not_panic]: "fst (localAddrFor E gateway w) \<noteq> Panic"
  by (auto simp: localAddrFor_def split: prod.splits dial_result.splits option.splits)

lemma and_then_fst_not_Panic:
  "fst x \<noteq> Panic \<Longrightarrow> (\<And>y. f y \<noteq> Panic) \<Longrightarrow> and_then (fst x) f \<noteq> Panic"
  by (rule and_then_not_Panic)

lemma natpmpExternalAddr_not_Panic [not_panic]: "fst (natpmpExternalAddr E gateway w) \<noteq> Panic"
  by (simp add: natpmpExternalAddr_def case_prod_beta Let_def and_then_fst_not_Panic not_panic)

lemma mapNATPMP_not_Panic [not_panic]: "fst (mapNATPMP E gateway p lifetime w) \<noteq> Panic"
proof -
  have "and_then (fst (exchange E (Some gateway) q n w)) parseNATPMPMap \<noteq> Panic" for q n
    by (simp add: and_then_fst_not_Panic not_panic)
  then show ?thesis
    using natpmpExternalAddr_not_Panic [of E "Some gateway"]
    by (auto simp: mapNATPMP_def case_prod_beta Let_def split: outcome.splits)
qed

lemma mapPCP_not_Panic [not_panic]: "fst (mapPCP E gateway p lifetime w) \<noteq> Panic"
proof -
  have "and_then (fst (exchange E (Some gateway) q n w)) (\<lambda>resp. parsePCPMapResponse resp nonce) \<noteq> Panic" for q n w nonce
    by (simp add: and_then_fst_not_Panic not_panic)
  then show ?thesis
    using localAddrFor_not_Panic [of E gateway w]
    by (auto simp: mapPCP_def case_prod_beta Let_def split: outcome.splits option.splits prod.splits)
qed

lemma gateway_loop_not_Panic: "fst (gateway_loop E p lifetime gws failures w) \<noteq> Inl Panic"
proof (induction gws arbitrary: failures w)
  case Nil
  then show ?case by simp
next
  case (Cons gw gws)
  then show ?case
    by (auto split: outcome.splits prod.splits dest!: pair_Panic simp: not_panic)
qed

lemma soapCall_not_Panic [not_panic]: "fst (soapCall L E target action args w) \<noteq> Panic"
  by (auto simp: soapCall_def soapFault_def Let_def split: option.splits prod.splits http_result.splits)

lemma add_mapping_loop_not_Panic [not_panic]:
  "fst (add_mapping_loop L E target i l p lease attempt w) \<noteq> Panic"
proof (induction L E target i l p lease attempt w rule: add_mapping_loop.induct)
  case (1 L E target i l p lease attempt w)
  obtain r w1 where call: "soapCall L E target ''AddPortMapping'' (addPortMappingArgs L p i l lease) w = (r, w1)"
    by fastforce
  moreover have "r \<noteq> Panic"
    using soapCall_not_Panic [of L E target "''AddPortMapping''" "addPortMappingArgs L p i l lease" w] call by simp
  ultimately show ?case
    using 1 [OF call [symmetric]]
    by (subst add_mapping_loop.simps) (auto simp: Let_def case_prod_beta split: outcome.splits pm_error.splits)
qed

lemma upnpExternalAddr_not_Panic [not_panic]: "fst (upnpExternalAddr L E target w) \<noteq> Panic"
  using soapCall_not_Panic [of L E target "''GetExternalIPAddress''" "[]" w]
  by (auto simp: upnpExternalAddr_def split: outcome.splits prod.splits option.splits)

lemma addUPnPMapping_not_Panic [not_panic]: "fst (addUPnPMapping L E target p lifetime w) \<noteq> Panic"
  by (auto simp: addUPnPMapping_def split: outcome.splits prod.splits dest!: pair_Panic simp: not_panic)

lemma upnp_loop_not_Panic [not_panic]: "fst (upnp_loop L E p lifetime ts failures w) \<noteq> Panic"
proof (induction ts arbitrary: failures w)
  case Nil
  then show ?case by simp
next
  case (Cons t ts)
  then show ?case
    by (auto split: outcome.splits prod.splits dest!: pair_Panic simp: not_panic)
qed

lemma fetchDescription_not_Panic [not_panic]: "fst (fetchDescription L E location w) \<noteq> Panic"
  by (auto simp: fetchDescription_def split: option.splits prod.splits http_result.splits)

text \<open>Ranging over a Go map yields its keys.\<close>

definition ranges_keys :: "('w, 'z) upnp_env_scheme \<Rightarrow> bool" where
  "ranges_keys E \<longleftrightarrow> (\<forall>ks w. set (ue_map_order E ks w) = set ks)"

lemma describe_loop_not_Panic:
  "set gs \<subseteq> fst ` set locations \<Longrightarrow> fst (describe_loop L E locations gs targets w) \<noteq> Panic"
proof (induction gs arbitrary: targets w)
  case Nil
  then show ?case by simp
next
  case (Cons g gs)
  then have "map_of locations g \<noteq> None"
    by (simp add: map_of_eq_None_iff)
  with Cons show ?case
    by (auto split: outcome.splits prod.splits dest!: pair_Panic simp: not_panic)
qed

lemma ssdpSearch_not_Panic [not_panic]: "fst (ssdpSearch L E w) \<noteq> Panic"
  by (auto simp: ssdpSearch_def Let_def split: prod.splits bool.splits)

lemma discoverUPnP_not_Panic: "ranges_keys E \<Longrightarrow> fst (discoverUPnP L E preferred w) \<noteq> Panic"
  by (auto simp: discoverUPnP_def Let_def ranges_keys_def not_panic describe_loop_not_Panic
      split: prod.splits outcome.splits dest!: pair_Panic)

lemma mapUPnP_not_Panic: "ranges_keys E \<Longrightarrow> fst (mapUPnP L E preferred p lifetime w) \<noteq> Panic"
  by (auto simp: mapUPnP_def not_panic discoverUPnP_not_Panic split: prod.splits outcome.splits dest!: pair_Panic)

lemma mapUDP_not_Panic: "ranges_keys E \<Longrightarrow> fst (mapUDP L E upnp p lifetime w) \<noteq> Panic"
  by (auto simp: mapUDP_def Let_def case_prod_beta gateway_loop_not_Panic mapUPnP_not_Panic
      split: prod.splits sum.splits outcome.splits dest!: pair_Panic)

lemma releaseUPnP_not_Panic [not_panic]: "fst (releaseUPnP L E m w) \<noteq> Panic"
  by (auto simp: releaseUPnP_def case_prod_beta Let_def and_then_fst_not_Panic not_panic split: option.splits)

lemma release_not_Panic [not_panic]: "fst (releasePCP E m w) \<noteq> Panic" "fst (releaseNATPMP E m w) \<noteq> Panic"
  unfolding releasePCP_def releaseNATPMP_def
  by (simp_all add: case_prod_beta Let_def and_then_not_Panic not_panic)

lemma Release_not_Panic: "fst (Release L E mo w) \<noteq> Panic"
  by (simp add: Release_def not_panic split: option.splits)

section \<open>A mapping that is returned\<close>

definition usable_mapping :: "16 word \<Rightarrow> mapping \<Rightarrow> bool" where
  "usable_mapping p m \<longleftrightarrow>
     mg_internal m = p \<and> mg_port m \<noteq> 0 \<and> mg_lifetime m > 0 \<and> mg_owned m \<and> mg_gateway m \<noteq> None
     \<and> length (mg_nonce m) = pcpNonceLen \<and> mg_method m \<in> {MethodPCP, MethodNATPMP, MethodUPnP}"

lemma clampLifetime_pos: "clampLifetime l > 0"
  by (simp add: clampLifetime_def minLifetime_def maxLifetime_def second_def)

lemma granted_lifetime_pos: "lifetime > 0 \<Longrightarrow> granted_lifetime r lifetime > 0"
  by (simp add: granted_lifetime_def)

lemma mapNATPMP_usable:
  "mapNATPMP E gw p lifetime w = (Good m, w') \<Longrightarrow> lifetime > 0 \<Longrightarrow> usable_mapping p m"
  by (auto simp: mapNATPMP_def Let_def case_prod_beta usable_mapping_def granted_lifetime_pos zero_nonce_def
      split: outcome.splits if_splits)

lemma mapPCP_usable:
  "mapPCP E gw p lifetime w = (Good m, w') \<Longrightarrow> lifetime > 0 \<Longrightarrow> usable_mapping p m"
  by (auto simp: mapPCP_def Let_def case_prod_beta usable_mapping_def granted_lifetime_pos
      split: outcome.splits if_splits option.splits prod.splits)

lemma randomEphemeralPort_ge: "unat (fst (randomEphemeralPort E w)) \<ge> upnpEphemeralPortBase"
proof -
  have "upnpEphemeralPortBase + n mod upnpEphemeralPortCount < 2 ^ 16" for n
    using mod_less_divisor [of upnpEphemeralPortCount n]
    by (simp add: upnpEphemeralPortBase_def upnpEphemeralPortCount_def)
  then have "unat (word_of_nat (upnpEphemeralPortBase + n mod upnpEphemeralPortCount) :: 16 word) \<ge> upnpEphemeralPortBase"
    for n
    by (simp only: unat_of_nat len_num0 len_num1 len_bit0 mod_less) simp
  moreover have "unat (word_of_nat upnpEphemeralPortBase :: 16 word) \<ge> upnpEphemeralPortBase"
    by (simp add: upnpEphemeralPortBase_def)
  ultimately show ?thesis
    by (auto simp: randomEphemeralPort_def split: prod.splits option.splits)
qed

lemma randomEphemeralPort_nonzero: "fst (randomEphemeralPort E w) \<noteq> 0"
  using randomEphemeralPort_ge [of E w] by (auto simp: upnpEphemeralPortBase_def)

lemma add_mapping_loop_port:
  "add_mapping_loop L E target i l p lease attempt w = (Good (q, lease'), w') \<Longrightarrow> p \<noteq> 0 \<Longrightarrow> q \<noteq> 0"
proof (induction L E target i l p lease attempt w rule: add_mapping_loop.induct)
  case (1 L E target i l p lease attempt w)
  obtain r w1 where call: "soapCall L E target ''AddPortMapping'' (addPortMappingArgs L p i l lease) w = (r, w1)"
    by fastforce
  moreover obtain p' w2 where port: "randomEphemeralPort E w1 = (p', w2)"
    by fastforce
  ultimately show ?case
    using "1.IH" [OF call [symmetric]] "1.prems" randomEphemeralPort_nonzero [of E w1]
      add_mapping_loop.simps [of L E target i l p lease attempt w]
    by (auto simp: Let_def split: outcome.splits pm_error.splits if_splits)
qed

lemma addUPnPMapping_usable:
  "addUPnPMapping L E t p lifetime w = (Good m, w') \<Longrightarrow> lifetime > 0 \<Longrightarrow> p \<noteq> 0 \<Longrightarrow> usable_mapping p m"
  by (auto simp: addUPnPMapping_def usable_mapping_def zero_nonce_def dest: add_mapping_loop_port
      split: outcome.splits prod.splits)

lemma upnp_loop_usable:
  "upnp_loop L E p lifetime ts failures w = (Good m, w') \<Longrightarrow> lifetime > 0 \<Longrightarrow> p \<noteq> 0 \<Longrightarrow> usable_mapping p m"
proof (induction ts arbitrary: failures w)
  case (Cons t ts)
  then show ?case
    by (auto split: outcome.splits prod.splits if_splits dest: addUPnPMapping_usable)
qed simp

lemma gateway_loop_usable:
  "fst (gateway_loop E p lifetime gws failures w) = Inl (Good m) \<Longrightarrow> lifetime > 0 \<Longrightarrow> usable_mapping p m"
proof (induction gws arbitrary: failures w)
  case (Cons gw gws)
  then show ?case
    by (auto split: outcome.splits prod.splits if_splits dest: mapPCP_usable mapNATPMP_usable)
qed simp

lemma mapUDP_usable:
  assumes "mapUDP L E upnp p lifetime w = (Good m, w')"
  shows "p \<noteq> 0 \<and> usable_mapping p m"
  using assms clampLifetime_pos [of lifetime]
  by (auto simp: mapUDP_def mapUPnP_def Let_def case_prod_beta dest: gateway_loop_usable upnp_loop_usable
      split: prod.splits sum.splits outcome.splits if_splits)

lemma Release_known_method:
  "usable_mapping p m \<Longrightarrow>
     Release L E (Some m) w =
       (if mg_method m = MethodPCP then releasePCP E m w
        else if mg_method m = MethodNATPMP then releaseNATPMP E m w else releaseUPnP L E m w)"
  by (auto simp: Release_def usable_mapping_def)

section \<open>UPnP endpoints\<close>

definition on_gateway :: "upnp_lib \<Rightarrow> upnp_target \<Rightarrow> bool" where
  "on_gateway L t \<longleftrightarrow>
     routerAddrAllowed (Some (ut_gateway t)) \<and> hostAddr L (ut_control t) = Some (ut_gateway t)
     \<and> u_scheme (ut_control t) = ''http'' \<and> u_user (ut_control t) = None \<and> ut_service t \<in> set upnpServiceTypes"

definition found_ok :: "upnp_lib \<Rightarrow> (addr \<times> url) list \<Rightarrow> bool" where
  "found_ok L found \<longleftrightarrow>
     distinct (map fst found) \<and> length found \<le> ssdpMaxResponses
     \<and> (\<forall>(g, u) \<in> set found. routerAddrAllowed (Some g) \<and> hostAddr L u = Some g)"

lemma found_ok_snoc:
  "found_ok L found \<Longrightarrow> length found < ssdpMaxResponses \<Longrightarrow> g \<notin> fst ` set found \<Longrightarrow> routerAddrAllowed (Some g)
     \<Longrightarrow> hostAddr L u = Some g \<Longrightarrow> found_ok L (found @ [(g, u)])"
  by (auto simp: found_ok_def)

lemma ssdp_loop_ok: "found_ok L found \<Longrightarrow> found_ok L (ssdp_loop L ds found)"
proof (induction ds arbitrary: found)
  case Nil
  then show ?case by simp
next
  case (Cons d ds)
  then show ?case
    by (cases d) (auto simp: Let_def found_ok_snoc split: option.splits)
qed

lemma ssdpSearch_ok: "ssdpSearch L E w = (Good found, w') \<Longrightarrow> found_ok L found"
  using ssdp_loop_ok [of L "[]"] by (auto simp: ssdpSearch_def Let_def found_ok_def split: prod.splits bool.splits if_splits)

lemma hostAddr_without_user [simp]: "hostAddr L (u\<lparr>u_user := x\<rparr>) = hostAddr L u"
  by (simp add: hostAddr_def Hostname_def)

lemma controlTargets_ok:
  assumes "t \<in> set (controlTargets L body location g)" "routerAddrAllowed (Some g)"
  shows "on_gateway L t \<and> ut_gateway t = g"
  using assms
  by (auto simp: controlTargets_def Let_def map_filter_def service_target_def resolveControlURL_def on_gateway_def
      split: option.splits if_splits)

text \<open>The targets of one description are in the order of preference of their services.\<close>

lemma controlTargets_ranked: "sorted (map (\<lambda>t. service_rank (ut_service t)) (controlTargets L body location g))"
  by (simp add: controlTargets_def Let_def split: option.splits)

lemma describe_loop_ok:
  assumes "describe_loop L E locations gs targets w = (Good ts, w')" "found_ok L locations"
    and "\<forall>t\<in>set targets. on_gateway L t"
  shows "\<forall>t\<in>set ts. on_gateway L t"
  using assms
proof (induction gs arbitrary: targets w)
  case Nil
  then show ?case by auto
next
  case (Cons g gs)
  show ?case
  proof (cases "pe_ctx_err E w")
    case True
    with Cons.prems show ?thesis by auto
  next
    case False
    with Cons.prems obtain location where l: "map_of locations g = Some location"
      by (auto split: option.splits)
    then have "routerAddrAllowed (Some g)"
      using Cons.prems(2) by (auto simp: found_ok_def dest!: map_of_SomeD)
    then have "\<forall>t\<in>set (targets @ controlTargets L body location g). on_gateway L t" for body
      using Cons.prems(3) controlTargets_ok by auto
    then show ?thesis
      using Cons.prems Cons.IH [of "targets @ controlTargets L body location g" for body] Cons.IH [of targets] False l
      by (auto split: prod.splits outcome.splits)
  qed
qed

lemma discoverUPnP_ok:
  assumes "discoverUPnP L E preferred w = (Good ts, w')" "t \<in> set ts"
  shows "on_gateway L t"
proof -
  from assms(1) obtain found w1 gs where "ssdpSearch L E w = (Good found, w1)"
    and "describe_loop L E found gs [] w1 = (Good ts, w')"
    by (auto simp: discoverUPnP_def Let_def split: prod.splits outcome.splits if_splits)
  then show ?thesis
    using describe_loop_ok [of L E found gs "[]" w1 ts w'] ssdpSearch_ok [of L E w found w1] assms(2) by auto
qed

section \<open>One exchange\<close>

text \<open>The environment that records the datagrams written and the read deadlines set.\<close>

definition recording :: "('w, 'z) portmap_env_scheme \<Rightarrow> ('w \<times> bytes list \<times> time list) portmap_env" where
  "recording E =
     \<lparr>pe_now = (\<lambda>(w, l). pe_now E w), pe_ctx_err = (\<lambda>(w, l). pe_ctx_err E w),
      pe_step_err = (\<lambda>(w, l). pe_step_err E w), pe_ctx_deadline = (\<lambda>(w, l). pe_ctx_deadline E w),
      pe_dial = (\<lambda>a (w, l). let (r, w1) = pe_dial E a w in (r, w1, l)),
      pe_write = (\<lambda>b (w, sent, ds). let (r, w1) = pe_write E b w in (r, w1, sent @ [b], ds)),
      pe_set_deadline = (\<lambda>d (w, sent, ds). let (r, w1) = pe_set_deadline E d w in (r, w1, sent, ds @ [d])),
      pe_read = (\<lambda>(w, l). let (r, w1) = pe_read E w in (r, w1, l)),
      pe_rand = (\<lambda>n (w, l). let (r, w1) = pe_rand E n w in (r, w1, l))\<rparr>"

lemma recording_simps [simp]:
  "pe_now (recording E) (w, l) = pe_now E w"
  "pe_step_err (recording E) (w, l) = pe_step_err E w"
  "pe_ctx_deadline (recording E) (w, l) = pe_ctx_deadline E w"
  "pe_dial (recording E) a (w, l) = (fst (pe_dial E a w), snd (pe_dial E a w), l)"
  "pe_write (recording E) b (w, sent, ds) = (fst (pe_write E b w), snd (pe_write E b w), sent @ [b], ds)"
  "pe_set_deadline (recording E) d (w, sent, ds) = (fst (pe_set_deadline E d w), snd (pe_set_deadline E d w), sent, ds @ [d])"
  "pe_read (recording E) (w, l) = (fst (pe_read E w), snd (pe_read E w), l)"
  by (simp_all add: recording_def case_prod_beta Let_def)

lemma exchange_loop_recorded:
  assumes "exchange_loop (recording E) q n hard k timeout (w, sent, ds) = (r, w', sent', ds')"
  shows "\<exists>j ds1. j \<le> k \<and> sent' = sent @ replicate j q \<and> ds' = ds @ ds1 \<and> (\<forall>d\<in>set ds1. d \<le> hard)
           \<and> (\<forall>resp. r = Good resp \<longrightarrow> length resp \<le> n)"
  using assms
proof (induction k arbitrary: timeout w sent ds)
  case 0
  then show ?case by (intro exI [of _ 0] exI [of _ "[]"]) auto
next
  case (Suc k)
  obtain ok1 w1 where wr: "pe_write E q w = (ok1, w1)" by fastforce
  obtain ok2 w2 where dl: "pe_set_deadline E (min (pe_now E w1 + timeout) hard) w1 = (ok2, w2)" by fastforce
  obtain x w3 where rd: "pe_read E w2 = (x, w3)" by fastforce
  let ?d = "min (pe_now E w1 + timeout) hard"
  note step = Suc.prems [unfolded exchange_loop.simps]
  show ?case
  proof (cases "\<not> pe_step_err E w \<and> ok1 \<and> ok2 \<and> x = Read_timeout")
    case True
    with step wr dl rd
    have "exchange_loop (recording E) q n hard k (timeout * 2) (w3, sent @ [q], ds @ [?d]) = (r, w', sent', ds')"
      by simp
    from Suc.IH [OF this] obtain j ds1 where "j \<le> k" "sent' = (sent @ [q]) @ replicate j q" "ds' = (ds @ [?d]) @ ds1"
      "\<forall>d\<in>set ds1. d \<le> hard" "\<forall>resp. r = Good resp \<longrightarrow> length resp \<le> n"
      by auto
    then show ?thesis
      by (intro exI [of _ "Suc j"] exI [of _ "?d # ds1"]) auto
  next
    case False
    have one: "\<exists>j ds1. j \<le> Suc k \<and> sent @ [q] = sent @ replicate j q \<and> ds' = ds @ ds1 \<and> (\<forall>d\<in>set ds1. d \<le> hard)"
      if "ds' = ds \<or> ds' = ds @ [?d]"
      using that by (intro exI [of _ 1]) auto
    show ?thesis
      using step wr dl rd False one
      by (auto simp: Let_def split: if_splits bool.splits read_result.splits)
  qed
qed

text \<open>An exchange sends at most three copies of its request, waits for no read beyond the step timeout, and returns an
  answer within the bound.\<close>

lemma exchange_recorded:
  assumes "exchange (recording E) gateway q n (w, [], []) = (r, w', sent, ds)"
  shows "(\<exists>j \<le> udpMaxAttempts. sent = replicate j q) \<and> (\<forall>d\<in>set ds. d \<le> pe_now E w + stepTimeout)
           \<and> (\<forall>resp. r = Good resp \<longrightarrow> length resp \<le> n)"
proof -
  define hard where "hard = (case pe_ctx_deadline E w of None \<Rightarrow> pe_now E w + stepTimeout
    | Some d \<Rightarrow> min d (pe_now E w + stepTimeout))"
  have "hard \<le> pe_now E w + stepTimeout"
    by (simp add: hard_def split: option.splits)
  moreover have "exchange_loop (recording E) q n hard udpMaxAttempts udpInitialTimeout (w1, [], []) = (r, w', sent, ds)
      \<or> sent = [] \<and> ds = [] \<and> (\<forall>resp. r \<noteq> Good resp)" if "w1 = snd (pe_dial E (the gateway) w)" for w1
    using assms that
    by (auto simp: exchange_def Let_def hard_def split: option.splits dial_result.splits prod.splits)
  ultimately show ?thesis
    using exchange_loop_recorded [of E q n hard udpMaxAttempts udpInitialTimeout _ "[]" "[]" r w' sent ds]
    by fastforce
qed

section \<open>A scripted router\<close>

text \<open>An environment that plays back what a router says, with the host names of the requests it saw.\<close>

record script =
  sc_reads :: "read_result list"
  sc_replies :: "http_result list"
  sc_ssdp :: "(bytes \<times> bytes) list"
  sc_asked :: "string list"

definition scripted :: "addr list \<Rightarrow> script upnp_env" where
  "scripted gws =
     \<lparr>pe_now = (\<lambda>w. 0), pe_ctx_err = (\<lambda>w. False), pe_step_err = (\<lambda>w. False), pe_ctx_deadline = (\<lambda>w. None),
      pe_dial = (\<lambda>a w. (Dialed (Some [192, 168, 1, 7]), w)), pe_write = (\<lambda>b w. (True, w)),
      pe_set_deadline = (\<lambda>d w. (True, w)),
      pe_read = (\<lambda>w. case sc_reads w of [] \<Rightarrow> (Read_timeout, w) | r # rs \<Rightarrow> (r, w\<lparr>sc_reads := rs\<rparr>)),
      pe_rand = (\<lambda>n w. (Some (replicate n 7), w)),
      ue_gateways = (\<lambda>w. ((False, gws), w)), ue_ssdp_open = (\<lambda>w. (True, w)),
      ue_ssdp_datagrams = (\<lambda>w. (sc_ssdp w, w)), ue_map_order = (\<lambda>ks w. rev ks),
      ue_roundtrip = (\<lambda>q w. case sc_replies w of
                        [] \<Rightarrow> (Http_failed, w\<lparr>sc_asked := sc_asked w @ [u_host (hq_url q)]\<rparr>)
                      | r # rs \<Rightarrow> (r, w\<lparr>sc_replies := rs, sc_asked := sc_asked w @ [u_host (hq_url q)]\<rparr>))\<rparr>"

definition sample_gateway :: addr where "sample_gateway = IPv4 [192, 168, 1, 1]"

text \<open>A library in which every URL is its host, and the description always offers one WAN IP connection.\<close>

definition sample_lib :: upnp_lib where
  "sample_lib =
     \<lparr>ul_parse = (\<lambda>s. Some \<lparr>u_scheme = ''http'', u_user = None, u_host = s, u_rest = []\<rparr>), ul_string = u_host,
      ul_resolve = (\<lambda>b r. r),
      ul_parse_addr = (\<lambda>s. if s = ''192.168.1.1'' then Some sample_gateway
                            else if s = ''203.0.113.5'' then Some (IPv4 [203, 0, 113, 5]) else None),
      ul_addr_string = (\<lambda>a. ''192.168.1.7''), ul_status_line = (\<lambda>d. Some ''HTTP/1.1 200 OK''),
      ul_location = (\<lambda>d. Some ''192.168.1.1''),
      ul_root = (\<lambda>b. Some \<lparr>ur_base = [], ur_device = Device [] [Device [(upnpServiceTypes ! 1, ''192.168.1.1'')] []]\<rparr>),
      ul_value = (\<lambda>b n. Some ''203.0.113.5'')\<rparr>"

definition silent_script :: script where
  "silent_script = \<lparr>sc_reads = [], sc_replies = [], sc_ssdp = [([], [192, 168, 1, 1])], sc_asked = []\<rparr>"

definition upnp_script :: script where
  "upnp_script = silent_script\<lparr>sc_replies := [Http_reply 200 [] True [], Http_reply 200 [] True [], Http_reply 200 [] True []]\<rparr>"

definition pcp_script :: script where
  "pcp_script = silent_script\<lparr>sc_reads :=
     [Datagram (pcp_answer 0 3600 (replicate 16 0) (replicate 12 7) [0, 0, 0] 5000 6000 (mapped_prefix @ [203, 0, 113, 5]) [])]\<rparr>"

definition sample_mapping :: mapping where
  "sample_mapping =
     \<lparr>mg_addr = IPv4 [203, 0, 113, 5], mg_port = 6000, mg_internal = 5000, mg_method = MethodPCP,
      mg_lifetime = seconds_of 3600, mg_expires = seconds_of 3600, mg_owned = True, mg_gateway = Some sample_gateway,
      mg_local = Some (IPv4 [192, 168, 1, 7]), mg_nonce = replicate 12 7, mg_control = [], mg_service = []\<rparr>"

lemma scripted_ranges_keys: "ranges_keys (scripted gws)"
  by (simp add: ranges_keys_def scripted_def)

definition sample_url :: url where
  "sample_url = \<lparr>u_scheme = ''http'', u_user = None, u_host = ''192.168.1.1'', u_rest = []\<rparr>"
definition sample_target :: upnp_target where
  "sample_target = \<lparr>ut_gateway = sample_gateway, ut_control = sample_url, ut_service = upnpServiceTypes ! 1\<rparr>"

lemma sample_trims: "trim_space ''192.168.1.1'' = ''192.168.1.1''" "trim_space (upnpServiceTypes ! 1) = upnpServiceTypes ! 1" "trim_space [] = []"
  by (rule trim_space_graphic, code_simp)+

lemma sample_host: "hostAddr sample_lib sample_url = Some sample_gateway" "routerAddrAllowed (Some sample_gateway)"
   "has_prefix (map ascii_upper ''HTTP/1.1 200 OK'') ''HTTP/1.1 200''" "upnpServiceTypes ! 1 \<in> set upnpServiceTypes"
  by code_simp+

lemma sample_description:
  "parseSSDPLocation sample_lib [] = Some sample_url"
  "controlTargets sample_lib [] sample_url sample_gateway = [sample_target]"
  using sample_trims sample_host
  by (simp_all add: parseSSDPLocation_def sample_lib_def sample_url_def controlTargets_def maxDeviceDepth_def description_base_def
    service_target_def resolveControlURL_def map_filter_def sample_target_def del: nth_Cons_numeral)

lemma upnp_script_targets:
  "discoverUPnP sample_lib (scripted [sample_gateway]) [] upnp_script = (Good [sample_target],
     upnp_script\<lparr>sc_replies := [Http_reply 200 [] True [], Http_reply 200 [] True []], sc_asked := [''192.168.1.1'']\<rparr>)"
  using sample_description sample_host(1,2)
  by (simp add: discoverUPnP_def ssdpSearch_def scripted_def upnp_script_def silent_script_def Let_def ssdpMaxResponses_def addr_from_slice_def
   sample_gateway_def fetchDescription_def sample_lib_def max_requests_def numeral_eq_Suc redirect_status_def sample_url_def)

lemma pcp_script_mapping:
  "MapUDP sample_lib (scripted [sample_gateway]) 5000 lifetime pcp_script = (Good sample_mapping, silent_script)"
proof -
  let ?answer = "pcp_answer 0 3600 (replicate 16 0) (replicate 12 7) [0, 0, 0] 5000 6000 (mapped_prefix @ [203, 0, 113, 5]) []"
  have "length ?answer = 60"
    by (simp add: pcp_answer_def mapped_prefix_def)
  moreover have "parsePCPMapResponse ?answer (replicate 12 7) =
      Good \<lparr>pr_internal = 5000, pr_external = IPv4 [203, 0, 113, 5], pr_port = 6000, pr_lifetime = seconds_of 3600\<rparr>"
    by (subst pcp_answer_read) (simp_all add: mapped_prefix_def)
  ultimately show ?thesis
    by (simp add: MapUDP_def mapUDP_def scripted_def mapPCP_def localAddrFor_def addr_from_slice_def exchange_def Let_def
        fill_array_def pcp_script_def silent_script_def udpMaxAttempts_def pcpMaxRespBytes_def pcpNonceLen_def
        sample_mapping_def numeral_3_eq_3 seconds_of_exact second_def granted_lifetime_def)
qed

section \<open>Properties\<close>

text \<open>C24. The code accepts an answer to a PCP request exactly when it is a successful MAP answer laid out as in RFC 6887
  that echoes the nonce of the request, and then it reads the router's ports, external address and lifetime from it: a
  host that does not know the nonce cannot have its address taken for the external one, and no field is misread.\<close>

theorem pcp_answer_exact:
  "parsePCPMapResponse resp nonce = Good r \<longleftrightarrow>
     (\<exists>reserved life epoch pad ext options.
        length epoch = 16 \<and> length nonce = 12 \<and> length pad = 3 \<and> length ext = 16 \<and> length options \<le> 1040
        \<and> 4 dvd length options \<and> pr_external r = Unmap (IPv6 ext) \<and> pr_lifetime r = uint life * second
        \<and> resp = pcp_answer reserved life epoch nonce pad (pr_internal r) (pr_port r) ext options)"
  (is "?l = ?r")
proof
  assume ?l
  from pcp_answer_inv [OF this] show ?r
    by (simp add: seconds_of_exact)
next
  assume ?r
  then show ?l
    by (auto simp: pcp_answer_read seconds_of_exact)
qed

text \<open>C23. Whatever the routers send over UDP, SSDP or HTTP, and however the exchanges fail, asking for a mapping and
  handing one back never panics: every index and slice of an answer is within bounds.\<close>

theorem portmap_never_panics:
  assumes "ranges_keys E"
  shows "fst (MapUDP L E p lifetime w) \<noteq> Panic \<and> fst (Release L E mo w') \<noteq> Panic"
  using assms by (simp add: MapUDP_def mapUDP_not_Panic Release_not_Panic)

theorem portmap_never_panics_witness:
  "fst (MapUDP sample_lib (scripted [sample_gateway]) 5000 0 silent_script) \<noteq> Panic
     \<and> fst (Release sample_lib (scripted [sample_gateway]) None silent_script) \<noteq> Panic"
  by (rule portmap_never_panics [OF scripted_ranges_keys])

text \<open>A mapping that \<open>MapUDP\<close> returns forwards to the port that was asked for, from a port and for a time that are
  not zero, and it carries what \<open>Release\<close> needs: its method is one that \<open>Release\<close> knows, with the gateway and the
  nonce.\<close>

theorem mapped_port_usable:
  assumes "MapUDP L E p lifetime w = (Good m, w')"
  shows "p \<noteq> 0 \<and> mg_internal m = p \<and> mg_port m \<noteq> 0 \<and> mg_lifetime m > 0 \<and> mg_gateway m \<noteq> None
    \<and> length (mg_nonce m) = pcpNonceLen
    \<and> (\<forall>w. Release L E (Some m) w = releasePCP E m w \<or> Release L E (Some m) w = releaseNATPMP E m w
         \<or> Release L E (Some m) w = releaseUPnP L E m w)"
proof -
  from mapUDP_usable [OF assms [unfolded MapUDP_def]] have "p \<noteq> 0" and u: "usable_mapping p m"
    by auto
  then show ?thesis
    by (auto simp: Release_known_method [OF u]) (simp_all add: usable_mapping_def)
qed

theorem mapped_port_usable_witness:
  "(5000 :: 16 word) \<noteq> 0 \<and> mg_internal sample_mapping = 5000 \<and> mg_port sample_mapping \<noteq> 0
    \<and> mg_lifetime sample_mapping > 0 \<and> length (mg_nonce sample_mapping) = pcpNonceLen"
  using mapped_port_usable [OF pcp_script_mapping] by blast



section \<open>A redirect leaves the gateway\<close>

text \<open>The guard is on the URLs of the search and of the description only: the HTTP client follows a redirect, so a router
  can have the relay fetch any host.\<close>

definition redirect_script :: script where
  "redirect_script = silent_script\<lparr>sc_replies := [Http_reply 302 [] True ''203.0.113.5'', Http_reply 200 [] True []]\<rparr>"

lemma description_redirect_leaves_gateway:
  "hostAddr sample_lib sample_url = Some sample_gateway
   \<and> fst (fetchDescription sample_lib (scripted [sample_gateway]) sample_url redirect_script) = Good []
   \<and> sc_asked (snd (fetchDescription sample_lib (scripted [sample_gateway]) sample_url redirect_script))
       = [''192.168.1.1'', ''203.0.113.5'']
   \<and> \<not> routerAddrAllowed (ul_parse_addr sample_lib ''203.0.113.5'')"
proof -
  have "\<not> routerAddrAllowed (ul_parse_addr sample_lib ''203.0.113.5'')" by code_simp
  with sample_host(1) show ?thesis
    by (simp add: scripted_def redirect_script_def silent_script_def  Let_def
   fetchDescription_def sample_lib_def max_requests_def numeral_eq_Suc redirect_status_def redirected_def sample_url_def)
qed

end
