(* ===== verification/Mapper.thy ===== *)
theory Mapper
  imports Portmap_Props
begin

text \<open>
  The \<open>Mapper\<close> of \<open>src/internal/portmap/portmap.go\<close>, which keeps one mapping alive: \<open>Run\<close> in its own goroutine,
  \<open>Close\<close> from another one, and the fields they share under the mutex.

  \<^item> \<open>mapper\<close> is the struct with the program counters of \<open>Run\<close> and \<open>Close\<close>: a \<open>Run\<close> that has not started, is inside
    \<open>mapUDP\<close>, waits in its \<open>select\<close> (with the next backoff and the wait), or has returned. \<open>mp_cancelled\<close> says that the
    run context is done. \<open>mp_attempts\<close> and \<open>mp_released\<close> record the outcomes given to \<open>setCurrent\<close> and the mappings
    released.
  \<^item> \<open>mapper_step\<close> interleaves the atomic parts of both with the end of the caller's context; an attempt is a call of
    \<open>mapUDP\<close> in any world. The invariant \<open>mapper_inv\<close> holds in every reachable state.
\<close>

section \<open>State\<close>

definition initialBackoff :: duration where "initialBackoff = 30 * second"
definition maxBackoff :: duration where "maxBackoff = 600 * second"
definition minRenew :: duration where "minRenew = 30 * second"

datatype run_pc = Run_idle | Run_attempting duration | Run_waiting duration duration | Run_returned

datatype close_pc = Close_idle | Close_waiting | Close_finished

record mapper =
  mp_current :: "mapping option"
  mp_closed :: bool
  mp_cancel :: bool
  mp_cancelled :: bool
  mp_run :: run_pc
  mp_close :: close_pc
  mp_attempts :: "mapping option list"
  mp_released :: "mapping list"

definition NewMapper :: mapper where
  "NewMapper =
     \<lparr>mp_current = None, mp_closed = False, mp_cancel = False, mp_cancelled = False, mp_run = Run_idle,
      mp_close = Close_idle, mp_attempts = [], mp_released = []\<rparr>"

fun run_active :: "run_pc \<Rightarrow> bool" where
  "run_active (Run_attempting b) = True"
| "run_active (Run_waiting b d) = True"
| "run_active _ = False"

section \<open>Operations\<close>

definition Run_begin :: "16 word \<Rightarrow> mapper \<Rightarrow> mapper" where
  "Run_begin internalPort s =
     (if internalPort = 0 then s\<lparr>mp_run := Run_returned\<rparr>
      else if mp_closed s then s\<lparr>mp_run := Run_returned\<rparr>
      else s\<lparr>mp_cancel := True, mp_run := Run_attempting initialBackoff\<rparr>)"

definition setCurrent :: "mapping option \<Rightarrow> mapper \<Rightarrow> mapper" where
  "setCurrent m s = s\<lparr>mp_current := m, mp_attempts := mp_attempts s @ [m]\<rparr>"

definition renew_wait :: "mapping \<Rightarrow> duration" where
  "renew_wait m = max (mg_lifetime m sdiv 2) minRenew"

definition run_attempt :: "duration \<Rightarrow> mapping option \<Rightarrow> mapper \<Rightarrow> mapper" where
  "run_attempt backoff r s =
     (case r of
        None \<Rightarrow> if mp_cancelled s then s\<lparr>mp_run := Run_returned\<rparr>
                else (setCurrent None s)\<lparr>mp_run := Run_waiting (min (backoff * 2) maxBackoff) backoff\<rparr>
      | Some m \<Rightarrow> (setCurrent (Some m) s)\<lparr>mp_run := Run_waiting initialBackoff (renew_wait m)\<rparr>)"

definition run_tick :: "duration \<Rightarrow> mapper \<Rightarrow> mapper" where
  "run_tick backoff s = s\<lparr>mp_run := Run_attempting backoff\<rparr>"

definition run_done :: "mapper \<Rightarrow> mapper" where
  "run_done s = s\<lparr>mp_run := Run_returned\<rparr>"

definition Current :: "mapper \<Rightarrow> mapping option \<times> bool" where
  "Current s = (mp_current s, mp_current s \<noteq> None)"

definition close_begin :: "mapper \<Rightarrow> mapper" where
  "close_begin s =
     (if mp_closed s then s
      else s\<lparr>mp_closed := True, mp_cancelled := mp_cancelled s \<or> mp_cancel s, mp_close := Close_waiting\<rparr>)"

definition close_finish :: "mapper \<Rightarrow> mapper" where
  "close_finish s =
     s\<lparr>mp_current := None, mp_close := Close_finished,
       mp_released := mp_released s @ (case mp_current s of None \<Rightarrow> [] | Some m \<Rightarrow> [m])\<rparr>"

text \<open>What the loop makes of the result of \<open>mapUDP\<close>.\<close>

definition attempt_result :: "mapping outcome \<Rightarrow> mapping option" where
  "attempt_result r = (case r of Good m \<Rightarrow> Some m | _ \<Rightarrow> None)"

inductive mapper_step :: "upnp_lib \<Rightarrow> ('w, 'z) upnp_env_scheme \<Rightarrow> 16 word \<Rightarrow> mapper \<Rightarrow> mapper \<Rightarrow> bool"
  for L :: upnp_lib and E :: "('w, 'z) upnp_env_scheme" and p :: "16 word" where
  start: "mp_run s = Run_idle \<Longrightarrow> mapper_step L E p s (Run_begin p s)"
| attempt: "mp_run s = Run_attempting b \<Longrightarrow> mapUDP L E True p DefaultLifetime w = (r, w') \<Longrightarrow> r \<noteq> Panic
    \<Longrightarrow> mapper_step L E p s (run_attempt b (attempt_result r) s)"
| tick: "mp_run s = Run_waiting b d \<Longrightarrow> mapper_step L E p s (run_tick b s)"
| context_done: "mp_run s = Run_waiting b d \<Longrightarrow> mp_cancelled s \<Longrightarrow> mapper_step L E p s (run_done s)"
| cancelled: "run_active (mp_run s) \<Longrightarrow> mapper_step L E p s (s\<lparr>mp_cancelled := True\<rparr>)"
| close_call: "mapper_step L E p s (close_begin s)"
| close_done: "mp_close s = Close_waiting \<Longrightarrow> \<not> run_active (mp_run s) \<Longrightarrow> mapper_step L E p s (close_finish s)"

inductive mapper_reachable :: "upnp_lib \<Rightarrow> ('w, 'z) upnp_env_scheme \<Rightarrow> 16 word \<Rightarrow> mapper \<Rightarrow> bool"
  for L :: upnp_lib and E :: "('w, 'z) upnp_env_scheme" and p :: "16 word" where
  new: "mapper_reachable L E p NewMapper"
| step: "mapper_reachable L E p s \<Longrightarrow> mapper_step L E p s s' \<Longrightarrow> mapper_reachable L E p s'"

lemmas mapper_ops = Run_begin_def setCurrent_def run_attempt_def run_tick_def run_done_def close_begin_def close_finish_def

section \<open>Invariant\<close>

text \<open>The failures since the last mapping, and the backoff they lead to.\<close>

definition failures_of :: "mapping option list \<Rightarrow> nat" where
  "failures_of rs = length (takeWhile (\<lambda>r. r = None) (rev rs))"

definition backoff_after :: "nat \<Rightarrow> duration" where
  "backoff_after n = min (initialBackoff * 2 ^ n) maxBackoff"

definition in_force :: "mapping option list \<Rightarrow> mapping option" where
  "in_force rs = (if rs = [] then None else last rs)"

fun run_inv :: "mapping option list \<Rightarrow> run_pc \<Rightarrow> bool" where
  "run_inv rs Run_idle \<longleftrightarrow> rs = []"
| "run_inv rs (Run_attempting b) \<longleftrightarrow> b = backoff_after (failures_of rs)"
| "run_inv rs (Run_waiting b d) \<longleftrightarrow> rs \<noteq> [] \<and> b = backoff_after (failures_of rs)
     \<and> d = (case last rs of None \<Rightarrow> backoff_after (failures_of rs - 1) | Some m \<Rightarrow> renew_wait m)"
| "run_inv rs Run_returned \<longleftrightarrow> True"

definition mapper_inv :: "16 word \<Rightarrow> mapper \<Rightarrow> bool" where
  "mapper_inv p s \<longleftrightarrow>
     (mp_closed s \<longleftrightarrow> mp_close s \<noteq> Close_idle)
     \<and> (run_active (mp_run s) \<longrightarrow> mp_cancel s \<and> (mp_closed s \<longrightarrow> mp_cancelled s))
     \<and> (mp_close s = Close_finished \<longrightarrow> \<not> run_active (mp_run s) \<and> mp_current s = None
          \<and> mp_released s = (case in_force (mp_attempts s) of None \<Rightarrow> [] | Some m \<Rightarrow> [m]))
     \<and> (mp_close s \<noteq> Close_finished \<longrightarrow> mp_current s = in_force (mp_attempts s) \<and> mp_released s = [])
     \<and> (\<forall>m. Some m \<in> set (mp_attempts s) \<longrightarrow> usable_mapping p m)
     \<and> run_inv (mp_attempts s) (mp_run s)"

lemma failures_of_snoc [simp]:
  "failures_of (rs @ [None]) = Suc (failures_of rs)" "failures_of (rs @ [Some m]) = 0"
  by (simp_all add: failures_of_def)

lemma failures_of_Nil [simp]: "failures_of [] = 0"
  by (simp add: failures_of_def)

lemma backoff_after_0: "backoff_after 0 = initialBackoff"
  by (simp add: backoff_after_def initialBackoff_def maxBackoff_def second_def)

lemma backoff_after_Suc: "min (backoff_after n * 2) maxBackoff = backoff_after (Suc n)"
proof -
  have "0 < maxBackoff"
    by (simp add: maxBackoff_def second_def)
  then show ?thesis
    by (simp add: backoff_after_def min_def mult.assoc)
qed

lemma in_force_snoc [simp]: "in_force (rs @ [r]) = r"
  by (simp add: in_force_def)

lemma attempt_result_Some: "attempt_result r = Some m \<longleftrightarrow> r = Good m"
  by (cases r) (simp_all add: attempt_result_def)

lemma run_inv_attempt:
  "mapper_inv p s \<Longrightarrow> mp_run s = Run_attempting b \<Longrightarrow> (\<And>m. r = Some m \<Longrightarrow> usable_mapping p m)
     \<Longrightarrow> mapper_inv p (run_attempt b r s)"
  by (cases r) (auto simp: mapper_inv_def run_attempt_def setCurrent_def backoff_after_0 backoff_after_Suc)

lemma NewMapper_inv: "mapper_inv p NewMapper"
  by (simp add: mapper_inv_def NewMapper_def in_force_def)

lemma mapper_step_inv:
  assumes "mapper_step L E p s s'" "mapper_inv p s"
  shows "mapper_inv p s'"
  using assms
proof (induction rule: mapper_step.induct)
  case (start s)
  then show ?case
    by (auto simp: mapper_inv_def Run_begin_def backoff_after_0)
next
  case (attempt s b w r w')
  then show ?case
    by (intro run_inv_attempt) (auto simp: attempt_result_Some dest: mapUDP_usable)
next
  case (tick s b d)
  then show ?case by (auto simp: mapper_inv_def run_tick_def)
next
  case (context_done s b d)
  then show ?case by (auto simp: mapper_inv_def run_done_def)
next
  case (cancelled s)
  then show ?case by (auto simp: mapper_inv_def)
next
  case (close_call s)
  then show ?case by (auto simp: mapper_inv_def close_begin_def)
next
  case (close_done s)
  then show ?case by (auto simp: mapper_inv_def close_finish_def)
qed

lemma mapper_reachable_inv: "mapper_reachable L E p s \<Longrightarrow> mapper_inv p s"
  by (induction rule: mapper_reachable.induct) (auto intro: NewMapper_inv mapper_step_inv)

section \<open>Closing completes\<close>

lemma close_finish_step:
  "mp_close s = Close_waiting \<Longrightarrow> \<not> run_active (mp_run s) \<Longrightarrow>
     \<exists>s'. (mapper_step L E p)\<^sup>*\<^sup>* s s' \<and> mp_close s' = Close_finished"
  by (intro exI [of _ "close_finish s"] conjI r_into_rtranclp close_done) (simp_all add: close_finish_def)

lemma close_waiting_run:
  assumes "mp_close s = Close_waiting" "mp_cancelled s" "mp_run s = Run_waiting b d"
  shows "\<exists>s'. (mapper_step L E p)\<^sup>*\<^sup>* s s' \<and> mp_close s' = Close_finished"
proof -
  have step: "mapper_step L E p s (run_done s)"
    using assms by (intro context_done)
  have "mp_close (run_done s) = Close_waiting" "\<not> run_active (mp_run (run_done s))"
    using assms by (simp_all add: run_done_def)
  from close_finish_step [OF this, of L E p] step show ?thesis
    by (metis converse_rtranclp_into_rtranclp)
qed

lemma close_attempting_run:
  assumes "ranges_keys E" "mp_close s = Close_waiting" "mp_cancelled s" "mp_run s = Run_attempting b"
  shows "\<exists>s'. (mapper_step L E p)\<^sup>*\<^sup>* s s' \<and> mp_close s' = Close_finished"
proof -
  obtain r w' where call: "mapUDP L E True p DefaultLifetime undefined = (r, w')"
    by fastforce
  then have "r \<noteq> Panic"
    using mapUDP_not_Panic [OF assms(1), of L True p DefaultLifetime undefined] by simp
  with call assms(4) have step: "mapper_step L E p s (run_attempt b (attempt_result r) s)" (is "mapper_step L E p s ?t")
    by (intro attempt)
  have t: "mp_close ?t = Close_waiting" "mp_cancelled ?t"
    using assms(2,3) by (simp_all add: run_attempt_def setCurrent_def split: option.splits)
  have "\<exists>s'. (mapper_step L E p)\<^sup>*\<^sup>* ?t s' \<and> mp_close s' = Close_finished"
  proof (cases "attempt_result r")
    case None
    with assms(3) have "\<not> run_active (mp_run ?t)"
      by (simp add: run_attempt_def)
    with t(1) show ?thesis by (rule close_finish_step)
  next
    case (Some m)
    then have "mp_run ?t = Run_waiting initialBackoff (renew_wait m)"
      by (simp add: run_attempt_def)
    with t show ?thesis by (rule close_waiting_run)
  qed
  with step show ?thesis
    by (metis converse_rtranclp_into_rtranclp)
qed

lemma close_completes:
  assumes "ranges_keys E" "mapper_inv p s" "mp_closed s"
  shows "\<exists>s'. (mapper_step L E p)\<^sup>*\<^sup>* s s' \<and> mp_close s' = Close_finished"
proof (cases "mp_close s = Close_finished")
  case True
  then show ?thesis by blast
next
  case False
  with assms(2,3) have "mp_close s = Close_waiting"
    using close_pc.exhaust [of "mp_close s"] by (auto simp: mapper_inv_def)
  moreover have "mp_cancelled s" if "run_active (mp_run s)"
    using assms(2,3) that by (simp add: mapper_inv_def)
  ultimately show ?thesis
    using assms(1) close_finish_step [of s L E p] close_waiting_run [of s _ _ L E p] close_attempting_run [of E s _ L p]
    by (cases "mp_run s") auto
qed

section \<open>A sample run\<close>

definition started :: mapper where "started = Run_begin 5000 NewMapper"
definition mapped :: mapper where "mapped = run_attempt initialBackoff (Some sample_mapping) started"
definition closing :: mapper where "closing = close_begin mapped"

lemma sample_reachable:
  "mapper_reachable sample_lib (scripted [sample_gateway]) 5000 mapped"
  "mapper_reachable sample_lib (scripted [sample_gateway]) 5000 closing"
proof -
  have start: "mapper_reachable sample_lib (scripted [sample_gateway]) 5000 started"
    unfolding started_def by (intro step [OF new] start) (simp add: NewMapper_def)
  have "mp_run started = Run_attempting initialBackoff"
    by (simp add: started_def Run_begin_def NewMapper_def)
  from attempt [OF this pcp_script_mapping [unfolded MapUDP_def]]
  have "mapper_step sample_lib (scripted [sample_gateway]) 5000 started mapped"
    by (simp add: mapped_def attempt_result_def)
  with start show "mapper_reachable sample_lib (scripted [sample_gateway]) 5000 mapped"
    by (rule step)
  then show "mapper_reachable sample_lib (scripted [sample_gateway]) 5000 closing"
    unfolding closing_def by (rule step) (rule close_call)
qed

lemma sample_states:
  "mp_run mapped = Run_waiting initialBackoff (renew_wait sample_mapping)" "mp_current mapped = Some sample_mapping"
  "mp_closed closing"
  by (simp_all add: mapped_def run_attempt_def started_def Run_begin_def NewMapper_def setCurrent_def closing_def
      close_begin_def)

section \<open>Properties\<close>

text \<open>C29. While a mapping is in force and the router granted at least a minute, the next renewal comes no later than half of
  the granted lifetime after the grant; without a mapping the mapper waits 30 seconds, doubled with every further failure up
  to ten minutes, before it tries again.\<close>

theorem mapper_schedule:
  assumes "mapper_reachable L E p s" "mp_run s = Run_waiting backoff wait"
  shows "(case mp_current s of
            Some m \<Rightarrow> usable_mapping p m \<and> (60 * second \<le> mg_lifetime m \<longrightarrow> 2 * wait \<le> mg_lifetime m)
          | None \<Rightarrow> failures_of (mp_attempts s) > 0
              \<and> wait = min (30 * second * 2 ^ (failures_of (mp_attempts s) - 1)) (600 * second))"
proof -
  from mapper_reachable_inv [OF assms(1)] have inv: "mapper_inv p s" .
  with assms(2) have current: "mp_current s = last (mp_attempts s)" "mp_attempts s \<noteq> []"
    by (auto simp: mapper_inv_def in_force_def)
  then have member: "last (mp_attempts s) \<in> set (mp_attempts s)"
    by simp
  show ?thesis
  proof (cases "mp_current s")
    case None
    with current have "mp_attempts s = butlast (mp_attempts s) @ [None]"
      using append_butlast_last_id by metis
    then have "failures_of (mp_attempts s) > 0"
      by (metis failures_of_snoc(1) zero_less_Suc)
    with None current inv assms(2) show ?thesis
      by (simp add: mapper_inv_def backoff_after_def initialBackoff_def maxBackoff_def)
  next
    case (Some m)
    with current member have l: "last (mp_attempts s) = Some m" "Some m \<in> set (mp_attempts s)"
      by simp_all
    with inv have u: "usable_mapping p m"
      by (simp add: mapper_inv_def)
    from inv assms(2) have "run_inv (mp_attempts s) (Run_waiting backoff wait)"
      by (simp add: mapper_inv_def)
    with l(1) have wait: "wait = renew_wait m"
      by simp
    from u have "mg_lifetime m sdiv 2 = mg_lifetime m div 2"
      by (simp add: usable_mapping_def signed_divide_int_def)
    with wait u Some show ?thesis
      by (auto simp: renew_wait_def minRenew_def)
  qed
qed

theorem mapper_schedule_witness:
  "usable_mapping 5000 sample_mapping \<and> 2 * renew_wait sample_mapping \<le> mg_lifetime sample_mapping"
proof -
  have "60 * second \<le> mg_lifetime sample_mapping"
    by (simp add: sample_mapping_def seconds_of_exact second_def)
  then show ?thesis
    using mapper_schedule [OF sample_reachable(1) sample_states(1)] by (simp add: sample_states(2))
qed

text \<open>C28. When \<open>Close\<close> has returned, no \<open>Run\<close> is active any more, no mapping is reported, and the one in force when \<open>Run\<close>
  stopped, and only that one, was handed back to the router; and a \<open>Close\<close> that was called can always get there, whatever
  \<open>Run\<close> is doing.\<close>

theorem mapper_close_releases:
  assumes "ranges_keys E" "mapper_reachable L E p s" "mp_closed s"
  shows "(mp_close s = Close_finished \<longrightarrow>
            \<not> run_active (mp_run s) \<and> mp_current s = None
            \<and> mp_released s = (case in_force (mp_attempts s) of None \<Rightarrow> [] | Some m \<Rightarrow> [m]))
    \<and> (\<exists>s'. (mapper_step L E p)\<^sup>*\<^sup>* s s' \<and> mp_close s' = Close_finished)"
  using close_completes [OF assms(1) mapper_reachable_inv [OF assms(2)] assms(3)] mapper_reachable_inv [OF assms(2)]
  by (simp add: mapper_inv_def)

theorem mapper_close_releases_witness:
  "\<exists>s'. (mapper_step sample_lib (scripted [sample_gateway]) 5000)\<^sup>*\<^sup>* closing s' \<and> mp_close s' = Close_finished"
  using mapper_close_releases [OF scripted_ranges_keys sample_reachable(2) sample_states(3)] by blast

section \<open>A short lease\<close>

text \<open>A router that grants less than 30 seconds is asked again only after its mapping has lapsed, and until then the mapping
  is still reported as the current one.\<close>

lemma short_lease_lapses:
  assumes "mg_lifetime m < minRenew"
  shows "Current (run_attempt b (Some m) s) = (Some m, True)
    \<and> (\<exists>wait. mp_run (run_attempt b (Some m) s) = Run_waiting initialBackoff wait \<and> mg_lifetime m < wait)"
  using assms by (auto simp: Current_def run_attempt_def setCurrent_def renew_wait_def)

end
