(* ===== verification/Release_Manifest.thy ===== *)
theory Release_Manifest
  imports Go_Text "HOL-Library.AList" "HOL-Library.List_Lexorder" "HOL-Library.Char_ord"
begin

text \<open>
  Release bundles: \<open>src/internal/release/manifest.go\<close> and \<open>compatibility.go\<close>.

  \<^item> \<open>release_tree\<close> is a bundle on disk as \<open>filepath.WalkDir\<close> sees it: the relative slash-separated names in walk order with
    their kind, content and permissions. A path through a symbolic link is not part of the walk; \<open>rt_outside\<close> says what
    reading such a path gives. The root is an absolute path.
  \<^item> JSON and SHA-256 are arguments (\<open>release_env\<close>): \<open>re_decode\<close> and \<open>re_encode\<close> of a manifest and the hexadecimal
    digest \<open>re_sha\<close> of a byte string.
  \<^item> The Go map of files is an association list, in the order a range over it takes.
\<close>

section \<open>Bundles\<close>

type_synonym perms = "32 word"

datatype fs_node = N_dir perms | N_regular "string option" perms | N_symlink | N_special | N_unreadable

record release_tree =
  rt_mode :: perms
  rt_nodes :: "(string \<times> fs_node) list"
  rt_outside :: "string \<Rightarrow> string option"

record manifest =
  mf_schema :: int
  mf_version :: string
  mf_revision :: string
  mf_target :: string
  mf_web_hash :: string
  mf_app_transports :: "string list"
  mf_relay_transports :: "string list"
  mf_files :: "(string \<times> string) list"

record release_env =
  re_decode :: "string \<Rightarrow> manifest option"
  re_encode :: "manifest \<Rightarrow> string option"
  re_sha :: "string \<Rightarrow> string"

datatype release_error =
    Err_read_manifest | Err_parse_manifest | Err_schema int | Err_version_required | Err_files_required
  | Err_target | Err_manifest_path string | Err_not_canonical string | Err_bad_hash string | Err_hash_file string
  | Err_hash_mismatch string | Err_web_hash | Err_walk | Err_symlink string | Err_not_regular string
  | Err_unlisted string | Err_missing string | Err_not_executable | Err_chmod string | Err_build_arguments | Err_write
  | Err_no_compatibility | Err_too_many string | Err_transport string string | Err_duplicate string string
  | Err_app_relay | Err_relay_app

definition ManifestName :: string where "ManifestName = ''release-manifest.json''"
definition ManifestSchema :: int where "ManifestSchema = 1"
definition relay_binary :: string where "relay_binary = ''herdr-mobile-relay''"
definition web_prefix :: string where "web_prefix = ''web/''"

definition required_files :: "string list" where
  "required_files =
     [''herdr-mobile-relay'', ''web/index.html'', ''LICENSE'', ''README.md'', ''relay/common.sh'',
      ''relay/herdr-mobile-relay-service.sh'', ''relay/plugin-on-event.sh'', ''relay/setup-link.sh'',
      ''relay/stable-setup.sh'', ''relay/stable-teardown.sh'', ''relay/start.sh'']"

text \<open>\<open>os.ReadFile\<close> and the reading part of \<open>hashRegularFile\<close>.\<close>

definition read_file :: "release_tree \<Rightarrow> string \<Rightarrow> string option" where
  "read_file t name =
     (case map_of (rt_nodes t) name of
        Some (N_regular content mode) \<Rightarrow> content
      | Some _ \<Rightarrow> None
      | None \<Rightarrow> rt_outside t name)"

definition hashRegularFile :: "release_env \<Rightarrow> release_tree \<Rightarrow> string \<Rightarrow> string option" where
  "hashRegularFile E t name = map_option (re_sha E) (read_file t name)"

section \<open>Names and hashes\<close>

definition cleanRelative :: "string \<Rightarrow> string option" where
  "cleanRelative name =
     (if name = [] \<or> CHR 0x5C \<in> set name \<or> is_abs name then None
      else let clean = path_clean name
           in if clean = ''.'' \<or> clean = ''..'' \<or> has_prefix clean ''../'' then None else Some clean)"

definition lower_hex :: "char \<Rightarrow> bool" where
  "lower_hex c \<longleftrightarrow> is_digit c \<or> 97 \<le> byte_val c \<and> byte_val c \<le> 102"

definition validSHA256 :: "string \<Rightarrow> bool" where
  "validSHA256 v \<longleftrightarrow> length v = 64 \<and> list_all lower_hex v"

definition web_line :: "string \<times> string \<Rightarrow> string" where
  "web_line f = fst f @ [CHR 0x00] @ snd f @ [newline]"

definition hashFileMap :: "release_env \<Rightarrow> (string \<times> string) list \<Rightarrow> string \<Rightarrow> string" where
  "hashFileMap E files prefix =
     (let keys = sort (filter (\<lambda>n. has_prefix n prefix) (map fst files))
      in if keys = [] then []
         else re_sha E (concat (map (\<lambda>n. web_line (n, the (map_of files n))) keys)))"

section \<open>Loading and verifying\<close>

definition Load :: "release_env \<Rightarrow> release_tree \<Rightarrow> release_error + manifest" where
  "Load E t =
     (case read_file t ManifestName of
        None \<Rightarrow> Inl Err_read_manifest
      | Some data \<Rightarrow>
          (case re_decode E data of
             None \<Rightarrow> Inl Err_parse_manifest
           | Some m \<Rightarrow>
               if mf_schema m \<noteq> ManifestSchema then Inl (Err_schema (mf_schema m))
               else if trim_space (mf_version m) = [] \<or> trim_space (mf_revision m) = [] then Inl Err_version_required
               else if mf_target m = [] \<or> mf_files m = [] then Inl Err_files_required
               else Inr m))"

definition verify_file :: "release_env \<Rightarrow> release_tree \<Rightarrow> string \<Rightarrow> string \<Rightarrow> release_error option" where
  "verify_file E t name expected =
     (case cleanRelative name of
        None \<Rightarrow> Some (Err_manifest_path name)
      | Some clean \<Rightarrow>
          if clean \<noteq> name then Some (Err_not_canonical name)
          else if \<not> validSHA256 expected then Some (Err_bad_hash name)
          else (case hashRegularFile E t clean of
                  None \<Rightarrow> Some (Err_hash_file name)
                | Some actual \<Rightarrow> if actual \<noteq> expected then Some (Err_hash_mismatch name) else None))"

fun verify_files :: "release_env \<Rightarrow> release_tree \<Rightarrow> (string \<times> string) list \<Rightarrow> release_error option" where
  "verify_files E t [] = None"
| "verify_files E t ((name, expected) # fs) =
     (case verify_file E t name expected of Some err \<Rightarrow> Some err | None \<Rightarrow> verify_files E t fs)"

definition walk_check :: "string set \<Rightarrow> string \<Rightarrow> fs_node \<Rightarrow> release_error option" where
  "walk_check listed name node =
     (case node of
        N_unreadable \<Rightarrow> Some Err_walk
      | N_symlink \<Rightarrow> Some (Err_symlink name)
      | N_dir mode \<Rightarrow> None
      | N_special \<Rightarrow> if name = ManifestName then None else Some (Err_not_regular name)
      | N_regular c mode \<Rightarrow> if name = ManifestName then None
                             else if name \<notin> listed then Some (Err_unlisted name) else None)"

fun walk_verify :: "string set \<Rightarrow> (string \<times> fs_node) list \<Rightarrow> release_error option" where
  "walk_verify listed [] = None"
| "walk_verify listed ((name, node) # ns) =
     (case walk_check listed name node of Some err \<Rightarrow> Some err | None \<Rightarrow> walk_verify listed ns)"

text \<open>The permission masks \<open>0o111\<close> and \<open>0o222\<close>.\<close>

definition exec_bits :: perms where "exec_bits = 0x49"
definition write_bits :: perms where "write_bits = 0x92"

text \<open>\<open>os.Stat\<close> of the relay binary, which is a regular file of the tree when this is reached.\<close>

definition binary_executable :: "release_tree \<Rightarrow> bool" where
  "binary_executable t =
     (case map_of (rt_nodes t) relay_binary of
        Some (N_regular c mode) \<Rightarrow> and mode exec_bits \<noteq> 0
      | Some (N_dir mode) \<Rightarrow> and mode exec_bits \<noteq> 0
      | _ \<Rightarrow> False)"

definition Verify :: "release_env \<Rightarrow> release_tree \<Rightarrow> string \<Rightarrow> release_error + manifest" where
  "Verify E t expectedTarget =
     (case Load E t of
        Inl err \<Rightarrow> Inl err
      | Inr m \<Rightarrow>
          if expectedTarget \<noteq> [] \<and> mf_target m \<noteq> expectedTarget then Inl Err_target
          else (case verify_files E t (mf_files m) of
                  Some err \<Rightarrow> Inl err
                | None \<Rightarrow>
                    (let listed = fst ` set (mf_files m);
                         web = hashFileMap E (mf_files m) web_prefix
                     in if web = [] \<or> mf_web_hash m \<noteq> web then Inl Err_web_hash
                        else (case walk_verify listed (rt_nodes t) of
                                Some err \<Rightarrow> Inl err
                              | None \<Rightarrow>
                                  (case filter (\<lambda>r. r \<notin> listed) required_files of
                                     r # _ \<Rightarrow> Inl (Err_missing r)
                                   | [] \<Rightarrow> if binary_executable t then Inr m else Inl Err_not_executable)))))"

section \<open>Sealing\<close>

definition seal_mode :: "perms \<Rightarrow> perms" where
  "seal_mode mode = and mode (not write_bits)"

fun seal_node :: "fs_node \<Rightarrow> fs_node" where
  "seal_node (N_dir mode) = N_dir (seal_mode mode)"
| "seal_node (N_regular c mode) = N_regular c (seal_mode mode)"
| "seal_node n = n"

text \<open>The walk that clears the write permissions; \<open>chmod_ok\<close> says for which names the call succeeds. An error stops it.\<close>

fun seal_walk :: "(string \<Rightarrow> bool) \<Rightarrow> (string \<times> fs_node) list \<Rightarrow> (string \<times> fs_node) list \<times> release_error option" where
  "seal_walk chmod_ok [] = ([], None)"
| "seal_walk chmod_ok ((name, node) # ns) =
     (if node = N_unreadable then ((name, node) # ns, Some Err_walk)
      else if \<not> chmod_ok name then ((name, node) # ns, Some (Err_chmod name))
      else let (ns', err) = seal_walk chmod_ok ns in ((name, seal_node node) # ns', err))"

definition Seal :: "release_env \<Rightarrow> (string \<Rightarrow> bool) \<Rightarrow> release_tree \<Rightarrow> release_tree \<times> release_error option" where
  "Seal E chmod_ok t =
     (case Verify E t [] of
        Inl err \<Rightarrow> (t, Some err)
      | Inr m \<Rightarrow>
          if \<not> chmod_ok [] then (t, Some (Err_chmod []))
          else let (ns, err) = seal_walk chmod_ok (rt_nodes t)
               in (t\<lparr>rt_mode := seal_mode (rt_mode t), rt_nodes := ns\<rparr>, err))"

section \<open>Building\<close>

definition EncryptedWebSocketSubprotocol :: string where "EncryptedWebSocketSubprotocol = ''herdr-e2ee-v1''"
definition HybridTransportCapability :: string where "HybridTransportCapability = ''herdr-hybrid-v1''"

fun is_dir_node :: "fs_node \<Rightarrow> bool" where
  "is_dir_node (N_dir mode) = True"
| "is_dir_node _ = False"

fun build_walk :: "release_env \<Rightarrow> release_tree \<Rightarrow> (string \<times> fs_node) list \<Rightarrow> release_error + (string \<times> string) list" where
  "build_walk E t [] = Inr []"
| "build_walk E t ((name, node) # ns) =
     (if node = N_unreadable then Inl Err_walk
      else if node = N_symlink then Inl (Err_symlink name)
      else if is_dir_node node \<or> name = ManifestName then build_walk E t ns
      else if node = N_special then Inl (Err_not_regular name)
      else case hashRegularFile E t name of
             None \<Rightarrow> Inl (Err_hash_file name)
           | Some h \<Rightarrow> map_sum id (\<lambda>fs. (name, h) # fs) (build_walk E t ns))"

definition write_manifest_file :: "string \<Rightarrow> release_tree \<Rightarrow> release_tree" where
  "write_manifest_file data t = t\<lparr>rt_nodes := AList.update ManifestName (N_regular (Some data) 0x1A4) (rt_nodes t)\<rparr>"

text \<open>\<open>write_ok\<close> is the outcome of the temporary file, its write and the rename; without it the tree is as before.\<close>

definition writeManifest :: "release_env \<Rightarrow> bool \<Rightarrow> manifest \<Rightarrow> release_tree \<Rightarrow> release_tree \<times> release_error option" where
  "writeManifest E write_ok m t =
     (case re_encode E m of
        None \<Rightarrow> (t, Some Err_write)
      | Some data \<Rightarrow> if write_ok then (write_manifest_file (data @ [newline]) t, None) else (t, Some Err_write))"

definition Build ::
  "release_env \<Rightarrow> bool \<Rightarrow> release_tree \<Rightarrow> string \<Rightarrow> string \<Rightarrow> string \<Rightarrow> release_tree \<times> (release_error + manifest)" where
  "Build E write_ok t version revision target =
     (if trim_space version = [] \<or> trim_space revision = [] \<or> trim_space target = [] then (t, Inl Err_build_arguments)
      else case build_walk E t (rt_nodes t) of
        Inl err \<Rightarrow> (t, Inl err)
      | Inr files \<Rightarrow>
          (let transports = [EncryptedWebSocketSubprotocol, HybridTransportCapability];
               m = \<lparr>mf_schema = ManifestSchema, mf_version = version, mf_revision = revision, mf_target = target,
                    mf_web_hash = hashFileMap E files web_prefix, mf_app_transports = transports,
                    mf_relay_transports = transports, mf_files = files\<rparr>
           in case writeManifest E write_ok m t of
                (t', Some err) \<Rightarrow> (t', Inl err)
              | (t', None) \<Rightarrow> (t', Inr m)))"

section \<open>The hash of a web bundle\<close>

text \<open>\<open>WebHashFS\<close> on a file system given by its walk below the root.\<close>

fun web_walk :: "release_env \<Rightarrow> (string \<times> fs_node) list \<Rightarrow> release_error + (string \<times> string) list" where
  "web_walk E [] = Inr []"
| "web_walk E ((name, node) # ns) =
     (case node of
        N_unreadable \<Rightarrow> Inl Err_walk
      | N_dir mode \<Rightarrow> web_walk E ns
      | N_regular (Some c) mode \<Rightarrow> map_sum id (\<lambda>fs. (web_prefix @ path_clean name, re_sha E c) # fs) (web_walk E ns)
      | N_regular None mode \<Rightarrow> Inl (Err_hash_file name)
      | _ \<Rightarrow> Inl (Err_not_regular name))"

definition WebHashFS :: "release_env \<Rightarrow> (string \<times> fs_node) list \<Rightarrow> release_error + string" where
  "WebHashFS E nodes = map_sum id (\<lambda>files. hashFileMap E files web_prefix) (web_walk E nodes)"

section \<open>Upgrades\<close>

definition maxTransportCapabilities :: nat where "maxTransportCapabilities = 8"

definition TransportCapabilities :: "manifest \<Rightarrow> string list \<times> string list" where
  "TransportCapabilities m =
     ((if mf_app_transports m = [] then [EncryptedWebSocketSubprotocol] else mf_app_transports m),
      (if mf_relay_transports m = [] then [EncryptedWebSocketSubprotocol] else mf_relay_transports m))"

fun transport_loop :: "string \<Rightarrow> string list \<Rightarrow> string set \<Rightarrow> release_error option" where
  "transport_loop owner [] seen = None"
| "transport_loop owner (x # xs) seen =
     (if x = [] \<or> trim_space x \<noteq> x \<or> length x > 64 then Some (Err_transport owner x)
      else if x \<in> seen then Some (Err_duplicate owner x)
      else transport_loop owner xs (insert x seen))"

definition validateTransportCapabilities :: "string \<Rightarrow> string list \<Rightarrow> release_error option" where
  "validateTransportCapabilities owner transports =
     (if length transports > maxTransportCapabilities then Some (Err_too_many owner)
      else transport_loop owner transports {})"

fun transportsIntersect :: "string list \<Rightarrow> string list \<Rightarrow> bool" where
  "transportsIntersect [] right = False"
| "transportsIntersect (x # xs) right = (if list_ex (\<lambda>y. x = y) right then True else transportsIntersect xs right)"

definition ValidateUpgradeCompatibility :: "manifest \<Rightarrow> manifest \<Rightarrow> release_error option" where
  "ValidateUpgradeCompatibility current target =
     (if mf_app_transports target = [] \<or> mf_relay_transports target = [] then Some Err_no_compatibility
      else case validateTransportCapabilities ''target app'' (mf_app_transports target) of
        Some err \<Rightarrow> Some err
      | None \<Rightarrow>
          (case validateTransportCapabilities ''target relay'' (mf_relay_transports target) of
             Some err \<Rightarrow> Some err
           | None \<Rightarrow>
               (let (currentApp, currentRelay) = TransportCapabilities current
                in case validateTransportCapabilities ''current app'' currentApp of
                     Some err \<Rightarrow> Some err
                   | None \<Rightarrow>
                       (case validateTransportCapabilities ''current relay'' currentRelay of
                          Some err \<Rightarrow> Some err
                        | None \<Rightarrow>
                            if \<not> transportsIntersect (mf_app_transports target) currentRelay then Some Err_app_relay
                            else if \<not> transportsIntersect currentApp (mf_relay_transports target) then Some Err_relay_app
                            else None))))"

end
