(* ===== verification/Release_Props.thy ===== *)
theory Release_Props
  imports Release_Manifest
begin

text \<open>
  What a verified release guarantees: nothing outside the manifest and nothing changed, no name that leaves the bundle; a
  bundle that was built verifies, sealing keeps it verified, the web hash is the one the web server computes, and an
  upgrade keeps both rollout orders connected.
\<close>

section \<open>Canonical names\<close>

lemma split_char_not_Nil [simp]: "split_char c s \<noteq> []"
  by (cases s) (auto split: list.splits)

lemma split_char_no_sep: "x \<in> set (split_char c s) \<Longrightarrow> c \<notin> set x"
proof (induction s arbitrary: x)
  case Nil
  then show ?case by simp
next
  case (Cons a s)
  then show ?case by (cases "split_char c s") (auto split: if_splits)
qed

lemma split_char_id: "c \<notin> set x \<Longrightarrow> split_char c x = [x]"
  by (induction x) auto

lemma split_char_sep: "c \<notin> set x \<Longrightarrow> split_char c (x @ c # s) = x # split_char c s"
  by (induction x) (auto split: list.splits)

lemma split_join: "xs \<noteq> [] \<Longrightarrow> \<forall>x\<in>set xs. CHR ''/'' \<notin> set x \<Longrightarrow> split_char CHR ''/'' (join_with ''/'' xs) = xs"
proof (induction xs)
  case Nil
  then show ?case by simp
next
  case (Cons x xs)
  show ?case
  proof (cases "xs = []")
    case True
    with Cons.prems show ?thesis by (simp add: split_char_id)
  next
    case False
    with Cons show ?thesis by (simp add: join_with_Cons split_char_sep)
  qed
qed

text \<open>The components a relative path keeps: parents only at the front.\<close>

definition clean_stack :: "string list \<Rightarrow> bool" where
  "clean_stack st \<longleftrightarrow> (\<forall>x\<in>set st. x \<noteq> [] \<and> x \<noteq> ''.'' \<and> CHR ''/'' \<notin> set x)
     \<and> (\<exists>k rest. st = replicate k ''..'' @ rest \<and> ''..'' \<notin> set rest)"

lemma clean_stack_step:
  assumes "clean_stack st" "CHR ''/'' \<notin> set x"
  shows "clean_stack (clean_step False st x)"
proof -
  obtain k rest where st: "st = replicate k ''..'' @ rest" "''..'' \<notin> set rest"
    using assms(1) by (auto simp: clean_stack_def)
  consider "x = [] \<or> x = ''.''" | "x = ''..''" "rest = []" | "x = ''..''" "rest \<noteq> []" | "x \<noteq> []" "x \<noteq> ''.''" "x \<noteq> ''..''"
    by blast
  then show ?thesis
  proof cases
    case 1
    then show ?thesis using assms(1) by (auto simp: clean_step_def)
  next
    case 2
    then have "clean_step False st x = replicate (Suc k) ''..'' @ []"
      using st by (cases k) (auto simp: clean_step_def replicate_append_same [symmetric])
    with assms 2 st show ?thesis
      unfolding clean_stack_def by (metis (no_types, lifting) append_Nil2 emptyE in_set_replicate list.discI list.inject
        list.set(1) not_Cons_self2)
  next
    case 3
    then have "last st = last rest" "last rest \<noteq> ''..''"
      using st by (simp, metis last_in_set)
    then have "clean_step False st x = replicate k ''..'' @ butlast rest"
      using 3 st by (auto simp: clean_step_def butlast_append)
    then show ?thesis
      using assms(1) st by (auto simp: clean_stack_def dest: in_set_butlastD)
  next
    case 4
    then have "clean_step False st x = replicate k ''..'' @ (rest @ [x])"
      using st by (simp add: clean_step_def)
    moreover have "''..'' \<notin> set (rest @ [x])" "\<forall>y\<in>set (replicate k ''..'' @ (rest @ [x])). y \<noteq> [] \<and> y \<noteq> ''.'' \<and> CHR ''/'' \<notin> set y"
      using assms 4 st by (auto simp: clean_stack_def)
    ultimately show ?thesis
      unfolding clean_stack_def by metis
  qed
qed

lemma clean_stack_fold: "clean_stack st \<Longrightarrow> \<forall>x\<in>set xs. CHR ''/'' \<notin> set x \<Longrightarrow> clean_stack (foldl (clean_step False) st xs)"
  by (induction xs arbitrary: st) (auto intro: clean_stack_step)

lemma cleanRelative_canonical:
  assumes "cleanRelative n = Some n"
  shows "\<not> is_abs n \<and> n \<noteq> [] \<and> (\<forall>x\<in>set (split_char CHR ''/'' n). x \<noteq> [] \<and> x \<noteq> ''.'' \<and> x \<noteq> ''..'')"
proof -
  from assms have n: "n \<noteq> []" "\<not> is_abs n" "path_clean n = n" "n \<noteq> ''.''" "n \<noteq> ''..''" "\<not> has_prefix n ''../''"
    by (auto simp: cleanRelative_def Let_def split: if_splits)
  define st where "st = foldl (clean_step False) [] (split_char CHR ''/'' n)"
  have "clean_stack st"
    unfolding st_def by (rule clean_stack_fold) (auto simp: clean_stack_def dest: split_char_no_sep)
  then obtain k rest where st: "st = replicate k ''..'' @ rest" "''..'' \<notin> set rest"
    and parts: "\<forall>x\<in>set st. x \<noteq> [] \<and> x \<noteq> ''.'' \<and> CHR ''/'' \<notin> set x"
    by (auto simp: clean_stack_def)
  have join: "join_with ''/'' st = n" "st \<noteq> []"
    using n by (auto simp: path_clean_def st_def Let_def split: if_splits)
  have "k = 0"
  proof (rule ccontr)
    assume "k \<noteq> 0"
    then obtain st' where "st = ''..'' # st'"
      using st(1) by (cases k) auto
    with join(1) n(5,6) show False
      by (cases "st' = []") (auto simp: join_with_Cons has_prefix_def)
  qed
  with st parts have "\<forall>x\<in>set st. x \<noteq> [] \<and> x \<noteq> ''.'' \<and> x \<noteq> ''..''"
    by auto
  moreover have "split_char CHR ''/'' n = st"
    using split_join [of st] join parts by simp
  ultimately show ?thesis
    using n(1,2) by simp
qed

section \<open>Verification\<close>

lemma verify_files_None:
  "verify_files E t fs = None \<longleftrightarrow> (\<forall>(n, h) \<in> set fs. verify_file E t n h = None)"
  by (induction E t fs rule: verify_files.induct) (auto split: option.splits)

lemma verify_file_None:
  "verify_file E t n h = None \<longleftrightarrow> cleanRelative n = Some n \<and> validSHA256 h \<and> hashRegularFile E t n = Some h"
  by (auto simp: verify_file_def split: option.splits)

lemma walk_verify_None:
  "walk_verify listed ns = None \<longleftrightarrow> (\<forall>(n, node) \<in> set ns. walk_check listed n node = None)"
  by (induction listed ns rule: walk_verify.induct) (auto split: option.splits)

lemma walk_check_None:
  "walk_check listed n node = None \<longleftrightarrow>
     is_dir_node node \<or> node \<notin> {N_unreadable, N_symlink} \<and> (n = ManifestName \<or> node \<noteq> N_special \<and> n \<in> listed)"
  by (cases node) (auto simp: walk_check_def)

text \<open>Success through the early returns.\<close>

lemma early_option: "(case e of Some err \<Rightarrow> Inl err | None \<Rightarrow> x) = Inr m \<longleftrightarrow> e = None \<and> x = Inr m"
  by (cases e) auto

lemma early_sum: "(case r of Inl err \<Rightarrow> Inl err | Inr y \<Rightarrow> f y) = Inr m \<longleftrightarrow> (\<exists>y. r = Inr y \<and> f y = Inr m)"
  by (cases r) auto

lemma early_if: "(if b then Inl err else x) = Inr m \<longleftrightarrow> \<not> b \<and> x = Inr m"
  by simp

lemma early_missing:
  "(case filter (\<lambda>r. r \<notin> S) rs of r # rest \<Rightarrow> Inl (Err_missing r) | [] \<Rightarrow> x) = Inr m \<longleftrightarrow> set rs \<subseteq> S \<and> x = Inr m"
proof -
  have "filter (\<lambda>r. r \<notin> S) rs = [] \<longleftrightarrow> set rs \<subseteq> S"
    by (auto simp: filter_empty_conv)
  then show ?thesis
    by (auto split: list.splits)
qed

lemma early_last: "(if b then Inr x else Inl err) = Inr m \<longleftrightarrow> b \<and> x = m"
  by simp

lemmas early_returns = early_option early_sum early_if early_missing early_last

lemma Verify_Inr:
  "Verify E t target = Inr m \<longleftrightarrow>
     Load E t = Inr m \<and> (target = [] \<or> mf_target m = target)
     \<and> (\<forall>(n, h) \<in> set (mf_files m). cleanRelative n = Some n \<and> validSHA256 h \<and> hashRegularFile E t n = Some h)
     \<and> hashFileMap E (mf_files m) web_prefix \<noteq> [] \<and> mf_web_hash m = hashFileMap E (mf_files m) web_prefix
     \<and> (\<forall>(n, node) \<in> set (rt_nodes t). walk_check (fst ` set (mf_files m)) n node = None)
     \<and> set required_files \<subseteq> fst ` set (mf_files m) \<and> binary_executable t"
  by (simp only: Verify_def Let_def early_returns verify_files_None verify_file_None walk_verify_None) auto

lemma verified_content:
  assumes "Verify E t target = Inr m" "(n, N_regular c mode) \<in> set (rt_nodes t)" "n \<noteq> ManifestName"
  shows "\<exists>h. (n, h) \<in> set (mf_files m) \<and> hashRegularFile E t n = Some h"
proof -
  from assms have "n \<in> fst ` set (mf_files m)"
    by (auto simp: Verify_Inr walk_check_None)
  with assms(1) show ?thesis
    by (auto simp: Verify_Inr)
qed

section \<open>The web hash\<close>

lemma hashFileMap_cong:
  assumes "distinct (map fst fs)" "distinct (map fst gs)"
    and "{f \<in> set fs. has_prefix (fst f) p} = {g \<in> set gs. has_prefix (fst g) p}"
  shows "hashFileMap E fs p = hashFileMap E gs p"
proof -
  let ?K = "\<lambda>fs. filter (\<lambda>n. has_prefix n p) (map fst fs)"
  have keys: "set (?K fs) = fst ` {f \<in> set fs. has_prefix (fst f) p}" for fs :: "(string \<times> string) list"
    by auto
  have "distinct (?K fs)" "distinct (?K gs)"
    using assms(1,2) by simp_all
  then have sorted: "sort (?K fs) = sorted_list_of_set (set (?K fs))" "sort (?K gs) = sorted_list_of_set (set (?K gs))"
    by (metis distinct_remdups_id sorted_list_of_set_sort_remdups)+
  have same: "map_of fs n = map_of gs n" if "n \<in> set (?K fs)" for n
  proof -
    from that obtain h where "(n, h) \<in> {f \<in> set fs. has_prefix (fst f) p}"
      by auto
    then have "(n, h) \<in> set fs" "(n, h) \<in> set gs"
      using assms(3) by blast+
    then show ?thesis
      using assms(1,2) by simp
  qed
  have "sort (?K fs) = sort (?K gs)"
    by (simp only: sorted keys assms(3))
  moreover have "map (\<lambda>n. web_line (n, the (map_of fs n))) (sort (?K fs)) = map (\<lambda>n. web_line (n, the (map_of gs n))) (sort (?K fs))"
    using same by simp
  ultimately show ?thesis
    by (simp only: hashFileMap_def Let_def)
qed

section \<open>Building\<close>

text \<open>What the code relies on: a manifest survives its JSON, and a digest is 64 lower-case hexadecimal digits.\<close>

definition release_env_ok :: "release_env \<Rightarrow> bool" where
  "release_env_ok E \<longleftrightarrow>
     (\<forall>m d. re_encode E m = Some d \<longrightarrow> re_decode E (d @ [newline]) = Some m) \<and> (\<forall>c. validSHA256 (re_sha E c))"

definition file_node :: "string \<times> fs_node \<Rightarrow> bool" where
  "file_node x \<longleftrightarrow> \<not> is_dir_node (snd x) \<and> fst x \<noteq> ManifestName"

lemma build_walk_Inr:
  "build_walk E t ns = Inr fs \<Longrightarrow>
     fs = map (\<lambda>x. (fst x, the (hashRegularFile E t (fst x)))) (filter file_node ns)
     \<and> (\<forall>x\<in>set ns. snd x \<notin> {N_unreadable, N_symlink}
          \<and> (file_node x \<longrightarrow> snd x \<noteq> N_special \<and> hashRegularFile E t (fst x) \<noteq> None))"
proof (induction E t ns arbitrary: fs rule: build_walk.induct)
  case (1 E t)
  then show ?case by simp
next
  case (2 E t name node ns)
  then show ?case
    by (cases "build_walk E t ns") (auto simp: file_node_def split: if_splits option.splits)
qed

lemma read_after_write:
  "read_file (write_manifest_file d t) n = (if n = ManifestName then Some d else read_file t n)"
  by (auto simp: read_file_def write_manifest_file_def update_conv' split: option.splits fs_node.splits)

lemma nodes_after_write:
  "x \<in> set (rt_nodes (write_manifest_file d t)) \<Longrightarrow> x \<in> set (rt_nodes t) \<or> fst x = ManifestName \<and> \<not> is_dir_node (snd x)
     \<and> snd x \<notin> {N_unreadable, N_symlink}"
  using set_update_subset [of ManifestName "N_regular (Some d) 420" "rt_nodes t"] by (auto simp: write_manifest_file_def)

lemma trim_space_Nil [simp]: "trim_space [] = []"
  by (simp add: trim_space_graphic)

lemma hashFileMap_nonempty:
  "\<forall>c. re_sha E c \<noteq> [] \<Longrightarrow> n \<in> fst ` set fs \<Longrightarrow> has_prefix n p \<Longrightarrow> hashFileMap E fs p \<noteq> []"
proof -
  assume sha: "\<forall>c. re_sha E c \<noteq> []" and n: "n \<in> fst ` set fs" "has_prefix n p"
  then have "n \<in> set (sort (filter (\<lambda>n. has_prefix n p) (map fst fs)))"
    by auto
  then have "sort (filter (\<lambda>n. has_prefix n p) (map fst fs)) \<noteq> []"
    by force
  with sha show ?thesis
    by (simp add: hashFileMap_def Let_def)
qed

definition regular_in :: "release_tree \<Rightarrow> string \<Rightarrow> bool" where
  "regular_in t r = (case map_of (rt_nodes t) r of Some (N_regular c mode) \<Rightarrow> True | _ \<Rightarrow> False)"

lemma regular_inE:
  assumes "regular_in t r"
  obtains c mode where "(r, N_regular c mode) \<in> set (rt_nodes t)"
  using assms by (auto simp: regular_in_def split: option.splits fs_node.splits dest: map_of_SomeD)

definition bundle_ok :: "release_tree \<Rightarrow> bool" where
  "bundle_ok t \<longleftrightarrow>
     (\<forall>x\<in>set (rt_nodes t). cleanRelative (fst x) = Some (fst x))
     \<and> (\<forall>r\<in>set required_files. regular_in t r)
     \<and> binary_executable t"

lemma required_not_manifest: "r \<in> set required_files \<Longrightarrow> r \<noteq> ManifestName"
  by (auto simp: required_files_def ManifestName_def)

lemma Build_Inr:
  assumes "Build E ok t version revision target = (t', Inr m)"
  shows "\<exists>data. build_walk E t (rt_nodes t) = Inr (mf_files m) \<and> re_encode E m = Some data
    \<and> t' = write_manifest_file (data @ [newline]) t \<and> mf_schema m = ManifestSchema
    \<and> trim_space (mf_version m) \<noteq> [] \<and> trim_space (mf_revision m) \<noteq> [] \<and> mf_target m = target \<and> target \<noteq> []
    \<and> mf_web_hash m = hashFileMap E (mf_files m) web_prefix"
  using assms
  by (auto simp: Build_def Let_def writeManifest_def split: if_splits sum.splits option.splits prod.splits)

lemma build_verifies:
  assumes env: "release_env_ok E" and t: "bundle_ok t" and build: "Build E ok t version revision target = (t', Inr m)"
    and x: "x = [] \<or> x = target"
  shows "Verify E t' x = Inr m"
proof -
  from Build_Inr [OF build] obtain data where walk: "build_walk E t (rt_nodes t) = Inr (mf_files m)"
    and data: "re_encode E m = Some data" and t': "t' = write_manifest_file (data @ [newline]) t"
    and m: "mf_schema m = ManifestSchema" "trim_space (mf_version m) \<noteq> []" "trim_space (mf_revision m) \<noteq> []"
      "mf_target m = target" "target \<noteq> []" "mf_web_hash m = hashFileMap E (mf_files m) web_prefix"
    by blast
  note w = build_walk_Inr [OF walk]
  then have files: "mf_files m = map (\<lambda>x. (fst x, the (hashRegularFile E t (fst x)))) (filter file_node (rt_nodes t))"
    by blast
  have listed: "fst ` set (mf_files m) = fst ` {y \<in> set (rt_nodes t). file_node y}"
    unfolding files by force
  have req: "set required_files \<subseteq> fst ` set (mf_files m)"
  proof
    fix r
    assume r: "r \<in> set required_files"
    with t obtain c mode where "(r, N_regular c mode) \<in> set (rt_nodes t)"
      unfolding bundle_ok_def by (meson regular_inE)
    with required_not_manifest [OF r] show "r \<in> fst ` set (mf_files m)"
      unfolding listed by (force simp: file_node_def)
  qed
  then have "mf_files m \<noteq> []"
    by (auto simp: required_files_def)
  moreover have "re_decode E (data @ [newline]) = Some m"
    using env data by (simp add: release_env_ok_def)
  ultimately have load: "Load E t' = Inr m"
    using m by (simp add: Load_def t' read_after_write)
  have "cleanRelative n = Some n \<and> validSHA256 h \<and> hashRegularFile E t' n = Some h" if "(n, h) \<in> set (mf_files m)" for n h
  proof -
    from that files obtain y where y: "y \<in> set (rt_nodes t)" "file_node y" "n = fst y" "h = the (hashRegularFile E t n)"
      by auto
    with w have "hashRegularFile E t n = Some h"
      by auto
    moreover from this env have "validSHA256 h"
      by (auto simp: hashRegularFile_def release_env_ok_def)
    ultimately show ?thesis
      using y t by (auto simp: bundle_ok_def file_node_def hashRegularFile_def t' read_after_write)
  qed
  moreover have "walk_check (fst ` set (mf_files m)) (fst y) (snd y) = None" if y: "y \<in> set (rt_nodes t')" for y
    using nodes_after_write [OF y [unfolded t']]
  proof
    assume "y \<in> set (rt_nodes t)"
    moreover from this w have "snd y \<notin> {N_unreadable, N_symlink}" "file_node y \<longrightarrow> snd y \<noteq> N_special"
      by auto
    ultimately show ?thesis
      unfolding walk_check_None listed by (auto simp: file_node_def)
  qed (auto simp: walk_check_None)
  moreover have "hashFileMap E (mf_files m) web_prefix \<noteq> []"
  proof (rule hashFileMap_nonempty)
    show "\<forall>c. re_sha E c \<noteq> []"
      using env unfolding release_env_ok_def validSHA256_def by (metis list.size(3) zero_neq_numeral)
    show "''web/index.html'' \<in> fst ` set (mf_files m)"
      using req by (auto simp: required_files_def)
  qed (simp add: has_prefix_def web_prefix_def)
  moreover have "binary_executable t'"
    using t by (simp add: bundle_ok_def binary_executable_def t' write_manifest_file_def update_conv' relay_binary_def ManifestName_def)
  ultimately show ?thesis
    using load m x req by (auto simp: Verify_Inr)
qed

section \<open>Sealing\<close>

lemma seal_walk_ok:
  "seal_walk chmod_ok ns = (ns', None) \<Longrightarrow> ns' = map (\<lambda>(n, node). (n, seal_node node)) ns"
  by (induction chmod_ok ns arbitrary: ns' rule: seal_walk.induct) (auto simp: Let_def split: if_splits prod.splits)

lemma map_of_sealed: "map_of (map (\<lambda>(n, node). (n, f node)) ns) k = map_option f (map_of ns k)"
  by (induction ns) auto

lemma seal_mode_exec: "and (seal_mode mode) exec_bits = and mode exec_bits"
proof -
  have "and (not 0x92) (0x49 :: perms) = 0x49"
    by simp
  then show ?thesis
    unfolding seal_mode_def write_bits_def exec_bits_def and.assoc by simp
qed

lemma seal_mode_write: "and (seal_mode mode) write_bits = 0"
  by (simp add: seal_mode_def and.assoc)

lemma seal_node_kind:
  "walk_check listed n (seal_node node) = walk_check listed n node"
  by (cases node) (simp_all add: walk_check_def)

lemma sealed_read:
  assumes "rt_nodes t' = map (\<lambda>(n, node). (n, seal_node node)) (rt_nodes t)" "rt_outside t' = rt_outside t"
  shows "read_file t' n = read_file t n" "binary_executable t' = binary_executable t"
proof -
  show "read_file t' n = read_file t n"
    by (cases "map_of (rt_nodes t) n"; cases "the (map_of (rt_nodes t) n)")
      (auto simp: read_file_def assms map_of_sealed)
  show "binary_executable t' = binary_executable t"
    by (cases "map_of (rt_nodes t) relay_binary"; cases "the (map_of (rt_nodes t) relay_binary)")
      (auto simp: binary_executable_def assms map_of_sealed seal_mode_exec)
qed

lemma Seal_ok:
  assumes "Seal E chmod_ok t = (t', None)"
  shows "\<exists>m. Verify E t [] = Inr m \<and> rt_mode t' = seal_mode (rt_mode t) \<and> rt_outside t' = rt_outside t
    \<and> rt_nodes t' = map (\<lambda>(n, node). (n, seal_node node)) (rt_nodes t)"
  using assms seal_walk_ok
  by (auto simp: Seal_def Let_def split: sum.splits if_splits prod.splits)

lemma sealed_verifies:
  assumes "Seal E chmod_ok t = (t', None)"
  shows "Verify E t' x = Inr m \<longleftrightarrow> Verify E t x = Inr m"
proof -
  from Seal_ok [OF assms] have nodes: "rt_nodes t' = map (\<lambda>(n, node). (n, seal_node node)) (rt_nodes t)"
    and out: "rt_outside t' = rt_outside t"
    by blast+
  note r = sealed_read [OF nodes out]
  have "Load E t' = Load E t" "hashRegularFile E t' = hashRegularFile E t"
    by (simp_all add: Load_def hashRegularFile_def fun_eq_iff r)
  then show ?thesis
    by (auto simp: Verify_Inr r nodes seal_node_kind)
qed

section \<open>The web server's hash\<close>

text \<open>The part of the walk below \<open>web/\<close>, as a file system of its own.\<close>

definition web_nodes :: "release_tree \<Rightarrow> (string \<times> fs_node) list" where
  "web_nodes t = map (\<lambda>(n, node). (drop (length web_prefix) n, node)) (filter (\<lambda>x. has_prefix (fst x) web_prefix) (rt_nodes t))"

lemma web_walk_Inr:
  "\<forall>x\<in>set ns. is_dir_node (snd x) \<or> (\<exists>c mode. snd x = N_regular (Some c) mode) \<Longrightarrow>
     \<exists>fs. web_walk E ns = Inr fs \<and> map fst fs = map (\<lambda>x. web_prefix @ path_clean (fst x)) (filter (\<lambda>x. \<not> is_dir_node (snd x)) ns)
       \<and> set fs = {(web_prefix @ path_clean n, re_sha E c) | n c mode. (n, N_regular (Some c) mode) \<in> set ns}"
proof (induction ns)
  case Nil
  then show ?case by simp
next
  case (Cons x ns)
  then obtain fs where fs: "web_walk E ns = Inr fs"
    "map fst fs = map (\<lambda>x. web_prefix @ path_clean (fst x)) (filter (\<lambda>x. \<not> is_dir_node (snd x)) ns)"
    "set fs = {(web_prefix @ path_clean n, re_sha E c) | n c mode. (n, N_regular (Some c) mode) \<in> set ns}"
    by auto
  obtain n node where x: "x = (n, node)"
    by fastforce
  show ?case
  proof (cases "is_dir_node node")
    case True
    then obtain mode where "node = N_dir mode"
      by (cases node) auto
    with fs x show ?thesis by auto
  next
    case False
    with Cons.prems x obtain c mode where "node = N_regular (Some c) mode"
      by auto
    with fs x show ?thesis by auto
  qed
qed

text \<open>A walk names every entry once, below \<open>web/\<close> canonically, and without symbolic links it sees every path.\<close>

definition walk_ok :: "release_tree \<Rightarrow> bool" where
  "walk_ok t \<longleftrightarrow>
     distinct (map fst (rt_nodes t))
     \<and> (\<forall>x\<in>set (web_nodes t). path_clean (fst x) = fst x)
     \<and> ((\<forall>x\<in>set (rt_nodes t). snd x \<noteq> N_symlink) \<longrightarrow> rt_outside t = (\<lambda>n. None))"

lemma prefix_drop: "has_prefix n p \<Longrightarrow> p @ drop (length p) n = n"
  by (metis append_take_drop_id has_prefix_def)

lemma in_web_nodes: "(k, node) \<in> set (web_nodes t) \<longleftrightarrow> (web_prefix @ k, node) \<in> set (rt_nodes t)"
proof
  assume "(k, node) \<in> set (web_nodes t)"
  then show "(web_prefix @ k, node) \<in> set (rt_nodes t)"
    by (auto simp: web_nodes_def prefix_drop)
next
  assume "(web_prefix @ k, node) \<in> set (rt_nodes t)"
  then show "(k, node) \<in> set (web_nodes t)"
    by (force simp: web_nodes_def has_prefix_def)
qed

lemma manifest_not_web: "\<not> has_prefix ManifestName web_prefix"
  by (simp add: has_prefix_def ManifestName_def web_prefix_def)

lemma web_prefix_not_manifest: "web_prefix @ k \<noteq> ManifestName"
  by (metis append_eq_conv_conj has_prefix_def manifest_not_web)

lemma verified_regular:
  assumes "Verify E t x = Inr m" "walk_ok t" "(n, N_regular c mode) \<in> set (rt_nodes t)" "n \<noteq> ManifestName"
  shows "\<exists>b. c = Some b \<and> (n, re_sha E b) \<in> set (mf_files m)"
proof -
  from verified_content [OF assms(1,3,4)] obtain h where "(n, h) \<in> set (mf_files m)" "hashRegularFile E t n = Some h"
    by blast
  moreover have "map_of (rt_nodes t) n = Some (N_regular c mode)"
    using assms(2,3) by (simp add: walk_ok_def)
  ultimately show ?thesis
    by (auto simp: hashRegularFile_def read_file_def)
qed

lemma listed_regular:
  assumes "Verify E t x = Inr m" "walk_ok t" "(n, h) \<in> set (mf_files m)"
  shows "\<exists>b mode. h = re_sha E b \<and> (n, N_regular (Some b) mode) \<in> set (rt_nodes t)"
proof -
  have "\<forall>y\<in>set (rt_nodes t). snd y \<noteq> N_symlink"
    using assms(1) by (auto simp: Verify_Inr walk_check_None)
  with assms(2) have "rt_outside t n = None"
    by (simp add: walk_ok_def)
  moreover have "hashRegularFile E t n = Some h"
    using assms(1,3) by (auto simp: Verify_Inr)
  ultimately obtain b mode where "h = re_sha E b" "map_of (rt_nodes t) n = Some (N_regular (Some b) mode)"
    by (auto simp: hashRegularFile_def read_file_def split: option.splits fs_node.splits)
  then show ?thesis
    by (auto dest: map_of_SomeD)
qed

lemma web_nodes_verified:
  assumes "Verify E t x = Inr m" "walk_ok t" "y \<in> set (web_nodes t)"
  shows "is_dir_node (snd y) \<or> (\<exists>c mode. snd y = N_regular (Some c) mode)"
proof -
  obtain k node where k: "y = (k, node)"
    by fastforce
  with assms(3) have y: "y = (k, node)" "(web_prefix @ k, node) \<in> set (rt_nodes t)"
    by (simp_all add: in_web_nodes)
  then have "walk_check (fst ` set (mf_files m)) (web_prefix @ k) node = None"
    using assms(1) by (auto simp: Verify_Inr)
  moreover have "\<exists>b. c = Some b" if "node = N_regular c mode" for c mode
    using verified_regular [OF assms(1,2) _ web_prefix_not_manifest, of k c mode] y that by blast
  ultimately show ?thesis
    using y web_prefix_not_manifest by (cases node) (auto simp: walk_check_None)
qed

lemma web_hash_agrees:
  assumes v: "Verify E t x = Inr m" and t: "walk_ok t" and d: "distinct (map fst (mf_files m))"
  shows "WebHashFS E (web_nodes t) = Inr (mf_web_hash m)"
proof -
  obtain fs where fs: "web_walk E (web_nodes t) = Inr fs"
    "map fst fs = map (\<lambda>x. web_prefix @ path_clean (fst x)) (filter (\<lambda>x. \<not> is_dir_node (snd x)) (web_nodes t))"
    "set fs = {(web_prefix @ path_clean n, re_sha E c) | n c mode. (n, N_regular (Some c) mode) \<in> set (web_nodes t)}"
    using web_walk_Inr [of "web_nodes t" E] web_nodes_verified [OF v t] by blast
  have clean: "path_clean (fst y) = fst y" if "y \<in> set (web_nodes t)" for y
    using t that by (simp add: walk_ok_def)
  have names: "map (\<lambda>y. web_prefix @ fst y) (web_nodes t) = map fst (filter (\<lambda>x. has_prefix (fst x) web_prefix) (rt_nodes t))"
    by (auto simp: web_nodes_def prefix_drop)
  have "distinct (map (\<lambda>y. web_prefix @ fst y) (web_nodes t))"
    unfolding names using t by (simp add: walk_ok_def distinct_map_filter)
  then have "distinct (map (\<lambda>y. web_prefix @ fst y) (filter (\<lambda>x. \<not> is_dir_node (snd x)) (web_nodes t)))"
    by (rule distinct_map_filter)
  moreover have "map fst fs = map (\<lambda>y. web_prefix @ fst y) (filter (\<lambda>x. \<not> is_dir_node (snd x)) (web_nodes t))"
    using fs(2) clean by simp
  ultimately have "distinct (map fst fs)"
    by simp
  moreover have "{f \<in> set fs. has_prefix (fst f) web_prefix} = {f \<in> set (mf_files m). has_prefix (fst f) web_prefix}" (is "?L = ?R")
  proof (intro equalityI subsetI)
    fix f
    assume "f \<in> ?L"
    then obtain k c mode where f: "f = (web_prefix @ k, re_sha E c)" "(k, N_regular (Some c) mode) \<in> set (web_nodes t)"
      using fs(3) clean by force
    then show "f \<in> ?R"
      using verified_regular [OF v t _ web_prefix_not_manifest] by (auto simp: in_web_nodes has_prefix_def)
  next
    fix f
    assume f: "f \<in> ?R"
    then obtain k h where k: "f = (web_prefix @ k, h)"
      by (cases f) (auto dest: prefix_drop [symmetric])
    with f listed_regular [OF v t, of "web_prefix @ k" h] obtain b mode
      where "h = re_sha E b" "(k, N_regular (Some b) mode) \<in> set (web_nodes t)"
      by (auto simp: in_web_nodes)
    with k show "f \<in> ?L"
      using clean [of "(k, N_regular (Some b) mode)"] fs(3) by (auto simp: has_prefix_def) metis
  qed
  ultimately have "hashFileMap E fs web_prefix = hashFileMap E (mf_files m) web_prefix"
    using d by (intro hashFileMap_cong)
  with v fs(1) show ?thesis
    by (simp add: WebHashFS_def Verify_Inr)
qed

section \<open>Upgrades\<close>

definition transports_ok :: "string list \<Rightarrow> bool" where
  "transports_ok ts \<longleftrightarrow> length ts \<le> 8 \<and> distinct ts \<and> (\<forall>x\<in>set ts. x \<noteq> [] \<and> trim_space x = x \<and> length x \<le> 64)"

lemma transport_loop_None:
  "transport_loop owner ts seen = None \<longleftrightarrow>
     distinct ts \<and> set ts \<inter> seen = {} \<and> (\<forall>x\<in>set ts. x \<noteq> [] \<and> trim_space x = x \<and> length x \<le> 64)"
  by (induction owner ts seen rule: transport_loop.induct) auto

lemma no_error:
  "(case e of Some err \<Rightarrow> Some err | None \<Rightarrow> x) = None \<longleftrightarrow> e = None \<and> x = None"
  "(if b then Some err else x) = None \<longleftrightarrow> \<not> b \<and> x = None"
  by (auto split: option.splits)

lemma validate_None: "validateTransportCapabilities owner ts = None \<longleftrightarrow> transports_ok ts"
  by (auto simp: validateTransportCapabilities_def transports_ok_def transport_loop_None maxTransportCapabilities_def)

lemma intersect_iff: "transportsIntersect xs ys \<longleftrightarrow> set xs \<inter> set ys \<noteq> {}"
  by (induction xs) (auto simp: list_ex_iff)

section \<open>A sample bundle\<close>

definition sample_digest :: string where "sample_digest = replicate 64 CHR ''0''"

definition sample_files :: "(string \<times> string) list" where
  "sample_files = map (\<lambda>r. (r, sample_digest)) required_files"

definition sample_manifest :: manifest where
  "sample_manifest =
     \<lparr>mf_schema = ManifestSchema, mf_version = ''1'', mf_revision = ''2'', mf_target = ''3'',
      mf_web_hash = sample_digest, mf_app_transports = [EncryptedWebSocketSubprotocol, HybridTransportCapability],
      mf_relay_transports = [EncryptedWebSocketSubprotocol, HybridTransportCapability], mf_files = sample_files\<rparr>"

definition sample_release_env :: release_env where
  "sample_release_env =
     \<lparr>re_decode = (\<lambda>d. if d = ''{}'' @ [newline] then Some sample_manifest else None),
      re_encode = (\<lambda>m. if m = sample_manifest then Some ''{}'' else None), re_sha = (\<lambda>c. sample_digest)\<rparr>"

definition sample_tree :: release_tree where
  "sample_tree =
     \<lparr>rt_mode = 0x1ED,
      rt_nodes = map (\<lambda>r. (r, N_regular (Some r) 0x1ED)) required_files @ [(''relay'', N_dir 0x1ED), (''web'', N_dir 0x1ED)],
      rt_outside = (\<lambda>n. None)\<rparr>"

definition built_tree :: release_tree where
  "built_tree = write_manifest_file (''{}'' @ [newline]) sample_tree"

lemma sample_env_ok: "release_env_ok sample_release_env"
proof -
  have "validSHA256 sample_digest" by code_simp
  then show ?thesis by (simp add: release_env_ok_def sample_release_env_def)
qed

lemma sample_bundle_ok: "bundle_ok sample_tree"
proof -
  have "list_all (\<lambda>x. cleanRelative (fst x) = Some (fst x)) (rt_nodes sample_tree)" by code_simp
  moreover have "list_all (regular_in sample_tree) required_files" by code_simp
  moreover have "binary_executable sample_tree" by code_simp
  ultimately show ?thesis
    by (simp add: bundle_ok_def list_all_iff)
qed

lemma sample_build: "Build sample_release_env True sample_tree ''1'' ''2'' ''3'' = (built_tree, Inr sample_manifest)"
proof -
  have "list_all graphic ''1''" "list_all graphic ''2''" "list_all graphic ''3''"
    by code_simp+
  then have "trim_space ''1'' = ''1''" "trim_space ''2'' = ''2''" "trim_space ''3'' = ''3''"
    by (simp_all only: trim_space_graphic)
  moreover have "build_walk sample_release_env sample_tree (rt_nodes sample_tree) = Inr sample_files"
    by code_simp
  moreover have "hashFileMap sample_release_env sample_files web_prefix = sample_digest"
    by code_simp
  ultimately show ?thesis
    by (simp add: Build_def Let_def writeManifest_def built_tree_def) (simp add: sample_release_env_def sample_manifest_def)
qed

lemma sample_walk_ok: "walk_ok built_tree"
proof -
  have "distinct (map fst (rt_nodes built_tree))" by code_simp
  moreover have "list_all (\<lambda>x. path_clean (fst x) = fst x) (web_nodes built_tree)" by code_simp
  ultimately show ?thesis
    by (simp add: walk_ok_def list_all_iff built_tree_def write_manifest_file_def sample_tree_def)
qed

lemma sample_transports: "transports_ok [EncryptedWebSocketSubprotocol, HybridTransportCapability]"
proof -
  have "list_all graphic EncryptedWebSocketSubprotocol" "list_all graphic HybridTransportCapability"
    by code_simp+
  then show ?thesis
    by (auto simp: transports_ok_def trim_space_graphic EncryptedWebSocketSubprotocol_def HybridTransportCapability_def)
qed

lemma sample_seal: "\<exists>t''. Seal sample_release_env (\<lambda>n. True) built_tree = (t'', None)"
proof -
  have "Verify sample_release_env built_tree [] = Inr sample_manifest"
    using build_verifies [OF sample_env_ok sample_bundle_ok sample_build] by simp
  moreover have "snd (seal_walk (\<lambda>n. True) (rt_nodes built_tree)) = None"
    by code_simp
  ultimately show ?thesis
    by (simp add: Seal_def Let_def case_prod_beta)
qed

lemma sample_verified: "Verify sample_release_env built_tree ''3'' = Inr sample_manifest"
  using build_verifies [OF sample_env_ok sample_bundle_ok sample_build] by simp

lemma sample_distinct: "distinct (map fst (mf_files sample_manifest))"
  by code_simp

section \<open>Properties\<close>

text \<open>C30. A bundle that \<open>Verify\<close> accepts holds nothing but directories, regular files whose content has the digest the
  manifest lists for them, and the manifest itself; every name of the manifest is a relative path without parent, current
  or empty components, so none leaves the bundle; and the files the relay needs are among them.\<close>

theorem verified_release_exact:
  assumes "Verify E t target = Inr m"
  shows "(\<forall>(n, node) \<in> set (rt_nodes t). is_dir_node node \<or> n = ManifestName
       \<or> (\<exists>c mode h. node = N_regular c mode \<and> (n, h) \<in> set (mf_files m) \<and> hashRegularFile E t n = Some h))
    \<and> (\<forall>(n, h) \<in> set (mf_files m). hashRegularFile E t n = Some h \<and> \<not> is_abs n
         \<and> (\<forall>part \<in> set (split_char CHR ''/'' n). part \<notin> {[], ''.'', ''..''}))
    \<and> set required_files \<subseteq> fst ` set (mf_files m) \<and> mf_web_hash m = hashFileMap E (mf_files m) web_prefix"
proof -
  have "is_dir_node node \<or> n = ManifestName
      \<or> (\<exists>c mode h. node = N_regular c mode \<and> (n, h) \<in> set (mf_files m) \<and> hashRegularFile E t n = Some h)"
    if "(n, node) \<in> set (rt_nodes t)" for n node
    using assms that verified_content [OF assms, of n]
    by (cases node) (fastforce simp: Verify_Inr walk_check_None)+
  moreover have "hashRegularFile E t n = Some h \<and> \<not> is_abs n \<and> (\<forall>part \<in> set (split_char CHR ''/'' n). part \<notin> {[], ''.'', ''..''})"
    if "(n, h) \<in> set (mf_files m)" for n h
    using assms that cleanRelative_canonical [of n] by (auto simp: Verify_Inr)
  moreover have "set required_files \<subseteq> fst ` set (mf_files m)" "mf_web_hash m = hashFileMap E (mf_files m) web_prefix"
    using assms by (simp_all add: Verify_Inr)
  ultimately show ?thesis by fast
qed

theorem verified_release_exact_witness:
  "set required_files \<subseteq> fst ` set (mf_files sample_manifest)
    \<and> mf_web_hash sample_manifest = hashFileMap sample_release_env (mf_files sample_manifest) web_prefix"
  using verified_release_exact [OF sample_verified] by blast



text \<open>The hash that the web server computes over the \<open>web\<close> directory of a verified release is the \<open>web_hash\<close> of its
  manifest.\<close>

theorem served_web_hash:
  assumes "Verify E t target = Inr m" "walk_ok t" "distinct (map fst (mf_files m))"
  shows "WebHashFS E (web_nodes t) = Inr (mf_web_hash m)"
  using assms by (rule web_hash_agrees)

theorem served_web_hash_witness:
  "WebHashFS sample_release_env (web_nodes built_tree) = Inr (mf_web_hash sample_manifest)"
  by (rule served_web_hash [OF sample_verified sample_walk_ok sample_distinct])

text \<open>An upgrade is accepted exactly when the target declares transports for both sides, all four lists are well formed,
  and each app shares a transport with the relay it meets while only one side has been replaced (a release without the
  declaration speaks the first encrypted protocol only).\<close>

theorem upgrade_stays_connected:
  "ValidateUpgradeCompatibility current target = None \<longleftrightarrow>
     (let (app, relay) = TransportCapabilities current
      in mf_app_transports target \<noteq> [] \<and> mf_relay_transports target \<noteq> []
         \<and> (\<forall>ts \<in> {mf_app_transports target, mf_relay_transports target, app, relay}. transports_ok ts)
         \<and> set (mf_app_transports target) \<inter> set relay \<noteq> {} \<and> set app \<inter> set (mf_relay_transports target) \<noteq> {})"
  by (simp only: ValidateUpgradeCompatibility_def Let_def case_prod_beta no_error validate_None intersect_iff) auto

theorem upgrade_stays_connected_witness: "ValidateUpgradeCompatibility sample_manifest sample_manifest = None"
  using upgrade_stays_connected [of sample_manifest sample_manifest] sample_transports
  by (simp add: TransportCapabilities_def sample_manifest_def Let_def)

end
