(* ===== verification/Probe.thy ===== *)
theory Probe
  imports Base64url Rate_Limiter Portmap_Props
begin

text \<open>
  The reachability test on both sides: the probe endpoint of the gateway (\<open>src/internal/gateway/probe.go\<close>, \<open>clientIP\<close> and
  \<open>handleWhoami\<close> of \<open>server.go\<close>) and the relay's self-test that asks for it (\<open>src/internal/reachability/reachability.go\<close>).

  JSON bodies are arguments (\<open>reach_json\<close>). The relay's world extends that of the port mapping by its probe socket; its
  contexts and their timeouts are part of the world.
\<close>

section \<open>The gateway's endpoint\<close>

definition probeTokenBytes :: nat where "probeTokenBytes = 32"

text \<open>\<open>net.SplitHostPort\<close>, the host only.\<close>

definition split_host :: "string \<Rightarrow> string option" where
  "split_host s =
     (let tail = takeWhile (\<lambda>c. c \<noteq> CHR '':'') (rev s); i = length s - length tail - 1
      in if CHR '':'' \<notin> set s then None
         else if hd s = CHR ''[''
         then (let e = length (takeWhile (\<lambda>c. c \<noteq> CHR '']'') s)
               in if e = length s \<or> e + 1 \<noteq> i then None
                  else if CHR ''['' \<in> set (drop 1 s) \<or> CHR '']'' \<in> set (drop (e + 1) s) then None
                  else Some (take (e - 1) (drop 1 s)))
         else if CHR '':'' \<in> set (take i s) \<or> CHR ''['' \<in> set s \<or> CHR '']'' \<in> set s then None
         else Some (take i s))"

record probe_source =
  ps_remote :: string
  ps_forwarded :: string

definition clientIP :: "bool \<Rightarrow> probe_source \<Rightarrow> string" where
  "clientIP trustProxyHeaders r =
     (let first = (let t = trim_space (ps_forwarded r)
                   in case cut_char CHR '','' t of None \<Rightarrow> t | Some (a, b) \<Rightarrow> trim_space a);
          direct = (case split_host (ps_remote r) of None \<Rightarrow> ps_remote r | Some h \<Rightarrow> h)
      in if trustProxyHeaders \<and> ps_forwarded r \<noteq> [] \<and> first \<noteq> [] then first else direct)"

datatype probe_reply = Probe_error int string | Probe_sent string

record probe_io =
  pi_dial :: bool
  pi_deadline :: bool
  pi_write :: bool

text \<open>One request: the limiter afterwards, the answer, and the datagram sent, with its destination. The body is the decoded
  port and token, or \<open>None\<close> when it is too long or no JSON.\<close>

definition handleProbe ::
  "(string \<Rightarrow> addr option) \<Rightarrow> bool \<Rightarrow> rate_limiter \<Rightarrow> time \<Rightarrow> probe_io \<Rightarrow> probe_source \<Rightarrow> (int \<times> string) option
   \<Rightarrow> rate_limiter \<times> probe_reply \<times> (addr \<times> 16 word \<times> bytes) option" where
  "handleProbe parse_addr trust l now io r body =
     (case body of
        None \<Rightarrow> (l, Probe_error 400 ''invalid_body'', None)
      | Some (port, token) \<Rightarrow>
          if port < 1024 \<or> port > 65535 then (l, Probe_error 400 ''invalid_port'', None)
          else (case b64_decode token of
                  None \<Rightarrow> (l, Probe_error 400 ''invalid_token'', None)
                | Some t \<Rightarrow>
                    if length t \<noteq> probeTokenBytes then (l, Probe_error 400 ''invalid_token'', None)
                    else (let observed = clientIP trust r
                          in case parse_addr observed of
                               None \<Rightarrow> (l, Probe_error 400 ''unknown_source_address'', None)
                             | Some a \<Rightarrow>
                                 (case allow l (''probe:'' @ observed) now of
                                    (l', False) \<Rightarrow> (l', Probe_error 429 ''rate_limited'', None)
                                  | (l', True) \<Rightarrow>
                                      if \<not> pi_dial io \<or> \<not> pi_deadline io \<or> \<not> pi_write io
                                      then (l', Probe_error 502 ''probe_failed'', None)
                                      else (l', Probe_sent observed, Some (Unmap a, word_of_int port, t))))))"

definition handleWhoami :: "bool \<Rightarrow> probe_source \<Rightarrow> string" where
  "handleWhoami trust r = clientIP trust r"

section \<open>The relay's prober\<close>

definition tokenBytes :: nat where "tokenBytes = 32"
definition maxDatagram :: nat where "maxDatagram = 1500"
definition maxResponseBytes :: nat where "maxResponseBytes = 4 * 1024"
definition minProbePort :: "16 word" where "minProbePort = 1024"
definition probeLifetime :: duration where "probeLifetime = 120 * second"
definition defaultTimeout :: duration where "defaultTimeout = 15 * second"
definition maxMapWait :: duration where "maxMapWait = 8 * second"
definition MethodDirect :: string where "MethodDirect = ''direct''"

datatype reach_error =
    Err_base string | Err_bind | Err_no_address | Err_token | Err_low_port "16 word" | Err_encode | Err_request
  | Err_transport | Err_body | Err_status int | Err_decode | Err_declined | Err_socket | Err_bad_ip string

record reach_json =
  rj_probe_request :: "16 word \<Rightarrow> string \<Rightarrow> string option"
  rj_probe_response :: "bytes \<Rightarrow> (bool \<times> string) option"
  rj_whoami :: "bytes \<Rightarrow> string option"

text \<open>\<open>strings.Cut\<close> at a substring.\<close>

fun cut_string :: "string \<Rightarrow> string \<Rightarrow> (string \<times> string) option" where
  "cut_string sep [] = (if sep = [] then Some ([], []) else None)"
| "cut_string sep (c # cs) =
     (if has_prefix (c # cs) sep then Some ([], drop (length sep) (c # cs))
      else case cut_string sep cs of None \<Rightarrow> None | Some (a, b) \<Rightarrow> Some (c # a, b))"

definition ascii_lower :: "char \<Rightarrow> char" where
  "ascii_lower c = (if 65 \<le> byte_val c \<and> byte_val c \<le> 90 then char_of (byte_val c + 32) else c)"

text \<open>No other letter has one of the letters of the four schemes as its lower case.\<close>

definition httpBase :: "string \<Rightarrow> reach_error + string" where
  "httpBase gatewayURL =
     (let trimmed = trim_right ''/'' (trim_space gatewayURL)
      in if trimmed = [] then Inl (Err_base ''empty'')
         else case cut_string ''://'' trimmed of
                None \<Rightarrow> Inl (Err_base ''no scheme'')
              | Some (scheme, rest) \<Rightarrow>
                  (let s = map ascii_lower scheme;
                       http = (if s = ''wss'' \<or> s = ''https'' then Some ''https''
                               else if s = ''ws'' \<or> s = ''http'' then Some ''http'' else None)
                   in case http of
                        None \<Rightarrow> Inl (Err_base ''scheme unsupported'')
                      | Some h \<Rightarrow> if rest = [] then Inl (Err_base ''no host'') else Inr (h @ ''://'' @ rest)))"

record 'w reach_env = "'w upnp_env" +
  re_timeout :: "duration \<Rightarrow> 'w \<Rightarrow> 'w"
  re_map_timeout :: "duration \<Rightarrow> 'w \<Rightarrow> 'w"
  re_map_done :: "'w \<Rightarrow> 'w"
  re_release_timeout :: "'w \<Rightarrow> 'w"
  re_listen :: "'w \<Rightarrow> 16 word option option \<times> 'w"
  re_datagrams :: "'w \<Rightarrow> (bytes list \<times> bool) \<times> 'w"

text \<open>\<open>do\<close> and the decoding of the answer.\<close>

definition reach_do ::
  "upnp_lib \<Rightarrow> ('w, 'z) upnp_env_scheme \<Rightarrow> (bytes \<Rightarrow> 'a option) \<Rightarrow> string \<Rightarrow> bool \<Rightarrow> string \<Rightarrow> 'w
   \<Rightarrow> (reach_error + 'a) \<times> 'w" where
  "reach_do L E decode target post body w =
     (case ul_parse L target of
        None \<Rightarrow> (Inl Err_request, w)
      | Some u \<Rightarrow>
          (case http_do L E max_requests \<lparr>hq_url = u, hq_post = post, hq_action = [], hq_body = body\<rparr> w of
             (Http_failed, w1) \<Rightarrow> (Inl Err_transport, w1)
           | (Http_reply status data complete _, w1) \<Rightarrow>
               if \<not> complete then (Inl Err_body, w1)
               else if status \<noteq> 200 then (Inl (Err_status status), w1)
               else (case decode (take maxResponseBytes data) of None \<Rightarrow> (Inl Err_decode, w1) | Some x \<Rightarrow> (Inr x, w1))))"

definition PublicIP ::
  "upnp_lib \<Rightarrow> ('w, 'z) upnp_env_scheme \<Rightarrow> reach_json \<Rightarrow> reach_error + string \<Rightarrow> 'w \<Rightarrow> (reach_error + addr) \<times> 'w" where
  "PublicIP L E J b w =
     (case b of
        Inl err \<Rightarrow> (Inl err, w)
      | Inr base \<Rightarrow>
          (case reach_do L E (rj_whoami J) (base @ ''/whoami'') False [] w of
             (Inl err, w1) \<Rightarrow> (Inl err, w1)
           | (Inr ip, w1) \<Rightarrow>
               (case ul_parse_addr L (trim_space ip) of
                  None \<Rightarrow> (Inl (Err_bad_ip ip), w1)
                | Some a \<Rightarrow> (Inr (Unmap a), w1))))"

definition requestProbe ::
  "upnp_lib \<Rightarrow> ('w, 'z) upnp_env_scheme \<Rightarrow> reach_json \<Rightarrow> string \<Rightarrow> 16 word \<Rightarrow> bytes \<Rightarrow> 'w \<Rightarrow> (reach_error + string) \<times> 'w" where
  "requestProbe L E J base externalPort token w =
     (if externalPort < minProbePort then (Inl (Err_low_port externalPort), w)
      else case rj_probe_request J externalPort (b64_encode token) of
             None \<Rightarrow> (Inl Err_encode, w)
           | Some body \<Rightarrow>
               (case reach_do L E (rj_probe_response J) (base @ ''/probe'') True body w of
                  (Inl err, w1) \<Rightarrow> (Inl err, w1)
                | (Inr (sent, observed), w1) \<Rightarrow>
                    if \<not> sent then (Inl Err_declined, w1) else (Inr (trim_space observed), w1)))"

datatype await_result = Token_received | No_datagram | Socket_failed

text \<open>The datagrams that arrive before the read fails, and whether it fails by the deadline.\<close>

fun awaitToken :: "bytes list \<Rightarrow> bool \<Rightarrow> bytes \<Rightarrow> await_result" where
  "awaitToken [] deadline token = (if deadline then No_datagram else Socket_failed)"
| "awaitToken (d # ds) deadline token = (if take maxDatagram d = token then Token_received else awaitToken ds deadline token)"

record reach_result =
  rr_reachable :: bool
  rr_method :: string
  rr_ip :: string
  rr_port :: "16 word"
  rr_detail :: string

definition no_result :: reach_result where
  "no_result = \<lparr>rr_reachable = False, rr_method = [], rr_ip = [], rr_port = 0, rr_detail = []\<rparr>"

text \<open>The part of the self-test after the mapping, before the deferred release.\<close>

definition probe_mapped ::
  "upnp_lib \<Rightarrow> ('w, 'z) reach_env_scheme \<Rightarrow> reach_json \<Rightarrow> string \<Rightarrow> reach_result \<Rightarrow> 'w
   \<Rightarrow> (reach_result \<times> reach_error option) \<times> 'w" where
  "probe_mapped L E J base result w =
     (case pe_rand E tokenBytes w of
        (None, w1) \<Rightarrow> ((result, Some Err_token), w1)
      | (Some raw, w1) \<Rightarrow>
          (let token = fill_array tokenBytes raw
           in case requestProbe L E J base (rr_port result) token w1 of
                (Inl err, w2) \<Rightarrow> ((result\<lparr>rr_detail := ''gateway probe request failed''\<rparr>, Some err), w2)
              | (Inr observed, w2) \<Rightarrow>
                  (let result2 = (if rr_ip result = [] then result\<lparr>rr_ip := observed\<rparr> else result);
                       ((ds, deadline), w3) = re_datagrams E w2
                   in case awaitToken ds deadline token of
                        Token_received \<Rightarrow>
                          ((result2\<lparr>rr_reachable := True, rr_detail := ''inbound udp confirmed by gateway probe''\<rparr>, None), w3)
                      | No_datagram \<Rightarrow>
                          ((result2\<lparr>rr_detail := ''no probe datagram received before the deadline''\<rparr>, None), w3)
                      | Socket_failed \<Rightarrow> ((result2, Some Err_socket), w3))))"

definition mapped_result :: "upnp_lib \<Rightarrow> 16 word \<Rightarrow> mapping \<Rightarrow> reach_result" where
  "mapped_result L localPort m =
     no_result\<lparr>rr_method := mg_method m, rr_port := mg_port m,
               rr_ip := (if is_unspecified (mg_addr m) then [] else ul_addr_string L (mg_addr m))\<rparr>"

definition SelfTest ::
  "upnp_lib \<Rightarrow> ('w, 'z) reach_env_scheme \<Rightarrow> reach_json \<Rightarrow> reach_error + string \<Rightarrow> duration \<Rightarrow> 'w
   \<Rightarrow> (reach_result \<times> reach_error option) \<times> 'w" where
  "SelfTest L E J b timeout0 w =
     (case b of
        Inl err \<Rightarrow> ((no_result, Some err), w)
      | Inr base \<Rightarrow>
          (let timeout = (if timeout0 \<le> 0 then defaultTimeout else timeout0);
               (port, w1) = re_listen E (re_timeout E timeout w)
           in case port of
                None \<Rightarrow> ((no_result, Some Err_bind), w1)
              | Some None \<Rightarrow> ((no_result, Some Err_no_address), w1)
              | Some (Some localPort) \<Rightarrow>
                  (let (r, w2) = MapUDP L E localPort probeLifetime (re_map_timeout E (min (timeout sdiv 2) maxMapWait) w1);
                       w3 = re_map_done E w2
                   in case r of
                        Good m \<Rightarrow>
                          (let (out, w4) = probe_mapped L E J base (mapped_result L localPort m) w3
                           in (out, snd (Release L E (Some m) (re_release_timeout E w4))))
                      | _ \<Rightarrow>
                          probe_mapped L E J base (no_result\<lparr>rr_method := MethodDirect, rr_port := localPort\<rparr>) w3)))"

section \<open>Lemmas\<close>

lemma awaitToken_received: "awaitToken ds deadline token = Token_received \<longleftrightarrow> token \<in> take maxDatagram ` set ds"
  by (induction ds) auto

lemma token_length: "length token = tokenBytes \<Longrightarrow> take maxDatagram token = token"
  by (simp add: tokenBytes_def maxDatagram_def)

lemma handleProbe_datagram:
  assumes "handleProbe parse_addr trust l now io r body = (l', reply, Some (a, p, t))"
  shows "\<exists>port token x. body = Some (port, token) \<and> 1024 \<le> port \<and> port \<le> 65535 \<and> b64_decode token = Some t \<and> length t = 32
    \<and> parse_addr (clientIP trust r) = Some x \<and> a = Unmap x \<and> p = word_of_int port
    \<and> allow l (''probe:'' @ clientIP trust r) now = (l', True) \<and> reply = Probe_sent (clientIP trust r)"
  using assms
  by (auto simp: handleProbe_def Let_def probeTokenBytes_def split: option.splits if_splits prod.splits bool.splits)

lemma probe_mapped_reachable:
  assumes "probe_mapped L E J base result w = ((res, err), w')" "rr_reachable res" "\<not> rr_reachable result"
  shows "err = None \<and> rr_port res = rr_port result \<and> rr_method res = rr_method result
    \<and> (\<exists>raw w1 observed w2 ds deadline. pe_rand E tokenBytes w = (Some raw, w1)
        \<and> requestProbe L E J base (rr_port res) (fill_array tokenBytes raw) w1 = (Inr observed, w2)
        \<and> re_datagrams E w2 = ((ds, deadline), w') \<and> fill_array tokenBytes raw \<in> take maxDatagram ` set ds)"
  using assms
  by (auto simp: probe_mapped_def Let_def awaitToken_received
      split: prod.splits option.splits sum.splits await_result.splits if_splits)

text \<open>The self-test after the socket is bound.\<close>

lemma SelfTest_cases:
  assumes "SelfTest L E J b timeout w = (out, w')" "rr_reachable (fst out)"
  shows "\<exists>base p w1 r w2. b = Inr base \<and> MapUDP L E p probeLifetime w1 = (r, w2)
    \<and> (case r of
         Good m \<Rightarrow> \<exists>w4. probe_mapped L E J base (mapped_result L p m) (re_map_done E w2) = (out, w4)
           \<and> w' = snd (Release L E (Some m) (re_release_timeout E w4))
       | _ \<Rightarrow> probe_mapped L E J base (no_result\<lparr>rr_method := MethodDirect, rr_port := p\<rparr>) (re_map_done E w2) = (out, w'))"
proof -
  obtain base where b: "b = Inr base"
    using assms by (cases b) (auto simp: SelfTest_def no_result_def)
  define t where "t = (if timeout \<le> 0 then defaultTimeout else timeout)"
  obtain q w0 where listen: "re_listen E (re_timeout E t w) = (q, w0)"
    by fastforce
  then obtain p where q: "q = Some (Some p)"
    using assms b by (cases q) (auto simp: SelfTest_def no_result_def t_def Let_def split: option.splits)
  define w1 where "w1 = re_map_timeout E (min (t sdiv 2) maxMapWait) w0"
  obtain r w2 where r: "MapUDP L E p probeLifetime w1 = (r, w2)"
    by fastforce
  have "(case r of
         Good m \<Rightarrow> \<exists>w4. probe_mapped L E J base (mapped_result L p m) (re_map_done E w2) = (out, w4)
           \<and> w' = snd (Release L E (Some m) (re_release_timeout E w4))
       | _ \<Rightarrow> probe_mapped L E J base (no_result\<lparr>rr_method := MethodDirect, rr_port := p\<rparr>) (re_map_done E w2) = (out, w'))"
    using assms(1) listen q r
    by (cases r) (auto simp: SelfTest_def b t_def w1_def Let_def split: prod.splits)
  with b r show ?thesis by blast
qed

section \<open>Samples\<close>

definition probe_limiter :: rate_limiter where "probe_limiter = newRateLimiter 1 (10 * second)"

definition sample_token :: bytes where "sample_token = replicate 32 7"

definition sample_source :: probe_source where
  "sample_source = \<lparr>ps_remote = ''192.168.1.1:9'', ps_forwarded = []\<rparr>"

lemma sample_client: "clientIP False sample_source = ''192.168.1.1''"
proof -
  have "split_host ''192.168.1.1:9'' = Some ''192.168.1.1''" by code_simp
  then show ?thesis by (simp add: clientIP_def sample_source_def Let_def)
qed

lemma sample_probe:
  "handleProbe (ul_parse_addr sample_lib) False probe_limiter 0 \<lparr>pi_dial = True, pi_deadline = True, pi_write = True\<rparr>
     sample_source (Some (5000, b64_encode sample_token))
   = (fst (allow probe_limiter (''probe:192.168.1.1'') 0), Probe_sent ''192.168.1.1'', Some (sample_gateway, 5000, sample_token))"
proof -
  have "snd (allow probe_limiter ''probe:192.168.1.1'' 0)"
    by (simp add: allow_def probe_limiter_def newRateLimiter_def second_def)
  then obtain l' where "allow probe_limiter ''probe:192.168.1.1'' 0 = (l', True)"
    by (cases "allow probe_limiter ''probe:192.168.1.1'' 0") simp
  then show ?thesis
    by (simp add: handleProbe_def sample_client b64_decode_encode sample_token_def probeTokenBytes_def Let_def sample_lib_def
        sample_gateway_def)
qed

definition sample_reach_json :: reach_json where
  "sample_reach_json =
     \<lparr>rj_probe_request = (\<lambda>p t. Some t), rj_probe_response = (\<lambda>b. Some (True, ''192.168.1.1'')), rj_whoami = (\<lambda>b. None)\<rparr>"

definition reach_scripted :: "script reach_env" where
  "reach_scripted = upnp_env.extend (scripted [sample_gateway])
     (reach_env.fields (\<lambda>d w. w) (\<lambda>d w. w) (\<lambda>w. w) (\<lambda>w. w) (\<lambda>w. (Some (Some 5000), w)) (\<lambda>w. (([[], sample_token], True), w)))"

definition reach_script :: script where
  "reach_script = pcp_script\<lparr>sc_replies := [Http_reply 200 [] True []]\<rparr>"

lemmas reach_env_defs = reach_scripted_def upnp_env.defs reach_env.defs scripted_def

lemma reach_mapping:
  "MapUDP sample_lib reach_scripted 5000 lifetime reach_script = (Good sample_mapping, reach_script\<lparr>sc_reads := []\<rparr>)"
proof -
  let ?answer = "pcp_answer 0 3600 (replicate 16 0) (replicate 12 7) [0, 0, 0] 5000 6000 (mapped_prefix @ [203, 0, 113, 5]) []"
  have "length ?answer = 60"
    by (simp add: pcp_answer_def mapped_prefix_def)
  moreover have "parsePCPMapResponse ?answer (replicate 12 7) =
      Good \<lparr>pr_internal = 5000, pr_external = IPv4 [203, 0, 113, 5], pr_port = 6000, pr_lifetime = seconds_of 3600\<rparr>"
    by (subst pcp_answer_read) (simp_all add: mapped_prefix_def)
  ultimately show ?thesis
    by (simp add: MapUDP_def mapUDP_def reach_env_defs mapPCP_def localAddrFor_def addr_from_slice_def exchange_def Let_def
        fill_array_def reach_script_def pcp_script_def silent_script_def udpMaxAttempts_def pcpMaxRespBytes_def pcpNonceLen_def
        sample_mapping_def numeral_3_eq_3 seconds_of_exact second_def granted_lifetime_def)
qed

lemma reach_fields:
  "pe_rand reach_scripted n w = (Some (replicate n 7), w)"
  "ue_roundtrip reach_scripted = ue_roundtrip (scripted [sample_gateway])"
  "re_timeout reach_scripted d w = w" "re_map_timeout reach_scripted d w = w" "re_map_done reach_scripted w = w"
  "re_listen reach_scripted w = (Some (Some 5000), w)" "re_datagrams reach_scripted w = (([[], sample_token], True), w)"
  by (simp_all add: reach_env_defs)

lemma reach_run:
  "\<exists>w'. SelfTest sample_lib reach_scripted sample_reach_json (Inr ''gw'') 0 reach_script =
     ((\<lparr>rr_reachable = True, rr_method = MethodPCP, rr_ip = ''192.168.1.7'', rr_port = 6000,
        rr_detail = ''inbound udp confirmed by gateway probe''\<rparr>, None), w')"
proof -
  have "[203, 0, 113, 5] \<noteq> replicate 4 (0 :: byte)"
    by code_simp
  moreover have "fill_array tokenBytes (replicate tokenBytes 7) = sample_token"
    by (simp add: fill_array_def tokenBytes_def sample_token_def)
  moreover have "awaitToken [[], sample_token] True sample_token = Token_received"
    by (simp add: awaitToken_received sample_token_def maxDatagram_def)
  moreover have "http_do sample_lib reach_scripted max_requests q (reach_script\<lparr>sc_reads := []\<rparr>) =
      (Http_reply 200 [] True [], reach_script\<lparr>sc_reads := [], sc_replies := [], sc_asked := [u_host (hq_url q)]\<rparr>)" for q
    by (simp add: max_requests_def numeral_eq_Suc reach_fields scripted_def reach_script_def pcp_script_def silent_script_def redirect_status_def)
  moreover have "ul_parse sample_lib x = Some \<lparr>u_scheme = ''http'', u_user = None, u_host = x, u_rest = []\<rparr>"
    "ul_addr_string sample_lib a = ''192.168.1.7''" for x a
    by (simp_all add: sample_lib_def)
  ultimately show ?thesis
   by (simp add: SelfTest_def Let_def case_prod_beta reach_fields reach_mapping probe_mapped_def requestProbe_def mapped_result_def
      reach_do_def sample_mapping_def sample_reach_json_def minProbePort_def is_unspecified_def no_result_def)
qed

section \<open>Properties\<close>

text \<open>The gateway sends a probe datagram only to the address it attributes the request to, to a port from 1024 up, with
  exactly the 32 bytes of the token, once per request and only when the limiter admitted that address.\<close>

theorem probe_to_source_only:
  assumes "handleProbe parse_addr trust l now io r body = (l', reply, Some (a, p, t))"
  shows "(\<exists>x. parse_addr (clientIP trust r) = Some x \<and> a = Unmap x) \<and> 1024 \<le> uint p \<and> length t = 32
    \<and> allow l (''probe:'' @ clientIP trust r) now = (l', True) \<and> reply = Probe_sent (clientIP trust r)"
proof -
  from handleProbe_datagram [OF assms] obtain port token x where h: "1024 \<le> port" "port \<le> 65535" "length t = 32"
    "parse_addr (clientIP trust r) = Some x" "a = Unmap x" "p = word_of_int port"
    "allow l (''probe:'' @ clientIP trust r) now = (l', True)" "reply = Probe_sent (clientIP trust r)"
    by blast
  then have "uint p = port"
    by (simp add: uint_word_of_int)
  with h show ?thesis by auto
qed

theorem probe_to_source_only_witness:
  "ul_parse_addr sample_lib (clientIP False sample_source) = Some sample_gateway \<and> 1024 \<le> uint (5000 :: 16 word)
    \<and> length sample_token = 32"
  using probe_to_source_only [OF sample_probe] by (simp add: sample_client sample_lib_def)





section \<open>Forwarded headers\<close>

text \<open>Behind a proxy that appends to \<open>X-Forwarded-For\<close>, the leftmost entry is what the caller wrote: it chooses where the probe
  goes, and a fresh limiter key with it.\<close>

lemma forwarded_header_chooses_target:
  "clientIP True \<lparr>ps_remote = ''192.168.1.1:9'', ps_forwarded = ''203.0.113.5,198.51.100.7''\<rparr> = ''203.0.113.5''"
proof -
  have "list_all graphic ''203.0.113.5,198.51.100.7''" "list_all graphic ''203.0.113.5''"
    by code_simp+
  then have "trim_space ''203.0.113.5,198.51.100.7'' = ''203.0.113.5,198.51.100.7''" "trim_space ''203.0.113.5'' = ''203.0.113.5''"
    by (simp_all only: trim_space_graphic)
  then show ?thesis
    by (simp add: clientIP_def Let_def)
qed

end
