(* ===== verification/Spec2Isabelle.thy ===== *)
theory Spec2Isabelle
  imports Framing Gateway_Wire E2EE Send_Buffer Rate_Limiter Quota Pane_Delta Seq_Match History
    Scheduler_Props Attention_Props Stun Gateway_Props Pane_Size_Props Gateway_Link_Props Hub_Props Journal_Props Answering_Props
    Worker Mapper Release_Props Probe
begin

text \<open>
  \<^bold>\<open>The mobile relay and its gateway.\<close> A phone talks to agents running in terminal panes of a computer. On the
  computer the \<^emph>\<open>relay\<close> watches the panes, keeps their state and runs commands on them; a phone reaches it
  directly or through a \<^emph>\<open>gateway\<close> that pairs both by a relay id and forwards opaque frames. The development models the
  parts that decide something; reading sockets and files, JSON and cryptographic primitives are
  arguments of the definitions that use them.

  \<^bold>\<open>Theories and sources\<close> (under \<^verbatim>\<open>src/internal\<close>)

  \<^item> \<open>Relay_Prelude\<close>: bytes, big-endian numbers, Go times and durations, runs of a machine, the locales
    \<open>invariant_machine\<close> (a one-step invariant holds over every run) and \<open>wire_codec\<close> (encoder and decoder).
    \<open>Base64url\<close>, \<open>Go_Strings\<close>, \<open>Go_Text\<close>: the parts of Go's standard library the sources use.
  \<^item> \<open>Framing\<close> (\<^verbatim>\<open>framing/framing.go\<close>): chunking of logical frames and the receiver that reassembles them. The stream
    survives chunking; the receiver's memory is bounded on every input; which chunks are out of sequence.
  \<^item> \<open>Gateway_Wire\<close> (\<^verbatim>\<open>gatewaywire/gatewaywire.go\<close>): the multiplexed frame, relay ids and connect proofs. The frame codec
    is an interpretation of \<open>wire_codec\<close>.
  \<^item> \<open>E2EE\<close> (\<^verbatim>\<open>transport/e2ee.go\<close>): the encrypted session with both codecs and the server's handshake. Round trip of a
    whole conversation, no replay, no repeated nonce, what a completed handshake implies.
  \<^item> \<open>Send_Buffer\<close> (\<^verbatim>\<open>transport/sendbuffer.go\<close>): the bounded outgoing queue; it refines a FIFO queue.
  \<^item> \<open>Rate_Limiter\<close>, \<open>Quota\<close>, \<open>Stun\<close> (\<^verbatim>\<open>gateway/ratelimit.go\<close>, \<^verbatim>\<open>quota.go\<close>, \<^verbatim>\<open>stun.go\<close>): connection limits, monthly accounting with its
    notices and state file, address discovery with its answer format and flood ceilings.
  \<^item> \<open>Gateway_Server\<close>, \<open>Gateway_Props\<close> (\<^verbatim>\<open>gateway/server.go\<close>, \<^verbatim>\<open>relay.go\<close>, \<^verbatim>\<open>client.go\<close>): the rendezvous service as a machine whose events
    are the stretches of code between two waits of a goroutine. Ceilings and exact counters over every
    interleaving, how a registration can be lost, connection ids, the outcome of a pairing, teardown.
  \<^item> \<open>Gateway_Client\<close>, \<open>Gateway_Link\<close>, \<open>Gateway_Link_Props\<close> (\<^verbatim>\<open>transport/gateway.go\<close>, \<^verbatim>\<open>conn.go\<close>): the relay's side of the gateway. Choosing and
    changing the gateway against a reference choice, the reconnect loop, and one link with its goroutines: what phone
    and hub receive over every interleaving, which connections are in the table.
  \<^item> \<open>Hub\<close>, \<open>Hub_Props\<close> (\<^verbatim>\<open>transport/ws.go\<close>, \<^verbatim>\<open>auth.go\<close>): the hub that serves every client, \<open>Serve\<close> cut at its waits and locks, with an
    abstract application state that \<open>onConnect\<close> snapshots and a prepared broadcast changes. Every update is seen exactly
    once, shutdown is final, messages reach the handlers in order.
  \<^item> \<open>Pane_Delta\<close> (\<^verbatim>\<open>panedelta/delta.go\<close>): line deltas between captures; applying what was built yields the
    capture. \<open>Seq_Match\<close> (\<^verbatim>\<open>seqmatch/seqmatch.go\<close>): longest matching block and all matching blocks, with termination of
    the work list. \<open>History\<close> (\<^verbatim>\<open>history/history.go\<close>): merging captures into a bounded history, against an abstract merge.
  \<^item> \<open>Scheduler\<close>, \<open>Scheduler_Inv\<close>, \<open>Scheduler_Props\<close> (\<^verbatim>\<open>coordinator/coordinator.go\<close>): the goroutine that owns all pane operations,
    with every message it handles. Capacity, one answer per request, what dispatch may start and that it leaves no
    capacity unused, topology changes, the deduplication ledger.
  \<^item> \<open>Attention_State\<close>, \<open>Attention_Inv\<close>, \<open>Attention_Props\<close> (\<^verbatim>\<open>coordinator/state.go\<close>, \<^verbatim>\<open>triage.go\<close>): the pane store with its topology
    epochs, session generations, poll tokens and event revisions. Races between polls and events, sessions that never
    come back, refusal of stale polls, what a snapshot shows.
  \<^item> \<open>Pane_Size\<close>, \<open>Pane_Size_Props\<close> (\<^verbatim>\<open>panesize/manager.go\<close>): leases on the size of a terminal, with the terminals as the effect
    of the logged \<^verbatim>\<open>stty\<close> calls. What a lease grants, and that every terminal gets its own size back.

  \<^item> \<open>Journal\<close>, \<open>Journal_Props\<close> (\<^verbatim>\<open>activity/journal.go\<close>): the activity journal with its two files and every disk state between two
    writes. Limits, what is kept against the longest fitting suffix, reopening, and crashes that lose or keep an
    operation as a whole. \<open>Worker\<close> (\<^verbatim>\<open>activity/worker.go\<close>): the goroutine that owns it; concurrent callers see the
    operations one after the other, each with its own answer.
  \<^item> \<open>Portmap\<close>, \<open>Upnp\<close>, \<open>Portmap_Props\<close>, \<open>Mapper\<close> (\<^verbatim>\<open>portmap/*.go\<close>): asking the router for a port mapping by PCP, NAT-PMP or UPnP, over an
    environment of sockets and clock, and the goroutine that keeps a mapping alive. Exact reading of answers, no panic on any
    bytes, endpoints stay on the host that answered, the schedule of renewals, and closing.
  \<^item> \<open>Probe\<close> (\<^verbatim>\<open>gateway/probe.go\<close>, \<^verbatim>\<open>reachability/reachability.go\<close>): the reachability test on both sides, relay and gateway
    composed: a served request sends the relay's token where the relay recognises it.
  \<^item> \<open>Release_Manifest\<close>, \<open>Release_Props\<close> (\<^verbatim>\<open>release/*.go\<close>): building, verifying and sealing a release bundle on a file tree. What a
    verified bundle holds, that a built one verifies, the web hash, and which upgrades stay connected.

  \<^item> \<open>Question_Input\<close>, \<open>Question_Input_Props\<close> (\<^verbatim>\<open>question/input.go\<close>): the key presses planned for an answer, per agent, and where a terminal
    that reads them presses what. \<open>Answering\<close>, \<open>Answering_Props\<close> (\<^verbatim>\<open>coordinator/approval.go\<close>, parts of \<^verbatim>\<open>dispatch.go\<close>): approvals, answers and prompts from
    admission to the watcher, over the pane store. Only the meant option is pressed, failures do not hide applied input,
    no answer panics.

  \<^bold>\<open>How state and concurrency are represented.\<close> A struct is a record with the fields of the source; a Go map is
  a partial function, or an association list where its size or order matters; objects shared between
  goroutines live in a store indexed by allocation number. Code under a lock is one function from state to
  state, and a property over interleavings is one over lists of such steps. The clock, random bytes and the outcome of
  I/O are arguments of the step that uses them. Integers that can wrap are words; a Go \<open>int\<close> that counts items is
  an \<open>int\<close> or \<open>nat\<close>.

  \<^bold>\<open>Bounds.\<close> No model uses fuel: loops are recursive functions with a termination proof. The theorems on
  connection ids and on the gateway's counters are stated for fewer than \<open>2^32\<close> events, since the id
  counter of a link wraps there; \<open>conn_id_wraps\<close> shows what happens then. The encrypted session ends at
  sequence \<open>2^53 - 1\<close>, and its theorems speak about the steps before.

  \<^bold>\<open>Not modelled.\<close> The application server, the herdr client and the WebRTC link are wiring and calls into
  other programs and libraries; the rest of the command dispatcher, the question parser, push notifications, the download and installation of updates,
  configuration and file access are left out so far. The handler body of \<open>/healthz\<close> is plain HTTP.
\<close>

end
